(* ===== verification/Bub_Prelude.thy ===== *)
theory Bub_Prelude
  imports "HOL-Library.Word"
begin

text \<open>
  Shared vocabulary of the development: machine integers as words, byte strings, the
  fragments of Rust's standard library the modelled code calls (slices, \<open>split\<close>,
  \<open>strip_suffix\<close>, \<open>rsplit_once\<close>, ASCII classes, integer parsing and printing, byte order),
  and the \<open>?\<close> operator on \<open>Result\<close>.  Text is its UTF-8 bytes: a Rust \<open>str\<close>, \<open>OsStr\<close> or
  \<open>[u8]\<close> is a list of 8-bit words, and a literal is written \<open>str ''...''\<close>.
  \<open>usize\<close> is \<open>nat\<close> with the 64-bit bound written out in \<open>checked_add\<close>
  (the build requires a 64-bit target); an \<open>Instant\<close> is a natural number of nanoseconds.
\<close>

unbundle bit_operations_syntax

named_theorems rust_simps \<open>equations for the Result operator and slices\<close>
named_theorems byte_simps \<open>round trips of the integer byte codecs\<close>
named_theorems ascii_defs \<open>the ASCII character classes\<close>

type_synonym byte = "8 word"
type_synonym bytes = "8 word list"
type_synonym u16 = "16 word"
type_synonym u32 = "32 word"
type_synonym instant = nat
type_synonym duration = nat

definition str :: "string \<Rightarrow> bytes" where
  "str s = map of_char s"

lemma str_Nil [simp]: "str [] = []"
  by (simp add: str_def)

lemma str_Cons [simp]: "str (c # s) = of_char c # str s"
  by (simp add: str_def)

section \<open>Result and the question-mark operator\<close>

definition res_bind :: "'e + 'a \<Rightarrow> ('a \<Rightarrow> 'e + 'b) \<Rightarrow> 'e + 'b" where
  "res_bind r f = (case r of Inl e \<Rightarrow> Inl e | Inr a \<Rightarrow> f a)"

definition ok_or :: "'e \<Rightarrow> 'a option \<Rightarrow> 'e + 'a" where
  "ok_or e x = (case x of None \<Rightarrow> Inl e | Some a \<Rightarrow> Inr a)"

lemma res_bind_simps [simp, rust_simps]:
  "res_bind (Inl e) f = Inl e"
  "res_bind (Inr a) f = f a"
  by (simp_all add: res_bind_def)

lemma res_bind_eq_Inr [rust_simps]:
  "res_bind r f = Inr b \<longleftrightarrow> (\<exists>a. r = Inr a \<and> f a = Inr b)"
  by (cases r) auto

lemma res_bind_eq_Inl [rust_simps]:
  "res_bind r f = Inl e \<longleftrightarrow> r = Inl e \<or> (\<exists>a. r = Inr a \<and> f a = Inl e)"
  by (cases r) auto

lemma ok_or_simps [simp, rust_simps]:
  "ok_or e None = Inl e"
  "ok_or e (Some a) = Inr a"
  by (simp_all add: ok_or_def)

lemma ok_or_eq [rust_simps]:
  "ok_or e x = Inr a \<longleftrightarrow> x = Some a"
  "ok_or e x = Inl e' \<longleftrightarrow> x = None \<and> e' = e"
  by (cases x; auto)+

section \<open>Sizes and slices\<close>

definition usize_max :: nat where
  "usize_max = 2 ^ 64 - 1"

definition checked_add :: "nat \<Rightarrow> nat \<Rightarrow> nat option" where
  "checked_add a b = (if a + b \<le> usize_max then Some (a + b) else None)"

definition get_range :: "'a list \<Rightarrow> nat \<Rightarrow> nat \<Rightarrow> 'a list option" where
  "get_range xs i j = (if i \<le> j \<and> j \<le> length xs then Some (take (j - i) (drop i xs)) else None)"

definition get_at :: "'a list \<Rightarrow> nat \<Rightarrow> 'a option" where
  "get_at xs i = (if i < length xs then Some (xs ! i) else None)"

lemma checked_add_eq_Some [rust_simps]:
  "checked_add a b = Some c \<longleftrightarrow> c = a + b \<and> a + b \<le> usize_max"
  by (auto simp: checked_add_def)

lemma checked_add_Some: "a + b \<le> usize_max \<Longrightarrow> checked_add a b = Some (a + b)"
  by (simp add: checked_add_def)

lemma get_range_eq_Some [rust_simps]:
  "get_range xs i j = Some ys \<longleftrightarrow> i \<le> j \<and> j \<le> length xs \<and> ys = take (j - i) (drop i xs)"
  by (auto simp: get_range_def)

lemma get_range_eq_None [rust_simps]:
  "get_range xs i j = None \<longleftrightarrow> \<not> (i \<le> j \<and> j \<le> length xs)"
  by (auto simp: get_range_def)

lemma get_range_length: "get_range xs i j = Some ys \<Longrightarrow> length ys = j - i"
  by (auto simp: get_range_def split: if_splits)

lemma get_range_mid [simp]:
  "get_range (pre @ mid @ post) (length pre) (length pre + length mid) = Some mid"
  by (simp add: get_range_def)

lemma get_at_eq_Some [rust_simps]: "get_at xs i = Some x \<longleftrightarrow> i < length xs \<and> xs ! i = x"
  by (auto simp: get_at_def)

lemma get_at_eq_None [rust_simps]: "get_at xs i = None \<longleftrightarrow> length xs \<le> i"
  by (auto simp: get_at_def)

text \<open>\<open>iter().position(p)\<close>.\<close>

fun position :: "('a \<Rightarrow> bool) \<Rightarrow> 'a list \<Rightarrow> nat option" where
  "position p [] = None"
| "position p (x # xs) = (if p x then Some 0 else map_option Suc (position p xs))"

lemma position_Some:
  "position p xs = Some i \<Longrightarrow> i < length xs \<and> p (xs ! i) \<and> (\<forall>j < i. \<not> p (xs ! j))"
proof (induction xs arbitrary: i)
  case Nil
  then show ?case by simp
next
  case (Cons x xs)
  show ?case
  proof (cases "p x")
    case True
    with Cons.prems show ?thesis by simp
  next
    case False
    with Cons.prems obtain k where "position p xs = Some k" and "i = Suc k" by auto
    with Cons.IH [of k] False show ?thesis by (auto simp: nth_Cons split: nat.splits)
  qed
qed

lemma position_None: "position p xs = None \<longleftrightarrow> (\<forall>x \<in> set xs. \<not> p x)"
  by (induction xs) auto

lemma position_append:
  "position p (xs @ ys) =
     (case position p xs of Some i \<Rightarrow> Some i | None \<Rightarrow> map_option ((+) (length xs)) (position p ys))"
  by (induction xs; cases "position p ys") (auto split: option.splits)

section \<open>Text: splitting, suffixes, ASCII\<close>

text \<open>\<open>split(sep)\<close> yields at least one piece; \<open>join\<close> is its inverse.\<close>

fun split_on :: "'a \<Rightarrow> 'a list \<Rightarrow> 'a list list" where
  "split_on c [] = [[]]"
| "split_on c (x # xs) =
     (if x = c then [] # split_on c xs
      else case split_on c xs of [] \<Rightarrow> [[x]] | p # ps \<Rightarrow> (x # p) # ps)"

fun join :: "'a list \<Rightarrow> 'a list list \<Rightarrow> 'a list" where
  "join sep [] = []"
| "join sep [p] = p"
| "join sep (p # q # ps) = p @ sep @ join sep (q # ps)"

definition strip_suffix :: "'a \<Rightarrow> 'a list \<Rightarrow> 'a list option" where
  "strip_suffix c xs = (if xs \<noteq> [] \<and> last xs = c then Some (butlast xs) else None)"

definition strip_or :: "'a \<Rightarrow> 'a list \<Rightarrow> 'a list" where
  "strip_or c xs = (case strip_suffix c xs of None \<Rightarrow> xs | Some ys \<Rightarrow> ys)"

text \<open>\<open>rsplit_once(sep)\<close>: around the last separator.\<close>

fun rsplit_once :: "'a \<Rightarrow> 'a list \<Rightarrow> ('a list \<times> 'a list) option" where
  "rsplit_once c [] = None"
| "rsplit_once c (x # xs) =
     (case rsplit_once c xs of
        Some (a, b) \<Rightarrow> Some (x # a, b)
      | None \<Rightarrow> if x = c then Some ([], xs) else None)"

lemma split_on_not_Nil [simp]: "split_on c xs \<noteq> []"
  by (cases xs) (auto split: list.splits)

lemma split_on_pieces: "p \<in> set (split_on c xs) \<Longrightarrow> c \<notin> set p"
proof (induction xs arbitrary: p)
  case Nil
  then show ?case by simp
next
  case (Cons x xs)
  then show ?case
    by (cases "split_on c xs") (auto split: if_splits)
qed

lemma join_split_on: "join [c] (split_on c xs) = xs"
proof (induction xs)
  case Nil
  then show ?case by simp
next
  case (Cons x xs)
  obtain p ps where ps: "split_on c xs = p # ps"
    by (cases "split_on c xs") auto
  with Cons show ?case by (cases ps) auto
qed

lemma split_on_no_sep: "c \<notin> set xs \<Longrightarrow> split_on c xs = [xs]"
  by (induction xs) auto

lemma split_on_append_sep: "c \<notin> set p \<Longrightarrow> split_on c (p @ c # xs) = p # split_on c xs"
  by (induction p) auto

lemma split_on_join:
  assumes "ps \<noteq> []" and "\<And>p. p \<in> set ps \<Longrightarrow> c \<notin> set p"
  shows "split_on c (join [c] ps) = ps"
  using assms
proof (induction "[c]" ps rule: join.induct)
  case (3 p q ps)
  then show ?case by (simp add: split_on_append_sep)
qed (auto simp: split_on_no_sep)

lemma set_join: "set (join sep ps) \<subseteq> set sep \<union> (\<Union>p \<in> set ps. set p)"
  by (induction sep ps rule: join.induct) auto

lemma rsplit_once_Some:
  "rsplit_once c xs = Some (a, b) \<Longrightarrow> xs = a @ c # b \<and> c \<notin> set b"
proof (induction xs arbitrary: a b)
  case Nil
  then show ?case by simp
next
  case (Cons x xs)
  show ?case
  proof (cases "rsplit_once c xs")
    case None
    then have "c \<notin> set xs"
      by (induction xs) (auto split: option.splits if_splits)
    with None Cons.prems show ?thesis by (auto split: if_splits)
  next
    case (Some ab)
    with Cons show ?thesis by (cases ab) auto
  qed
qed

lemma rsplit_once_None: "rsplit_once c xs = None \<longleftrightarrow> c \<notin> set xs"
  by (induction xs) (auto split: option.splits if_splits)

lemma rsplit_once_append: "c \<notin> set b \<Longrightarrow> rsplit_once c (a @ c # b) = Some (a, b)"
  by (induction a) (auto simp: rsplit_once_None [THEN iffD2])

lemma strip_suffix_snoc [simp]: "strip_suffix c (xs @ [c]) = Some xs"
  by (simp add: strip_suffix_def)

lemma strip_or_snoc [simp]: "strip_or c (xs @ [c]) = xs"
  by (simp add: strip_or_def)

lemma strip_or_other: "xs = [] \<or> last xs \<noteq> c \<Longrightarrow> strip_or c xs = xs"
  by (auto simp: strip_or_def strip_suffix_def)

lemma strip_or_cases: "strip_or c xs = xs \<and> (xs = [] \<or> last xs \<noteq> c) \<or> xs = strip_or c xs @ [c]"
  by (auto simp: strip_or_def strip_suffix_def)

lemma length_strip_or: "length (strip_or c xs) \<le> length xs"
  by (auto simp: strip_or_def strip_suffix_def)

definition is_ascii_digit :: "byte \<Rightarrow> bool" where
  [ascii_defs]: "is_ascii_digit b \<longleftrightarrow> 0x30 \<le> b \<and> b \<le> 0x39"

definition is_ascii_upper :: "byte \<Rightarrow> bool" where
  [ascii_defs]: "is_ascii_upper b \<longleftrightarrow> 0x41 \<le> b \<and> b \<le> 0x5a"

definition is_ascii_lower :: "byte \<Rightarrow> bool" where
  [ascii_defs]: "is_ascii_lower b \<longleftrightarrow> 0x61 \<le> b \<and> b \<le> 0x7a"

definition is_ascii_alphanumeric :: "byte \<Rightarrow> bool" where
  [ascii_defs]:
    "is_ascii_alphanumeric b \<longleftrightarrow> is_ascii_digit b \<or> is_ascii_upper b \<or> is_ascii_lower b"

definition to_ascii_lowercase :: "byte \<Rightarrow> byte" where
  "to_ascii_lowercase b = (if is_ascii_upper b then b + 0x20 else b)"

definition eq_ignore_ascii_case :: "bytes \<Rightarrow> bytes \<Rightarrow> bool" where
  "eq_ignore_ascii_case a b \<longleftrightarrow> map to_ascii_lowercase a = map to_ascii_lowercase b"

lemma is_ascii_upper_unat: "is_ascii_upper b \<longleftrightarrow> 65 \<le> unat b \<and> unat b \<le> 90"
  by (simp add: is_ascii_upper_def word_le_nat_alt)

lemma unat_lowercase: "is_ascii_upper b \<Longrightarrow> unat (b + 0x20) = unat b + 32"
  by (simp add: is_ascii_upper_unat unat_word_ariths)

lemma lowercase_idem [simp]: "to_ascii_lowercase (to_ascii_lowercase b) = to_ascii_lowercase b"
  by (auto simp: to_ascii_lowercase_def is_ascii_upper_unat unat_lowercase)

lemma lowercase_list_idem [simp]:
  "map to_ascii_lowercase (map to_ascii_lowercase xs) = map to_ascii_lowercase xs"
  by simp

lemma lowercase_not_upper [simp]: "\<not> is_ascii_upper (to_ascii_lowercase b)"
  by (auto simp: to_ascii_lowercase_def is_ascii_upper_unat unat_lowercase)

lemma lowercase_id: "\<not> is_ascii_upper b \<Longrightarrow> to_ascii_lowercase b = b"
  by (simp add: to_ascii_lowercase_def)

lemma lowercase_eq_iff:
  "\<not> is_ascii_upper c \<Longrightarrow> \<not> is_ascii_lower c \<Longrightarrow> to_ascii_lowercase b = c \<longleftrightarrow> b = c"
proof -
  assume "\<not> is_ascii_upper c" "\<not> is_ascii_lower c"
  moreover have "is_ascii_upper b \<Longrightarrow> is_ascii_lower (b + 0x20)"
    using unat_lowercase [of b]
    by (simp add: is_ascii_upper_unat is_ascii_lower_def word_le_nat_alt)
  ultimately show ?thesis by (auto simp: to_ascii_lowercase_def)
qed

definition starts_with :: "'a list \<Rightarrow> 'a list \<Rightarrow> bool" where
  "starts_with p s \<longleftrightarrow> take (length p) s = p"

lemma starts_with_iff: "starts_with p s \<longleftrightarrow> (\<exists>r. s = p @ r)"
  unfolding starts_with_def by (metis append_eq_conv_conj append_take_drop_id)

section \<open>Integers as text\<close>

text \<open>\<open>str::parse\<close> for an unsigned type with largest value \<open>hi\<close>: an optional plus sign, then
  at least one digit, then the bound.\<close>

definition digit_val :: "byte \<Rightarrow> nat" where
  "digit_val b = unat b - 48"

definition dec_val :: "bytes \<Rightarrow> nat" where
  "dec_val ds = foldl (\<lambda>n d. 10 * n + digit_val d) 0 ds"

definition parse_unsigned :: "nat \<Rightarrow> bytes \<Rightarrow> nat option" where
  "parse_unsigned hi s =
     (let ds = (if s \<noteq> [] \<and> hd s = 0x2b then tl s else s)
      in if ds \<noteq> [] \<and> (\<forall>d \<in> set ds. is_ascii_digit d) \<and> dec_val ds \<le> hi
         then Some (dec_val ds) else None)"

definition parse_signed :: "nat \<Rightarrow> bytes \<Rightarrow> int option" where
  "parse_signed bits s =
     (if s \<noteq> [] \<and> hd s = 0x2d
      then (let ds = tl s
            in if ds \<noteq> [] \<and> (\<forall>d \<in> set ds. is_ascii_digit d) \<and> dec_val ds \<le> 2 ^ (bits - 1)
               then Some (- int (dec_val ds)) else None)
      else map_option int (parse_unsigned (2 ^ (bits - 1) - 1) s))"

fun dec_digits :: "nat \<Rightarrow> bytes" where
  "dec_digits n =
     (if n < 10 then [of_nat (48 + n)] else dec_digits (n div 10) @ [of_nat (48 + n mod 10)])"

declare dec_digits.simps [simp del]

lemma digit_of_nat: "n < 10 \<Longrightarrow> digit_val (of_nat (48 + n)) = n"
  by (simp add: digit_val_def unat_of_nat unat_word_ariths)

lemma ascii_digit_of_nat: "n < 10 \<Longrightarrow> is_ascii_digit (of_nat (48 + n))"
  by (simp add: is_ascii_digit_def word_le_nat_alt unat_of_nat unat_word_ariths)

lemma dec_val_snoc: "dec_val (ds @ [d]) = 10 * dec_val ds + digit_val d"
  by (simp add: dec_val_def)

lemma dec_val_digits: "dec_val (dec_digits n) = n"
proof (induction n rule: dec_digits.induct)
  case (1 n)
  show ?case
  proof (cases "n < 10")
    case True
    then show ?thesis
      using digit_of_nat [of n] by (simp add: dec_digits.simps [of n] dec_val_def)
  next
    case False
    then show ?thesis
      using 1 digit_of_nat [of "n mod 10"]
      by (simp add: dec_digits.simps [of n] dec_val_snoc)
  qed
qed

lemma dec_digits_ascii: "d \<in> set (dec_digits n) \<Longrightarrow> is_ascii_digit d"
proof (induction n arbitrary: d rule: dec_digits.induct)
  case (1 n)
  then show ?case
    using ascii_digit_of_nat [of n] ascii_digit_of_nat [of "n mod 10"]
    by (auto simp: dec_digits.simps [of n] split: if_splits)
qed

lemma dec_digits_not_Nil [simp]: "dec_digits n \<noteq> []"
  by (subst dec_digits.simps) simp

lemma parse_dec_digits: "n \<le> hi \<Longrightarrow> parse_unsigned hi (dec_digits n) = Some n"
proof -
  assume "n \<le> hi"
  have "hd (dec_digits n) \<noteq> 0x2b"
    using dec_digits_ascii [of "hd (dec_digits n)" n]
    by (auto simp: is_ascii_digit_def)
  with \<open>n \<le> hi\<close> show ?thesis
    using dec_digits_ascii [of _ n] by (auto simp: parse_unsigned_def dec_val_digits)
qed

lemma parse_unsigned_le: "parse_unsigned hi s = Some n \<Longrightarrow> n \<le> hi"
  by (auto simp: parse_unsigned_def Let_def split: if_splits)

section \<open>Byte order\<close>

definition u32_le :: "u32 \<Rightarrow> bytes" where
  "u32_le w = [ucast w, ucast (drop_bit 8 w), ucast (drop_bit 16 w), ucast (drop_bit 24 w)]"

definition le_u32 :: "byte \<Rightarrow> byte \<Rightarrow> byte \<Rightarrow> byte \<Rightarrow> u32" where
  "le_u32 a b c d =
     ucast a OR push_bit 8 (ucast b) OR push_bit 16 (ucast c) OR push_bit 24 (ucast d)"

definition u16_be :: "u16 \<Rightarrow> bytes" where
  "u16_be w = [ucast (drop_bit 8 w), ucast w]"

definition be_u16 :: "byte \<Rightarrow> byte \<Rightarrow> u16" where
  "be_u16 a b = push_bit 8 (ucast a) OR ucast b"

definition be_u32 :: "byte \<Rightarrow> byte \<Rightarrow> byte \<Rightarrow> byte \<Rightarrow> u32" where
  "be_u32 a b c d = le_u32 d c b a"

lemma byte_bit_less: "bit (b :: byte) n \<Longrightarrow> n < 8"
  using bit_imp_le_length [of b n] by simp

lemma le_u32_of_u32 [simp, byte_simps]:
  "le_u32 (ucast w) (ucast (drop_bit 8 w)) (ucast (drop_bit 16 w)) (ucast (drop_bit 24 w)) = w"
proof (rule bit_word_eqI)
  fix n :: nat
  assume "n < LENGTH(32)"
  then consider "n < 8" | "8 \<le> n" "n < 16" | "16 \<le> n" "n < 24" | "24 \<le> n" "n < 32"
    by fastforce
  then show "bit (le_u32 (ucast w) (ucast (drop_bit 8 w)) (ucast (drop_bit 16 w))
      (ucast (drop_bit 24 w))) n = bit w n"
    by cases (auto simp: le_u32_def bit_simps)
qed

lemma u32_le_of_bytes [simp, byte_simps]: "u32_le (le_u32 a b c d) = [a, b, c, d]"
proof -
  have hi: "\<not> bit (x :: byte) (8 + n)" "\<not> bit x (16 + n)" "\<not> bit x (24 + n)" for x n
    using byte_bit_less [of x] by fastforce+
  show ?thesis
    unfolding le_u32_def u32_le_def
    by (auto intro!: bit_word_eqI simp: bit_simps hi)
qed

definition u16_le :: "u16 \<Rightarrow> bytes" where
  "u16_le w = [ucast w, ucast (drop_bit 8 w)]"

definition le_u16 :: "byte \<Rightarrow> byte \<Rightarrow> u16" where
  "le_u16 a b = push_bit 8 (ucast b) OR ucast a"

definition u64_le :: "64 word \<Rightarrow> bytes" where
  "u64_le w = u32_le (ucast w) @ u32_le (ucast (drop_bit 32 w))"

definition le_u64 :: "byte \<Rightarrow> byte \<Rightarrow> byte \<Rightarrow> byte \<Rightarrow> byte \<Rightarrow> byte \<Rightarrow> byte \<Rightarrow> byte \<Rightarrow> 64 word" where
  "le_u64 a b c d e f g h = push_bit 32 (ucast (le_u32 e f g h)) OR ucast (le_u32 a b c d)"

lemma le_u16_of_u16 [simp, byte_simps]: "le_u16 (ucast w) (ucast (drop_bit 8 w)) = w"
  by (rule bit_word_eqI) (auto simp: le_u16_def bit_simps)

lemma u64_le_halves:
  "push_bit 32 (ucast (ucast (drop_bit 32 w) :: u32)) OR ucast (ucast w :: u32) = (w :: 64 word)"
  by (rule bit_word_eqI) (auto simp: bit_simps)

lemma length_u16_le [simp]: "length (u16_le w) = 2"
  by (simp add: u16_le_def)

lemma be_u16_of_u16 [simp, byte_simps]: "be_u16 (ucast (drop_bit 8 w)) (ucast w) = w"
proof (rule bit_word_eqI)
  fix n :: nat
  assume "n < LENGTH(16)"
  then consider "n < 8" | "8 \<le> n" "n < 16" by fastforce
  then show "bit (be_u16 (ucast (drop_bit 8 w)) (ucast w)) n = bit w n"
    by cases (auto simp: be_u16_def bit_simps)
qed

lemma u16_be_of_bytes [simp, byte_simps]: "u16_be (be_u16 a b) = [a, b]"
proof -
  have hi: "\<not> bit (x :: byte) (8 + n)" for x n
    using byte_bit_less [of x "8 + n"] by fastforce
  show ?thesis
    unfolding be_u16_def u16_be_def
    by (auto intro!: bit_word_eqI simp: bit_simps hi)
qed

lemma unat_u32_less: "unat (w :: u32) < 2 ^ 32"
  using unsigned_less [of w] by simp

lemma unat_u16_less: "unat (w :: u16) < 2 ^ 16"
  using unsigned_less [of w] by simp

lemma length_u32_le [simp]: "length (u32_le w) = 4"
  by (simp add: u32_le_def)

lemma length_u64_le [simp]: "length (u64_le w) = 8"
  by (simp add: u64_le_def)

lemma length_u16_be [simp]: "length (u16_be w) = 2"
  by (simp add: u16_be_def)

text \<open>\<open>get(at..at+4)\<close> followed by \<open>from_le_bytes\<close>: the read every little-endian parser makes.\<close>

definition read_u32_le :: "bytes \<Rightarrow> nat \<Rightarrow> (u32 \<times> nat) option" where
  "read_u32_le buf at =
     (case checked_add at 4 of
        None \<Rightarrow> None
      | Some e \<Rightarrow>
          (case get_range buf at e of
             Some [a, b, c, d] \<Rightarrow> Some (le_u32 a b c d, e)
           | _ \<Rightarrow> None))"

lemma list4: "length xs = 4 \<Longrightarrow> \<exists>a b c d. xs = [a, b, c, d]"
  by (auto simp: numeral_eq_Suc length_Suc_conv)

lemma read_u32_le_Some:
  "read_u32_le buf at = Some (w, e) \<longleftrightarrow>
     e = at + 4 \<and> e \<le> usize_max \<and> e \<le> length buf \<and> take 4 (drop at buf) = u32_le w"
proof
  assume "read_u32_le buf at = Some (w, e)"
  then show "e = at + 4 \<and> e \<le> usize_max \<and> e \<le> length buf \<and> take 4 (drop at buf) = u32_le w"
    by (auto simp: read_u32_le_def checked_add_def get_range_def split: if_splits list.splits)
next
  assume r: "e = at + 4 \<and> e \<le> usize_max \<and> e \<le> length buf \<and> take 4 (drop at buf) = u32_le w"
  then show "read_u32_le buf at = Some (w, e)"
    by (simp add: read_u32_le_def checked_add_def get_range_def u32_le_def)
qed

lemma read_u32_le_at [simp]:
  "length pre + 4 \<le> usize_max \<Longrightarrow>
     read_u32_le (pre @ u32_le w @ post) (length pre) = Some (w, length pre + 4)"
  by (simp add: read_u32_le_Some)

lemma read_u32_le_None:
  "read_u32_le buf at = None \<longleftrightarrow> \<not> (at + 4 \<le> usize_max \<and> at + 4 \<le> length buf)"
proof -
  have "read_u32_le buf at \<noteq> None" if "at + 4 \<le> usize_max" "at + 4 \<le> length buf"
  proof -
    from that have "length (take 4 (drop at buf)) = 4" by simp
    then obtain a b c d where "take 4 (drop at buf) = [a, b, c, d]" using list4 by blast
    with that show ?thesis by (simp add: read_u32_le_def checked_add_def get_range_def)
  qed
  moreover have "read_u32_le buf at = None" if "\<not> (at + 4 \<le> usize_max \<and> at + 4 \<le> length buf)"
    using that by (cases "read_u32_le buf at") (auto simp: read_u32_le_Some)
  ultimately show ?thesis by blast
qed

end
