(* ===== verification/Bub_Codec.thy ===== *)
theory Bub_Codec
  imports Bub_Prelude
begin

text \<open>
  The contract of a wire format: a decoder that accepts exactly the encodings of valid
  values.  Both halves of a protocol rely on it (the sender on being understood, the
  receiver on there being one reading of the bytes it accepts).  The exec channel's
  request and status and the Wayland header are instances.
\<close>

locale exact_codec =
  fixes enc :: "'v \<Rightarrow> bytes"
    and dec :: "bytes \<Rightarrow> 'e + 'v"
    and valid :: "'v \<Rightarrow> bool"
  assumes dec_enc: "valid v \<Longrightarrow> dec (enc v) = Inr v"
    and dec_sound: "dec b = Inr v \<Longrightarrow> valid v \<and> enc v = b"
begin

lemma dec_iff: "dec b = Inr v \<longleftrightarrow> valid v \<and> b = enc v"
  using dec_enc dec_sound by blast

lemma enc_inj: "valid v \<Longrightarrow> valid w \<Longrightarrow> enc v = enc w \<Longrightarrow> v = w"
  using dec_enc by (metis sum.inject(2))

lemma dec_inj: "dec b = Inr v \<Longrightarrow> dec c = Inr v \<Longrightarrow> b = c"
  using dec_sound by metis

lemma dec_err_iff: "(\<exists>e. dec b = Inl e) \<longleftrightarrow> (\<forall>v. valid v \<longrightarrow> b \<noteq> enc v)"
  by (metis Inl_Inr_False dec_enc dec_sound sumE)

end

end
