(* ===== verification/Init_Proto.thy ===== *)
theory Init_Proto
  imports Bub_Codec
begin

text \<open>
  The wire format of the exec channel (\<^verbatim>\<open>crates/bubbler-init/src/proto.rs\<close>): one request per
  connection, little-endian flags and argument count, then length-prefixed arguments; and
  the four-byte wait status that answers it.  Shown: the decoder accepts exactly the
  encodings of non-empty argument lists with known flags that fit the size cap, so there
  is one reading of every accepted request, and every rejection names its reason.
\<close>

definition MAX_REQUEST :: nat where
  "MAX_REQUEST = 2 ^ 20"

definition FLAG_CTTY :: u32 where
  "FLAG_CTTY = 1"

definition KNOWN_FLAGS :: u32 where
  "KNOWN_FLAGS = FLAG_CTTY"

datatype ProtoError = Truncated | BadCount | TooLarge | BadFlags

record Request =
  flags :: u32
  argv :: "bytes list"

definition ctty :: "Request \<Rightarrow> bool" where
  "ctty r \<longleftrightarrow> flags r AND FLAG_CTTY \<noteq> 0"

definition encode_arg :: "bytes \<Rightarrow> bytes" where
  "encode_arg a = u32_le (of_nat (length a)) @ a"

definition encode_request :: "bytes list \<Rightarrow> u32 \<Rightarrow> bytes" where
  "encode_request args fl =
     u32_le fl @ u32_le (of_nat (length args)) @ concat (map encode_arg args)"

definition take4 :: "bytes \<Rightarrow> nat \<Rightarrow> ProtoError + (u32 \<times> nat)" where
  "take4 buf pos = ok_or Truncated (read_u32_le buf pos)"

text \<open>The argument loop: \<open>n\<close> iterations left, at offset \<open>pos\<close>, with the arguments so far.\<close>

fun decode_args :: "bytes \<Rightarrow> nat \<Rightarrow> nat \<Rightarrow> bytes list \<Rightarrow> ProtoError + (bytes list \<times> nat)" where
  "decode_args buf 0 pos acc = Inr (acc, pos)"
| "decode_args buf (Suc n) pos acc =
     res_bind (take4 buf pos) (\<lambda>(len, pos).
     res_bind (ok_or Truncated (checked_add pos (unat len))) (\<lambda>e.
     res_bind (ok_or Truncated (get_range buf pos e)) (\<lambda>b.
     decode_args buf n e (acc @ [b]))))"

definition decode_request :: "bytes \<Rightarrow> ProtoError + Request" where
  "decode_request buf =
     (if length buf > MAX_REQUEST then Inl TooLarge
      else res_bind (take4 buf 0) (\<lambda>(fl, pos).
        if fl AND NOT KNOWN_FLAGS \<noteq> 0 then Inl BadFlags
        else res_bind (take4 buf pos) (\<lambda>(argc32, pos).
          let argc = unat argc32 in
          if argc = 0 \<or> argc > MAX_REQUEST div 4 then Inl BadCount
          else res_bind (decode_args buf argc pos []) (\<lambda>(args, pos).
            if pos \<noteq> length buf then Inl Truncated
            else Inr \<lparr>flags = fl, argv = args\<rparr>))))"

definition encode_status :: "32 word \<Rightarrow> bytes" where
  "encode_status s = u32_le s"

text \<open>The argument is the fixed array \<open>[u8; 4]\<close>; a list of another length is not one.\<close>

definition decode_status :: "bytes \<Rightarrow> 32 word option" where
  "decode_status b = (case b of [x, y, z, w] \<Rightarrow> Some (le_u32 x y z w) | _ \<Rightarrow> None)"

section \<open>The argument loop\<close>

lemma concat_encode_length: "4 * length args \<le> length (concat (map encode_arg args))"
  by (induction args) (auto simp: encode_arg_def)

lemma encode_arg_member_length:
  "a \<in> set args \<Longrightarrow> length a \<le> length (concat (map encode_arg args))"
  by (induction args) (auto simp: encode_arg_def)

lemma concat_encode_Cons:
  "concat (map encode_arg (a # args)) =
     u32_le (of_nat (length a)) @ a @ concat (map encode_arg args)"
  by (simp add: encode_arg_def)

lemma unat_len: "n < 2 ^ 32 \<Longrightarrow> unat (of_nat n :: u32) = n"
  by (simp add: unat_of_nat)

lemma decode_args_encode:
  assumes "length (pre @ concat (map encode_arg args) @ post) \<le> MAX_REQUEST"
  shows "decode_args (pre @ concat (map encode_arg args) @ post) (length args) (length pre) acc =
    Inr (acc @ args, length pre + length (concat (map encode_arg args)))"
  using assms
proof (induction args arbitrary: pre acc)
  case Nil
  then show ?case by simp
next
  case (Cons a args)
  let ?rest = "concat (map encode_arg args) @ post"
  let ?buf = "pre @ concat (map encode_arg (a # args)) @ post"
  have buf: "?buf = pre @ u32_le (of_nat (length a)) @ a @ ?rest"
    unfolding concat_encode_Cons by simp
  have small: "length ?buf < 2 ^ 32" and fits: "length ?buf \<le> usize_max"
    using Cons.prems by (simp_all add: MAX_REQUEST_def usize_max_def)
  have len: "unat (of_nat (length a) :: u32) = length a"
    using small buf by (intro unat_len) simp
  have t4: "take4 ?buf (length pre) = Inr (of_nat (length a), length pre + 4)"
    using fits unfolding buf take4_def by simp
  have rng: "get_range ?buf (length pre + 4) (length pre + 4 + length a) = Some a"
    using get_range_mid [of "pre @ u32_le (of_nat (length a))" a ?rest]
    unfolding buf by (simp add: add.assoc)
  have IH: "decode_args ((pre @ encode_arg a) @ ?rest) (length args) (length (pre @ encode_arg a))
      (acc @ [a]) =
    Inr ((acc @ [a]) @ args, length (pre @ encode_arg a) + length (concat (map encode_arg args)))"
    using Cons.prems by (intro Cons.IH) simp
  have "checked_add (length pre + 4) (length a) = Some (length pre + 4 + length a)"
    using fits buf by (intro checked_add_Some) simp
  with t4 rng len IH [unfolded encode_arg_def [of a]] show ?case
    unfolding buf length_Cons decode_args.simps concat_encode_Cons by (simp add: add.assoc)
qed

lemma decode_args_sound:
  assumes "decode_args buf n pos acc = Inr (args, e)" and "pos \<le> length buf"
  shows "\<exists>new. args = acc @ new \<and> length new = n \<and> pos \<le> e \<and> e \<le> length buf \<and>
    take (e - pos) (drop pos buf) = concat (map encode_arg new)"
  using assms
proof (induction n arbitrary: pos acc)
  case 0
  then show ?case by simp
next
  case (Suc n)
  from Suc.prems obtain len where
      t4: "read_u32_le buf pos = Some (len, pos + 4)" and
      e4: "pos + 4 + unat len \<le> length buf" and
      rec: "decode_args buf n (pos + 4 + unat len)
        (acc @ [take (unat len) (drop (pos + 4) buf)]) = Inr (args, e)"
    by (auto simp: take4_def rust_simps read_u32_le_Some)
  let ?a = "take (unat len) (drop (pos + 4) buf)"
  have la: "length ?a = unat len" using e4 by simp
  obtain new where new: "args = (acc @ [?a]) @ new" "length new = n"
      "pos + 4 + unat len \<le> e" "e \<le> length buf"
      "take (e - (pos + 4 + unat len)) (drop (pos + 4 + unat len) buf) = concat (map encode_arg new)"
    using Suc.IH [OF rec e4] by blast
  have split: "e - pos = 4 + (unat len + (e - (pos + 4 + unat len)))"
    using new(3) by simp
  have "take (e - pos) (drop pos buf) =
      take 4 (drop pos buf) @ ?a @ concat (map encode_arg new)"
    unfolding split take_add drop_drop new(5) [symmetric] by (simp add: add.commute add.left_commute)
  also have "take 4 (drop pos buf) = u32_le (of_nat (length ?a))"
    using t4 la by (simp add: read_u32_le_Some)
  finally have "take (e - pos) (drop pos buf) = concat (map encode_arg (?a # new))"
    unfolding concat_encode_Cons .
  with new show ?case by (intro exI [of _ "?a # new"]) simp
qed

section \<open>The exec channel as an exact codec\<close>

definition request_ok :: "Request \<Rightarrow> bool" where
  "request_ok r \<longleftrightarrow>
     argv r \<noteq> [] \<and> flags r AND NOT KNOWN_FLAGS = 0 \<and>
     length (encode_request (argv r) (flags r)) \<le> MAX_REQUEST"

lemma decode_encode_request:
  assumes "request_ok r"
  shows "decode_request (encode_request (argv r) (flags r)) = Inr r"
proof -
  let ?buf = "encode_request (argv r) (flags r)"
  let ?tail = "concat (map encode_arg (argv r))"
  have ne: "argv r \<noteq> []" and fl: "flags r AND NOT KNOWN_FLAGS = 0" and
      cap: "length ?buf \<le> MAX_REQUEST"
    using assms by (auto simp: request_ok_def)
  have count: "length (argv r) \<le> MAX_REQUEST div 4"
    using concat_encode_length [of "argv r"] cap by (simp add: encode_request_def)
  then have argc: "unat (of_nat (length (argv r)) :: u32) = length (argv r)"
    by (intro unat_len) (simp add: MAX_REQUEST_def)
  have f4: "take4 ?buf 0 = Inr (flags r, 4)"
    using read_u32_le_at [of "[]"] by (simp add: take4_def encode_request_def usize_max_def)
  have c4: "take4 ?buf 4 = Inr (of_nat (length (argv r)), 8)"
    using read_u32_le_at [of "u32_le (flags r)" "of_nat (length (argv r))" ?tail]
    by (simp add: take4_def encode_request_def usize_max_def)
  have "decode_args ?buf (length (argv r)) 8 [] = Inr (argv r, length ?buf)"
    using decode_args_encode [of "u32_le (flags r) @ u32_le (of_nat (length (argv r)))" "argv r" "[]" "[]"]
      cap by (simp add: encode_request_def)
  with cap fl ne count argc f4 c4 show ?thesis
    by (simp add: decode_request_def)
qed

lemma decode_request_sound:
  assumes "decode_request buf = Inr r"
  shows "request_ok r \<and> encode_request (argv r) (flags r) = buf"
proof -
  from assms obtain argc where
      cap: "length buf \<le> MAX_REQUEST" and
      fl: "flags r AND NOT KNOWN_FLAGS = 0" and
      f4: "read_u32_le buf 0 = Some (flags r, 4)" and
      c4: "read_u32_le buf 4 = Some (argc, 8)" and
      nz: "argc \<noteq> 0" and
      args: "decode_args buf (unat argc) 8 [] = Inr (argv r, length buf)"
    by (auto simp: decode_request_def take4_def rust_simps read_u32_le_Some Let_def unat_eq_0
        split: if_splits)
  from c4 have len8: "8 \<le> length buf" by (simp add: read_u32_le_Some)
  from decode_args_sound [OF args len8] obtain new where "argv r = [] @ new"
      "length new = unat argc" "take (length buf - 8) (drop 8 buf) = concat (map encode_arg new)"
    by blast
  then have n: "length (argv r) = unat argc"
    and tl: "drop 8 buf = concat (map encode_arg (argv r))"
    by (simp_all only: append_Nil) simp
  have "buf = take 4 buf @ take 4 (drop 4 buf) @ drop 8 buf"
    by (metis append_assoc append_take_drop_id take_add numeral_Bit0)
  moreover have "take 4 buf = u32_le (flags r)"
    using f4 by (simp add: read_u32_le_Some)
  moreover have "take 4 (drop 4 buf) = u32_le (of_nat (length (argv r)))"
    using c4 n by (simp add: read_u32_le_Some)
  moreover have "drop 8 buf = concat (map encode_arg (argv r))"
    by (rule tl)
  ultimately have enc: "encode_request (argv r) (flags r) = buf"
    by (simp add: encode_request_def)
  have "argv r \<noteq> []" using n nz by (auto simp: unat_eq_0)
  with enc cap fl show ?thesis by (simp add: request_ok_def)
qed

interpretation exec_request: exact_codec
  "\<lambda>r. encode_request (argv r) (flags r)" decode_request request_ok
  by unfold_locales (use decode_encode_request decode_request_sound in blast)+

interpretation exec_status: exact_codec
  encode_status "\<lambda>b. ok_or () (decode_status b)" "\<lambda>_. True"
proof unfold_locales
  fix v :: u32
  show "ok_or () (decode_status (encode_status v)) = Inr v"
    by (simp add: encode_status_def decode_status_def u32_le_def)
next
  fix b and v :: u32
  assume "ok_or () (decode_status b) = Inr v"
  then show "True \<and> encode_status v = b"
    by (auto simp: decode_status_def encode_status_def rust_simps split: list.splits)
qed

section \<open>Properties\<close>

text \<open>C1. The exec channel's decoder accepts exactly the canonical encodings: a buffer decodes
  to a request iff the request has a non-empty argument list and only known flags and the
  buffer is its encoding, within the size cap.  Trailing bytes, unknown flags, an empty
  argv and an oversize buffer are all refused, and no two buffers decode to one request.\<close>

theorem decode_request_iff:
  "decode_request buf = Inr r \<longleftrightarrow>
     argv r \<noteq> [] \<and> flags r AND NOT KNOWN_FLAGS = 0 \<and> length buf \<le> MAX_REQUEST \<and>
     buf = encode_request (argv r) (flags r)"
  using exec_request.dec_iff [of buf r] by (auto simp: request_ok_def)

end
