(* ===== verification/Init_Wire.thy ===== *)
theory Init_Wire
  imports Init_Proto
begin

text \<open>
  Socket I/O of the exec channel (\<^verbatim>\<open>crates/bubbler-init/src/wire.rs\<close>).  The kernel is a
  parameter: each system call consumes the next entry of a script of results, and an
  exhausted script is a socket with nothing ready.  Modelled: the sender, the blocking
  receiver with its deadline, and the non-blocking receiver \<open>Incoming\<close> the supervisor
  polls.  Shown: however the kernel cuts the stream into pieces, a request the sender wrote
  arrives as itself with its three descriptors; a prefix of it is never taken for a
  request; and a client cannot stretch the blocking receiver's deadline.
\<close>

type_synonym fd = nat

datatype io_error = InvalidData string | UnexpectedEof | TimedOut | WouldBlock | Interrupted
  | InvalidProto ProtoError | OtherIo

text \<open>One result of \<open>recvmsg\<close> or \<open>read\<close>: the bytes, with the descriptors that rode on them.\<close>

datatype recv = Got bytes "fd list" | RecvErr io_error

definition REQUEST_FDS :: nat where
  "REQUEST_FDS = 3"

definition would_block :: "io_error \<Rightarrow> bool" where
  "would_block e \<longleftrightarrow> e = WouldBlock \<or> e = Interrupted"

text \<open>\<open>arm\<close>: the time left, or the timeout.\<close>

definition arm :: "instant \<Rightarrow> instant \<Rightarrow> io_error + duration" where
  "arm now deadline =
     (let left = deadline - now in if left = 0 then Inl TimedOut else Inr left)"

text \<open>\<open>read_exact\<close> under a deadline: each read is armed with the time its entry was made at.
  \<open>None\<close> is a read that is still blocked when the script ends.\<close>

fun read_exact_by ::
    "nat \<Rightarrow> instant \<Rightarrow> bytes \<Rightarrow> (instant \<times> recv) list \<Rightarrow> (io_error + bytes) option" where
  "read_exact_by want deadline done [] =
     (if length done < want then None else Some (Inr done))"
| "read_exact_by want deadline done ((now, ev) # evs) =
     (if length done < want
      then (case arm now deadline of
              Inl e \<Rightarrow> Some (Inl e)
            | Inr _ \<Rightarrow>
                (case ev of
                   Got bs _ \<Rightarrow> if bs = [] then Some (Inl UnexpectedEof)
                               else read_exact_by want deadline (done @ bs) evs
                 | RecvErr e \<Rightarrow> if e = Interrupted then read_exact_by want deadline done evs
                                else Some (Inl e)))
      else Some (Inr done))"

text \<open>\<open>send_request\<close>: what is written, given what \<open>sendmsg\<close> and \<open>write_all\<close> answer.  The
  first message is the length prefix with the descriptors, the second the payload.\<close>

definition send_request ::
    "(bytes \<Rightarrow> fd list \<Rightarrow> io_error + nat) \<Rightarrow> (bytes \<Rightarrow> io_error + unit) \<Rightarrow>
     bytes list \<Rightarrow> u32 \<Rightarrow> fd list \<Rightarrow> io_error + (bytes \<times> fd list) list" where
  "send_request sendmsg write_all args fl fds =
     (let payload = encode_request args fl in
      if length payload > MAX_REQUEST then Inl (InvalidData ''request too large'')
      else let len = u32_le (of_nat (length payload)) in
        res_bind (sendmsg len fds) (\<lambda>n.
        if n \<noteq> length len then Inl (InvalidData ''short length prefix'')
        else res_bind (write_all payload) (\<lambda>_. Inr [(len, fds), (payload, [])])))"

text \<open>\<open>recv_request\<close>: the blocking receiver.\<close>

definition recv_request ::
    "instant \<Rightarrow> (instant \<times> recv) list \<Rightarrow> (io_error + Request \<times> fd list) option" where
  "recv_request deadline evs =
     (case evs of
        [] \<Rightarrow> None
      | (now, ev) # rest \<Rightarrow>
          (case arm now deadline of
             Inl e \<Rightarrow> Some (Inl e)
           | Inr _ \<Rightarrow>
               (case ev of
                  RecvErr e \<Rightarrow> Some (Inl e)
                | Got bs fds \<Rightarrow>
                    (case bs of
                       [a, b, c, d] \<Rightarrow>
                         if length fds \<noteq> REQUEST_FDS
                         then Some (Inl (InvalidData ''expected exactly three fds''))
                         else let len = unat (le_u32 a b c d) in
                           if len > MAX_REQUEST then Some (Inl (InvalidData ''request too large''))
                           else (case read_exact_by len deadline [] rest of
                                   None \<Rightarrow> None
                                 | Some (Inl e) \<Rightarrow> Some (Inl e)
                                 | Some (Inr buf) \<Rightarrow>
                                     (case decode_request buf of
                                        Inl e \<Rightarrow> Some (Inl (InvalidProto e))
                                      | Inr r \<Rightarrow> Some (Inr (r, fds))))
                     | _ \<Rightarrow> Some (Inl (InvalidData ''short length prefix''))))))"

record Incoming =
  prefix :: bytes
  have_n :: nat
  want :: "nat option"
  payload :: bytes
  in_fds :: "fd list"

definition new_incoming :: Incoming where
  "new_incoming = \<lparr>prefix = [0, 0, 0, 0], have_n = 0, want = None, payload = [], in_fds = []\<rparr>"

text \<open>\<open>read_prefix\<close>, given the result of its one \<open>recvmsg\<close>.\<close>

definition read_prefix :: "Incoming \<Rightarrow> recv \<Rightarrow> (io_error + bool) \<times> Incoming" where
  "read_prefix st ev =
     (case ev of
        RecvErr e \<Rightarrow> if would_block e then (Inr False, st) else (Inl e, st)
      | Got bs fs \<Rightarrow>
          let st1 = st\<lparr>in_fds := in_fds st @ fs\<rparr> in
          if bs = [] then (Inl UnexpectedEof, st1)
          else let st2 = st1\<lparr>prefix := take (have_n st) (prefix st) @ bs @
                                          drop (have_n st + length bs) (prefix st),
                             have_n := have_n st + length bs\<rparr> in
            if have_n st2 < length (prefix st2) then (Inr False, st2)
            else if length (in_fds st2) \<noteq> REQUEST_FDS
            then (Inl (InvalidData ''expected exactly three fds''), st2)
            else (case prefix st2 of
                    [a, b, c, d] \<Rightarrow>
                      let len = unat (le_u32 a b c d) in
                      if len > MAX_REQUEST then (Inl (InvalidData ''request too large''), st2)
                      else (Inr True, st2\<lparr>want := Some len\<rparr>)
                  | _ \<Rightarrow> (Inl OtherIo, st2)))"

text \<open>The last arm of the loop: the payload is whole.\<close>

definition finish_step ::
    "Incoming \<Rightarrow> recv list \<Rightarrow>
     (io_error + (Request \<times> fd list) option) \<times> Incoming \<times> recv list" where
  "finish_step st evs =
     (case decode_request (payload st) of
        Inl e \<Rightarrow> (Inl (InvalidProto e), st, evs)
      | Inr r \<Rightarrow> (Inr (Some (r, in_fds st)), st\<lparr>in_fds := []\<rparr>, evs))"

definition complete :: "Incoming \<Rightarrow> bool" where
  "complete st \<longleftrightarrow> (case want st of None \<Rightarrow> False | Some w \<Rightarrow> w \<le> length (payload st))"

text \<open>\<open>read_step\<close>: consume ready results until the request is whole, the socket would block,
  or the connection is unusable.\<close>

fun read_step ::
    "Incoming \<Rightarrow> recv list \<Rightarrow>
     (io_error + (Request \<times> fd list) option) \<times> Incoming \<times> recv list" where
  "read_step st [] = (if complete st then finish_step st [] else (Inr None, st, []))"
| "read_step st (ev # evs) =
     (case want st of
        None \<Rightarrow>
          (case read_prefix st ev of
             (Inl e, st') \<Rightarrow> (Inl e, st', evs)
           | (Inr b, st') \<Rightarrow> if b then read_step st' evs else (Inr None, st', evs))
      | Some w \<Rightarrow>
          if length (payload st) < w
          then (case ev of
                  Got bs _ \<Rightarrow> if bs = [] then (Inl UnexpectedEof, st, evs)
                              else read_step (st\<lparr>payload := payload st @ bs\<rparr>) evs
                | RecvErr e \<Rightarrow> if would_block e then (Inr None, st, evs) else (Inl e, st, evs))
          else finish_step st (ev # evs))"

lemma read_step_le: "read_step st evs = (r, st', evs') \<Longrightarrow> length evs' \<le> length evs"
  by (induction st evs rule: read_step.induct)
    (fastforce simp: finish_step_def
      split: option.splits sum.splits prod.splits recv.splits if_splits)+

lemma read_step_shorter:
  assumes "read_step st evs = (Inr None, st', evs')" and "evs \<noteq> []"
  shows "length evs' < length evs"
proof -
  from assms(2) obtain ev rest where evs: "evs = ev # rest" by (cases evs) auto
  from assms(1) show ?thesis
    unfolding evs
    by (auto simp: finish_step_def less_Suc_eq_le dest!: read_step_le
        split: option.splits sum.splits prod.splits recv.splits if_splits)
qed

text \<open>The supervisor's use of it: a read step at every wake-up, until the request is in,
  the connection fails, or nothing more is ready.\<close>

function incoming_run ::
    "Incoming \<Rightarrow> recv list \<Rightarrow>
     (io_error + (Request \<times> fd list) option) \<times> Incoming \<times> recv list" where
  "incoming_run st evs =
     (case read_step st evs of
        (Inr None, st', evs') \<Rightarrow> if evs = [] then (Inr None, st', evs') else incoming_run st' evs'
      | res \<Rightarrow> res)"
  by pat_completeness auto
termination
  by (relation "measure (\<lambda>(st, evs). length evs)") (auto dest: sym read_step_shorter)

declare incoming_run.simps [simp del]

section \<open>What a stream socket may do\<close>

text \<open>The kernel's contract for one connection, at offset \<open>pos\<close> of a frame with a payload of
  \<open>len\<close> bytes: a read returns at least one byte and never more than it was asked for, or
  says that it would block.\<close>

fun delivers :: "nat \<Rightarrow> nat \<Rightarrow> recv list \<Rightarrow> bool" where
  "delivers pos len [] \<longleftrightarrow> True"
| "delivers pos len (RecvErr e # evs) \<longleftrightarrow> would_block e \<and> delivers pos len evs"
| "delivers pos len (Got bs fs # evs) \<longleftrightarrow>
     bs \<noteq> [] \<and> length bs \<le> (if pos < 4 then 4 - pos else min 4096 (4 + len - pos)) \<and>
     delivers (pos + length bs) len evs"

fun stream_bytes :: "recv list \<Rightarrow> bytes" where
  "stream_bytes [] = []"
| "stream_bytes (Got bs fs # evs) = bs @ stream_bytes evs"
| "stream_bytes (RecvErr e # evs) = stream_bytes evs"

text \<open>The descriptors that ride on the length prefix.\<close>

fun prefix_fds :: "nat \<Rightarrow> recv list \<Rightarrow> fd list" where
  "prefix_fds pos [] = []"
| "prefix_fds pos (Got bs fs # evs) = (if pos < 4 then fs @ prefix_fds (pos + length bs) evs else [])"
| "prefix_fds pos (RecvErr e # evs) = prefix_fds pos evs"

lemma prefix_fds_done: "4 \<le> pos \<Longrightarrow> prefix_fds pos evs = []"
  by (induction pos evs rule: prefix_fds.induct) auto

definition at_offset :: "bytes \<Rightarrow> nat \<Rightarrow> Incoming \<Rightarrow> bool" where
  "at_offset pl pos st \<longleftrightarrow>
     (if pos < 4
      then want st = None \<and> have_n st = pos \<and> length (prefix st) = 4 \<and> payload st = [] \<and>
           take pos (prefix st) = take pos (u32_le (of_nat (length pl)))
      else want st = Some (length pl) \<and> pos - 4 \<le> length pl \<and> payload st = take (pos - 4) pl \<and>
           length (in_fds st) = REQUEST_FDS)"

lemma incoming_run_Nil: "incoming_run st [] = read_step st []"
  by (subst incoming_run.simps) (auto simp: finish_step_def split: sum.splits)

lemma incoming_run_prefix:
  assumes "want st = None" and "read_prefix st ev = (Inr b, st')" and "b \<or> \<not> complete st'"
  shows "incoming_run st (ev # evs) = incoming_run st' evs"
proof (cases b)
  case True
  with assms have eq: "read_step st (ev # evs) = read_step st' evs" by simp
  show ?thesis
  proof (cases evs)
    case Nil
    with eq show ?thesis
      by (subst incoming_run.simps) (auto simp: incoming_run_Nil finish_step_def split: sum.splits)
  next
    case (Cons e es)
    with eq show ?thesis
      by (subst (1 2) incoming_run.simps) (simp split: prod.splits sum.splits option.splits)
  qed
next
  case False
  with assms have "read_step st (ev # evs) = (Inr None, st', evs)" by simp
  then show ?thesis by (subst incoming_run.simps) simp
qed

lemma incoming_run_payload:
  assumes "want st = Some w" and "length (payload st) < w"
  shows "bs \<noteq> [] \<Longrightarrow>
      incoming_run st (Got bs fs # evs) = incoming_run (st\<lparr>payload := payload st @ bs\<rparr>) evs"
    and "would_block e \<Longrightarrow> incoming_run st (RecvErr e # evs) = incoming_run st evs"
proof -
  assume "bs \<noteq> []"
  let ?st = "st\<lparr>payload := payload st @ bs\<rparr>"
  from assms \<open>bs \<noteq> []\<close> have eq: "read_step st (Got bs fs # evs) = read_step ?st evs" by simp
  show "incoming_run st (Got bs fs # evs) = incoming_run ?st evs"
  proof (cases evs)
    case Nil
    with eq show ?thesis
      by (subst incoming_run.simps) (auto simp: incoming_run_Nil finish_step_def split: sum.splits)
  next
    case (Cons e es)
    with eq show ?thesis
      by (subst (1 2) incoming_run.simps) (simp split: prod.splits sum.splits option.splits)
  qed
next
  assume "would_block e"
  with assms show "incoming_run st (RecvErr e # evs) = incoming_run st evs"
    by (subst incoming_run.simps) simp
qed

lemma incoming_run_complete:
  assumes "complete st"
  shows "fst (incoming_run st evs) =
    (case decode_request (payload st) of
       Inl e \<Rightarrow> Inl (InvalidProto e)
     | Inr r \<Rightarrow> Inr (Some (r, in_fds st)))"
proof -
  from assms have "read_step st evs = finish_step st evs"
    by (cases evs) (auto simp: complete_def split: option.splits)
  then show ?thesis
    by (subst incoming_run.simps) (auto simp: finish_step_def split: sum.splits)
qed

text \<open>One prefix read moves the receiver along the frame.\<close>

lemma take_splice:
  assumes "length p = (4::nat)" and "pos + length bs \<le> 4" and "length q = 4"
    and "take pos p = take pos q" and "bs = take (length bs) (drop pos q)"
  shows "take (pos + length bs) (take pos p @ bs @ drop (pos + length bs) p) =
    take (pos + length bs) q"
proof -
  have "take pos q @ bs = take (pos + length bs) q"
    using assms(5) by (metis take_add)
  with assms show ?thesis by simp
qed

lemma read_prefix_step:
  assumes at: "at_offset pl pos st" and lt: "pos < 4" and ne: "bs \<noteq> []"
    and room: "pos + length bs \<le> 4"
    and bs: "bs = take (length bs) (drop pos (u32_le (of_nat (length pl))))"
    and cap: "length pl \<le> MAX_REQUEST"
    and three: "pos + length bs = 4 \<longrightarrow> length (in_fds st @ fs) = REQUEST_FDS"
  obtains b st' where "read_prefix st (Got bs fs) = (Inr b, st')"
    and "b \<or> \<not> complete st'" and "at_offset pl (pos + length bs) st'"
    and "in_fds st' = in_fds st @ fs"
proof -
  let ?q = "u32_le (of_nat (length pl) :: u32)"
  let ?p = "take pos (prefix st) @ bs @ drop (pos + length bs) (prefix st)"
  have st: "want st = None" "have_n st = pos" "length (prefix st) = 4" "payload st = []"
      "take pos (prefix st) = take pos ?q"
    using at lt by (auto simp: at_offset_def)
  have spl: "take (pos + length bs) ?p = take (pos + length bs) ?q"
    by (rule take_splice) (use st room bs in simp_all)
  have lp: "length ?p = 4" using st room by simp
  show thesis
  proof (cases "pos + length bs = 4")
    case False
    let ?st = "st\<lparr>in_fds := in_fds st @ fs, prefix := ?p, have_n := pos + length bs\<rparr>"
    have r: "read_prefix st (Got bs fs) = (Inr False, ?st)"
      using st ne False room lp by (simp add: read_prefix_def Let_def)
    have a: "at_offset pl (pos + length bs) ?st"
      using False room st lp spl by (simp add: at_offset_def)
    have "\<not> complete ?st" using st by (simp add: complete_def)
    then show thesis by (intro that [OF r _ a]) simp_all
  next
    case True
    with spl lp have p: "?p = ?q" by simp
    then have lenw: "unat (of_nat (length pl) :: u32) = length pl"
      using cap by (intro unat_len) (simp add: MAX_REQUEST_def)
    let ?st = "st\<lparr>in_fds := in_fds st @ fs, prefix := ?q, have_n := 4, want := Some (length pl)\<rparr>"
    have r: "read_prefix st (Got bs fs) = (Inr True, ?st)"
      using st ne True three p cap lenw lp
      by (simp add: read_prefix_def Let_def u32_le_def)
    have a: "at_offset pl (pos + length bs) ?st"
      using st three True by (simp add: at_offset_def)
    show thesis by (rule that [OF r _ a]) simp_all
  qed
qed

lemma take_more:
  assumes "xs @ ys = take (length (xs @ ys)) (drop n zs)"
  shows "xs = take (length xs) (drop n zs)" and "ys = take (length ys) (drop (n + length xs) zs)"
proof -
  obtain rest where "drop n zs = (xs @ ys) @ rest"
    using assms by (metis append_take_drop_id)
  then show "xs = take (length xs) (drop n zs)"
    and "ys = take (length ys) (drop (n + length xs) zs)"
    by (simp_all add: add.commute [of n] flip: drop_drop)
qed

lemma incoming_would_block:
  assumes "would_block e"
  shows "fst (incoming_run st (RecvErr e # evs)) = fst (incoming_run st evs)"
proof (cases "complete st")
  case True
  then show ?thesis by (simp add: incoming_run_complete)
next
  case False
  show ?thesis
  proof (cases "want st")
    case None
    with assms show ?thesis
      by (subst incoming_run_prefix [of st _ False st]) (auto simp: read_prefix_def complete_def)
  next
    case (Some w)
    with False assms show ?thesis
      by (subst incoming_run_payload(2) [of st w]) (auto simp: complete_def)
  qed
qed

lemma incoming_piece:
  assumes at: "at_offset pl pos st" and cap: "length pl \<le> MAX_REQUEST" and ne: "bs \<noteq> []"
    and room: "length bs \<le> (if pos < 4 then 4 - pos else min 4096 (4 + length pl - pos))"
    and bs: "bs = take (length bs) (drop pos (u32_le (of_nat (length pl)) @ pl))"
    and three: "pos < 4 \<Longrightarrow> pos + length bs = 4 \<Longrightarrow> length (in_fds st @ fs) = REQUEST_FDS"
  shows "\<exists>st'. incoming_run st (Got bs fs # evs) = incoming_run st' evs \<and>
    at_offset pl (pos + length bs) st' \<and>
    in_fds st' = (if pos < 4 then in_fds st @ fs else in_fds st)"
proof (cases "pos < 4")
  case True
  have fit: "pos + length bs \<le> 4" using room True by simp
  have bs': "bs = take (length bs) (drop pos (u32_le (of_nat (length pl))))"
    using bs fit True by simp
  have three': "pos + length bs = 4 \<longrightarrow> length (in_fds st @ fs) = REQUEST_FDS"
    using three True by blast
  obtain b st' where "read_prefix st (Got bs fs) = (Inr b, st')" "b \<or> \<not> complete st'"
      "at_offset pl (pos + length bs) st'" "in_fds st' = in_fds st @ fs"
    by (rule read_prefix_step [OF at True ne fit bs' cap three'])
  moreover from this(1,2) have "incoming_run st (Got bs fs # evs) = incoming_run st' evs"
    using at True by (intro incoming_run_prefix) (auto simp: at_offset_def)
  ultimately show ?thesis using True by auto
next
  case False
  let ?st = "st\<lparr>payload := payload st @ bs\<rparr>"
  have st: "want st = Some (length pl)" "payload st = take (pos - 4) pl"
      "length (in_fds st) = REQUEST_FDS" "pos - 4 \<le> length pl"
    using at False by (auto simp: at_offset_def)
  have lt: "length (payload st) < length pl"
    using room ne False st by (cases bs) auto
  have "bs = take (length bs) (drop (pos - 4) pl)" using bs False by simp
  then have "payload st @ bs = take (pos + length bs - 4) pl"
    using st(2) False take_add [of "pos - 4" "length bs" pl] by simp
  with room False st have "at_offset pl (pos + length bs) ?st"
    by (auto simp: at_offset_def)
  moreover have "incoming_run st (Got bs fs # evs) = incoming_run ?st evs"
    using st lt ne by (intro incoming_run_payload(1)) auto
  ultimately show ?thesis using False by (intro exI [of _ ?st]) simp
qed

lemma incoming_run_delivers:
  assumes "at_offset pl pos st" and "length pl \<le> MAX_REQUEST" and "delivers pos (length pl) evs"
    and "stream_bytes evs =
      take (length (stream_bytes evs)) (drop pos (u32_le (of_nat (length pl)) @ pl))"
    and "if pos < 4 then in_fds st @ prefix_fds pos evs = fds else in_fds st = fds"
    and "length fds = REQUEST_FDS"
  shows "fst (incoming_run st evs) =
    (if pos + length (stream_bytes evs) = 4 + length pl
     then case decode_request pl of
            Inl e \<Rightarrow> Inl (InvalidProto e) | Inr r \<Rightarrow> Inr (Some (r, fds))
     else Inr None)"
  using assms
proof (induction pos "length pl" evs arbitrary: st rule: delivers.induct)
  case (1 pos)
  have "complete st \<longleftrightarrow> pos = 4 + length pl"
    using 1 by (auto simp: at_offset_def complete_def split: if_splits)
  moreover have "pos = 4 + length pl \<Longrightarrow> payload st = pl \<and> in_fds st = fds"
    using 1 by (simp add: at_offset_def)
  ultimately show ?case
    by (cases "complete st")
      (auto simp: incoming_run_Nil finish_step_def split: sum.splits)
next
  case (2 pos e evs)
  then show ?case by (cases "pos < 4") (simp_all add: incoming_would_block)
next
  case (3 pos bs fs evs)
  note now = take_more(1) [OF 3(5) [unfolded stream_bytes.simps]]
    and later = take_more(2) [OF 3(5) [unfolded stream_bytes.simps]]
  from 3 have ne: "bs \<noteq> []"
    and room: "length bs \<le> (if pos < 4 then 4 - pos else min 4096 (4 + length pl - pos))"
    and rest: "delivers (pos + length bs) (length pl) evs"
    by auto
  have "pos < 4 \<Longrightarrow> pos + length bs = 4 \<Longrightarrow> length (in_fds st @ fs) = REQUEST_FDS"
    using 3(6,7) prefix_fds_done [of "pos + length bs" evs] by auto
  then obtain st' where st': "incoming_run st (Got bs fs # evs) = incoming_run st' evs"
      "at_offset pl (pos + length bs) st'"
      "in_fds st' = (if pos < 4 then in_fds st @ fs else in_fds st)"
    using incoming_piece [OF 3(2,3) ne room now] by blast
  have acc: "if pos + length bs < 4 then in_fds st' @ prefix_fds (pos + length bs) evs = fds
      else in_fds st' = fds"
    using st'(3) 3(6) prefix_fds_done [of "pos + length bs" evs] by (auto split: if_splits)
  show ?case
    using 3(1) [OF st'(2) 3(3) rest later acc 3(7)] st'(1) by (simp add: add.assoc)
qed

section \<open>Properties\<close>

text \<open>C2. End to end over the exec channel: a request the client sends, delivered by the kernel
  in any pieces and with any number of would-block answers between them, is what the
  supervisor reads, with exactly its three descriptors; and until the last byte is there
  it reads nothing.\<close>

theorem incoming_any_chunking:
  assumes ok: "request_ok r" and three: "length fds = REQUEST_FDS"
    and sent: "send_request sendmsg write_all (argv r) (flags r) fds = Inr [(len, fds), (pl, [])]"
    and kernel: "delivers 0 (length pl) evs"
    and bytes: "stream_bytes evs = take n (len @ pl)"
    and anc: "prefix_fds 0 evs = fds"
  shows "fst (incoming_run new_incoming evs) =
    (if length (len @ pl) \<le> n then Inr (Some (r, fds)) else Inr None)"
proof -
  have pl: "pl = encode_request (argv r) (flags r)" and len: "len = u32_le (of_nat (length pl))"
    and cap: "length pl \<le> MAX_REQUEST"
    using sent by (auto simp: send_request_def Let_def rust_simps split: if_splits)
  have dec: "decode_request pl = Inr r"
    unfolding pl by (rule decode_encode_request [OF ok])
  have at: "at_offset pl 0 new_incoming"
    by (simp add: at_offset_def new_incoming_def)
  have "length (stream_bytes evs) = min (4 + length pl) n"
    using bytes len by simp
  moreover have "stream_bytes evs = take (length (stream_bytes evs)) (drop 0 (len @ pl))"
    using bytes by (metis drop0 length_take take_take min.idem min.commute append_take_drop_id
        append_eq_conv_conj)
  then have "fst (incoming_run new_incoming evs) =
      (if 0 + length (stream_bytes evs) = 4 + length pl then Inr (Some (r, fds)) else Inr None)"
    using incoming_run_delivers [OF at cap kernel, of fds] anc three dec len
    by (simp add: new_incoming_def)
  ultimately show ?thesis using len by auto
qed

definition demo_request :: Request where
  "demo_request = \<lparr>flags = FLAG_CTTY, argv = [str ''sh'', str ''-c'']\<rparr>"

theorem incoming_any_chunking_witness:
  "fst (incoming_run new_incoming
     [RecvErr WouldBlock, Got [20, 0] [7, 8, 9], Got [0, 0] [],
      Got [1, 0, 0, 0, 2, 0, 0, 0, 2, 0] [], RecvErr Interrupted,
      Got [0, 0, 115, 104, 2, 0, 0, 0, 45, 99] []]) = Inr (Some (demo_request, [7, 8, 9]))"
proof -
  let ?evs = "[RecvErr WouldBlock, Got [20, 0] [7, 8, 9], Got [0, 0] [],
      Got [1, 0, 0, 0, 2, 0, 0, 0, 2, 0] [], RecvErr Interrupted,
      Got [0, 0, 115, 104, 2, 0, 0, 0, 45, 99] []]"
  let ?pl = "[1, 0, 0, 0, 2, 0, 0, 0, 2, 0, 0, 0, 115, 104, 2, 0, 0, 0, 45, 99] :: bytes"
  have enc: "encode_request (argv demo_request) (flags demo_request) = ?pl"
    by (simp add: encode_request_def encode_arg_def demo_request_def u32_le_def FLAG_CTTY_def)
  have ok: "request_ok demo_request"
    unfolding request_ok_def enc
    by (simp add: demo_request_def FLAG_CTTY_def KNOWN_FLAGS_def MAX_REQUEST_def)
  have sent: "send_request (\<lambda>_ _. Inr 4) (\<lambda>_. Inr ()) (argv demo_request) (flags demo_request)
      [7, 8, 9] = Inr [([20, 0, 0, 0], [7, 8, 9]), (?pl, [])]"
    unfolding send_request_def enc by (simp add: MAX_REQUEST_def u32_le_def)
  show ?thesis
    using incoming_any_chunking [OF ok _ sent, of ?evs 24]
    by (simp add: REQUEST_FDS_def would_block_def)
qed

lemma read_exact_by_late:
  assumes "read_exact_by w deadline acc pre = None" and "deadline \<le> now"
  shows "read_exact_by w deadline acc (pre @ (now, ev) # post) = Some (Inl TimedOut)"
  using assms
  by (induction w deadline acc pre rule: read_exact_by.induct)
    (auto simp: arm_def split: if_splits sum.splits recv.splits)

text \<open>C3. The deadline bounds the whole request and not one read of it: if the request is still
  incomplete after the reads in \<open>pre\<close>, the next read attempted at or after the deadline ends
  in a timeout, whatever that read or any later one would have returned.\<close>

theorem recv_request_deadline:
  assumes "recv_request deadline pre = None" and "deadline \<le> now"
  shows "recv_request deadline (pre @ (now, ev) # post) = Some (Inl TimedOut)"
proof (cases pre)
  case Nil
  with assms(2) show ?thesis by (simp add: recv_request_def arm_def)
next
  case (Cons p ps)
  obtain t e where p: "p = (t, e)" by (cases p)
  from assms(1) obtain a b c d fds where
      e: "e = Got [a, b, c, d] fds" and t: "t < deadline" and "length fds = REQUEST_FDS"
      "unat (le_u32 a b c d) \<le> MAX_REQUEST"
      "read_exact_by (unat (le_u32 a b c d)) deadline [] ps = None"
    unfolding recv_request_def Cons p
    by (auto simp: arm_def Let_def split: if_splits recv.splits list.splits option.splits sum.splits)
  with read_exact_by_late [OF this(5) assms(2)] show ?thesis
    unfolding recv_request_def Cons p by (simp add: arm_def Let_def)
qed

theorem recv_request_deadline_witness:
  "recv_request 100 ([(10, Got [2, 0, 0, 0] [4, 5, 6]), (99, Got [1] [])] @ (100, Got [1] []) # [])
     = Some (Inl TimedOut)"
proof -
  have "recv_request 100 [(10, Got [2, 0, 0, 0] [4, 5, 6]), (99, Got [1] [])] = None"
    by (simp add: recv_request_def arm_def REQUEST_FDS_def MAX_REQUEST_def le_u32_def)
  from recv_request_deadline [OF this, of 100] show ?thesis by blast
qed

end
