(* ===== verification/Bub_Utf8.thy ===== *)
theory Bub_Utf8
  imports Bub_Prelude
begin

text \<open>
  UTF-8 as Rust's standard library validates it: the next character, an invalid sequence
  with the number of bytes \<open>Utf8Error::error_len\<close> gives it, or a sequence cut short by the
  end of the input.  \<open>str::from_utf8\<close> and \<open>String::from_utf8_lossy\<close> are built on it.
\<close>

datatype utf8_unit = Char nat | Bad nat | Cut

definition is_cont :: "byte \<Rightarrow> bool" where
  "is_cont b \<longleftrightarrow> 0x80 \<le> b \<and> b \<le> 0xbf"

definition second_of_3 :: "byte \<Rightarrow> byte \<Rightarrow> bool" where
  "second_of_3 a b \<longleftrightarrow>
     (if a = 0xe0 then 0xa0 \<le> b \<and> b \<le> 0xbf
      else if a = 0xed then 0x80 \<le> b \<and> b \<le> 0x9f
      else is_cont b)"

definition second_of_4 :: "byte \<Rightarrow> byte \<Rightarrow> bool" where
  "second_of_4 a b \<longleftrightarrow>
     (if a = 0xf0 then 0x90 \<le> b \<and> b \<le> 0xbf
      else if a = 0xf4 then 0x80 \<le> b \<and> b \<le> 0x8f
      else is_cont b)"

definition utf8_head :: "bytes \<Rightarrow> utf8_unit" where
  "utf8_head bs =
     (case bs of
        [] \<Rightarrow> Cut
      | a # r1 \<Rightarrow>
          if a < 0x80 then Char 1
          else if 0xc2 \<le> a \<and> a \<le> 0xdf then
            (case r1 of [] \<Rightarrow> Cut | b # _ \<Rightarrow> if is_cont b then Char 2 else Bad 1)
          else if 0xe0 \<le> a \<and> a \<le> 0xef then
            (case r1 of
               [] \<Rightarrow> Cut
             | b # r2 \<Rightarrow>
                 if second_of_3 a b
                 then (case r2 of [] \<Rightarrow> Cut | c # _ \<Rightarrow> if is_cont c then Char 3 else Bad 2)
                 else Bad 1)
          else if 0xf0 \<le> a \<and> a \<le> 0xf4 then
            (case r1 of
               [] \<Rightarrow> Cut
             | b # r2 \<Rightarrow>
                 if second_of_4 a b
                 then (case r2 of
                         [] \<Rightarrow> Cut
                       | c # r3 \<Rightarrow>
                           if is_cont c
                           then (case r3 of
                                   [] \<Rightarrow> Cut | d # _ \<Rightarrow> if is_cont d then Char 4 else Bad 3)
                           else Bad 2)
                 else Bad 1)
          else Bad 1)"

lemma utf8_head_size:
  "utf8_head bs = Char n \<Longrightarrow> 0 < n \<and> n \<le> length bs"
  "utf8_head bs = Bad n \<Longrightarrow> 0 < n \<and> n \<le> length bs"
  by (auto simp: utf8_head_def split: list.splits if_splits)

function utf8_valid :: "bytes \<Rightarrow> bool" where
  "utf8_valid bs =
     (if bs = [] then True
      else case utf8_head bs of Char n \<Rightarrow> utf8_valid (drop n bs) | Bad n \<Rightarrow> False | Cut \<Rightarrow> False)"
  by pat_completeness auto
termination
  by (relation "measure length") (auto dest: utf8_head_size)

function utf8_lossy :: "bytes \<Rightarrow> bytes" where
  "utf8_lossy bs =
     (if bs = [] then []
      else case utf8_head bs of
             Char n \<Rightarrow> take n bs @ utf8_lossy (drop n bs)
           | Bad n \<Rightarrow> [0xef, 0xbf, 0xbd] @ utf8_lossy (drop n bs)
           | Cut \<Rightarrow> [0xef, 0xbf, 0xbd])"
  by pat_completeness auto
termination
  by (relation "measure length") (auto dest: utf8_head_size)

declare utf8_valid.simps [simp del] utf8_lossy.simps [simp del]

lemma utf8_valid_Nil [simp]: "utf8_valid []"
  by (simp add: utf8_valid.simps)

lemma utf8_valid_ascii_Cons [simp]: "a < 0x80 \<Longrightarrow> utf8_valid (a # bs) = utf8_valid bs"
  by (simp add: utf8_valid.simps [of "a # bs"] utf8_head_def)

lemma utf8_valid_ascii: "\<forall>b \<in> set bs. b < 0x80 \<Longrightarrow> utf8_valid bs"
  by (induction bs) auto

lemma utf8_lossy_valid: "utf8_valid bs \<Longrightarrow> utf8_lossy bs = bs"
proof (induction bs rule: utf8_valid.induct)
  case (1 bs)
  then show ?case
    by (auto simp: utf8_valid.simps [of bs] utf8_lossy.simps [of bs] split: if_splits utf8_unit.splits)
qed

text \<open>A lossy conversion never turns invalid text into pure ASCII: the replacement character
  stays in it.\<close>

lemma utf8_lossy_ascii: "\<forall>b \<in> set (utf8_lossy bs). b < 0x80 \<Longrightarrow> utf8_lossy bs = bs"
proof (induction bs rule: utf8_lossy.induct)
  case (1 bs)
  have head: "utf8_head bs = Char n \<Longrightarrow> \<forall>b \<in> set (take n bs). b < 0x80 \<Longrightarrow>
      utf8_lossy (drop n bs) = drop n bs \<Longrightarrow> take n bs @ utf8_lossy (drop n bs) = bs" for n
    by simp
  show ?case
  proof (cases "bs = []")
    case True
    then show ?thesis by (simp add: utf8_lossy.simps)
  next
    case False
    with 1 show ?thesis
      by (auto simp: utf8_lossy.simps [of bs] split: utf8_unit.splits)
  qed
qed

text \<open>\<open>OsStr::to_str\<close> and \<open>str::from_utf8(..).ok()\<close>.\<close>

definition to_str :: "bytes \<Rightarrow> bytes option" where
  "to_str w = (if utf8_valid w then Some w else None)"

end
