(* ===== verification/Init_Fds.thy ===== *)
theory Init_Fds
  imports Bub_Utf8
begin

text \<open>
  The descriptor sweeps (\<^verbatim>\<open>crates/bubbler-init/src/fds.rs\<close>): the numbers \<^verbatim>\<open>/proc/self/fd\<close> lists
  above stdio that are not kept, marked close-on-exec or closed.  The directory listing and
  the answers of \<open>fcntl\<close> are parameters; the process's descriptor table is a map from numbers
  to their close-on-exec flag.  Shown: given a listing of the table, a sweep leaves exactly
  stdio and the kept descriptors to the next program.
\<close>

definition FIRST :: int where
  "FIRST = 3"

datatype Os_Error = BADF | Os nat

text \<open>One \<open>read\<close> of the listing: a name or an error.  Opening the directory and starting the
  listing can fail too; \<open>l_own\<close> is the number of the listing's own descriptor.\<close>

record Listing =
  l_open :: "Os_Error option"
  l_dir :: "Os_Error option"
  l_own :: int
  l_entries :: "(Os_Error + bytes) list"

definition entry_fd :: "bytes \<Rightarrow> int option" where
  "entry_fd name = Option.bind (to_str name) (parse_signed 32)"

fun strays_loop :: "int list \<Rightarrow> int \<Rightarrow> (Os_Error + bytes) list \<Rightarrow> int list \<Rightarrow> Os_Error + int list" where
  "strays_loop keep own [] found = Inr found"
| "strays_loop keep own (Inl e # es) found = Inl e"
| "strays_loop keep own (Inr name # es) found =
     (case entry_fd name of
        None \<Rightarrow> strays_loop keep own es found
      | Some fd \<Rightarrow>
          strays_loop keep own es
            (if fd \<ge> FIRST \<and> fd \<noteq> own \<and> fd \<notin> set keep then found @ [fd] else found))"

definition strays :: "int list \<Rightarrow> Listing \<Rightarrow> Os_Error + int list" where
  "strays keep l =
     (case l_open l of
        Some e \<Rightarrow> Inl e
      | None \<Rightarrow> (case l_dir l of Some e \<Rightarrow> Inl e | None \<Rightarrow> strays_loop keep (l_own l) (l_entries l) []))"

type_synonym fd_table = "int \<rightharpoonup> bool"

text \<open>\<open>fcntl_setfd\<close> with \<open>CLOEXEC\<close>: a number that is not open answers \<open>EBADF\<close>; any other failure is
  the kernel's to give.\<close>

definition set_cloexec :: "(int \<Rightarrow> nat option) \<Rightarrow> int \<Rightarrow> fd_table \<Rightarrow> Os_Error option \<times> fd_table" where
  "set_cloexec fails fd t =
     (case fails fd of
        Some e \<Rightarrow> (Some (Os e), t)
      | None \<Rightarrow> if fd \<in> dom t then (None, t(fd \<mapsto> True)) else (Some BADF, t))"

fun mark_all :: "(int \<Rightarrow> nat option) \<Rightarrow> int list \<Rightarrow> fd_table \<Rightarrow> Os_Error option \<times> fd_table" where
  "mark_all fails [] t = (None, t)"
| "mark_all fails (fd # fds) t =
     (case set_cloexec fails fd t of
        (None, t') \<Rightarrow> mark_all fails fds t'
      | (Some BADF, t') \<Rightarrow> mark_all fails fds t'
      | (Some e, t') \<Rightarrow> (Some e, t'))"

definition sweep_cloexec :: "(int \<Rightarrow> nat option) \<Rightarrow> int list \<Rightarrow> Listing \<Rightarrow> fd_table \<Rightarrow>
    Os_Error option \<times> fd_table" where
  "sweep_cloexec fails keep l t =
     (case strays keep l of Inl e \<Rightarrow> (Some e, t) | Inr fds \<Rightarrow> mark_all fails fds t)"

definition close_strays :: "int list \<Rightarrow> Listing \<Rightarrow> fd_table \<Rightarrow> Os_Error option \<times> fd_table" where
  "close_strays keep l t =
     (case strays keep l of Inl e \<Rightarrow> (Some e, t) | Inr fds \<Rightarrow> (None, foldl (\<lambda>t fd. t(fd := None)) t fds))"

section \<open>What a listing says\<close>

text \<open>The names \<^verbatim>\<open>proc(5)\<close> gives for the open descriptors: the two directory names and one
  decimal number each, the listing's own included, in any order.\<close>

definition lists_table :: "Listing \<Rightarrow> fd_table \<Rightarrow> bool" where
  "lists_table l t \<longleftrightarrow> l_open l = None \<and> l_dir l = None \<and> l_own l \<notin> dom t \<and>
     dom t \<subseteq> {0 ..< 2 ^ 31} \<and> 0 \<le> l_own l \<and> l_own l < 2 ^ 31 \<and>
     set (l_entries l) = Inr ` ({str ''.'', str ''..''} \<union> (dec_digits \<circ> nat) ` (insert (l_own l) (dom t)))"

lemma digit_ascii: "is_ascii_digit d \<Longrightarrow> d < 0x80 \<and> d \<noteq> 0x2b \<and> d \<noteq> 0x2d"
  by (auto simp: ascii_defs word_less_nat_alt word_le_nat_alt)

lemma entry_fd_digits:
  assumes "0 \<le> fd" and "fd < 2 ^ 31"
  shows "entry_fd (dec_digits (nat fd)) = Some fd"
proof -
  have digits: "\<forall>d \<in> set (dec_digits (nat fd)). is_ascii_digit d" "dec_digits (nat fd) \<noteq> []"
    using dec_digits_ascii dec_digits_not_Nil by blast+
  then have "hd (dec_digits (nat fd)) \<noteq> 0x2d" using digit_ascii hd_in_set by blast
  moreover have "utf8_valid (dec_digits (nat fd))"
    using digits digit_ascii by (intro utf8_valid_ascii) auto
  moreover have "parse_unsigned (2 ^ 31 - 1) (dec_digits (nat fd)) = Some (nat fd)"
    using assms by (intro parse_dec_digits) auto
  ultimately show ?thesis using assms by (simp add: entry_fd_def to_str_def parse_signed_def)
qed

lemma entry_fd_dots: "entry_fd (str ''.'') = None" "entry_fd (str ''..'') = None"
  by (simp_all add: entry_fd_def to_str_def parse_signed_def parse_unsigned_def ascii_defs)

lemma strays_loop_set:
  assumes "\<forall>e \<in> set es. \<exists>name. e = Inr name"
  shows "\<exists>out. strays_loop keep own es found = Inr out \<and>
    set out = set found \<union> {fd. \<exists>name. Inr name \<in> set es \<and> entry_fd name = Some fd \<and>
      fd \<ge> FIRST \<and> fd \<noteq> own \<and> fd \<notin> set keep}"
  using assms
proof (induction keep own es found rule: strays_loop.induct)
  case (3 keep own name es found)
  then show ?case by (cases "entry_fd name") auto
qed auto

lemma strays_listed:
  assumes "lists_table l t"
  shows "\<exists>fds. strays keep l = Inr fds \<and> set fds = {fd \<in> dom t. fd \<ge> FIRST \<and> fd \<notin> set keep}"
proof -
  have "\<forall>e \<in> set (l_entries l). \<exists>name. e = Inr name" using assms by (auto simp: lists_table_def)
  from strays_loop_set [OF this, of keep "l_own l" "[]"] obtain fds where
    fds: "strays keep l = Inr fds" "set fds = {fd. \<exists>name. Inr name \<in> set (l_entries l) \<and>
      entry_fd name = Some fd \<and> fd \<ge> FIRST \<and> fd \<noteq> l_own l \<and> fd \<notin> set keep}"
    using assms by (auto simp: strays_def lists_table_def)
  have in_range: "fd \<in> insert (l_own l) (dom t) \<Longrightarrow> entry_fd (dec_digits (nat fd)) = Some fd" for fd
    using assms by (intro entry_fd_digits) (auto simp: lists_table_def)
  have "(\<exists>name. Inr name \<in> set (l_entries l) \<and> entry_fd name = Some fd) \<longleftrightarrow> fd \<in> insert (l_own l) (dom t)" for fd
  proof -
    have "Inr name \<in> set (l_entries l) \<longleftrightarrow> name = str ''.'' \<or> name = str ''..'' \<or>
        (\<exists>x \<in> insert (l_own l) (dom t). name = dec_digits (nat x))" for name
      using assms unfolding lists_table_def by (simp add: inj_image_mem_iff image_iff) blast
    then show ?thesis using in_range entry_fd_dots by (metis option.distinct(1) option.inject)
  qed
  then have "set fds = {fd \<in> insert (l_own l) (dom t). fd \<ge> FIRST \<and> fd \<noteq> l_own l \<and> fd \<notin> set keep}"
    unfolding fds(2) by blast
  moreover have "l_own l \<notin> dom t" using assms by (simp add: lists_table_def)
  ultimately show ?thesis using fds(1) by blast
qed

lemma close_all: "foldl (\<lambda>t fd. t(fd := None)) t fds = t |` (- set fds)"
  by (induction fds arbitrary: t) (auto simp: restrict_map_def fun_eq_iff)

lemma mark_all_ok:
  assumes "\<forall>fd. fails fd = None"
  shows "mark_all fails fds t = (None, \<lambda>fd. if fd \<in> set fds \<and> fd \<in> dom t then Some True else t fd)"
  using assms by (induction fds arbitrary: t) (auto simp: set_cloexec_def fun_eq_iff)

text \<open>C27. The sweep at both ends: given a listing of the process's descriptors, \<open>close_strays\<close> leaves
  exactly stdio and the kept descriptors open, and \<open>sweep_cloexec\<close> leaves exactly those without
  the close-on-exec flag that had none before and closes nothing; when the listing cannot be
  read, neither touches a descriptor.\<close>

theorem sweep_leaves_kept:
  assumes "lists_table l t" and "\<forall>fd. fails fd = None"
  shows "close_strays keep l t = (None, t |` ({fd. fd < FIRST} \<union> set keep)) \<and>
    (\<exists>t'. sweep_cloexec fails keep l t = (None, t') \<and> dom t' = dom t \<and>
       (\<forall>fd. t' fd = Some False \<longleftrightarrow> t fd = Some False \<and> (fd < FIRST \<or> fd \<in> set keep))) \<and>
    (\<forall>l' e. strays keep l' = Inl e \<longrightarrow>
       close_strays keep l' t = (Some e, t) \<and> sweep_cloexec fails keep l' t = (Some e, t))"
proof -
  obtain fds where fds: "strays keep l = Inr fds" "set fds = {fd \<in> dom t. fd \<ge> FIRST \<and> fd \<notin> set keep}"
    using strays_listed [OF assms(1)] by blast
  have "t |` (- set fds) = t |` ({fd. fd < FIRST} \<union> set keep)"
    unfolding fds(2) by (auto simp: restrict_map_def fun_eq_iff domIff)
  then have close: "close_strays keep l t = (None, t |` ({fd. fd < FIRST} \<union> set keep))"
    by (simp add: close_strays_def fds(1) close_all)
  have "sweep_cloexec fails keep l t =
      (None, \<lambda>fd. if fd \<in> set fds \<and> fd \<in> dom t then Some True else t fd)"
    using mark_all_ok [OF assms(2)] by (simp add: sweep_cloexec_def fds(1))
  moreover have "dom (\<lambda>fd. if fd \<in> set fds \<and> fd \<in> dom t then Some True else t fd) = dom t"
    by (auto split: if_splits)
  ultimately show ?thesis
    using close fds(2) by (auto simp: close_strays_def sweep_cloexec_def split: if_splits)
qed

definition demo_listing :: Listing where
  "demo_listing = \<lparr>l_open = None, l_dir = None, l_own = 5,
     l_entries = map Inr [str ''.'', str ''..'', str ''0'', str ''3'', str ''4'', str ''5'']\<rparr>"

theorem sweep_leaves_kept_witness:
  "close_strays [3] demo_listing [0 \<mapsto> False, 3 \<mapsto> False, 4 \<mapsto> False] =
     (None, [0 \<mapsto> False, 3 \<mapsto> False])"
proof -
  let ?t = "[0 \<mapsto> False, 3 \<mapsto> False, 4 \<mapsto> False] :: fd_table"
  have "lists_table demo_listing ?t"
    by (auto simp: lists_table_def demo_listing_def dec_digits.simps)
  from sweep_leaves_kept [OF this, of "\<lambda>_. None" "[3]"] have
    "close_strays [3] demo_listing ?t = (None, ?t |` ({fd. fd < FIRST} \<union> {3}))" by simp
  moreover have "?t |` ({fd. fd < FIRST} \<union> {3}) = [0 \<mapsto> False, 3 \<mapsto> False]"
    by (auto simp: restrict_map_def fun_eq_iff FIRST_def)
  ultimately show ?thesis by simp
qed

end
