(* ===== verification/Init_Spawn.thy ===== *)
theory Init_Spawn
  imports Init_Fds
begin

text \<open>
  The \<^verbatim>\<open>flatpak-spawn\<close> mode of the supervisor binary (\<^verbatim>\<open>crates/bubbler-init/src/spawn.rs\<close>): its
  option grammar and the run that becomes the command.  Shown: the accepted command lines are exactly a
  run of known options, none of them one that would widen what the command may reach, followed by the
  command's own words untouched; what is kept of the options is what they name.
\<close>

record Spawn =
  sp_directory :: "bytes option"
  sp_env :: "(bytes \<times> bytes) list"
  sp_clear_env :: bool
  sp_forward :: "int list"
  sp_argv :: "bytes list"

definition spawn_default :: Spawn where
  "spawn_default = \<lparr>sp_directory = None, sp_env = [], sp_clear_env = False, sp_forward = [], sp_argv = []\<rparr>"

definition IGNORED :: "bytes list" where
  "IGNORED = map str [''--sandbox'', ''--watch-bus'', ''--latest-version'', ''--no-network'']"

definition IGNORED_PREFIXES :: "bytes list" where
  "IGNORED_PREFIXES = map str [''--sandbox-expose'', ''--sandbox-flag'']"

definition HOST_ONLY :: "bytes list" where
  "HOST_ONLY = map str [''--host'', ''--talk-name'', ''--app-path'', ''--usr-path'', ''--expose-pids'']"

definition eq_sign :: byte where
  "eq_sign = 0x3d"

text \<open>The name and the \<open>=VALUE\<close> half of a word.\<close>

definition option_of :: "bytes \<Rightarrow> bytes \<times> bytes option" where
  "option_of word =
     (case position (\<lambda>b. b = eq_sign) word of
        Some i \<Rightarrow> (take i word, Some (drop (i + 1) word))
      | None \<Rightarrow> (word, None))"

definition value_of :: "bytes \<Rightarrow> bytes option \<Rightarrow> bytes + bytes" where
  "value_of word v = ok_or (utf8_lossy word @ str '': needs a =VALUE'') v"

definition is_ignored :: "bytes \<Rightarrow> bool" where
  "is_ignored name \<longleftrightarrow> name \<in> set IGNORED \<or> (\<exists>p \<in> set IGNORED_PREFIXES. starts_with p name)"

definition env_pair :: "bytes \<Rightarrow> bytes \<Rightarrow> bytes + (bytes \<times> bytes)" where
  "env_pair word pair =
     (case position (\<lambda>b. b = eq_sign) pair of
        Some i \<Rightarrow> Inr (take i pair, drop (i + 1) pair)
      | None \<Rightarrow> Inl (utf8_lossy word @ str '': not KEY=VALUE''))"

definition forward_fd :: "bytes \<Rightarrow> bytes \<Rightarrow> bytes + int" where
  "forward_fd word v =
     ok_or (utf8_lossy word @ str '': not a descriptor number'')
       (Option.bind (to_str v) (\<lambda>v. case parse_signed 32 v of
          Some n \<Rightarrow> if n \<ge> 0 then Some n else None | None \<Rightarrow> None))"

text \<open>One option.\<close>

definition take_option :: "bytes \<Rightarrow> Spawn \<Rightarrow> bytes + Spawn" where
  "take_option word s =
     (let (name, v) = option_of word in
      if name \<in> set HOST_ONLY
      then Inl (utf8_lossy name @ str '' is not available inside a bubbler sandbox'')
      else if is_ignored name then Inr s
      else if name = str ''--directory''
      then res_bind (value_of word v) (\<lambda>d. Inr (s\<lparr>sp_directory := Some d\<rparr>))
      else if name = str ''--clear-env'' then Inr (s\<lparr>sp_clear_env := True\<rparr>)
      else if name = str ''--env''
      then res_bind (value_of word v) (\<lambda>pair. res_bind (env_pair word pair) (\<lambda>kv.
             Inr (s\<lparr>sp_env := sp_env s @ [kv]\<rparr>)))
      else if name = str ''--forward-fd''
      then res_bind (value_of word v) (\<lambda>n. res_bind (forward_fd word n) (\<lambda>fd.
             Inr (s\<lparr>sp_forward := sp_forward s @ [fd]\<rparr>)))
      else Inl (str ''unknown option '' @ utf8_lossy word))"

fun spawn_words :: "bytes list \<Rightarrow> Spawn \<Rightarrow> bytes + Spawn" where
  "spawn_words [] s = Inr s"
| "spawn_words (word # ws) s =
     (if word = str ''--'' then Inr (s\<lparr>sp_argv := sp_argv s @ ws\<rparr>)
      else if \<not> starts_with (str ''--'') word then Inr (s\<lparr>sp_argv := sp_argv s @ word # ws\<rparr>)
      else res_bind (take_option word s) (spawn_words ws))"

definition spawn_parse :: "bytes list \<Rightarrow> bytes + Spawn" where
  "spawn_parse args =
     res_bind (spawn_words args spawn_default) (\<lambda>s.
       if sp_argv s = [] then Inl (str ''no command to run'') else Inr s)"

text \<open>Becoming the command: the forwarded descriptors lose their close-on-exec flag, then the
  program is executed in place.  \<open>fails\<close> and \<open>exec_ok\<close> are the kernel's answers.\<close>

definition clear_cloexec :: "(int \<Rightarrow> nat option) \<Rightarrow> int \<Rightarrow> fd_table \<Rightarrow> Os_Error option \<times> fd_table" where
  "clear_cloexec fails fd t =
     (case fails fd of
        Some e \<Rightarrow> (Some (Os e), t)
      | None \<Rightarrow> if fd \<in> dom t then (None, t(fd \<mapsto> False)) else (Some BADF, t))"

fun forward_all :: "(int \<Rightarrow> nat option) \<Rightarrow> int list \<Rightarrow> fd_table \<Rightarrow> Os_Error option \<times> fd_table" where
  "forward_all fails [] t = (None, t)"
| "forward_all fails (fd # fds) t =
     (case clear_cloexec fails fd t of
        (Some e, t') \<Rightarrow> (Some e, t')
      | (None, t') \<Rightarrow> forward_all fails fds t')"

datatype SpawnEnd = SpawnExit nat | Become Spawn fd_table

definition spawn_run :: "(int \<Rightarrow> nat option) \<Rightarrow> bool \<Rightarrow> bytes list \<Rightarrow> fd_table \<Rightarrow> SpawnEnd" where
  "spawn_run fails exec_ok args t =
     (case spawn_parse args of
        Inl why \<Rightarrow> SpawnExit 1
      | Inr s \<Rightarrow>
          (case forward_all fails (sp_forward s) t of
             (Some e, _) \<Rightarrow> SpawnExit 1
           | (None, t') \<Rightarrow> if exec_ok then Become s t' else SpawnExit 127))"

section \<open>The grammar\<close>

text \<open>The words the shim takes as options: each known name, with the value it needs.\<close>

definition descriptor_number :: "bytes \<Rightarrow> bool" where
  "descriptor_number v \<longleftrightarrow> utf8_valid v \<and> (case parse_signed 32 v of Some n \<Rightarrow> 0 \<le> n | None \<Rightarrow> False)"

fun valued_option :: "bytes \<times> bytes option \<Rightarrow> bool" where
  "valued_option (name, None) \<longleftrightarrow> name = str ''--clear-env''"
| "valued_option (name, Some v) \<longleftrightarrow>
     name = str ''--clear-env'' \<or> name = str ''--directory'' \<or> name = str ''--env'' \<and> eq_sign \<in> set v \<or>
     name = str ''--forward-fd'' \<and> descriptor_number v"

definition option_word :: "bytes \<Rightarrow> bool" where
  "option_word w \<longleftrightarrow> starts_with (str ''--'') w \<and> w \<noteq> str ''--''"

definition known_option :: "bytes \<Rightarrow> bool" where
  "known_option w \<longleftrightarrow> option_word w \<and> fst (option_of w) \<notin> set HOST_ONLY \<and>
     (is_ignored (fst (option_of w)) \<or> valued_option (option_of w))"

text \<open>What a run of options asks for, one list each: the directories, environment pairs and descriptors.\<close>

definition values_named :: "string \<Rightarrow> bytes list \<Rightarrow> bytes list" where
  "values_named name opts =
     concat (map (\<lambda>w. if fst (option_of w) = str name then (case snd (option_of w) of Some v \<Rightarrow> [v] | None \<Rightarrow> []) else []) opts)"

definition pair_of :: "bytes \<Rightarrow> bytes \<times> bytes" where
  "pair_of v = (takeWhile (\<lambda>b. b \<noteq> eq_sign) v, tl (dropWhile (\<lambda>b. b \<noteq> eq_sign) v))"

definition spawn_of :: "bytes list \<Rightarrow> Spawn \<Rightarrow> Spawn" where
  "spawn_of opts s =
     \<lparr>sp_directory = (if values_named ''--directory'' opts = [] then sp_directory s
                      else Some (last (values_named ''--directory'' opts))),
      sp_env = sp_env s @ map pair_of (values_named ''--env'' opts),
      sp_clear_env = (sp_clear_env s \<or> (\<exists>w \<in> set opts. fst (option_of w) = str ''--clear-env'')),
      sp_forward = sp_forward s @ map (\<lambda>v. the (parse_signed 32 v)) (values_named ''--forward-fd'' opts),
      sp_argv = sp_argv s\<rparr>"

lemmas ignored_defs = is_ignored_def IGNORED_def IGNORED_PREFIXES_def starts_with_def

lemma position_take:
  "position P xs = Some i \<Longrightarrow> takeWhile (\<lambda>x. \<not> P x) xs = take i xs \<and> dropWhile (\<lambda>x. \<not> P x) xs = drop i xs \<and> i < length xs"
  by (induction xs arbitrary: i) (auto split: if_splits option.splits)

lemma env_pair_iff: "env_pair word v = Inr kv \<longleftrightarrow> eq_sign \<in> set v \<and> kv = pair_of v"
proof (cases "position (\<lambda>b. b = eq_sign) v")
  case None
  then have "eq_sign \<notin> set v" by (auto simp: position_None)
  with None show ?thesis by (simp add: env_pair_def)
next
  case (Some i)
  from position_take [OF Some] have "pair_of v = (take i v, drop (i + 1) v)" by (simp add: pair_of_def tl_drop drop_Suc)
  moreover from position_Some [OF Some] have "eq_sign \<in> set v" by (metis nth_mem)
  ultimately show ?thesis using Some by (auto simp: env_pair_def)
qed

lemma forward_fd_iff: "forward_fd word v = Inr n \<longleftrightarrow> descriptor_number v \<and> n = the (parse_signed 32 v)"
  by (auto simp: forward_fd_def descriptor_number_def to_str_def ok_or_def bind_eq_Some_conv split: option.splits if_splits)

lemma values_Cons: "values_named name (w # ws) = values_named name [w] @ values_named name ws"
  by (simp add: values_named_def)

lemma spawn_of_Nil [simp]: "spawn_of [] s = s"
  by (simp add: spawn_of_def values_named_def)

lemma spawn_of_Cons: "spawn_of (w # ws) s = spawn_of ws (spawn_of [w] s)"
  by (auto simp: spawn_of_def values_Cons [of _ w ws])

text \<open>One option is taken exactly when it is known, and then has its own effect.\<close>

abbreviation option_names :: "bytes list" where
  "option_names \<equiv> [str ''--directory'', str ''--clear-env'', str ''--env'', str ''--forward-fd'']"

lemma option_names_plain: "name \<in> set option_names \<Longrightarrow> name \<notin> set HOST_ONLY \<and> \<not> is_ignored name"
  by (auto simp: ignored_defs HOST_ONLY_def)

lemma spawn_of_other:
  assumes "fst (option_of w) \<notin> set option_names"
  shows "spawn_of [w] s = s"
  using assms by (simp add: spawn_of_def values_named_def del: str_Cons)

lemma take_option_iff:
  assumes "option_word word"
  shows "take_option word s = Inr s' \<longleftrightarrow> known_option word \<and> s' = spawn_of [word] s"
proof -
  obtain name v where o: "option_of word = (name, v)" by (cases "option_of word")
  note defs = take_option_def o known_option_def assms
  show ?thesis
  proof (cases "name \<in> set option_names")
    case False
    then have "valued_option (name, v) = False" by (cases v) (simp_all del: str_Cons)
    with False show ?thesis using spawn_of_other [of word s]
      by (auto simp: defs simp del: str_Cons)
  next
    case True
    note plain = option_names_plain [OF True]
    from True consider "name = str ''--directory''" | "name = str ''--clear-env''" | "name = str ''--env''"
      | "name = str ''--forward-fd''" by (auto simp del: str_Cons)
    then show ?thesis
    proof cases
      case 1
      have "name \<noteq> str ''--clear-env''" "name \<noteq> str ''--env''" "name \<noteq> str ''--forward-fd''" using 1 by simp_all
      with 1 plain show ?thesis
        by (cases v) (auto simp: defs spawn_of_def values_named_def value_of_def simp del: str_Cons)
    next
      case 2
      have "name \<noteq> str ''--directory''" "name \<noteq> str ''--env''" "name \<noteq> str ''--forward-fd''" using 2 by simp_all
      with 2 plain show ?thesis
        by (cases v) (auto simp: defs spawn_of_def values_named_def simp del: str_Cons)
    next
      case 3
      have "name \<noteq> str ''--directory''" "name \<noteq> str ''--clear-env''" "name \<noteq> str ''--forward-fd''" using 3 by simp_all
      with 3 plain show ?thesis
        by (cases v) (auto simp: defs spawn_of_def values_named_def value_of_def res_bind_eq_Inr env_pair_iff
            simp del: str_Cons)
    next
      case 4
      have "name \<noteq> str ''--directory''" "name \<noteq> str ''--clear-env''" "name \<noteq> str ''--env''" using 4 by simp_all
      with 4 plain show ?thesis
        by (cases v) (auto simp: defs spawn_of_def values_named_def value_of_def res_bind_eq_Inr forward_fd_iff
            simp del: str_Cons)
    qed
  qed
qed

lemma spawn_words_known:
  assumes "\<forall>w \<in> set opts. known_option w"
  shows "spawn_words (opts @ rest) s = spawn_words rest (spawn_of opts s)"
  using assms
proof (induction opts arbitrary: s)
  case (Cons w opts)
  then have w: "option_word w" "take_option w s = Inr (spawn_of [w] s)"
    by (simp_all add: take_option_iff known_option_def)
  with Cons show ?case by (simp add: option_word_def spawn_of_Cons [of w opts])
qed simp

definition command_tail :: "bytes list \<Rightarrow> bytes list \<Rightarrow> bool" where
  "command_tail tail argv \<longleftrightarrow> tail = str ''--'' # argv \<or> tail = argv \<and> (argv \<noteq> [] \<longrightarrow> \<not> starts_with (str ''--'') (hd argv))"

lemma spawn_words_tail:
  assumes "command_tail tail argv"
  shows "spawn_words tail s = Inr (s\<lparr>sp_argv := sp_argv s @ argv\<rparr>)"
  using assms by (cases argv) (auto simp: command_tail_def starts_with_def)

lemma spawn_words_Inr:
  assumes "spawn_words args s = Inr s'"
  shows "\<exists>opts tail argv. args = opts @ tail \<and> (\<forall>w \<in> set opts. known_option w) \<and> command_tail tail argv \<and>
    s' = (spawn_of opts s)\<lparr>sp_argv := sp_argv s @ argv\<rparr>"
  using assms
proof (induction args s rule: spawn_words.induct)
  case (1 s)
  then show ?case by (intro exI [of _ "[]"]) (simp add: command_tail_def)
next
  case (2 word ws s)
  consider "word = str ''--''" | "\<not> starts_with (str ''--'') word" | "option_word word" by (auto simp: option_word_def)
  then show ?case
  proof cases
    case 1
    with "2.prems" show ?thesis
      by (intro exI [of _ "[]"] exI [of _ "word # ws"] exI [of _ ws]) (simp add: command_tail_def)
  next
    case 2
    moreover from 2 have "word \<noteq> str ''--''" by (auto simp: starts_with_def)
    ultimately show ?thesis using "2.prems"
      by (intro exI [of _ "[]"] exI [of _ "word # ws"]) (simp add: command_tail_def)
  next
    case 3
    with "2.prems" have w: "known_option word" "spawn_words ws (spawn_of [word] s) = Inr s'"
      by (auto simp: option_word_def res_bind_eq_Inr take_option_iff)
    then have t: "take_option word s = Inr (spawn_of [word] s)" using 3 by (simp add: take_option_iff)
    from "2.IH" [OF _ _ w(2)] 3 t obtain opts tail argv where "ws = opts @ tail" "\<forall>w \<in> set opts. known_option w"
        "command_tail tail argv" "s' = (spawn_of opts (spawn_of [word] s))\<lparr>sp_argv := sp_argv (spawn_of [word] s) @ argv\<rparr>"
      by (auto simp: option_word_def)
    with w(1) show ?thesis
      by (intro exI [of _ "word # opts"] exI [of _ tail] exI [of _ argv])
        (simp add: spawn_of_Cons [of word opts], simp add: spawn_of_def)
  qed
qed

text \<open>C28. What the \<^verbatim>\<open>flatpak-spawn\<close> shim accepts is exactly a run of known options, each with the value it needs and
  none of them host-only, then a command of at least one word: every word from the first that is no option, or
  after a bare \<^verbatim>\<open>--\<close>, to the end, unread.  What it keeps is exactly the last directory, the environment pairs, the
  descriptors and the \<^verbatim>\<open>--clear-env\<close> those options name.  A host-only option before the command is refused by
  its name whatever follows.\<close>

theorem spawn_grammar:
  "(spawn_parse args = Inr s \<longleftrightarrow>
      (\<exists>opts tail argv. args = opts @ tail \<and> (\<forall>w \<in> set opts. known_option w) \<and> argv \<noteq> [] \<and>
        (tail = str ''--'' # argv \<or> tail = argv \<and> \<not> starts_with (str ''--'') (hd argv)) \<and>
        s = (spawn_of opts spawn_default)\<lparr>sp_argv := argv\<rparr>)) \<and>
    ((\<forall>w \<in> set opts'. known_option w) \<and> option_word host \<and> fst (option_of host) \<in> set HOST_ONLY \<longrightarrow>
      spawn_parse (opts' @ host # rest) =
        Inl (utf8_lossy (fst (option_of host)) @ str '' is not available inside a bubbler sandbox''))"
proof (intro conjI impI iffI)
  assume "spawn_parse args = Inr s"
  then have "spawn_words args spawn_default = Inr s" "sp_argv s \<noteq> []"
    by (auto simp: spawn_parse_def res_bind_eq_Inr split: if_splits)
  with spawn_words_Inr [of args spawn_default s] show "\<exists>opts tail argv. args = opts @ tail \<and>
      (\<forall>w \<in> set opts. known_option w) \<and> argv \<noteq> [] \<and>
      (tail = str ''--'' # argv \<or> tail = argv \<and> \<not> starts_with (str ''--'') (hd argv)) \<and>
      s = (spawn_of opts spawn_default)\<lparr>sp_argv := argv\<rparr>"
    by (fastforce simp: command_tail_def spawn_default_def)
next
  assume "\<exists>opts tail argv. args = opts @ tail \<and> (\<forall>w \<in> set opts. known_option w) \<and> argv \<noteq> [] \<and>
      (tail = str ''--'' # argv \<or> tail = argv \<and> \<not> starts_with (str ''--'') (hd argv)) \<and>
      s = (spawn_of opts spawn_default)\<lparr>sp_argv := argv\<rparr>"
  then obtain opts tail argv where a: "args = opts @ tail" "\<forall>w \<in> set opts. known_option w" "argv \<noteq> []"
      "command_tail tail argv" "s = (spawn_of opts spawn_default)\<lparr>sp_argv := argv\<rparr>"
    by (auto simp: command_tail_def)
  have "sp_argv (spawn_of opts spawn_default) = []" by (simp add: spawn_of_def spawn_default_def)
  then show "spawn_parse args = Inr s"
    using a(3) by (simp add: spawn_parse_def a(1,5) spawn_words_known [OF a(2)] spawn_words_tail [OF a(4)])
next
  assume h: "(\<forall>w \<in> set opts'. known_option w) \<and> option_word host \<and> fst (option_of host) \<in> set HOST_ONLY"
  then have "take_option host t =
      Inl (utf8_lossy (fst (option_of host)) @ str '' is not available inside a bubbler sandbox'')" for t
    by (cases "option_of host") (simp add: take_option_def)
  with h show "spawn_parse (opts' @ host # rest) =
      Inl (utf8_lossy (fst (option_of host)) @ str '' is not available inside a bubbler sandbox'')"
    by (simp add: spawn_parse_def spawn_words_known option_word_def)
qed

theorem spawn_grammar_witness:
  "spawn_parse [str ''--clear-env'', str ''--forward-fd=9'', str ''prlimit'', str ''--as=1''] =
       Inr \<lparr>sp_directory = None, sp_env = [], sp_clear_env = True, sp_forward = [9], sp_argv = [str ''prlimit'', str ''--as=1'']\<rparr> \<and>
     spawn_parse [str ''--sandbox'', str ''--host'', str ''true''] =
       Inl (str ''--host'' @ str '' is not available inside a bubbler sandbox'')"
proof -
  note defs = option_of_def eq_sign_def HOST_ONLY_def IGNORED_def IGNORED_PREFIXES_def is_ignored_def starts_with_def
    known_option_def option_word_def descriptor_number_def spawn_of_def values_named_def spawn_default_def
    parse_signed_def parse_unsigned_def ascii_defs dec_val_def digit_val_def
  let ?opts = "[str ''--clear-env'', str ''--forward-fd=9'']"
  let ?argv = "[str ''prlimit'', str ''--as=1'']"
  have a: "(\<forall>w \<in> set ?opts. known_option w) \<and> ?argv \<noteq> [] \<and> \<not> starts_with (str ''--'') (hd ?argv)" by (simp add: defs)
  have s: "(spawn_of ?opts spawn_default)\<lparr>sp_argv := ?argv\<rparr> =
      \<lparr>sp_directory = None, sp_env = [], sp_clear_env = True, sp_forward = [9], sp_argv = ?argv\<rparr>" by (simp add: defs)
  have "spawn_parse (?opts @ ?argv) = Inr ((spawn_of ?opts spawn_default)\<lparr>sp_argv := ?argv\<rparr>)"
    by (rule iffD2 [OF conjunct1 [OF spawn_grammar]]) (use a in blast)
  moreover have "\<forall>w \<in> set [str ''--sandbox'']. known_option w" "option_word (str ''--host'')"
      "fst (option_of (str ''--host'')) \<in> set HOST_ONLY" by (simp_all add: defs)
  then have "spawn_parse ([str ''--sandbox''] @ str ''--host'' # [str ''true'']) =
      Inl (utf8_lossy (fst (option_of (str ''--host''))) @ str '' is not available inside a bubbler sandbox'')"
    by (intro mp [OF conjunct2 [OF spawn_grammar]] conjI)
  moreover have "utf8_lossy (str ''--host'') = str ''--host''" by (rule utf8_lossy_valid) simp
  ultimately show ?thesis unfolding s by (simp add: option_of_def eq_sign_def)
qed

end
