(* ===== verification/Init_Supervisor.thy ===== *)
theory Init_Supervisor
  imports Init_Wire Init_Spawn
begin

text \<open>
  The in-sandbox supervisor (\<^verbatim>\<open>crates/bubbler-init/src/main.rs\<close>): its command line, the exec
  requests it serves, stopping, shutting down, and one turn of its loop as a function of the
  state and of what the kernel answers in that turn (\<open>Tick\<close>).  What it does to the world is a
  log of actions.  A child is its pid and a connection a number.  Shown: once the run is
  asked to end nothing is started any more and the deadline of the first asking stands, so
  whatever ignored SIGTERM is killed at it; half-read requests are bounded; and a connection
  is answered at most once.
\<close>

section \<open>Constants and state\<close>

definition GRACE :: duration where
  "GRACE = 5 * 10 ^ 9"

definition REQUEST_TIMEOUT_INIT :: duration where
  "REQUEST_TIMEOUT_INIT = 5 * 10 ^ 9"

definition NOT_EXECUTABLE :: u32 where
  "NOT_EXECUTABLE = 127 * 256"

definition MAX_PENDING :: nat where
  "MAX_PENDING = 16"

definition X11_SOCKET :: bytes where
  "X11_SOCKET = str ''/tmp/.X11-unix/X0''"

definition X11_DISPLAY :: bytes where
  "X11_DISPLAY = str '':0''"

record InitArgs =
  ia_socket_fd :: int
  ia_ctty :: bool
  ia_x11 :: "bytes list option"
  ia_x11_socket :: bytes
  ia_wm :: "bytes option"
  ia_command :: "bytes list"

record X11 =
  x_argv :: "bytes list"
  x_wm :: "bytes option"
  x_started :: bool
  x_server :: "nat option"
  x_wm_child :: "nat option"

record Exec =
  e_child :: nat
  e_stream :: nat

record Stopping =
  asked :: bool
  kill_at :: "instant option"

record Pending =
  pe_stream :: nat
  pe_incoming :: Incoming
  pe_deadline :: instant

section \<open>The command line\<close>

text \<open>The locals of \<open>parse_from\<close>.\<close>

record InitParse =
  ip_socket_fd :: "int option"
  ip_ctty :: bool
  ip_x11 :: "bytes list option"
  ip_x11_socket :: "bytes option"
  ip_wm :: "bytes option"
  ip_command :: "bytes list"

definition init_parse_start :: InitParse where
  "init_parse_start = \<lparr>ip_socket_fd = None, ip_ctty = False, ip_x11 = None, ip_x11_socket = None,
     ip_wm = None, ip_command = []\<rparr>"

text \<open>The loop over the words; the server's argv runs to its own bare \<^verbatim>\<open>--\<close>, which is consumed.\<close>

function init_words :: "bytes list \<Rightarrow> InitParse \<Rightarrow> InitParse option" where
  "init_words [] p = Some p"
| "init_words (a # ws) p =
     (if a = str ''--socket-fd'' then
        (case ws of
           [] \<Rightarrow> None
         | v # ws' \<Rightarrow>
             (case to_str v of
                None \<Rightarrow> None
              | Some v \<Rightarrow> init_words ws' (p\<lparr>ip_socket_fd := parse_signed 32 v\<rparr>)))
      else if a = str ''--ctty'' then init_words ws (p\<lparr>ip_ctty := True\<rparr>)
      else if a = str ''--x11'' \<and> ip_x11 p = None then
        (let xs = takeWhile (\<lambda>w. w \<noteq> str ''--'') ws in
         if xs = [] then None
         else init_words (drop (length xs + 1) ws) (p\<lparr>ip_x11 := Some xs\<rparr>))
      else if a = str ''--x11-socket'' \<and> ip_x11_socket p = None then
        (case ws of [] \<Rightarrow> None | v # ws' \<Rightarrow> init_words ws' (p\<lparr>ip_x11_socket := Some v\<rparr>))
      else if a = str ''--wm'' \<and> ip_wm p = None then
        (case ws of [] \<Rightarrow> None | v # ws' \<Rightarrow> init_words ws' (p\<lparr>ip_wm := Some v\<rparr>))
      else if a = str ''--'' then Some (p\<lparr>ip_command := ip_command p @ ws\<rparr>)
      else None)"
  by pat_completeness auto
termination
  by (relation "measure (\<lambda>(ws, p). length ws)") auto

definition init_parse :: "bytes list \<Rightarrow> InitArgs option" where
  "init_parse args =
     Option.bind (init_words args init_parse_start) (\<lambda>p.
       if ip_x11 p = None \<and> (ip_x11_socket p \<noteq> None \<or> ip_wm p \<noteq> None) then None
       else if ip_command p = [] then None
       else map_option (\<lambda>fd. \<lparr>ia_socket_fd = fd, ia_ctty = ip_ctty p, ia_x11 = ip_x11 p,
              ia_x11_socket = (case ip_x11_socket p of Some s \<Rightarrow> s | None \<Rightarrow> X11_SOCKET),
              ia_wm = ip_wm p, ia_command = ip_command p\<rparr>) (ip_socket_fd p))"

section \<open>Children\<close>

datatype Signal = SigTerm | SigKill

datatype WaitRes = Running | Ended u32 | WaitErr bytes

text \<open>What a turn does: signals, statuses sent back, programs started with the display they are
  pointed at and whether they take the terminal, reports on a client's own stderr, and lines
  on the supervisor's stderr.\<close>

datatype Act =
    Kill nat Signal
  | Status nat u32
  | Started nat "bytes list" "bytes option" bool
  | StartedX11 nat "bytes list"
  | StartedWm nat bytes
  | Report nat bytes
  | Say bytes

definition line_of :: "bytes \<Rightarrow> bytes" where
  "line_of t = str ''bubbler-init: '' @ t"

definition signal_execs :: "Exec list \<Rightarrow> Signal \<Rightarrow> Act list" where
  "signal_execs es sig = map (\<lambda>e. Kill (e_child e) sig) es"

fun reap :: "(nat \<Rightarrow> WaitRes) \<Rightarrow> Exec list \<Rightarrow> Exec list \<times> Act list" where
  "reap waits [] = ([], [])"
| "reap waits (e # es) =
     (let (kept, acts) = reap waits es in
      case waits (e_child e) of
        Running \<Rightarrow> (e # kept, acts)
      | Ended status \<Rightarrow> (kept, Status (e_stream e) status # acts)
      | WaitErr _ \<Rightarrow> (kept, acts))"

definition has_exited :: "WaitRes \<Rightarrow> bytes \<Rightarrow> bool \<times> Act list" where
  "has_exited r what =
     (case r of
        Running \<Rightarrow> (False, [])
      | Ended _ \<Rightarrow> (True, [])
      | WaitErr e \<Rightarrow> (True, [Say (line_of (str ''cannot wait for '' @ what @ str '': '' @ e))]))"

definition begin_stop :: "instant \<Rightarrow> nat \<Rightarrow> Exec list \<Rightarrow> Stopping \<Rightarrow> Stopping \<times> Act list" where
  "begin_stop now command es st =
     (st\<lparr>asked := True,
         kill_at := (case kill_at st of Some t \<Rightarrow> Some t | None \<Rightarrow> Some (now + GRACE))\<rparr>,
      Kill command SigTerm # signal_execs es SigTerm)"

text \<open>\<open>code_of\<close> on a raw wait status: its exit code when the low seven bits are clear, 128 plus
  the signal when they name one.\<close>

definition status_code :: "u32 \<Rightarrow> nat option" where
  "status_code s = (if s AND 0x7f = 0 then Some (unat (drop_bit 8 s AND 0xff)) else None)"

definition status_signal :: "u32 \<Rightarrow> nat option" where
  "status_signal s = (if s AND 0x7f \<noteq> 0 \<and> s AND 0x7f \<noteq> 0x7f then Some (unat (s AND 0x7f)) else None)"

definition code_of :: "u32 \<Rightarrow> nat" where
  "code_of s =
     (let code = (case status_code s of
                    Some c \<Rightarrow> c
                  | None \<Rightarrow> (case status_signal s of Some n \<Rightarrow> 128 + n | None \<Rightarrow> 1))
      in if code \<le> 255 then code else 1)"

section \<open>Serving a request\<close>

text \<open>What the system answers while a request is served: whether the client's stderr could be
  duplicated, whether its stdin is a terminal, and the child or the error of the spawn.\<close>

record ServeEnv =
  sv_clone :: bool
  sv_isatty :: bool
  sv_spawn :: "bytes + nat"

definition refuse_exec :: "nat \<Rightarrow> nat option \<Rightarrow> bytes \<Rightarrow> Act list" where
  "refuse_exec stream report why =
     (case report of Some fd \<Rightarrow> [Report fd (line_of why)] | None \<Rightarrow> []) @ [Status stream NOT_EXECUTABLE]"

definition serve :: "nat \<Rightarrow> Request \<Rightarrow> nat list \<Rightarrow> ServeEnv \<Rightarrow> bytes option \<Rightarrow> bool \<Rightarrow> Exec list \<Rightarrow>
    Exec list \<times> Act list" where
  "serve stream request fds env display is_stopping es =
     (case argv request of
        [] \<Rightarrow> (es, [])
      | program # rest \<Rightarrow>
          (case fds of
             stdin # stdout # stderr # _ \<Rightarrow>
               let report = (if sv_clone env then Some stderr else None) in
               if is_stopping
               then (es, refuse_exec stream report (str ''stopping; '' @ utf8_lossy program @ str '' was not run''))
               else
                 let terminal = (ctty request \<and> sv_isatty env) in
                 (case sv_spawn env of
                    Inr pid \<Rightarrow> (es @ [\<lparr>e_child = pid, e_stream = stream\<rparr>],
                                [Started pid (argv request) display terminal])
                  | Inl e \<Rightarrow> (es, refuse_exec stream report (utf8_lossy program @ str '': '' @ e)))
           | _ \<Rightarrow> (es, [])))"

text \<open>\<open>read_pending\<close>: \<open>ready\<close> is parallel to the connections, a missing entry being not ready;
  \<open>reads\<close> is what each connection has to give.\<close>

fun read_pending :: "bytes option \<Rightarrow> bool \<Rightarrow> (nat \<Rightarrow> recv list) \<Rightarrow> (nat \<Rightarrow> ServeEnv) \<Rightarrow>
    Pending list \<Rightarrow> bool list \<Rightarrow> Exec list \<Rightarrow> Pending list \<times> Exec list \<times> Act list" where
  "read_pending display is_stopping reads envs [] ready es = ([], es, [])"
| "read_pending display is_stopping reads envs (p # ps) ready es =
     (let (r, ready') = (case ready of [] \<Rightarrow> (False, []) | r # rs \<Rightarrow> (r, rs)) in
      if \<not> r then
        let (kept, es', acts) = read_pending display is_stopping reads envs ps ready' es
        in (p # kept, es', acts)
      else
        (case read_step (pe_incoming p) (reads (pe_stream p)) of
           (Inr None, inc, _) \<Rightarrow>
             let (kept, es', acts) = read_pending display is_stopping reads envs ps ready' es
             in (p\<lparr>pe_incoming := inc\<rparr> # kept, es', acts)
         | (Inr (Some (request, fds)), _, _) \<Rightarrow>
             let (es1, acts1) = serve (pe_stream p) request fds (envs (pe_stream p)) display is_stopping es;
                 (kept, es', acts) = read_pending display is_stopping reads envs ps ready' es1
             in (kept, es', acts1 @ acts)
         | (Inl _, _, _) \<Rightarrow> read_pending display is_stopping reads envs ps ready' es))"

section \<open>Ending\<close>

text \<open>The grace of \<open>shutdown\<close>: the clock before each wait and what the children answer after it.
  A script that ends is a clock that has reached the deadline.\<close>

fun shutdown_wait :: "instant \<Rightarrow> (instant \<times> (nat \<Rightarrow> WaitRes)) list \<Rightarrow> Exec list \<Rightarrow> Exec list \<times> Act list" where
  "shutdown_wait deadline [] es = (es, [])"
| "shutdown_wait deadline ((now, waits) # ts) es =
     (if es \<noteq> [] \<and> now < deadline then
        let (es1, acts1) = reap waits es; (es2, acts2) = shutdown_wait deadline ts es1
        in (es2, acts1 @ acts2)
      else (es, []))"

definition shutdown :: "instant \<Rightarrow> (instant \<times> (nat \<Rightarrow> WaitRes)) list \<Rightarrow> (nat \<Rightarrow> u32 option) \<Rightarrow> Exec list \<Rightarrow>
    Exec list \<times> Act list" where
  "shutdown now ts final es =
     (if es = [] then ([], [])
      else
        let (left, acts) = shutdown_wait (now + GRACE) ts es;
            statuses = concat (map (\<lambda>e. case final (e_child e) of
                                          Some s \<Rightarrow> [Status (e_stream e) s] | None \<Rightarrow> []) left)
        in ([], signal_execs es SigTerm @ acts @ signal_execs left SigKill @ statuses))"

fun child_wait :: "instant \<Rightarrow> (instant \<times> WaitRes) list \<Rightarrow> bool" where
  "child_wait deadline [] = False"
| "child_wait deadline ((now, r) # ts) = (now < deadline \<and> (r \<noteq> Running \<or> child_wait deadline ts))"

definition stop_child :: "instant \<Rightarrow> (instant \<times> WaitRes) list \<Rightarrow> nat \<Rightarrow> Act list" where
  "stop_child now ts pid = Kill pid SigTerm # (if child_wait (now + GRACE) ts then [] else [Kill pid SigKill])"

record EndEnv =
  ee_shutdown :: instant
  ee_waits :: "(instant \<times> (nat \<Rightarrow> WaitRes)) list"
  ee_final :: "nat \<Rightarrow> u32 option"
  ee_wm :: instant
  ee_wm_waits :: "(instant \<times> WaitRes) list"
  ee_server :: instant
  ee_server_waits :: "(instant \<times> WaitRes) list"

definition stop_x11 :: "EndEnv \<Rightarrow> X11 option \<Rightarrow> Act list" where
  "stop_x11 env x11 =
     (case x11 of
        None \<Rightarrow> []
      | Some x \<Rightarrow>
          (case x_wm_child x of Some p \<Rightarrow> stop_child (ee_wm env) (ee_wm_waits env) p | None \<Rightarrow> []) @
          (case x_server x of Some p \<Rightarrow> stop_child (ee_server env) (ee_server_waits env) p | None \<Rightarrow> []))"

section \<open>One turn of the loop\<close>

record Sup =
  su_command :: nat
  su_execs :: "Exec list"
  su_pending :: "Pending list"
  su_stopping :: Stopping
  su_x11 :: "X11 option"

text \<open>What \<open>start_x11\<close> is answered: the duplicate of the socket, its close-on-exec flag, the spawn.\<close>

record X11Env =
  xe_dup :: "bytes + nat"
  xe_setfd :: "bytes option"
  xe_spawn :: "bytes + nat"

record Tick =
  tk_command :: WaitRes
  tk_end :: EndEnv
  tk_server :: WaitRes
  tk_server_now :: instant
  tk_wm :: WaitRes
  tk_waits :: "nat \<Rightarrow> WaitRes"
  tk_kill_now :: instant
  tk_poll_ok :: bool
  tk_accept :: bool
  tk_wake :: bool
  tk_ready :: "bool list"
  tk_stop :: bool
  tk_stop_now :: instant
  tk_x11 :: X11Env
  tk_x11_now :: instant
  tk_wm_spawn :: "bytes + nat"
  tk_reads :: "nat \<Rightarrow> recv list"
  tk_serve :: "nat \<Rightarrow> ServeEnv"
  tk_now :: instant
  tk_accepts :: "(nat \<times> bool \<times> instant) list"

definition su_display :: "Sup \<Rightarrow> bytes option" where
  "su_display s = map_option (\<lambda>_. X11_DISPLAY) (su_x11 s)"

definition ask_stop :: "instant \<Rightarrow> Sup \<Rightarrow> Sup \<times> Act list" where
  "ask_stop now s =
     (let (st, acts) = begin_stop now (su_command s) (su_execs s) (su_stopping s)
      in (s\<lparr>su_stopping := st\<rparr>, acts))"

text \<open>A server or window manager that has gone.\<close>

definition check_server :: "Tick \<Rightarrow> Sup \<Rightarrow> Sup \<times> Act list" where
  "check_server t s =
     (case su_x11 s of
        None \<Rightarrow> (s, [])
      | Some x \<Rightarrow>
          if x_server x = None then (s, [])
          else
            let (gone, said) = has_exited (tk_server t) (str ''Xwayland'') in
            if gone then
              let (s1, acts) = ask_stop (tk_server_now t) s
              in (s1\<lparr>su_x11 := Some (x\<lparr>x_server := None\<rparr>)\<rparr>,
                  said @ Say (line_of (str ''Xwayland exited; stopping the command'')) # acts)
            else (s, said))"

definition check_wm :: "Tick \<Rightarrow> Sup \<Rightarrow> Sup \<times> Act list" where
  "check_wm t s =
     (case su_x11 s of
        None \<Rightarrow> (s, [])
      | Some x \<Rightarrow>
          if x_wm_child x = None then (s, [])
          else
            let (gone, said) = has_exited (tk_wm t) (str ''the window manager'') in
            if gone then
              (s\<lparr>su_x11 := Some (x\<lparr>x_wm_child := None\<rparr>)\<rparr>,
               said @ (case x_wm x of
                         Some name \<Rightarrow> [Say (line_of (str ''wm '' @ utf8_lossy name @ str '' exited''))]
                       | None \<Rightarrow> []))
            else (s, said))"

definition reap_all :: "Tick \<Rightarrow> Sup \<Rightarrow> Sup \<times> Act list" where
  "reap_all t s = (let (es, acts) = reap (tk_waits t) (su_execs s) in (s\<lparr>su_execs := es\<rparr>, acts))"

definition kill_due :: "Tick \<Rightarrow> Sup \<Rightarrow> Sup \<times> Act list" where
  "kill_due t s =
     (case kill_at (su_stopping s) of
        Some due \<Rightarrow>
          if tk_kill_now t \<ge> due
          then (s\<lparr>su_stopping := (su_stopping s)\<lparr>kill_at := None\<rparr>\<rparr>,
                Kill (su_command s) SigKill # signal_execs (su_execs s) SigKill)
          else (s, [])
      | None \<Rightarrow> (s, []))"

definition take_stop :: "Tick \<Rightarrow> Sup \<Rightarrow> Sup \<times> Act list" where
  "take_stop t s = (if tk_stop t then ask_stop (tk_stop_now t) s else (s, []))"

text \<open>Whether the display socket was in the poll set.\<close>

definition is_waking :: "Sup \<Rightarrow> bool" where
  "is_waking s = (case su_x11 s of Some x \<Rightarrow> \<not> x_started x \<and> \<not> asked (su_stopping s) | None \<Rightarrow> False)"

definition start_x11 :: "X11Env \<Rightarrow> X11 \<Rightarrow> bytes + X11 \<times> Act list" where
  "start_x11 e x =
     (case x_argv x of
        [] \<Rightarrow> Inl (str ''no server to run'')
      | program # rest \<Rightarrow>
          (case xe_dup e of
             Inl why \<Rightarrow> Inl (str ''cannot duplicate the socket: '' @ why)
           | Inr handed \<Rightarrow>
               (case xe_setfd e of
                  Some why \<Rightarrow> Inl (str ''cannot pass the socket: '' @ why)
                | None \<Rightarrow>
                    (case xe_spawn e of
                       Inl why \<Rightarrow> Inl (utf8_lossy program @ str '': '' @ why)
                     | Inr pid \<Rightarrow>
                         Inr (x\<lparr>x_server := Some pid\<rparr>,
                              [StartedX11 pid (program # rest @ [str ''-listenfd'', dec_digits handed])])))))"

definition start_wm :: "bytes + nat \<Rightarrow> X11 \<Rightarrow> X11 \<times> Act list" where
  "start_wm r x =
     (case x_wm x of
        None \<Rightarrow> (x, [])
      | Some wm \<Rightarrow>
          (case r of
             Inr pid \<Rightarrow> (x\<lparr>x_wm_child := Some pid\<rparr>, [StartedWm pid wm])
           | Inl e \<Rightarrow> (x, [Say (line_of (str ''wm '' @ utf8_lossy wm @ str '': '' @ e))])))"

definition wake_display :: "Tick \<Rightarrow> bool \<Rightarrow> Sup \<Rightarrow> Sup \<times> Act list" where
  "wake_display t woke s =
     (case su_x11 s of
        Some x \<Rightarrow>
          if woke \<and> \<not> asked (su_stopping s) then
            let x1 = x\<lparr>x_started := True\<rparr> in
            (case start_x11 (tk_x11 t) x1 of
               Inr (x2, acts) \<Rightarrow>
                 let (x3, acts') = start_wm (tk_wm_spawn t) x2
                 in (s\<lparr>su_x11 := Some x3\<rparr>, acts @ acts')
             | Inl reason \<Rightarrow>
                 let (s1, acts) = ask_stop (tk_x11_now t) (s\<lparr>su_x11 := Some x1\<rparr>)
                 in (s1, Say (line_of (str ''Xwayland did not start: '' @ reason)) # acts))
          else (s, [])
      | None \<Rightarrow> (s, []))"

definition read_requests :: "Tick \<Rightarrow> Sup \<Rightarrow> Sup \<times> Act list" where
  "read_requests t s =
     (let (ps, es, acts) = read_pending (su_display s) (asked (su_stopping s)) (tk_reads t) (tk_serve t)
            (su_pending s) (tk_ready t) (su_execs s)
      in (s\<lparr>su_pending := ps, su_execs := es\<rparr>, acts))"

definition expire :: "Tick \<Rightarrow> Sup \<Rightarrow> Sup" where
  "expire t s = s\<lparr>su_pending := filter (\<lambda>p. pe_deadline p > tk_now t) (su_pending s)\<rparr>"

text \<open>The accept loop: each accepted connection, whether it could be made non-blocking, and the
  clock then.\<close>

fun accept_all :: "(nat \<times> bool \<times> instant) list \<Rightarrow> Pending list \<Rightarrow> Pending list" where
  "accept_all [] ps = ps"
| "accept_all ((stream, nonblocking, now) # as) ps =
     (if nonblocking then
        accept_all as ((if length ps \<ge> MAX_PENDING then tl ps else ps) @
          [\<lparr>pe_stream = stream, pe_incoming = new_incoming, pe_deadline = now + REQUEST_TIMEOUT_INIT\<rparr>])
      else accept_all as ps)"

definition accept_new :: "Tick \<Rightarrow> Sup \<Rightarrow> Sup" where
  "accept_new t s =
     (if tk_accept t then s\<lparr>su_pending := accept_all (tk_accepts t) (su_pending s)\<rparr> else s)"

text \<open>The turn up to the poll, and the work after it.\<close>

definition before_poll :: "Tick \<Rightarrow> Sup \<Rightarrow> Sup \<times> Act list" where
  "before_poll t s =
     (let (s1, a1) = check_server t s; (s2, a2) = check_wm t s1;
          (s3, a3) = reap_all t s2; (s4, a4) = kill_due t s3
      in (s4, a1 @ a2 @ a3 @ a4))"

definition after_poll :: "Tick \<Rightarrow> bool \<Rightarrow> Sup \<Rightarrow> Sup \<times> Act list" where
  "after_poll t woke s =
     (let (s1, a1) = take_stop t s in
      if \<not> tk_poll_ok t then (s1, a1)
      else
        let (s2, a2) = wake_display t woke s1; (s3, a3) = read_requests t s2
        in (accept_new t (expire t s3), a1 @ a2 @ a3))"

definition tick :: "Tick \<Rightarrow> Sup \<Rightarrow> (Sup + nat) \<times> Act list" where
  "tick t s =
     (case tk_command t of
        Ended status \<Rightarrow>
          let (es1, a1) = reap (tk_waits t) (su_execs s);
              (_, a2) = shutdown (ee_shutdown (tk_end t)) (ee_waits (tk_end t)) (ee_final (tk_end t)) es1
          in (Inr (code_of status), a1 @ a2 @ stop_x11 (tk_end t) (su_x11 s))
      | _ \<Rightarrow>
          let (s1, a1) = before_poll t s; (s2, a2) = after_poll t (is_waking s1 \<and> tk_wake t) s1
          in (Inl s2, a1 @ a2))"

fun sup_run :: "Tick list \<Rightarrow> Sup \<Rightarrow> (Sup + nat) \<times> Act list" where
  "sup_run [] s = (Inl s, [])"
| "sup_run (t # ts) s =
     (case tick t s of
        (Inr code, acts) \<Rightarrow> (Inr code, acts)
      | (Inl s1, acts) \<Rightarrow> (let (r, acts') = sup_run ts s1 in (r, acts @ acts')))"

text \<open>The state the loop starts in, once the command is running.\<close>

definition sup_start :: "nat \<Rightarrow> X11 option \<Rightarrow> Sup" where
  "sup_start command x11 = \<lparr>su_command = command, su_execs = [], su_pending = [],
     su_stopping = \<lparr>asked = False, kill_at = None\<rparr>, su_x11 = x11\<rparr>"

section \<open>Starting\<close>

text \<open>\<open>listener_from_fd\<close>: what \<open>fcntl\<close>, \<open>getsockopt\<close> and the non-blocking switch answer.\<close>

record ListenEnv =
  le_getfd :: bool
  le_setfd :: bool
  le_acceptconn :: "bool option"
  le_nonblocking :: bool

definition listener_from_fd :: "ListenEnv \<Rightarrow> int \<Rightarrow> bool" where
  "listener_from_fd e fd \<longleftrightarrow> \<not> fd < 3 \<and> le_getfd e \<and> le_setfd e \<and> le_acceptconn e = Some True \<and> le_nonblocking e"

text \<open>\<open>harden\<close>: whether the capability sets are already empty, and per known capability whether it
  is in the bounding set and what dropping it answers.\<close>

definition EPERM_NR :: nat where
  "EPERM_NR = 1"

record HardenEnv =
  ha_no_new_privs :: "Os_Error option"
  ha_ambient :: "Os_Error option"
  ha_empty :: "Os_Error + bool"
  ha_capset :: "Os_Error option"
  ha_bounding :: "((Os_Error + bool) \<times> Os_Error option) list"
  ha_pdeathsig :: "Os_Error option"

definition and_then :: "'e option \<Rightarrow> 'e option \<Rightarrow> 'e option" where
  "and_then a b = (case a of Some e \<Rightarrow> Some e | None \<Rightarrow> b)"

fun drop_bounding :: "((Os_Error + bool) \<times> Os_Error option) list \<Rightarrow> Os_Error option" where
  "drop_bounding [] = None"
| "drop_bounding ((held, dropped) # caps) =
     (case held of
        Inl e \<Rightarrow> Some e
      | Inr False \<Rightarrow> drop_bounding caps
      | Inr True \<Rightarrow>
          if dropped = None \<or> dropped = Some (Os EPERM_NR) then drop_bounding caps else dropped)"

definition harden :: "HardenEnv \<Rightarrow> Os_Error option" where
  "harden e =
     and_then (ha_no_new_privs e) (and_then (ha_ambient e)
       (case ha_empty e of
          Inl err \<Rightarrow> Some err
        | Inr is_empty \<Rightarrow>
            and_then (if is_empty then None else ha_capset e)
              (and_then (drop_bounding (ha_bounding e)) (ha_pdeathsig e))))"

record StartEnv =
  st_listing :: Listing
  st_table :: fd_table
  st_listener :: ListenEnv
  st_dumpable :: bool
  st_harden :: HardenEnv
  st_signals :: bool
  st_bind :: bool
  st_isatty :: bool
  st_spawn :: "bytes + nat"

text \<open>\<open>main\<close> up to its loop: the exit code, or the loop's first state, what was started, and the
  descriptors left open.\<close>

definition startup :: "StartEnv \<Rightarrow> bytes list \<Rightarrow> nat + Sup \<times> Act list \<times> fd_table" where
  "startup e words =
     (case init_parse words of
        None \<Rightarrow> Inl 2
      | Some a \<Rightarrow>
          (case close_strays [ia_socket_fd a] (st_listing e) (st_table e) of
             (Some _, _) \<Rightarrow> Inl 2
           | (None, t) \<Rightarrow>
               if \<not> listener_from_fd (st_listener e) (ia_socket_fd a) then Inl 2
               else if \<not> st_dumpable e then Inl 2
               else if harden (st_harden e) \<noteq> None then Inl 2
               else if \<not> st_signals e then Inl 2
               else if ia_x11 a \<noteq> None \<and> \<not> st_bind e then Inl 2
               else
                 let x11 = map_option (\<lambda>argv. \<lparr>x_argv = argv, x_wm = ia_wm a, x_started = False,
                       x_server = None, x_wm_child = None\<rparr>) (ia_x11 a);
                     display = map_option (\<lambda>_. X11_DISPLAY) x11
                 in (case st_spawn e of
                       Inl _ \<Rightarrow> Inl 127
                     | Inr pid \<Rightarrow>
                         Inr (sup_start pid x11,
                              [Started pid (ia_command a) display (ia_ctty a \<and> st_isatty e)], t))))"

section \<open>After the asking\<close>

fun is_start :: "Act \<Rightarrow> bool" where
  "is_start (Started _ _ _ _) = True"
| "is_start (StartedX11 _ _) = True"
| "is_start (StartedWm _ _) = True"
| "is_start _ = False"

text \<open>What holds of every phase of a turn holds of the run.  \<open>inv\<close> is kept, every action is \<open>ok\<close>, as long
  as the turns are ones \<open>turn\<close> allows.\<close>

locale turn_phases =
  fixes inv :: "Sup \<Rightarrow> bool"
    and ok :: "Act \<Rightarrow> bool"
    and turn :: "Tick \<Rightarrow> bool"
  assumes server: "turn t \<Longrightarrow> inv s \<Longrightarrow> check_server t s = (s', a) \<Longrightarrow> inv s' \<and> list_all ok a"
    and wm: "turn t \<Longrightarrow> inv s \<Longrightarrow> check_wm t s = (s', a) \<Longrightarrow> inv s' \<and> list_all ok a"
    and reaped: "turn t \<Longrightarrow> inv s \<Longrightarrow> reap_all t s = (s', a) \<Longrightarrow> inv s' \<and> list_all ok a"
    and killed: "turn t \<Longrightarrow> inv s \<Longrightarrow> kill_due t s = (s', a) \<Longrightarrow> inv s' \<and> list_all ok a"
    and stopped: "turn t \<Longrightarrow> inv s \<Longrightarrow> take_stop t s = (s', a) \<Longrightarrow> inv s' \<and> list_all ok a"
    and woken: "turn t \<Longrightarrow> inv s \<Longrightarrow> wake_display t woke s = (s', a) \<Longrightarrow> inv s' \<and> list_all ok a"
    and read: "turn t \<Longrightarrow> inv s \<Longrightarrow> read_requests t s = (s', a) \<Longrightarrow> inv s' \<and> list_all ok a"
    and expired: "turn t \<Longrightarrow> inv s \<Longrightarrow> inv (expire t s)"
    and accepted: "turn t \<Longrightarrow> inv s \<Longrightarrow> inv (accept_new t s)"
    and ended: "turn t \<Longrightarrow> inv s \<Longrightarrow> tick t s = (Inr code, a) \<Longrightarrow> list_all ok a"
begin

lemma before:
  assumes "turn t" and "inv s" and "before_poll t s = (s', a)"
  shows "inv s' \<and> list_all ok a"
proof -
  obtain s1 a1 where 1: "check_server t s = (s1, a1)" by (cases "check_server t s")
  obtain s2 a2 where 2: "check_wm t s1 = (s2, a2)" by (cases "check_wm t s1")
  obtain s3 a3 where 3: "reap_all t s2 = (s3, a3)" by (cases "reap_all t s2")
  obtain s4 a4 where 4: "kill_due t s3 = (s4, a4)" by (cases "kill_due t s3")
  from assms(3) have "s' = s4" "a = a1 @ a2 @ a3 @ a4" by (simp_all add: before_poll_def 1 2 3 4)
  with server [OF assms(1,2) 1] wm [OF assms(1) _ 2] reaped [OF assms(1) _ 3] killed [OF assms(1) _ 4]
  show ?thesis by simp
qed

lemma after:
  assumes "turn t" and "inv s" and "after_poll t woke s = (s', a)"
  shows "inv s' \<and> list_all ok a"
proof -
  obtain s1 a1 where 1: "take_stop t s = (s1, a1)" by (cases "take_stop t s")
  obtain s2 a2 where 2: "wake_display t woke s1 = (s2, a2)" by (cases "wake_display t woke s1")
  obtain s3 a3 where 3: "read_requests t s2 = (s3, a3)" by (cases "read_requests t s2")
  note phases = stopped [OF assms(1,2) 1] woken [OF assms(1) _ 2] read [OF assms(1) _ 3]
    expired [OF assms(1)] accepted [OF assms(1)]
  show ?thesis
  proof (cases "tk_poll_ok t")
    case True
    with assms(3) have "s' = accept_new t (expire t s3)" "a = a1 @ a2 @ a3"
      by (simp_all add: after_poll_def 1 2 3)
    with phases show ?thesis by simp
  next
    case False
    with assms(3) phases show ?thesis by (simp add: after_poll_def 1)
  qed
qed

lemma turned:
  assumes "turn t" and "inv s" and "tick t s = (Inl s', a)"
  shows "inv s' \<and> list_all ok a"
proof -
  obtain s1 a1 where 1: "before_poll t s = (s1, a1)" by (cases "before_poll t s")
  obtain s2 a2 where 2: "after_poll t (is_waking s1 \<and> tk_wake t) s1 = (s2, a2)"
    by (cases "after_poll t (is_waking s1 \<and> tk_wake t) s1")
  from assms(3) have "s' = s2" "a = a1 @ a2"
    by (auto simp: tick_def Let_def 1 2 split: WaitRes.splits prod.splits)
  with before [OF assms(1,2) 1] after [OF assms(1) _ 2] show ?thesis by simp
qed

lemma run:
  assumes "\<forall>t \<in> set ts. turn t" and "inv s" and "sup_run ts s = (r, a)"
  shows "list_all ok a \<and> (\<forall>s'. r = Inl s' \<longrightarrow> inv s')"
  using assms
proof (induction ts arbitrary: s a)
  case Nil
  then show ?case by auto
next
  case (Cons t ts)
  obtain q b where t: "tick t s = (q, b)" by (cases "tick t s")
  show ?case
  proof (cases q)
    case (Inr code)
    with Cons.prems t ended [of t s code b] show ?thesis by auto
  next
    case (Inl s1)
    obtain r' c where r: "sup_run ts s1 = (r', c)" by (cases "sup_run ts s1")
    have "inv s1 \<and> list_all ok b" using turned [of t s s1 b] Cons.prems t Inl by simp
    with Cons.IH [of s1 c] Cons.prems t Inl r show ?thesis by auto
  qed
qed

end

lemma no_start_signals [simp]: "list_all (\<lambda>a. \<not> is_start a) (signal_execs es g)"
  by (simp add: signal_execs_def list.pred_map list_all_iff)

lemma no_start_reap: "reap w es = (es', a) \<Longrightarrow> list_all (\<lambda>a. \<not> is_start a) a"
  by (induction es arbitrary: es' a) (auto simp: Let_def split: prod.splits WaitRes.splits)

lemma no_start_shutdown_wait:
  "shutdown_wait d ts es = (es', a) \<Longrightarrow> list_all (\<lambda>a. \<not> is_start a) a"
  by (induction d ts es arbitrary: es' a rule: shutdown_wait.induct)
    (auto simp: Let_def split: prod.splits if_splits dest: no_start_reap)

lemma no_start_tick_end: "tick t s = (Inr code, a) \<Longrightarrow> list_all (\<lambda>a. \<not> is_start a) a"
  by (auto simp: tick_def shutdown_def stop_x11_def stop_child_def signal_execs_def Let_def list_all_iff
      split: WaitRes.splits prod.splits if_splits option.splits
      dest!: no_start_reap no_start_shutdown_wait)

lemma no_start_has_exited: "has_exited r w = (b, a) \<Longrightarrow> list_all (\<lambda>a. \<not> is_start a) a"
  by (auto simp: has_exited_def split: WaitRes.splits)

lemma ask_stop_simps [simp]:
  "ask_stop now s = (s', a) \<Longrightarrow> list_all (\<lambda>a. \<not> is_start a) a"
  by (auto simp: ask_stop_def begin_stop_def)

lemma serve_stopping: "serve st r fds e d True es = (es', a) \<Longrightarrow> es' = es \<and> list_all (\<lambda>a. \<not> is_start a) a"
  by (auto simp: serve_def refuse_exec_def Let_def split: list.splits)

lemma read_pending_stopping:
  "read_pending d True reads envs ps ready es = (ps', es', a) \<Longrightarrow> es' = es \<and> list_all (\<lambda>a. \<not> is_start a) a"
proof (induction ps arbitrary: ready es ps' es' a)
  case Nil
  then show ?case by simp
next
  case (Cons p ps)
  obtain r rs where rr: "(case ready of [] \<Rightarrow> (False, []) | r # rs \<Rightarrow> (r, rs)) = (r, rs)"
    by (cases "case ready of [] \<Rightarrow> (False, []) | r # rs \<Rightarrow> (r, rs)")
  from Cons.prems show ?case
    by (auto simp: rr Let_def split: if_splits prod.splits sum.splits option.splits
        dest!: Cons.IH serve_stopping)
qed

interpretation stop_run: turn_phases "\<lambda>s. asked (su_stopping s)" "\<lambda>a. \<not> is_start a" "\<lambda>_. True"
proof unfold_locales
  fix t :: Tick and s s' :: Sup and a :: "Act list" and woke :: bool and code :: nat
  assume s: "asked (su_stopping s)"
  show "check_server t s = (s', a) \<Longrightarrow> asked (su_stopping s') \<and> list_all (\<lambda>a. \<not> is_start a) a"
    using s by (auto simp: check_server_def ask_stop_def begin_stop_def Let_def
        split: option.splits if_splits prod.splits dest: no_start_has_exited)
  show "check_wm t s = (s', a) \<Longrightarrow> asked (su_stopping s') \<and> list_all (\<lambda>a. \<not> is_start a) a"
    using s by (auto simp: check_wm_def Let_def split: option.splits if_splits prod.splits dest: no_start_has_exited)
  show "reap_all t s = (s', a) \<Longrightarrow> asked (su_stopping s') \<and> list_all (\<lambda>a. \<not> is_start a) a"
    using s by (auto simp: reap_all_def Let_def split: prod.splits dest: no_start_reap)
  show "kill_due t s = (s', a) \<Longrightarrow> asked (su_stopping s') \<and> list_all (\<lambda>a. \<not> is_start a) a"
    using s by (auto simp: kill_due_def split: option.splits if_splits)
  show "take_stop t s = (s', a) \<Longrightarrow> asked (su_stopping s') \<and> list_all (\<lambda>a. \<not> is_start a) a"
    using s by (auto simp: take_stop_def ask_stop_def begin_stop_def split: if_splits)
  show "wake_display t woke s = (s', a) \<Longrightarrow> asked (su_stopping s') \<and> list_all (\<lambda>a. \<not> is_start a) a"
    using s by (auto simp: wake_display_def split: option.splits)
  show "read_requests t s = (s', a) \<Longrightarrow> asked (su_stopping s') \<and> list_all (\<lambda>a. \<not> is_start a) a"
    using s by (auto simp: read_requests_def Let_def split: prod.splits dest: read_pending_stopping)
  show "asked (su_stopping (expire t s))" using s by (simp add: expire_def)
  show "asked (su_stopping (accept_new t s))" using s by (simp add: accept_new_def)
  show "tick t s = (Inr code, a) \<Longrightarrow> list_all (\<lambda>a. \<not> is_start a) a" by (rule no_start_tick_end)
qed

text \<open>C29. Once the run is asked to end it only ends: from a state in which a stop event has been seen,
  whatever happens in the turns that follow (requests completed, the display socket woken,
  further signals), no command, no X server and no window manager is started, and the run
  stays asked to end.\<close>

theorem stop_is_final:
  assumes "asked (su_stopping s)" and "sup_run ts s = (r, acts)"
  shows "(\<forall>a \<in> set acts. \<not> is_start a) \<and> (\<forall>s'. r = Inl s' \<longrightarrow> asked (su_stopping s'))"
  using stop_run.run [of ts s r acts] assms by (simp add: list_all_iff)

section \<open>The bound on half-read requests\<close>

lemma accept_all_bound:
  "length ps \<le> MAX_PENDING \<Longrightarrow> length (accept_all as ps) \<le> MAX_PENDING"
  by (induction as ps rule: accept_all.induct) (auto simp: MAX_PENDING_def)

lemma read_pending_length:
  "read_pending d g reads envs ps ready es = (ps', es', a) \<Longrightarrow> length ps' \<le> length ps"
proof (induction ps arbitrary: ready es ps' es' a)
  case Nil
  then show ?case by simp
next
  case (Cons p ps)
  obtain r rs where rr: "(case ready of [] \<Rightarrow> (False, []) | r # rs \<Rightarrow> (r, rs)) = (r, rs)"
    by (cases "case ready of [] \<Rightarrow> (False, []) | r # rs \<Rightarrow> (r, rs)")
  from Cons.prems show ?case
    by (auto simp: rr Let_def split: if_splits prod.splits sum.splits option.splits dest!: Cons.IH)
qed

interpretation pending_run: turn_phases "\<lambda>s. length (su_pending s) \<le> MAX_PENDING" "\<lambda>_. True" "\<lambda>_. True"
proof unfold_locales
  fix t :: Tick and s s' :: Sup and a :: "Act list" and woke :: bool and code :: nat
  assume s: "length (su_pending s) \<le> MAX_PENDING"
  have all: "list_all (\<lambda>_. True) a" by (simp add: list_all_iff)
  show "check_server t s = (s', a) \<Longrightarrow> length (su_pending s') \<le> MAX_PENDING \<and> list_all (\<lambda>_. True) a"
    using s all by (auto simp: check_server_def ask_stop_def Let_def split: option.splits if_splits prod.splits)
  show "check_wm t s = (s', a) \<Longrightarrow> length (su_pending s') \<le> MAX_PENDING \<and> list_all (\<lambda>_. True) a"
    using s all by (auto simp: check_wm_def Let_def split: option.splits if_splits prod.splits)
  show "reap_all t s = (s', a) \<Longrightarrow> length (su_pending s') \<le> MAX_PENDING \<and> list_all (\<lambda>_. True) a"
    using s all by (auto simp: reap_all_def Let_def split: prod.splits)
  show "kill_due t s = (s', a) \<Longrightarrow> length (su_pending s') \<le> MAX_PENDING \<and> list_all (\<lambda>_. True) a"
    using s all by (auto simp: kill_due_def split: option.splits if_splits)
  show "take_stop t s = (s', a) \<Longrightarrow> length (su_pending s') \<le> MAX_PENDING \<and> list_all (\<lambda>_. True) a"
    using s all by (auto simp: take_stop_def ask_stop_def Let_def split: if_splits prod.splits)
  show "wake_display t woke s = (s', a) \<Longrightarrow> length (su_pending s') \<le> MAX_PENDING \<and> list_all (\<lambda>_. True) a"
    using s all by (auto simp: wake_display_def ask_stop_def Let_def
        split: option.splits if_splits sum.splits prod.splits)
  show "read_requests t s = (s', a) \<Longrightarrow> length (su_pending s') \<le> MAX_PENDING \<and> list_all (\<lambda>_. True) a"
    using s all by (auto simp: read_requests_def Let_def split: prod.splits dest!: read_pending_length)
  show "length (su_pending (expire t s)) \<le> MAX_PENDING"
    using s by (simp add: expire_def order_trans [OF length_filter_le])
  show "length (su_pending (accept_new t s)) \<le> MAX_PENDING"
    using s by (simp add: accept_new_def accept_all_bound)
  show "tick t s = (Inr code, a) \<Longrightarrow> list_all (\<lambda>_. True) a" by (rule all)
qed

section \<open>The deadline\<close>

text \<open>Until a turn's clock reaches the deadline nothing moves it.\<close>

interpretation due_run: turn_phases "\<lambda>s. kill_at (su_stopping s) = Some due \<and> su_command s = pid" "\<lambda>_. True"
    "\<lambda>t. tk_kill_now t < due" for due pid
proof unfold_locales
  fix t :: Tick and s s' :: Sup and a :: "Act list" and woke :: bool and code :: nat
  let ?I = "\<lambda>s. kill_at (su_stopping s) = Some due \<and> su_command s = pid"
  assume s: "?I s" and t: "tk_kill_now t < due"
  have all: "list_all (\<lambda>_. True) a" by (simp add: list_all_iff)
  show "check_server t s = (s', a) \<Longrightarrow> ?I s' \<and> list_all (\<lambda>_. True) a"
    using s all by (auto simp: check_server_def ask_stop_def begin_stop_def Let_def
        split: option.splits if_splits prod.splits)
  show "check_wm t s = (s', a) \<Longrightarrow> ?I s' \<and> list_all (\<lambda>_. True) a"
    using s all by (auto simp: check_wm_def Let_def split: option.splits if_splits prod.splits)
  show "reap_all t s = (s', a) \<Longrightarrow> ?I s' \<and> list_all (\<lambda>_. True) a"
    using s all by (auto simp: reap_all_def Let_def split: prod.splits)
  show "kill_due t s = (s', a) \<Longrightarrow> ?I s' \<and> list_all (\<lambda>_. True) a"
    using s t all by (auto simp: kill_due_def split: option.splits if_splits)
  show "take_stop t s = (s', a) \<Longrightarrow> ?I s' \<and> list_all (\<lambda>_. True) a"
    using s all by (auto simp: take_stop_def ask_stop_def begin_stop_def Let_def split: if_splits prod.splits)
  show "wake_display t woke s = (s', a) \<Longrightarrow> ?I s' \<and> list_all (\<lambda>_. True) a"
    using s all by (auto simp: wake_display_def ask_stop_def begin_stop_def Let_def
        split: option.splits if_splits sum.splits prod.splits)
  show "read_requests t s = (s', a) \<Longrightarrow> ?I s' \<and> list_all (\<lambda>_. True) a"
    using s all by (auto simp: read_requests_def Let_def split: prod.splits)
  show "?I (expire t s)" using s by (simp add: expire_def)
  show "?I (accept_new t s)" using s by (simp add: accept_new_def)
  show "tick t s = (Inr code, a) \<Longrightarrow> list_all (\<lambda>_. True) a" by (rule all)
qed

text \<open>The events of a turn that ask the run to end, and the clock of the first of them: a server that is gone, a
  termination signal, a display that could not be started.\<close>

definition server_gone :: "Tick \<Rightarrow> Sup \<Rightarrow> bool" where
  "server_gone t s \<longleftrightarrow> (case su_x11 s of Some x \<Rightarrow> x_server x \<noteq> None \<and> tk_server t \<noteq> Running | None \<Rightarrow> False)"

definition display_fails :: "Tick \<Rightarrow> Sup \<Rightarrow> bool" where
  "display_fails t s \<longleftrightarrow> tk_wake t \<and> tk_poll_ok t \<and> (case su_x11 s of
     Some x \<Rightarrow> \<not> x_started x \<and> (x_argv x = [] \<or> (\<exists>why. xe_dup (tk_x11 t) = Inl why) \<or>
       xe_setfd (tk_x11 t) \<noteq> None \<or> (\<exists>why. xe_spawn (tk_x11 t) = Inl why))
   | None \<Rightarrow> False)"

definition asking :: "Tick \<Rightarrow> Sup \<Rightarrow> instant option" where
  "asking t s =
     (if server_gone t s then Some (tk_server_now t)
      else if tk_stop t then Some (tk_stop_now t)
      else if display_fails t s then Some (tk_x11_now t)
      else None)"

lemma reap_kept: "fst (reap w es) = filter (\<lambda>e. w (e_child e) = Running) es"
  by (induction es) (auto simp: Let_def split: prod.splits WaitRes.splits)

lemma check_server_keeps:
  "check_server t s = (s', a) \<Longrightarrow> su_execs s' = su_execs s \<and> su_command s' = su_command s \<and>
     (kill_at (su_stopping s) = Some due \<longrightarrow> kill_at (su_stopping s') = Some due)"
  by (auto simp: check_server_def ask_stop_def begin_stop_def Let_def split: option.splits if_splits prod.splits)

lemma check_wm_keeps:
  "check_wm t s = (s', a) \<Longrightarrow> su_execs s' = su_execs s \<and> su_command s' = su_command s \<and>
     su_stopping s' = su_stopping s"
  by (auto simp: check_wm_def Let_def split: option.splits if_splits prod.splits)

lemma tick_kills:
  assumes "kill_at (su_stopping s) = Some due" and "due \<le> tk_kill_now t" and "tick t s = (Inl s', a)"
  shows "Kill (su_command s) SigKill \<in> set a \<and>
    (\<forall>e \<in> set (su_execs s). tk_waits t (e_child e) = Running \<longrightarrow> Kill (e_child e) SigKill \<in> set a)"
proof -
  obtain s1 a1 where 1: "check_server t s = (s1, a1)" by (cases "check_server t s")
  obtain s2 a2 where 2: "check_wm t s1 = (s2, a2)" by (cases "check_wm t s1")
  obtain es a3 where 3: "reap (tk_waits t) (su_execs s) = (es, a3)" by (cases "reap (tk_waits t) (su_execs s)")
  have keeps: "su_execs s2 = su_execs s" "su_command s2 = su_command s" "kill_at (su_stopping s2) = Some due"
    using check_server_keeps [OF 1] check_wm_keeps [OF 2] assms(1) by auto
  have "es = filter (\<lambda>e. tk_waits t (e_child e) = Running) (su_execs s)"
    using reap_kept [of "tk_waits t" "su_execs s"] 3 by simp
  moreover obtain s4 where "before_poll t s =
      (s4, a1 @ a2 @ a3 @ Kill (su_command s) SigKill # signal_execs es SigKill)"
    using keeps assms(2) by (simp add: before_poll_def 1 2 3 reap_all_def kill_due_def)
  ultimately show ?thesis
    using assms(3) by (auto simp: tick_def Let_def signal_execs_def split: WaitRes.splits prod.splits)
qed

lemma check_wm_x11:
  "check_wm t s = (s', a) \<Longrightarrow> (case su_x11 s' of None \<Rightarrow> su_x11 s = None
     | Some y \<Rightarrow> \<exists>x. su_x11 s = Some x \<and> x_started y = x_started x \<and> x_argv y = x_argv x)"
  by (auto simp: check_wm_def Let_def split: option.splits if_splits prod.splits)

lemma has_exited_gone: "has_exited r what = (gone, said) \<Longrightarrow> gone \<longleftrightarrow> r \<noteq> Running"
  by (auto simp: has_exited_def split: WaitRes.splits)

lemma check_server_asks:
  assumes "server_gone t s" and "kill_at (su_stopping s) = None" and "check_server t s = (s1, a)"
  shows "su_stopping s1 = \<lparr>asked = True, kill_at = Some (tk_server_now t + GRACE)\<rparr> \<and> su_command s1 = su_command s \<and>
    Kill (su_command s) SigTerm \<in> set a \<and> (\<forall>e \<in> set (su_execs s). Kill (e_child e) SigTerm \<in> set a)"
  using assms
  by (cases "su_stopping s") (auto simp: server_gone_def check_server_def ask_stop_def begin_stop_def signal_execs_def Let_def
      split: option.splits if_splits prod.splits dest: has_exited_gone)

lemma check_server_idle:
  assumes "\<not> server_gone t s" and "check_server t s = (s1, a)"
  shows "s1 = s"
  using assms by (auto simp: server_gone_def check_server_def Let_def split: option.splits if_splits prod.splits
      dest: has_exited_gone)

lemma start_x11_fails:
  "(\<exists>why. start_x11 e x = Inl why) \<longleftrightarrow> x_argv x = [] \<or> (\<exists>why. xe_dup e = Inl why) \<or> xe_setfd e \<noteq> None \<or>
     (\<exists>why. xe_spawn e = Inl why)"
  by (auto simp: start_x11_def split: list.split sum.split option.split)

text \<open>The phases before the poll, in a turn that finds the server where it was.\<close>

lemma before_poll_idle:
  assumes "\<not> server_gone t s" and "kill_at (su_stopping s) = None" and "before_poll t s = (s4, a)"
  shows "su_stopping s4 = su_stopping s \<and> su_command s4 = su_command s \<and>
    su_execs s4 = filter (\<lambda>e. tk_waits t (e_child e) = Running) (su_execs s) \<and>
    (case su_x11 s4 of None \<Rightarrow> su_x11 s = None
     | Some y \<Rightarrow> \<exists>x. su_x11 s = Some x \<and> x_started y = x_started x \<and> x_argv y = x_argv x)"
proof -
  obtain s1 a1 where 1: "check_server t s = (s1, a1)" by (cases "check_server t s")
  obtain s2 a2 where 2: "check_wm t s1 = (s2, a2)" by (cases "check_wm t s1")
  obtain es a3 where 3: "reap (tk_waits t) (su_execs s) = (es, a3)" by (cases "reap (tk_waits t) (su_execs s)")
  have s1: "s1 = s" by (rule check_server_idle [OF assms(1) 1])
  note wm = check_wm_keeps [OF 2] check_wm_x11 [OF 2]
  have "s4 = s2\<lparr>su_execs := es\<rparr>"
    using assms(2,3) wm(1) 3 1 2 by (simp add: before_poll_def s1 reap_all_def kill_due_def)
  moreover have "es = filter (\<lambda>e. tk_waits t (e_child e) = Running) (su_execs s)"
    using reap_kept [of "tk_waits t" "su_execs s"] 3 by simp
  ultimately show ?thesis using wm [unfolded s1] by simp
qed

text \<open>The phases after the poll leave a deadline alone, and set the one of the first asking.\<close>

lemma after_poll_asks:
  assumes "kill_at (su_stopping s) = None" and "\<not> asked (su_stopping s)" and "after_poll t woke s = (s', a)"
  shows "tk_stop t \<Longrightarrow> kill_at (su_stopping s') = Some (tk_stop_now t + GRACE) \<and> asked (su_stopping s') \<and>
      Kill (su_command s) SigTerm \<in> set a \<and> (\<forall>e \<in> set (su_execs s). Kill (e_child e) SigTerm \<in> set a)"
    and "\<not> tk_stop t \<Longrightarrow> woke \<Longrightarrow> tk_poll_ok t \<Longrightarrow> su_x11 s = Some y \<Longrightarrow> start_x11 (tk_x11 t) (y\<lparr>x_started := True\<rparr>) = Inl why \<Longrightarrow>
      kill_at (su_stopping s') = Some (tk_x11_now t + GRACE) \<and> asked (su_stopping s') \<and>
      Kill (su_command s) SigTerm \<in> set a \<and> (\<forall>e \<in> set (su_execs s). Kill (e_child e) SigTerm \<in> set a)"
    and "\<not> tk_stop t \<Longrightarrow> \<not> (woke \<and> tk_poll_ok t \<and> (\<exists>y why. su_x11 s = Some y \<and>
        start_x11 (tk_x11 t) (y\<lparr>x_started := True\<rparr>) = Inl why)) \<Longrightarrow> su_stopping s' = su_stopping s"
  using assms
  by (auto simp: after_poll_def take_stop_def wake_display_def read_requests_def expire_def accept_new_def ask_stop_def
      begin_stop_def signal_execs_def Let_def split: if_splits prod.splits option.splits sum.splits)

lemma server_asks:
  assumes "server_gone t s" and "kill_at (su_stopping s) = None" and "tk_kill_now t < tk_server_now t + GRACE"
    and "before_poll t s = (s4, a)"
  shows "kill_at (su_stopping s4) = Some (tk_server_now t + GRACE) \<and> su_command s4 = su_command s \<and> asked (su_stopping s4) \<and>
    Kill (su_command s) SigTerm \<in> set a \<and> (\<forall>e \<in> set (su_execs s). Kill (e_child e) SigTerm \<in> set a)"
proof -
  let ?due = "tk_server_now t + GRACE"
  obtain s1 a1 where 1: "check_server t s = (s1, a1)" by (cases "check_server t s")
  obtain s2 a2 where 2: "check_wm t s1 = (s2, a2)" by (cases "check_wm t s1")
  obtain s3 a3 where 3: "reap_all t s2 = (s3, a3)" by (cases "reap_all t s2")
  obtain s5 a4 where 4: "kill_due t s3 = (s5, a4)" by (cases "kill_due t s3")
  have s4: "s4 = s5" "a = a1 @ a2 @ a3 @ a4" using assms(4) by (simp_all add: before_poll_def 1 2 3 4)
  note asks = check_server_asks [OF assms(1,2) 1]
  then have "kill_at (su_stopping s1) = Some ?due \<and> su_command s1 = su_command s" "asked (su_stopping s1)" by simp_all
  with due_run.wm [OF assms(3) _ 2] due_run.reaped [OF assms(3) _ 3] due_run.killed [OF assms(3) _ 4]
    stop_run.wm [OF _ _ 2] stop_run.reaped [OF _ _ 3] stop_run.killed [OF _ _ 4] asks show ?thesis by (simp add: s4)
qed

text \<open>A turn that finds a run nobody has asked to end: the deadline it leaves is that of the first asking in it.\<close>

lemma turn_asks:
  assumes "\<not> asked (su_stopping s)" and "kill_at (su_stopping s) = None" and "tick t s = (Inl s', a)"
    and "asking t s = Some now" and "tk_kill_now t < now + GRACE"
  shows "asked (su_stopping s') \<and> kill_at (su_stopping s') = Some (now + GRACE) \<and> su_command s' = su_command s \<and>
    Kill (su_command s) SigTerm \<in> set a \<and>
    (\<forall>e \<in> set (su_execs s). tk_waits t (e_child e) = Running \<longrightarrow> Kill (e_child e) SigTerm \<in> set a)"
proof -
  obtain s4 a4 where 1: "before_poll t s = (s4, a4)" by (cases "before_poll t s")
  obtain s5 a5 where 2: "after_poll t (is_waking s4 \<and> tk_wake t) s4 = (s5, a5)"
    by (cases "after_poll t (is_waking s4 \<and> tk_wake t) s4")
  from assms(3) have s5: "s' = s5" "a = a4 @ a5"
    by (auto simp: tick_def Let_def 1 2 split: WaitRes.splits prod.splits)
  show ?thesis
  proof (cases "server_gone t s")
    case True
    with assms(4) have now: "now = tk_server_now t" by (simp add: asking_def)
    from server_asks [OF True assms(2) _ 1] assms(5)
    have s4: "kill_at (su_stopping s4) = Some (now + GRACE) \<and> su_command s4 = su_command s" "asked (su_stopping s4)"
        "Kill (su_command s) SigTerm \<in> set a4" "\<forall>e \<in> set (su_execs s). Kill (e_child e) SigTerm \<in> set a4"
      by (simp_all add: now)
    with due_run.after [OF assms(5) s4(1) 2] stop_run.after [OF _ s4(2) 2] show ?thesis by (simp add: s5)
  next
    case False
    note idle = before_poll_idle [OF False assms(2) 1]
    have s4: "kill_at (su_stopping s4) = None" "\<not> asked (su_stopping s4)" using idle assms(1,2) by simp_all
    have execs: "e \<in> set (su_execs s4)" if "e \<in> set (su_execs s)" "tk_waits t (e_child e) = Running" for e
      using idle that by simp
    have command: "su_command s5 = su_command s4"
      using 2 by (auto simp: after_poll_def take_stop_def wake_display_def read_requests_def expire_def accept_new_def
          ask_stop_def Let_def split: if_splits prod.splits option.splits sum.splits)
    note asks = after_poll_asks [OF s4 2]
    show ?thesis
    proof (cases "tk_stop t")
      case True
      with False assms(4) have "now = tk_stop_now t" by (simp add: asking_def)
      with asks(1) [OF True] execs idle command show ?thesis by (simp add: s5)
    next
      case stop: False
      with False assms(4) have now: "now = tk_x11_now t" "display_fails t s"
        by (auto simp: asking_def split: if_splits)
      then obtain y where y: "su_x11 s4 = Some y" "\<not> x_started y" "tk_wake t" "tk_poll_ok t"
          "x_argv y = [] \<or> (\<exists>why. xe_dup (tk_x11 t) = Inl why) \<or> xe_setfd (tk_x11 t) \<noteq> None \<or>
           (\<exists>why. xe_spawn (tk_x11 t) = Inl why)"
        using idle by (auto simp: display_fails_def split: option.splits)
      then obtain why where "start_x11 (tk_x11 t) (y\<lparr>x_started := True\<rparr>) = Inl why"
        using start_x11_fails [of "tk_x11 t" "y\<lparr>x_started := True\<rparr>"] by auto
      moreover have "is_waking s4 \<and> tk_wake t" using y s4(2) by (simp add: is_waking_def)
      ultimately show ?thesis using asks(2) [OF stop _ y(4,1)] execs idle command by (simp add: s5 now(1))
    qed
  qed
qed

text \<open>C30. Asking a run to end sets its deadline, and that deadline stands.  In a turn that finds a run nobody has
  asked to end, the first of the events that ask (a dead server, a termination signal, a display that cannot be
  started) sends SIGTERM to the command and to every exec'd child still running and sets the deadline \<open>GRACE\<close>
  after that event's own clock; no later event moves it; and the first turn whose clock has reached it kills the
  command and every exec'd child still running.\<close>

theorem grace_stands:
  assumes "\<not> asked (su_stopping s)" and "kill_at (su_stopping s) = None" and "tick t0 s = (Inl s0, a0)"
    and "asking t0 s = Some now" and "tk_kill_now t0 < now + GRACE"
    and "\<forall>t \<in> set ts. tk_kill_now t < now + GRACE" and "sup_run ts s0 = (Inl s1, a1)"
    and "now + GRACE \<le> tk_kill_now t" and "tick t s1 = (Inl s2, a2)"
  shows "asked (su_stopping s0) \<and> kill_at (su_stopping s0) = Some (now + GRACE) \<and> Kill (su_command s) SigTerm \<in> set a0 \<and>
    (\<forall>e \<in> set (su_execs s). tk_waits t0 (e_child e) = Running \<longrightarrow> Kill (e_child e) SigTerm \<in> set a0) \<and>
    kill_at (su_stopping s1) = Some (now + GRACE) \<and> Kill (su_command s) SigKill \<in> set a2 \<and>
    (\<forall>e \<in> set (su_execs s1). tk_waits t (e_child e) = Running \<longrightarrow> Kill (e_child e) SigKill \<in> set a2)"
proof -
  note asks = turn_asks [OF assms(1-5)]
  have "kill_at (su_stopping s0) = Some (now + GRACE) \<and> su_command s0 = su_command s"
    using asks by (elim conjE) (intro conjI)
  from due_run.run [OF assms(6) this assms(7)]
  have s1: "kill_at (su_stopping s1) = Some (now + GRACE)" "su_command s1 = su_command s" by blast+
  from asks tick_kills [OF s1(1) assms(8,9)] s1 show ?thesis
    unfolding s1(2) by (elim conjE) (intro conjI)
qed

definition demo_tick :: "bool \<Rightarrow> instant \<Rightarrow> Tick" where
  "demo_tick stop now = \<lparr>tk_command = Running,
     tk_end = \<lparr>ee_shutdown = now, ee_waits = [], ee_final = (\<lambda>_. None), ee_wm = now, ee_wm_waits = [],
       ee_server = now, ee_server_waits = []\<rparr>,
     tk_server = Running, tk_server_now = now, tk_wm = Running, tk_waits = (\<lambda>_. Running), tk_kill_now = now,
     tk_poll_ok = True, tk_accept = False, tk_wake = True, tk_ready = [], tk_stop = stop, tk_stop_now = now,
     tk_x11 = \<lparr>xe_dup = Inr 5, xe_setfd = None, xe_spawn = Inr 9\<rparr>, tk_x11_now = now, tk_wm_spawn = Inr 10, tk_reads = (\<lambda>_. []),
     tk_serve = (\<lambda>_. \<lparr>sv_clone = True, sv_isatty = False, sv_spawn = Inr 11\<rparr>), tk_now = now, tk_accepts = []\<rparr>"

definition demo_x11 :: X11 where
  "demo_x11 = \<lparr>x_argv = [str ''Xwayland''], x_wm = None, x_started = False, x_server = None, x_wm_child = None\<rparr>"

lemmas turn_defs = tick_def before_poll_def check_server_def check_wm_def reap_all_def kill_due_def
  after_poll_def take_stop_def ask_stop_def begin_stop_def wake_display_def is_waking_def read_requests_def
  expire_def accept_new_def sup_start_def signal_execs_def start_x11_def start_wm_def

lemma demo_turn_stop:
  "tick (demo_tick True now) (sup_start 7 (Some demo_x11)) =
     (Inl ((sup_start 7 (Some demo_x11))\<lparr>su_stopping := \<lparr>asked = True, kill_at = Some (now + GRACE)\<rparr>\<rparr>),
      [Kill 7 SigTerm])"
  by (simp add: demo_tick_def turn_defs demo_x11_def)

lemma demo_turn_kill:
  "tick (demo_tick False (now + GRACE))
     ((sup_start 7 (Some demo_x11))\<lparr>su_stopping := \<lparr>asked = True, kill_at = Some (now + GRACE)\<rparr>\<rparr>) =
     (Inl ((sup_start 7 (Some demo_x11))\<lparr>su_stopping := \<lparr>asked = True, kill_at = None\<rparr>\<rparr>), [Kill 7 SigKill])"
  by (simp add: demo_tick_def turn_defs demo_x11_def)

theorem stop_is_final_witness:
  "sup_run [demo_tick False GRACE]
     ((sup_start 7 (Some demo_x11))\<lparr>su_stopping := \<lparr>asked = True, kill_at = Some GRACE\<rparr>\<rparr>) =
     (Inl ((sup_start 7 (Some demo_x11))\<lparr>su_stopping := \<lparr>asked = True, kill_at = None\<rparr>\<rparr>), [Kill 7 SigKill]) \<and>
   \<not> is_start (Kill 7 SigKill)"
proof -
  have run: "sup_run [demo_tick False GRACE]
      ((sup_start 7 (Some demo_x11))\<lparr>su_stopping := \<lparr>asked = True, kill_at = Some GRACE\<rparr>\<rparr>) =
      (Inl ((sup_start 7 (Some demo_x11))\<lparr>su_stopping := \<lparr>asked = True, kill_at = None\<rparr>\<rparr>), [Kill 7 SigKill])"
    using demo_turn_kill [of 0] by simp
  from stop_is_final [OF _ this] run show ?thesis by simp
qed

theorem grace_stands_witness:
  "kill_at (su_stopping ((sup_start 7 (Some demo_x11))\<lparr>su_stopping := \<lparr>asked = True, kill_at = Some (3 + GRACE)\<rparr>\<rparr>)) = Some (3 + GRACE) \<and>
   Kill 7 SigKill \<in> set (snd (tick (demo_tick False (3 + GRACE))
     ((sup_start 7 (Some demo_x11))\<lparr>su_stopping := \<lparr>asked = True, kill_at = Some (3 + GRACE)\<rparr>\<rparr>)))"
proof -
  let ?start = "sup_start 7 (Some demo_x11)"
  have fresh: "\<not> asked (su_stopping ?start)" "kill_at (su_stopping ?start) = None" by (simp_all add: sup_start_def)
  have asks: "asking (demo_tick True 3) ?start = Some 3" "tk_kill_now (demo_tick True 3) < 3 + GRACE"
    by (simp_all add: asking_def server_gone_def demo_tick_def demo_x11_def sup_start_def GRACE_def)
  let ?s = "?start\<lparr>su_stopping := \<lparr>asked = True, kill_at = Some (3 + GRACE)\<rparr>\<rparr>"
  have run: "sup_run [] ?s = (Inl ?s, [])" by simp
  have late: "3 + GRACE \<le> tk_kill_now (demo_tick False (3 + GRACE))" by (simp add: demo_tick_def)
  from grace_stands [OF fresh demo_turn_stop asks _ run late demo_turn_kill] demo_turn_kill [of 3]
  show ?thesis by (simp add: sup_start_def)
qed

section \<open>One answer per connection\<close>

definition tokens :: "nat \<Rightarrow> Sup \<Rightarrow> nat" where
  "tokens c s = length (filter (\<lambda>p. pe_stream p = c) (su_pending s)) +
     length (filter (\<lambda>e. e_stream e = c) (su_execs s))"

definition answers :: "nat \<Rightarrow> Act list \<Rightarrow> nat" where
  "answers c acts = length (filter (\<lambda>a. case a of Status x _ \<Rightarrow> x = c | _ \<Rightarrow> False) acts)"

definition accepted_as :: "nat \<Rightarrow> Tick \<Rightarrow> nat" where
  "accepted_as c t = length (filter (\<lambda>(x, _, _). x = c) (tk_accepts t))"

lemma answers_simps [simp]:
  "answers c [] = 0" "answers c (a @ b) = answers c a + answers c b"
  "answers c (Status x w # a) = (if x = c then 1 else 0) + answers c a"
  "answers c (Kill p g # a) = answers c a" "answers c (Say l # a) = answers c a"
  "answers c (Started p v d m # a) = answers c a" "answers c (StartedX11 p v # a) = answers c a"
  "answers c (StartedWm p nm # a) = answers c a" "answers c (Report f l # a) = answers c a"
  by (simp_all add: answers_def)

lemma answers_signals [simp]: "answers c (signal_execs es g) = 0"
  by (simp add: answers_def signal_execs_def filter_empty_conv)

lemma answers_reap:
  "reap w es = (es', a) \<Longrightarrow>
     answers c a + length (filter (\<lambda>e. e_stream e = c) es') \<le> length (filter (\<lambda>e. e_stream e = c) es)"
proof (induction es arbitrary: es' a)
  case Nil
  then show ?case by simp
next
  case (Cons e es)
  obtain k b where r: "reap w es = (k, b)" by (cases "reap w es")
  from Cons.prems Cons.IH [OF r] show ?case by (auto simp: r split: WaitRes.splits)
qed

lemma answers_serve:
  "serve st r fds e d g es = (es', a) \<Longrightarrow>
     answers c a + length (filter (\<lambda>e. e_stream e = c) es') \<le>
       (if st = c then 1 else 0) + length (filter (\<lambda>e. e_stream e = c) es)"
  by (auto simp: serve_def refuse_exec_def Let_def split: list.splits if_splits sum.splits option.splits)

lemma answers_read_pending:
  "read_pending d g reads envs ps ready es = (ps', es', a) \<Longrightarrow>
     answers c a + length (filter (\<lambda>p. pe_stream p = c) ps') + length (filter (\<lambda>e. e_stream e = c) es') \<le>
       length (filter (\<lambda>p. pe_stream p = c) ps) + length (filter (\<lambda>e. e_stream e = c) es)"
proof (induction ps arbitrary: ready es ps' es' a)
  case Nil
  then show ?case by simp
next
  case (Cons p ps)
  obtain r rs where rr: "(case ready of [] \<Rightarrow> (False, []) | r # rs \<Rightarrow> (r, rs)) = (r, rs)"
    by (cases "case ready of [] \<Rightarrow> (False, []) | r # rs \<Rightarrow> (r, rs)")
  from Cons.prems show ?case
    by (auto simp: rr Let_def split: if_splits prod.splits sum.splits option.splits
        dest!: Cons.IH answers_serve [where c = c])
qed

lemma answers_wait:
  "shutdown_wait d ts es = (es', a) \<Longrightarrow>
     answers c a + length (filter (\<lambda>e. e_stream e = c) es') \<le> length (filter (\<lambda>e. e_stream e = c) es)"
proof (induction d ts es arbitrary: es' a rule: shutdown_wait.induct)
  case (1 deadline es)
  then show ?case by simp
next
  case (2 deadline now waits ts es)
  obtain es1 a1 where r: "reap waits es = (es1, a1)" by (cases "reap waits es")
  obtain es2 a2 where w: "shutdown_wait deadline ts es1 = (es2, a2)" by (cases "shutdown_wait deadline ts es1")
  show ?case
  proof (cases "es \<noteq> [] \<and> now < deadline")
    case True
    have "answers c a2 + length (filter (\<lambda>e. e_stream e = c) es2) \<le> length (filter (\<lambda>e. e_stream e = c) es1)"
      using "2.IH" [OF True r [symmetric] refl w] .
    with answers_reap [OF r, of c] "2.prems" True show ?thesis by (auto simp: r w)
  next
    case False
    with "2.prems" show ?thesis by auto
  qed
qed

lemma answers_final:
  "answers c (concat (map (\<lambda>e. case f (e_child e) of Some s \<Rightarrow> [Status (e_stream e) s] | None \<Rightarrow> []) es)) \<le>
     length (filter (\<lambda>e. e_stream e = c) es)"
  by (induction es) (auto split: option.splits)

lemma answers_shutdown:
  assumes "shutdown now ts final es = (es', a)"
  shows "answers c a \<le> length (filter (\<lambda>e. e_stream e = c) es)"
proof -
  obtain left b where w: "shutdown_wait (now + GRACE) ts es = (left, b)"
    by (cases "shutdown_wait (now + GRACE) ts es")
  from assms answers_final [of c final left] answers_wait [OF w, of c] show ?thesis
    by (auto simp: shutdown_def Let_def w split: if_splits)
qed

lemma answers_stop_x11 [simp]: "answers c (stop_x11 e x) = 0"
  by (auto simp: stop_x11_def stop_child_def split: option.splits)

lemma answers_ended: "tick t s = (Inr code, a) \<Longrightarrow> answers c a \<le> tokens c s"
  by (auto simp: tick_def Let_def tokens_def split: WaitRes.splits prod.splits
      dest!: answers_reap [where c = c] answers_shutdown [where c = c])

lemma answers_before:
  assumes "before_poll t s = (s', a)"
  shows "answers c a + tokens c s' \<le> tokens c s"
proof -
  obtain s1 a1 where 1: "check_server t s = (s1, a1)" by (cases "check_server t s")
  obtain s2 a2 where 2: "check_wm t s1 = (s2, a2)" by (cases "check_wm t s1")
  obtain s3 a3 where 3: "reap_all t s2 = (s3, a3)" by (cases "reap_all t s2")
  obtain s4 a4 where 4: "kill_due t s3 = (s4, a4)" by (cases "kill_due t s3")
  have "answers c a1 = 0" "tokens c s1 = tokens c s"
    using 1 by (auto simp: check_server_def ask_stop_def begin_stop_def has_exited_def Let_def tokens_def
        split: option.splits if_splits WaitRes.splits)
  moreover have "answers c a2 = 0" "tokens c s2 = tokens c s1"
    using 2 by (auto simp: check_wm_def has_exited_def Let_def tokens_def
        split: option.splits if_splits WaitRes.splits)
  moreover have "answers c a3 + tokens c s3 \<le> tokens c s2"
    using 3 by (auto simp: reap_all_def Let_def tokens_def split: prod.splits dest: answers_reap [where c = c])
  moreover have "answers c a4 = 0" "tokens c s4 = tokens c s3"
    using 4 by (auto simp: kill_due_def tokens_def split: option.splits if_splits)
  ultimately show ?thesis using assms by (auto simp: before_poll_def 1 2 3 4)
qed

lemma accepted_tokens:
  "length (filter (\<lambda>p. pe_stream p = c) (accept_all as ps)) \<le>
     length (filter (\<lambda>p. pe_stream p = c) ps) + length (filter (\<lambda>(x, _, _). x = c) as)"
proof (induction as ps rule: accept_all.induct)
  case (1 ps)
  then show ?case by simp
next
  case (2 stream nonblocking now as ps)
  have "length (filter (\<lambda>p. pe_stream p = c) (tl ps)) \<le> length (filter (\<lambda>p. pe_stream p = c) ps)"
    by (cases ps) auto
  with 2 show ?case by auto
qed

lemma length_filter_filter: "length (filter P (filter Q xs)) \<le> length (filter P xs)"
  by (induction xs) auto

lemma answers_after:
  assumes "after_poll t woke s = (s', a)"
  shows "answers c a + tokens c s' \<le> tokens c s + accepted_as c t"
proof -
  obtain s1 a1 where 1: "take_stop t s = (s1, a1)" by (cases "take_stop t s")
  obtain s2 a2 where 2: "wake_display t woke s1 = (s2, a2)" by (cases "wake_display t woke s1")
  obtain s3 a3 where 3: "read_requests t s2 = (s3, a3)" by (cases "read_requests t s2")
  have "answers c a1 = 0" "tokens c s1 = tokens c s"
    using 1 by (auto simp: take_stop_def ask_stop_def begin_stop_def tokens_def split: if_splits)
  moreover have "answers c a2 = 0" "tokens c s2 = tokens c s1"
    using 2 by (auto simp: wake_display_def ask_stop_def begin_stop_def start_x11_def start_wm_def Let_def
        tokens_def rust_simps split: option.splits if_splits sum.splits list.splits)
  moreover have "answers c a3 + tokens c s3 \<le> tokens c s2"
    using 3 by (auto simp: read_requests_def Let_def tokens_def split: prod.splits
        dest: answers_read_pending [where c = c])
  moreover have "tokens c (expire t s3) \<le> tokens c s3"
    using length_filter_filter [of _ "\<lambda>p. pe_deadline p > tk_now t" "su_pending s3"]
    by (simp add: expire_def tokens_def del: filter_filter)
  moreover have "tokens c (accept_new t (expire t s3)) \<le> tokens c (expire t s3) + accepted_as c t"
    using accepted_tokens [of c "tk_accepts t" "su_pending (expire t s3)"]
    by (simp add: accept_new_def tokens_def accepted_as_def)
  ultimately show ?thesis using assms by (auto simp: after_poll_def 1 2 3 split: if_splits)
qed

lemma answers_run:
  assumes "sup_run ts s = (r, a)"
  shows "answers c a \<le> tokens c s + sum_list (map (accepted_as c) ts)"
  using assms
proof (induction ts arbitrary: s a r)
  case Nil
  then show ?case by simp
next
  case (Cons t ts)
  obtain q b where t: "tick t s = (q, b)" by (cases "tick t s")
  show ?case
  proof (cases q)
    case (Inr code)
    with Cons.prems t answers_ended [of t s code b c] show ?thesis by simp
  next
    case (Inl s1)
    obtain r' d where r: "sup_run ts s1 = (r', d)" by (cases "sup_run ts s1")
    obtain u b1 where u: "before_poll t s = (u, b1)" by (cases "before_poll t s")
    obtain v b2 where v: "after_poll t (is_waking u \<and> tk_wake t) u = (v, b2)"
      by (cases "after_poll t (is_waking u \<and> tk_wake t) u")
    have "b = b1 @ b2" "s1 = v"
      using t Inl by (auto simp: tick_def Let_def u v split: WaitRes.splits prod.splits)
    with answers_before [OF u, of c] answers_after [OF v, of c] Cons.IH [OF r] Cons.prems t Inl r
    show ?thesis by auto
  qed
qed

text \<open>C31. The exec channel stays bounded: however the turns go, the supervisor holds at most
  \<open>MAX_PENDING\<close> half-read requests, and a connection is answered at most as often as it was
  accepted, so every client gets at most one status.\<close>

theorem exec_channel_bounded:
  assumes "sup_run ts (sup_start pid x11) = (r, acts)"
  shows "(\<forall>s. r = Inl s \<longrightarrow> length (su_pending s) \<le> MAX_PENDING) \<and>
    answers c acts \<le> sum_list (map (accepted_as c) ts)"
  using pending_run.run [of ts "sup_start pid x11" r acts] answers_run [OF assms, of c] assms
  by (simp add: sup_start_def tokens_def)

theorem exec_channel_bounded_witness:
  "answers 5 [Kill 7 SigTerm] \<le> 0"
proof -
  have "sup_run [demo_tick True 3] (sup_start 7 (Some demo_x11)) =
      (Inl ((sup_start 7 (Some demo_x11))\<lparr>su_stopping := \<lparr>asked = True, kill_at = Some (3 + GRACE)\<rparr>\<rparr>),
       [Kill 7 SigTerm])"
    using demo_turn_stop [of 3] by simp
  from exec_channel_bounded [OF this, of 5] show ?thesis
    by (simp add: accepted_as_def demo_tick_def)
qed

text \<open>The exit code the run hands on: the command's own, or 128 and the signal that ended it.\<close>

lemma code_of_exit: "code_of (push_bit 8 (ucast (c :: byte))) = unat c"
proof -
  have masks: "(0x7f :: u32) = mask 7" "(0xff :: u32) = mask 8" by (simp_all add: mask_eq_exp_minus_1)
  have "push_bit 8 (ucast c :: u32) AND 0x7f = 0"
    unfolding masks by (rule bit_word_eqI) (auto simp: bit_simps)
  moreover have "drop_bit 8 (push_bit 8 (ucast c :: u32)) AND 0xff = ucast c"
    unfolding masks by (rule bit_word_eqI) (auto simp: bit_simps dest: bit_imp_le_length)
  moreover have "unat (ucast c :: u32) = unat c"
    using unsigned_less [of c, where ?'a = nat] by (simp add: unsigned_ucast_eq take_bit_nat_eq_self_iff)
  ultimately show ?thesis
    using unsigned_less [of c, where ?'a = nat] by (simp add: code_of_def status_code_def)
qed

end
