(* ===== verification/Net_Allow.thy ===== *)
theory Net_Allow
  imports Bub_Prelude
begin

text \<open>
  The names an egress proxy may reach (\<^verbatim>\<open>crates/bubbler-net-proxy/src/allow.rs\<close>): the
  \<open>allow-host\<close> pattern, its parser, its matcher and its canonical printing, and the
  allowlist built from the \<open>--allow\<close> words.  Shown: a pattern denotes exactly the
  well-formed names whose lower-case labels are its own, with one arbitrary label in front
  for a wildcard; printing a parsed pattern and parsing it again is the identity; and the
  decision does not depend on letter case or on one trailing root dot.
\<close>

record HostPattern =
  labels :: "bytes list"
  wildcard :: bool

text \<open>Why a name or a target word is refused; the source's message for each.\<close>

datatype AllowError =
    NameTooLong | EmptyLabel | LabelTooLong | LabelChars | LabelHyphen | BareWildcard
  | AddressName | NoPort | PortDigits | PortRange

definition MAX_NAME :: nat where
  "MAX_NAME = 253"

definition MAX_LABEL :: nat where
  "MAX_LABEL = 63"

abbreviation dot :: byte where
  "dot \<equiv> 0x2e"

abbreviation hyphen :: byte where
  "hyphen \<equiv> 0x2d"

abbreviation star :: byte where
  "star \<equiv> 0x2a"

definition check_label :: "bytes \<Rightarrow> AllowError + unit" where
  "check_label s =
     (if s = [] then Inl EmptyLabel
      else if length s > MAX_LABEL then Inl LabelTooLong
      else if \<not> (\<forall>b \<in> set s. is_ascii_alphanumeric b \<or> b = hyphen) then Inl LabelChars
      else if hd s = hyphen \<or> last s = hyphen then Inl LabelHyphen
      else Inr ())"

text \<open>The loop over the labels of \<open>HostPattern::parse\<close>: \<open>first\<close> says whether the index is 0.\<close>

fun parse_labels :: "bool \<Rightarrow> bytes list \<Rightarrow> bytes list \<Rightarrow> bool \<Rightarrow> AllowError + (bytes list \<times> bool)" where
  "parse_labels first [] acc wild = Inr (acc, wild)"
| "parse_labels first (l # ls) acc wild =
     (if first \<and> l = [star] then parse_labels False ls acc True
      else res_bind (check_label l) (\<lambda>_.
        parse_labels False ls (acc @ [map to_ascii_lowercase l]) wild))"

definition all_digits :: "bytes \<Rightarrow> bool" where
  "all_digits l \<longleftrightarrow> (\<forall>b \<in> set l. is_ascii_digit b)"

definition pattern_parse :: "bytes \<Rightarrow> AllowError + HostPattern" where
  "pattern_parse s =
     (if length s > MAX_NAME then Inl NameTooLong
      else let name = strip_or dot s in
        res_bind (parse_labels True (split_on dot name) [] False) (\<lambda>(ls, wild).
          if ls = [] then Inl BareWildcard
          else if all_digits (last ls) then Inl AddressName
          else Inr \<lparr>labels = ls, wildcard = wild\<rparr>))"

definition pattern_matches :: "HostPattern \<Rightarrow> bytes \<Rightarrow> bool" where
  "pattern_matches p host =
     (if length host > MAX_NAME then False
      else let got = split_on dot (strip_or dot host) in
        if \<not> (\<forall>l \<in> set got. check_label l = Inr ()) then False
        else let got' = (if wildcard p then tl got else got) in
          length got' = length (labels p) \<and>
          list_all (\<lambda>(g, l). eq_ignore_ascii_case g l) (zip got' (labels p)))"

definition pattern_fmt :: "HostPattern \<Rightarrow> bytes" where
  "pattern_fmt p = (if wildcard p then [star, dot] else []) @ join [dot] (labels p)"

type_synonym Allowlist = "(HostPattern \<times> u16) list"

definition port_word :: "bytes \<Rightarrow> AllowError + u16" where
  "port_word port =
     (if port = [] \<or> length port > 5 \<or> \<not> all_digits port then Inl PortDigits
      else case parse_unsigned 65535 port of
             None \<Rightarrow> Inl PortRange
           | Some n \<Rightarrow> if n = 0 then Inl PortRange else Inr (of_nat n))"

definition allow_entry :: "bytes \<Rightarrow> AllowError + (HostPattern \<times> u16)" where
  "allow_entry word =
     res_bind (ok_or NoPort (rsplit_once 0x3a word)) (\<lambda>(name, port).
     res_bind (pattern_parse name) (\<lambda>pattern.
     res_bind (port_word port) (\<lambda>n. Inr (pattern, n))))"

fun allowlist_parse :: "bytes list \<Rightarrow> AllowError + Allowlist" where
  "allowlist_parse [] = Inr []"
| "allowlist_parse (w # ws) =
     res_bind (allow_entry w) (\<lambda>e. res_bind (allowlist_parse ws) (\<lambda>es. Inr (e # es)))"

definition allowlist_matches :: "Allowlist \<Rightarrow> bytes \<Rightarrow> u16 \<Rightarrow> bool" where
  "allowlist_matches list host port =
     list_ex (\<lambda>(pattern, allowed). allowed = port \<and> pattern_matches pattern host) list"

definition allowlist_len :: "Allowlist \<Rightarrow> nat" where
  "allowlist_len list = length list"

definition allowlist_is_empty :: "Allowlist \<Rightarrow> bool" where
  "allowlist_is_empty list = (list = [])"

section \<open>Labels\<close>

definition label_ok :: "bytes \<Rightarrow> bool" where
  "label_ok l \<longleftrightarrow> l \<noteq> [] \<and> length l \<le> MAX_LABEL \<and>
     (\<forall>b \<in> set l. is_ascii_alphanumeric b \<or> b = hyphen) \<and> hd l \<noteq> hyphen \<and> last l \<noteq> hyphen"

lemma check_label_iff [simp]: "check_label l = Inr u \<longleftrightarrow> label_ok l"
  by (auto simp: check_label_def label_ok_def)

lemma alphanumeric_not_dot: "is_ascii_alphanumeric b \<Longrightarrow> b \<noteq> dot"
  and alphanumeric_not_star: "is_ascii_alphanumeric b \<Longrightarrow> b \<noteq> star"
  by (auto simp: ascii_defs)

lemma label_ok_no_dot: "label_ok l \<Longrightarrow> dot \<notin> set l"
  by (auto simp: label_ok_def dest!: alphanumeric_not_dot)

lemma label_ok_not_star: "label_ok l \<Longrightarrow> l \<noteq> [star]"
  by (auto simp: label_ok_def ascii_defs)

lemma lowercase_alphanumeric:
  "is_ascii_alphanumeric (to_ascii_lowercase b) = is_ascii_alphanumeric b"
proof -
  have "is_ascii_upper b \<Longrightarrow> is_ascii_lower (b + 0x20)"
    using unat_lowercase [of b]
    by (simp add: is_ascii_upper_unat is_ascii_lower_def word_le_nat_alt)
  then show ?thesis by (auto simp: to_ascii_lowercase_def is_ascii_alphanumeric_def)
qed

lemma lowercase_hyphen: "to_ascii_lowercase b = hyphen \<longleftrightarrow> b = hyphen"
  and lowercase_dot: "to_ascii_lowercase b = dot \<longleftrightarrow> b = dot"
  by (rule lowercase_eq_iff; simp add: ascii_defs)+

lemma lowercase_digit: "is_ascii_digit (to_ascii_lowercase b) = is_ascii_digit b"
proof -
  have "is_ascii_upper b \<Longrightarrow> \<not> is_ascii_digit b" and
      "is_ascii_upper b \<Longrightarrow> \<not> is_ascii_digit (b + 0x20)"
    using unat_lowercase [of b]
    by (simp_all add: is_ascii_upper_unat is_ascii_digit_def word_le_nat_alt)
  then show ?thesis by (auto simp: to_ascii_lowercase_def)
qed

lemma label_ok_lower [simp]: "label_ok (map to_ascii_lowercase l) = label_ok l"
  by (cases "l = []") (auto simp: label_ok_def lowercase_alphanumeric lowercase_hyphen hd_map last_map)

lemma all_digits_lower [simp]: "all_digits (map to_ascii_lowercase l) = all_digits l"
  by (simp add: all_digits_def lowercase_digit)

lemma split_on_lower:
  "split_on dot (map to_ascii_lowercase s) = map (map to_ascii_lowercase) (split_on dot s)"
proof (induction s)
  case Nil
  then show ?case by simp
next
  case (Cons b s)
  then show ?case
    by (cases "split_on dot s") (auto simp: lowercase_dot)
qed

lemma strip_or_lower:
  "strip_or dot (map to_ascii_lowercase s) = map to_ascii_lowercase (strip_or dot s)"
  by (cases s rule: rev_cases)
    (auto simp: strip_or_def strip_suffix_def lowercase_dot)

section \<open>What a pattern denotes\<close>

text \<open>The labels of a host as the matcher sees it: one root dot dropped, lower case.\<close>

definition host_labels :: "bytes \<Rightarrow> bytes list" where
  "host_labels host = map (map to_ascii_lowercase) (split_on dot (strip_or dot host))"

definition host_ok :: "bytes \<Rightarrow> bool" where
  "host_ok host \<longleftrightarrow> length host \<le> MAX_NAME \<and> (\<forall>l \<in> set (host_labels host). label_ok l)"

definition denotes :: "HostPattern \<Rightarrow> bytes list \<Rightarrow> bool" where
  "denotes p ls \<longleftrightarrow>
     (if wildcard p then ls \<noteq> [] \<and> tl ls = map (map to_ascii_lowercase) (labels p)
      else ls = map (map to_ascii_lowercase) (labels p))"

lemma zip_eq_lower:
  "length xs = length ys \<and> list_all (\<lambda>(g, l). eq_ignore_ascii_case g l) (zip xs ys) \<longleftrightarrow>
     map (map to_ascii_lowercase) xs = map (map to_ascii_lowercase) ys"
proof (induction xs arbitrary: ys)
  case Nil
  then show ?case by auto
next
  case (Cons x xs)
  show ?case
  proof (cases ys)
    case Nil
    then show ?thesis by simp
  next
    case (Cons y zs)
    with Cons.IH [of zs] show ?thesis by (auto simp: eq_ignore_ascii_case_def)
  qed
qed

lemma pattern_matches_iff:
  "pattern_matches p host \<longleftrightarrow> host_ok host \<and> denotes p (host_labels host)"
proof -
  let ?got = "split_on dot (strip_or dot host)"
  have "(\<forall>l \<in> set ?got. check_label l = Inr ()) \<longleftrightarrow> (\<forall>l \<in> set (host_labels host). label_ok l)"
    by (simp add: host_labels_def)
  moreover have "length xs = length (labels p) \<and>
      list_all (\<lambda>(g, l). eq_ignore_ascii_case g l) (zip xs (labels p)) \<longleftrightarrow>
      map (map to_ascii_lowercase) xs = map (map to_ascii_lowercase) (labels p)" for xs
    by (rule zip_eq_lower)
  ultimately show ?thesis
    by (auto simp: pattern_matches_def host_ok_def denotes_def host_labels_def Let_def
        simp flip: map_tl)
qed

section \<open>What the parser accepts\<close>

definition pattern_ok :: "HostPattern \<Rightarrow> bool" where
  "pattern_ok p \<longleftrightarrow> labels p \<noteq> [] \<and> \<not> all_digits (last (labels p)) \<and>
     (\<forall>l \<in> set (labels p). label_ok l \<and> map to_ascii_lowercase l = l)"

lemma parse_labels_False:
  "parse_labels False ls acc wild = Inr r \<longleftrightarrow>
     (\<forall>l \<in> set ls. label_ok l) \<and> r = (acc @ map (map to_ascii_lowercase) ls, wild)"
  by (induction ls arbitrary: acc) (auto simp: rust_simps)

lemma parse_labels_True:
  assumes "ls \<noteq> []"
  shows "parse_labels True ls [] False = Inr (out, wild) \<longleftrightarrow>
    (if hd ls = [star] then wild \<and> (\<forall>l \<in> set (tl ls). label_ok l) \<and>
        out = map (map to_ascii_lowercase) (tl ls)
     else \<not> wild \<and> (\<forall>l \<in> set ls. label_ok l) \<and> out = map (map to_ascii_lowercase) ls)"
  using assms by (cases ls) (auto simp: rust_simps parse_labels_False)

lemma pattern_parse_iff:
  "pattern_parse s = Inr p \<longleftrightarrow>
     length s \<le> MAX_NAME \<and> labels p \<noteq> [] \<and> \<not> all_digits (last (labels p)) \<and>
     (let ls = split_on dot (strip_or dot s) in
      if hd ls = [star] then wildcard p \<and> (\<forall>l \<in> set (tl ls). label_ok l) \<and>
        labels p = map (map to_ascii_lowercase) (tl ls)
      else \<not> wildcard p \<and> (\<forall>l \<in> set ls. label_ok l) \<and> labels p = map (map to_ascii_lowercase) ls)"
proof -
  let ?ls = "split_on dot (strip_or dot s)"
  have "?ls \<noteq> []" by simp
  note pl = parse_labels_True [OF this]
  have "pattern_parse s = Inr p \<longleftrightarrow> length s \<le> MAX_NAME \<and>
      (\<exists>out wild. parse_labels True ?ls [] False = Inr (out, wild) \<and> out \<noteq> [] \<and>
         \<not> all_digits (last out) \<and> p = \<lparr>labels = out, wildcard = wild\<rparr>)"
    by (auto simp: pattern_parse_def Let_def rust_simps split: if_splits)
  then show ?thesis
    unfolding pl Let_def by (cases p) (auto split: if_splits)
qed

lemma pattern_parse_ok: "pattern_parse s = Inr p \<Longrightarrow> pattern_ok p"
  by (auto simp: pattern_parse_iff pattern_ok_def Let_def split: if_splits)

lemma split_on_snoc: "split_on c (xs @ [c]) = split_on c xs @ [[]]"
proof (induction xs)
  case Nil
  then show ?case by simp
next
  case (Cons x xs)
  then show ?case by (cases "split_on c xs") auto
qed

lemma last_split_on_sep: "xs \<noteq> [] \<Longrightarrow> last xs = c \<Longrightarrow> last (split_on c xs) = []"
  by (cases xs rule: rev_cases) (auto simp: split_on_snoc)

lemma strip_or_no_sep: "last (split_on c xs) \<noteq> [] \<Longrightarrow> strip_or c xs = xs"
  using last_split_on_sep [of xs c] by (auto intro: strip_or_other)

lemma join_map_lower:
  "join [dot] (map (map to_ascii_lowercase) ls) = map to_ascii_lowercase (join [dot] ls)"
  by (induction "[dot]" ls rule: join.induct) (auto simp: to_ascii_lowercase_def ascii_defs)

text \<open>The canonical text of a parsed pattern is the text it was parsed from, without the root
  dot and in lower case.\<close>

lemma pattern_fmt_parsed:
  assumes "pattern_parse s = Inr p"
  shows "pattern_fmt p = map to_ascii_lowercase (strip_or dot s)"
proof -
  let ?ls = "split_on dot (strip_or dot s)"
  have lower_star: "map to_ascii_lowercase [star] = [star]"
    by (simp add: to_ascii_lowercase_def ascii_defs)
  have j: "join [dot] ?ls = strip_or dot s" by (rule join_split_on)
  obtain l ls where ls: "?ls = l # ls" by (cases ?ls) simp_all
  show ?thesis
  proof (cases "l = [star]")
    case True
    with assms ls have w: "wildcard p" "labels p = map (map to_ascii_lowercase) ls" "ls \<noteq> []"
      by (auto simp: pattern_parse_iff Let_def)
    then have "pattern_fmt p = [star, dot] @ map to_ascii_lowercase (join [dot] ls)"
      by (simp add: pattern_fmt_def join_map_lower)
    also have "\<dots> = map to_ascii_lowercase (join [dot] ([star] # ls))"
      using w(3) by (cases ls) (simp_all add: to_ascii_lowercase_def ascii_defs)
    finally show ?thesis using j ls True by simp
  next
    case False
    with assms ls have "\<not> wildcard p" "labels p = map (map to_ascii_lowercase) ?ls"
      by (auto simp: pattern_parse_iff Let_def)
    then show ?thesis using j by (simp add: pattern_fmt_def join_map_lower)
  qed
qed

lemma parsed_last_label:
  assumes "pattern_parse s = Inr p"
  shows "last (split_on dot (strip_or dot s)) \<noteq> []"
proof -
  let ?ls = "split_on dot (strip_or dot s)"
  have "last ?ls \<in> set ?ls" by simp
  moreover have "?ls = hd ?ls # tl ?ls" by simp
  ultimately show ?thesis
    using assms label_ok_def [of "[]"]
    by (auto simp: pattern_parse_iff Let_def split: if_splits)
      (metis hd_Cons_tl last_tl list.distinct(1) last_in_set split_on_not_Nil list.map_disc_iff)+
qed

section \<open>The name filter\<close>

text \<open>What the rest of the proxy relies on when it asks whether a name is covered: the answer
  is about a well-formed name, and neither letter case nor one root dot changes it.\<close>

locale name_filter =
  fixes covers :: "bytes \<Rightarrow> u16 \<Rightarrow> bool"
  assumes covers_ok: "covers h port \<Longrightarrow> host_ok h"
    and covers_lower: "covers (map to_ascii_lowercase h) port \<longleftrightarrow> covers h port"
    and covers_root: "length h < MAX_NAME \<Longrightarrow> last (split_on dot h) \<noteq> [] \<Longrightarrow>
      covers (h @ [dot]) port \<longleftrightarrow> covers h port"
begin

lemma covers_normalised:
  assumes "last (split_on dot (strip_or dot h)) \<noteq> []" and "length h \<le> MAX_NAME"
  shows "covers (map to_ascii_lowercase (strip_or dot h)) port \<longleftrightarrow> covers h port"
proof (cases "strip_or dot h = h")
  case True
  then show ?thesis by (simp add: covers_lower)
next
  case False
  with strip_or_cases [of dot h] have h: "h = strip_or dot h @ [dot]" by blast
  with assms(2) have "length (strip_or dot h) < MAX_NAME"
    by (metis length_append_singleton less_eq_Suc_le)
  from covers_root [OF this assms(1)] h show ?thesis by (simp add: covers_lower)
qed

end

lemma host_labels_lower [simp]: "host_labels (map to_ascii_lowercase h) = host_labels h"
  by (simp add: host_labels_def strip_or_lower split_on_lower)

lemma host_labels_root:
  "last (split_on dot h) \<noteq> [] \<Longrightarrow> host_labels (h @ [dot]) = host_labels h"
  by (simp add: host_labels_def strip_or_no_sep)

lemma allowlist_matches_iff:
  "allowlist_matches al host port \<longleftrightarrow>
     host_ok host \<and> (\<exists>p. (p, port) \<in> set al \<and> denotes p (host_labels host))"
  by (auto simp: allowlist_matches_def list_ex_iff pattern_matches_iff)

interpretation allow: name_filter "allowlist_matches al" for al
  by unfold_locales (auto simp: allowlist_matches_iff host_ok_def host_labels_root)

section \<open>Properties\<close>

text \<open>Printing a parsed pattern and parsing the text again gives the pattern back: the printed name
  is one canonical form per pattern.\<close>

lemma pattern_fmt_roundtrip:
  assumes "pattern_parse s = Inr p"
  shows "pattern_parse (pattern_fmt p) = Inr p"
proof -
  let ?n = "strip_or dot s"
  have last: "last (split_on dot ?n) \<noteq> []" by (rule parsed_last_label [OF assms])
  then have "last (split_on dot (map to_ascii_lowercase ?n)) \<noteq> []"
    by (simp add: split_on_lower last_map)
  then have strip: "strip_or dot (map to_ascii_lowercase ?n) = map to_ascii_lowercase ?n"
    by (rule strip_or_no_sep)
  have star: "map to_ascii_lowercase l = [star] \<longleftrightarrow> l = [star]" for l
    using lowercase_eq_iff [of star] by (auto simp: ascii_defs map_eq_Cons_conv)
  have "length ?n \<le> MAX_NAME"
    using assms length_strip_or [of dot s] by (simp add: pattern_parse_iff)
  with assms show ?thesis
    unfolding pattern_fmt_parsed [OF assms] pattern_parse_iff strip split_on_lower
    by (auto simp: Let_def star hd_map simp flip: map_tl split: if_splits)
qed

lemma allowlist_parse_set:
  "allowlist_parse ws = Inr al \<Longrightarrow>
     e \<in> set al \<longleftrightarrow> (\<exists>w \<in> set ws. allow_entry w = Inr e)"
  by (induction ws arbitrary: al) (auto simp: rust_simps)

lemma allow_entry_iff:
  "allow_entry w = Inr (p, port) \<longleftrightarrow>
     (\<exists>name digits. w = name @ [0x3a] @ digits \<and> 0x3a \<notin> set digits \<and>
        pattern_parse name = Inr p \<and> port_word digits = Inr port)"
  by (auto simp: allow_entry_def rust_simps rsplit_once_append dest!: rsplit_once_Some)

text \<open>C5. What an allowlist grants: a target is allowed exactly when the host is a well-formed
  name and one \<open>--allow\<close> word names this very port and a pattern whose labels are the host's,
  ignoring case and a root dot, with exactly one label under a wildcard.\<close>

theorem allowlist_denotation:
  assumes "allowlist_parse ws = Inr al"
  shows "allowlist_matches al host port \<longleftrightarrow>
    host_ok host \<and>
    (\<exists>name digits p. name @ [0x3a] @ digits \<in> set ws \<and> 0x3a \<notin> set digits \<and>
       pattern_parse name = Inr p \<and> port_word digits = Inr port \<and> denotes p (host_labels host))"
  using allowlist_parse_set [OF assms] by (auto simp: allowlist_matches_iff allow_entry_iff)

theorem allowlist_denotation_witness:
  "\<exists>al. allowlist_parse [str ''*.cdn.example:443''] = Inr al \<and>
     allowlist_matches al (str ''A.cdn.Example.'') 443 \<and>
     \<not> allowlist_matches al (str ''cdn.example'') 443 \<and>
     \<not> allowlist_matches al (str ''a.cdn.example'') 80"
proof -
  let ?p = "\<lparr>labels = [str ''cdn'', str ''example''], wildcard = True\<rparr>"
  have parse: "allowlist_parse [str ''*.cdn.example:443''] = Inr [(?p, 443)]"
    by (simp add: allow_entry_def pattern_parse_def strip_or_def strip_suffix_def check_label_def
        MAX_NAME_def MAX_LABEL_def ascii_defs to_ascii_lowercase_def all_digits_def port_word_def
        parse_unsigned_def dec_val_def digit_val_def Let_def)
  have eq: "allowlist_matches [(?p, 443)] h q \<longleftrightarrow> host_ok h \<and> q = 443 \<and> denotes ?p (host_labels h)"
    for h q
    by (auto simp: allowlist_matches_iff)
  have "allowlist_matches [(?p, 443)] (str ''A.cdn.Example.'') 443"
    unfolding eq
    by (simp add: host_ok_def host_labels_def denotes_def strip_or_def strip_suffix_def
        MAX_NAME_def MAX_LABEL_def label_ok_def ascii_defs to_ascii_lowercase_def)
  moreover have "\<not> allowlist_matches [(?p, 443)] (str ''cdn.example'') 443"
    unfolding eq
    by (simp add: host_labels_def denotes_def strip_or_def strip_suffix_def to_ascii_lowercase_def
        ascii_defs)
  moreover have "\<not> allowlist_matches [(?p, 443)] (str ''a.cdn.example'') 80"
    unfolding eq by simp
  ultimately show ?thesis
    using parse allowlist_denotation [OF parse] by blast
qed

end
