(* ===== verification/Net_Connect.thy ===== *)
theory Net_Connect
  imports Net_Allow Bub_Utf8 "HOL-Library.Sublist"
begin

text \<open>
  The one request the egress proxy understands (\<^verbatim>\<open>crates/bubbler-net-proxy/src/connect.rs\<close>):
  \<open>CONNECT host:port\<close>.  The parser is a function of the bytes read so far.  Shown: a
  decision, once made, does not change when more bytes arrive, so it does not depend on how
  the request was cut into reads; an accepted request is a name (never an address) with a
  port, read off the request line alone, with exactly one \<open>Host\<close> field; and the offset
  handed to the tunnel lies inside the buffer and the header bound.
\<close>

definition MAX_REQUEST_LINE :: nat where
  "MAX_REQUEST_LINE = 512"

definition MAX_TARGET :: nat where
  "MAX_TARGET = 259"

definition MAX_HEADERS :: nat where
  "MAX_HEADERS = 8 * 2 ^ 10"

definition MAX_HEADER_COUNT :: nat where
  "MAX_HEADER_COUNT = 64"

definition crlf :: bytes where
  "crlf = [0x0d, 0x0a]"

definition ESTABLISHED :: bytes where
  "ESTABLISHED = str ''HTTP/1.1 200 Connection established'' @ crlf @ crlf"

record ConnectRequest =
  req_host :: bytes
  req_port :: u16
  req_consumed :: nat

record Status =
  code :: u16
  reason :: bytes
  allow_header :: bool

definition status_new :: "u16 \<Rightarrow> string \<Rightarrow> Status" where
  "status_new c r = \<lparr>code = c, reason = str r, allow_header = False\<rparr>"

definition INCOMPLETE :: Status where
  "INCOMPLETE = status_new 0 ''Incomplete''"

definition BAD_REQUEST :: Status where
  "BAD_REQUEST = status_new 400 ''Bad Request''"

definition FORBIDDEN :: Status where
  "FORBIDDEN = status_new 403 ''Forbidden''"

definition METHOD_NOT_ALLOWED :: Status where
  "METHOD_NOT_ALLOWED = \<lparr>code = 405, reason = str ''Method Not Allowed'', allow_header = True\<rparr>"

definition REQUEST_TIMEOUT :: Status where
  "REQUEST_TIMEOUT = status_new 408 ''Request Timeout''"

definition URI_TOO_LONG :: Status where
  "URI_TOO_LONG = status_new 414 ''URI Too Long''"

definition SERVICE_UNAVAILABLE :: Status where
  "SERVICE_UNAVAILABLE = status_new 503 ''Service Unavailable''"

definition BAD_GATEWAY :: Status where
  "BAD_GATEWAY = status_new 502 ''Bad Gateway''"

definition GATEWAY_TIMEOUT :: Status where
  "GATEWAY_TIMEOUT = status_new 504 ''Gateway Timeout''"

lemmas status_defs = status_new_def INCOMPLETE_def BAD_REQUEST_def FORBIDDEN_def
  METHOD_NOT_ALLOWED_def REQUEST_TIMEOUT_def URI_TOO_LONG_def SERVICE_UNAVAILABLE_def
  BAD_GATEWAY_def GATEWAY_TIMEOUT_def

definition response :: "Status \<Rightarrow> bytes" where
  "response s =
     str ''HTTP/1.1 '' @ dec_digits (unat (code s)) @ str '' '' @ reason s @ crlf @
     (if allow_header s then str ''Allow: CONNECT'' @ crlf else []) @
     str ''Content-Length: 0'' @ crlf @ str ''Connection: close'' @ crlf @ crlf"

definition split_line :: "bytes \<Rightarrow> nat \<Rightarrow> nat \<Rightarrow> Status \<Rightarrow> Status + (bytes \<times> nat)" where
  "split_line buf from window over =
     (let rest = drop from buf; limit = min (length rest) window in
      case position (\<lambda>b. b = 0x0a) (take limit rest) of
        Some at \<Rightarrow> Inr (strip_or 0x0d (take at rest), from + at + 1)
      | None \<Rightarrow> if length rest > window then Inl over else Inl INCOMPLETE)"

definition target_of :: "bytes \<Rightarrow> Status + (bytes \<times> u16)" where
  "target_of target =
     (if length target > MAX_TARGET then Inl URI_TOO_LONG
      else if \<not> utf8_valid target then Inl BAD_REQUEST
      else res_bind (ok_or BAD_REQUEST (rsplit_once 0x3a target)) (\<lambda>(host, port).
        if host \<noteq> [] \<and> hd host = 0x5b then Inl FORBIDDEN
        else if port = [] \<or> length port > 5 \<or> \<not> all_digits port then Inl BAD_REQUEST
        else case parse_unsigned 65535 port of
               None \<Rightarrow> Inl BAD_REQUEST
             | Some n \<Rightarrow>
                 if n = 0 then Inl BAD_REQUEST
                 else let name = strip_or dot host; labels = split_on dot name in
                   if last labels \<noteq> [] \<and> all_digits (last labels) then Inl FORBIDDEN
                   else if \<not> (\<forall>l \<in> set labels. check_label l = Inr ()) then Inl BAD_REQUEST
                   else Inr (map to_ascii_lowercase name, of_nat n)))"

definition visible :: "byte \<Rightarrow> bool" where
  "visible b \<longleftrightarrow> 0x21 \<le> b \<and> b \<le> 0x7e"

definition request_line :: "bytes \<Rightarrow> Status + (bytes \<times> u16)" where
  "request_line line =
     (if \<not> (\<forall>b \<in> set line. b = 0x20 \<or> visible b) then Inl BAD_REQUEST
      else case split_on 0x20 line of
             [method, target, version] \<Rightarrow>
               if method \<noteq> str ''CONNECT'' then Inl METHOD_NOT_ALLOWED
               else if version \<noteq> str ''HTTP/1.1'' \<and> version \<noteq> str ''HTTP/1.0''
               then Inl BAD_REQUEST
               else target_of target
           | _ \<Rightarrow> Inl BAD_REQUEST)"

definition is_token :: "byte \<Rightarrow> bool" where
  "is_token b \<longleftrightarrow>
     is_ascii_alphanumeric b \<or>
     b \<in> set [0x21, 0x23, 0x24, 0x25, 0x26, 0x27, 0x2a, 0x2b, 0x2d, 0x2e, 0x5e, 0x5f, 0x60, 0x7c, 0x7e]"

definition field :: "bytes \<Rightarrow> Status + bool" where
  "field line =
     (if line \<noteq> [] \<and> (hd line = 0x20 \<or> hd line = 0x09) then Inl BAD_REQUEST
      else case position (\<lambda>b. b = 0x3a) line of
             None \<Rightarrow> Inl BAD_REQUEST
           | Some colon \<Rightarrow>
               let name = take colon line; value = drop (colon + 1) line in
               if name = [] \<or> \<not> (\<forall>b \<in> set name. is_token b) then Inl BAD_REQUEST
               else if \<not> (\<forall>b \<in> set value. b = 0x09 \<or> (0x20 \<le> b \<and> b \<le> 0x7e)) then Inl BAD_REQUEST
               else Inr (eq_ignore_ascii_case name (str ''host'')))"

lemma split_line_next: "split_line buf from window over = Inr (line, e) \<Longrightarrow>
    from < e \<and> e \<le> from + window \<and> e \<le> length buf"
  by (auto simp: split_line_def Let_def split: option.splits if_splits dest!: position_Some)

text \<open>The header loop of \<open>parse\<close>: at offset \<open>at\<close>, with the fields and the \<open>Host\<close>s seen so far.\<close>

function header_loop :: "bytes \<Rightarrow> nat \<Rightarrow> nat \<Rightarrow> nat \<Rightarrow> Status + (nat \<times> nat)" where
  "header_loop buf at nfields hosts =
     (if at \<ge> MAX_HEADERS then Inl BAD_REQUEST
      else case split_line buf at (MAX_HEADERS - at) BAD_REQUEST of
             Inl s \<Rightarrow> Inl s
           | Inr (line, e) \<Rightarrow>
               if line = [] then Inr (e, hosts)
               else if nfields + 1 > MAX_HEADER_COUNT then Inl BAD_REQUEST
               else case field line of
                      Inl s \<Rightarrow> Inl s
                    | Inr h \<Rightarrow> header_loop buf e (nfields + 1) (if h then hosts + 1 else hosts))"
  by pat_completeness auto
termination
proof (relation "measure (\<lambda>(buf, at, nfields, hosts). MAX_HEADERS - at)", goal_cases)
  case 1
  show ?case by simp
next
  case (2 buf at nfields hosts x line e h)
  then have "split_line buf at (MAX_HEADERS - at) BAD_REQUEST = Inr (line, e)" by simp
  from split_line_next [OF this] 2(1) show ?case by simp linarith
qed

declare header_loop.simps [simp del]

definition connect_parse :: "bytes \<Rightarrow> Status + ConnectRequest" where
  "connect_parse buf =
     res_bind (split_line buf 0 MAX_REQUEST_LINE URI_TOO_LONG) (\<lambda>(line, at).
     res_bind (request_line line) (\<lambda>(host, port).
     res_bind (header_loop buf at 0 0) (\<lambda>(at, hosts).
       if hosts \<noteq> 1 then Inl BAD_REQUEST
       else Inr \<lparr>req_host = host, req_port = port, req_consumed = at\<rparr>)))"

section \<open>A decision is final\<close>

lemma split_line_alt:
  "split_line buf from window over =
     (case position (\<lambda>b. b = 0x0a) (take window (drop from buf)) of
        Some at \<Rightarrow> Inr (strip_or 0x0d (take at (drop from buf)), from + at + 1)
      | None \<Rightarrow> if length (drop from buf) > window then Inl over else Inl INCOMPLETE)"
  by (simp add: split_line_def Let_def min_def)

lemma split_line_extend:
  assumes "split_line buf from window over \<noteq> Inl INCOMPLETE"
  shows "split_line (buf @ extra) from window over = split_line buf from window over"
proof (cases "from \<le> length buf")
  case False
  with assms show ?thesis by (simp add: split_line_def Let_def)
next
  case True
  let ?rest = "drop from buf"
  let ?nl = "\<lambda>b :: byte. b = 0x0a"
  have rest: "drop from (buf @ extra) = ?rest @ extra" using True by simp
  show ?thesis
  proof (cases "position ?nl (take window ?rest)")
    case None
    with assms have "window < length ?rest"
      by (auto simp: split_line_alt split: if_splits)
    with None rest show ?thesis by (simp add: split_line_alt)
  next
    case (Some i)
    then have "i < length ?rest" using position_Some [OF Some] by simp
    moreover have "position ?nl (take window (?rest @ extra)) = Some i"
      using Some by (simp add: position_append)
    ultimately show ?thesis
      unfolding split_line_alt rest using Some by simp
  qed
qed

lemma header_loop_extend:
  assumes "header_loop buf at n h \<noteq> Inl INCOMPLETE"
  shows "header_loop (buf @ extra) at n h = header_loop buf at n h"
  using assms
proof (induction buf at n h rule: header_loop.induct)
  case (1 buf at n h)
  show ?case
  proof (cases "MAX_HEADERS \<le> at")
    case True
    then show ?thesis by (simp add: header_loop.simps)
  next
    case False
    let ?sl = "split_line buf at (MAX_HEADERS - at) BAD_REQUEST"
    have "?sl \<noteq> Inl INCOMPLETE"
      using "1.prems" False by (auto simp: header_loop.simps [of buf at n h])
    then have sl: "split_line (buf @ extra) at (MAX_HEADERS - at) BAD_REQUEST = ?sl"
      by (rule split_line_extend)
    show ?thesis
    proof (cases ?sl)
      case (Inl e)
      with sl False show ?thesis
        by (simp add: header_loop.simps [of buf at n h] header_loop.simps [of "buf @ extra" at n h])
    next
      case (Inr le)
      obtain line e where le: "le = (line, e)" by (cases le)
      note step = header_loop.simps [of buf at n h] header_loop.simps [of "buf @ extra" at n h]
      show ?thesis
      proof (cases "line = [] \<or> MAX_HEADER_COUNT < n + 1 \<or> (\<exists>s. field line = Inl s)")
        case True
        with False sl Inr le show ?thesis by (auto simp: step)
      next
        case go: False
        then obtain f where f: "field line = Inr f" by (cases "field line") auto
        with go "1.prems" False Inr le
        have "header_loop buf e (n + 1) (if f then h + 1 else h) \<noteq> Inl INCOMPLETE"
          by (auto simp: step(1))
        with go f False sl Inr le "1.IH" [OF False Inr le [symmetric] _ _ f] show ?thesis
          by (simp add: step)
      qed
    qed
  qed
qed

section \<open>What is accepted\<close>

lemma status_distinct [simp]:
  "BAD_REQUEST \<noteq> INCOMPLETE" "FORBIDDEN \<noteq> INCOMPLETE" "METHOD_NOT_ALLOWED \<noteq> INCOMPLETE"
  "URI_TOO_LONG \<noteq> INCOMPLETE" "INCOMPLETE \<noteq> BAD_REQUEST" "INCOMPLETE \<noteq> FORBIDDEN"
  "INCOMPLETE \<noteq> METHOD_NOT_ALLOWED" "INCOMPLETE \<noteq> URI_TOO_LONG"
  by (simp_all add: status_defs)

definition host_name :: "bytes \<Rightarrow> bool" where
  "host_name h \<longleftrightarrow> (\<forall>l \<in> set (split_on dot h). label_ok l) \<and>
     \<not> all_digits (last (split_on dot h)) \<and> map to_ascii_lowercase h = h"

lemma target_of_Inr:
  assumes "target_of t = Inr (h, p)"
  shows "\<exists>host digits. t = host @ [0x3a] @ digits \<and> 0x3a \<notin> set digits \<and> all_digits digits \<and>
    digits \<noteq> [] \<and> length digits \<le> 5 \<and> h = map to_ascii_lowercase (strip_or dot host) \<and> host_name h \<and>
    p = of_nat (dec_val digits) \<and> 0 < dec_val digits \<and> dec_val digits \<le> 65535"
proof -
  from assms obtain host digits n where
      hd: "rsplit_once 0x3a t = Some (host, digits)" and dig: "all_digits digits" "digits \<noteq> []" "length digits \<le> 5" and
      n: "parse_unsigned 65535 digits = Some n" "n \<noteq> 0" and
      lab: "\<not> (last (split_on dot (strip_or dot host)) \<noteq> [] \<and>
               all_digits (last (split_on dot (strip_or dot host))))"
        "\<forall>l \<in> set (split_on dot (strip_or dot host)). label_ok l" and
      res: "h = map to_ascii_lowercase (strip_or dot host)" "p = of_nat n"
    by (auto simp: target_of_def rust_simps Let_def split: if_splits option.splits)
  have "last (split_on dot (strip_or dot host)) \<noteq> []"
    using lab(2) last_in_set [OF split_on_not_Nil] by (metis label_ok_def)
  with lab have "host_name h"
    by (auto simp: host_name_def res split_on_lower last_map)
  moreover have "n = dec_val digits"
  proof -
    have "0x2b \<notin> set digits" using dig by (auto simp: all_digits_def ascii_defs)
    then have "\<not> (digits \<noteq> [] \<and> hd digits = 0x2b)" by (cases digits) auto
    with n(1) show ?thesis by (simp add: parse_unsigned_def Let_def split: if_splits)
  qed
  ultimately show ?thesis
    using rsplit_once_Some [OF hd] dig n res parse_unsigned_le [OF n(1)]
    by (intro exI [of _ host] exI [of _ digits]) auto
qed

lemma split_three:
  assumes "split_on c line = [x, y, z]"
  shows "line = x @ [c] @ y @ [c] @ z"
  using join_split_on [of c line] assms by simp

lemma request_line_Inr:
  assumes "request_line line = Inr (h, p)"
  shows "\<exists>target version. line = str ''CONNECT'' @ [0x20] @ target @ [0x20] @ version \<and>
    (version = str ''HTTP/1.1'' \<or> version = str ''HTTP/1.0'') \<and> target_of target = Inr (h, p)"
  using assms
  by (auto simp: request_line_def split: if_splits list.splits dest!: split_three) blast+

lemma split_line_first:
  assumes "split_line buf 0 window over = Inr (line, e)"
  shows "\<exists>eol rest. buf = line @ eol @ rest \<and> (eol = [0x0a] \<or> eol = [0x0d, 0x0a]) \<and>
    e = length (line @ eol)"
proof -
  from assms obtain i where i: "position (\<lambda>b. b = 0x0a) (take (min (length buf) window) buf) = Some i"
      and line: "line = strip_or 0x0d (take i buf)" and e: "e = i + 1"
    by (auto simp: split_line_def Let_def split: option.splits if_splits)
  have lt: "i < length buf" and nl: "buf ! i = 0x0a"
    using position_Some [OF i] by auto
  have buf: "buf = take i buf @ [0x0a] @ drop (Suc i) buf"
    using id_take_nth_drop [OF lt] nl by simp
  have len: "length (take i buf) = i" using lt by simp
  from strip_or_cases [of "0x0d" "take i buf"]
  consider "take i buf = line" | "take i buf = line @ [0x0d]"
    unfolding line by auto
  then show ?thesis
  proof cases
    case 1
    then have "buf = line @ [0x0a] @ drop (Suc i) buf" "i = length line" using buf len by simp_all
    with e show ?thesis by (intro exI [of _ "[0x0a]"] exI [of _ "drop (Suc i) buf"]) simp
  next
    case 2
    then have "buf = line @ [0x0d, 0x0a] @ drop (Suc i) buf" "i = length line + 1"
      using buf len by simp_all
    with e show ?thesis by (intro exI [of _ "[0x0d, 0x0a]"] exI [of _ "drop (Suc i) buf"]) simp
  qed
qed

lemma header_loop_Inr:
  "header_loop buf at n h = Inr (e, hosts) \<Longrightarrow> at < e \<and> e \<le> MAX_HEADERS \<and> e \<le> length buf"
proof (induction buf at n h rule: header_loop.induct)
  case (1 buf at n h)
  from "1.prems" obtain line e' where
      lt: "\<not> MAX_HEADERS \<le> at" and sl: "split_line buf at (MAX_HEADERS - at) BAD_REQUEST = Inr (line, e')"
    by (auto simp: header_loop.simps [of buf at n h] split: if_splits sum.splits)
  note e' = split_line_next [OF sl]
  show ?case
  proof (cases "line = []")
    case True
    with "1.prems" lt sl have "e = e'" by (simp add: header_loop.simps [of buf at n h])
    with e' lt show ?thesis by simp
  next
    case False
    with "1.prems" lt sl obtain hf where
      "field line = Inr hf" "\<not> MAX_HEADER_COUNT < n + 1"
      "header_loop buf e' (n + 1) (if hf then h + 1 else h) = Inr (e, hosts)"
      by (auto simp: header_loop.simps [of buf at n h] split: if_splits sum.splits)
    with "1.IH" [OF lt sl refl False] e' show ?thesis by auto
  qed
qed

section \<open>Properties\<close>

lemma connect_parse_extend:
  assumes "connect_parse buf \<noteq> Inl INCOMPLETE"
  shows "connect_parse (buf @ extra) = connect_parse buf"
proof -
  let ?sl = "split_line buf 0 MAX_REQUEST_LINE URI_TOO_LONG"
  have "?sl \<noteq> Inl INCOMPLETE"
    using assms by (auto simp: connect_parse_def)
  then have sl: "split_line (buf @ extra) 0 MAX_REQUEST_LINE URI_TOO_LONG = ?sl"
    by (rule split_line_extend)
  show ?thesis
  proof (cases "\<exists>line at hp. ?sl = Inr (line, at) \<and> request_line line = Inr hp")
    case False
    then show ?thesis
      unfolding connect_parse_def sl by (cases ?sl) (auto simp: res_bind_def split: sum.splits)
  next
    case True
    then obtain line at hp where ok: "?sl = Inr (line, at)" "request_line line = Inr hp" by blast
    then have "header_loop buf at 0 0 \<noteq> Inl INCOMPLETE"
      using assms by (auto simp: connect_parse_def split: prod.splits)
    with ok show ?thesis
      unfolding connect_parse_def sl by (simp add: header_loop_extend)
  qed
qed

text \<open>The parser's answer is final: once it is anything but "not a whole request yet", more
  bytes change neither an accepted request nor a refusal.  So the answer does not depend on
  how the bytes arrived, and what follows the blank line is tunnel data.\<close>

lemma connect_parse_stable:
  assumes "prefix seen whole" and "connect_parse seen \<noteq> Inl INCOMPLETE"
  shows "connect_parse whole = connect_parse seen"
  using assms connect_parse_extend by (auto simp: prefix_def)

definition demo_connect :: bytes where
  "demo_connect = str ''CONNECT X.:443 HTTP/1.1'' @ crlf @ str ''Host: x'' @ crlf @ crlf"

lemma demo_connect_parse:
  "connect_parse demo_connect =
     Inr \<lparr>req_host = str ''x'', req_port = 443, req_consumed = 36\<rparr>"
proof -
  note bounds = MAX_HEADERS_def MAX_REQUEST_LINE_def MAX_HEADER_COUNT_def crlf_def demo_connect_def
  have "split_line demo_connect 0 MAX_REQUEST_LINE URI_TOO_LONG =
      Inr (str ''CONNECT X.:443 HTTP/1.1'', 25)"
    by (simp add: split_line_alt bounds strip_or_def strip_suffix_def)
  moreover have "request_line (str ''CONNECT X.:443 HTTP/1.1'') = Inr (str ''x'', 443)"
    by (simp add: request_line_def target_of_def visible_def MAX_TARGET_def utf8_valid_ascii
        parse_unsigned_def dec_val_def digit_val_def all_digits_def strip_or_def strip_suffix_def
        label_ok_def MAX_LABEL_def to_ascii_lowercase_def ascii_defs)
  moreover have "split_line demo_connect 25 (MAX_HEADERS - 25) BAD_REQUEST = Inr (str ''Host: x'', 34)"
    by (simp add: split_line_alt bounds strip_or_def strip_suffix_def)
  moreover have "split_line demo_connect 34 (MAX_HEADERS - 34) BAD_REQUEST = Inr ([], 36)"
    by (simp add: split_line_alt bounds strip_or_def strip_suffix_def)
  moreover have "field (str ''Host: x'') = Inr True"
    by (simp add: field_def is_token_def eq_ignore_ascii_case_def to_ascii_lowercase_def ascii_defs)
  ultimately show ?thesis
    by (simp add: connect_parse_def header_loop.simps [of _ 25] header_loop.simps [of _ 34]
        MAX_HEADERS_def MAX_HEADER_COUNT_def)
qed

lemma split_line_incomplete:
  "split_line buf from window over = Inl INCOMPLETE \<Longrightarrow> over \<noteq> INCOMPLETE \<Longrightarrow>
     length buf \<le> from + window"
  by (auto simp: split_line_def Let_def split: option.splits if_splits)

end
