(* ===== verification/Net_Dns.thy ===== *)
theory Net_Dns
  imports Net_Allow
begin

text \<open>
  The proxy's DNS client (\<^verbatim>\<open>crates/bubbler-net-proxy/src/dns.rs\<close>): the cursor over one
  message, name decompression, records, the \<open>CNAME\<close> chain, the question and the checks an
  answer must pass, and the loop over resolvers and retries.  The sockets, the clock and the
  kernel's random bytes are parameters (\<open>Attempt\<close>): an attempt says what each transport
  answers to the bytes it is sent.  Shown: an encoded name is read back as its canonical
  form from any position of a message; the cursor never leaves the message; every address
  returned is owned by a name that the answer's own \<open>CNAME\<close>s reach from the name asked for.
\<close>

datatype IpAddr = V4 byte byte byte byte | V6 bytes

type_synonym SocketAddr = "IpAddr \<times> u16"

definition DNS_PORT :: u16 where
  "DNS_PORT = 53"

definition DNS_TIMEOUT :: duration where
  "DNS_TIMEOUT = 2 * 10 ^ 9"

definition TRIES :: nat where
  "TRIES = 3"

definition BUDGET :: duration where
  "BUDGET = 10 * 10 ^ 9"

definition MAX_UDP :: nat where
  "MAX_UDP = 4096"

definition MAX_TCP :: nat where
  "MAX_TCP = 8192"

definition DNS_MAX_NAME :: nat where
  "DNS_MAX_NAME = 255"

definition DNS_MAX_LABEL :: nat where
  "DNS_MAX_LABEL = 63"

definition MAX_JUMPS :: nat where
  "MAX_JUMPS = 16"

definition MAX_RECORDS :: nat where
  "MAX_RECORDS = 32"

definition MAX_CNAMES :: nat where
  "MAX_CNAMES = 8"

definition TYPE_A :: u16 where
  "TYPE_A = 1"

definition TYPE_CNAME :: u16 where
  "TYPE_CNAME = 5"

definition TYPE_AAAA :: u16 where
  "TYPE_AAAA = 28"

definition CLASS_IN :: u16 where
  "CLASS_IN = 1"

datatype DnsError = Short | Name | Pointer | LabelType | NotAnAnswer | Question | Class

text \<open>The \<open>io::Error\<close>s of the client, one constructor per message of the source; \<open>Io\<close> is an
  error of the kernel.\<close>

datatype DnsFail =
    NoServer | NoAnswer | OverBudget | Unread DnsError | OtherId | OtherQuestion | Rcode byte
  | NameLength | LabelLength | QuestionLength | AnswerLength | Io

datatype Data = DataV4 IpAddr | DataV6 IpAddr | Cname bytes | Other

record Record =
  rec_name :: bytes
  rec_data :: Data

record Reply =
  reply_id :: u16
  truncated :: bool
  rcode :: byte
  reply_question :: "bytes \<times> u16"
  addresses :: "IpAddr list"

section \<open>The cursor\<close>

text \<open>A \<open>Reader\<close> is the message and an offset; a read returns the value and the next offset.\<close>

definition rd_u8 :: "bytes \<Rightarrow> nat \<Rightarrow> DnsError + (byte \<times> nat)" where
  "rd_u8 msg at = res_bind (ok_or Short (get_at msg at)) (\<lambda>b. Inr (b, at + 1))"

definition rd_u16 :: "bytes \<Rightarrow> nat \<Rightarrow> DnsError + (u16 \<times> nat)" where
  "rd_u16 msg at =
     res_bind (rd_u8 msg at) (\<lambda>(a, at). res_bind (rd_u8 msg at) (\<lambda>(b, at). Inr (be_u16 a b, at)))"

definition rd_u32 :: "bytes \<Rightarrow> nat \<Rightarrow> DnsError + (u32 \<times> nat)" where
  "rd_u32 msg at =
     res_bind (rd_u8 msg at) (\<lambda>(a, at). res_bind (rd_u8 msg at) (\<lambda>(b, at).
     res_bind (rd_u8 msg at) (\<lambda>(c, at). res_bind (rd_u8 msg at) (\<lambda>(d, at).
       Inr (be_u32 a b c d, at)))))"

definition rd_seek :: "bytes \<Rightarrow> nat \<Rightarrow> DnsError + nat" where
  "rd_seek msg to = (if to > length msg then Inl Short else Inr to)"

text \<open>\<open>char::from(u8)\<close> pushed on a \<open>String\<close>: the UTF-8 form of the code point below 256.\<close>

definition char_from :: "byte \<Rightarrow> bytes" where
  "char_from b = (if b < 0x80 then [b] else [0xc0 OR drop_bit 6 b, 0x80 OR (b AND 0x3f)])"

definition push_label :: "bytes \<Rightarrow> bytes \<Rightarrow> bytes" where
  "push_label out label =
     (if out = [] then out else out @ [dot]) @ concat (map (\<lambda>b. char_from (to_ascii_lowercase b)) label)"

text \<open>\<open>Reader::name\<close>'s loop: the read position, the pointers followed, where the caller
  continues, and the name so far.\<close>

function rd_name_loop ::
  "bytes \<Rightarrow> nat \<Rightarrow> nat \<Rightarrow> nat option \<Rightarrow> bytes \<Rightarrow> DnsError + (bytes \<times> nat)" where
  "rd_name_loop msg at jumps end_at out =
     (case get_at msg at of
        None \<Rightarrow> Inl Short
      | Some len \<Rightarrow>
          if len AND 0xc0 = 0x00 then
            (if unat len = 0 then
               Inr (out, case end_at of Some e \<Rightarrow> e | None \<Rightarrow> at + 1)
             else case get_range msg (at + 1) (at + 1 + unat len) of
               None \<Rightarrow> Inl Short
             | Some label \<Rightarrow>
                 if length out + unat len + 1 > DNS_MAX_NAME then Inl Name
                 else rd_name_loop msg (at + 1 + unat len) jumps end_at (push_label out label))
          else if len AND 0xc0 = 0xc0 then
            (case get_at msg (at + 1) of
               None \<Rightarrow> Inl Short
             | Some lo \<Rightarrow>
                 let to = unat (len AND 0x3f) * 256 + unat lo;
                     end' = (case end_at of Some e \<Rightarrow> Some e | None \<Rightarrow> Some (at + 2))
                 in if to \<ge> at then Inl Pointer
                    else if jumps + 1 > MAX_JUMPS then Inl Pointer
                    else rd_name_loop msg to (jumps + 1) end' out)
          else Inl LabelType)"
  by pat_completeness auto
termination
proof (relation "measures [\<lambda>(msg, at, jumps, e, out). MAX_JUMPS + 1 - jumps,
    \<lambda>(msg, at, jumps, e, out). length msg - at]", goal_cases)
  case 1
  show ?case by simp
next
  case (2 msg at jumps end_at out x2 x2a)
  then show ?case by (auto simp: rust_simps)
next
  case (3 msg at jumps end_at out x2 x2a x xa)
  then show ?case by auto
qed

declare rd_name_loop.simps [simp del]

definition rd_name :: "bytes \<Rightarrow> nat \<Rightarrow> DnsError + (bytes \<times> nat)" where
  "rd_name msg at = rd_name_loop msg at 0 None []"

definition rd_data :: "bytes \<Rightarrow> u16 \<Rightarrow> u16 \<Rightarrow> nat \<Rightarrow> nat \<Rightarrow> DnsError + Data" where
  "rd_data msg cls rtype from len =
     (let b = take len (drop from msg) in
      if cls = CLASS_IN \<and> rtype = TYPE_A \<and> len = 4 then
        Inr (DataV4 (V4 (b ! 0) (b ! 1) (b ! 2) (b ! 3)))
      else if cls = CLASS_IN \<and> rtype = TYPE_AAAA \<and> len = 16 then Inr (DataV6 (V6 b))
      else if cls = CLASS_IN \<and> rtype = TYPE_CNAME then
        res_bind (rd_name msg from) (\<lambda>(to, _). Inr (Cname to))
      else Inr Other)"

definition rd_record :: "bytes \<Rightarrow> nat \<Rightarrow> DnsError + (Record \<times> nat)" where
  "rd_record msg at =
     res_bind (rd_name msg at) (\<lambda>(name, at).
     res_bind (rd_u16 msg at) (\<lambda>(rtype, at).
     res_bind (rd_u16 msg at) (\<lambda>(cls, at).
     res_bind (rd_u32 msg at) (\<lambda>(_, at).
     res_bind (rd_u16 msg at) (\<lambda>(len, from).
     res_bind (ok_or Short (checked_add from (unat len))) (\<lambda>e.
       if e > length msg then Inl Short
       else res_bind (rd_data msg cls rtype from (unat len)) (\<lambda>data.
         res_bind (rd_seek msg e) (\<lambda>at.
           Inr (\<lparr>rec_name = name, rec_data = data\<rparr>, at)))))))))"

fun rd_records :: "nat \<Rightarrow> bytes \<Rightarrow> nat \<Rightarrow> DnsError + Record list" where
  "rd_records 0 msg at = Inr []"
| "rd_records (Suc n) msg at =
     res_bind (rd_record msg at) (\<lambda>(r, at). res_bind (rd_records n msg at) (\<lambda>rs. Inr (r # rs)))"

section \<open>The answer\<close>

text \<open>The inner loop of \<open>chain\<close> over the records, then its hops.\<close>

fun chain_pass :: "bytes \<Rightarrow> Record list \<Rightarrow> IpAddr list \<Rightarrow> bytes option \<Rightarrow> IpAddr list \<times> bytes option" where
  "chain_pass target [] out nxt = (out, nxt)"
| "chain_pass target (r # rs) out nxt =
     (if rec_name r \<noteq> target then chain_pass target rs out nxt
      else case rec_data r of
             DataV4 a \<Rightarrow> chain_pass target rs (out @ [a]) nxt
           | DataV6 a \<Rightarrow> chain_pass target rs (out @ [a]) nxt
           | Cname to \<Rightarrow> chain_pass target rs out (if nxt = None then Some to else nxt)
           | Other \<Rightarrow> chain_pass target rs out nxt)"

fun chain_hops :: "nat \<Rightarrow> bytes \<Rightarrow> Record list \<Rightarrow> IpAddr list" where
  "chain_hops 0 target records = []"
| "chain_hops (Suc n) target records =
     (let (out, nxt) = chain_pass target records [] None in
      if out \<noteq> [] then out
      else case nxt of None \<Rightarrow> out | Some to \<Rightarrow> chain_hops n to records)"

definition chain :: "bytes \<Rightarrow> Record list \<Rightarrow> IpAddr list" where
  "chain name records = chain_hops MAX_CNAMES name records"

definition as_u16 :: "nat \<Rightarrow> u16" where
  "as_u16 n = (if n \<le> 65535 then of_nat n else 65535)"

definition dns_parse :: "bytes \<Rightarrow> DnsError + Reply" where
  "dns_parse msg =
     res_bind (rd_u16 msg 0) (\<lambda>(qid, at).
     res_bind (rd_u16 msg at) (\<lambda>(flags, at).
     res_bind (rd_u16 msg at) (\<lambda>(questions, at).
     res_bind (rd_u16 msg at) (\<lambda>(answers, at).
     res_bind (rd_u16 msg at) (\<lambda>(_, at).
     res_bind (rd_u16 msg at) (\<lambda>(_, at).
       if flags AND 0x8000 = 0 then Inl NotAnAnswer
       else if questions \<noteq> 1 then Inl Question
       else
     res_bind (rd_name msg at) (\<lambda>(name, at).
     res_bind (rd_u16 msg at) (\<lambda>(qtype, at).
     res_bind (rd_u16 msg at) (\<lambda>(cls, at).
       if cls \<noteq> CLASS_IN then Inl Class
       else
     res_bind (rd_records (unat (min answers (as_u16 MAX_RECORDS))) msg at) (\<lambda>records.
       Inr \<lparr>reply_id = qid, truncated = (flags AND 0x0200 \<noteq> 0), rcode = ucast (flags AND 0x000f),
            reply_question = (name, qtype), addresses = chain name records\<rparr>))))))))))"

definition checked :: "bytes \<Rightarrow> u16 \<Rightarrow> bytes \<Rightarrow> u16 \<Rightarrow> DnsFail + Reply" where
  "checked msg qid name qtype =
     (case dns_parse msg of
        Inl e \<Rightarrow> Inl (Unread e)
      | Inr reply \<Rightarrow>
          if reply_id reply \<noteq> qid then Inl OtherId
          else if reply_question reply \<noteq> (map to_ascii_lowercase (strip_or dot name), qtype)
          then Inl OtherQuestion
          else if rcode reply = 0 \<or> rcode reply = 3 then Inr reply
          else Inl (Rcode (rcode reply)))"

section \<open>The question\<close>

fun encode_labels :: "bytes list \<Rightarrow> DnsFail + bytes" where
  "encode_labels [] = Inr [0]"
| "encode_labels (l # ls) =
     (if length l > 0 \<and> length l \<le> DNS_MAX_LABEL
      then res_bind (encode_labels ls) (\<lambda>out. Inr (of_nat (length l) # l @ out))
      else Inl LabelLength)"

definition encode_name :: "bytes \<Rightarrow> DnsFail + bytes" where
  "encode_name name =
     (let n = strip_or dot name in
      if n = [] \<or> length n > DNS_MAX_NAME then Inl NameLength
      else encode_labels (split_on dot n))"

definition question :: "bytes \<Rightarrow> u16 \<Rightarrow> u16 \<Rightarrow> DnsFail + bytes" where
  "question name qtype qid =
     res_bind (encode_name name) (\<lambda>n.
       Inr (u16_be qid @ u16_be 0x0100 @ u16_be 1 @ [0, 0, 0, 0, 0, 0] @ n @ u16_be qtype @
            u16_be CLASS_IN))"

text \<open>\<open>query_id\<close>: \<open>draw k\<close> is what the \<open>k\<close>-th \<open>getrandom\<close> filled, if it filled anything.\<close>

definition fallback_id :: "u32 \<Rightarrow> u16" where
  "fallback_id nanos = ucast (nanos AND 0xffff)"

function query_fill :: "(nat \<Rightarrow> bytes option) \<Rightarrow> u32 \<Rightarrow> nat \<Rightarrow> bytes \<Rightarrow> u16" where
  "query_fill draw nanos k got =
     (if length got < 2 then
        (case draw k of
           Some bs \<Rightarrow> if bs \<noteq> [] then query_fill draw nanos (k + 1) (got @ take (2 - length got) bs)
                      else fallback_id nanos
         | None \<Rightarrow> fallback_id nanos)
      else be_u16 (got ! 0) (got ! 1))"
  by pat_completeness auto
termination
  by (relation "measure (\<lambda>(draw, nanos, k, got). 2 - length got)") (auto simp: min_def simp flip: length_greater_0_conv)

declare query_fill.simps [simp del]

definition query_id :: "(nat \<Rightarrow> bytes option) \<Rightarrow> u32 \<Rightarrow> u16" where
  "query_id draw nanos = query_fill draw nanos 0 []"

section \<open>Asking\<close>

text \<open>One attempt's environment: the clock before it, the random bytes and clock of its id, and
  what each transport answers.  A datagram longer than the buffer is cut by \<open>recv\<close>; the
  TCP answer is the peer's byte stream up to its end.\<close>

record Attempt =
  at_now :: instant
  at_draw :: "nat \<Rightarrow> bytes option"
  at_nanos :: u32
  at_udp :: "SocketAddr \<Rightarrow> bytes \<Rightarrow> bytes option"
  at_tcp :: "SocketAddr \<Rightarrow> bytes \<Rightarrow> bytes option"

definition over_udp :: "Attempt \<Rightarrow> SocketAddr \<Rightarrow> bytes \<Rightarrow> DnsFail + bytes" where
  "over_udp a server q = (case at_udp a server q of None \<Rightarrow> Inl Io | Some d \<Rightarrow> Inr (take MAX_UDP d))"

definition over_tcp :: "Attempt \<Rightarrow> SocketAddr \<Rightarrow> bytes \<Rightarrow> DnsFail + bytes" where
  "over_tcp a server q =
     (if length q > 65535 then Inl QuestionLength
      else case at_tcp a server (u16_be (of_nat (length q)) @ q) of
             None \<Rightarrow> Inl Io
           | Some stream \<Rightarrow>
               (case stream of
                  h # l # rest \<Rightarrow>
                    let len = unat (be_u16 h l) in
                    if len > MAX_TCP then Inl AnswerLength
                    else if length rest < len then Inl Io
                    else Inr (take len rest)
                | _ \<Rightarrow> Inl Io))"

definition once :: "Attempt \<Rightarrow> bytes \<Rightarrow> u16 \<Rightarrow> SocketAddr \<Rightarrow> DnsFail + Reply" where
  "once a name qtype server =
     (let qid = query_id (at_draw a) (at_nanos a) in
      res_bind (question name qtype qid) (\<lambda>q.
      res_bind (over_udp a server q) (\<lambda>m.
      res_bind (checked m qid name qtype) (\<lambda>reply.
        if \<not> truncated reply then Inr reply
        else res_bind (over_tcp a server q) (\<lambda>m. checked m qid name qtype)))))"

text \<open>\<open>ask\<close>'s two loops, over the servers repeated \<open>TRIES\<close> times each; \<open>k\<close> numbers the attempts
  of the whole resolution.\<close>

fun ask_loop :: "(nat \<Rightarrow> Attempt) \<Rightarrow> bytes \<Rightarrow> u16 \<Rightarrow> SocketAddr list \<Rightarrow> instant \<Rightarrow> DnsFail \<Rightarrow> nat \<Rightarrow>
    (DnsFail + IpAddr list) \<times> nat" where
  "ask_loop env name qtype [] deadline lasterr k = (Inl lasterr, k)"
| "ask_loop env name qtype (server # rest) deadline lasterr k =
     (if at_now (env k) \<ge> deadline then (Inl OverBudget, k)
      else case once (env k) name qtype server of
             Inr reply \<Rightarrow> (Inr (addresses reply), k + 1)
           | Inl err \<Rightarrow> ask_loop env name qtype rest deadline err (k + 1))"

definition ask :: "(nat \<Rightarrow> Attempt) \<Rightarrow> bytes \<Rightarrow> u16 \<Rightarrow> SocketAddr list \<Rightarrow> instant \<Rightarrow> nat \<Rightarrow>
    (DnsFail + IpAddr list) \<times> nat" where
  "ask env name qtype servers deadline k =
     ask_loop env name qtype (concat (map (replicate TRIES) servers)) deadline NoAnswer k"

definition resolve_at :: "(nat \<Rightarrow> Attempt) \<Rightarrow> instant \<Rightarrow> bytes \<Rightarrow> u16 \<Rightarrow> SocketAddr list \<Rightarrow>
    DnsFail + SocketAddr list" where
  "resolve_at env now name port servers =
     (if servers = [] then Inl NoServer
      else let deadline = now + BUDGET;
               (ra, k) = ask env name TYPE_A servers deadline 0;
               (rb, k') = ask env name TYPE_AAAA servers deadline k;
               found = (case ra of Inr as \<Rightarrow> as | Inl _ \<Rightarrow> []) @ (case rb of Inr as \<Rightarrow> as | Inl _ \<Rightarrow> [])
           in case (ra, rb) of
                (Inl ea, Inl eb) \<Rightarrow> Inl eb
              | _ \<Rightarrow> Inr (map (\<lambda>ip. (ip, port)) found))"

definition resolve :: "(nat \<Rightarrow> Attempt) \<Rightarrow> instant \<Rightarrow> bytes \<Rightarrow> u16 \<Rightarrow> IpAddr list \<Rightarrow>
    DnsFail + SocketAddr list" where
  "resolve env now name port servers = resolve_at env now name port (map (\<lambda>ip. (ip, DNS_PORT)) servers)"

section \<open>The cursor stays in the message\<close>

lemma rd_u8_Inr: "rd_u8 msg at = Inr (b, e) \<longleftrightarrow> at < length msg \<and> b = msg ! at \<and> e = at + 1"
  by (auto simp: rd_u8_def rust_simps)

lemma rd_u16_bound: "rd_u16 msg at = Inr (w, e) \<Longrightarrow> e = at + 2 \<and> e \<le> length msg"
  by (auto simp: rd_u16_def rust_simps rd_u8_Inr)

lemma rd_u32_bound: "rd_u32 msg at = Inr (w, e) \<Longrightarrow> e = at + 4 \<and> e \<le> length msg"
  by (auto simp: rd_u32_def rust_simps rd_u8_Inr)

lemma length_char_from: "0 < length (char_from b) \<and> length (char_from b) \<le> 2"
  by (simp add: char_from_def)

lemma length_push_label: "length (push_label out l) \<le> length out + 1 + 2 * length l"
proof -
  have "length (concat (map (\<lambda>b. char_from (to_ascii_lowercase b)) l)) \<le> 2 * length l"
    using length_char_from by (induction l) (auto intro!: add_le_mono [of _ 2, simplified])
  then show ?thesis by (simp add: push_label_def)
qed

lemma low_len: "(len :: byte) AND 0xc0 = 0 \<Longrightarrow> unat len \<le> 63"
proof -
  assume z: "len AND 0xc0 = 0"
  have "len = len AND 0x3f"
  proof (rule bit_word_eqI)
    fix n assume "n < LENGTH(8)"
    then have "n = 0 \<or> n = 1 \<or> n = 2 \<or> n = 3 \<or> n = 4 \<or> n = 5 \<or> n = 6 \<or> n = 7" by auto
    then show "bit len n = bit (len AND 0x3f) n"
      using arg_cong [OF z, of "\<lambda>w. bit w 6"] arg_cong [OF z, of "\<lambda>w. bit w 7"]
      by (auto simp: bit_simps)
  qed
  also have "\<dots> \<le> 0x3f" by (rule word_and_le1)
  finally show ?thesis by (simp add: word_le_nat_alt)
qed

lemma rd_name_loop_bound:
  assumes "rd_name_loop msg at jumps end_at out = Inr (name, e)"
    and "length out \<le> DNS_MAX_NAME + DNS_MAX_LABEL"
  shows "length name \<le> DNS_MAX_NAME + DNS_MAX_LABEL \<and>
    (case end_at of Some x \<Rightarrow> e = x | None \<Rightarrow> at < e \<and> e \<le> length msg)"
  using assms
proof (induction msg at jumps end_at out rule: rd_name_loop.induct)
  case (1 msg at jumps end_at out)
  note step = rd_name_loop.simps [of msg at jumps end_at out]
  from "1.prems" obtain len where len: "get_at msg at = Some len"
    by (auto simp: step split: option.splits)
  show ?case
  proof (cases "len AND 0xc0 = 0")
    case low: True
    show ?thesis
    proof (cases "unat len = 0")
      case True
      with "1.prems" len low show ?thesis
        by (auto simp: step rust_simps split: option.splits)
    next
      case False
      with "1.prems" len low obtain label where
          l: "get_range msg (at + 1) (at + 1 + unat len) = Some label"
          "\<not> DNS_MAX_NAME < length out + unat len + 1"
          "rd_name_loop msg (at + 1 + unat len) jumps end_at (push_label out label) = Inr (name, e)"
        by (auto simp: step split: option.splits if_splits)
      have "length label = unat len" using get_range_length [OF l(1)] by simp
      with l(2) low_len [OF low] length_push_label [of out label]
      have "length (push_label out label) \<le> DNS_MAX_NAME + DNS_MAX_LABEL"
        by (simp add: DNS_MAX_LABEL_def)
      from "1.IH"(1) [OF len low False l(1,2,3) this] show ?thesis
        by (auto split: option.splits)
    qed
  next
    case high: False
    with "1.prems" len obtain lo where
        lo: "len AND 0xc0 = 0xc0" "get_at msg (at + 1) = Some lo"
        "\<not> unat (len AND 0x3f) * 256 + unat lo \<ge> at" "\<not> MAX_JUMPS < jumps + 1"
        "rd_name_loop msg (unat (len AND 0x3f) * 256 + unat lo) (jumps + 1)
           (case end_at of Some e \<Rightarrow> Some e | None \<Rightarrow> Some (at + 2)) out = Inr (name, e)"
      by (auto simp: step Let_def split: option.splits if_splits)
    from "1.IH"(2) [OF len high lo(1,2) refl refl lo(3,4,5) "1.prems"(2)] lo(2) show ?thesis
      by (auto simp: rust_simps split: option.splits)
  qed
qed

lemma rd_name_bound:
  "rd_name msg at = Inr (name, e) \<Longrightarrow>
     length name \<le> DNS_MAX_NAME + DNS_MAX_LABEL \<and> at < e \<and> e \<le> length msg"
  using rd_name_loop_bound [of msg at 0 None "[]"] by (simp add: rd_name_def)

lemma rd_record_bound: "rd_record msg at = Inr (r, e) \<Longrightarrow> at < e \<and> e \<le> length msg"
  by (auto simp: rd_record_def rust_simps rd_seek_def split: if_splits
      dest!: rd_name_bound rd_u16_bound rd_u32_bound)

lemma rd_records_length: "rd_records n msg at = Inr rs \<Longrightarrow> length rs = n"
  by (induction n arbitrary: at rs) (auto simp: rust_simps)

section \<open>Names on the wire\<close>

lemma lowercase_ascii: "b < 0x80 \<Longrightarrow> to_ascii_lowercase b < 0x80"
  using unat_lowercase [of b] by (auto simp: to_ascii_lowercase_def is_ascii_upper_unat word_less_nat_alt)

lemma push_label_ascii:
  "\<forall>b \<in> set l. b < 0x80 \<Longrightarrow>
     push_label out l = (if out = [] then [] else out @ [dot]) @ map to_ascii_lowercase l"
  by (induction l) (auto simp: push_label_def char_from_def lowercase_ascii)

lemma foldl_push_label:
  assumes "\<forall>l \<in> set ls. l \<noteq> [] \<and> (\<forall>b \<in> set l. b < 0x80)"
  shows "foldl push_label out ls =
    (if ls = [] then out
     else (if out = [] then [] else out @ [dot]) @ map to_ascii_lowercase (join [dot] ls))"
  using assms
proof (induction ls arbitrary: out)
  case Nil
  then show ?case by simp
next
  case (Cons l ls)
  then have "push_label out l \<noteq> []" by (simp add: push_label_ascii)
  moreover have "foldl push_label (push_label out l) ls =
      (if ls = [] then push_label out l
       else (if push_label out l = [] then [] else push_label out l @ [dot]) @
         map to_ascii_lowercase (join [dot] ls))"
    by (rule Cons.IH) (use Cons.prems in simp)
  ultimately show ?case
    using Cons.prems by (cases ls) (simp_all add: push_label_ascii lowercase_dot [THEN iffD2])
qed

lemma foldl_push_label_mono: "length out \<le> length (foldl push_label out ls)"
proof (induction ls arbitrary: out)
  case (Cons l ls)
  have "length out \<le> length (push_label out l)" by (simp add: push_label_def)
  with Cons.IH [of "push_label out l"] show ?case by simp
qed simp

lemma label_len_byte:
  "n \<le> 63 \<Longrightarrow> unat (of_nat n :: byte) = n \<and> (of_nat n :: byte) AND 0xc0 = 0"
proof -
  assume n: "n \<le> 63"
  have "(of_nat n :: byte) AND 0xc0 = 0"
  proof (rule bit_word_eqI)
    fix k assume "k < LENGTH(8)"
    have "n < 2 ^ 6" using n by simp
    then have "\<not> bit n 6" "\<not> bit n 7"
      by (simp_all add: bit_iff_odd)
    moreover have "bit (0xc0 :: byte) k \<Longrightarrow> k = 6 \<or> k = 7"
      using \<open>k < LENGTH(8)\<close> by (auto simp: numeral_eq_Suc less_Suc_eq)
    ultimately show "bit ((of_nat n :: byte) AND 0xc0) k = bit (0 :: byte) k"
      by (auto simp: bit_simps)
  qed
  with n show ?thesis by (simp add: unat_of_nat)
qed

lemma rd_name_loop_labels:
  assumes "encode_labels ls = Inr enc"
    and "\<forall>l \<in> set ls. \<forall>b \<in> set l. b < 0x80"
    and "length (foldl push_label out ls) \<le> DNS_MAX_NAME"
  shows "rd_name_loop (pre @ enc @ post) (length pre) jumps end_at out =
    Inr (foldl push_label out ls, case end_at of Some e \<Rightarrow> e | None \<Rightarrow> length pre + length enc)"
  using assms
proof (induction ls arbitrary: pre enc out)
  case Nil
  then have "enc = [0]" by simp
  then show ?case
    by (simp add: rd_name_loop.simps [of _ "length pre"] get_at_def split: option.splits)
next
  case (Cons l ls)
  from Cons.prems(1) obtain rest where
      l: "0 < length l" "length l \<le> 63" and
      rest: "encode_labels ls = Inr rest" and enc: "enc = of_nat (length l) # l @ rest"
    by (auto simp: rust_simps DNS_MAX_LABEL_def split: if_splits)
  let ?msg = "pre @ enc @ post"
  let ?pre = "pre @ of_nat (length l) # l"
  have at: "get_at ?msg (length pre) = Some (of_nat (length l))"
    by (simp add: get_at_def enc)
  have range: "get_range ?msg (length pre + 1) (length pre + 1 + length l) = Some l"
    by (simp add: get_range_def enc)
  have "length (push_label out l) \<le> length (foldl push_label out (l # ls))"
    by (simp add: foldl_push_label_mono)
  then have room: "length out + length l + 1 \<le> DNS_MAX_NAME"
    using Cons.prems(2,3) l by (cases "out = []") (auto simp: push_label_ascii DNS_MAX_NAME_def)
  have "rd_name_loop ?msg (length pre) jumps end_at out =
      rd_name_loop (?pre @ rest @ post) (length ?pre) jumps end_at (push_label out l)"
    using label_len_byte [OF l(2)] at range room l(1)
    by (simp add: rd_name_loop.simps [of ?msg "length pre"]) (simp add: enc)
  with Cons.IH [OF rest, of "push_label out l" ?pre] Cons.prems show ?case
    by (simp add: enc split: option.splits)
qed

lemma encode_labels_nonempty: "encode_labels ls = Inr enc \<Longrightarrow> \<forall>l \<in> set ls. l \<noteq> []"
  by (induction ls arbitrary: enc) (auto simp: rust_simps split: if_splits)

lemma split_on_sub: "p \<in> set (split_on c xs) \<Longrightarrow> set p \<subseteq> set xs"
proof (induction xs arbitrary: p)
  case (Cons x xs)
  then show ?case by (cases "split_on c xs") (fastforce split: if_splits)+
qed simp

lemma strip_or_sub: "set (strip_or c xs) \<subseteq> set xs"
  by (auto simp: strip_or_def strip_suffix_def dest: in_set_butlastD)

section \<open>The chain\<close>

definition cname_step :: "Record list \<Rightarrow> (bytes \<times> bytes) set" where
  "cname_step records = {(rec_name r, to) | r to. r \<in> set records \<and> rec_data r = Cname to}"

fun data_address :: "Data \<Rightarrow> IpAddr list" where
  "data_address (DataV4 a) = [a]"
| "data_address (DataV6 a) = [a]"
| "data_address _ = []"

definition owned :: "bytes \<Rightarrow> Record list \<Rightarrow> IpAddr list" where
  "owned owner records =
     concat (map (\<lambda>r. data_address (rec_data r)) (filter (\<lambda>r. rec_name r = owner) records))"

lemma chain_pass_out: "fst (chain_pass target rs out nxt) = out @ owned target rs"
  by (induction target rs out nxt rule: chain_pass.induct)
    (auto simp: owned_def split: Data.splits)

lemma chain_pass_nxt:
  "snd (chain_pass target rs out nxt) = Some to \<Longrightarrow>
     nxt = Some to \<or> (target, to) \<in> cname_step rs"
  by (induction target rs out nxt rule: chain_pass.induct)
    (auto simp: cname_step_def split: Data.splits if_splits)

lemma chain_hops_sound:
  "chain_hops n target rs = [] \<or>
   (\<exists>owner m. m < n \<and> (target, owner) \<in> cname_step rs ^^ m \<and> chain_hops n target rs = owned owner rs)"
proof (induction n arbitrary: target)
  case 0
  then show ?case by simp
next
  case (Suc n)
  obtain nxt where pass: "chain_pass target rs [] None = (owned target rs, nxt)"
    using chain_pass_out [of target rs "[]" None] by (cases "chain_pass target rs [] None") simp
  show ?case
  proof (cases "owned target rs = [] \<and> nxt \<noteq> None")
    case False
    then have "chain_hops (Suc n) target rs = owned target rs"
      by (auto simp: pass split: option.splits)
    then show ?thesis by (intro disjI2 exI [of _ target] exI [of _ 0]) simp
  next
    case True
    then obtain to where to: "nxt = Some to" by auto
    then have step: "(target, to) \<in> cname_step rs"
      using chain_pass_nxt [of target rs "[]" None to] pass by simp
    have eq: "chain_hops (Suc n) target rs = chain_hops n to rs"
      using True to by (simp add: pass)
    from Suc.IH [of to] show ?thesis
      unfolding eq using step by (blast intro: relpow_Suc_I2)
  qed
qed

section \<open>Properties\<close>

text \<open>A name written by the client is read back from any place in a message as its canonical
  form (lower case, no root dot), and the cursor ends just behind it: the echoed question
  of an honest answer always compares equal.\<close>

lemma dns_name_roundtrip:
  assumes "encode_name name = Inr enc" and "\<forall>b \<in> set name. b < 0x80"
  shows "rd_name (pre @ enc @ post) (length pre) =
    Inr (map to_ascii_lowercase (strip_or dot name), length pre + length enc)"
proof -
  let ?n = "strip_or dot name"
  let ?ls = "split_on dot ?n"
  from assms(1) have len: "length ?n \<le> DNS_MAX_NAME" and enc: "encode_labels ?ls = Inr enc"
    by (auto simp: encode_name_def Let_def split: if_splits)
  have ascii: "\<forall>l \<in> set ?ls. \<forall>b \<in> set l. b < 0x80"
    using assms(2) split_on_sub strip_or_sub by fastforce
  with encode_labels_nonempty [OF enc]
  have "foldl push_label [] ?ls = map to_ascii_lowercase ?n"
    by (simp add: foldl_push_label join_split_on)
  with rd_name_loop_labels [OF enc ascii, of "[]" pre post 0 None] len show ?thesis
    by (simp add: rd_name_def)
qed

lemma dns_parse_Inr:
  assumes "dns_parse msg = Inr reply"
  shows "\<exists>records at. length records \<le> MAX_RECORDS \<and> 12 < at \<and>
    rd_records (length records) msg at = Inr records \<and>
    addresses reply = chain (fst (reply_question reply)) records"
proof -
  from assms obtain qid at1 flags at2 at3 answers at4 auth at5 additional at name at6 qtype at7 cls
      at8 records where
      hdr: "rd_u16 msg 0 = Inr (qid, at1)" "rd_u16 msg at1 = Inr (flags, at2)"
        "rd_u16 msg at2 = Inr (1, at3)" "rd_u16 msg at3 = Inr (answers, at4)"
        "rd_u16 msg at4 = Inr (auth, at5)" "rd_u16 msg at5 = Inr (additional, at)" and
      qn: "rd_name msg at = Inr (name, at6)" and
      qt: "rd_u16 msg at6 = Inr (qtype, at7)" "rd_u16 msg at7 = Inr (cls, at8)" and
      recs: "rd_records (unat (min answers (as_u16 MAX_RECORDS))) msg at8 = Inr records" and
      q: "reply_question reply = (name, qtype)" and a: "addresses reply = chain name records"
    by (auto simp: dns_parse_def rust_simps split: if_splits)
  have "12 < at8"
    using hdr [THEN rd_u16_bound] qt [THEN rd_u16_bound] rd_name_bound [OF qn] by linarith
  have "unat (min answers (as_u16 MAX_RECORDS)) \<le> MAX_RECORDS"
    by (simp add: as_u16_def MAX_RECORDS_def min_def word_le_nat_alt)
  with \<open>12 < at8\<close> rd_records_length [OF recs] recs q a show ?thesis
    by (intro exI [of _ records] exI [of _ at8]) auto
qed

text \<open>C9. What an accepted answer is: it carries the id and echoes the question that was asked,
  its code is "answer" or "no such name", and its addresses are exactly those of one owner
  in the answer section that the section's own \<open>CNAME\<close> records reach, in fewer than eight
  hops, from the name asked for.  An address under any other name is never returned.\<close>

theorem checked_answer_sound:
  assumes "checked msg qid name qtype = Inr reply"
  shows "reply_id reply = qid \<and>
    reply_question reply = (map to_ascii_lowercase (strip_or dot name), qtype) \<and>
    (rcode reply = 0 \<or> rcode reply = 3) \<and>
    (\<exists>records at. length records \<le> MAX_RECORDS \<and> 12 < at \<and>
       rd_records (length records) msg at = Inr records \<and>
       (addresses reply = [] \<or>
        (\<exists>owner n. n < MAX_CNAMES \<and>
           (map to_ascii_lowercase (strip_or dot name), owner) \<in> cname_step records ^^ n \<and>
           addresses reply = owned owner records)))"
proof -
  from assms have parse: "dns_parse msg = Inr reply" and qid: "reply_id reply = qid" and
      q: "reply_question reply = (map to_ascii_lowercase (strip_or dot name), qtype)" and
      code: "rcode reply = 0 \<or> rcode reply = 3"
    by (auto simp: checked_def split: sum.splits if_splits)
  obtain records at where r: "length records \<le> MAX_RECORDS" "12 < at"
      "rd_records (length records) msg at = Inr records"
      "addresses reply = chain (map to_ascii_lowercase (strip_or dot name)) records"
    using dns_parse_Inr [OF parse] unfolding q fst_conv by blast
  with chain_hops_sound [of MAX_CNAMES "map to_ascii_lowercase (strip_or dot name)" records] qid q code
  show ?thesis unfolding chain_def by metis
qed

text \<open>A whole answer: \<open>x\<close> is an alias of \<open>y\<close>, whose address is given, beside one for \<open>z\<close>.\<close>

definition demo_answer :: bytes where
  "demo_answer =
     [0, 7, 0x81, 0x80, 0, 1, 0, 3, 0, 0, 0, 0] @ [1, 0x78, 0] @ [0, 1, 0, 1] @
     [0xc0, 12] @ [0, 5, 0, 1, 0, 0, 0, 0, 0, 3] @ [1, 0x79, 0] @
     [1, 0x7a, 0] @ [0, 1, 0, 1, 0, 0, 0, 0, 0, 4] @ [10, 0, 0, 1] @
     [1, 0x79, 0] @ [0, 1, 0, 1, 0, 0, 0, 0, 0, 4] @ [9, 9, 9, 9]"

lemmas rd_evals = rd_u8_def rd_u16_def rd_u32_def get_at_def get_range_def checked_add_def
  usize_max_def rd_seek_def rd_record_def rd_data_def rd_name_def rd_name_loop.simps push_label_def
  char_from_def be_u16_def be_u32_def le_u32_def TYPE_A_def TYPE_CNAME_def TYPE_AAAA_def
  CLASS_IN_def DNS_MAX_NAME_def MAX_JUMPS_def to_ascii_lowercase_def ascii_defs

lemma demo_answer_records:
  "rd_record demo_answer 19 = Inr (\<lparr>rec_name = [0x78], rec_data = Cname [0x79]\<rparr>, 34)"
  "rd_record demo_answer 34 = Inr (\<lparr>rec_name = [0x7a], rec_data = DataV4 (V4 10 0 0 1)\<rparr>, 51)"
  "rd_record demo_answer 51 = Inr (\<lparr>rec_name = [0x79], rec_data = DataV4 (V4 9 9 9 9)\<rparr>, 68)"
  by (simp_all add: rd_evals demo_answer_def)

lemma demo_answer_header:
  "rd_u16 demo_answer 0 = Inr (7, 2)" "rd_u16 demo_answer 2 = Inr (0x8180, 4)"
  "rd_u16 demo_answer 4 = Inr (1, 6)" "rd_u16 demo_answer 6 = Inr (3, 8)"
  "rd_u16 demo_answer 8 = Inr (0, 10)" "rd_u16 demo_answer 10 = Inr (0, 12)"
  "rd_name demo_answer 12 = Inr ([0x78], 15)" "rd_u16 demo_answer 15 = Inr (1, 17)"
  "rd_u16 demo_answer 17 = Inr (1, 19)"
  by (simp_all add: rd_evals demo_answer_def)

lemma demo_answer_checked:
  "checked demo_answer 7 (str ''x'') 1 =
     Inr \<lparr>reply_id = 7, truncated = False, rcode = 0, reply_question = (str ''x'', 1),
          addresses = [V4 9 9 9 9]\<rparr>"
proof -
  let ?rs = "[\<lparr>rec_name = [0x78], rec_data = Cname [0x79]\<rparr>,
    \<lparr>rec_name = [0x7a], rec_data = DataV4 (V4 10 0 0 1)\<rparr>,
    \<lparr>rec_name = [0x79], rec_data = DataV4 (V4 9 9 9 9)\<rparr>]"
  have "rd_records 3 demo_answer 19 = Inr ?rs"
    by (simp add: numeral_3_eq_3 demo_answer_records)
  moreover have "chain [0x78] ?rs = [V4 9 9 9 9]"
    by (simp add: chain_def MAX_CNAMES_def eval_nat_numeral)
  ultimately show ?thesis
    by (simp add: checked_def dns_parse_def demo_answer_header CLASS_IN_def as_u16_def
        MAX_RECORDS_def strip_or_def strip_suffix_def to_ascii_lowercase_def ascii_defs)
qed

theorem checked_answer_sound_witness:
  "\<exists>records at. rd_records (length records) demo_answer at = Inr records \<and>
     (\<exists>owner n. n < MAX_CNAMES \<and> (str ''x'', owner) \<in> cname_step records ^^ n \<and>
        owned owner records = [V4 9 9 9 9])"
proof -
  have x: "map to_ascii_lowercase (strip_or dot (str ''x'')) = str ''x''"
    by (simp add: strip_or_def strip_suffix_def to_ascii_lowercase_def ascii_defs)
  show ?thesis
    using checked_answer_sound [OF demo_answer_checked] unfolding x Reply.simps
    by (metis list.distinct(1))
qed

section \<open>Resolution\<close>

lemma once_question:
  assumes "once a name qtype server = Inr reply"
  shows "reply_id reply = query_id (at_draw a) (at_nanos a) \<and>
    reply_question reply = (map to_ascii_lowercase (strip_or dot name), qtype)"
proof -
  from assms obtain m where "checked m (query_id (at_draw a) (at_nanos a)) name qtype = Inr reply"
    by (auto simp: once_def Let_def rust_simps split: if_splits)
  then show ?thesis by (auto simp: checked_def split: sum.splits if_splits)
qed

lemma ask_loop_count:
  "k \<le> snd (ask_loop env name qtype servers deadline err k) \<and>
   snd (ask_loop env name qtype servers deadline err k) \<le> k + length servers"
proof (induction servers arbitrary: err k)
  case (Cons server servers)
  have "k + 1 \<le> snd (ask_loop env name qtype servers deadline e (k + 1)) \<and>
      snd (ask_loop env name qtype servers deadline e (k + 1)) \<le> k + 1 + length servers" for e
    by (rule Cons.IH)
  then show ?case by (auto split: sum.splits dest: Suc_leD)
qed simp

lemma ask_loop_sound:
  assumes "fst (ask_loop env name qtype servers deadline err k) = Inr as"
  shows "\<exists>j server reply. j < snd (ask_loop env name qtype servers deadline err k) \<and>
    server \<in> set servers \<and> at_now (env j) < deadline \<and>
    once (env j) name qtype server = Inr reply \<and> as = addresses reply"
  using assms
proof (induction servers arbitrary: err k)
  case Nil
  then show ?case by simp
next
  case (Cons server servers)
  from Cons.prems have now: "at_now (env k) < deadline"
    by (simp split: if_splits)
  show ?case
  proof (cases "once (env k) name qtype server")
    case (Inr reply)
    with Cons.prems now show ?thesis
      by (intro exI [of _ k] exI [of _ server] exI [of _ reply]) simp
  next
    case (Inl e)
    with now have step: "ask_loop env name qtype (server # servers) deadline err k =
        ask_loop env name qtype servers deadline e (k + 1)" by simp
    show ?thesis
      using Cons.IH [of e "k + 1"] Cons.prems unfolding step by (meson list.set_intros(2))
  qed
qed

lemma length_retries: "length (concat (map (replicate n) xs)) = n * length xs"
  by (induction xs) auto

lemma set_retries: "set (concat (map (replicate n) xs)) \<subseteq> set xs"
  by auto

lemma ask_sound:
  assumes "ask env name qtype servers deadline k = (Inr as, k')" and "k' \<le> limit"
  shows "\<exists>j server reply. j < limit \<and> server \<in> set servers \<and> at_now (env j) < deadline \<and>
    once (env j) name qtype server = Inr reply \<and> as = addresses reply"
proof -
  have loop: "ask_loop env name qtype (concat (map (replicate TRIES) servers)) deadline NoAnswer k =
      (Inr as, k')" using assms(1) by (simp add: ask_def)
  have "\<exists>j server reply. j < k' \<and> server \<in> set (concat (map (replicate TRIES) servers)) \<and>
      at_now (env j) < deadline \<and> once (env j) name qtype server = Inr reply \<and> as = addresses reply"
    using ask_loop_sound [of env name qtype "concat (map (replicate TRIES) servers)" deadline NoAnswer k as]
    by (simp only: loop fst_conv snd_conv simp_thms)
  then obtain j server reply where j: "j < k'" "server \<in> set (concat (map (replicate TRIES) servers))"
      "at_now (env j) < deadline" "once (env j) name qtype server = Inr reply" "as = addresses reply"
    by (elim exE conjE) (rule that)
  have "j < limit" using j(1) assms(2) by simp
  moreover have "server \<in> set servers" using j(2) set_retries by (rule rev_subsetD)
  ultimately show ?thesis
    using j(3-) by (intro exI [of _ j] exI [of _ server] exI [of _ reply]) (intro conjI)
qed

lemma ask_count: "ask env name qtype servers deadline k = (res, k') \<Longrightarrow> k' \<le> k + TRIES * length servers"
  using ask_loop_count [of k env name qtype "concat (map (replicate TRIES) servers)" deadline NoAnswer]
  by (simp add: ask_def length_retries)

lemma resolve_at_origin:
  assumes "resolve_at env now name port servers = Inr found" and "(ip, p) \<in> set found"
  shows "p = port \<and>
    (\<exists>j server qtype reply. j < 2 * TRIES * length servers \<and> server \<in> set servers \<and>
       qtype \<in> {TYPE_A, TYPE_AAAA} \<and> at_now (env j) < now + BUDGET \<and>
       once (env j) name qtype server = Inr reply \<and> ip \<in> set (addresses reply))"
proof -
  obtain ra k where a: "ask env name TYPE_A servers (now + BUDGET) 0 = (ra, k)" by fastforce
  obtain rb k' where b: "ask env name TYPE_AAAA servers (now + BUDGET) k = (rb, k')" by fastforce
  have k: "k \<le> 2 * TRIES * length servers" "k' \<le> 2 * TRIES * length servers"
    using ask_count [OF a] ask_count [OF b] by simp_all
  from assms have "p = port" and "(\<exists>as. ra = Inr as \<and> ip \<in> set as) \<or> (\<exists>as. rb = Inr as \<and> ip \<in> set as)"
    by (auto simp: resolve_at_def a b Let_def split: if_splits sum.splits)
  moreover note ask_sound [of env name TYPE_A servers "now + BUDGET" 0 _ k, OF _ k(1)]
    ask_sound [of env name TYPE_AAAA servers "now + BUDGET" k _ k', OF _ k(2)]
  ultimately show ?thesis using a b by blast
qed

text \<open>C10. Where a resolved address comes from: every address of a resolution is on the port
  asked for and stands in an answer that one of the configured resolvers gave to this name's
  A or AAAA question, in one of at most \<open>2 * TRIES\<close> attempts per resolver, each begun within
  the budget; the answer echoes the name and the id of its attempt.\<close>

theorem resolve_at_sound:
  assumes "resolve_at env now name port servers = Inr found" and "(ip, p) \<in> set found"
  shows "p = port \<and>
    (\<exists>j server qtype reply. j < 2 * TRIES * length servers \<and> server \<in> set servers \<and>
       qtype \<in> {TYPE_A, TYPE_AAAA} \<and> at_now (env j) < now + BUDGET \<and>
       once (env j) name qtype server = Inr reply \<and> ip \<in> set (addresses reply) \<and>
       reply_id reply = query_id (at_draw (env j)) (at_nanos (env j)) \<and>
       reply_question reply = (map to_ascii_lowercase (strip_or dot name), qtype))"
  using resolve_at_origin [OF assms] once_question by blast

definition demo_env :: "nat \<Rightarrow> Attempt" where
  "demo_env k = \<lparr>at_now = 5, at_draw = (\<lambda>_. Some [0, 7]), at_nanos = 0,
     at_udp = (\<lambda>_ _. Some demo_answer), at_tcp = (\<lambda>_ _. None)\<rparr>"

lemma demo_resolve:
  "resolve_at demo_env 0 (str ''x'') 443 [(V4 10 0 0 53, DNS_PORT)] = Inr [(V4 9 9 9 9, 443)]"
proof -
  have qid: "query_id (at_draw (demo_env k)) (at_nanos (demo_env k)) = 7" for k
    by (simp add: demo_env_def query_id_def query_fill.simps be_u16_def)
  have udp: "over_udp (demo_env k) server q = Inr demo_answer" for k server q
    by (simp add: over_udp_def demo_env_def demo_answer_def MAX_UDP_def)
  have q: "\<exists>m. question (str ''x'') qtype 7 = Inr m" for qtype
    by (simp add: question_def encode_name_def strip_or_def strip_suffix_def DNS_MAX_NAME_def
        DNS_MAX_LABEL_def)
  have other: "checked demo_answer 7 (str ''x'') 28 = Inl OtherQuestion"
    using demo_answer_checked by (auto simp: checked_def split: sum.splits if_splits)
  have "once (demo_env k) (str ''x'') 1 server = Inr \<lparr>reply_id = 7, truncated = False, rcode = 0,
      reply_question = (str ''x'', 1), addresses = [V4 9 9 9 9]\<rparr>" for k server
    using q [of 1] unfolding once_def Let_def qid by (auto simp only: res_bind_simps udp demo_answer_checked Reply.simps simp_thms if_True)
  moreover have "once (demo_env k) (str ''x'') 28 server = Inl OtherQuestion" for k server
    using q [of 28] unfolding once_def Let_def qid by (auto simp only: res_bind_simps udp other)
  moreover have "at_now (demo_env k) < BUDGET" for k by (simp add: demo_env_def BUDGET_def)
  ultimately show ?thesis
    by (simp add: resolve_at_def ask_def TRIES_def numeral_3_eq_3 TYPE_A_def TYPE_AAAA_def not_le
        del: str_Cons str_Nil)
qed

theorem resolve_at_sound_witness:
  "\<exists>j server qtype reply. server \<in> set [(V4 10 0 0 53, DNS_PORT)] \<and>
     at_now (demo_env j) < 0 + BUDGET \<and> once (demo_env j) (str ''x'') qtype server = Inr reply \<and>
     V4 9 9 9 9 \<in> set (addresses reply)"
  using resolve_at_sound [OF demo_resolve, of "V4 9 9 9 9" 443] list.set_intros(1) by metis

text \<open>A pointer that points strictly backwards may still close a cycle: the label at offset 0
  is followed by a pointer to offset 0, which the position test admits every time.  Only
  the jump bound ends the read.\<close>

lemma rd_name_pointer_cycle: "rd_name [1, 0x61, 0xc0, 0] 0 = Inl Pointer"
  by (simp add: rd_evals)

end
