(* ===== verification/Net_Args.thy ===== *)
theory Net_Args
  imports Net_Dns Bub_Utf8
begin

text \<open>
  The egress proxy's command line and the addresses it will not dial
  (\<open>parse_from\<close>, \<open>listen_port\<close>, \<open>number\<close> and \<open>is_inward\<close> in
  \<^verbatim>\<open>crates/bubbler-net-proxy/src/main.rs\<close>), with the standard library's textual IP
  parser they call.  Shown: an accepted argument vector names at least one target and one
  resolver, a port other than 0, and distinct non-negative descriptors; and an IPv4-mapped
  address is judged as the IPv4 address it stands for.
\<close>

section \<open>The standard library's IP parser\<close>

definition is_hex :: "byte \<Rightarrow> bool" where
  [ascii_defs]: "is_hex b \<longleftrightarrow> is_ascii_digit b \<or> (0x41 \<le> b \<and> b \<le> 0x46) \<or> (0x61 \<le> b \<and> b \<le> 0x66)"

definition hex_val :: "byte \<Rightarrow> nat" where
  "hex_val b = (if is_ascii_digit b then unat b - 48 else if b \<le> 0x46 then unat b - 55 else unat b - 87)"

definition read_octet :: "bytes \<Rightarrow> (byte \<times> bytes) option" where
  "read_octet s =
     (let ds = takeWhile is_ascii_digit s in
      if ds = [] \<or> length ds > 3 \<or> (hd ds = 0x30 \<and> length ds > 1) \<or> dec_val ds > 255 then None
      else Some (of_nat (dec_val ds), drop (length ds) s))"

definition read_sep :: "byte \<Rightarrow> nat \<Rightarrow> bytes \<Rightarrow> bytes option" where
  "read_sep c i s =
     (if i = 0 then Some s else case s of x # xs \<Rightarrow> if x = c then Some xs else None | [] \<Rightarrow> None)"

definition read_ipv4 :: "bytes \<Rightarrow> (bytes \<times> bytes) option" where
  "read_ipv4 s =
     Option.bind (read_octet s) (\<lambda>(a, s). Option.bind (read_sep dot 1 s) (\<lambda>s.
     Option.bind (read_octet s) (\<lambda>(b, s). Option.bind (read_sep dot 1 s) (\<lambda>s.
     Option.bind (read_octet s) (\<lambda>(c, s). Option.bind (read_sep dot 1 s) (\<lambda>s.
     Option.bind (read_octet s) (\<lambda>(d, s). Some ([a, b, c, d], s))))))))"

definition read_group :: "bytes \<Rightarrow> (bytes \<times> bytes) option" where
  "read_group s =
     (let ds = takeWhile is_hex s; n = foldl (\<lambda>n d. 16 * n + hex_val d) 0 ds in
      if ds = [] \<or> length ds > 4 then None
      else Some (u16_be (of_nat n), drop (length ds) s))"

text \<open>\<open>read_groups\<close>: up to \<open>limit\<close> groups, an IPv4 tail standing for two; returns the bytes read,
  the count of groups and whether it ended in an IPv4 tail.\<close>

fun read_groups :: "nat \<Rightarrow> nat \<Rightarrow> nat \<Rightarrow> bytes \<Rightarrow> bytes \<Rightarrow> bytes \<times> nat \<times> bool \<times> bytes" where
  "read_groups 0 limit i acc s = (acc, i, False, s)"
| "read_groups (Suc fuel) limit i acc s =
     (case (if i + 1 < limit then Option.bind (read_sep 0x3a i s) read_ipv4 else None) of
        Some (v4, s') \<Rightarrow> (acc @ v4, i + 2, True, s')
      | None \<Rightarrow>
          (case Option.bind (read_sep 0x3a i s) read_group of
             Some (g, s') \<Rightarrow> read_groups fuel limit (i + 1) (acc @ g) s'
           | None \<Rightarrow> (acc, i, False, s)))"

definition read_ipv6 :: "bytes \<Rightarrow> (bytes \<times> bytes) option" where
  "read_ipv6 s =
     (let (hd_bytes, n, v4, s1) = read_groups 8 8 0 [] s in
      if n = 8 then Some (hd_bytes, s1)
      else if v4 then None
      else case s1 of
             a # b # s2 \<Rightarrow>
               if a = 0x3a \<and> b = 0x3a then
                 (let limit = 8 - (n + 1); (tail, m, _, s3) = read_groups limit limit 0 [] s2 in
                  Some (hd_bytes @ replicate (16 - length hd_bytes - length tail) 0 @ tail, s3))
               else None
           | _ \<Rightarrow> None)"

definition parse_ip :: "bytes \<Rightarrow> IpAddr option" where
  "parse_ip s =
     (case read_ipv4 s of
        Some ([a, b, c, d], []) \<Rightarrow> Some (V4 a b c d)
      | Some _ \<Rightarrow> None
      | None \<Rightarrow> (case read_ipv6 s of Some (b, []) \<Rightarrow> Some (V6 b) | _ \<Rightarrow> None))"

section \<open>The command line\<close>

record Args =
  a_allow :: "bytes list"
  a_dns :: "IpAddr list"
  a_port :: u16
  a_ready_fd :: int
  a_log_fd :: "int option"
  a_log_tunnels :: bool

definition listen_port :: "bytes \<Rightarrow> u16 option" where
  "listen_port w = Option.bind (to_str w) (\<lambda>s.
     case parse_unsigned 65535 s of
       Some p \<Rightarrow> if p > 0 then Some (of_nat p) else None
     | None \<Rightarrow> None)"

definition number :: "bytes \<Rightarrow> int option" where
  "number w = Option.bind (to_str w) (\<lambda>s.
     case parse_signed 32 s of
       Some fd \<Rightarrow> if fd \<ge> 0 then Some fd else None
     | None \<Rightarrow> None)"

text \<open>The locals of \<open>parse_from\<close>.\<close>

record Parsing =
  p_allow :: "bytes list"
  p_dns :: "IpAddr list"
  p_port :: "u16 option"
  p_ready :: "int option"
  p_log :: "int option"
  p_tunnels :: bool

definition parsing_start :: Parsing where
  "parsing_start = \<lparr>p_allow = [], p_dns = [], p_port = None, p_ready = None, p_log = None, p_tunnels = False\<rparr>"

text \<open>One turn of the loop on a word that takes a value.\<close>

definition valued :: "bytes \<Rightarrow> bytes \<Rightarrow> Parsing \<Rightarrow> Parsing option" where
  "valued word v p =
     (if word = str ''--allow'' then
        map_option (\<lambda>s. p\<lparr>p_allow := p_allow p @ [s]\<rparr>) (to_str v)
      else if word = str ''--dns'' then
        map_option (\<lambda>ip. p\<lparr>p_dns := p_dns p @ [ip]\<rparr>) (Option.bind (to_str v) parse_ip)
      else if word = str ''--port'' \<and> p_port p = None then
        map_option (\<lambda>n. p\<lparr>p_port := Some n\<rparr>) (listen_port v)
      else if word = str ''--ready-fd'' \<and> p_ready p = None then
        map_option (\<lambda>n. p\<lparr>p_ready := Some n\<rparr>) (number v)
      else if word = str ''--log-fd'' \<and> p_log p = None then
        map_option (\<lambda>n. p\<lparr>p_log := Some n\<rparr>) (number v)
      else None)"

fun parse_words :: "bytes list \<Rightarrow> Parsing \<Rightarrow> Parsing option" where
  "parse_words [] p = Some p"
| "parse_words (w # ws) p =
     (if w = str ''--log-tunnels'' then
        (if p_tunnels p then None else parse_words ws (p\<lparr>p_tunnels := True\<rparr>))
      else case ws of
             [] \<Rightarrow> None
           | v # rest \<Rightarrow> (case valued w v p of None \<Rightarrow> None | Some p' \<Rightarrow> parse_words rest p'))"

definition parse_from :: "bytes list \<Rightarrow> Args option" where
  "parse_from ws =
     Option.bind (parse_words ws parsing_start) (\<lambda>p.
       if p_allow p = [] \<or> p_dns p = [] then None
       else Option.bind (p_port p) (\<lambda>port. Option.bind (p_ready p) (\<lambda>ready.
         if Some ready = p_log p then None
         else Some \<lparr>a_allow = p_allow p, a_dns = p_dns p, a_port = port, a_ready_fd = ready,
                    a_log_fd = p_log p, a_log_tunnels = p_tunnels p\<rparr>)))"

section \<open>Addresses that point back inside\<close>

definition v4_inward :: "byte \<Rightarrow> byte \<Rightarrow> byte \<Rightarrow> byte \<Rightarrow> bool" where
  "v4_inward a b c d \<longleftrightarrow> a = 127 \<or> (a = 0 \<and> b = 0 \<and> c = 0 \<and> d = 0) \<or> (a = 169 \<and> b = 254)"

definition to_ipv4_mapped :: "bytes \<Rightarrow> (byte \<times> byte \<times> byte \<times> byte) option" where
  "to_ipv4_mapped b =
     (if length b = 16 \<and> take 12 b = replicate 10 0 @ [0xff, 0xff]
      then Some (b ! 12, b ! 13, b ! 14, b ! 15) else None)"

fun is_inward :: "IpAddr \<Rightarrow> bool" where
  "is_inward (V4 a b c d) = v4_inward a b c d"
| "is_inward (V6 x) =
     (case to_ipv4_mapped x of
        Some (a, b, c, d) \<Rightarrow> v4_inward a b c d
      | None \<Rightarrow> x = replicate 15 0 @ [1] \<or> x = replicate 16 0 \<or>
                be_u16 (x ! 0) (x ! 1) AND 0xffc0 = 0xfe80)"

section \<open>What is accepted\<close>

definition parsing_inv :: "Parsing \<Rightarrow> bool" where
  "parsing_inv p \<longleftrightarrow> p_port p \<noteq> Some 0 \<and> (\<forall>n. p_ready p = Some n \<longrightarrow> 0 \<le> n) \<and>
     (\<forall>n. p_log p = Some n \<longrightarrow> 0 \<le> n) \<and> (\<forall>w \<in> set (p_allow p). utf8_valid w)"

lemma listen_port_pos: "listen_port w = Some p \<Longrightarrow> p \<noteq> 0"
proof -
  assume "listen_port w = Some p"
  then obtain n where n: "n \<le> 65535" "0 < n" "p = of_nat n"
    by (auto simp: listen_port_def Option.bind_eq_Some_conv split: option.splits if_splits
        dest: parse_unsigned_le)
  then have "unat p = n" by (simp add: unat_of_nat)
  with n show ?thesis by auto
qed

lemma number_pos: "number w = Some n \<Longrightarrow> 0 \<le> n"
  by (auto simp: number_def Option.bind_eq_Some_conv split: option.splits if_splits)

lemma valued_inv: "valued w v p = Some p' \<Longrightarrow> parsing_inv p \<Longrightarrow> parsing_inv p'"
  by (auto simp: valued_def parsing_inv_def to_str_def split: if_splits
      dest: listen_port_pos number_pos)

lemma parse_words_inv: "parse_words ws p = Some p' \<Longrightarrow> parsing_inv p \<Longrightarrow> parsing_inv p'"
proof (induction ws p rule: parse_words.induct)
  case (2 w ws p)
  show ?case
  proof (cases "w = str ''--log-tunnels''")
    case True
    with 2 show ?thesis by (auto simp: parsing_inv_def split: if_splits)
  next
    case False
    with 2 valued_inv show ?thesis by (auto split: list.splits option.splits)
  qed
qed simp

lemma parse_from_ok:
  assumes "parse_from ws = Some args"
  shows "a_allow args \<noteq> [] \<and> a_dns args \<noteq> [] \<and> a_port args \<noteq> 0 \<and> 0 \<le> a_ready_fd args \<and>
    a_log_fd args \<noteq> Some (a_ready_fd args) \<and> (\<forall>w \<in> set (a_allow args). utf8_valid w)"
proof -
  have "parsing_inv parsing_start" by (simp add: parsing_inv_def parsing_start_def)
  with assms show ?thesis
    by (auto simp: parse_from_def Option.bind_eq_Some_conv parsing_inv_def split: if_splits
        dest!: parse_words_inv)
qed

lemma mapped_inward:
  "is_inward (V6 (replicate 10 0 @ [0xff, 0xff, a, b, c, d])) = is_inward (V4 a b c d)"
  by (simp add: to_ipv4_mapped_def numeral_eq_Suc)

lemma read_sep_no_colon: "0x3a \<notin> set s \<Longrightarrow> 0 < i \<Longrightarrow> read_sep 0x3a i s = None"
  by (auto simp: read_sep_def split: list.split)

lemma read_group_rest: "read_group s = Some (g, s') \<Longrightarrow> set s' \<subseteq> set s"
  by (auto simp: read_group_def Let_def split: if_splits dest: in_set_dropD)

lemma groups_no_colon: "0x3a \<notin> set s \<Longrightarrow> 0 < i \<Longrightarrow> read_groups n limit i acc s = (acc, i, False, s)"
  by (cases n) (simp_all add: read_sep_no_colon)

text \<open>Words without a colon are no IPv6 address: at most one group, or an IPv4 address, is read of them.\<close>

lemma groups_first_no_colon:
  assumes "0x3a \<notin> set s" and "read_groups (Suc n) limit 0 [] s = (x, k, v, s1)"
  shows "k \<le> 2 \<and> (v \<or> 0x3a \<notin> set s1)"
proof (cases "if 0 + 1 < limit then Option.bind (read_sep 0x3a 0 s) read_ipv4 else None")
  case None
  show ?thesis
  proof (cases "read_group s")
    case (Some y)
    moreover from Some assms(1) have "0x3a \<notin> set (snd y)"
      using read_group_rest [of s "fst y" "snd y"] by auto
    ultimately show ?thesis using assms(2) None by (cases y) (auto simp: read_sep_def groups_no_colon)
  qed (use assms None in \<open>auto simp: read_sep_def\<close>)
qed (use assms in \<open>auto split: prod.splits\<close>)

lemma no_colon_no_ipv6:
  assumes "0x3a \<notin> set s"
  shows "read_ipv6 s = None"
proof -
  obtain x k v s1 where g: "read_groups (Suc 7) 8 0 [] s = (x, k, v, s1)" by (metis prod.exhaust)
  from groups_first_no_colon [OF assms g] g show ?thesis
    by (auto simp: read_ipv6_def eval_nat_numeral split: list.split)
qed

lemma read_octet_digits:
  assumes "read_octet s = Some (b, r)"
  shows "\<exists>ds. s = ds @ r \<and> all_digits ds \<and> ds \<noteq> []"
proof (intro exI conjI)
  let ?ds = "takeWhile is_ascii_digit s"
  from assms have r: "r = drop (length ?ds) s" "?ds \<noteq> []"
    by (auto simp: read_octet_def Let_def split: if_splits)
  then show "?ds \<noteq> []" by simp
  show "s = ?ds @ r" using append_take_drop_id [of "length ?ds" s] unfolding r(1) takeWhile_eq_take [symmetric] by simp
  show "all_digits ?ds" by (auto simp: all_digits_def dest: set_takeWhileD)
qed

lemma all_digits_no_dot: "all_digits ds \<Longrightarrow> dot \<notin> set ds"
  by (auto simp: all_digits_def ascii_defs)

lemma read_sep_Some: "0 < i \<Longrightarrow> read_sep c i s = Some r \<longleftrightarrow> s = c # r"
  by (cases s) (auto simp: read_sep_def)

lemma ipv4_last_label:
  assumes "read_ipv4 s = Some (v, [])"
  shows "all_digits (last (split_on dot s))"
proof -
  from assms obtain a b c d s1 s2 s3 where r: "read_octet s = Some (a, dot # s1)" "read_octet s1 = Some (b, dot # s2)"
      "read_octet s2 = Some (c, dot # s3)" "read_octet s3 = Some (d, [])"
    by (auto simp: read_ipv4_def Option.bind_eq_Some_conv read_sep_Some)
  note o1 = r(1-4) [THEN read_octet_digits]
  from o1(1) obtain d1 where d1: "s = d1 @ dot # s1" "all_digits d1" by blast
  from o1(2) obtain d2 where d2: "s1 = d2 @ dot # s2" "all_digits d2" by blast
  from o1(3) obtain d3 where d3: "s2 = d3 @ dot # s3" "all_digits d3" by blast
  from o1(4) have d4: "all_digits s3" by auto
  show ?thesis using d1 d2 d3 d4
    by (simp add: split_on_append_sep split_on_no_sep all_digits_no_dot)
qed

text \<open>A name of hyphens, dots and alphanumerics whose last label is not all digits is no address in any notation.\<close>

lemma name_no_address:
  assumes "0x3a \<notin> set h" and "\<not> all_digits (last (split_on dot h))"
  shows "parse_ip h = None"
proof (cases "read_ipv4 h")
  case (Some y)
  with ipv4_last_label [of h "fst y"] assms(2) show ?thesis
    by (cases y) (auto simp: parse_ip_def split: list.splits)
qed (simp add: parse_ip_def no_colon_no_ipv6 [OF assms(1)])

end
