(* ===== verification/Net_Relay.thy ===== *)
theory Net_Relay
  imports Bub_Prelude "HOL-Library.Sublist"
begin

text \<open>
  The blind half of the egress proxy (\<^verbatim>\<open>crates/bubbler-net-proxy/src/relay.rs\<close>): one buffer
  per direction and the poll loop over the two sockets.  What the kernel answers to \<open>poll\<close>,
  \<open>read\<close> and \<open>write\<close> in one turn of the loop is a \<open>Turn\<close>, a parameter; what the code does
  to the sockets is recorded in a \<open>Flow\<close> per direction (bytes taken from the source, bytes
  given to the sink, write end shut).  Shown, for every sequence of turns: the sink gets
  exactly the bytes of the source in order, without loss, repetition or reordering; its write
  end is shut only after the last of them; and the loop ends only when both directions are
  over, the tunnel was idle, or \<open>poll\<close> failed.
\<close>

definition CHUNK :: nat where
  "CHUNK = 32 * 2 ^ 10"

definition IDLE :: duration where
  "IDLE = 60 * 10 ^ 9"

text \<open>What \<open>read\<close> and \<open>write\<close> may answer; \<open>would_wait\<close> holds of \<open>WouldBlock\<close> and \<open>Interrupted\<close>.\<close>

datatype IoKind = WouldBlock | Interrupted | TimedOut | OtherKind

datatype ReadRes = RdOk bytes | RdErr IoKind

datatype WriteRes = WrOk nat | WrErr IoKind

definition would_wait :: "IoKind \<Rightarrow> bool" where
  "would_wait k \<longleftrightarrow> k = WouldBlock \<or> k = Interrupted"

record Dir =
  d_buf :: bytes
  d_len :: nat
  d_off :: nat
  source_done :: bool
  sink_done :: bool

definition dir_default :: Dir where
  "dir_default = \<lparr>d_buf = replicate CHUNK 0, d_len = 0, d_off = 0, source_done = False, sink_done = False\<rparr>"

text \<open>What a direction has done to its two sockets so far.\<close>

record Flow =
  fl_read :: bytes
  fl_sent :: bytes
  fl_shut :: bool

definition flow_start :: Flow where
  "flow_start = \<lparr>fl_read = [], fl_sent = [], fl_shut = False\<rparr>"

definition pending :: "Dir \<Rightarrow> bool" where
  "pending d \<longleftrightarrow> d_off d < d_len d"

definition dir_done :: "Dir \<Rightarrow> bool" where
  "dir_done d \<longleftrightarrow> sink_done d"

definition wants_read :: "Dir \<Rightarrow> bool" where
  "wants_read d \<longleftrightarrow> \<not> source_done d \<and> \<not> pending d \<and> \<not> sink_done d"

definition wants_write :: "Dir \<Rightarrow> bool" where
  "wants_write d \<longleftrightarrow> pending d \<and> \<not> sink_done d"

definition close_sink :: "Dir \<times> Flow \<Rightarrow> Dir \<times> Flow" where
  "close_sink df =
     (let (d, f) = df in
      if sink_done d \<or> \<not> source_done d \<or> pending d then (d, f)
      else (d\<lparr>sink_done := True\<rparr>, f\<lparr>fl_shut := True\<rparr>))"

text \<open>\<open>read_from\<close> on a kernel that fills at most the buffer; the flag is whether bytes moved.\<close>

definition read_from :: "ReadRes \<Rightarrow> Dir \<times> Flow \<Rightarrow> (Dir \<times> Flow) \<times> bool" where
  "read_from res df =
     (let (d, f) = df in
      case res of
        RdOk data \<Rightarrow>
          let got = take (length (d_buf d)) data in
          if got = [] then ((d\<lparr>source_done := True\<rparr>, f), False)
          else ((d\<lparr>d_buf := got @ drop (length got) (d_buf d), d_len := length got, d_off := 0\<rparr>,
                 f\<lparr>fl_read := fl_read f @ got\<rparr>), True)
      | RdErr k \<Rightarrow>
          if would_wait k then ((d, f), False) else ((d\<lparr>source_done := True\<rparr>, f), False))"

definition give_up :: "Dir \<Rightarrow> Dir" where
  "give_up d = d\<lparr>source_done := True, d_off := d_len d, sink_done := True\<rparr>"

definition in_flight :: "Dir \<Rightarrow> bytes" where
  "in_flight d = take (d_len d - d_off d) (drop (d_off d) (d_buf d))"

definition write_to :: "WriteRes \<Rightarrow> Dir \<times> Flow \<Rightarrow> (Dir \<times> Flow) \<times> bool" where
  "write_to res df =
     (let (d, f) = df in
      case res of
        WrOk m \<Rightarrow>
          let n = min m (length (in_flight d)) in
          if n = 0 then ((give_up d, f), False)
          else ((d\<lparr>d_off := d_off d + n\<rparr>, f\<lparr>fl_sent := fl_sent f @ take n (in_flight d)\<rparr>), True)
      | WrErr k \<Rightarrow> if would_wait k then ((d, f), False) else ((give_up d, f), False))"

section \<open>The loop\<close>

record PollFlags =
  f_in :: bool
  f_out :: bool
  f_hup :: bool
  f_err :: bool

definition no_flags :: PollFlags where
  "no_flags = \<lparr>f_in = False, f_out = False, f_hup = False, f_err = False\<rparr>"

definition flags_empty :: "PollFlags \<Rightarrow> bool" where
  "flags_empty p \<longleftrightarrow> \<not> f_in p \<and> \<not> f_out p \<and> \<not> f_hup p \<and> \<not> f_err p"

definition ready_in :: "PollFlags \<Rightarrow> PollFlags \<Rightarrow> bool" where
  "ready_in asked got \<longleftrightarrow> f_in asked \<and> (f_in got \<or> f_hup got \<or> f_err got)"

definition ready_out :: "PollFlags \<Rightarrow> PollFlags \<Rightarrow> bool" where
  "ready_out asked got \<longleftrightarrow> f_out asked \<and> (f_out got \<or> f_hup got \<or> f_err got)"

text \<open>One turn's environment: the clock before and after, \<open>poll\<close>'s answer (an error, nothing
  before the timeout, or the events of each side) and the four possible system calls.\<close>

datatype PollRes = PollErr | PollNone | PollReady PollFlags PollFlags

record Turn =
  t_now :: instant
  t_poll :: PollRes
  t_read_client :: ReadRes
  t_write_upstream :: WriteRes
  t_read_upstream :: ReadRes
  t_write_client :: WriteRes
  t_after :: instant

record Tunnel =
  tn_out :: "Dir \<times> Flow"
  tn_back :: "Dir \<times> Flow"
  moved_at :: instant

datatype Ended = BothDone | NothingToPoll | Idle | PollFailed

definition on_client_flags :: "Tunnel \<Rightarrow> PollFlags" where
  "on_client_flags t = no_flags\<lparr>f_in := wants_read (fst (tn_out t)), f_out := wants_write (fst (tn_back t))\<rparr>"

definition on_upstream_flags :: "Tunnel \<Rightarrow> PollFlags" where
  "on_upstream_flags t = no_flags\<lparr>f_in := wants_read (fst (tn_back t)), f_out := wants_write (fst (tn_out t))\<rparr>"

text \<open>A side left out of the poll set reports no events.\<close>

definition act :: "Turn \<Rightarrow> PollFlags \<Rightarrow> PollFlags \<Rightarrow> Tunnel \<Rightarrow> Tunnel" where
  "act e got_client got_upstream t =
     (let on_c = on_client_flags t; on_u = on_upstream_flags t;
          from_c = (if flags_empty on_c then no_flags else got_client);
          from_u = (if flags_empty on_u then no_flags else got_upstream);
          (out1, m1) = (if ready_in on_c from_c then read_from (t_read_client e) (tn_out t)
                        else (tn_out t, False));
          (out2, m2) = (if ready_out on_u from_u then write_to (t_write_upstream e) out1
                        else (out1, False));
          (back1, m3) = (if ready_in on_u from_u then read_from (t_read_upstream e) (tn_back t)
                         else (tn_back t, False));
          (back2, m4) = (if ready_out on_c from_c then write_to (t_write_client e) back1
                         else (back1, False))
      in \<lparr>tn_out = out2, tn_back = back2,
          moved_at = (if m1 \<or> m2 \<or> m3 \<or> m4 then t_after e else moved_at t)\<rparr>)"

definition close_sinks :: "Tunnel \<Rightarrow> Tunnel" where
  "close_sinks t = t\<lparr>tn_out := close_sink (tn_out t), tn_back := close_sink (tn_back t)\<rparr>"

definition run_turn :: "duration \<Rightarrow> Turn \<Rightarrow> Tunnel \<Rightarrow> (Tunnel \<times> Ended) + Tunnel" where
  "run_turn idle e t0 =
     (let t = close_sinks t0 in
      if dir_done (fst (tn_out t)) \<and> dir_done (fst (tn_back t)) then Inl (t, BothDone)
      else if flags_empty (on_client_flags t) \<and> flags_empty (on_upstream_flags t)
      then Inl (t, NothingToPoll)
      else if idle - (t_now e - moved_at t) = 0 then Inl (t, Idle)
      else case t_poll e of
             PollErr \<Rightarrow> Inl (t, PollFailed)
           | PollNone \<Rightarrow> Inl (t, Idle)
           | PollReady c u \<Rightarrow> Inr (act e c u t))"

definition run_start :: "instant \<Rightarrow> Tunnel" where
  "run_start now =
     \<lparr>tn_out = (dir_default, flow_start), tn_back = (dir_default, flow_start), moved_at = now\<rparr>"

text \<open>The states the loop can be in at its head, whatever the kernel answers.\<close>

inductive relay_reach :: "duration \<Rightarrow> Tunnel \<Rightarrow> bool" for idle where
  start: "relay_reach idle (run_start now)"
| turn: "relay_reach idle t \<Longrightarrow> run_turn idle e t = Inr t' \<Longrightarrow> relay_reach idle t'"

section \<open>One direction\<close>

definition dir_inv :: "Dir \<times> Flow \<Rightarrow> bool" where
  "dir_inv df = (let (d, f) = df in
     length (d_buf d) = CHUNK \<and> d_off d \<le> d_len d \<and> d_len d \<le> CHUNK \<and>
     prefix (fl_sent f) (fl_read f) \<and>
     (\<not> sink_done d \<or> fl_shut f \<longrightarrow> fl_read f = fl_sent f @ in_flight d) \<and>
     (fl_shut f \<longrightarrow> sink_done d) \<and>
     (sink_done d \<longrightarrow> source_done d \<and> \<not> pending d))"

lemma length_in_flight:
  "length (d_buf d) = CHUNK \<Longrightarrow> d_len d \<le> CHUNK \<Longrightarrow> length (in_flight d) = d_len d - d_off d"
  by (simp add: in_flight_def)

lemma in_flight_empty: "d_off d = d_len d \<Longrightarrow> in_flight d = []"
  by (simp add: in_flight_def)

lemma dir_inv_start: "dir_inv (dir_default, flow_start)"
  by (simp add: dir_inv_def dir_default_def flow_start_def in_flight_def pending_def)

lemma dir_inv_close: "dir_inv df \<Longrightarrow> dir_inv (close_sink df)"
  by (cases df) (auto simp: dir_inv_def close_sink_def in_flight_def pending_def)

lemma dir_inv_read:
  assumes "dir_inv df" and "wants_read (fst df)"
  shows "dir_inv (fst (read_from res df))"
  using assms
  by (cases df; cases res)
    (auto simp: dir_inv_def read_from_def wants_read_def in_flight_def pending_def Let_def min_def)

lemma dir_inv_write:
  assumes "dir_inv df" and "wants_write (fst df)"
  shows "dir_inv (fst (write_to res df))"
proof -
  obtain d f where df: "df = (d, f)" by (cases df)
  from assms have d: "length (d_buf d) = CHUNK" "d_off d \<le> d_len d" "d_len d \<le> CHUNK" "\<not> sink_done d"
      "\<not> fl_shut f" "prefix (fl_sent f) (fl_read f)" and r: "fl_read f = fl_sent f @ in_flight d"
    by (auto simp: df dir_inv_def wants_write_def)
  have up: "dir_inv (give_up d, f)"
    using d by (simp add: dir_inv_def give_up_def pending_def)
  show ?thesis
  proof (cases res)
    case (WrErr k)
    with up assms(1) show ?thesis by (auto simp: df write_to_def)
  next
    case (WrOk m)
    let ?n = "min m (length (in_flight d))"
    have n: "d_off d + ?n \<le> d_len d" using d length_in_flight [of d] by auto
    have "in_flight (d\<lparr>d_off := d_off d + ?n\<rparr>) = drop ?n (in_flight d)"
      by (simp add: in_flight_def drop_take ac_simps)
    with d r n have "dir_inv (d\<lparr>d_off := d_off d + ?n\<rparr>, f\<lparr>fl_sent := fl_sent f @ take ?n (in_flight d)\<rparr>)"
      by (simp add: dir_inv_def take_is_prefix)
    with up show ?thesis by (auto simp: df WrOk write_to_def Let_def)
  qed
qed

lemma dir_inv_shut: "dir_inv df \<Longrightarrow> fl_shut (snd df) \<Longrightarrow> fl_sent (snd df) = fl_read (snd df)"
  by (cases df) (auto simp: dir_inv_def pending_def in_flight_def)

section \<open>Every reachable state\<close>

definition tunnel_inv :: "Tunnel \<Rightarrow> bool" where
  "tunnel_inv t \<longleftrightarrow> dir_inv (tn_out t) \<and> dir_inv (tn_back t)"

lemma wants_exclusive: "wants_write d \<Longrightarrow> \<not> wants_read d"
  by (simp add: wants_write_def wants_read_def)

text \<open>The two conditional calls on one direction: at most one of them happens.\<close>

lemma dir_inv_calls:
  assumes "dir_inv df" and "r \<Longrightarrow> wants_read (fst df)" and "w \<Longrightarrow> wants_write (fst df)"
  shows "dir_inv (fst (if w then write_to wr (fst (if r then read_from rd df else (df, False)))
    else (fst (if r then read_from rd df else (df, False)), False)))"
proof (cases w)
  case True
  with assms wants_exclusive have "\<not> r" by blast
  with True assms dir_inv_write show ?thesis by simp
next
  case False
  with assms dir_inv_read show ?thesis by simp
qed

lemma act_dirs:
  "tn_out (act e c u t) = fst (if ready_out (on_upstream_flags t)
       (if flags_empty (on_upstream_flags t) then no_flags else u)
     then write_to (t_write_upstream e) (fst (if ready_in (on_client_flags t)
       (if flags_empty (on_client_flags t) then no_flags else c)
       then read_from (t_read_client e) (tn_out t) else (tn_out t, False)))
     else (fst (if ready_in (on_client_flags t)
       (if flags_empty (on_client_flags t) then no_flags else c)
       then read_from (t_read_client e) (tn_out t) else (tn_out t, False)), False))"
  "tn_back (act e c u t) = fst (if ready_out (on_client_flags t)
       (if flags_empty (on_client_flags t) then no_flags else c)
     then write_to (t_write_client e) (fst (if ready_in (on_upstream_flags t)
       (if flags_empty (on_upstream_flags t) then no_flags else u)
       then read_from (t_read_upstream e) (tn_back t) else (tn_back t, False)))
     else (fst (if ready_in (on_upstream_flags t)
       (if flags_empty (on_upstream_flags t) then no_flags else u)
       then read_from (t_read_upstream e) (tn_back t) else (tn_back t, False)), False))"
  by (simp_all add: act_def Let_def split_beta)

lemma ready_wants:
  "ready_in (on_client_flags t) g \<Longrightarrow> wants_read (fst (tn_out t))"
  "ready_out (on_client_flags t) g \<Longrightarrow> wants_write (fst (tn_back t))"
  "ready_in (on_upstream_flags t) g \<Longrightarrow> wants_read (fst (tn_back t))"
  "ready_out (on_upstream_flags t) g \<Longrightarrow> wants_write (fst (tn_out t))"
  by (simp_all add: ready_in_def ready_out_def on_client_flags_def on_upstream_flags_def)

lemma tunnel_inv_act: "tunnel_inv t \<Longrightarrow> tunnel_inv (act e c u t)"
  unfolding tunnel_inv_def act_dirs
  by (intro conjI dir_inv_calls) (auto dest: ready_wants)

lemma tunnel_inv_close: "tunnel_inv t \<Longrightarrow> tunnel_inv (close_sinks t)"
  by (simp add: tunnel_inv_def close_sinks_def dir_inv_close)

lemma tunnel_inv_turn: "tunnel_inv t \<Longrightarrow> run_turn idle e t = Inr t' \<Longrightarrow> tunnel_inv t'"
  using tunnel_inv_act [OF tunnel_inv_close, of t]
  by (auto simp: run_turn_def Let_def split: if_splits PollRes.splits)

lemma tunnel_inv_reach: "relay_reach idle t \<Longrightarrow> tunnel_inv t"
proof (induction rule: relay_reach.induct)
  case (start now)
  then show ?case by (simp add: tunnel_inv_def run_start_def dir_inv_start)
next
  case (turn t e t')
  then show ?case by (blast intro: tunnel_inv_turn)
qed

text \<open>C11. Whatever the kernel answers, in each direction the sink has been given a prefix of what
  the source sent; unless writing failed, what was read is exactly what was given plus the
  bytes still in the one buffer, of at most \<open>CHUNK\<close>; and a write end is shut only when
  every byte read has gone out.\<close>

theorem relay_no_loss:
  assumes "relay_reach idle t" and "df \<in> {tn_out t, tn_back t}"
  shows "prefix (fl_sent (snd df)) (fl_read (snd df)) \<and>
    (\<not> dir_done (fst df) \<longrightarrow> fl_read (snd df) = fl_sent (snd df) @ in_flight (fst df)) \<and>
    length (in_flight (fst df)) \<le> CHUNK \<and>
    (fl_shut (snd df) \<longrightarrow> fl_sent (snd df) = fl_read (snd df) \<and> source_done (fst df))"
proof -
  have "dir_inv df" using tunnel_inv_reach [OF assms(1)] assms(2) by (auto simp: tunnel_inv_def)
  then show ?thesis
    by (cases df) (auto simp: dir_inv_def dir_done_def pending_def length_in_flight in_flight_def)
qed

lemma close_sink_wants:
  "sink_done (fst (close_sink df)) \<or> wants_read (fst (close_sink df)) \<or> wants_write (fst (close_sink df))"
  by (cases df) (auto simp: close_sink_def wants_read_def wants_write_def)

lemma something_to_poll:
  assumes "flags_empty (on_client_flags (close_sinks t))"
    and "flags_empty (on_upstream_flags (close_sinks t))"
  shows "dir_done (fst (tn_out (close_sinks t))) \<and> dir_done (fst (tn_back (close_sinks t)))"
  using assms close_sink_wants [of "tn_out t"] close_sink_wants [of "tn_back t"]
  by (auto simp: flags_empty_def on_client_flags_def on_upstream_flags_def close_sinks_def dir_done_def)

lemma run_turn_ended:
  "run_turn idle e t = Inl (t', why) \<Longrightarrow> t' = close_sinks t \<and>
     (why = BothDone \<longrightarrow> dir_done (fst (tn_out t')) \<and> dir_done (fst (tn_back t'))) \<and>
     why \<noteq> NothingToPoll \<and>
     (why = Idle \<longrightarrow> idle \<le> t_now e - moved_at t \<or> t_poll e = PollNone) \<and>
     (why = PollFailed \<longrightarrow> t_poll e = PollErr)"
  using something_to_poll [of t]
  by (auto simp: run_turn_def Let_def close_sinks_def split: if_splits PollRes.splits)

text \<open>C12. How the loop ends: with both directions over, with the tunnel idle for as long as it may
  be, or with a failed \<open>poll\<close>; never because there was nothing to wait for while a direction
  was still open.  When it ends because both are over, each direction has delivered every
  byte its source sent and shut the sink, or its sink could not be written to.\<close>

theorem relay_end:
  assumes "relay_reach idle t" and "run_turn idle e t = Inl (t', why)"
  shows "(why = BothDone \<and>
      (\<forall>df \<in> {tn_out t', tn_back t'}.
         fl_shut (snd df) \<and> fl_sent (snd df) = fl_read (snd df) \<or>
         \<not> fl_shut (snd df) \<and> sink_done (fst df))) \<or>
    (why = Idle \<and> (idle \<le> t_now e - moved_at t \<or> t_poll e = PollNone)) \<or>
    (why = PollFailed \<and> t_poll e = PollErr)"
proof -
  note ended = run_turn_ended [OF assms(2)]
  have "tunnel_inv t'"
    using ended tunnel_inv_close [OF tunnel_inv_reach [OF assms(1)]] by simp
  then have "fl_shut (snd (tn_out t')) \<Longrightarrow> fl_sent (snd (tn_out t')) = fl_read (snd (tn_out t'))"
      "fl_shut (snd (tn_back t')) \<Longrightarrow> fl_sent (snd (tn_back t')) = fl_read (snd (tn_back t'))"
    by (simp_all add: tunnel_inv_def dir_inv_shut)
  then show ?thesis
    using ended by (cases why) (auto simp: dir_done_def)
qed

text \<open>A short tunnel: the client sends three bytes and closes, the upstream closes.\<close>

definition demo_turn :: Turn where
  "demo_turn = \<lparr>t_now = 0, t_poll = PollReady (no_flags\<lparr>f_in := True\<rparr>) (no_flags\<lparr>f_hup := True\<rparr>),
     t_read_client = RdOk [1, 2, 3], t_write_upstream = WrOk 2, t_read_upstream = RdOk [],
     t_write_client = WrOk 0, t_after = 1\<rparr>"

definition demo_tunnel :: Tunnel where
  "demo_tunnel = act demo_turn (no_flags\<lparr>f_in := True\<rparr>) (no_flags\<lparr>f_hup := True\<rparr>) (run_start 0)"

lemma demo_run: "run_turn IDLE demo_turn (run_start 0) = Inr demo_tunnel"
  by (simp add: run_turn_def Let_def close_sinks_def close_sink_def run_start_def dir_default_def
      flow_start_def pending_def dir_done_def flags_empty_def on_client_flags_def
      on_upstream_flags_def wants_read_def wants_write_def demo_turn_def demo_tunnel_def
      no_flags_def IDLE_def)

lemma demo_reach: "relay_reach IDLE demo_tunnel"
  by (rule relay_reach.turn [OF relay_reach.start demo_run])

lemma demo_flow: "snd (tn_out demo_tunnel) = \<lparr>fl_read = [1, 2, 3], fl_sent = [], fl_shut = False\<rparr>"
  by (simp add: demo_tunnel_def act_def run_start_def dir_default_def flow_start_def pending_def
      flags_empty_def on_client_flags_def on_upstream_flags_def wants_read_def wants_write_def
      demo_turn_def no_flags_def ready_in_def ready_out_def read_from_def CHUNK_def)

theorem relay_no_loss_witness:
  "prefix (fl_sent (snd (tn_out demo_tunnel))) [1, 2, 3] \<and>
   length (in_flight (fst (tn_out demo_tunnel))) \<le> CHUNK"
  using relay_no_loss [OF demo_reach, of "tn_out demo_tunnel"] by (simp add: demo_flow)

theorem relay_end_witness:
  "\<exists>t'. run_turn IDLE (demo_turn\<lparr>t_poll := PollNone\<rparr>) (run_start 0) = Inl (t', Idle)"
proof -
  have r: "run_turn IDLE (demo_turn\<lparr>t_poll := PollNone\<rparr>) (run_start 0) =
      Inl (close_sinks (run_start 0), Idle)"
    by (simp add: run_turn_def Let_def close_sinks_def close_sink_def run_start_def dir_default_def
        flow_start_def pending_def dir_done_def flags_empty_def on_client_flags_def
        on_upstream_flags_def wants_read_def wants_write_def demo_turn_def no_flags_def IDLE_def)
  then show ?thesis using relay_end [OF relay_reach.start r] by blast
qed

end
