(* ===== verification/Bub_Log.thy ===== *)
theory Bub_Log
  imports Bub_Prelude
begin

text \<open>
  The contract of a log with a budget: a line is written, or it is counted and the count is
  announced later.  Both proxies keep such a log because every line is about something the
  sandbox did; the laws say what the count owes.  The egress proxy's window budget and the
  Wayland proxy's per-kind gap are instances.
\<close>

definition u64_max :: nat where
  "u64_max = 2 ^ 64 - 1"

definition saturating_add :: "nat \<Rightarrow> nat \<Rightarrow> nat" where
  "saturating_add a b = min (a + b) u64_max"

text \<open>A call answers the next state, whether the line went out, and the count it announced.\<close>

fun puts :: "('s \<Rightarrow> 'c \<Rightarrow> 's \<times> bool \<times> nat) \<Rightarrow> 's \<Rightarrow> 'c list \<Rightarrow> 's \<times> nat \<times> nat" where
  "puts put s [] = (s, 0, 0)"
| "puts put s (c # cs) =
     (case put s c of (s', wrote, announced) \<Rightarrow>
      case puts put s' cs of (s'', w, a) \<Rightarrow> (s'', of_bool wrote + w, announced + a))"

locale counted_log =
  fixes put :: "'s \<Rightarrow> 'c \<Rightarrow> 's \<times> bool \<times> nat"
    and owed :: "'s \<Rightarrow> nat"
  assumes put_conserves: "put s c = (s', wrote, announced) \<Longrightarrow> owed s < u64_max \<Longrightarrow>
    owed s' + announced + of_bool wrote = owed s + 1"
begin

lemma puts_conserve:
  assumes "puts put s cs = (s', written, announced)" and "owed s + length cs \<le> u64_max"
  shows "written + announced + owed s' = owed s + length cs"
  using assms
proof (induction cs arbitrary: s written announced)
  case Nil
  then show ?case by simp
next
  case (Cons c cs)
  obtain s1 wrote a1 where put: "put s c = (s1, wrote, a1)" by (cases "put s c") auto
  obtain w2 a2 where rest: "puts put s1 cs = (s', w2, a2)" "written = of_bool wrote + w2"
      "announced = a1 + a2"
    using Cons.prems(1) put by (auto split: prod.splits)
  have law: "owed s1 + a1 + of_bool wrote = owed s + 1"
    using put_conserves [OF put] Cons.prems(2) by simp
  with Cons.prems(2) have "owed s1 + length cs \<le> u64_max" by simp
  from Cons.IH [OF rest(1) this] law rest(2,3) show ?case by simp
qed

end

end
