(* ===== verification/Net_Log.thy ===== *)
theory Net_Log
  imports Bub_Log
begin

text \<open>
  The egress proxy's log (\<open>Log\<close> and \<open>Sink\<close> in \<^verbatim>\<open>crates/bubbler-net-proxy/src/main.rs\<close>): a budget
  of lines per window, the rest counted and announced when the window rolls.  The sink's
  output is the list of lines written.  The mutex makes one call atomic, so the state is
  passed through the calls in the order they took it.
\<close>

definition LOG_BUDGET :: nat where
  "LOG_BUDGET = 20"

definition LOG_WINDOW :: duration where
  "LOG_WINDOW = 10 ^ 9"

record Sink =
  sink_out :: "bytes list"
  window :: instant
  written :: nat
  suppressed :: nat

record Log =
  log_sink :: Sink
  verbose :: bool

definition log_new :: "instant \<Rightarrow> bool \<Rightarrow> Log" where
  "log_new now v = \<lparr>log_sink = \<lparr>sink_out = [], window = now, written = 0, suppressed = 0\<rparr>, verbose = v\<rparr>"

definition sink_put :: "bytes \<Rightarrow> Sink \<Rightarrow> Sink" where
  "sink_put msg s = s\<lparr>sink_out := sink_out s @ [str ''bubbler-net-proxy: '' @ msg]\<rparr>"

definition roll :: "instant \<Rightarrow> Sink \<Rightarrow> Sink" where
  "roll now s =
     (if now - window s \<ge> LOG_WINDOW then
        let swallowed = suppressed s; s' = s\<lparr>window := now, written := 0, suppressed := 0\<rparr> in
        if swallowed > 0
        then sink_put (str ''suppressed '' @ dec_digits swallowed @ str '' lines'') s' else s'
      else s)"

definition log_at :: "instant \<Rightarrow> bytes \<Rightarrow> Log \<Rightarrow> Log" where
  "log_at now msg l =
     (let s = roll now (log_sink l) in
      if written s \<ge> LOG_BUDGET
      then l\<lparr>log_sink := s\<lparr>suppressed := saturating_add (suppressed s) 1\<rparr>\<rparr>
      else l\<lparr>log_sink := sink_put msg (s\<lparr>written := written s + 1\<rparr>)\<rparr>)"

definition if_verbose :: "instant \<Rightarrow> bytes \<Rightarrow> Log \<Rightarrow> Log" where
  "if_verbose now msg l = (if verbose l then log_at now msg l else l)"

section \<open>What the count owes\<close>

text \<open>One call as the contract sees it: did the line go out, and what count was announced.\<close>

definition log_put :: "Log \<Rightarrow> instant \<times> bytes \<Rightarrow> Log \<times> bool \<times> nat" where
  "log_put l c =
     (let s = log_sink l; rolled = fst c - window s \<ge> LOG_WINDOW in
      (log_at (fst c) (snd c) l,
       written (roll (fst c) s) < LOG_BUDGET,
       if rolled then suppressed s else 0))"

definition log_owed :: "Log \<Rightarrow> nat" where
  "log_owed l = suppressed (log_sink l)"

lemma sink_put_simps [simp]:
  "window (sink_put m s) = window s" "written (sink_put m s) = written s"
  "suppressed (sink_put m s) = suppressed s"
  "sink_out (sink_put m s) = sink_out s @ [str ''bubbler-net-proxy: '' @ m]"
  by (simp_all add: sink_put_def)

interpretation net_log: counted_log log_put log_owed
proof unfold_locales
  fix l c l' w a
  assume "log_put l c = (l', w, a)" and "log_owed l < u64_max"
  then show "log_owed l' + a + of_bool w = log_owed l + 1"
    by (auto simp: log_put_def log_owed_def log_at_def roll_def Let_def saturating_add_def
        LOG_BUDGET_def split: if_splits)
qed

fun log_calls :: "Log \<Rightarrow> (instant \<times> bytes) list \<Rightarrow> Log" where
  "log_calls l [] = l"
| "log_calls l ((now, msg) # cs) = log_calls (log_at now msg l) cs"

lemma log_calls_puts: "fst (puts log_put l cs) = log_calls l cs"
  by (induction l cs rule: log_calls.induct) (simp_all add: log_put_def Let_def split_beta)

text \<open>The contract's two answers are what the sink shows.\<close>

lemma log_put_out:
  assumes "log_put l (now, msg) = (l', wrote, announced)"
  shows "sink_out (log_sink l') = sink_out (log_sink l) @
    (if announced > 0
     then [str ''bubbler-net-proxy: suppressed '' @ dec_digits announced @ str '' lines''] else []) @
    (if wrote then [str ''bubbler-net-proxy: '' @ msg] else [])"
  using assms by (auto simp: log_put_def log_at_def roll_def Let_def split: if_splits)

definition log_inv :: "Log \<Rightarrow> bool" where
  "log_inv l \<longleftrightarrow> written (log_sink l) \<le> LOG_BUDGET"

lemma log_inv_at: "log_inv l \<Longrightarrow> log_inv (log_at now msg l)"
  by (auto simp: log_inv_def log_at_def roll_def Let_def)

lemma log_inv_calls: "log_inv l \<Longrightarrow> log_inv (log_calls l cs)"
  by (induction l cs rule: log_calls.induct) (simp_all add: log_inv_at)

lemma log_at_window: "now < window (log_sink l) + LOG_WINDOW \<Longrightarrow>
    window (log_sink (log_at now msg l)) = window (log_sink l)"
  by (auto simp: log_at_def roll_def Let_def LOG_WINDOW_def)

lemma log_at_lines:
  assumes "now < window (log_sink l) + LOG_WINDOW" and "log_inv l"
  shows "length (sink_out (log_sink (log_at now msg l))) + written (log_sink l) =
    length (sink_out (log_sink l)) + written (log_sink (log_at now msg l))"
  using assms by (auto simp: log_at_def roll_def Let_def LOG_WINDOW_def)

lemma log_calls_window:
  assumes "\<forall>(now, msg) \<in> set cs. now < window (log_sink l) + LOG_WINDOW" and "log_inv l"
  shows "length (sink_out (log_sink (log_calls l cs))) + written (log_sink l) =
    length (sink_out (log_sink l)) + written (log_sink (log_calls l cs))"
  using assms
proof (induction l cs rule: log_calls.induct)
  case (1 l)
  then show ?case by simp
next
  case (2 l now msg cs)
  then have now: "now < window (log_sink l) + LOG_WINDOW" by simp
  have "length (sink_out (log_sink (log_calls (log_at now msg l) cs))) +
      written (log_sink (log_at now msg l)) =
      length (sink_out (log_sink (log_at now msg l))) +
      written (log_sink (log_calls (log_at now msg l) cs))"
    using 2 now by (intro "2.IH") (simp_all add: log_at_window log_inv_at)
  with log_at_lines [OF now "2.prems"(2), of msg] show ?case by simp
qed

text \<open>The log neither floods nor forgets: over any run of calls, the lines written, the lines
  announced as suppressed and the count still owed add up to the calls made; and calls that
  fall in one window put out at most \<open>LOG_BUDGET\<close> lines.\<close>

lemma net_log_accounts:
  assumes "length cs \<le> u64_max"
  shows "(\<exists>lines announced. puts log_put (log_new start v) cs = (log_calls (log_new start v) cs, lines, announced) \<and>
      lines + announced + suppressed (log_sink (log_calls (log_new start v) cs)) = length cs) \<and>
    ((\<forall>(now, msg) \<in> set cs. now < start + LOG_WINDOW) \<longrightarrow>
       length (sink_out (log_sink (log_calls (log_new start v) cs))) \<le> LOG_BUDGET)"
proof -
  let ?l = "log_new start v"
  obtain lines announced where p: "puts log_put ?l cs = (log_calls ?l cs, lines, announced)"
    using log_calls_puts [of ?l cs] by (metis prod.collapse)
  have "log_owed ?l = 0" by (simp add: log_owed_def log_new_def)
  with net_log.puts_conserve [OF p] assms
  have "lines + announced + suppressed (log_sink (log_calls ?l cs)) = length cs"
    by (simp add: log_owed_def)
  moreover have "log_inv ?l" by (simp add: log_inv_def log_new_def)
  then have "length (sink_out (log_sink (log_calls ?l cs))) \<le> LOG_BUDGET"
    if "\<forall>(now, msg) \<in> set cs. now < start + LOG_WINDOW"
    using log_calls_window [of cs ?l] log_inv_calls [of ?l cs] that
    by (simp add: log_new_def log_inv_def)
  ultimately show ?thesis using p by blast
qed

end
