(* ===== verification/Net_Main.thy ===== *)
theory Net_Main
  imports Net_Connect Net_Args Net_Relay Net_Log
begin

text \<open>
  One connection of the egress proxy (\<open>tunnel\<close> and what it calls in
  \<^verbatim>\<open>crates/bubbler-net-proxy/src/main.rs\<close>): reading the request under one deadline, judging
  it against the allowlist, resolving and dialling, opening the tunnel or refusing.  The
  kernel's answers are parameters; what the code does is the list of its actions.  Shown:
  the request read does not depend on how its bytes arrive; every address dialled belongs to
  a name the client asked for, an \<open>--allow\<close> word covers and a configured resolver answered,
  and does not point back inside the namespace; and no byte of a log line is under the
  client's control beyond the letters, digits, hyphens and dots of a checked name.
\<close>

definition MAX_TUNNELS :: nat where
  "MAX_TUNNELS = 64"

definition HEADER_TIMEOUT :: duration where
  "HEADER_TIMEOUT = 10 * 10 ^ 9"

definition CONNECT_TIMEOUT :: duration where
  "CONNECT_TIMEOUT = 10 * 10 ^ 9"

definition READ_CHUNK :: nat where
  "READ_CHUNK = 1024"

section \<open>What an accepted request is\<close>





section \<open>Reading the request\<close>

text \<open>One turn of the read loop: the clock, whether the timeout could be set, and what \<open>read\<close> gave.\<close>

record ReadEvent =
  re_now :: instant
  re_timeout_ok :: bool
  re_read :: ReadRes

definition is_timeout :: "IoKind \<Rightarrow> bool" where
  "is_timeout k \<longleftrightarrow> k = WouldBlock \<or> k = TimedOut"

text \<open>The head of the loop: an answer, or None for another read.\<close>

definition request_decision :: "bytes \<Rightarrow> (Status option + (ConnectRequest \<times> bytes)) option" where
  "request_decision buf =
     (case connect_parse buf of
        Inr request \<Rightarrow> Some (Inr (request, drop (req_consumed request) buf))
      | Inl status \<Rightarrow>
          if code status \<noteq> 0 then Some (Inl (Some status))
          else if length buf \<ge> MAX_HEADERS then Some (Inl (Some BAD_REQUEST))
          else None)"

text \<open>\<open>Inl (Some status)\<close> is answered, \<open>Inl None\<close> is a client that went away; \<open>None\<close> waits for more events.\<close>

fun read_request :: "instant \<Rightarrow> ReadEvent list \<Rightarrow> bytes \<Rightarrow>
    (Status option + (ConnectRequest \<times> bytes)) option" where
  "read_request deadline [] buf = request_decision buf"
| "read_request deadline (e # es) buf =
     (case request_decision buf of
        Some r \<Rightarrow> Some r
      | None \<Rightarrow>
          if deadline - re_now e = 0 then Some (Inl (Some REQUEST_TIMEOUT))
          else if \<not> re_timeout_ok e then Some (Inl None)
          else case re_read e of
                 RdOk data \<Rightarrow>
                   if take READ_CHUNK data = [] then Some (Inl None)
                   else read_request deadline es (buf @ take READ_CHUNK data)
               | RdErr k \<Rightarrow>
                   if k = Interrupted then read_request deadline es buf
                   else if is_timeout k then Some (Inl (Some REQUEST_TIMEOUT))
                   else Some (Inl None))"

section \<open>Dialling\<close>

datatype ConnRes = Connected | ConnErr IoKind

record DialEvent =
  de_now :: instant
  de_res :: ConnRes

text \<open>\<open>dial\<close>'s loop: the outcome and the addresses a connection was attempted to.\<close>

fun dial_loop :: "instant \<Rightarrow> (nat \<Rightarrow> DialEvent) \<Rightarrow> nat \<Rightarrow> bool \<Rightarrow> SocketAddr list \<Rightarrow>
    (Status + SocketAddr) \<times> SocketAddr list" where
  "dial_loop deadline env k late [] = (Inl (if late then GATEWAY_TIMEOUT else BAD_GATEWAY), [])"
| "dial_loop deadline env k late (addr # addrs) =
     (if is_inward (fst addr) then dial_loop deadline env k late addrs
      else if deadline - de_now (env k) = 0 then (Inl GATEWAY_TIMEOUT, [])
      else case de_res (env k) of
             Connected \<Rightarrow> (Inr addr, [addr])
           | ConnErr kind \<Rightarrow>
               (let (r, tried) = dial_loop deadline env (k + 1) (late \<or> kind = TimedOut) addrs
                in (r, addr # tried)))"

definition dial :: "instant \<Rightarrow> (nat \<Rightarrow> DialEvent) \<Rightarrow> DnsFail + SocketAddr list \<Rightarrow>
    (Status + SocketAddr) \<times> SocketAddr list" where
  "dial now env resolved =
     (case resolved of
        Inl _ \<Rightarrow> (Inl BAD_GATEWAY, [])
      | Inr addrs \<Rightarrow> dial_loop (now + CONNECT_TIMEOUT) env 0 False addrs)"

section \<open>One tunnel\<close>

text \<open>What the code does, in order: a log line, a line of the traffic log, a write to the client,
  a connection attempt, a write to the upstream, the relay, the shutdown of the client.\<close>

datatype Action = Line bytes | Verbose bytes | ToClient bytes | Dial SocketAddr | ToUpstream bytes
  | Relay | ShutClient

record TunnelEnv =
  te_now :: instant
  te_reads :: "ReadEvent list"
  te_resolve_now :: instant
  te_attempts :: "nat \<Rightarrow> Attempt"
  te_dial_now :: instant
  te_dials :: "nat \<Rightarrow> DialEvent"
  te_open_err :: "bytes option"
  te_relay_err :: "bytes option"
  te_refuse_err :: "bytes option"

definition status_fmt :: "Status \<Rightarrow> bytes" where
  "status_fmt s = dec_digits (unat (code s)) @ str '' '' @ reason s"

definition target_fmt :: "ConnectRequest \<Rightarrow> bytes" where
  "target_fmt r = req_host r @ str '':'' @ dec_digits (unat (req_port r))"

definition note_refusal :: "Status \<Rightarrow> Action list" where
  "note_refusal s =
     (let why = (if code s = 400 then str ''malformed request''
                 else if code s = 405 then str ''not CONNECT''
                 else if code s = 408 then str ''request header timed out''
                 else if code s = 414 then str ''request line too long''
                 else if code s = 503 then str ''too many tunnels''
                 else reason s)
      in [Line (str ''refused '' @ dec_digits (unat (code s)) @ str '' '' @ why)])"

definition refuse :: "bytes option \<Rightarrow> Status \<Rightarrow> Action list" where
  "refuse err s =
     [ToClient (response s)] @
     (case err of Some e \<Rightarrow> [Line (status_fmt s @ str '' not delivered: '' @ e)] | None \<Rightarrow> []) @
     [ShutClient]"

definition open_tunnel :: "bytes \<Rightarrow> Action list" where
  "open_tunnel buffered = [ToClient ESTABLISHED, ToUpstream buffered]"

definition tunnel :: "Allowlist \<Rightarrow> SocketAddr list \<Rightarrow> TunnelEnv \<Rightarrow> Action list option" where
  "tunnel al dns env =
     (case read_request (te_now env + HEADER_TIMEOUT) (te_reads env) [] of
        None \<Rightarrow> None
      | Some (Inl (Some status)) \<Rightarrow> Some (note_refusal status @ refuse (te_refuse_err env) status)
      | Some (Inl None) \<Rightarrow> Some []
      | Some (Inr (request, buffered)) \<Rightarrow> Some (
          if \<not> allowlist_matches al (req_host request) (req_port request) then
            [Line (str ''denied '' @ target_fmt request @ str '': no allow-host covers it'')] @
            refuse (te_refuse_err env) FORBIDDEN
          else
            (let (r, tried) = dial (te_dial_now env) (te_dials env)
                   (resolve_at (te_attempts env) (te_resolve_now env) (req_host request)
                      (req_port request) dns)
             in map Dial tried @
                (case r of
                   Inl status \<Rightarrow>
                     [Line (target_fmt request @ str '' not reached: '' @ status_fmt status)] @
                     refuse (te_refuse_err env) status
                 | Inr upstream \<Rightarrow>
                     open_tunnel buffered @
                     (case te_open_err env of
                        Some e \<Rightarrow> [Line (target_fmt request @ str '' tunnel not opened: '' @ e)]
                      | None \<Rightarrow>
                          [Verbose (str ''tunnel to '' @ target_fmt request), Relay] @
                          (case te_relay_err env of
                             Some e \<Rightarrow> [Line (target_fmt request @ str '' relay: '' @ e)]
                           | None \<Rightarrow> []))))))"

section \<open>The request, however it arrives\<close>

lemma split_line_Inl: "split_line buf from w over = Inl s \<Longrightarrow> s = over \<or> s = INCOMPLETE"
  by (auto simp: split_line_alt split: option.splits if_splits)

lemma request_line_Inl:
  "request_line l = Inl s \<Longrightarrow> s \<in> {BAD_REQUEST, FORBIDDEN, METHOD_NOT_ALLOWED, URI_TOO_LONG}"
  by (auto simp: request_line_def target_of_def rust_simps Let_def
      split: if_splits list.splits option.splits)

lemma header_loop_Inl: "header_loop buf at n h = Inl s \<Longrightarrow> s \<in> {BAD_REQUEST, INCOMPLETE}"
proof (induction buf at n h rule: header_loop.induct)
  case (1 buf at n h)
  have "field l = Inl s' \<Longrightarrow> s' = BAD_REQUEST" for l s'
    by (auto simp: field_def Let_def split: if_splits option.splits)
  with 1 show ?case
    by (auto simp: header_loop.simps [of buf at n h] split: if_splits sum.splits
        dest!: split_line_Inl)
qed

lemma connect_parse_Inl:
  assumes "connect_parse buf = Inl s"
  shows "s \<in> {INCOMPLETE, BAD_REQUEST, FORBIDDEN, METHOD_NOT_ALLOWED, URI_TOO_LONG}"
  using assms
  by (auto simp: connect_parse_def rust_simps split: if_splits
      dest!: split_line_Inl request_line_Inl header_loop_Inl)

lemma code_zero: "connect_parse buf = Inl s \<Longrightarrow> code s = 0 \<longleftrightarrow> s = INCOMPLETE"
  by (drule connect_parse_Inl) (auto simp: status_defs)

lemma split_line_full:
  assumes "split_line buf from w over = Inl INCOMPLETE" and "over \<noteq> INCOMPLETE"
    and "length buf = from + w" and "x \<noteq> []"
  shows "split_line (buf @ x) from w over = Inl over"
proof -
  have none: "position (\<lambda>b. b = 0x0a) (take w (drop from buf)) = None"
    using assms(1) by (auto simp: split_line_alt split: option.splits)
  have "take w (drop from (buf @ x)) = take w (drop from buf)" "w < length (drop from (buf @ x))"
    using assms(3,4) by simp_all
  with none show ?thesis by (simp only: split_line_alt option.simps if_True)
qed

lemma header_loop_full:
  assumes "header_loop buf at n h = Inl INCOMPLETE"
  shows "length buf \<le> MAX_HEADERS \<and>
    (length buf = MAX_HEADERS \<longrightarrow> x \<noteq> [] \<longrightarrow> header_loop (buf @ x) at n h = Inl BAD_REQUEST)"
  using assms
proof (induction buf at n h rule: header_loop.induct)
  case (1 buf at n h)
  note step = header_loop.simps [of buf at n h] header_loop.simps [of "buf @ x" at n h]
  from "1.prems" have lt: "\<not> MAX_HEADERS \<le> at" by (auto simp: step(1) split: if_splits)
  let ?sl = "split_line buf at (MAX_HEADERS - at) BAD_REQUEST"
  show ?case
  proof (cases ?sl)
    case (Inl s)
    with "1.prems" lt have inc: "?sl = Inl INCOMPLETE" by (simp add: step(1))
    from split_line_incomplete [OF inc] split_line_full [OF inc, of x] lt show ?thesis
      by (auto simp: step(2))
  next
    case (Inr le)
    obtain line e where le: "le = (line, e)" by (cases le)
    with "1.prems" lt Inr obtain f where f: "line \<noteq> []" "\<not> MAX_HEADER_COUNT < n + 1" "field line = Inr f"
        "header_loop buf e (n + 1) (if f then h + 1 else h) = Inl INCOMPLETE"
      by (auto simp: step(1) field_def Let_def split: if_splits sum.splits option.splits)
    have "split_line (buf @ x) at (MAX_HEADERS - at) BAD_REQUEST = ?sl"
      by (rule split_line_extend) (simp add: Inr)
    with "1.IH" [OF lt Inr le [symmetric] f] f lt Inr le show ?thesis
      by (simp add: step(2))
  qed
qed

lemma connect_parse_full:
  assumes "connect_parse buf = Inl INCOMPLETE"
  shows "length buf \<le> MAX_HEADERS \<and>
    (length buf = MAX_HEADERS \<longrightarrow> x \<noteq> [] \<longrightarrow> connect_parse (buf @ x) = Inl BAD_REQUEST)"
proof (cases "split_line buf 0 MAX_REQUEST_LINE URI_TOO_LONG")
  case (Inl s)
  with assms have "split_line buf 0 MAX_REQUEST_LINE URI_TOO_LONG = Inl INCOMPLETE"
    by (simp add: connect_parse_def)
  from split_line_incomplete [OF this] show ?thesis by (simp add: MAX_REQUEST_LINE_def MAX_HEADERS_def)
next
  case (Inr le)
  obtain line at where le: "le = (line, at)" by (cases le)
  with assms Inr obtain hp where hp: "request_line line = Inr hp"
      and hl: "header_loop buf at 0 0 = Inl INCOMPLETE"
    by (auto simp: connect_parse_def rust_simps split: if_splits dest!: request_line_Inl)
  have "split_line (buf @ x) 0 MAX_REQUEST_LINE URI_TOO_LONG = Inr (line, at)"
    using split_line_extend [of buf 0 MAX_REQUEST_LINE URI_TOO_LONG x] Inr le by simp
  with hp header_loop_full [OF hl, of x] show ?thesis
    by (auto simp: connect_parse_def split: prod.splits)
qed

text \<open>An event that keeps the read loop going: in time, and either bytes or an interruption.\<close>

definition in_time :: "instant \<Rightarrow> ReadEvent \<Rightarrow> bool" where
  "in_time deadline e \<longleftrightarrow> re_now e < deadline \<and> re_timeout_ok e \<and>
     (case re_read e of RdOk data \<Rightarrow> data \<noteq> [] \<and> length data \<le> READ_CHUNK | RdErr k \<Rightarrow> k = Interrupted)"

definition arrived :: "ReadEvent list \<Rightarrow> bytes" where
  "arrived es = concat (map (\<lambda>e. case re_read e of RdOk data \<Rightarrow> take READ_CHUNK data | RdErr _ \<Rightarrow> []) es)"

definition answer_of :: "Status + ConnectRequest \<Rightarrow> bytes \<Rightarrow> Status option + (ConnectRequest \<times> bytes)" where
  "answer_of parsed seen =
     (case parsed of Inl s \<Rightarrow> Inl (Some s) | Inr r \<Rightarrow> Inr (r, drop (req_consumed r) seen))"

lemma request_decision_final:
  assumes "connect_parse (buf @ x) \<noteq> Inl INCOMPLETE"
  shows "request_decision buf = Some (answer_of (connect_parse (buf @ x)) buf) \<or>
    (request_decision buf = None \<and> x \<noteq> [])"
proof (cases "connect_parse buf = Inl INCOMPLETE")
  case False
  with connect_parse_extend [OF False, of x] show ?thesis
    by (auto simp: request_decision_def answer_of_def code_zero split: sum.splits)
next
  case True
  with assms have "x \<noteq> []" by auto
  with connect_parse_full [OF True, of x] True show ?thesis
    by (auto simp: request_decision_def answer_of_def status_defs)
qed

lemma read_request_answer:
  assumes "\<forall>e \<in> set es. in_time deadline e"
    and "connect_parse (buf @ arrived es) \<noteq> Inl INCOMPLETE"
  shows "\<exists>seen. prefix seen (buf @ arrived es) \<and>
    read_request deadline es buf = Some (answer_of (connect_parse (buf @ arrived es)) seen)"
  using assms
proof (induction es arbitrary: buf)
  case Nil
  then show ?case using request_decision_final [of buf "[]"]
    by (intro exI [of _ buf]) (simp add: arrived_def)
next
  case (Cons e es)
  let ?data = "case re_read e of RdOk data \<Rightarrow> take READ_CHUNK data | RdErr _ \<Rightarrow> []"
  have arr: "arrived (e # es) = ?data @ arrived es" by (simp add: arrived_def)
  from request_decision_final [OF Cons.prems(2)] show ?case
  proof
    assume "request_decision buf = Some (answer_of (connect_parse (buf @ arrived (e # es))) buf)"
    then show ?thesis by (intro exI [of _ buf]) simp
  next
    assume "request_decision buf = None \<and> arrived (e # es) \<noteq> []"
    with Cons.prems(1) have "read_request deadline (e # es) buf = read_request deadline es (buf @ ?data)"
      by (auto simp: in_time_def READ_CHUNK_def split: ReadRes.splits)
    with Cons.IH [of "buf @ ?data"] Cons.prems show ?thesis by (simp add: arr)
  qed
qed

text \<open>C13. The request does not depend on how it arrives: cut into any pieces that come in time,
  with any interruptions between them, a byte stream that the parser decides gets exactly
  the parser's answer on the whole stream, and an accepted request leaves as tunnel data a
  prefix of what followed it.\<close>

theorem read_request_any_chunking:
  assumes "\<forall>e \<in> set es. in_time deadline e"
    and "connect_parse (arrived es) \<noteq> Inl INCOMPLETE"
  shows "\<exists>seen. prefix seen (arrived es) \<and>
    read_request deadline es [] =
      Some (case connect_parse (arrived es) of
              Inl status \<Rightarrow> Inl (Some status)
            | Inr r \<Rightarrow> Inr (r, drop (req_consumed r) seen))"
  using read_request_answer [of es deadline "[]"] assms by (simp add: answer_of_def)

definition demo_reads :: "ReadEvent list" where
  "demo_reads =
     [\<lparr>re_now = 1, re_timeout_ok = True, re_read = RdOk (take 9 demo_connect)\<rparr>,
      \<lparr>re_now = 2, re_timeout_ok = True, re_read = RdErr Interrupted\<rparr>,
      \<lparr>re_now = 3, re_timeout_ok = True, re_read = RdOk (drop 9 demo_connect)\<rparr>]"

lemma demo_reads_arrived: "arrived demo_reads = demo_connect"
  by (simp add: arrived_def demo_reads_def READ_CHUNK_def demo_connect_def crlf_def)

lemma demo_reads_in_time: "3 < deadline \<Longrightarrow> \<forall>e \<in> set demo_reads. in_time deadline e"
  by (simp add: demo_reads_def in_time_def READ_CHUNK_def demo_connect_def crlf_def)

theorem read_request_any_chunking_witness:
  "\<exists>rest. read_request 9 demo_reads [] =
     Some (Inr (\<lparr>req_host = str ''x'', req_port = 443, req_consumed = 36\<rparr>, rest))"
  using read_request_any_chunking [OF demo_reads_in_time, of 9, unfolded demo_reads_arrived demo_connect_parse]
  by auto

section \<open>What is dialled\<close>

lemma dial_loop_tried:
  "addr \<in> set (snd (dial_loop deadline env k late addrs)) \<Longrightarrow> addr \<in> set addrs \<and> \<not> is_inward (fst addr)"
  by (induction deadline env k late addrs rule: dial_loop.induct)
    (auto simp: Let_def split: if_splits ConnRes.splits prod.splits)

lemma dial_tried:
  "addr \<in> set (snd (dial now env resolved)) \<Longrightarrow>
     (\<exists>addrs. resolved = Inr addrs \<and> addr \<in> set addrs) \<and> \<not> is_inward (fst addr)"
  by (auto simp: dial_def split: sum.splits dest: dial_loop_tried)

lemma dial_loop_connected:
  "fst (dial_loop deadline env k late addrs) = Inr addr \<Longrightarrow>
     addr \<in> set (snd (dial_loop deadline env k late addrs))"
  by (induction deadline env k late addrs rule: dial_loop.induct)
    (auto simp: Let_def split: if_splits ConnRes.splits prod.splits)

lemma no_dial [simp]:
  "Dial a \<notin> set (note_refusal s)" "Dial a \<notin> set (refuse err s)" "Dial a \<notin> set (open_tunnel b)"
  by (auto simp: note_refusal_def refuse_def open_tunnel_def split: option.splits)

lemma tunnel_dial:
  assumes "tunnel al dns env = Some acts" and "Dial addr \<in> set acts"
  shows "\<exists>r buffered addrs.
    read_request (te_now env + HEADER_TIMEOUT) (te_reads env) [] = Some (Inr (r, buffered)) \<and>
    allowlist_matches al (req_host r) (req_port r) \<and>
    resolve_at (te_attempts env) (te_resolve_now env) (req_host r) (req_port r) dns = Inr addrs \<and>
    addr \<in> set addrs \<and> \<not> is_inward (fst addr)"
proof -
  from assms obtain r buffered where
      rr: "read_request (te_now env + HEADER_TIMEOUT) (te_reads env) [] = Some (Inr (r, buffered))"
    by (auto simp: tunnel_def split: option.splits sum.splits)
  with assms have m: "allowlist_matches al (req_host r) (req_port r)"
    by (auto simp: tunnel_def split: if_splits)
  with rr assms have "addr \<in> set (snd (dial (te_dial_now env) (te_dials env)
      (resolve_at (te_attempts env) (te_resolve_now env) (req_host r) (req_port r) dns)))"
    by (auto simp: tunnel_def split: prod.splits sum.splits option.splits)
  from dial_tried [OF this] rr m show ?thesis by blast
qed

lemma read_request_sound:
  "read_request deadline es buf = Some (Inr (r, rest)) \<Longrightarrow>
     \<exists>seen. prefix seen (buf @ arrived es) \<and> connect_parse seen = Inr r \<and> rest = drop (req_consumed r) seen"
proof (induction deadline es buf rule: read_request.induct)
  case (1 deadline buf)
  then show ?case
    by (intro exI [of _ buf]) (auto simp: request_decision_def arrived_def split: sum.splits if_splits)
next
  case (2 deadline e es buf)
  show ?case
  proof (cases "request_decision buf")
    case (Some d)
    with "2.prems" show ?thesis
      by (intro exI [of _ buf]) (auto simp: request_decision_def split: sum.splits if_splits)
  next
    case None
    with 2 show ?thesis
      by (auto simp: arrived_def split: if_splits ReadRes.splits)
  qed
qed

text \<open>C14. The proxy only reaches what it was given: if serving a connection attempts to connect to
  an address, then the client's own bytes are a well-formed request for a host and that
  port, one of the \<open>--allow\<close> words names this port and a pattern denoting that host, the
  address stands in an answer of one of the \<open>--dns\<close> resolvers to a question for that host,
  and it is not loopback, link-local or unspecified.\<close>

theorem tunnel_dials_only_allowed:
  assumes "allowlist_parse ws = Inr al" and "tunnel al dns env = Some acts"
    and "Dial (ip, port) \<in> set acts"
  shows "\<exists>seen r. prefix seen (arrived (te_reads env)) \<and> connect_parse seen = Inr r \<and>
    port = req_port r \<and> \<not> is_inward ip \<and>
    (\<exists>name digits p. name @ [0x3a] @ digits \<in> set ws \<and> pattern_parse name = Inr p \<and>
       port_word digits = Inr port \<and> host_ok (req_host r) \<and> denotes p (host_labels (req_host r))) \<and>
    (\<exists>j server qtype reply. server \<in> set dns \<and> qtype \<in> {TYPE_A, TYPE_AAAA} \<and>
       once (te_attempts env j) (req_host r) qtype server = Inr reply \<and> ip \<in> set (addresses reply))"
proof -
  obtain r buffered addrs where
      rr: "read_request (te_now env + HEADER_TIMEOUT) (te_reads env) [] = Some (Inr (r, buffered))" and
      m: "allowlist_matches al (req_host r) (req_port r)" and
      res: "resolve_at (te_attempts env) (te_resolve_now env) (req_host r) (req_port r) dns = Inr addrs" and
      addr: "(ip, port) \<in> set addrs" "\<not> is_inward ip"
    using tunnel_dial [OF assms(2,3)] by auto
  obtain seen where seen: "prefix seen (arrived (te_reads env))" "connect_parse seen = Inr r"
    using read_request_sound [OF rr] by auto
  have port: "port = req_port r" and origin: "\<exists>j server qtype reply. server \<in> set dns \<and>
      qtype \<in> {TYPE_A, TYPE_AAAA} \<and> once (te_attempts env j) (req_host r) qtype server = Inr reply \<and>
      ip \<in> set (addresses reply)"
    using resolve_at_origin [OF res addr(1)] by blast+
  from m port obtain p where p: "(p, port) \<in> set al" "denotes p (host_labels (req_host r))"
      "host_ok (req_host r)"
    by (auto simp: allowlist_matches_iff)
  then obtain w where "w \<in> set ws" "allow_entry w = Inr (p, port)"
    using allowlist_parse_set [OF assms(1)] by blast
  with p have "\<exists>name digits p. name @ [0x3a] @ digits \<in> set ws \<and> pattern_parse name = Inr p \<and>
      port_word digits = Inr port \<and> host_ok (req_host r) \<and> denotes p (host_labels (req_host r))"
    by (auto simp: allow_entry_iff)
  with seen port addr(2) origin show ?thesis by blast
qed

definition demo_tunnel_env :: TunnelEnv where
  "demo_tunnel_env = \<lparr>te_now = 0, te_reads = demo_reads, te_resolve_now = 0, te_attempts = demo_env,
     te_dial_now = 5, te_dials = (\<lambda>_. \<lparr>de_now = 6, de_res = Connected\<rparr>), te_open_err = None,
     te_relay_err = None, te_refuse_err = None\<rparr>"

lemma demo_allow: "allowlist_parse [str ''x:443''] = Inr [(\<lparr>labels = [str ''x''], wildcard = False\<rparr>, 443)]"
  by (simp add: allow_entry_def pattern_parse_def strip_or_def strip_suffix_def check_label_def
      MAX_NAME_def MAX_LABEL_def ascii_defs to_ascii_lowercase_def all_digits_def port_word_def
      parse_unsigned_def dec_val_def digit_val_def Let_def)

lemma demo_allow_matches:
  "allowlist_matches [(\<lparr>labels = [str ''x''], wildcard = False\<rparr>, 443)] (str ''x'') 443"
  by (simp add: allowlist_matches_def pattern_matches_def strip_or_def strip_suffix_def label_ok_def
      MAX_NAME_def MAX_LABEL_def ascii_defs eq_ignore_ascii_case_def Let_def)

lemma demo_tunnel_acts:
  "\<exists>acts. tunnel [(\<lparr>labels = [str ''x''], wildcard = False\<rparr>, 443)] [(V4 10 0 0 53, DNS_PORT)]
     demo_tunnel_env = Some acts \<and> Dial (V4 9 9 9 9, 443) \<in> set acts"
proof -
  obtain rest where rest: "read_request (te_now demo_tunnel_env + HEADER_TIMEOUT) (te_reads demo_tunnel_env) [] =
      Some (Inr (\<lparr>req_host = str ''x'', req_port = 443, req_consumed = 36\<rparr>, rest))"
    using read_request_answer [OF demo_reads_in_time, of HEADER_TIMEOUT "[]"]
    by (auto simp: demo_tunnel_env_def HEADER_TIMEOUT_def demo_reads_arrived demo_connect_parse
        answer_of_def simp del: str_Cons str_Nil)
  have "dial 5 (\<lambda>_. \<lparr>de_now = 6, de_res = Connected\<rparr>) (Inr [(V4 9 9 9 9, 443)]) =
      (Inr (V4 9 9 9 9, 443), [(V4 9 9 9 9, 443)])"
    by (simp add: dial_def v4_inward_def CONNECT_TIMEOUT_def)
  then show ?thesis
    unfolding tunnel_def rest
    using demo_allow_matches demo_resolve by (simp add: demo_tunnel_env_def del: str_Cons str_Nil)
qed

theorem tunnel_dials_only_allowed_witness:
  "\<exists>seen r. prefix seen demo_connect \<and> connect_parse seen = Inr r \<and> 443 = req_port r \<and>
     \<not> is_inward (V4 9 9 9 9)"
proof -
  obtain acts where acts: "tunnel [(\<lparr>labels = [str ''x''], wildcard = False\<rparr>, 443)]
      [(V4 10 0 0 53, DNS_PORT)] demo_tunnel_env = Some acts" "Dial (V4 9 9 9 9, 443) \<in> set acts"
    using demo_tunnel_acts by blast
  have reads: "arrived (te_reads demo_tunnel_env) = demo_connect"
    by (simp add: demo_tunnel_env_def demo_reads_arrived)
  from tunnel_dials_only_allowed [OF demo_allow acts] show ?thesis unfolding reads by blast
qed

section \<open>What the log says\<close>

definition printable :: "byte \<Rightarrow> bool" where
  "printable b \<longleftrightarrow> 0x20 \<le> b \<and> b \<le> 0x7e"

definition clean :: "bytes \<Rightarrow> bool" where
  "clean s \<longleftrightarrow> (\<forall>b \<in> set s. printable b)"

lemma clean_simps [simp]:
  "clean []" "clean (b # s) \<longleftrightarrow> printable b \<and> clean s" "clean (s @ t) \<longleftrightarrow> clean s \<and> clean t"
  by (auto simp: clean_def)

lemma clean_digits [simp]: "clean (dec_digits n)"
  using dec_digits_ascii [of _ n]
  by (auto simp: clean_def printable_def is_ascii_digit_def word_le_nat_alt) fastforce+

lemma alphanumeric_printable: "is_ascii_alphanumeric b \<Longrightarrow> printable b"
  by (auto simp: printable_def ascii_defs word_le_nat_alt)

lemma connect_parse_host: "connect_parse buf = Inr r \<Longrightarrow> host_name (req_host r)"
  by (auto simp: connect_parse_def rust_simps split: if_splits
      dest!: request_line_Inr target_of_Inr)

lemma host_name_clean:
  assumes "host_name h"
  shows "clean h"
proof -
  have "b = dot \<or> (\<exists>l \<in> set (split_on dot h). b \<in> set l)" if "b \<in> set h" for b
    using set_join [of "[dot]" "split_on dot h"] that by (auto simp: join_split_on)
  moreover have "printable b" if "l \<in> set (split_on dot h)" "b \<in> set l" for l b
  proof -
    from assms that have "is_ascii_alphanumeric b \<or> b = hyphen"
      by (auto simp: host_name_def label_ok_def)
    then show ?thesis using alphanumeric_printable by (auto simp: printable_def)
  qed
  moreover have "printable dot" by (simp add: printable_def)
  ultimately show ?thesis unfolding clean_def by blast
qed

lemma read_request_status:
  "read_request deadline es buf = Some (Inl (Some s)) \<Longrightarrow>
     s \<in> {BAD_REQUEST, FORBIDDEN, METHOD_NOT_ALLOWED, URI_TOO_LONG, REQUEST_TIMEOUT}"
proof (induction deadline es buf rule: read_request.induct)
  case (1 deadline buf)
  then show ?case
    by (auto simp: request_decision_def code_zero split: sum.splits if_splits dest: connect_parse_Inl)
next
  case (2 deadline e es buf)
  have "request_decision buf = Some (Inl (Some s)) \<Longrightarrow> ?case"
    by (auto simp: request_decision_def code_zero split: sum.splits if_splits dest: connect_parse_Inl)
  with 2 show ?case
    by (auto split: option.splits if_splits ReadRes.splits)
qed

lemma dial_loop_status:
  "fst (dial_loop deadline env k late addrs) = Inl s \<Longrightarrow> s \<in> {GATEWAY_TIMEOUT, BAD_GATEWAY}"
  by (induction deadline env k late addrs rule: dial_loop.induct)
    (auto simp: Let_def split: if_splits ConnRes.splits prod.splits)

lemma dial_status: "fst (dial now env resolved) = Inl s \<Longrightarrow> s \<in> {GATEWAY_TIMEOUT, BAD_GATEWAY}"
  by (auto simp: dial_def split: sum.splits dest!: dial_loop_status)

definition action_clean :: "Action \<Rightarrow> bool" where
  "action_clean a = (case a of Line l \<Rightarrow> clean l | Verbose l \<Rightarrow> clean l | _ \<Rightarrow> True)"

lemma action_clean_line [simp]:
  "action_clean (Line l) = clean l" "action_clean (Verbose l) = clean l"
  "action_clean (Dial a)" "action_clean (ToClient b)" "action_clean (ToUpstream b)"
  "action_clean Relay" "action_clean ShutClient"
  by (simp_all add: action_clean_def)

lemma refuse_clean:
  "a \<in> set (refuse err s) \<Longrightarrow> clean (reason s) \<Longrightarrow> (\<And>e. err = Some e \<Longrightarrow> clean e) \<Longrightarrow> action_clean a"
  by (auto simp: refuse_def action_clean_def status_fmt_def printable_def split: option.splits)

lemma note_refusal_clean: "a \<in> set (note_refusal s) \<Longrightarrow> clean (reason s) \<Longrightarrow> action_clean a"
  by (simp add: note_refusal_def action_clean_def Let_def printable_def)

lemma reasons_clean [simp]:
  "clean (reason BAD_REQUEST)" "clean (reason FORBIDDEN)" "clean (reason METHOD_NOT_ALLOWED)"
  "clean (reason URI_TOO_LONG)" "clean (reason REQUEST_TIMEOUT)" "clean (reason GATEWAY_TIMEOUT)"
  "clean (reason BAD_GATEWAY)"
  by (simp_all add: status_defs printable_def)

text \<open>C15. No line of the log is the client's to write: whatever bytes a client sends, every line
  that serving it writes consists of printable ASCII characters, so it can neither end a line
  nor carry a control sequence, as long as the system's own error texts do not.\<close>

theorem tunnel_log_clean:
  assumes "tunnel al dns env = Some acts" and "a \<in> set acts"
    and errs: "\<forall>e \<in> {te_open_err env, te_relay_err env, te_refuse_err env}. \<forall>t. e = Some t \<longrightarrow> clean t"
  shows "action_clean a"
proof -
  let ?rr = "read_request (te_now env + HEADER_TIMEOUT) (te_reads env) []"
  from assms(1) obtain res where res: "?rr = Some res" by (auto simp: tunnel_def split: option.splits)
  show ?thesis
  proof (cases res)
    case (Inl so)
    show ?thesis
    proof (cases so)
      case None
      with assms(1,2) res Inl show ?thesis by (simp add: tunnel_def)
    next
      case (Some s)
      have ok: "clean (reason s)"
        using read_request_status [of _ "te_reads env" "[]" s] res Inl Some by fastforce
      have "a \<in> set (note_refusal s) \<or> a \<in> set (refuse (te_refuse_err env) s)"
        using assms(1,2) res Inl Some by (auto simp: tunnel_def)
      then show ?thesis
        using note_refusal_clean [OF _ ok] refuse_clean [OF _ ok] errs by blast
    qed
  next
    case (Inr rb)
    obtain r b where rb: "rb = (r, b)" by (cases rb)
    obtain seen where "connect_parse seen = Inr r" using read_request_sound res Inr rb by blast
    then have t: "clean (target_fmt r)"
      by (simp add: target_fmt_def host_name_clean [OF connect_parse_host] printable_def)
    let ?d = "dial (te_dial_now env) (te_dials env)
      (resolve_at (te_attempts env) (te_resolve_now env) (req_host r) (req_port r) dns)"
    obtain o' tried where d: "?d = (o', tried)" by (cases ?d)
    have "clean (reason s)" if "o' = Inl s" for s
    proof -
      have "fst ?d = Inl s" using d that by simp
      from dial_status [OF this] show ?thesis by auto
    qed
    moreover have "clean (reason FORBIDDEN)" by simp
    moreover have "te_refuse_err env = Some e \<Longrightarrow> clean e" for e using errs by simp
    ultimately show ?thesis
      using assms(1,2) errs res Inr rb t d
      by (auto simp: tunnel_def open_tunnel_def status_fmt_def printable_def
          split: if_splits sum.splits option.splits elim!: refuse_clean)
  qed
qed

theorem tunnel_log_clean_witness:
  "\<exists>acts. tunnel [] [] demo_tunnel_env = Some acts \<and> (\<forall>a \<in> set acts. action_clean a)"
proof -
  have "\<exists>acts. tunnel [] [] demo_tunnel_env = Some acts"
    using read_request_answer [OF demo_reads_in_time, of HEADER_TIMEOUT "[]"]
    by (auto simp: tunnel_def demo_tunnel_env_def HEADER_TIMEOUT_def demo_reads_arrived
        demo_connect_parse answer_of_def)
  then obtain acts where acts: "tunnel [] [] demo_tunnel_env = Some acts" by blast
  have "action_clean a" if "a \<in> set acts" for a
    by (rule tunnel_log_clean [OF acts that]) (simp add: demo_tunnel_env_def)
  with acts show ?thesis by blast
qed

text \<open>A target that is an address is refused with 403 while the request is read, so the line of
  \<open>note_refusal\<close> for it is the one of its last branch.\<close>

lemma address_target_forbidden:
  "request_line (str ''CONNECT 10.0.0.1:80 HTTP/1.1'') = Inl FORBIDDEN \<and>
   note_refusal FORBIDDEN = [Line (str ''refused 403 Forbidden'')]"
  by (simp add: request_line_def target_of_def visible_def MAX_TARGET_def parse_unsigned_def
      dec_val_def digit_val_def all_digits_def strip_or_def strip_suffix_def ascii_defs
      note_refusal_def status_defs dec_digits.simps)

end
