(* ===== verification/Net_Serve.thy ===== *)
theory Net_Serve
  imports Net_Main
begin

text \<open>
  The egress proxy as a process (\<open>main\<close>, \<open>serve\<close> and \<open>Live\<close> in
  \<^verbatim>\<open>crates/bubbler-net-proxy/src/main.rs\<close>): what it does before it listens, and the accept
  loop with its tunnel threads.  The loop's check of the counter and its increment are two
  steps, the threads' decrements may fall between them, and a thread gives its slot back before
  it ends; the step relation has all such interleavings.  Shown: no interleaving serves more than
  \<open>MAX_TUNNELS\<close> tunnels at once, every slot taken is given back, and a client is refused for want of
  a slot only while that many tunnels are being served.
\<close>

section \<open>Start\<close>

datatype Started = Usage | BadAllow AllowError | BadLog | Serving Allowlist "SocketAddr list" u16

text \<open>\<open>adopts\<close> says which descriptors \<open>adopt\<close> takes over.\<close>

definition start :: "(int \<Rightarrow> bool) \<Rightarrow> bytes list \<Rightarrow> Started" where
  "start adopts argv =
     (case parse_from argv of
        None \<Rightarrow> Usage
      | Some args \<Rightarrow>
          (case allowlist_parse (a_allow args) of
             Inl why \<Rightarrow> BadAllow why
           | Inr list \<Rightarrow>
               if (case a_log_fd args of Some fd \<Rightarrow> \<not> adopts fd | None \<Rightarrow> False) then BadLog
               else Serving list (map (\<lambda>ip. (ip, DNS_PORT)) (a_dns args)) (a_port args)))"

fun exit_code :: "Started \<Rightarrow> nat option" where
  "exit_code Usage = Some 2"
| "exit_code (BadAllow _) = Some 2"
| "exit_code BadLog = Some 1"
| "exit_code (Serving _ _ _) = None"

text \<open>The head of \<open>serve\<close>: the ready byte goes out only once the listener is bound.  Each flag is
  whether the system call succeeded; the value on success is the ready byte written and the
  traffic line.\<close>

datatype ServeFail = BindFailed | AdoptFailed | ReadyFailed

definition READY :: byte where
  "READY = 1"

definition serve_begin :: "bool \<Rightarrow> bool \<Rightarrow> bool \<Rightarrow> Allowlist \<Rightarrow> u16 \<Rightarrow> ServeFail + (bytes \<times> Action)" where
  "serve_begin bound adopted wrote list port =
     (if \<not> bound then Inl BindFailed
      else if \<not> adopted then Inl AdoptFailed
      else if \<not> wrote then Inl ReadyFailed
      else Inr ([READY],
        Verbose (str ''listening on 127.0.0.1:'' @ dec_digits (unat port) @ str '' for '' @
                 dec_digits (allowlist_len list) @ str '' allowed targets'')))"

section \<open>The accept loop\<close>

text \<open>Where the accepting thread is between its atomic steps.\<close>

datatype Accepting = AtAccept | SlotSeen | SlotTaken

text \<open>\<open>serving\<close> counts the threads inside \<open>tunnel\<close>, each with its \<open>Live\<close>; \<open>leaving\<close> the ones past \<open>drop(held)\<close> that
  have not ended.  The counter is an \<open>AtomicUsize\<close>, which wraps in both directions.\<close>

record Serve =
  live :: nat
  at :: Accepting
  serving :: nat
  leaving :: nat
  refused :: nat

definition serve_start :: Serve where
  "serve_start = \<lparr>live = 0, at = AtAccept, serving = 0, leaving = 0, refused = 0\<rparr>"

definition live_take :: "Serve \<Rightarrow> Serve" where
  "live_take s = s\<lparr>live := (live s + 1) mod 2 ^ 64\<rparr>"

definition live_drop :: "Serve \<Rightarrow> Serve" where
  "live_drop s = s\<lparr>live := (live s + (2 ^ 64 - 1)) mod 2 ^ 64\<rparr>"

inductive serve_step :: "Serve \<Rightarrow> Serve \<Rightarrow> bool" where
  accept_failed: "at s = AtAccept \<Longrightarrow> serve_step s s"
| accept_full: "at s = AtAccept \<Longrightarrow> live s \<ge> MAX_TUNNELS \<Longrightarrow> serve_step s (s\<lparr>refused := refused s + 1\<rparr>)"
| accept_room: "at s = AtAccept \<Longrightarrow> live s < MAX_TUNNELS \<Longrightarrow> serve_step s (s\<lparr>at := SlotSeen\<rparr>)"
| take_slot: "at s = SlotSeen \<Longrightarrow> serve_step s ((live_take s)\<lparr>at := SlotTaken\<rparr>)"
| spawned: "at s = SlotTaken \<Longrightarrow> serve_step s (s\<lparr>at := AtAccept, serving := serving s + 1\<rparr>)"
| spawn_failed: "at s = SlotTaken \<Longrightarrow> serve_step s ((live_drop s)\<lparr>at := AtAccept\<rparr>)"
| slot_returned: "serving s > 0 \<Longrightarrow>
    serve_step s ((live_drop s)\<lparr>serving := serving s - 1, leaving := leaving s + 1\<rparr>)"
| thread_ended: "leaving s > 0 \<Longrightarrow> serve_step s (s\<lparr>leaving := leaving s - 1\<rparr>)"

inductive_cases serve_stepE: "serve_step s s'"

definition serve_inv :: "Serve \<Rightarrow> bool" where
  "serve_inv s \<longleftrightarrow>
     live s = serving s + (if at s = SlotTaken then 1 else 0) \<and> live s \<le> MAX_TUNNELS \<and>
     (at s = SlotSeen \<longrightarrow> live s < MAX_TUNNELS)"

lemma live_take_room: "live s < MAX_TUNNELS \<Longrightarrow> live_take s = s\<lparr>live := live s + 1\<rparr>"
  by (simp add: live_take_def MAX_TUNNELS_def)

lemma live_drop_pos: "0 < live s \<Longrightarrow> live s \<le> MAX_TUNNELS \<Longrightarrow> live_drop s = s\<lparr>live := live s - 1\<rparr>"
  by (cases "live s") (simp_all add: live_drop_def MAX_TUNNELS_def)

lemma serve_inv_step:
  assumes "serve_step s s'" and "serve_inv s"
  shows "serve_inv s'"
proof -
  have "0 < live s" if "at s = SlotTaken \<or> 0 < serving s" using that assms(2) by (auto simp: serve_inv_def)
  with assms live_take_room [of s] live_drop_pos [of s] show ?thesis
    by (auto simp: serve_inv_def elim!: serve_stepE)
qed

lemma serve_inv_reach: "serve_step\<^sup>*\<^sup>* serve_start s \<Longrightarrow> serve_inv s"
proof (induction rule: rtranclp_induct)
  case base
  then show ?case by (simp add: serve_inv_def serve_start_def MAX_TUNNELS_def)
next
  case (step s s')
  then show ?case using serve_inv_step by blast
qed

lemma refused_when_full: "serve_step s s' \<Longrightarrow> refused s' \<noteq> refused s \<Longrightarrow> at s = AtAccept \<and> live s \<ge> MAX_TUNNELS"
  by (auto simp: live_take_def live_drop_def elim: serve_stepE)

text \<open>C16. However the accept loop and the tunnel threads interleave, at most \<open>MAX_TUNNELS\<close> threads are inside
  \<open>tunnel\<close> with a slot, the counter neither passes that bound nor wraps, and it counts exactly those threads
  plus the slot the accept loop is about to hand to one: a slot is never lost.  A client is refused for want
  of a slot only in a state where \<open>MAX_TUNNELS\<close> tunnels are being served.  A thread that has given its slot
  back and not yet ended is not counted, in the program as here.\<close>

theorem tunnels_bounded:
  assumes "serve_step\<^sup>*\<^sup>* serve_start s"
  shows "serving s \<le> MAX_TUNNELS \<and> live s \<le> MAX_TUNNELS \<and>
    live s = serving s + (if at s = SlotTaken then 1 else 0) \<and>
    (\<forall>s'. serve_step s s' \<and> refused s' \<noteq> refused s \<longrightarrow> serving s = MAX_TUNNELS)"
  using serve_inv_reach [OF assms] refused_when_full [of s] by (fastforce simp: serve_inv_def split: if_splits)

theorem tunnels_bounded_witness:
  "serving \<lparr>live = 1, at = AtAccept, serving = 1, leaving = 0, refused = 0\<rparr> \<le> MAX_TUNNELS"
proof -
  let ?a = "serve_start\<lparr>at := SlotSeen\<rparr>"
  let ?b = "(live_take ?a)\<lparr>at := SlotTaken\<rparr>"
  let ?c = "?b\<lparr>at := AtAccept, serving := serving ?b + 1\<rparr>"
  have s1: "serve_step serve_start ?a"
    by (rule accept_room) (simp_all add: serve_start_def MAX_TUNNELS_def)
  have s2: "serve_step ?a ?b" by (rule take_slot) simp
  have s3: "serve_step ?b ?c" by (rule spawned) simp
  have "serve_step\<^sup>*\<^sup>* serve_start ?c"
    by (rule converse_rtranclp_into_rtranclp [OF s1 converse_rtranclp_into_rtranclp [OF s2
            r_into_rtranclp [of serve_step, OF s3]]])
  moreover have "?c = \<lparr>live = 1, at = AtAccept, serving = 1, leaving = 0, refused = 0\<rparr>"
    by (simp add: serve_start_def live_take_def)
  ultimately have "serve_step\<^sup>*\<^sup>* serve_start \<lparr>live = 1, at = AtAccept, serving = 1, leaving = 0, refused = 0\<rparr>" by simp
  from tunnels_bounded [OF this] show ?thesis by blast
qed

lemma start_serving:
  assumes "start adopts argv = Serving al dns port"
  shows "port \<noteq> 0 \<and> dns \<noteq> [] \<and> al \<noteq> []"
proof -
  from assms obtain args where args: "parse_from argv = Some args" "allowlist_parse (a_allow args) = Inr al"
      "dns = map (\<lambda>ip. (ip, DNS_PORT)) (a_dns args)" "port = a_port args"
    by (auto simp: start_def split: option.splits sum.splits if_splits)
  have "allowlist_parse ws = Inr [] \<Longrightarrow> ws = []" for ws
    by (cases ws) (auto simp: rust_simps)
  with args parse_from_ok [OF args(1)] show ?thesis by auto
qed

end
