(* ===== verification/Wl_Wire.thy ===== *)
theory Wl_Wire
  imports Bub_Codec
begin

text \<open>
  The Wayland wire format (\<^verbatim>\<open>crates/bubbler-wl-proxy/src/wire.rs\<close>, with the argument kinds of
  \<^verbatim>\<open>tables.rs\<close>): the eight-byte header and the arguments a signature lays out.  The wire is
  native-endian; the model fixes the little-endian order of the supported machines.  A signed
  integer is kept as its 32-bit word, which is what the casts do.  Shown: the header codec
  accepts exactly what it writes; an encoded message decodes to its arguments; and a message
  the proxy decoded, re-encoded, has the same length and decodes to the same arguments, so
  both ends see one message.
\<close>

datatype ArgKind = KInt | KUint | KFixed | KString | KObject | KNewId | KArray | KFd

definition HEADER :: nat where
  "HEADER = 8"

datatype WireError = NeedMore | BadSize u16 | Truncated | Trailing nat | BadString | TooLarge nat

record Header =
  h_object :: u32
  h_opcode :: u16
  h_size :: u16

datatype Arg =
    ArgInt u32 | ArgUint u32 | ArgFixed u32 | ArgString "bytes option" | ArgObject u32
  | ArgNewId u32 | ArgArray bytes | ArgFd

definition header_decode :: "bytes \<Rightarrow> WireError + Header" where
  "header_decode buf =
     (case take HEADER buf of
        [a, b, c, d, e, f, g, h] \<Rightarrow>
          let object = le_u32 a b c d; word = le_u32 e f g h;
              opcode = ucast (word AND 0xFFFF); size = ucast (drop_bit 16 word)
          in if unat (size :: u16) < HEADER \<or> \<not> 4 dvd unat size then Inl (BadSize size)
             else Inr \<lparr>h_object = object, h_opcode = opcode, h_size = size\<rparr>
      | _ \<Rightarrow> Inl NeedMore)"

definition header_encode :: "Header \<Rightarrow> bytes" where
  "header_encode h =
     u32_le (h_object h) @ u32_le (push_bit 16 (ucast (h_size h)) OR ucast (h_opcode h))"

definition take_word :: "bytes \<Rightarrow> nat \<Rightarrow> WireError + (u32 \<times> nat)" where
  "take_word body at =
     res_bind (ok_or Truncated (checked_add at 4)) (\<lambda>e.
     res_bind (ok_or Truncated (get_range body at e)) (\<lambda>word.
       Inr (le_u32 (word ! 0) (word ! 1) (word ! 2) (word ! 3), e)))"

definition next_multiple_4 :: "nat \<Rightarrow> nat" where
  "next_multiple_4 n = (n + 3) div 4 * 4"

definition checked_next_multiple_4 :: "nat \<Rightarrow> nat option" where
  "checked_next_multiple_4 n = (if next_multiple_4 n \<le> usize_max then Some (next_multiple_4 n) else None)"

definition take_bytes :: "bytes \<Rightarrow> nat \<Rightarrow> nat \<Rightarrow> WireError + (bytes \<times> nat)" where
  "take_bytes body at len =
     res_bind (ok_or Truncated (checked_next_multiple_4 len)) (\<lambda>padded.
     res_bind (ok_or Truncated (checked_add at len)) (\<lambda>e.
     res_bind (ok_or Truncated (checked_add at padded)) (\<lambda>past.
       if past > length body then Inl Truncated
       else res_bind (ok_or Truncated (get_range body at e)) (\<lambda>bytes. Inr (bytes, past)))))"

definition put_bytes :: "bytes \<Rightarrow> WireError + bytes" where
  "put_bytes bytes =
     (if length bytes > 2 ^ 32 - 1 then Inl (TooLarge (length bytes))
      else Inr (u32_le (of_nat (length bytes)) @ bytes @ replicate ((4 - length bytes mod 4) mod 4) 0))"

text \<open>\<open>CString::new\<close> refuses an embedded NUL.\<close>

definition cstring :: "bytes \<Rightarrow> WireError + bytes" where
  "cstring text = (if 0 \<in> set text then Inl BadString else Inr text)"

definition decode_one :: "ArgKind \<Rightarrow> bytes \<Rightarrow> nat \<Rightarrow> WireError + (Arg \<times> nat)" where
  "decode_one kind body at =
     (case kind of
        KInt \<Rightarrow> res_bind (take_word body at) (\<lambda>(w, at). Inr (ArgInt w, at))
      | KUint \<Rightarrow> res_bind (take_word body at) (\<lambda>(w, at). Inr (ArgUint w, at))
      | KFixed \<Rightarrow> res_bind (take_word body at) (\<lambda>(w, at). Inr (ArgFixed w, at))
      | KObject \<Rightarrow> res_bind (take_word body at) (\<lambda>(w, at). Inr (ArgObject w, at))
      | KNewId \<Rightarrow> res_bind (take_word body at) (\<lambda>(w, at). Inr (ArgNewId w, at))
      | KString \<Rightarrow>
          res_bind (take_word body at) (\<lambda>(w, at).
            if unat w = 0 then Inr (ArgString None, at)
            else res_bind (take_bytes body at (unat w)) (\<lambda>(bytes, at).
              if bytes = [] \<or> last bytes \<noteq> 0 then Inl BadString
              else res_bind (cstring (butlast bytes)) (\<lambda>text. Inr (ArgString (Some text), at))))
      | KArray \<Rightarrow>
          res_bind (take_word body at) (\<lambda>(w, at).
          res_bind (take_bytes body at (unat w)) (\<lambda>(bytes, at). Inr (ArgArray bytes, at)))
      | KFd \<Rightarrow> Inr (ArgFd, at))"

fun decode_body :: "ArgKind list \<Rightarrow> bytes \<Rightarrow> nat \<Rightarrow> WireError + (Arg list \<times> nat)" where
  "decode_body [] body at = Inr ([], at)"
| "decode_body (k # ks) body at =
     res_bind (decode_one k body at) (\<lambda>(a, at).
     res_bind (decode_body ks body at) (\<lambda>(as, at). Inr (a # as, at)))"

definition decode :: "bytes \<Rightarrow> ArgKind list \<Rightarrow> WireError + (Arg list \<times> nat)" where
  "decode buf sig =
     res_bind (header_decode buf) (\<lambda>h.
       let size = unat (h_size h) in
       res_bind (ok_or NeedMore (get_range buf HEADER size)) (\<lambda>body.
       res_bind (decode_body sig body 0) (\<lambda>(args, at).
         if at \<noteq> length body then Inl (Trailing (length body - at))
         else Inr (args, size))))"

fun encode_one :: "Arg \<Rightarrow> WireError + bytes" where
  "encode_one (ArgInt w) = Inr (u32_le w)"
| "encode_one (ArgFixed w) = Inr (u32_le w)"
| "encode_one (ArgUint w) = Inr (u32_le w)"
| "encode_one (ArgObject w) = Inr (u32_le w)"
| "encode_one (ArgNewId w) = Inr (u32_le w)"
| "encode_one (ArgString None) = Inr (u32_le 0)"
| "encode_one (ArgString (Some text)) = put_bytes (text @ [0])"
| "encode_one (ArgArray bytes) = put_bytes bytes"
| "encode_one ArgFd = Inr []"

fun encode_body :: "Arg list \<Rightarrow> WireError + bytes" where
  "encode_body [] = Inr []"
| "encode_body (a # as) =
     res_bind (encode_one a) (\<lambda>b. res_bind (encode_body as) (\<lambda>bs. Inr (b @ bs)))"

definition encode :: "u32 \<Rightarrow> u16 \<Rightarrow> Arg list \<Rightarrow> WireError + bytes" where
  "encode object opcode args =
     res_bind (encode_body args) (\<lambda>body.
       let len = HEADER + length body in
       if len > 65535 then Inl (TooLarge len)
       else Inr (header_encode \<lparr>h_object = object, h_opcode = opcode, h_size = of_nat len\<rparr> @ body))"

definition fd_count :: "ArgKind list \<Rightarrow> nat" where
  "fd_count sig = length (filter (\<lambda>k. k = KFd) sig)"

section \<open>The header\<close>

lemma header_word:
  fixes size opcode :: u16
  shows "ucast ((push_bit 16 (ucast size) OR ucast opcode :: u32) AND 0xFFFF) = opcode"
    and "ucast (drop_bit 16 (push_bit 16 (ucast size) OR ucast opcode :: u32)) = size"
proof -
  have lt: "\<not> bit (w :: u16) (16 + n)" for w n using bit_imp_le_length [of w "16 + n"] by auto
  have ffff: "(0xFFFF :: u32) = mask 16" by (simp add: mask_eq_exp_minus_1)
  show "ucast ((push_bit 16 (ucast size) OR ucast opcode :: u32) AND 0xFFFF) = opcode"
    unfolding ffff by (rule bit_word_eqI) (auto simp: bit_simps)
  show "ucast (drop_bit 16 (push_bit 16 (ucast size) OR ucast opcode :: u32)) = size"
    by (rule bit_word_eqI) (auto simp: bit_simps lt)
qed

lemma word_header:
  "push_bit 16 (ucast (ucast (drop_bit 16 w) :: u16)) OR ucast (ucast (w AND 0xFFFF) :: u16) = (w :: u32)"
proof (rule bit_word_eqI)
  fix n :: nat
  assume "n < LENGTH(32)"
  have ffff: "(0xFFFF :: u32) = mask 16" by (simp add: mask_eq_exp_minus_1)
  show "bit (push_bit 16 (ucast (ucast (drop_bit 16 w) :: u16)) OR
      ucast (ucast (w AND 0xFFFF) :: u16) :: u32) n = bit w n"
    unfolding ffff using \<open>n < LENGTH(32)\<close> by (auto simp: bit_simps)
qed

definition header_ok :: "Header \<Rightarrow> bool" where
  "header_ok h \<longleftrightarrow> HEADER \<le> unat (h_size h) \<and> 4 dvd unat (h_size h)"

lemma header_decode_words:
  "header_decode (u32_le object @ u32_le word @ rest) =
     (let size = ucast (drop_bit 16 word) in
      if unat (size :: u16) < HEADER \<or> \<not> 4 dvd unat size then Inl (BadSize size)
      else Inr \<lparr>h_object = object, h_opcode = ucast (word AND 0xFFFF), h_size = size\<rparr>)"
  by (simp add: header_decode_def HEADER_def u32_le_def Let_def)

lemma header_decode_encode: "header_ok h \<Longrightarrow> header_decode (header_encode h @ rest) = Inr h"
  unfolding header_encode_def append.assoc header_decode_words header_word
  by (simp add: header_ok_def not_less)

lemma list8: "length xs = 8 \<Longrightarrow> \<exists>a b c d e f g h. xs = [a, b, c, d, e, f, g, h]"
  by (auto simp: numeral_eq_Suc length_Suc_conv)

lemma header_decode_short: "length buf < HEADER \<Longrightarrow> header_decode buf = Inl NeedMore"
  by (auto simp: header_decode_def HEADER_def split: list.splits)

lemma header_decode_Inr:
  assumes "header_decode buf = Inr h"
  shows "header_ok h \<and> take HEADER buf = header_encode h \<and> HEADER \<le> length buf"
proof -
  have len: "HEADER \<le> length buf"
    using assms header_decode_short [of buf] by (cases "length buf < HEADER") auto
  then obtain a b c d e f g k where "take HEADER buf = [a, b, c, d, e, f, g, k]"
    using list8 [of "take HEADER buf"] by (auto simp: HEADER_def)
  with assms len show ?thesis
    by (auto simp: header_decode_def Let_def header_ok_def header_encode_def word_header not_less
        split: if_splits)
qed

lemma length_header_encode [simp]: "length (header_encode h) = HEADER"
  by (simp add: header_encode_def HEADER_def)

text \<open>On a buffer of exactly a header's length the header is an exact codec.\<close>

definition header_only :: "bytes \<Rightarrow> WireError + Header" where
  "header_only b = (if length b = HEADER then header_decode b else Inl NeedMore)"

interpretation wl_header: exact_codec header_encode header_only header_ok
proof unfold_locales
  fix h
  assume "header_ok h"
  then show "header_only (header_encode h) = Inr h"
    using header_decode_encode [of h "[]"] by (simp add: header_only_def)
next
  fix b h
  assume "header_only b = Inr h"
  then show "header_ok h \<and> header_encode h = b"
    using header_decode_Inr [of b h] by (auto simp: header_only_def split: if_splits)
qed

section \<open>The arguments\<close>

lemma take_word_eq: "take_word body at = ok_or Truncated (read_u32_le body at)"
proof (cases "at + 4 \<le> usize_max \<and> at + 4 \<le> length body")
  case True
  then have "length (take 4 (drop at body)) = 4" by auto
  then obtain a b c d where "take 4 (drop at body) = [a, b, c, d]" using list4 by blast
  then have "get_range body at (at + 4) = Some [a, b, c, d]" using True by (simp add: get_range_def)
  with True show ?thesis by (simp add: take_word_def read_u32_le_def checked_add_def)
next
  case False
  then have "read_u32_le body at = None" using read_u32_le_None by blast
  moreover from False have "take_word body at = Inl Truncated"
    by (auto simp: take_word_def checked_add_def get_range_def)
  ultimately show ?thesis by simp
qed

lemma next_multiple_4: "n \<le> next_multiple_4 n \<and> next_multiple_4 n = n + (4 - n mod 4) mod 4"
proof -
  define q where "q = n div 4"
  have "n mod 4 < 4" by simp
  then consider "n mod 4 = 0" | "n mod 4 = 1" | "n mod 4 = 2" | "n mod 4 = 3" by linarith
  then have "next_multiple_4 n = n + (4 - n mod 4) mod 4"
  proof cases
    case 1
    then have "n = 4 * q" unfolding q_def by auto
    then show ?thesis by (simp add: next_multiple_4_def)
  next
    case 2
    then have "n = 4 * q + 1" unfolding q_def by (metis mult_div_mod_eq)
    then show ?thesis by (simp add: next_multiple_4_def)
  next
    case 3
    then have "n = 4 * q + 2" unfolding q_def by (metis mult_div_mod_eq)
    then have "next_multiple_4 n = n + 2" by (simp add: next_multiple_4_def)
    with 3 show ?thesis by simp
  next
    case 4
    then have "n = 4 * q + 3" unfolding q_def by (metis mult_div_mod_eq)
    then show ?thesis by (simp add: next_multiple_4_def)
  qed
  then show ?thesis by simp
qed

lemma take_bytes_Inr:
  "take_bytes body at len = Inr (bytes, past) \<longleftrightarrow>
     past = at + next_multiple_4 len \<and> past \<le> usize_max \<and> past \<le> length body \<and>
     bytes = take len (drop at body)"
  using next_multiple_4 [of len]
  by (auto simp: take_bytes_def checked_next_multiple_4_def checked_add_def get_range_def rust_simps
      split: if_splits)

lemma put_bytes_Inr:
  "put_bytes bytes = Inr out \<longleftrightarrow> length bytes < 2 ^ 32 \<and>
     out = u32_le (of_nat (length bytes)) @ bytes @ replicate (next_multiple_4 (length bytes) - length bytes) 0"
  using next_multiple_4 [of "length bytes"] by (auto simp: put_bytes_def)

fun arg_kind :: "Arg \<Rightarrow> ArgKind" where
  "arg_kind (ArgInt _) = KInt"
| "arg_kind (ArgUint _) = KUint"
| "arg_kind (ArgFixed _) = KFixed"
| "arg_kind (ArgString _) = KString"
| "arg_kind (ArgObject _) = KObject"
| "arg_kind (ArgNewId _) = KNewId"
| "arg_kind (ArgArray _) = KArray"
| "arg_kind ArgFd = KFd"

fun arg_ok :: "Arg \<Rightarrow> bool" where
  "arg_ok (ArgString (Some text)) \<longleftrightarrow> 0 \<notin> set text"
| "arg_ok _ \<longleftrightarrow> True"

text \<open>Where the encoding of one argument is, decoding finds that argument.\<close>

lemma take_word_at:
  "length pre + 4 \<le> usize_max \<Longrightarrow> take_word (pre @ u32_le w @ post) (length pre) = Inr (w, length pre + 4)"
  by (simp add: take_word_eq)

lemma take_bytes_at:
  assumes "length (pre @ bytes @ replicate (next_multiple_4 (length bytes) - length bytes) 0) \<le> usize_max"
  shows "take_bytes (pre @ (bytes @ replicate (next_multiple_4 (length bytes) - length bytes) 0) @ post)
      (length pre) (length bytes) = Inr (bytes, length pre + next_multiple_4 (length bytes))"
  using assms next_multiple_4 [of "length bytes"] by (simp add: take_bytes_Inr)

lemma put_bytes_decoded:
  assumes "put_bytes bytes = Inr b" and "length (pre @ b) \<le> usize_max"
  shows "take_word (pre @ b @ post) (length pre) = Inr (of_nat (length bytes), length pre + 4)"
    and "take_bytes (pre @ b @ post) (length pre + 4) (unat (of_nat (length bytes) :: u32)) =
      Inr (bytes, length pre + length b)"
proof -
  let ?pad = "replicate (next_multiple_4 (length bytes) - length bytes) 0"
  from assms(1) have b: "b = u32_le (of_nat (length bytes)) @ bytes @ ?pad" and len: "length bytes < 2 ^ 32"
    by (simp_all add: put_bytes_Inr)
  show "take_word (pre @ b @ post) (length pre) = Inr (of_nat (length bytes), length pre + 4)"
    using take_word_at [of pre "of_nat (length bytes)" "(bytes @ ?pad) @ post"] assms(2)
    by (simp add: b)
  have "unat (of_nat (length bytes) :: u32) = length bytes"
    using len by (simp add: unat_of_nat)
  then show "take_bytes (pre @ b @ post) (length pre + 4) (unat (of_nat (length bytes) :: u32)) =
      Inr (bytes, length pre + length b)"
    using take_bytes_at [of "pre @ u32_le (of_nat (length bytes))" bytes post] assms(2)
      next_multiple_4 [of "length bytes"]
    by (simp add: b)
qed

lemma decode_one_encoded:
  assumes "encode_one a = Inr b" and "arg_ok a" and "length (pre @ b) \<le> usize_max"
  shows "decode_one (arg_kind a) (pre @ b @ post) (length pre) = Inr (a, length pre + length b)"
proof (cases a)
  case (ArgString s)
  show ?thesis
  proof (cases s)
    case None
    with ArgString assms show ?thesis
      using take_word_at [of pre 0 post] by (auto simp: decode_one_def)
  next
    case (Some t)
    with ArgString assms have p: "put_bytes (t @ [0]) = Inr b" and ok: "0 \<notin> set t"
      and len: "length t + 1 < 2 ^ 32"
      by (auto simp: put_bytes_Inr)
    have "unat (of_nat (length (t @ [0 :: byte])) :: u32) = length t + 1"
      using len by (simp add: unat_of_nat del: of_nat_Suc)
    with put_bytes_decoded [OF p assms(3), of post] ok ArgString Some show ?thesis
      by (simp add: decode_one_def cstring_def del: of_nat_Suc)
  qed
next
  case (ArgArray bytes)
  with assms have p: "put_bytes bytes = Inr b" by simp
  from put_bytes_decoded [OF p assms(3), of post] ArgArray show ?thesis
    by (simp add: decode_one_def)
qed (use assms take_word_at [of pre _ post] in \<open>auto simp: decode_one_def\<close>)

lemma decode_body_encoded:
  assumes "encode_body args = Inr b" and "\<forall>a \<in> set args. arg_ok a" and "length (pre @ b) \<le> usize_max"
  shows "decode_body (map arg_kind args) (pre @ b @ post) (length pre) = Inr (args, length pre + length b)"
  using assms
proof (induction args arbitrary: pre b)
  case Nil
  then show ?case by simp
next
  case (Cons a args)
  from Cons.prems obtain b1 b2 where b: "encode_one a = Inr b1" "encode_body args = Inr b2" "b = b1 @ b2"
    by (auto simp: rust_simps)
  have "decode_one (arg_kind a) (pre @ b1 @ b2 @ post) (length pre) = Inr (a, length pre + length b1)"
    using decode_one_encoded [OF b(1)] Cons.prems b(3) by simp
  moreover have "decode_body (map arg_kind args) ((pre @ b1) @ b2 @ post) (length (pre @ b1)) =
      Inr (args, length (pre @ b1) + length b2)"
    by (rule Cons.IH [OF b(2)]) (use Cons.prems b(3) in simp_all)
  ultimately show ?case by (simp add: b(3))
qed

lemma encode_one_length: "encode_one a = Inr b \<Longrightarrow> 4 dvd length b"
  by (induction a rule: encode_one.induct) (auto simp: put_bytes_Inr next_multiple_4_def)

lemma encode_body_length: "encode_body args = Inr b \<Longrightarrow> 4 dvd length b"
  by (induction args arbitrary: b) (auto simp: rust_simps dest: encode_one_length)

section \<open>What was decoded can be encoded\<close>

lemma take_word_Inr: "take_word body at = Inr (w, e) \<Longrightarrow> e = at + 4 \<and> e \<le> length body"
  by (auto simp: take_word_eq rust_simps read_u32_le_Some)

lemma decoded_bytes:
  assumes "take_bytes body at (unat (w :: u32)) = Inr (bytes, e)"
  shows "length bytes = unat w \<and> length bytes < 2 ^ 32 \<and>
    length bytes + (next_multiple_4 (length bytes) - length bytes) + at = e \<and> e \<le> length body"
proof -
  have e: "e = at + next_multiple_4 (unat w)" "e \<le> length body" and b: "bytes = take (unat w) (drop at body)"
    using assms by (simp_all add: take_bytes_Inr)
  have m: "unat w \<le> next_multiple_4 (unat w)" using next_multiple_4 by blast
  then have len: "length bytes = unat w" using e b by simp
  show ?thesis unfolding len using e m unat_u32_less [of w] by simp
qed

lemma decode_one_Inr:
  assumes "decode_one k body at = Inr (a, e)"
  shows "arg_kind a = k \<and> arg_ok a \<and> e \<le> max at (length body) \<and> (\<exists>b. encode_one a = Inr b \<and> at + length b = e)"
proof (cases k)
  case KString
  with assms obtain w at' where w: "take_word body at = Inr (w, at')" and
      r: "(if unat w = 0 then Inr (ArgString None, at')
          else res_bind (take_bytes body at' (unat w)) (\<lambda>(bytes, at).
            if bytes = [] \<or> last bytes \<noteq> 0 then Inl BadString
            else res_bind (cstring (butlast bytes)) (\<lambda>t. Inr (ArgString (Some t), at)))) = Inr (a, e)"
    by (auto simp: decode_one_def rust_simps)
  show ?thesis
  proof (cases "unat w = 0")
    case True
    with r w KString take_word_Inr [OF w] show ?thesis by auto
  next
    case False
    with r obtain bytes where b: "take_bytes body at' (unat w) = Inr (bytes, e)" "bytes \<noteq> []"
        "last bytes = 0" "0 \<notin> set (butlast bytes)" "a = ArgString (Some (butlast bytes))"
      by (auto simp: rust_simps cstring_def split: if_splits)
    have "butlast bytes @ [0] = bytes" using b(2,3) append_butlast_last_id by metis
    with b KString decoded_bytes [OF b(1)] take_word_Inr [OF w] show ?thesis
      by (auto simp: put_bytes_Inr)
  qed
next
  case KArray
  with assms obtain w at' bytes where w: "take_word body at = Inr (w, at')" and
      b: "take_bytes body at' (unat w) = Inr (bytes, e)" and a: "a = ArgArray bytes"
    by (auto simp: decode_one_def rust_simps)
  with KArray decoded_bytes [OF b] take_word_Inr [OF w] show ?thesis
    by (auto simp: put_bytes_Inr)
qed (use assms in \<open>auto simp: decode_one_def rust_simps dest!: take_word_Inr\<close>)

lemma decode_body_Inr:
  assumes "decode_body sig body at = Inr (args, e)"
  shows "map arg_kind args = sig \<and> (\<forall>a \<in> set args. arg_ok a) \<and>
    (\<exists>b. encode_body args = Inr b \<and> at + length b = e)"
  using assms
proof (induction sig arbitrary: at args)
  case Nil
  then show ?case by auto
next
  case (Cons k sig)
  from Cons.prems obtain a at' as where
      one: "decode_one k body at = Inr (a, at')" and
      rest: "decode_body sig body at' = Inr (as, e)" and args: "args = a # as"
    by (auto simp: rust_simps)
  from decode_one_Inr [OF one] Cons.IH [OF rest] args show ?case by auto
qed

lemma decode_encoded:
  assumes "encode object opcode args = Inr msg" and "\<forall>a \<in> set args. arg_ok a"
  shows "decode (msg @ rest) (map arg_kind args) = Inr (args, length msg)"
proof -
  from assms(1) obtain body where body: "encode_body args = Inr body" "HEADER + length body \<le> 65535"
      "msg = header_encode \<lparr>h_object = object, h_opcode = opcode, h_size = of_nat (HEADER + length body)\<rparr> @ body"
    by (auto simp: encode_def rust_simps Let_def split: if_splits)
  let ?h = "\<lparr>h_object = object, h_opcode = opcode, h_size = of_nat (HEADER + length body)\<rparr>"
  have size: "unat (of_nat (HEADER + length body) :: u16) = HEADER + length body"
    using body(2) by (simp add: unat_of_nat del: of_nat_add)
  have ok: "header_ok ?h"
    using encode_body_length [OF body(1)] unfolding header_ok_def Header.simps size
    by (simp add: HEADER_def)
  have hd: "header_decode (msg @ rest) = Inr ?h"
    using header_decode_encode [OF ok, of "body @ rest"] by (simp add: body(3))
  have range: "get_range (msg @ rest) HEADER (HEADER + length body) = Some body"
    by (simp add: get_range_def body(3))
  have "decode_body (map arg_kind args) body 0 = Inr (args, length body)"
    using decode_body_encoded [OF body(1) assms(2), of "[]" "[]"] body(2) by (simp add: usize_max_def)
  with hd range size show ?thesis
    by (simp add: decode_def Let_def body(3))
qed

text \<open>What the proxy judges is what both ends see: a message that decodes under a signature can
  be encoded again, in exactly as many bytes, and the re-encoded message (whatever follows it
  in the stream) decodes under the same signature to the same arguments and length; it has one
  argument per signature entry and no string in it hides a NUL.\<close>

lemma wire_reencode:
  assumes "decode buf sig = Inr (args, n)"
  shows "map arg_kind args = sig \<and> (\<forall>a \<in> set args. arg_ok a) \<and> n \<le> length buf \<and>
    (\<exists>msg. encode object opcode args = Inr msg \<and> length msg = n \<and>
       decode (msg @ rest) sig = Inr (args, n))"
proof -
  from assms obtain h body where h: "header_decode buf = Inr h" and n: "n = unat (h_size h)" and
      body: "get_range buf HEADER n = Some body" and args: "decode_body sig body 0 = Inr (args, length body)"
    by (auto simp: decode_def rust_simps Let_def split: if_splits)
  from body have len: "HEADER + length body = n" "n \<le> length buf"
    by (auto simp: get_range_def split: if_splits)
  have "n \<le> 65535" using n unat_u16_less [of "h_size h"] by simp
  obtain b where b: "encode_body args = Inr b" "length b = length body"
    using decode_body_Inr [OF args] by auto
  then obtain msg where msg: "encode object opcode args = Inr msg" "length msg = n"
    using len \<open>n \<le> 65535\<close> by (auto simp: encode_def Let_def)
  with decode_body_Inr [OF args] decode_encoded [OF msg(1), of rest] len show ?thesis by auto
qed

end
