(* ===== verification/Wl_Tables.thy ===== *)
theory Wl_Tables
  imports Wl_Wire "HOL-Library.List_Lexorder"
begin

text \<open>
  What the proxy knows about every Wayland message (\<^verbatim>\<open>crates/bubbler-wl-proxy/src/tables.rs\<close>
  and \<^verbatim>\<open>privileged.rs\<close>): messages, interfaces, their lookup by name and index, and the
  written-down lists of privileged and of allowed globals and of gated offers.  The table
  itself is generated at build time from the protocol XML, so it is a parameter \<open>T\<close>; what the
  code relies on is that it is sorted by name (\<open>tables_sorted\<close>).  The lookups are the standard
  library's binary search.  Shown: on a sorted list the search is membership, and the lists
  of the source are sorted, so no privileged name is missed by the search.
\<close>

record Message =
  m_name :: bytes
  m_since :: u32
  m_destructor :: bool
  m_args :: "ArgKind list"
  m_new_id :: "bytes option"

record Interface =
  i_name :: bytes
  i_version :: u32
  i_requests :: "Message list"
  i_events :: "Message list"

definition if_request :: "Interface \<Rightarrow> u16 \<Rightarrow> Message option" where
  "if_request i opcode = get_at (i_requests i) (unat opcode)"

definition if_event :: "Interface \<Rightarrow> u16 \<Rightarrow> Message option" where
  "if_event i opcode = get_at (i_events i) (unat opcode)"

definition if_message :: "Interface \<Rightarrow> bool \<Rightarrow> u16 \<Rightarrow> Message option" where
  "if_message i from_client opcode = (if from_client then if_request i opcode else if_event i opcode)"

section \<open>The standard library's binary search\<close>

text \<open>\<open>slice::binary_search\<close>: halve the window, keeping the lower half only when its middle is
  greater than the key; then compare once.\<close>

function bs_loop :: "'a :: linorder list \<Rightarrow> 'a \<Rightarrow> nat \<Rightarrow> nat \<Rightarrow> nat" where
  "bs_loop xs x base sz =
     (if sz \<le> 1 then base
      else let half = sz div 2; mid = base + half in
        bs_loop xs x (if xs ! mid > x then base else mid) (sz - half))"
  by pat_completeness auto
termination by (relation "measure (\<lambda>(xs, x, base, sz). sz)") auto

declare bs_loop.simps [simp del]

definition binary_search :: "'a :: linorder list \<Rightarrow> 'a \<Rightarrow> nat option" where
  "binary_search xs x =
     (if xs = [] then None
      else let base = bs_loop xs x 0 (length xs) in
        if xs ! base = x then Some base else None)"

definition index_of :: "Interface list \<Rightarrow> bytes \<Rightarrow> nat option" where
  "index_of T name = binary_search (map i_name T) name"

definition by_index :: "Interface list \<Rightarrow> nat \<Rightarrow> Interface option" where
  "by_index T index = get_at T index"

definition lookup :: "Interface list \<Rightarrow> bytes \<Rightarrow> Interface option" where
  "lookup T name = Option.bind (index_of T name) (by_index T)"

definition PRIVILEGED :: "bytes list" where
  "PRIVILEGED =
     [str ''ext_data_control_manager_v1'',
      str ''ext_foreign_toplevel_image_capture_source_manager_v1'',
      str ''ext_foreign_toplevel_list_v1'',
      str ''ext_idle_notifier_v1'',
      str ''ext_image_copy_capture_manager_v1'',
      str ''ext_output_image_capture_source_manager_v1'',
      str ''ext_session_lock_manager_v1'',
      str ''ext_transient_seat_manager_v1'',
      str ''ext_workspace_manager_v1'',
      str ''hyprland_ctm_control_manager_v1'',
      str ''hyprland_focus_grab_manager_v1'',
      str ''hyprland_global_shortcuts_manager_v1'',
      str ''hyprland_input_capture_manager_v1'',
      str ''hyprland_lock_notifier_v1'',
      str ''hyprland_toplevel_export_manager_v1'',
      str ''hyprland_toplevel_mapping_manager_v1'',
      str ''vicinae_hotkey_manager_v1'',
      str ''wp_content_type_manager_v1'',
      str ''wp_drm_lease_device_v1'',
      str ''wp_pointer_warp_v1'',
      str ''wp_security_context_manager_v1'',
      str ''xwayland_shell_v1'',
      str ''xx_input_method_manager_v2'',
      str ''zwlr_data_control_manager_v1'',
      str ''zwlr_export_dmabuf_manager_v1'',
      str ''zwlr_foreign_toplevel_manager_v1'',
      str ''zwlr_gamma_control_manager_v1'',
      str ''zwlr_input_inhibit_manager_v1'',
      str ''zwlr_layer_shell_v1'',
      str ''zwlr_output_manager_v1'',
      str ''zwlr_output_power_manager_v1'',
      str ''zwlr_screencopy_manager_v1'',
      str ''zwlr_virtual_pointer_manager_v1'',
      str ''zwp_fullscreen_shell_v1'',
      str ''zwp_input_method_manager_v2'',
      str ''zwp_input_method_v1'',
      str ''zwp_input_panel_v1'',
      str ''zwp_virtual_keyboard_manager_v1'',
      str ''zwp_xwayland_keyboard_grab_manager_v1'',
      str ''zxdg_output_manager_v1'']"

definition ALLOWED_GLOBALS :: "bytes list" where
  "ALLOWED_GLOBALS =
     [str ''ext_background_effect_manager_v1'',
      str ''wl_compositor'',
      str ''wl_data_device_manager'',
      str ''wl_display'',
      str ''wl_output'',
      str ''wl_seat'',
      str ''wl_shell'',
      str ''wl_shm'',
      str ''wl_subcompositor'',
      str ''wp_alpha_modifier_v1'',
      str ''wp_color_manager_v1'',
      str ''wp_color_representation_manager_v1'',
      str ''wp_commit_timing_manager_v1'',
      str ''wp_cursor_shape_manager_v1'',
      str ''wp_fifo_manager_v1'',
      str ''wp_fractional_scale_manager_v1'',
      str ''wp_linux_drm_syncobj_manager_v1'',
      str ''wp_presentation'',
      str ''wp_single_pixel_buffer_manager_v1'',
      str ''wp_tearing_control_manager_v1'',
      str ''wp_viewporter'',
      str ''xdg_activation_v1'',
      str ''xdg_system_bell_v1'',
      str ''xdg_toplevel_drag_manager_v1'',
      str ''xdg_toplevel_icon_manager_v1'',
      str ''xdg_toplevel_tag_manager_v1'',
      str ''xdg_wm_base'',
      str ''xdg_wm_dialog_v1'',
      str ''xx_session_manager_v1'',
      str ''zwp_idle_inhibit_manager_v1'',
      str ''zwp_input_timestamps_manager_v1'',
      str ''zwp_keyboard_shortcuts_inhibit_manager_v1'',
      str ''zwp_linux_dmabuf_v1'',
      str ''zwp_linux_explicit_synchronization_v1'',
      str ''zwp_pointer_constraints_v1'',
      str ''zwp_pointer_gestures_v1'',
      str ''zwp_primary_selection_device_manager_v1'',
      str ''zwp_relative_pointer_manager_v1'',
      str ''zwp_tablet_manager_v1'',
      str ''zwp_tablet_manager_v2'',
      str ''zwp_text_input_manager_v1'',
      str ''zwp_text_input_manager_v3'',
      str ''zxdg_decoration_manager_v1'',
      str ''zxdg_exporter_v1'',
      str ''zxdg_exporter_v2'',
      str ''zxdg_importer_v1'',
      str ''zxdg_importer_v2'',
      str ''zxdg_shell_v6'']"

definition GATED_OFFERS :: "bytes list" where
  "GATED_OFFERS =
     [str ''ext_data_control_offer_v1'',
      str ''wl_data_offer'',
      str ''zwlr_data_control_offer_v1'',
      str ''zwp_primary_selection_offer_v1'']"

section \<open>The search is membership\<close>

lemma bs_loop_range: "0 < sz \<Longrightarrow> base \<le> bs_loop xs x base sz \<and> bs_loop xs x base sz < base + sz"
proof (induction xs x base sz rule: bs_loop.induct)
  case (1 xs x base sz)
  show ?case
  proof (cases "sz \<le> 1")
    case True
    with 1 show ?thesis by (simp add: bs_loop.simps)
  next
    case False
    let ?base = "if xs ! (base + sz div 2) > x then base else base + sz div 2"
    have "?base \<le> bs_loop xs x ?base (sz - sz div 2) \<and>
        bs_loop xs x ?base (sz - sz div 2) < ?base + (sz - sz div 2)"
      using 1 False by simp
    moreover have "?base + (sz - sz div 2) \<le> base + sz" by auto
    ultimately show ?thesis
      using False by (auto simp: bs_loop.simps [of xs x base sz] Let_def split: if_splits)
  qed
qed

lemma bs_loop_finds:
  assumes "sorted_wrt (<) xs" and "base \<le> k" and "k < base + sz" and "base + sz \<le> length xs"
  shows "bs_loop xs (xs ! k) base sz = k"
  using assms
proof (induction xs "xs ! k" base sz rule: bs_loop.induct)
  case (1 xs base sz)
  show ?case
  proof (cases "sz \<le> 1")
    case True
    with 1 show ?thesis by (simp add: bs_loop.simps)
  next
    case False
    let ?mid = "base + sz div 2"
    have mid: "?mid < length xs" "0 < sz div 2" using 1 False by simp_all
    have cmp: "xs ! ?mid > xs ! k \<longleftrightarrow> k < ?mid"
      using 1 mid sorted_wrt_nth_less [OF "1.prems"(1)] by (metis linorder_neqE_nat not_less_iff_gr_or_eq
          less_le_trans order_less_imp_not_less)
    show ?thesis
      using 1 False mid cmp by (auto simp: bs_loop.simps [of xs _ base sz] Let_def)
  qed
qed

lemma binary_search_Some:
  "sorted_wrt (<) xs \<Longrightarrow> binary_search xs x = Some i \<longleftrightarrow> i < length xs \<and> xs ! i = x"
  using bs_loop_range [of "length xs" 0 xs x] bs_loop_finds [of xs 0 i "length xs"]
  by (auto simp: binary_search_def Let_def)

lemma binary_search_None: "sorted_wrt (<) xs \<Longrightarrow> binary_search xs x = None \<longleftrightarrow> x \<notin> set xs"
  using binary_search_Some [of xs x] by (metis in_set_conv_nth not_None_eq)

lemma sorted_by_neighbours: "successively (<) (xs :: bytes list) \<Longrightarrow> sorted_wrt (<) xs"
  by (simp add: successively_conv_sorted_wrt transp_on_less)

lemma PRIVILEGED_sorted: "sorted_wrt (<) PRIVILEGED"
  by (rule sorted_by_neighbours) (simp add: PRIVILEGED_def)

lemma GATED_OFFERS_sorted: "sorted_wrt (<) GATED_OFFERS"
  by (rule sorted_by_neighbours) (simp add: GATED_OFFERS_def)

lemma ALLOWED_GLOBALS_sorted: "sorted_wrt (<) ALLOWED_GLOBALS"
  by (rule sorted_by_neighbours) (simp add: ALLOWED_GLOBALS_def)

text \<open>Two sorted lists have nothing in common when merging them meets no equal heads.\<close>

fun apart :: "'a :: linorder list \<Rightarrow> 'a list \<Rightarrow> bool" where
  "apart [] ys = True"
| "apart (x # xs) [] = True"
| "apart (x # xs) (y # ys) =
     (if x < y then apart xs (y # ys) else if y < x then apart (x # xs) ys else False)"

lemma apart_disjoint:
  "sorted_wrt (<) xs \<Longrightarrow> sorted_wrt (<) ys \<Longrightarrow> apart xs ys \<Longrightarrow> set xs \<inter> set ys = {}"
  by (induction xs ys rule: apart.induct) (auto split: if_splits)

lemma privileged_not_allowed: "set PRIVILEGED \<inter> set ALLOWED_GLOBALS = {}"
  by (rule apart_disjoint [OF PRIVILEGED_sorted ALLOWED_GLOBALS_sorted])
    (simp add: PRIVILEGED_def ALLOWED_GLOBALS_def)

lemmas privileged_search = binary_search_None [OF PRIVILEGED_sorted]
lemmas gated_search = binary_search_None [OF GATED_OFFERS_sorted]

definition tables_sorted :: "Interface list \<Rightarrow> bool" where
  "tables_sorted T \<longleftrightarrow> sorted_wrt (<) (map i_name T)"

lemma index_of_Some:
  "tables_sorted T \<Longrightarrow> index_of T name = Some k \<longleftrightarrow> k < length T \<and> i_name (T ! k) = name"
  by (auto simp: index_of_def tables_sorted_def binary_search_Some)

lemma lookup_Some:
  "tables_sorted T \<Longrightarrow> lookup T name = Some i \<longleftrightarrow> i \<in> set T \<and> i_name i = name"
  using binary_search_Some [of "map i_name T" name]
  by (auto simp: lookup_def index_of_Some by_index_def get_at_def Option.bind_eq_Some_conv in_set_conv_nth)

text \<open>The search the policy relies on finds exactly what is listed: a name passes the check
  against \<open>PRIVILEGED\<close> precisely when it is not in the list, a request is treated as a clipboard
  read precisely when its interface is in \<open>GATED_OFFERS\<close>, and no global is both privileged
  and written down as allowed.\<close>

lemma list_searches:
  "(binary_search PRIVILEGED name = None \<longleftrightarrow> name \<notin> set PRIVILEGED) \<and>
   (binary_search GATED_OFFERS name = None \<longleftrightarrow> name \<notin> set GATED_OFFERS) \<and>
   set PRIVILEGED \<inter> set ALLOWED_GLOBALS = {}"
  using privileged_search gated_search privileged_not_allowed by blast

end
