(* ===== verification/Wl_Objects.thy ===== *)
theory Wl_Objects
  imports Wl_Tables "HOL-Library.AList"
begin

text \<open>
  The object ids of one connection (\<^verbatim>\<open>crates/bubbler-wl-proxy/src/objects.rs\<close>).  The hash map
  is an association list without repeated keys; its order means nothing.  Shown: every
  operation keeps the map well formed (each id in its owner's range, each version within what
  the tables describe, the count of destroyed server objects exact, so no counter ever
  underflows), and the map never holds more than twice \<open>MAX_OBJECTS\<close> entries.
\<close>

definition SERVER_ID_BASE :: u32 where
  "SERVER_ID_BASE = 0xFF000000"

definition MAX_OBJECTS :: nat where
  "MAX_OBJECTS = 2 ^ 16"

datatype ObjectError =
    NotClientId u32 | NotServerId u32 | InUse u32 | Unmapped u32 | UntypedNewId
  | NoSuchMessage bytes u16 | UnknownInterface nat | MissingInterface bytes | HiddenGlobal u32
  | TooManyObjects

record Entry =
  e_interface :: nat
  e_version :: u32
  e_zombie :: bool

record Objects =
  o_map :: "(u32 \<times> Entry) list"
  hidden_globals :: "u32 set"
  server_zombies :: nat

text \<open>\<open>display\<close> is the generated index of \<open>wl_display\<close>.\<close>

definition objects_new :: "nat \<Rightarrow> Objects" where
  "objects_new display =
     \<lparr>o_map = [(1, \<lparr>e_interface = display, e_version = 1, e_zombie = False\<rparr>)],
      hidden_globals = {}, server_zombies = 0\<rparr>"

definition obj_get :: "Objects \<Rightarrow> u32 \<Rightarrow> Entry option" where
  "obj_get os i = map_of (o_map os) i"

definition obj_interface :: "Interface list \<Rightarrow> Objects \<Rightarrow> u32 \<Rightarrow> Interface option" where
  "obj_interface T os i = Option.bind (obj_get os i) (\<lambda>e. by_index T (e_interface e))"

definition obj_len :: "Objects \<Rightarrow> nat" where
  "obj_len os = length (o_map os)"

definition obj_is_empty :: "Objects \<Rightarrow> bool" where
  "obj_is_empty os = (o_map os = [])"

definition obj_live :: "Objects \<Rightarrow> nat" where
  "obj_live os = length (o_map os) - server_zombies os"

definition obj_record :: "Interface list \<Rightarrow> bool \<Rightarrow> u32 \<Rightarrow> nat \<Rightarrow> u32 \<Rightarrow> Objects \<Rightarrow> ObjectError + Objects" where
  "obj_record T from_client i interface version os =
     (if from_client \<and> (i = 0 \<or> i \<ge> SERVER_ID_BASE) then Inl (NotClientId i)
      else if \<not> from_client \<and> i < SERVER_ID_BASE then Inl (NotServerId i)
      else res_bind (ok_or (UnknownInterface interface) (by_index T interface)) (\<lambda>iface.
        let entry = \<lparr>e_interface = interface, e_version = min version (i_version iface), e_zombie = False\<rparr>
        in case map_of (o_map os) i of
             Some slot \<Rightarrow>
               if from_client then Inl (InUse i)
               else Inr (os\<lparr>o_map := AList.update i entry (o_map os),
                            server_zombies := (if e_zombie slot then server_zombies os - 1
                                               else server_zombies os)\<rparr>)
           | None \<Rightarrow>
               if obj_live os \<ge> MAX_OBJECTS \<or> server_zombies os \<ge> MAX_OBJECTS then Inl TooManyObjects
               else Inr (os\<lparr>o_map := AList.update i entry (o_map os)\<rparr>)))"

definition obj_bind :: "Interface list \<Rightarrow> u32 \<Rightarrow> nat \<Rightarrow> u32 \<Rightarrow> u32 \<Rightarrow> Objects \<Rightarrow> ObjectError + Objects" where
  "obj_bind T name interface version new_id os =
     (if name \<in> hidden_globals os then Inl (HiddenGlobal name)
      else obj_record T True new_id interface version os)"

fun find_new_id :: "Arg list \<Rightarrow> u32 option" where
  "find_new_id [] = None"
| "find_new_id (ArgNewId i # _) = Some i"
| "find_new_id (_ # as) = find_new_id as"

definition new_id_from :: "Interface list \<Rightarrow> bool \<Rightarrow> u32 \<Rightarrow> u16 \<Rightarrow> Arg list \<Rightarrow> Objects \<Rightarrow>
    ObjectError + (u32 option \<times> Objects)" where
  "new_id_from T from_client parent opcode args os =
     res_bind (ok_or (Unmapped parent) (obj_get os parent)) (\<lambda>entry.
     res_bind (ok_or (UnknownInterface (e_interface entry)) (by_index T (e_interface entry))) (\<lambda>iface.
     res_bind (ok_or (NoSuchMessage (i_name iface) opcode) (if_message iface from_client opcode)) (\<lambda>msg.
       case find_new_id args of
         None \<Rightarrow> Inr (None, os)
       | Some new_id \<Rightarrow>
           (case m_new_id msg of
              None \<Rightarrow> Inl UntypedNewId
            | Some name \<Rightarrow>
                res_bind (ok_or (MissingInterface name) (index_of T name)) (\<lambda>interface.
                res_bind (obj_record T from_client new_id interface (e_version entry) os) (\<lambda>os'.
                  Inr (Some new_id, os')))))))"

definition obj_destroy :: "u32 \<Rightarrow> Objects \<Rightarrow> bool \<times> Objects" where
  "obj_destroy i os =
     (case map_of (o_map os) i of
        Some entry \<Rightarrow>
          (True, os\<lparr>o_map := AList.update i (entry\<lparr>e_zombie := True\<rparr>) (o_map os),
                    server_zombies := (if \<not> e_zombie entry \<and> i \<ge> SERVER_ID_BASE
                                       then server_zombies os + 1 else server_zombies os)\<rparr>)
      | None \<Rightarrow> (False, os))"

definition obj_delete_id :: "u32 \<Rightarrow> Objects \<Rightarrow> bool \<times> Objects" where
  "obj_delete_id i os =
     (case map_of (o_map os) i of
        Some entry \<Rightarrow>
          (True, os\<lparr>o_map := AList.delete i (o_map os),
                    server_zombies := (if e_zombie entry \<and> i \<ge> SERVER_ID_BASE
                                       then server_zombies os - 1 else server_zombies os)\<rparr>)
      | None \<Rightarrow> (False, os))"

definition hide_global :: "u32 \<Rightarrow> Objects \<Rightarrow> Objects" where
  "hide_global name os = os\<lparr>hidden_globals := insert name (hidden_globals os)\<rparr>"

definition is_hidden :: "Objects \<Rightarrow> u32 \<Rightarrow> bool" where
  "is_hidden os name \<longleftrightarrow> name \<in> hidden_globals os"

definition hidden_count :: "Objects \<Rightarrow> nat" where
  "hidden_count os = card (hidden_globals os)"

section \<open>Well-formed maps\<close>

definition is_zombie :: "u32 \<times> Entry \<Rightarrow> bool" where
  "is_zombie ie \<longleftrightarrow> fst ie \<ge> SERVER_ID_BASE \<and> e_zombie (snd ie)"

definition zombies :: "(u32 \<times> Entry) list \<Rightarrow> nat" where
  "zombies m = length (filter is_zombie m)"

definition objects_inv :: "Interface list \<Rightarrow> Objects \<Rightarrow> bool" where
  "objects_inv T os \<longleftrightarrow>
     distinct (map fst (o_map os)) \<and> server_zombies os = zombies (o_map os) \<and>
     length (o_map os) \<le> 2 * MAX_OBJECTS \<and>
     (\<forall>(i, e) \<in> set (o_map os). i \<noteq> 0 \<and>
        (\<exists>iface. by_index T (e_interface e) = Some iface \<and> e_version e \<le> i_version iface))"

lemma zombies_le: "zombies m \<le> length m"
  by (simp add: zombies_def)

lemma zombies_update:
  "distinct (map fst m) \<Longrightarrow>
     zombies (AList.update i e m) + (case map_of m i of Some e' \<Rightarrow> of_bool (is_zombie (i, e')) | None \<Rightarrow> 0) =
     zombies m + of_bool (is_zombie (i, e))"
proof (induction m)
  case Nil
  then show ?case by (simp add: zombies_def)
next
  case (Cons p m)
  then show ?case by (cases p) (auto simp: zombies_def split: option.splits)
qed

lemma zombies_delete:
  "distinct (map fst m) \<Longrightarrow>
     zombies (AList.delete i m) + (case map_of m i of Some e' \<Rightarrow> of_bool (is_zombie (i, e')) | None \<Rightarrow> 0) = zombies m"
proof (induction m)
  case Nil
  then show ?case by (simp add: zombies_def)
next
  case (Cons p m)
  have "i \<notin> fst ` set m \<Longrightarrow> AList.delete i m = m" by (rule AList.delete_id)
  with Cons show ?case by (cases p) (auto simp: zombies_def map_of_eq_None_iff split: option.splits)
qed

lemma length_update:
  "length (AList.update i e m) = (if map_of m i = None then length m + 1 else length m)"
  by (induction m) auto

lemma length_delete_le: "length (AList.delete i m) \<le> length m"
  by (simp add: AList.delete_eq)

lemma set_update: "p \<in> set (AList.update i e m) \<Longrightarrow> p = (i, e) \<or> p \<in> set m"
  by (induction m) (auto split: if_splits)

lemma set_delete: "p \<in> set (AList.delete i m) \<Longrightarrow> p \<in> set m"
  by (auto simp: AList.delete_eq)

lemma map_of_in: "map_of m i = Some e \<Longrightarrow> (i, e) \<in> set m"
  by (rule map_of_SomeD)

text \<open>One entry changed, its version no higher than the tables allow: the shape of every update.\<close>

lemma objects_inv_update:
  assumes inv: "objects_inv T os"
    and e: "i \<noteq> 0" "by_index T (e_interface e) = Some iface" "e_version e \<le> i_version iface"
    and room: "map_of (o_map os) i = None \<Longrightarrow> length (o_map os) < 2 * MAX_OBJECTS"
    and count: "z + (case map_of (o_map os) i of Some e' \<Rightarrow> of_bool (is_zombie (i, e')) | None \<Rightarrow> 0) =
      server_zombies os + of_bool (is_zombie (i, e))"
  shows "objects_inv T (os\<lparr>o_map := AList.update i e (o_map os), server_zombies := z\<rparr>)"
proof -
  have d: "distinct (map fst (o_map os))" using inv by (simp add: objects_inv_def)
  have "z = zombies (AList.update i e (o_map os))"
    using zombies_update [OF d, of i e] count inv by (simp add: objects_inv_def)
  moreover have "length (AList.update i e (o_map os)) \<le> 2 * MAX_OBJECTS"
    using room inv by (auto simp: length_update objects_inv_def)
  moreover have "distinct (map fst (AList.update i e (o_map os)))"
    using d by (rule AList.distinct_update)
  ultimately show ?thesis
    using inv e by (auto simp: objects_inv_def dest!: set_update)
qed

lemma zombie_counted:
  assumes "objects_inv T os" and "map_of (o_map os) i = Some e" and "is_zombie (i, e)"
  shows "0 < server_zombies os"
proof -
  have "(i, e) \<in> set (filter is_zombie (o_map os))" using assms map_of_in by auto
  then have "0 < zombies (o_map os)" unfolding zombies_def by (rule length_pos_if_in_set)
  with assms(1) show ?thesis by (simp add: objects_inv_def)
qed

lemma obj_record_inv:
  assumes inv: "objects_inv T os" and ok: "obj_record T c i interface version os = Inr os'"
  shows "objects_inv T os'"
proof -
  from ok obtain iface where ids: "c \<longrightarrow> i \<noteq> 0 \<and> i < SERVER_ID_BASE" "\<not> c \<longrightarrow> i \<ge> SERVER_ID_BASE"
      and iface: "by_index T interface = Some iface"
    by (auto simp: obj_record_def rust_simps not_less split: if_splits)
  let ?e = "\<lparr>e_interface = interface, e_version = min version (i_version iface), e_zombie = False\<rparr>"
  have nz: "i \<noteq> 0" using ids by (cases c) (auto simp: SERVER_ID_BASE_def)
  have alive: "\<not> is_zombie (i, ?e)" by (simp add: is_zombie_def)
  show ?thesis
  proof (cases "map_of (o_map os) i")
    case None
    with ok iface ids have room: "obj_live os < MAX_OBJECTS" "server_zombies os < MAX_OBJECTS"
        and os': "os' = os\<lparr>o_map := AList.update i ?e (o_map os), server_zombies := server_zombies os\<rparr>"
      by (auto simp: obj_record_def Let_def split: if_splits)
    show ?thesis unfolding os'
      by (rule objects_inv_update [OF inv nz, of _ iface])
        (use None room iface alive in \<open>auto simp: obj_live_def\<close>)
  next
    case (Some slot)
    with ok iface ids have c: "\<not> c" and
        os': "os' = os\<lparr>o_map := AList.update i ?e (o_map os),
          server_zombies := (if e_zombie slot then server_zombies os - 1 else server_zombies os)\<rparr>"
      by (auto simp: obj_record_def Let_def split: if_splits)
    have z: "is_zombie (i, slot) = e_zombie slot" using ids c by (simp add: is_zombie_def)
    show ?thesis unfolding os'
      by (rule objects_inv_update [OF inv nz, of _ iface])
        (use Some iface alive z zombie_counted [OF inv Some] in auto)
  qed
qed

lemma obj_bind_inv: "objects_inv T os \<Longrightarrow> obj_bind T name k v i os = Inr os' \<Longrightarrow> objects_inv T os'"
  by (auto simp: obj_bind_def split: if_splits dest: obj_record_inv)

lemma new_id_from_inv:
  "objects_inv T os \<Longrightarrow> new_id_from T c parent opcode args os = Inr (r, os') \<Longrightarrow> objects_inv T os'"
  by (cases "find_new_id args")
    (auto simp: new_id_from_def rust_simps split: option.splits dest: obj_record_inv)

lemma obj_destroy_inv:
  assumes inv: "objects_inv T os"
  shows "objects_inv T (snd (obj_destroy i os))"
proof (cases "map_of (o_map os) i")
  case None
  with inv show ?thesis by (simp add: obj_destroy_def)
next
  case (Some e)
  then obtain iface where e: "i \<noteq> 0" "by_index T (e_interface e) = Some iface" "e_version e \<le> i_version iface"
    using inv map_of_in [OF Some] by (auto simp: objects_inv_def)
  show ?thesis
    unfolding obj_destroy_def Some option.simps snd_conv
    by (rule objects_inv_update [OF inv e(1), of _ iface]) (use e Some in \<open>auto simp: is_zombie_def\<close>)
qed

lemma obj_delete_id_inv:
  assumes inv: "objects_inv T os"
  shows "objects_inv T (snd (obj_delete_id i os))"
proof (cases "map_of (o_map os) i")
  case None
  with inv show ?thesis by (simp add: obj_delete_id_def)
next
  case (Some e)
  have d: "distinct (map fst (o_map os))" using inv by (simp add: objects_inv_def)
  have "(if e_zombie e \<and> i \<ge> SERVER_ID_BASE then server_zombies os - 1 else server_zombies os) =
      zombies (AList.delete i (o_map os))"
    using zombies_delete [OF d, of i] Some inv by (auto simp: objects_inv_def is_zombie_def)
  moreover have "distinct (map fst (AList.delete i (o_map os)))" using d by (rule AList.distinct_delete)
  moreover have "length (AList.delete i (o_map os)) \<le> 2 * MAX_OBJECTS"
    using inv length_delete_le [of i "o_map os"] by (simp add: objects_inv_def)
  ultimately show ?thesis
    using inv Some by (auto simp: objects_inv_def obj_delete_id_def dest!: set_delete)
qed

lemma hide_global_inv [simp]: "objects_inv T (hide_global name os) = objects_inv T os"
  by (simp add: objects_inv_def hide_global_def)

section \<open>Any history of a connection\<close>

inductive objects_step :: "Interface list \<Rightarrow> Objects \<Rightarrow> Objects \<Rightarrow> bool" for T where
  step_bind: "obj_bind T name k v i os = Inr os' \<Longrightarrow> objects_step T os os'"
| step_new: "new_id_from T c parent opcode args os = Inr (r, os') \<Longrightarrow> objects_step T os os'"
| step_destroy: "objects_step T os (snd (obj_destroy i os))"
| step_delete: "objects_step T os (snd (obj_delete_id i os))"
| step_hide: "objects_step T os (hide_global name os)"

lemma objects_step_inv: "objects_step T os os' \<Longrightarrow> objects_inv T os \<Longrightarrow> objects_inv T os'"
  by (induction rule: objects_step.induct)
    (auto intro: obj_bind_inv new_id_from_inv obj_destroy_inv obj_delete_id_inv)

lemma objects_new_inv:
  "by_index T display = Some iface \<Longrightarrow> 1 \<le> i_version iface \<Longrightarrow> objects_inv T (objects_new display)"
  by (simp add: objects_inv_def objects_new_def zombies_def is_zombie_def SERVER_ID_BASE_def MAX_OBJECTS_def)

text \<open>C20. The object map under any history of creations, binds, destructions and releases from a
  fresh connection: it holds at most twice \<open>MAX_OBJECTS\<close> ids, its count of destroyed server
  objects is exact and never above its size (so neither the subtraction in \<open>live\<close> nor the
  decrements can underflow), and every mapped id decodes with an interface of the tables at a
  version the tables describe.\<close>

theorem objects_bounded:
  assumes "by_index T display = Some iface" and "1 \<le> i_version iface"
    and "(objects_step T)\<^sup>*\<^sup>* (objects_new display) os"
  shows "obj_len os \<le> 2 * MAX_OBJECTS \<and>
    server_zombies os = zombies (o_map os) \<and> server_zombies os \<le> obj_len os \<and>
    (obj_get os i = Some e \<longrightarrow>
       (\<exists>known. obj_interface T os i = Some known \<and> e_version e \<le> i_version known))"
proof -
  have inv: "objects_inv T os"
    using assms(3) by (induction rule: rtranclp_induct)
      (use objects_new_inv [OF assms(1,2)] objects_step_inv in auto)
  then show ?thesis
    using zombies_le [of "o_map os"] map_of_in [of "o_map os" i e]
    by (auto simp: objects_inv_def obj_len_def obj_get_def obj_interface_def)
qed

definition demo_tables :: "Interface list" where
  "demo_tables =
     [\<lparr>i_name = str ''wl_data_offer'', i_version = 3,
        i_requests = [\<lparr>m_name = str ''receive'', m_since = 1, m_destructor = False,
          m_args = [KString, KFd], m_new_id = None\<rparr>], i_events = []\<rparr>,
      \<lparr>i_name = str ''wl_display'', i_version = 1,
        i_requests = [\<lparr>m_name = str ''get_registry'', m_since = 1, m_destructor = False,
          m_args = [KNewId], m_new_id = Some (str ''wl_registry'')\<rparr>],
        i_events = [\<lparr>m_name = str ''error'', m_since = 1, m_destructor = False,
          m_args = [KObject, KUint, KString], m_new_id = None\<rparr>]\<rparr>,
      \<lparr>i_name = str ''wl_registry'', i_version = 1,
        i_requests = [\<lparr>m_name = str ''bind'', m_since = 1, m_destructor = False,
          m_args = [KUint, KString, KUint, KNewId], m_new_id = None\<rparr>],
        i_events = [\<lparr>m_name = str ''global'', m_since = 1, m_destructor = False,
          m_args = [KUint, KString, KUint], m_new_id = None\<rparr>]\<rparr>]"

theorem objects_bounded_witness:
  "obj_len (snd (obj_destroy 1 (objects_new 1))) \<le> 2 * MAX_OBJECTS"
proof -
  have t: "by_index demo_tables 1 = Some (demo_tables ! 1)" "1 \<le> i_version (demo_tables ! 1)"
    by (simp_all add: by_index_def get_at_def demo_tables_def)
  have "(objects_step demo_tables)\<^sup>*\<^sup>* (objects_new 1) (snd (obj_destroy 1 (objects_new 1)))"
    by (rule r_into_rtranclp) (rule step_destroy)
  from objects_bounded [OF t this] show ?thesis by blast
qed

text \<open>The live cap guards new ids only: a server that reuses the id of a destroyed object of its
  own turns a zombie live again without looking at the cap.\<close>

lemma reuse_raises_live:
  assumes "objects_inv T os" and "obj_get os i = Some e" and "e_zombie e" and "i \<ge> SERVER_ID_BASE"
    and "by_index T k = Some iface"
  shows "\<exists>os'. obj_record T False i k v os = Inr os' \<and> obj_live os' = obj_live os + 1"
proof -
  have "is_zombie (i, e)" using assms by (simp add: is_zombie_def)
  then have "0 < server_zombies os" using zombie_counted assms(1,2) by (auto simp: obj_get_def)
  moreover have "server_zombies os \<le> length (o_map os)"
    using assms(1) zombies_le [of "o_map os"] by (simp add: objects_inv_def)
  ultimately show ?thesis
    using assms by (auto simp: obj_record_def obj_get_def obj_live_def length_update Let_def)
qed

end
