(* ===== verification/Wl_Audit.thy ===== *)
theory Wl_Audit
  imports Bub_Log
begin

text \<open>
  The Wayland proxy's audit log (\<^verbatim>\<open>crates/bubbler-wl-proxy/src/audit.rs\<close>): one line of each
  kind per \<open>RATE\<close>, the rest counted and the count appended to the next line of that kind.
  Shown: for each kind, the lines written and the lines accounted for add up to the lines
  asked for, two written lines of one kind are at least \<open>RATE\<close> apart, and the kinds do not
  spend each other's budget.
\<close>

definition RATE :: duration where
  "RATE = 10 ^ 9"

datatype Kind = GateLine | CloseLine

record Budget =
  b_last :: "instant option"
  b_suppressed :: nat

definition budget_default :: Budget where
  "budget_default = \<lparr>b_last = None, b_suppressed = 0\<rparr>"

record Audit =
  au_out :: "bytes list"
  au_gate :: Budget
  au_close :: Budget

definition audit_new :: Audit where
  "audit_new = \<lparr>au_out = [], au_gate = budget_default, au_close = budget_default\<rparr>"

fun budget_of :: "Kind \<Rightarrow> Audit \<Rightarrow> Budget" where
  "budget_of GateLine a = au_gate a"
| "budget_of CloseLine a = au_close a"

fun set_budget :: "Kind \<Rightarrow> Budget \<Rightarrow> Audit \<Rightarrow> Audit" where
  "set_budget GateLine b a = a\<lparr>au_gate := b\<rparr>"
| "set_budget CloseLine b a = a\<lparr>au_close := b\<rparr>"

definition too_soon :: "Budget \<Rightarrow> instant \<Rightarrow> bool" where
  "too_soon b now \<longleftrightarrow> (case b_last b of Some l \<Rightarrow> now - l < RATE | None \<Rightarrow> False)"

definition audit_line :: "Kind \<Rightarrow> instant \<Rightarrow> bytes \<Rightarrow> Audit \<Rightarrow> Audit" where
  "audit_line kind now msg a =
     (let b = budget_of kind a in
      if too_soon b now
      then set_budget kind (b\<lparr>b_suppressed := saturating_add (b_suppressed b) 1\<rparr>) a
      else let line = (if b_suppressed b = 0 then msg @ str [CHR 0x0A]
                       else msg @ str '' (+'' @ dec_digits (b_suppressed b) @ str '' more)'' @ str [CHR 0x0A])
           in (set_budget kind \<lparr>b_last = Some now, b_suppressed = 0\<rparr> a)\<lparr>au_out := au_out a @ [line]\<rparr>)"

definition suppressed_of :: "Kind \<Rightarrow> Audit \<Rightarrow> nat" where
  "suppressed_of kind a = b_suppressed (budget_of kind a)"

section \<open>One kind's account\<close>

lemma budget_of_set [simp]:
  "budget_of k (set_budget k' b a) = (if k = k' then b else budget_of k a)"
  "budget_of k (a\<lparr>au_out := x\<rparr>) = budget_of k a"
  "au_out (set_budget k b a) = au_out a"
  by (cases k; cases k'; simp) (cases k; simp)+

text \<open>A call of one kind, as the contract of a counting log sees it.\<close>

definition audit_put :: "Kind \<Rightarrow> Audit \<Rightarrow> instant \<times> bytes \<Rightarrow> Audit \<times> bool \<times> nat" where
  "audit_put kind a c =
     (audit_line kind (fst c) (snd c) a, \<not> too_soon (budget_of kind a) (fst c),
      if too_soon (budget_of kind a) (fst c) then 0 else suppressed_of kind a)"

interpretation audit: counted_log "audit_put kind" "suppressed_of kind" for kind
proof unfold_locales
  fix a c a' w n
  assume "audit_put kind a c = (a', w, n)" and "suppressed_of kind a < u64_max"
  then show "suppressed_of kind a' + n + of_bool w = suppressed_of kind a + 1"
    by (auto simp: audit_put_def audit_line_def suppressed_of_def Let_def saturating_add_def)
qed

lemma audit_other_kind: "k \<noteq> kind \<Longrightarrow> budget_of k (audit_line kind now msg a) = budget_of k a"
  by (simp add: audit_line_def Let_def)

lemma audit_line_writes:
  "au_out (audit_line kind now msg a) \<noteq> au_out a \<Longrightarrow>
     \<not> too_soon (budget_of kind a) now \<and> b_last (budget_of kind (audit_line kind now msg a)) = Some now"
  by (auto simp: audit_line_def Let_def split: if_splits)

text \<open>A run of calls of both kinds: which of them wrote, with their kind and time.\<close>

fun audit_run :: "Audit \<Rightarrow> (Kind \<times> instant \<times> bytes) list \<Rightarrow> Audit \<times> (Kind \<times> instant) list" where
  "audit_run a [] = (a, [])"
| "audit_run a ((k, now, msg) # cs) =
     (let (a', ws) = audit_run (audit_line k now msg a) cs in
      (a', if too_soon (budget_of k a) now then ws else (k, now) # ws))"

definition spaced :: "instant option \<Rightarrow> instant list \<Rightarrow> bool" where
  "spaced l ts \<longleftrightarrow> successively (\<lambda>s t. RATE \<le> t - s) ((case l of Some s \<Rightarrow> [s] | None \<Rightarrow> []) @ ts)"

lemma audit_run_spaced:
  "spaced (b_last (budget_of k a)) (map snd (filter (\<lambda>w. fst w = k) (snd (audit_run a cs))))"
proof (induction a cs rule: audit_run.induct)
  case (1 a)
  then show ?case by (auto simp: spaced_def split: option.splits)
next
  case (2 a k' now msg cs)
  have same: "b_last (budget_of k' (audit_line k' now msg a)) =
      (if too_soon (budget_of k' a) now then b_last (budget_of k' a) else Some now)"
    by (simp add: audit_line_def Let_def)
  show ?case
  proof (cases "k = k'")
    case False
    with 2 show ?thesis by (auto simp: audit_other_kind split: prod.splits)
  next
    case True
    then show ?thesis
      using 2 same
      by (auto simp: spaced_def too_soon_def split: prod.splits option.splits if_splits)
  qed
qed

text \<open>The audit log's two budgets: over any run of calls of both kinds, two written lines of
  one kind are at least \<open>RATE\<close> apart, and for a run of one kind the lines written, the counts
  they carried and the count still owed add up to the calls made.\<close>

lemma audit_accounts:
  assumes "length cs \<le> u64_max"
  shows "spaced None (map snd (filter (\<lambda>w. fst w = k) (snd (audit_run audit_new runs)))) \<and>
    (\<exists>a lines counted. puts (audit_put k) audit_new cs = (a, lines, counted) \<and>
       lines + counted + suppressed_of k a = length cs)"
proof -
  have start: "budget_of k audit_new = budget_default" by (cases k) (simp_all add: audit_new_def)
  obtain a lines counted where p: "puts (audit_put k) audit_new cs = (a, lines, counted)"
    by (cases "puts (audit_put k) audit_new cs") auto
  have "lines + counted + suppressed_of k a = length cs"
    using audit.puts_conserve [OF p] assms start by (simp add: suppressed_of_def budget_default_def)
  with p audit_run_spaced [of k audit_new runs] start show ?thesis
    by (simp add: budget_default_def)
qed

end
