(* ===== verification/Wl_Policy.thy ===== *)
theory Wl_Policy
  imports Wl_Objects Wl_Audit Bub_Utf8
begin

text \<open>
  What the Wayland proxy does with a decoded message (\<^verbatim>\<open>crates/bubbler-wl-proxy/src/policy.rs\<close>):
  the registry filter, the bind check and the clipboard gate.  A message in flight carries its
  arguments and descriptors (as numbers); \<open>apply\<close> returns the message as it may have been
  rewritten, the connection, the policy and the log.  Shown: a bind goes through only for a
  global this connection was offered, which is never a privileged one; a clipboard read goes
  through only within \<open>GATE_WINDOW\<close> of an input event seen on some connection; and a dropped
  message's descriptors are closed.
\<close>

definition GATE_WINDOW :: duration where
  "GATE_WINDOW = 1000 * 10 ^ 6"

definition DISPLAY_ID :: u32 where
  "DISPLAY_ID = 1"

definition DISPLAY_ERROR :: u16 where
  "DISPLAY_ERROR = 0"

datatype Gate = Paste | Open

datatype Verdict = Forward | DropMsg | Refuse bytes

record Policy =
  gate :: Gate
  fallback_deny :: bool
  last_input :: "instant option"

record Global =
  g_interface :: nat
  g_version :: u32

record Connection =
  objects :: Objects
  c_globals :: "(u32 \<times> Global) list"

record Incoming =
  from_client :: bool
  in_object :: u32
  in_opcode :: u16
  in_interface :: Interface
  in_message :: Message
  in_args :: "Arg list"
  in_fds :: "nat list"

definition connection_new :: "nat \<Rightarrow> Connection" where
  "connection_new display = \<lparr>objects = objects_new display, c_globals = []\<rparr>"

definition globals_count :: "Connection \<Rightarrow> nat" where
  "globals_count c = length (c_globals c)"

definition policy_new :: "Gate \<Rightarrow> bool \<Rightarrow> Policy" where
  "policy_new g deny = \<lparr>gate = g, fallback_deny = deny, last_input = None\<rparr>"

definition compositor_enforces :: "Policy \<Rightarrow> bool" where
  "compositor_enforces p = (\<not> fallback_deny p)"

definition arm_gate :: "instant \<Rightarrow> Policy \<Rightarrow> Policy" where
  "arm_gate now p = p\<lparr>last_input := Some now\<rparr>"

text \<open>Everything \<open>apply\<close> may change besides its verdict.\<close>

record World =
  w_msg :: Incoming
  w_conn :: Connection
  w_policy :: Policy
  w_audit :: Audit

definition drop_message :: "World \<Rightarrow> Verdict \<times> World" where
  "drop_message w = (DropMsg, w\<lparr>w_msg := (w_msg w)\<lparr>in_fds := []\<rparr>\<rparr>)"

definition display_error :: "u32 \<Rightarrow> bytes \<Rightarrow> bytes" where
  "display_error object msg =
     (case encode DISPLAY_ID DISPLAY_ERROR
             [ArgObject object, ArgUint 0, ArgString (Some (if 0 \<in> set msg then [] else msg))] of
        Inr out \<Rightarrow> out
      | Inl _ \<Rightarrow> [])"

definition refuse_bind :: "u32 \<Rightarrow> bytes \<Rightarrow> instant \<Rightarrow> World \<Rightarrow> Verdict \<times> World" where
  "refuse_bind object why now w =
     (Refuse (display_error object why),
      w\<lparr>w_audit := audit_line CloseLine now (str ''bubbler-wl-proxy: connection closed: '' @ why) (w_audit w)\<rparr>)"

definition names :: "Incoming \<Rightarrow> string \<Rightarrow> string \<Rightarrow> bool" where
  "names m iface msg \<longleftrightarrow> i_name (in_interface m) = str iface \<and> m_name (in_message m) = str msg"

fun first_string :: "Arg list \<Rightarrow> bytes" where
  "first_string (ArgString (Some s) # _) = utf8_lossy s"
| "first_string _ = []"

definition millis :: "duration \<Rightarrow> nat" where
  "millis d = d div 10 ^ 6"

definition judge_request :: "instant \<Rightarrow> World \<Rightarrow> Verdict \<times> World" where
  "judge_request now w =
     (let m = w_msg w; p = w_policy w; iface = i_name (in_interface m) in
      if m_name (in_message m) \<noteq> str ''receive'' \<or> binary_search GATED_OFFERS iface = None
      then (Forward, w)
      else
        let mime = first_string (in_args m) in
        if gate p = Open then
          (Forward, w\<lparr>w_audit := audit_line GateLine now
             (str ''bubbler-wl-proxy: clipboard read allowed (open): '' @ iface @ str '', '' @ mime)
             (w_audit w)\<rparr>)
        else
          let age = map_option (\<lambda>l. now - l) (last_input p) in
          if (case age of Some a \<Rightarrow> a \<le> GATE_WINDOW | None \<Rightarrow> False) then (Forward, w)
          else
            let why = (case age of
                         Some a \<Rightarrow> str ''no input for '' @ dec_digits (millis a) @ str '' ms''
                       | None \<Rightarrow> str ''no input since the proxy started'') in
            drop_message (w\<lparr>w_audit := audit_line GateLine now
              (str ''bubbler-wl-proxy: clipboard read denied ('' @ iface @ str '', '' @ mime @ str ''): '' @ why)
              (w_audit w)\<rparr>))"

definition known_global :: "Interface list \<Rightarrow> bytes \<Rightarrow> (nat \<times> Interface) option" where
  "known_global T iface =
     (if \<not> utf8_valid iface then None
      else case (index_of T iface, lookup T iface) of
             (Some k, Some i) \<Rightarrow> if binary_search PRIVILEGED iface = None then Some (k, i) else None
           | _ \<Rightarrow> None)"

definition ev_global :: "Interface list \<Rightarrow> World \<Rightarrow> Verdict \<times> World" where
  "ev_global T w =
     (case in_args (w_msg w) of
        ArgUint name # ArgString (Some iface) # ArgUint version # rest \<Rightarrow>
          (case known_global T iface of
             None \<Rightarrow>
               drop_message (w\<lparr>w_conn := (w_conn w)\<lparr>objects := hide_global name (objects (w_conn w))\<rparr>\<rparr>)
           | Some (index, known) \<Rightarrow>
               let offered = min version (i_version known);
                   conn = (w_conn w)\<lparr>c_globals :=
                     AList.update name \<lparr>g_interface = index, g_version = offered\<rparr> (c_globals (w_conn w))\<rparr>;
                   args = (if offered \<noteq> version
                           then ArgUint name # ArgString (Some iface) # ArgUint offered # rest
                           else in_args (w_msg w))
               in (Forward, w\<lparr>w_conn := conn, w_msg := (w_msg w)\<lparr>in_args := args\<rparr>\<rparr>))
      | _ \<Rightarrow> (Forward, w))"

definition ev_global_remove :: "World \<Rightarrow> Verdict \<times> World" where
  "ev_global_remove w =
     (case in_args (w_msg w) of
        ArgUint name # _ \<Rightarrow>
          if is_hidden (objects (w_conn w)) name then drop_message w
          else (Forward, w\<lparr>w_conn := (w_conn w)\<lparr>c_globals := AList.delete name (c_globals (w_conn w))\<rparr>\<rparr>)
      | _ \<Rightarrow> (Forward, w))"

text \<open>The events that arm the gate.\<close>

definition is_input :: "Incoming \<Rightarrow> bool" where
  "is_input m \<longleftrightarrow>
     (names m ''wl_keyboard'' ''key'' \<and> get_at (in_args m) 3 = Some (ArgUint 1)) \<or>
     names m ''wl_pointer'' ''button'' \<or> names m ''wl_touch'' ''down'' \<or> names m ''wl_touch'' ''up''"

definition judge_event :: "Interface list \<Rightarrow> instant \<Rightarrow> World \<Rightarrow> Verdict \<times> World" where
  "judge_event T now w =
     (let m = w_msg w in
      if names m ''wl_registry'' ''global'' then ev_global T w
      else if names m ''wl_registry'' ''global_remove'' then ev_global_remove w
      else if names m ''wl_display'' ''delete_id'' then
        (Forward, case in_args m of
           ArgUint i # _ \<Rightarrow> w\<lparr>w_conn := (w_conn w)\<lparr>objects := snd (obj_delete_id i (objects (w_conn w)))\<rparr>\<rparr>
         | _ \<Rightarrow> w)
      else (Forward, if is_input m then w\<lparr>w_policy := arm_gate now (w_policy w)\<rparr> else w))"

definition policy_bind :: "Interface list \<Rightarrow> instant \<Rightarrow> World \<Rightarrow> (ObjectError + Verdict) \<times> World" where
  "policy_bind T now w =
     (case in_args (w_msg w) of
        ArgUint name # ArgString (Some iface) # ArgUint version # ArgNewId new_id # _ \<Rightarrow>
          let wanted = utf8_lossy iface;
              offered = (case map_of (c_globals (w_conn w)) name of
                           Some g \<Rightarrow>
                             if (case by_index T (g_interface g) of Some k \<Rightarrow> i_name k = wanted | None \<Rightarrow> False) \<and>
                                1 \<le> version \<and> version \<le> g_version g
                             then Some g else None
                         | None \<Rightarrow> None)
          in (case offered of
                None \<Rightarrow>
                  map_prod Inr (\<lambda>x. x) (refuse_bind (in_object (w_msg w))
                    (str ''bind of hidden global '' @ wanted @ str '' (name '' @ dec_digits (unat name) @
                     str '', v'' @ dec_digits (unat version) @ str '') refused by the sandbox proxy'') now w)
              | Some g \<Rightarrow>
                  (case obj_bind T name (g_interface g) version new_id (objects (w_conn w)) of
                     Inl err \<Rightarrow> (Inl err, w)
                   | Inr os \<Rightarrow> (Inr Forward, w\<lparr>w_conn := (w_conn w)\<lparr>objects := os\<rparr>\<rparr>)))
      | _ \<Rightarrow> map_prod Inr (\<lambda>x. x)
               (refuse_bind (in_object (w_msg w)) (str ''a bind the proxy could not read'') now w))"

text \<open>On an error the message goes no further, but what the judging changed stays changed.\<close>

definition apply_policy :: "Interface list \<Rightarrow> instant \<Rightarrow> World \<Rightarrow> (ObjectError + Verdict) \<times> World" where
  "apply_policy T now w =
     (let m = w_msg w in
      if from_client m \<and> names m ''wl_registry'' ''bind'' then policy_bind T now w
      else
        let (verdict, w') = (if from_client m then judge_request now w else judge_event T now w) in
        if verdict = Forward then
          (case new_id_from T (from_client m) (in_object m) (in_opcode m) (in_args (w_msg w'))
                  (objects (w_conn w')) of
             Inl err \<Rightarrow> (Inl err, w')
           | Inr (_, os) \<Rightarrow>
               let os' = (if from_client m \<and> m_destructor (in_message m)
                          then snd (obj_destroy (in_object m) os) else os)
               in (Inr verdict, w'\<lparr>w_conn := (w_conn w')\<lparr>objects := os'\<rparr>\<rparr>))
        else (Inr verdict, w'))"

section \<open>What a connection was offered\<close>

definition global_ok :: "Interface list \<Rightarrow> Global \<Rightarrow> bool" where
  "global_ok T g \<longleftrightarrow> (\<exists>k. by_index T (g_interface g) = Some k \<and> i_name k \<notin> set PRIVILEGED \<and>
     g_version g \<le> i_version k)"

definition conn_inv :: "Interface list \<Rightarrow> Connection \<Rightarrow> bool" where
  "conn_inv T c \<longleftrightarrow> objects_inv T (objects c) \<and> (\<forall>(n, g) \<in> set (c_globals c). global_ok T g)"

lemma binary_search_sound: "binary_search xs x = Some i \<Longrightarrow> i < length xs \<and> xs ! i = x"
  using bs_loop_range [of "length xs" 0 xs x]
  by (auto simp: binary_search_def Let_def split: if_splits)

lemma known_global_ok:
  assumes "known_global T iface = Some (k, i)"
  shows "by_index T k = Some i \<and> i_name i = iface \<and> iface \<notin> set PRIVILEGED"
proof -
  from assms have k: "index_of T iface = Some k" and l: "lookup T iface = Some i" and
      "binary_search PRIVILEGED iface = None"
    by (auto simp: known_global_def split: if_splits option.splits)
  then show ?thesis
    using binary_search_sound [of "map i_name T" iface k] privileged_search
    by (auto simp: index_of_def lookup_def by_index_def get_at_def split: if_splits)
qed

lemma drop_message_simps [simp]:
  "fst (drop_message w) = DropMsg" "w_conn (snd (drop_message w)) = w_conn w"
  "w_policy (snd (drop_message w)) = w_policy w" "in_fds (w_msg (snd (drop_message w))) = []"
  by (simp_all add: drop_message_def)

lemma refuse_bind_simps [simp]:
  "w_conn (snd (refuse_bind i why now w)) = w_conn w" "w_policy (snd (refuse_bind i why now w)) = w_policy w"
  "fst (refuse_bind i why now w) \<noteq> Forward"
  by (simp_all add: refuse_bind_def)

lemma judge_request_keeps [simp]:
  "w_conn (snd (judge_request now w)) = w_conn w" "w_policy (snd (judge_request now w)) = w_policy w"
  by (simp_all add: judge_request_def Let_def)

lemma ev_global_inv:
  assumes "conn_inv T (w_conn w)"
  shows "conn_inv T (w_conn (snd (ev_global T w)))"
proof -
  have "global_ok T \<lparr>g_interface = k, g_version = min v (i_version i)\<rparr>"
    if "known_global T iface = Some (k, i)" for iface k i v
    using known_global_ok [OF that] by (auto simp: global_ok_def)
  with assms show ?thesis
    by (auto simp: ev_global_def conn_inv_def Let_def split: list.splits Arg.splits option.splits
        dest!: set_update)
qed

lemma ev_global_remove_inv:
  "conn_inv T (w_conn w) \<Longrightarrow> conn_inv T (w_conn (snd (ev_global_remove w)))"
  by (auto simp: ev_global_remove_def conn_inv_def split: list.splits Arg.splits dest!: set_delete)

lemma judge_event_inv:
  assumes "conn_inv T (w_conn w)"
  shows "conn_inv T (w_conn (snd (judge_event T now w)))"
proof -
  have "conn_inv T ((w_conn w)\<lparr>objects := snd (obj_delete_id i (objects (w_conn w)))\<rparr>)" for i
    using assms by (simp add: conn_inv_def obj_delete_id_inv)
  then show ?thesis
    using assms ev_global_inv [OF assms] ev_global_remove_inv [OF assms]
    by (auto simp: judge_event_def Let_def split: list.splits Arg.splits)
qed

lemma policy_bind_inv:
  "conn_inv T (w_conn w) \<Longrightarrow> conn_inv T (w_conn (snd (policy_bind T now w)))"
  by (auto simp: policy_bind_def Let_def conn_inv_def split: list.splits Arg.splits option.splits
      sum.splits dest: obj_bind_inv)

lemma apply_policy_inv:
  assumes "conn_inv T (w_conn w)"
  shows "conn_inv T (w_conn (snd (apply_policy T now w)))"
proof -
  let ?j = "if from_client (w_msg w) then judge_request now w else judge_event T now w"
  obtain v w' where j: "?j = (v, w')" by (cases ?j)
  have inv: "conn_inv T (w_conn w')"
    using j assms judge_event_inv [OF assms, of now] judge_request_keeps(1) [of now w]
    by (metis snd_conv)
  have "conn_inv T ((w_conn w')\<lparr>objects := os'\<rparr>)" if "objects_inv T os'" for os'
    using inv that by (simp add: conn_inv_def)
  moreover have "new_id_from T c i oc as (objects (w_conn w')) = Inr (r, os) \<Longrightarrow> objects_inv T os"
    for c i oc as r os
    using inv new_id_from_inv by (auto simp: conn_inv_def)
  ultimately show ?thesis
    using inv policy_bind_inv [OF assms, of now] obj_destroy_inv
    unfolding apply_policy_def Let_def j
    by (auto split: sum.splits)
qed

text \<open>The states a connection can be in: any messages, judged at any time under any policy.\<close>

inductive conn_reach :: "Interface list \<Rightarrow> nat \<Rightarrow> Connection \<Rightarrow> bool" for T display where
  fresh: "conn_reach T display (connection_new display)"
| judged: "conn_reach T display (w_conn w) \<Longrightarrow> conn_reach T display (w_conn (snd (apply_policy T now w)))"

lemma conn_reach_inv:
  assumes "conn_reach T display c" and "by_index T display = Some iface" and "1 \<le> i_version iface"
  shows "conn_inv T c"
  using assms(1)
proof (induction rule: conn_reach.induct)
  case fresh
  then show ?case using objects_new_inv [OF assms(2,3)] by (simp add: conn_inv_def connection_new_def)
next
  case (judged w now)
  then show ?case by (rule_tac apply_policy_inv)
qed

lemma policy_bind_Forward:
  assumes "policy_bind T now w = (Inr Forward, w')"
  shows "\<exists>name iface version new_id rest g known os.
    in_args (w_msg w) = ArgUint name # ArgString (Some iface) # ArgUint version # ArgNewId new_id # rest \<and>
    map_of (c_globals (w_conn w)) name = Some g \<and> by_index T (g_interface g) = Some known \<and>
    i_name known = utf8_lossy iface \<and> 1 \<le> version \<and> version \<le> g_version g \<and>
    obj_bind T name (g_interface g) version new_id (objects (w_conn w)) = Inr os \<and>
    w' = w\<lparr>w_conn := (w_conn w)\<lparr>objects := os\<rparr>\<rparr>"
  using assms
  by (auto simp: policy_bind_def Let_def refuse_bind_def split: list.splits Arg.splits option.splits
      if_splits sum.splits)

lemma obj_bind_recorded:
  assumes "obj_bind T name k version new_id os = Inr os'" and "by_index T k = Some known"
    and "version \<le> i_version known"
  shows "name \<notin> hidden_globals os \<and> obj_get os new_id = None \<and>
    obj_get os' new_id = Some \<lparr>e_interface = k, e_version = version, e_zombie = False\<rparr>"
  using assms
  by (auto simp: obj_bind_def obj_record_def obj_get_def Let_def min_def AList.update_conv'
      split: if_splits option.splits)

text \<open>C21. A bind reaches the compositor only for what the connection was offered: the global's number
  was advertised to this client and not hidden since, under the very interface the client
  names, which is in the tables and not privileged, at a version from 1 to the one offered,
  which the tables describe; and the new id, free before, is recorded as that interface at
  that version.\<close>

theorem bind_only_offered:
  assumes "conn_reach T display (w_conn w)"
    and "by_index T display = Some wl_display" and "1 \<le> i_version wl_display"
    and "from_client (w_msg w)" and "names (w_msg w) ''wl_registry'' ''bind''"
    and "apply_policy T now w = (Inr Forward, w')"
  shows "\<exists>name iface version new_id rest g known.
    in_args (w_msg w) = ArgUint name # ArgString (Some iface) # ArgUint version # ArgNewId new_id # rest \<and>
    map_of (c_globals (w_conn w)) name = Some g \<and> \<not> is_hidden (objects (w_conn w)) name \<and>
    by_index T (g_interface g) = Some known \<and> i_name known = utf8_lossy iface \<and>
    i_name known \<notin> set PRIVILEGED \<and>
    1 \<le> version \<and> version \<le> g_version g \<and> g_version g \<le> i_version known \<and>
    obj_get (objects (w_conn w)) new_id = None \<and>
    obj_get (objects (w_conn w')) new_id =
      Some \<lparr>e_interface = g_interface g, e_version = version, e_zombie = False\<rparr>"
proof -
  have "policy_bind T now w = (Inr Forward, w')" using assms by (simp add: apply_policy_def Let_def)
  then obtain name iface version new_id rest g known os where b:
      "in_args (w_msg w) = ArgUint name # ArgString (Some iface) # ArgUint version # ArgNewId new_id # rest"
      "map_of (c_globals (w_conn w)) name = Some g" "by_index T (g_interface g) = Some known"
      "i_name known = utf8_lossy iface" "1 \<le> version" "version \<le> g_version g"
      "obj_bind T name (g_interface g) version new_id (objects (w_conn w)) = Inr os"
      "w' = w\<lparr>w_conn := (w_conn w)\<lparr>objects := os\<rparr>\<rparr>"
    using policy_bind_Forward by blast
  have "global_ok T g"
    using conn_reach_inv [OF assms(1-3)] map_of_in [OF b(2)] by (auto simp: conn_inv_def)
  then have g: "i_name known \<notin> set PRIVILEGED" "g_version g \<le> i_version known"
    using b(3) by (auto simp: global_ok_def)
  with b obj_bind_recorded [OF b(7,3)] show ?thesis by (auto simp: is_hidden_def)
qed

definition demo_msg :: "bool \<Rightarrow> nat \<Rightarrow> nat \<Rightarrow> Arg list \<Rightarrow> Incoming" where
  "demo_msg c iface msg args =
     \<lparr>from_client = c, in_object = 2, in_opcode = 0, in_interface = demo_tables ! iface,
      in_message = (if c then i_requests (demo_tables ! iface) else i_events (demo_tables ! iface)) ! msg,
      in_args = args, in_fds = []\<rparr>"

definition demo_world :: "Connection \<Rightarrow> Incoming \<Rightarrow> World" where
  "demo_world c m = \<lparr>w_msg = m, w_conn = c, w_policy = policy_new Paste False, w_audit = audit_new\<rparr>"

definition demo_conn :: Connection where
  "demo_conn = (connection_new 1)\<lparr>c_globals := [(5, \<lparr>g_interface = 0, g_version = 3\<rparr>)]\<rparr>"

lemma demo_known: "known_global demo_tables (str ''wl_data_offer'') = Some (0, demo_tables ! 0)"
proof -
  have "binary_search (map i_name demo_tables) (str ''wl_data_offer'') = Some 0"
    by (simp add: binary_search_Some demo_tables_def)
  moreover have "binary_search PRIVILEGED (str ''wl_data_offer'') = None"
    unfolding privileged_search by (simp add: PRIVILEGED_def)
  ultimately show ?thesis
    by (simp add: known_global_def index_of_def lookup_def by_index_def get_at_def demo_tables_def)
qed

lemma demo_conn_reach: "conn_reach demo_tables 1 demo_conn"
proof -
  let ?w = "demo_world (connection_new 1)
    (demo_msg False 2 0 [ArgUint 5, ArgString (Some (str ''wl_data_offer'')), ArgUint 9])"
  have "names (w_msg ?w) ''wl_registry'' ''global''"
    by (simp add: names_def demo_world_def demo_msg_def demo_tables_def)
  then have "judge_event demo_tables 0 ?w = ev_global demo_tables ?w"
    by (simp add: judge_event_def)
  moreover have "\<exists>m. ev_global demo_tables ?w = (Forward, ?w\<lparr>w_conn := demo_conn, w_msg := m\<rparr>)"
    using demo_known
    by (simp add: ev_global_def demo_world_def demo_msg_def demo_conn_def connection_new_def
        demo_tables_def min_def)
  moreover have "new_id_from demo_tables False 2 0 as (objects demo_conn) = Inl (Unmapped 2)" for as
    by (simp add: new_id_from_def obj_get_def demo_conn_def connection_new_def objects_new_def)
  ultimately have "w_conn (snd (apply_policy demo_tables 0 ?w)) = demo_conn"
    by (auto simp: apply_policy_def Let_def demo_world_def demo_msg_def split: sum.splits prod.splits)
  moreover have "w_conn ?w = connection_new 1" by (simp add: demo_world_def)
  ultimately show ?thesis using conn_reach.judged [of demo_tables 1 ?w 0] conn_reach.fresh by metis
qed

theorem bind_only_offered_witness:
  "\<exists>g. map_of (c_globals demo_conn) 5 = Some g \<and> \<not> is_hidden (objects demo_conn) 5"
proof -
  let ?w = "demo_world demo_conn
    (demo_msg True 2 0 [ArgUint 5, ArgString (Some (str ''wl_data_offer'')), ArgUint 2, ArgNewId 3])"
  have d: "by_index demo_tables 1 = Some (demo_tables ! 1)" "1 \<le> i_version (demo_tables ! 1)"
    by (simp_all add: by_index_def get_at_def demo_tables_def)
  have c: "from_client (w_msg ?w)" "names (w_msg ?w) ''wl_registry'' ''bind''"
      "conn_reach demo_tables 1 (w_conn ?w)"
    using demo_conn_reach by (simp_all add: demo_world_def demo_msg_def names_def demo_tables_def)
  have lossy: "utf8_lossy (str ''wl_data_offer'') = str ''wl_data_offer''"
    by (rule utf8_lossy_valid) simp
  have "\<exists>os. obj_bind demo_tables 5 0 2 3 (objects demo_conn) = Inr os"
    by (simp add: obj_bind_def obj_record_def demo_conn_def connection_new_def objects_new_def
        by_index_def get_at_def demo_tables_def SERVER_ID_BASE_def obj_live_def MAX_OBJECTS_def)
  then have "\<exists>w'. policy_bind demo_tables 0 ?w = (Inr Forward, w')"
    using lossy
    by (auto simp: policy_bind_def demo_world_def demo_msg_def demo_conn_def by_index_def get_at_def
        demo_tables_def)
  then obtain w' where w': "apply_policy demo_tables 0 ?w = (Inr Forward, w')"
    using c by (auto simp: apply_policy_def Let_def)
  from bind_only_offered [OF c(3) d c(1,2) w'] show ?thesis
    by (auto simp: demo_world_def demo_msg_def)
qed

section \<open>The clipboard gate\<close>

text \<open>A clipboard read: a \<open>receive\<close> request on a gated offer.\<close>

definition is_read :: "Incoming \<Rightarrow> bool" where
  "is_read m \<longleftrightarrow> from_client m \<and> m_name (in_message m) = str ''receive'' \<and>
     i_name (in_interface m) \<in> set GATED_OFFERS"

text \<open>The one policy of a sandbox through a run of judged messages, each on whatever connection.\<close>

fun run_policy :: "Interface list \<Rightarrow> Policy \<Rightarrow> (instant \<times> World) list \<Rightarrow> Policy" where
  "run_policy T p [] = p"
| "run_policy T p ((now, w) # ws) =
     run_policy T (w_policy (snd (apply_policy T now (w\<lparr>w_policy := p\<rparr>)))) ws"

definition input_step :: "instant \<times> World \<Rightarrow> bool" where
  "input_step s \<longleftrightarrow> \<not> from_client (w_msg (snd s)) \<and> is_input (w_msg (snd s))"

lemma is_input_names:
  "is_input m \<Longrightarrow> \<not> names m ''wl_registry'' x \<and> \<not> names m ''wl_display'' y"
  by (auto simp: is_input_def names_def)

lemma judge_event_policy:
  "w_policy (snd (judge_event T now w)) =
     (if is_input (w_msg w) then arm_gate now (w_policy w) else w_policy w)"
  using is_input_names [of "w_msg w"]
  by (auto simp: judge_event_def ev_global_def ev_global_remove_def Let_def drop_message_def
      split: list.splits Arg.splits option.splits)

lemma policy_bind_policy [simp]: "w_policy (snd (policy_bind T now w)) = w_policy w"
  by (auto simp: policy_bind_def Let_def split: list.splits Arg.splits option.splits sum.splits)

lemma apply_policy_policy:
  "w_policy (snd (apply_policy T now w)) =
     (if input_step (now, w) then arm_gate now (w_policy w) else w_policy w)"
proof -
  let ?j = "if from_client (w_msg w) then judge_request now w else judge_event T now w"
  obtain v w' where j: "?j = (v, w')" by (cases ?j)
  have w': "w_policy w' = (if input_step (now, w) then arm_gate now (w_policy w) else w_policy w)"
  proof -
    have "w_policy (snd ?j) = (if input_step (now, w) then arm_gate now (w_policy w) else w_policy w)"
      by (simp add: judge_event_policy input_step_def)
    then show ?thesis unfolding j by simp
  qed
  show ?thesis
  proof (cases "from_client (w_msg w) \<and> names (w_msg w) ''wl_registry'' ''bind''")
    case True
    then show ?thesis by (simp add: apply_policy_def input_step_def Let_def)
  next
    case False
    then show ?thesis
      unfolding apply_policy_def Let_def j using w' by (auto split: sum.splits)
  qed
qed

text \<open>The gate is armed by the latest input event, on whichever connection.\<close>

lemma run_policy_state:
  "gate (run_policy T p steps) = gate p \<and>
   last_input (run_policy T p steps) =
     (if filter input_step steps = [] then last_input p else Some (fst (last (filter input_step steps))))"
proof (induction T p steps rule: run_policy.induct)
  case (1 T p)
  then show ?case by simp
next
  case (2 T p now w ws)
  have "input_step (now, w\<lparr>w_policy := p\<rparr>) = input_step (now, w)" by (simp add: input_step_def)
  with 2 show ?case by (simp add: apply_policy_policy arm_gate_def)
qed

lemma judge_read:
  assumes "is_read (w_msg w)"
  shows "(fst (judge_request now w) = Forward \<longleftrightarrow>
      gate (w_policy w) = Open \<or> (\<exists>l. last_input (w_policy w) = Some l \<and> now - l \<le> GATE_WINDOW)) \<and>
    (fst (judge_request now w) = Forward \<or>
     fst (judge_request now w) = DropMsg \<and> in_fds (w_msg (snd (judge_request now w))) = [])"
proof -
  have "binary_search GATED_OFFERS (i_name (in_interface (w_msg w))) \<noteq> None"
    using assms(1) by (simp add: gated_search is_read_def)
  with assms show ?thesis
    by (cases "gate (w_policy w)") (auto simp: judge_request_def Let_def is_read_def split: option.splits)
qed

lemma read_not_bind: "is_read m \<Longrightarrow> \<not> names m ''wl_registry'' ''bind''"
  by (auto simp: is_read_def names_def)

text \<open>C22. The clipboard gate: whatever messages the sandbox's connections exchange from the start, a
  clipboard read judged at \<open>now\<close> goes through exactly when the gate is open, or the latest input event any
  connection saw was at most \<open>GATE_WINDOW\<close> earlier; otherwise it is dropped and its descriptor closed.\<close>

theorem clipboard_gate:
  assumes "w_policy w = run_policy T (policy_new mode deny) steps"
    and "is_read (w_msg w)" and "apply_policy T now w = (Inr verdict, w')"
  shows "if mode = Open \<or> filter input_step steps \<noteq> [] \<and> now - fst (last (filter input_step steps)) \<le> GATE_WINDOW
    then verdict = Forward else verdict = DropMsg \<and> in_fds (w_msg w') = []"
proof -
  let ?j = "judge_request now w"
  obtain v wj where j: "?j = (v, wj)" by (cases ?j)
  have paste: "gate (w_policy w) = mode" and armed: "last_input (w_policy w) =
      (if filter input_step steps = [] then None else Some (fst (last (filter input_step steps))))"
    using run_policy_state [of T "policy_new mode deny" steps] assms(1) by (simp_all add: policy_new_def)
  note judged = judge_read [OF assms(2), of now, unfolded j fst_conv snd_conv armed paste]
  have read: "from_client (w_msg w)" "\<not> names (w_msg w) ''wl_registry'' ''bind''"
    using assms(2) read_not_bind by (auto simp: is_read_def)
  show ?thesis
  proof (cases "v = Forward")
    case True
    then have "verdict = Forward"
      using assms(3) read j by (auto simp: apply_policy_def Let_def split: sum.splits)
    with True judged show ?thesis by (auto split: if_splits)
  next
    case False
    then have "apply_policy T now w = (Inr v, wj)"
      using read j by (simp add: apply_policy_def Let_def)
    with assms(3) judged False show ?thesis by (auto split: if_splits)
  qed
qed

theorem clipboard_gate_witness:
  "\<exists>v w'. apply_policy demo_tables 5 (demo_world demo_conn
     ((demo_msg True 0 0 [ArgString (Some (str ''text/plain'')), ArgFd])\<lparr>in_fds := [7]\<rparr>)) = (Inr v, w') \<and>
     v = DropMsg \<and> in_fds (w_msg w') = []"
proof -
  let ?w = "demo_world demo_conn
    ((demo_msg True 0 0 [ArgString (Some (str ''text/plain'')), ArgFd])\<lparr>in_fds := [7]\<rparr>)"
  have read: "is_read (w_msg ?w)"
    by (simp add: is_read_def demo_world_def demo_msg_def demo_tables_def GATED_OFFERS_def)
  have pol: "w_policy ?w = run_policy demo_tables (policy_new Paste False) []"
    by (simp add: demo_world_def)
  have "fst (judge_request 5 ?w) = DropMsg"
    using judge_read [OF read, of 5] by (auto simp: demo_world_def policy_new_def)
  then obtain wj where "judge_request 5 ?w = (DropMsg, wj)" by (metis prod.collapse)
  then have a: "apply_policy demo_tables 5 ?w = (Inr DropMsg, wj)"
    using read read_not_bind by (auto simp: apply_policy_def Let_def is_read_def)
  from clipboard_gate [OF pol read a] a show ?thesis by auto
qed

end
