(* ===== verification/Wl_Relay.thy ===== *)
theory Wl_Relay
  imports Wl_Policy "HOL-Library.Sublist"
begin

text \<open>
  The loop of the Wayland proxy (\<^verbatim>\<open>crates/bubbler-wl-proxy/src/relay.rs\<close>): the two sides of a
  connection, reading and framing, the queues and their flush, one round of service, and the
  round of the whole relay with its caps and its accept loop.  What the kernel answers is a
  parameter of each operation; a descriptor is a number.  Shown: the byte count of every queue
  is exact, so its decrement never underflows; a forwarded message is a whole message of its
  signature and carries exactly its own descriptors, in the order they arrived; the messages
  and verdicts do not depend on how the stream is cut into reads; and a relay never holds more
  than \<open>MAX_CONNECTIONS\<close> connections.
\<close>

definition WL_CHUNK :: nat where
  "WL_CHUNK = 4096"

definition MAX_FDS :: nat where
  "MAX_FDS = 253"

definition MAX_MESSAGE_FDS :: nat where
  "MAX_MESSAGE_FDS = 4"

definition MAX_QUEUE :: nat where
  "MAX_QUEUE = 4 * 2 ^ 20"

definition MAX_TOTAL_QUEUE :: nat where
  "MAX_TOTAL_QUEUE = 64 * 2 ^ 20"

definition MAX_CONNECTIONS :: nat where
  "MAX_CONNECTIONS = 256"

record Frame =
  fr_data :: bytes
  fr_off :: nat
  fr_fds :: "nat list"

record Side =
  sd_buf :: bytes
  sd_fds :: "nat list"
  sd_out :: "Frame list"
  sd_out_bytes :: nat
  sd_eof :: bool

record Conn =
  cn_client :: Side
  cn_server :: Side
  cn_state :: Connection
  closing :: bool
  broken :: bool

definition side_new :: Side where
  "side_new = \<lparr>sd_buf = [], sd_fds = [], sd_out = [], sd_out_bytes = 0, sd_eof = False\<rparr>"

definition conn_new :: "nat \<Rightarrow> Conn" where
  "conn_new display = \<lparr>cn_client = side_new, cn_server = side_new, cn_state = connection_new display,
     closing = False, broken = False\<rparr>"

definition want :: "bytes \<Rightarrow> nat" where
  "want buf = (case header_decode buf of
     Inr h \<Rightarrow> max (unat (h_size h) - length buf) WL_CHUNK
   | Inl _ \<Rightarrow> WL_CHUNK)"

section \<open>Writing\<close>

datatype SendRes = SendOk nat | SendWait | SendErr

text \<open>\<open>flush\<close>: one \<open>sendmsg\<close> answer per turn, none meaning that the socket would block.  The
  last component is what went out: the bytes and the descriptors that rode with them.\<close>

fun flush :: "SendRes list \<Rightarrow> Side \<Rightarrow> bool \<times> Side \<times> (bytes \<times> nat list) list" where
  "flush rs s =
     (case sd_out s of
        [] \<Rightarrow> (True, s, [])
      | f # fs \<Rightarrow>
          if length (fr_fds f) > MAX_MESSAGE_FDS then (False, s, [])
          else case rs of
                 [] \<Rightarrow> (True, s, [])
               | SendWait # _ \<Rightarrow> (True, s, [])
               | SendErr # _ \<Rightarrow> (False, s, [])
               | SendOk m # rs' \<Rightarrow>
                   let n = min m (length (fr_data f) - fr_off f) in
                   if n = 0 then (True, s, [])
                   else
                     let f' = f\<lparr>fr_fds := [], fr_off := fr_off f + n\<rparr>;
                         s' = s\<lparr>sd_out_bytes := sd_out_bytes s - n,
                                sd_out := (if fr_off f' \<ge> length (fr_data f') then fs else f' # fs)\<rparr>;
                         (ok, s'', sent) = flush rs' s'
                     in (ok, s'', (take n (drop (fr_off f) (fr_data f)), fr_fds f) # sent))"

declare flush.simps [simp del]

section \<open>Reading\<close>

datatype RecvRes = RecvOk bytes "nat list" bool | RecvWait | RecvErr

text \<open>Why a connection is closed, and the text the log gives it.\<close>

datatype Fault =
    WireFault WireError | ObjectFault ObjectError | MissingFds bytes bytes nat | CtrlTruncated
  | TooManyFds

definition receive :: "RecvRes \<Rightarrow> Side \<Rightarrow> Fault option \<times> Side" where
  "receive r s =
     (case r of
        RecvOk data fds ctrunc \<Rightarrow>
          let got = take (want (sd_buf s)) data;
              s' = s\<lparr>sd_buf := sd_buf s @ got, sd_eof := (sd_eof s \<or> got = []), sd_fds := sd_fds s @ fds\<rparr>
          in if ctrunc then (Some CtrlTruncated, s')
             else if length (sd_fds s') > MAX_FDS then (Some TooManyFds, s')
             else (None, s')
      | RecvWait \<Rightarrow> (None, s)
      | RecvErr \<Rightarrow> (None, s\<lparr>sd_eof := True\<rparr>))"

fun wire_fmt :: "WireError \<Rightarrow> bytes" where
  "wire_fmt NeedMore = str ''the buffer holds only part of the message''"
| "wire_fmt (BadSize s) = str ''message size '' @ dec_digits (unat s) @
     str '' is not a whole number of 4-byte words of at least 8''"
| "wire_fmt Truncated = str ''an argument runs past the end of the message''"
| "wire_fmt (Trailing n) = dec_digits n @ str '' bytes left over after the arguments''"
| "wire_fmt BadString = str ''a string argument is not NUL-terminated or has an embedded NUL''"
| "wire_fmt (TooLarge n) = str ''a message of '' @ dec_digits n @ str '' bytes does not fit the 16-bit size field''"

fun object_fmt :: "ObjectError \<Rightarrow> bytes" where
  "object_fmt (NotClientId i) = str ''object id '' @ dec_digits (unat i) @
     str '' is not in the client range 1..0xff000000''"
| "object_fmt (NotServerId i) = str ''object id '' @ dec_digits (unat i) @
     str '' is not in the server range 0xff000000..''"
| "object_fmt (InUse i) = str ''object '' @ dec_digits (unat i) @ str '' is still mapped''"
| "object_fmt (Unmapped i) = str ''object '' @ dec_digits (unat i) @ str '' is not mapped''"
| "object_fmt UntypedNewId = str ''the interface of this new object is only known from the message itself''"
| "object_fmt (NoSuchMessage n c) = n @ str '' has no message with opcode '' @ dec_digits (unat c) @
     str '' on this side''"
| "object_fmt (UnknownInterface k) = str ''interface '' @ dec_digits k @ str '' is not in the tables''"
| "object_fmt (MissingInterface n) = str ''the tables do not describe interface '' @ n"
| "object_fmt (HiddenGlobal n) = str ''global '' @ dec_digits (unat n) @ str '' is hidden from this connection''"
| "object_fmt TooManyObjects = str ''more than 65536 objects are mapped, or as many are dead server ids''"

fun fault_fmt :: "Fault \<Rightarrow> bytes" where
  "fault_fmt (WireFault e) = wire_fmt e"
| "fault_fmt (ObjectFault e) = object_fmt e"
| "fault_fmt (MissingFds i m n) = str ''a '' @ i @ str ''.'' @ m @ str '' arrived without its '' @ dec_digits n @
     str '' descriptors''"
| "fault_fmt CtrlTruncated = str ''the peer sent more descriptors than one message may carry''"
| "fault_fmt TooManyFds = str ''the peer sent more descriptors than its messages can own''"

text \<open>What the message loop of \<open>pump\<close> works on: the descriptors not yet claimed, the frames it
  queues on the far side and back on the near one, and the shared state.\<close>

record Pump =
  pu_fds :: "nat list"
  pu_forward :: "Frame list"
  pu_back :: "Frame list"
  pu_state :: Connection
  pu_policy :: Policy
  pu_audit :: Audit
  pu_closing :: bool

lemma decode_consumed: "decode buf sig = Inr (args, n) \<Longrightarrow> HEADER \<le> n \<and> n \<le> length buf"
  by (auto simp: decode_def rust_simps Let_def split: if_splits dest!: header_decode_Inr)

text \<open>One message: a fault, or the bytes it took and the state after it.\<close>

definition pump_message :: "Interface list \<Rightarrow> instant \<Rightarrow> bool \<Rightarrow> Header \<Rightarrow> bytes \<Rightarrow> Pump \<Rightarrow>
    (Fault \<times> Pump) + (nat \<times> Pump)" where
  "pump_message T now c h rest p =
     (case obj_interface T (objects (pu_state p)) (h_object h) of
        None \<Rightarrow> Inl (ObjectFault (Unmapped (h_object h)), p)
      | Some iface \<Rightarrow>
          (case if_message iface c (h_opcode h) of
             None \<Rightarrow> Inl (ObjectFault (NoSuchMessage (i_name iface) (h_opcode h)), p)
           | Some msg \<Rightarrow>
               (case decode rest (m_args msg) of
                  Inl e \<Rightarrow> Inl (WireFault e, p)
                | Inr (args, consumed) \<Rightarrow>
                    let owed = fd_count (m_args msg) in
                    if length (pu_fds p) < owed then Inl (MissingFds (i_name iface) (m_name msg) owed, p)
                    else
                      let w = \<lparr>w_msg = \<lparr>from_client = c, in_object = h_object h, in_opcode = h_opcode h,
                                 in_interface = iface, in_message = msg, in_args = args,
                                 in_fds = take owed (pu_fds p)\<rparr>,
                               w_conn = pu_state p, w_policy = pu_policy p, w_audit = pu_audit p\<rparr>;
                          (res, w') = apply_policy T now w;
                          p' = p\<lparr>pu_fds := drop owed (pu_fds p), pu_state := w_conn w',
                                 pu_policy := w_policy w', pu_audit := w_audit w'\<rparr>
                      in (case res of
                            Inl e \<Rightarrow> Inl (ObjectFault e, p')
                          | Inr Forward \<Rightarrow>
                              (case encode (h_object h) (h_opcode h) (in_args (w_msg w')) of
                                 Inl e \<Rightarrow> Inl (WireFault e, p')
                               | Inr data \<Rightarrow>
                                   Inr (consumed, p'\<lparr>pu_forward := pu_forward p @
                                     [\<lparr>fr_data = data, fr_off = 0, fr_fds = in_fds (w_msg w')\<rparr>]\<rparr>))
                          | Inr DropMsg \<Rightarrow> Inr (consumed, p')
                          | Inr (Refuse err) \<Rightarrow>
                              Inr (consumed, p'\<lparr>pu_closing := True,
                                pu_back := pu_back p @ (if err = [] then []
                                  else [\<lparr>fr_data = err, fr_off = 0, fr_fds = []\<rparr>])\<rparr>)))))"

lemma pump_message_consumed:
  "pump_message T now c h rest p = Inr (n, p') \<Longrightarrow> HEADER \<le> n \<and> n \<le> length rest"
  by (auto simp: pump_message_def Let_def split: option.splits sum.splits if_splits prod.splits Verdict.splits
      dest: decode_consumed)

function pump_loop :: "Interface list \<Rightarrow> instant \<Rightarrow> bool \<Rightarrow> bytes \<Rightarrow> Pump \<Rightarrow> Fault option \<times> bytes \<times> Pump" where
  "pump_loop T now c rest p =
     (if pu_closing p then (None, rest, p)
      else case header_decode rest of
             Inl e \<Rightarrow> if e = NeedMore then (None, rest, p) else (Some (WireFault e), rest, p)
           | Inr h \<Rightarrow>
               if length rest < unat (h_size h) then (None, rest, p)
               else case pump_message T now c h rest p of
                      Inl (fault, p') \<Rightarrow> (Some fault, rest, p')
                    | Inr (n, p') \<Rightarrow> pump_loop T now c (drop n rest) p')"
  by pat_completeness auto
termination
  by (relation "measure (\<lambda>(T, now, c, rest, p). length rest)")
    (auto dest!: pump_message_consumed simp: HEADER_def)

declare pump_loop.simps [simp del]

text \<open>The bytes a queue still has to write.\<close>

definition frames_len :: "Frame list \<Rightarrow> nat" where
  "frames_len fs = sum_list (map (\<lambda>f. length (fr_data f) - fr_off f) fs)"

definition push_frames :: "Frame list \<Rightarrow> Side \<Rightarrow> Side" where
  "push_frames fs s =
     s\<lparr>sd_out := sd_out s @ fs, sd_out_bytes := sd_out_bytes s + sum_list (map (\<lambda>f. length (fr_data f)) fs)\<rparr>"

text \<open>\<open>pump\<close>: on a fault the buffer is left as it is, since the connection is over.\<close>

definition pump :: "Interface list \<Rightarrow> instant \<Rightarrow> bool \<Rightarrow> RecvRes \<Rightarrow> Policy \<Rightarrow> Audit \<Rightarrow> Conn \<Rightarrow>
    Fault option \<times> Conn \<times> Policy \<times> Audit" where
  "pump T now c r pol au cn =
     (let src = (if c then cn_client cn else cn_server cn);
          dst = (if c then cn_server cn else cn_client cn);
          (fault, src1) = receive r src;
          put = (\<lambda>src dst cn. if c then cn\<lparr>cn_client := src, cn_server := dst\<rparr>
                              else cn\<lparr>cn_server := src, cn_client := dst\<rparr>)
      in case fault of
           Some e \<Rightarrow> (Some e, put src1 dst cn, pol, au)
         | None \<Rightarrow>
             let (fault, left, p) = pump_loop T now c (sd_buf src1)
                   \<lparr>pu_fds = sd_fds src1, pu_forward = [], pu_back = [], pu_state = cn_state cn,
                    pu_policy = pol, pu_audit = au, pu_closing = closing cn\<rparr>;
                 src2 = push_frames (pu_back p) (src1\<lparr>sd_fds := pu_fds p\<rparr>);
                 dst2 = push_frames (pu_forward p) dst;
                 cn2 = (put src2 dst2 cn)\<lparr>cn_state := pu_state p, closing := pu_closing p\<rparr>
             in case fault of
                  Some e \<Rightarrow> (Some e, cn2, pu_policy p, pu_audit p)
                | None \<Rightarrow>
                    (None, put (src2\<lparr>sd_buf := left\<rparr>) dst2 cn2, pu_policy p, pu_audit p))"

section \<open>One connection\<close>

definition poll_in :: "Conn \<Rightarrow> bool \<Rightarrow> bool" where
  "poll_in cn c =
     (let side = (if c then cn_client cn else cn_server cn);
          other = (if c then cn_server cn else cn_client cn)
      in \<not> closing cn \<and> \<not> sd_eof side \<and> sd_out_bytes other < MAX_QUEUE)"

definition poll_out :: "Conn \<Rightarrow> bool \<Rightarrow> bool" where
  "poll_out cn c = (sd_out (if c then cn_client cn else cn_server cn) \<noteq> [])"

definition finished :: "Conn \<Rightarrow> bool" where
  "finished cn \<longleftrightarrow>
     broken cn \<or>
     (closing cn \<and> sd_out (cn_client cn) = []) \<or>
     (sd_eof (cn_client cn) \<and> sd_out (cn_server cn) = [] \<and> sd_out (cn_client cn) = []) \<or>
     (sd_eof (cn_server cn) \<and> sd_out (cn_client cn) = [])"

definition queued :: "Conn \<Rightarrow> nat" where
  "queued cn = sd_out_bytes (cn_client cn) + sd_out_bytes (cn_server cn)"

text \<open>One round's environment for a connection: whether each side was woken, what its \<open>recvmsg\<close>
  gives and what its \<open>sendmsg\<close>s take.\<close>

record Round =
  r_client_woke :: bool
  r_server_woke :: bool
  r_client_recv :: RecvRes
  r_server_recv :: RecvRes
  r_client_send :: "SendRes list"
  r_server_send :: "SendRes list"

definition flush_both :: "Round \<Rightarrow> Conn \<Rightarrow> Conn" where
  "flush_both r cn =
     (let cn1 = (if sd_out (cn_server cn) = [] then cn
                 else let (ok, s, _) = flush (r_server_send r) (cn_server cn)
                      in cn\<lparr>cn_server := s, broken := broken cn \<or> \<not> ok\<rparr>)
      in if sd_out (cn_client cn1) = [] then cn1
         else let (ok, s, _) = flush (r_client_send r) (cn_client cn1)
              in cn1\<lparr>cn_client := s, broken := broken cn1 \<or> \<not> ok\<rparr>)"

definition service :: "Interface list \<Rightarrow> instant \<Rightarrow> Round \<Rightarrow> Policy \<Rightarrow> Audit \<Rightarrow> Conn \<Rightarrow>
    Fault option \<times> Conn \<times> Policy \<times> Audit" where
  "service T now r pol au cn =
     (let (f1, cn1, pol1, au1) =
            (if r_client_woke r \<and> \<not> closing cn \<and> \<not> sd_eof (cn_client cn)
             then pump T now True (r_client_recv r) pol au cn else (None, cn, pol, au))
      in case f1 of
           Some e \<Rightarrow> (Some e, cn1, pol1, au1)
         | None \<Rightarrow>
             let (f2, cn2, pol2, au2) =
                   (if r_server_woke r \<and> \<not> closing cn1 \<and> \<not> sd_eof (cn_server cn1)
                    then pump T now False (r_server_recv r) pol1 au1 cn1 else (None, cn1, pol1, au1))
             in case f2 of
                  Some e \<Rightarrow> (Some e, cn2, pol2, au2)
                | None \<Rightarrow> (None, flush_both r cn2, pol2, au2))"

section \<open>The relay\<close>

record Relay =
  re_policy :: Policy
  re_audit :: Audit
  re_conns :: "Conn list"
  re_backoff :: bool
  re_refusing :: bool

definition close_line :: "bytes \<Rightarrow> instant \<Rightarrow> Audit \<Rightarrow> Audit" where
  "close_line why now au = audit_line CloseLine now (str ''bubbler-wl-proxy: connection closed: '' @ why) au"

text \<open>Every connection in turn; an entry stays when it is neither faulty nor finished.  A side
  left out of the poll array is not woken.\<close>

fun service_all :: "Interface list \<Rightarrow> instant \<Rightarrow> (nat \<Rightarrow> Round) \<Rightarrow> nat \<Rightarrow> Conn list \<Rightarrow> Policy \<Rightarrow> Audit \<Rightarrow>
    (Conn \<times> bool) list \<times> Policy \<times> Audit" where
  "service_all T now env k [] pol au = ([], pol, au)"
| "service_all T now env k (cn # cns) pol au =
     (let r = (env k)\<lparr>r_client_woke := r_client_woke (env k) \<and> (poll_in cn True \<or> poll_out cn True),
                      r_server_woke := r_server_woke (env k) \<and> (poll_in cn False \<or> poll_out cn False)\<rparr>;
          (fault, cn', pol1, au1) = service T now r pol au cn;
          au2 = (case fault of Some e \<Rightarrow> close_line (fault_fmt e) now au1 | None \<Rightarrow> au1);
          (rest, pol3, au3) = service_all T now env (k + 1) cns pol1 au2
      in ((cn', fault = None \<and> \<not> finished cn') # rest, pol3, au3))"

text \<open>\<open>max_by_key\<close>: the last of the largest.\<close>

fun fattest :: "Conn list \<Rightarrow> nat option" where
  "fattest [] = None"
| "fattest (c # cs) =
     (case fattest cs of
        None \<Rightarrow> Some 0
      | Some k \<Rightarrow> if queued (cs ! k) < queued c then Some 0 else Some (k + 1))"

definition drop_fattest :: "instant \<Rightarrow> Conn list \<Rightarrow> Audit \<Rightarrow> Conn list \<times> Audit" where
  "drop_fattest now cns au =
     (let total = sum_list (map queued cns) in
      if total > MAX_TOTAL_QUEUE then
        (case fattest cns of
           Some k \<Rightarrow> (take k cns @ drop (k + 1) cns,
             close_line (str ''the sandbox has queued '' @ dec_digits total @ str '' bytes across its connections'')
               now au)
         | None \<Rightarrow> (cns, au))
      else (cns, au))"

text \<open>Accepting: an error's text is the system's.  A dial is what \<open>socket\<close>, the address and
  \<open>connect\<close> answer.\<close>

datatype Errno = MFILE | NFILE | AGAIN | INTR | INPROGRESS | OtherErrno nat

definition out_of_descriptors :: "Errno \<Rightarrow> bool" where
  "out_of_descriptors err \<longleftrightarrow> err = MFILE \<or> err = NFILE"

record Dial =
  d_socket :: "Errno option"
  d_address :: "Errno option"
  d_connect :: "Errno option"

definition dial :: "Dial \<Rightarrow> Errno option" where
  "dial d =
     (case d_socket d of
        Some err \<Rightarrow> Some err
      | None \<Rightarrow>
          (case d_address d of
             Some err \<Rightarrow> Some err
           | None \<Rightarrow> if d_connect d \<in> {None, Some INPROGRESS, Some AGAIN} then None else d_connect d))"

type_synonym AcceptRes = "Errno + Dial"

definition wait_for_descriptors :: "instant \<Rightarrow> Relay \<Rightarrow> Relay" where
  "wait_for_descriptors now r =
     (let r' = r\<lparr>re_backoff := True\<rparr> in
      if re_refusing r then r'
      else r'\<lparr>re_refusing := True,
              re_audit := audit_line CloseLine now
                (str ''bubbler-wl-proxy: connection refused: out of descriptors'') (re_audit r)\<rparr>)"

fun accept :: "nat \<Rightarrow> (Errno \<Rightarrow> bytes) \<Rightarrow> instant \<Rightarrow> AcceptRes list \<Rightarrow> Relay \<Rightarrow> Relay" where
  "accept display fmt now [] r = r"
| "accept display fmt now (a # as) r =
     (if length (re_conns r) < MAX_CONNECTIONS then
        (case a of
           Inl err \<Rightarrow>
             if err = AGAIN \<or> err = INTR then r
             else if out_of_descriptors err then wait_for_descriptors now r
             else r\<lparr>re_audit := close_line (str ''accept failed: '' @ fmt err) now (re_audit r)\<rparr>
         | Inr d \<Rightarrow>
             (case dial d of
                None \<Rightarrow>
                  accept display fmt now as
                    (r\<lparr>re_refusing := False, re_conns := re_conns r @ [conn_new display]\<rparr>)
              | Some err \<Rightarrow>
                  if out_of_descriptors err then wait_for_descriptors now r
                  else accept display fmt now as
                    (r\<lparr>re_audit := close_line (str ''no upstream socket: '' @ fmt err) now (re_audit r)\<rparr>)))
      else r)"

record StepEnv =
  se_poll :: "Errno option"
  se_text :: "Errno \<Rightarrow> bytes"
  se_now :: instant
  se_rounds :: "nat \<Rightarrow> Round"
  se_waiting :: bool
  se_accepts :: "AcceptRes list"

text \<open>\<open>step\<close> after the \<open>poll\<close>; the listener counts only when it was polled.\<close>

definition relay_step :: "Interface list \<Rightarrow> nat \<Rightarrow> StepEnv \<Rightarrow> Relay \<Rightarrow> Relay" where
  "relay_step T display e r =
     (let listening = (length (re_conns r) < MAX_CONNECTIONS \<and> \<not> re_backoff r);
          (served, pol, au) = service_all T (se_now e) (se_rounds e) 0 (re_conns r) (re_policy r) (re_audit r);
          (kept, au') = drop_fattest (se_now e) (map fst (filter snd served)) au;
          r' = r\<lparr>re_backoff := False, re_conns := kept, re_policy := pol, re_audit := au'\<rparr>
      in if listening \<and> se_waiting e then accept display (se_text e) (se_now e) (se_accepts e) r' else r')"

text \<open>The \<open>poll\<close>: skipped when there is nothing to wait for and no time to wait, and its
  interruption is a round with nothing done.\<close>

definition polls :: "Relay \<Rightarrow> bool" where
  "polls r \<longleftrightarrow> length (re_conns r) < MAX_CONNECTIONS \<or> re_backoff r \<or>
     (\<exists>cn \<in> set (re_conns r). \<exists>c \<in> {True, False}. poll_in cn c \<or> poll_out cn c)"

definition step :: "Interface list \<Rightarrow> nat \<Rightarrow> StepEnv \<Rightarrow> Relay \<Rightarrow> Errno + Relay" where
  "step T display e r =
     (case se_poll e of
        None \<Rightarrow> Inr (relay_step T display e r)
      | Some err \<Rightarrow>
          if polls r then if err = INTR then Inr r else Inl err
          else Inr (relay_step T display e r))"

text \<open>\<open>run\<close>: the error it returned, if one of the rounds had one.\<close>

fun run :: "Interface list \<Rightarrow> nat \<Rightarrow> StepEnv list \<Rightarrow> Relay \<Rightarrow> Errno option \<times> Relay" where
  "run T display [] r = (None, r)"
| "run T display (e # es) r =
     (case step T display e r of
        Inr r' \<Rightarrow> run T display es r'
      | Inl err \<Rightarrow>
          (Some err, r\<lparr>re_audit := audit_line CloseLine (se_now e)
             (str ''bubbler-wl-proxy: stopped: '' @ se_text e err) (re_audit r)\<rparr>))"

definition relay_new :: "Policy \<Rightarrow> Audit \<Rightarrow> Relay" where
  "relay_new pol au = \<lparr>re_policy = pol, re_audit = au, re_conns = [], re_backoff = False, re_refusing = False\<rparr>"

section \<open>What is forwarded\<close>

lemma judge_request_Forward: "judge_request now w = (Forward, w') \<Longrightarrow> w_msg w' = w_msg w"
  by (auto simp: judge_request_def drop_message_def Let_def split: if_splits)

definition same_shape :: "Incoming \<Rightarrow> Incoming \<Rightarrow> bool" where
  "same_shape m m' \<longleftrightarrow> in_fds m' = in_fds m \<and> map arg_kind (in_args m') = map arg_kind (in_args m) \<and>
     ((\<forall>a \<in> set (in_args m). arg_ok a) \<longrightarrow> (\<forall>a \<in> set (in_args m'). arg_ok a))"

lemma same_shape_refl [simp]: "same_shape m m"
  by (simp add: same_shape_def)

lemma ev_global_Forward: "ev_global T w = (Forward, w') \<Longrightarrow> same_shape (w_msg w) (w_msg w')"
  by (auto simp: ev_global_def drop_message_def Let_def same_shape_def split: list.splits Arg.splits
      option.splits if_splits)

lemma judge_event_Forward:
  assumes "judge_event T now w = (Forward, w')"
  shows "same_shape (w_msg w) (w_msg w')"
proof -
  have "ev_global_remove w = (Forward, w') \<Longrightarrow> w_msg w' = w_msg w"
    by (auto simp: ev_global_remove_def drop_message_def split: list.splits Arg.splits if_splits)
  with assms ev_global_Forward [of T w w'] show ?thesis
    by (auto simp: judge_event_def Let_def split: if_splits list.splits Arg.splits)
qed

lemma apply_policy_Forward:
  assumes "apply_policy T now w = (Inr Forward, w')"
  shows "same_shape (w_msg w) (w_msg w')"
proof (cases "from_client (w_msg w) \<and> names (w_msg w) ''wl_registry'' ''bind''")
  case True
  with assms have "policy_bind T now w = (Inr Forward, w')" by (simp add: apply_policy_def Let_def)
  then have "w_msg w' = w_msg w" by (auto dest!: policy_bind_Forward)
  then show ?thesis by simp
next
  case False
  let ?j = "if from_client (w_msg w) then judge_request now w else judge_event T now w"
  obtain v wj where j: "?j = (v, wj)" by (cases ?j)
  from assms False j have "v = Forward" "w_msg w' = w_msg wj"
    by (auto simp: apply_policy_def Let_def split: if_splits sum.splits)
  with j judge_request_Forward [of now w wj] judge_event_Forward [of T now w wj] show ?thesis
    by (auto split: if_splits)
qed

text \<open>A frame the far side can read: one whole message of the tables with its own descriptors.\<close>

definition frame_ok :: "Interface list \<Rightarrow> bool \<Rightarrow> Frame \<Rightarrow> bool" where
  "frame_ok T c f \<longleftrightarrow>
     (\<exists>k iface object opcode msg args. by_index T k = Some iface \<and> if_message iface c opcode = Some msg \<and>
        encode object opcode args = Inr (fr_data f) \<and> map arg_kind args = m_args msg \<and>
        (\<forall>a \<in> set args. arg_ok a) \<and> length (fr_fds f) = fd_count (m_args msg) \<and> fr_off f = 0)"

lemma pump_message_Inr:
  assumes "pump_message T now c h rest p = Inr (n, p')"
  shows "\<exists>owed. owed \<le> length (pu_fds p) \<and> pu_fds p' = drop owed (pu_fds p) \<and>
    (pu_forward p' = pu_forward p \<or>
     (\<exists>f. pu_forward p' = pu_forward p @ [f] \<and> frame_ok T c f \<and> fr_fds f = take owed (pu_fds p)))"
proof -
  from assms obtain iface msg args where
      i: "obj_interface T (objects (pu_state p)) (h_object h) = Some iface" and
      m: "if_message iface c (h_opcode h) = Some msg" and
      d: "decode rest (m_args msg) = Inr (args, n)" and
      l: "fd_count (m_args msg) \<le> length (pu_fds p)"
    by (auto simp: pump_message_def Let_def not_less split: option.splits sum.splits if_splits prod.splits
        Verdict.splits)
  let ?owed = "fd_count (m_args msg)"
  let ?w = "\<lparr>w_msg = \<lparr>from_client = c, in_object = h_object h, in_opcode = h_opcode h,
      in_interface = iface, in_message = msg, in_args = args, in_fds = take ?owed (pu_fds p)\<rparr>,
    w_conn = pu_state p, w_policy = pu_policy p, w_audit = pu_audit p\<rparr>"
  obtain res w' where a: "apply_policy T now ?w = (res, w')" by (cases "apply_policy T now ?w")
  have args: "map arg_kind args = m_args msg" "\<forall>a \<in> set args. arg_ok a"
    using d by (auto simp: decode_def rust_simps Let_def split: if_splits dest!: decode_body_Inr)
  show ?thesis
  proof (cases "res = Inr Forward")
    case False
    with assms i m d l a show ?thesis
      by (intro exI [of _ ?owed]) (auto simp: pump_message_def Let_def split: sum.splits Verdict.splits)
  next
    case True
    with assms i m d l a obtain data where data:
        "encode (h_object h) (h_opcode h) (in_args (w_msg w')) = Inr data"
        "pu_forward p' = pu_forward p @ [\<lparr>fr_data = data, fr_off = 0, fr_fds = in_fds (w_msg w')\<rparr>]"
        "pu_fds p' = drop ?owed (pu_fds p)"
      by (auto simp: pump_message_def Let_def split: sum.splits)
    have s: "same_shape (w_msg ?w) (w_msg w')" using apply_policy_Forward a True by blast
    obtain k where "by_index T k = Some iface"
      using i by (auto simp: obj_interface_def Option.bind_eq_Some_conv)
    with m data(1) s args l
    have "frame_ok T c \<lparr>fr_data = data, fr_off = 0, fr_fds = in_fds (w_msg w')\<rparr>"
      unfolding frame_ok_def same_shape_def by (intro exI [of _ k] exI [of _ iface]) auto
    with data l s show ?thesis
      by (intro exI [of _ ?owed]) (auto simp: same_shape_def)
  qed
qed

lemma pump_message_Inl:
  "pump_message T now c h rest p = Inl (e, p') \<Longrightarrow>
     pu_forward p' = pu_forward p \<and> pu_back p' = pu_back p \<and> (\<exists>owed. pu_fds p' = drop owed (pu_fds p))"
  by (auto simp: pump_message_def Let_def split: option.splits sum.splits if_splits prod.splits Verdict.splits
      intro: exI [of _ 0])

text \<open>The loop only appends to the frames it was given, and claims descriptors from the front.\<close>

lemma pump_loop_frames:
  assumes "pump_loop T now c rest p = (fault, left, p')"
  shows "\<exists>fs taken. pu_forward p' = pu_forward p @ fs \<and> (\<forall>f \<in> set fs. frame_ok T c f) \<and>
    pu_fds p = taken @ pu_fds p' \<and> subseq (concat (map fr_fds fs)) taken"
  using assms
proof (induction T now c rest p rule: pump_loop.induct)
  case (1 T now c rest p)
  note step = pump_loop.simps [of T now c rest p]
  show ?case
  proof (cases "\<exists>h n p1. \<not> pu_closing p \<and> header_decode rest = Inr h \<and> \<not> length rest < unat (h_size h) \<and>
      pump_message T now c h rest p = Inr (n, p1)")
    case True
    then obtain h n p1 where h: "\<not> pu_closing p" "header_decode rest = Inr h"
        "\<not> length rest < unat (h_size h)" and m: "pump_message T now c h rest p = Inr (n, p1)" by blast
    with "1.prems" have "pump_loop T now c (drop n rest) p1 = (fault, left, p')" by (simp add: step)
    with "1.IH" [OF h m refl] obtain fs taken where
        fs: "pu_forward p' = pu_forward p1 @ fs" "\<forall>f \<in> set fs. frame_ok T c f"
          "pu_fds p1 = taken @ pu_fds p'" "subseq (concat (map fr_fds fs)) taken"
      by blast
    obtain owed where o: "owed \<le> length (pu_fds p)" "pu_fds p1 = drop owed (pu_fds p)"
        "pu_forward p1 = pu_forward p \<or>
         (\<exists>f. pu_forward p1 = pu_forward p @ [f] \<and> frame_ok T c f \<and> fr_fds f = take owed (pu_fds p))"
      using pump_message_Inr [OF m] by blast
    have fds: "pu_fds p = (take owed (pu_fds p) @ taken) @ pu_fds p'"
      using o(2) fs(3) by (metis append.assoc append_take_drop_id)
    from o(3) show ?thesis
    proof (elim disjE exE conjE)
      assume "pu_forward p1 = pu_forward p"
      with fs fds show ?thesis
        by (intro exI [of _ fs] exI [of _ "take owed (pu_fds p) @ taken"]) (auto intro: list_emb_append2)
    next
      fix f
      assume "pu_forward p1 = pu_forward p @ [f]" "frame_ok T c f" "fr_fds f = take owed (pu_fds p)"
      with fs fds show ?thesis
        by (intro exI [of _ "f # fs"] exI [of _ "take owed (pu_fds p) @ taken"])
          (auto intro: list_emb_append_mono)
    qed
  next
    case False
    with "1.prems" have "pu_forward p' = pu_forward p \<and> (\<exists>owed. pu_fds p' = drop owed (pu_fds p))"
      by (auto simp: step split: if_splits sum.splits dest: pump_message_Inl intro: exI [of _ 0])
    then obtain owed where "pu_forward p' = pu_forward p" "pu_fds p' = drop owed (pu_fds p)" by blast
    then show ?thesis
      by (intro exI [of _ "[]"] exI [of _ "take owed (pu_fds p)"]) simp
  qed
qed

section \<open>However the stream is cut\<close>

lemma header_decode_extend: "header_decode b = Inr h \<Longrightarrow> header_decode (b @ x) = Inr h"
proof -
  assume h: "header_decode b = Inr h"
  then have "HEADER \<le> length b" using header_decode_Inr by blast
  then have "take HEADER (b @ x) = take HEADER b" by simp
  then show ?thesis using h unfolding header_decode_def by (simp only:)
qed

lemma decode_extend:
  assumes "header_decode b = Inr h" and "unat (h_size h) \<le> length b"
  shows "decode (b @ x) sig = decode b sig"
proof -
  have "get_range (b @ x) HEADER (unat (h_size h)) = get_range b HEADER (unat (h_size h))"
    using assms(2) by (simp add: get_range_def)
  with assms(1) header_decode_extend [OF assms(1), of x] show ?thesis
    by (simp add: decode_def)
qed

definition add_fds :: "nat list \<Rightarrow> Pump \<Rightarrow> Pump" where
  "add_fds fs p = p\<lparr>pu_fds := pu_fds p @ fs\<rparr>"

lemma pump_message_extend:
  assumes "header_decode b = Inr h" and "unat (h_size h) \<le> length b"
    and "pump_message T now c h b p = Inr (n, p')"
  shows "pump_message T now c h (b @ x) (add_fds fs p) = Inr (n, add_fds fs p')"
  using assms(3) decode_extend [OF assms(1,2), of x]
  by (auto simp: pump_message_def add_fds_def Let_def split: option.splits sum.splits if_splits
      prod.splits Verdict.splits)

lemma pump_loop_extend:
  assumes "pump_loop T now c b p = (None, left, p')"
  shows "pump_loop T now c (b @ x) (add_fds fs p) = pump_loop T now c (left @ x) (add_fds fs p')"
  using assms
proof (induction T now c b p rule: pump_loop.induct)
  case (1 T now c b p)
  note step = pump_loop.simps [of T now c b p]
  show ?case
  proof (cases "\<exists>h n p1. \<not> pu_closing p \<and> header_decode b = Inr h \<and> \<not> length b < unat (h_size h) \<and>
      pump_message T now c h b p = Inr (n, p1)")
    case True
    then obtain h n p1 where h: "\<not> pu_closing p" "header_decode b = Inr h"
        "\<not> length b < unat (h_size h)" and m: "pump_message T now c h b p = Inr (n, p1)" by blast
    with "1.prems" have rest: "pump_loop T now c (drop n b) p1 = (None, left, p')" by (simp add: step)
    have "n \<le> length b" using pump_message_consumed [OF m] by simp
    moreover have "pump_message T now c h (b @ x) (add_fds fs p) = Inr (n, add_fds fs p1)"
      using pump_message_extend h(2,3) m by (metis not_less)
    ultimately have "pump_loop T now c (b @ x) (add_fds fs p) =
        pump_loop T now c (drop n b @ x) (add_fds fs p1)"
      using h header_decode_extend [OF h(2), of x]
      by (simp add: pump_loop.simps [of T now c "b @ x"] add_fds_def)
    with "1.IH" [OF h m refl rest] show ?thesis by simp
  next
    case False
    with "1.prems" have "left = b \<and> p' = p" by (auto simp: step split: if_splits sum.splits)
    then show ?thesis by simp
  qed
qed

text \<open>A run on a concrete stream: one whole \<open>get_registry\<close> and the first bytes of the next message.\<close>

definition demo_pump :: "nat list \<Rightarrow> Pump" where
  "demo_pump fds = \<lparr>pu_fds = fds, pu_forward = [], pu_back = [], pu_state = demo_conn,
     pu_policy = policy_new Paste False, pu_audit = audit_new, pu_closing = False\<rparr>"

definition demo_get_registry :: bytes where
  "demo_get_registry = [1, 0, 0, 0, 0, 0, 12, 0, 2, 0, 0, 0]"

lemma demo_header: "header_decode (demo_get_registry @ rest) = Inr \<lparr>h_object = 1, h_opcode = 0, h_size = 12\<rparr>"
  by (simp add: demo_get_registry_def header_decode_def rust_simps HEADER_def le_u32_def Let_def)

lemma demo_encode: "encode 1 0 [ArgNewId 2] = Inr demo_get_registry"
  by (simp add: encode_def rust_simps demo_get_registry_def HEADER_def header_encode_def u32_le_def)

lemma demo_decode: "decode (demo_get_registry @ rest) [KNewId] = Inr ([ArgNewId 2], 12)"
  using decode_encoded [OF demo_encode, of rest] by (simp add: demo_get_registry_def)

definition demo_registry_conn :: Connection where
  "demo_registry_conn = demo_conn\<lparr>objects := snd (projr
      (new_id_from demo_tables True 1 0 [ArgNewId 2] (objects demo_conn)))\<rparr>"

lemma demo_new_id: "\<exists>x. new_id_from demo_tables True 1 0 [ArgNewId 2] (objects demo_conn) = Inr x"
proof -
  have "index_of demo_tables (str ''wl_registry'') = Some 2"
    by (simp add: index_of_def binary_search_Some demo_tables_def)
  then show ?thesis
    by (simp add: new_id_from_def obj_get_def demo_conn_def connection_new_def objects_new_def
      by_index_def get_at_def demo_tables_def SERVER_ID_BASE_def obj_live_def MAX_OBJECTS_def obj_record_def
      if_message_def if_request_def rust_simps)
qed

lemma demo_message:
  "pump_message demo_tables 0 True \<lparr>h_object = 1, h_opcode = 0, h_size = 12\<rparr> (demo_get_registry @ rest)
      (demo_pump fds) =
    Inr (12, (demo_pump fds)\<lparr>pu_forward := [\<lparr>fr_data = demo_get_registry, fr_off = 0, fr_fds = []\<rparr>],
      pu_state := demo_registry_conn\<rparr>)"
proof -
  obtain i os where n: "new_id_from demo_tables True 1 0 [ArgNewId 2] (objects demo_conn) = Inr (i, os)"
    using demo_new_id by auto
  define d where "d = demo_tables ! 1"
  define g where "g = i_requests d ! 0"
  have o: "obj_interface demo_tables (objects demo_conn) 1 = Some d"
    by (simp add: obj_interface_def obj_get_def demo_conn_def connection_new_def objects_new_def by_index_def
        get_at_def demo_tables_def d_def)
  have m: "if_message d True 0 = Some g"
    by (simp add: if_message_def if_request_def get_at_def demo_tables_def g_def d_def)
  have s: "m_args g = [KNewId]" "m_name g = str ''get_registry''" "i_name d = str ''wl_display''"
      "\<not> m_destructor g"
    by (simp_all add: demo_tables_def d_def g_def)
  show ?thesis
    using n by (simp add: pump_message_def demo_pump_def o m s demo_decode fd_count_def apply_policy_def
        names_def judge_request_def demo_encode demo_registry_conn_def)
qed

lemma demo_pump_run:
  "pump_loop demo_tables 0 True (demo_get_registry @ [1, 0]) (demo_pump fds) =
    (None, [1, 0], (demo_pump fds)\<lparr>pu_forward := [\<lparr>fr_data = demo_get_registry, fr_off = 0, fr_fds = []\<rparr>],
      pu_state := demo_registry_conn\<rparr>)"
proof -
  have "drop 12 (demo_get_registry @ [1, 0]) = [1, 0]" "length (demo_get_registry @ [1, 0]) = 14"
    by (simp_all add: demo_get_registry_def)
  then show ?thesis
    by (simp add: pump_loop.simps [of _ _ _ "demo_get_registry @ _"] demo_header demo_message)
      (simp add: pump_loop.simps header_decode_short HEADER_def demo_pump_def)
qed

text \<open>C26. The message stream does not depend on where it is cut: if a first piece of the bytes is worked off
  without a fault, then working off that piece together with more bytes and descriptors, at the same \<open>now\<close>, gives
  the same faults, verdicts, frames and remainder as working off what is left and the rest afterwards.  (A
  descriptor that arrives after the bytes of its message is a fault of the first piece.)\<close>

theorem pump_any_cut:
  assumes "pump_loop T now c first \<lparr>pu_fds = fds, pu_forward = [], pu_back = [], pu_state = st,
      pu_policy = pol, pu_audit = au, pu_closing = False\<rparr> = (None, left, p)"
  shows "pump_loop T now c (first @ later) \<lparr>pu_fds = fds @ more_fds, pu_forward = [], pu_back = [],
      pu_state = st, pu_policy = pol, pu_audit = au, pu_closing = False\<rparr> =
    pump_loop T now c (left @ later) (p\<lparr>pu_fds := pu_fds p @ more_fds\<rparr>)"
  using pump_loop_extend [OF assms, of later more_fds] by (simp add: add_fds_def)

theorem pump_any_cut_witness:
  "pump_loop demo_tables 0 True ((demo_get_registry @ [1, 0]) @ [0]) (demo_pump [7, 9]) =
   pump_loop demo_tables 0 True ([1, 0] @ [0]) ((demo_pump [7, 9])\<lparr>
      pu_forward := [\<lparr>fr_data = demo_get_registry, fr_off = 0, fr_fds = []\<rparr>], pu_state := demo_registry_conn\<rparr>)"
  using pump_any_cut [OF demo_pump_run [of "[7]", unfolded demo_pump_def], of "[0]" "[9]"] by (simp add: demo_pump_def)


section \<open>The queues\<close>

definition side_ok :: "Side \<Rightarrow> bool" where
  "side_ok s \<longleftrightarrow> sd_out_bytes s = frames_len (sd_out s) \<and>
     (\<forall>f \<in> set (sd_out s). fr_off f < length (fr_data f))"

definition conn_ok :: "Conn \<Rightarrow> bool" where
  "conn_ok cn \<longleftrightarrow> side_ok (cn_client cn) \<and> side_ok (cn_server cn)"

definition fresh_frame :: "Frame \<Rightarrow> bool" where
  "fresh_frame f \<longleftrightarrow> fr_off f = 0 \<and> fr_data f \<noteq> []"

lemma frames_len_simps [simp]:
  "frames_len [] = 0"
  "frames_len (f # fs) = length (fr_data f) - fr_off f + frames_len fs"
  "frames_len (fs @ gs) = frames_len fs + frames_len gs"
  by (simp_all add: frames_len_def)

lemma frames_len_fresh:
  "\<forall>f \<in> set fs. fresh_frame f \<Longrightarrow> frames_len fs = sum_list (map (\<lambda>f. length (fr_data f)) fs)"
  by (induction fs) (auto simp: fresh_frame_def)

lemma push_frames_ok: "side_ok s \<Longrightarrow> \<forall>f \<in> set fs. fresh_frame f \<Longrightarrow> side_ok (push_frames fs s)"
  by (auto simp: side_ok_def push_frames_def frames_len_fresh fresh_frame_def)

lemma side_ok_irrelevant [simp]:
  "side_ok (s\<lparr>sd_buf := b\<rparr>) = side_ok s" "side_ok (s\<lparr>sd_fds := fs\<rparr>) = side_ok s"
  "side_ok (s\<lparr>sd_eof := e\<rparr>) = side_ok s"
  by (simp_all add: side_ok_def)

lemma encode_not_Nil: "encode object opcode args = Inr data \<Longrightarrow> data \<noteq> []"
  by (auto simp: encode_def rust_simps Let_def HEADER_def header_encode_def u32_le_def split: if_splits)

lemma frame_ok_fresh: "frame_ok T c f \<Longrightarrow> fresh_frame f"
  by (auto simp: frame_ok_def fresh_frame_def dest: encode_not_Nil)

lemma pump_message_back:
  "pump_message T now c h rest p = Inr (n, p') \<Longrightarrow>
     \<exists>bs. pu_back p' = pu_back p @ bs \<and> (\<forall>f \<in> set bs. fresh_frame f)"
  by (auto simp: pump_message_def Let_def fresh_frame_def split: option.splits sum.splits if_splits
      prod.splits Verdict.splits)

lemma pump_loop_back:
  assumes "pump_loop T now c rest p = (fault, left, p')"
  shows "\<exists>bs. pu_back p' = pu_back p @ bs \<and> (\<forall>f \<in> set bs. fresh_frame f)"
  using assms
proof (induction T now c rest p rule: pump_loop.induct)
  case (1 T now c rest p)
  note step = pump_loop.simps [of T now c rest p]
  show ?case
  proof (cases "\<exists>h n p1. \<not> pu_closing p \<and> header_decode rest = Inr h \<and> \<not> length rest < unat (h_size h) \<and>
      pump_message T now c h rest p = Inr (n, p1)")
    case True
    then obtain h n p1 where h: "\<not> pu_closing p" "header_decode rest = Inr h"
        "\<not> length rest < unat (h_size h)" and m: "pump_message T now c h rest p = Inr (n, p1)" by blast
    with "1.prems" have "pump_loop T now c (drop n rest) p1 = (fault, left, p')" by (simp add: step)
    with "1.IH" [OF h m refl] pump_message_back [OF m] show ?thesis
      by (metis append.assoc set_append Un_iff)
  next
    case False
    with "1.prems" have "pu_back p' = pu_back p"
      by (auto simp: step split: if_splits sum.splits dest: pump_message_Inl)
    then show ?thesis by (intro exI [of _ "[]"]) simp
  qed
qed

lemma receive_ok: "side_ok (snd (receive r s)) = side_ok s"
  by (auto simp: receive_def Let_def split: RecvRes.splits)

lemma pump_ok:
  assumes "conn_ok cn" and "pump T now c r pol au cn = (fault, cn', pol', au')"
  shows "conn_ok cn'"
proof -
  let ?src = "if c then cn_client cn else cn_server cn"
  let ?dst = "if c then cn_server cn else cn_client cn"
  obtain e src1 where rc: "receive r ?src = (e, src1)" by (cases "receive r ?src")
  have ok: "side_ok src1" "side_ok ?dst"
    using assms(1) receive_ok [of r ?src] rc by (auto simp: conn_ok_def)
  show ?thesis
  proof (cases e)
    case (Some x)
    with assms(2) rc ok show ?thesis by (auto simp: pump_def Let_def conn_ok_def split: if_splits)
  next
    case None
    let ?p = "\<lparr>pu_fds = sd_fds src1, pu_forward = [], pu_back = [], pu_state = cn_state cn,
      pu_policy = pol, pu_audit = au, pu_closing = closing cn\<rparr>"
    obtain f left p where l: "pump_loop T now c (sd_buf src1) ?p = (f, left, p)"
      by (cases "pump_loop T now c (sd_buf src1) ?p") auto
    have "\<forall>f \<in> set (pu_forward p). fresh_frame f" "\<forall>f \<in> set (pu_back p). fresh_frame f"
      using pump_loop_frames [OF l] pump_loop_back [OF l] frame_ok_fresh by auto
    then have "side_ok (push_frames (pu_back p) (src1\<lparr>sd_fds := pu_fds p\<rparr>))"
        "side_ok (push_frames (pu_forward p) ?dst)"
      using ok by (simp_all add: push_frames_ok)
    with assms(2) rc None l show ?thesis
      by (auto simp: pump_def Let_def conn_ok_def split: if_splits option.splits)
  qed
qed

text \<open>A flush takes from the count exactly what it writes, and never more than was counted.\<close>

lemma flush_ok:
  "flush rs s = (ok, s', sent) \<Longrightarrow> side_ok s \<Longrightarrow>
     side_ok s' \<and> sd_out_bytes s = sd_out_bytes s' + sum_list (map (length \<circ> fst) sent)"
proof (induction rs arbitrary: s s' ok sent)
  case Nil
  then show ?case
    by (auto simp: flush.simps [of _ s] split: list.splits if_splits)
next
  case (Cons r rs)
  show ?case
  proof (cases "\<exists>f fs m. sd_out s = f # fs \<and> \<not> MAX_MESSAGE_FDS < length (fr_fds f) \<and> r = SendOk m \<and>
      min m (length (fr_data f) - fr_off f) \<noteq> 0")
    case False
    with Cons.prems show ?thesis
      by (auto simp: flush.simps [of _ s] Let_def split: list.splits if_splits SendRes.splits)
  next
    case True
    then obtain f fs m where f: "sd_out s = f # fs" "\<not> MAX_MESSAGE_FDS < length (fr_fds f)" "r = SendOk m"
        "min m (length (fr_data f) - fr_off f) \<noteq> 0" by blast
    let ?n = "min m (length (fr_data f) - fr_off f)"
    let ?f = "f\<lparr>fr_fds := [], fr_off := fr_off f + ?n\<rparr>"
    let ?s = "s\<lparr>sd_out_bytes := sd_out_bytes s - ?n,
      sd_out := (if fr_off ?f \<ge> length (fr_data ?f) then fs else ?f # fs)\<rparr>"
    obtain ok1 s1 sent1 where rec: "flush rs ?s = (ok1, s1, sent1)" by (cases "flush rs ?s") auto
    have res: "s' = s1" "sent = (take ?n (drop (fr_off f) (fr_data f)), fr_fds f) # sent1"
      using Cons.prems(1) f rec by (auto simp: flush.simps [of _ s] Let_def)
    have s: "side_ok ?s" "sd_out_bytes s = sd_out_bytes ?s + ?n"
      using Cons.prems(2) f(1) by (auto simp: side_ok_def)
    from Cons.IH [OF rec s(1)] s(2) res show ?thesis by simp
  qed
qed

lemma flush_both_ok: "conn_ok cn \<Longrightarrow> conn_ok (flush_both r cn)"
  by (auto simp: flush_both_def conn_ok_def Let_def split: prod.splits dest: flush_ok)

lemma service_ok:
  assumes "conn_ok cn" and "service T now r pol au cn = (fault, cn', pol', au')"
  shows "conn_ok cn'"
  using assms
  by (auto simp: service_def Let_def split: prod.splits option.splits if_splits
      intro!: flush_both_ok intro: pump_ok)

lemma service_all_ok:
  assumes "service_all T now env k cns pol au = (served, pol', au')" and "\<forall>cn \<in> set cns. conn_ok cn"
  shows "length served = length cns \<and> (\<forall>(cn, alive) \<in> set served. conn_ok cn)"
  using assms
proof (induction cns arbitrary: k pol au served)
  case Nil
  then show ?case by simp
next
  case (Cons cn cns)
  define r where "r = (env k)\<lparr>r_client_woke := r_client_woke (env k) \<and> (poll_in cn True \<or> poll_out cn True),
      r_server_woke := r_server_woke (env k) \<and> (poll_in cn False \<or> poll_out cn False)\<rparr>"
  obtain fault cn1 pol1 au1 where sv: "service T now r pol au cn = (fault, cn1, pol1, au1)"
    by (cases "service T now r pol au cn") auto
  define au2 where "au2 = (case fault of Some e \<Rightarrow> close_line (fault_fmt e) now au1 | None \<Rightarrow> au1)"
  obtain rest pol3 au3 where rec: "service_all T now env (k + 1) cns pol1 au2 = (rest, pol3, au3)"
    by (cases "service_all T now env (k + 1) cns pol1 au2") auto
  have served: "served = (cn1, fault = None \<and> \<not> finished cn1) # rest" "pol3 = pol'" "au3 = au'"
    using Cons.prems(1) sv rec by (simp_all add: r_def [symmetric] au2_def [symmetric])
  have "conn_ok cn1" using service_ok [OF _ sv] Cons.prems(2) by simp
  moreover have "length rest = length cns \<and> (\<forall>(cn, alive) \<in> set rest. conn_ok cn)"
    by (rule Cons.IH [OF rec [unfolded served(2,3)]]) (use Cons.prems(2) in simp)
  ultimately show ?case by (simp add: served(1))
qed

lemma drop_fattest_sub:
  "drop_fattest now cns au = (kept, au') \<Longrightarrow> set kept \<subseteq> set cns \<and> length kept \<le> length cns"
  by (auto simp: drop_fattest_def Let_def split: if_splits option.splits dest: in_set_takeD in_set_dropD)

definition relay_inv :: "Relay \<Rightarrow> bool" where
  "relay_inv r \<longleftrightarrow> length (re_conns r) \<le> MAX_CONNECTIONS \<and> (\<forall>cn \<in> set (re_conns r). conn_ok cn)"

lemma conn_new_ok: "conn_ok (conn_new display)"
  by (simp add: conn_ok_def conn_new_def side_ok_def side_new_def)

lemma accept_inv: "relay_inv r \<Longrightarrow> relay_inv (accept display fmt now as r)"
proof (induction display fmt now as r rule: accept.induct)
  case (1 display fmt now r)
  then show ?case by simp
next
  case (2 display fmt now a as r)
  have "relay_inv (wait_for_descriptors now r)"
    using "2.prems" by (simp add: relay_inv_def wait_for_descriptors_def Let_def)
  with 2 conn_new_ok show ?case
    by (auto simp: relay_inv_def split: sum.splits option.splits)
qed

lemma relay_step_inv:
  assumes "relay_inv r"
  shows "relay_inv (relay_step T display e r)"
proof -
  obtain served pol au where sa:
      "service_all T (se_now e) (se_rounds e) 0 (re_conns r) (re_policy r) (re_audit r) = (served, pol, au)"
    by (cases "service_all T (se_now e) (se_rounds e) 0 (re_conns r) (re_policy r) (re_audit r)") auto
  obtain kept au' where df: "drop_fattest (se_now e) (map fst (filter snd served)) au = (kept, au')"
    by (cases "drop_fattest (se_now e) (map fst (filter snd served)) au")
  have ok: "length served = length (re_conns r)" "\<forall>(cn, alive) \<in> set served. conn_ok cn"
    using service_all_ok [OF sa] assms by (auto simp: relay_inv_def)
  have sub: "set kept \<subseteq> set (map fst (filter snd served))" "length kept \<le> length (map fst (filter snd served))"
    using drop_fattest_sub [OF df] by simp_all
  have "length kept \<le> length served"
    using sub(2) order_trans [OF _ length_filter_le] by simp
  moreover have "\<forall>cn \<in> set kept. conn_ok cn"
    using sub(1) ok(2) by fastforce
  ultimately have "relay_inv (r\<lparr>re_backoff := False, re_conns := kept, re_policy := pol, re_audit := au'\<rparr>)"
    using ok(1) assms by (simp add: relay_inv_def)
  then show ?thesis by (simp add: relay_step_def sa df accept_inv Let_def)
qed

lemma step_inv: "step T display e r = Inr r' \<Longrightarrow> relay_inv r \<Longrightarrow> relay_inv r'"
  by (auto simp: step_def relay_step_inv split: option.splits if_splits)

lemma run_inv: "run T display es r = (err, r') \<Longrightarrow> relay_inv r \<Longrightarrow> relay_inv r'"
proof (induction es arbitrary: r)
  case Nil
  then show ?case by simp
next
  case (Cons e es)
  show ?case
  proof (cases "step T display e r")
    case (Inl x)
    with Cons.prems show ?thesis by (auto simp: relay_inv_def)
  next
    case (Inr r1)
    with Cons.prems Cons.IH [of r1] step_inv [OF Inr] show ?thesis by simp
  qed
qed

lemma relay_new_inv: "relay_inv (relay_new pol au)"
  by (simp add: relay_inv_def relay_new_def)

text \<open>C24. What the relay holds, after any rounds: at most \<open>MAX_CONNECTIONS\<close> connections, and on each
  side of each the count of queued bytes is exactly the bytes its frames have still to write,
  none of them already written out; so a flush writes no more than was counted, and counts off
  exactly what it writes.\<close>

theorem relay_accounts:
  assumes "run T display es (relay_new pol au) = (err, r)"
  shows "length (re_conns r) \<le> MAX_CONNECTIONS \<and>
    (\<forall>cn \<in> set (re_conns r). \<forall>s \<in> {cn_client cn, cn_server cn}.
       sd_out_bytes s = frames_len (sd_out s) \<and>
       (\<forall>f \<in> set (sd_out s). fr_off f < length (fr_data f)) \<and>
       (\<forall>rs ok s' sent. flush rs s = (ok, s', sent) \<longrightarrow>
          sd_out_bytes s = sd_out_bytes s' + sum_list (map (length \<circ> fst) sent)))"
proof -
  have inv: "relay_inv r" by (rule run_inv [OF assms relay_new_inv])
  have "side_ok s" if "cn \<in> set (re_conns r)" "s \<in> {cn_client cn, cn_server cn}" for cn s
    using inv that by (auto simp: relay_inv_def conn_ok_def)
  then have "sd_out_bytes s = frames_len (sd_out s) \<and> (\<forall>f \<in> set (sd_out s). fr_off f < length (fr_data f)) \<and>
       (\<forall>rs ok s' sent. flush rs s = (ok, s', sent) \<longrightarrow>
          sd_out_bytes s = sd_out_bytes s' + sum_list (map (length \<circ> fst) sent))"
      if "cn \<in> set (re_conns r)" "s \<in> {cn_client cn, cn_server cn}" for cn s
    using that side_ok_def [of s] flush_ok [of _ s] by metis
  moreover have "length (re_conns r) \<le> MAX_CONNECTIONS" using inv by (simp add: relay_inv_def)
  ultimately show ?thesis by blast
qed

definition demo_step :: StepEnv where
  "demo_step = \<lparr>se_poll = None, se_text = (\<lambda>_. []), se_now = 1, se_rounds = (\<lambda>_.
     \<lparr>r_client_woke = False, r_server_woke = False,
      r_client_recv = RecvWait, r_server_recv = RecvWait, r_client_send = [], r_server_send = []\<rparr>),
     se_waiting = True,
     se_accepts = [Inr \<lparr>d_socket = None, d_address = None, d_connect = Some INPROGRESS\<rparr>, Inl AGAIN]\<rparr>"

lemma demo_relay_run:
  "run demo_tables 1 [demo_step] (relay_new (policy_new Paste False) audit_new) =
     (None, (relay_new (policy_new Paste False) audit_new)\<lparr>re_conns := [conn_new 1]\<rparr>)"
  by (simp add: step_def relay_step_def relay_new_def demo_step_def drop_fattest_def MAX_CONNECTIONS_def
      MAX_TOTAL_QUEUE_def dial_def)

theorem relay_accounts_witness:
  "length [conn_new 1] \<le> MAX_CONNECTIONS \<and>
   sd_out_bytes (cn_client (conn_new 1)) = frames_len (sd_out (cn_client (conn_new 1))) \<and>
   sd_out_bytes (cn_server (conn_new 1)) = frames_len (sd_out (cn_server (conn_new 1)))"
  using relay_accounts [OF demo_relay_run] by simp

text \<open>C25. What the far side gets: of a batch of messages, every frame queued for it is one whole
  message that its signature in the tables decodes again, addressed as it was, with exactly
  as many descriptors as the signature names; the descriptors of the forwarded messages are
  claimed from the source's in the order they arrived, those of dropped messages between
  them closed.\<close>

theorem forwarded_whole:
  assumes "pump_loop T now c rest p = (fault, left, p')" and "pu_forward p = []"
  shows "(\<forall>f \<in> set (pu_forward p'). \<exists>k iface object opcode msg args.
      by_index T k = Some iface \<and> if_message iface c opcode = Some msg \<and>
      encode object opcode args = Inr (fr_data f) \<and>
      (\<forall>following. decode (fr_data f @ following) (m_args msg) = Inr (args, length (fr_data f))) \<and>
      length (fr_fds f) = fd_count (m_args msg)) \<and>
    (\<exists>taken. pu_fds p = taken @ pu_fds p' \<and> subseq (concat (map fr_fds (pu_forward p'))) taken)"
proof -
  obtain fs taken where fs: "pu_forward p' = fs" "\<forall>f \<in> set fs. frame_ok T c f"
      "pu_fds p = taken @ pu_fds p'" "subseq (concat (map fr_fds fs)) taken"
    using pump_loop_frames [OF assms(1)] assms(2) by auto
  have "\<exists>k iface object opcode msg args.
      by_index T k = Some iface \<and> if_message iface c opcode = Some msg \<and>
      encode object opcode args = Inr (fr_data f) \<and>
      (\<forall>following. decode (fr_data f @ following) (m_args msg) = Inr (args, length (fr_data f))) \<and>
      length (fr_fds f) = fd_count (m_args msg)" if "f \<in> set fs" for f
  proof -
    from fs(2) that obtain k iface object opcode msg args where
        f: "by_index T k = Some iface" "if_message iface c opcode = Some msg"
        "encode object opcode args = Inr (fr_data f)" "map arg_kind args = m_args msg"
        "\<forall>a \<in> set args. arg_ok a" "length (fr_fds f) = fd_count (m_args msg)"
      unfolding frame_ok_def by blast
    have "decode (fr_data f @ following) (m_args msg) = Inr (args, length (fr_data f))" for following
      using decode_encoded [OF f(3,5)] f(4) by simp
    with f show ?thesis by blast
  qed
  with fs show ?thesis by blast
qed

theorem forwarded_whole_witness:
  "\<exists>k iface object opcode msg args.
     by_index demo_tables k = Some iface \<and> if_message iface True opcode = Some msg \<and>
     encode object opcode args = Inr demo_get_registry \<and>
     (\<forall>following. decode (demo_get_registry @ following) (m_args msg) = Inr (args, length demo_get_registry))"
  using forwarded_whole [OF demo_pump_run [of "[7]"]] by (simp add: demo_pump_def) blast

end
