(* ===== verification/Wl_Main.thy ===== *)
theory Wl_Main
  imports Wl_Relay
begin

text \<open>
  The Wayland proxy's process (\<^verbatim>\<open>crates/bubbler-wl-proxy/src/main.rs\<close>): its command line, the one
  connection it makes to the compositor before it says it is up, and its exit codes.  The
  kernel's answers are parameters.  Shown: an accepted command line names no descriptor
  twice, so none is adopted and closed twice; the probe gives up within its bound however
  often the compositor's queue is full; and the readiness byte is written only after the
  listener was adopted and the compositor reached.
\<close>

definition PROBE :: duration where
  "PROBE = 2 * 10 ^ 9"

definition RETRY :: duration where
  "RETRY = 50 * 10 ^ 6"

record WlArgs =
  wa_listen_fd :: int
  wa_upstream :: bytes
  wa_gate :: Gate
  wa_fallback_deny :: bool
  wa_log_fd :: "int option"
  wa_ready_fd :: "int option"

definition wl_number :: "bytes \<Rightarrow> int option" where
  "wl_number w = Option.bind (to_str w) (\<lambda>s.
     case parse_signed 32 s of Some fd \<Rightarrow> if fd \<ge> 0 then Some fd else None | None \<Rightarrow> None)"

text \<open>The locals of \<open>parse_from\<close>.\<close>

record WlParse =
  wp_listen_fd :: "int option"
  wp_upstream :: "bytes option"
  wp_gate :: "Gate option"
  wp_fallback_deny :: bool
  wp_log_fd :: "int option"
  wp_ready_fd :: "int option"

definition gate_word :: "bytes \<Rightarrow> Gate option" where
  "gate_word w = Option.bind (to_str w) (\<lambda>s.
     if s = str ''paste'' then Some Paste else if s = str ''open'' then Some Open else None)"

fun wl_words :: "bytes list \<Rightarrow> WlParse \<Rightarrow> WlParse option" where
  "wl_words [] p = Some p"
| "wl_words (a # ws) p =
     (if a = str ''--fallback-deny'' \<and> \<not> wp_fallback_deny p then wl_words ws (p\<lparr>wp_fallback_deny := True\<rparr>)
      else
        (case ws of
           [] \<Rightarrow> None
         | v # ws' \<Rightarrow>
             if a = str ''--listen-fd'' \<and> wp_listen_fd p = None
             then Option.bind (wl_number v) (\<lambda>n. wl_words ws' (p\<lparr>wp_listen_fd := Some n\<rparr>))
             else if a = str ''--upstream'' \<and> wp_upstream p = None
             then wl_words ws' (p\<lparr>wp_upstream := Some v\<rparr>)
             else if a = str ''--gate'' \<and> wp_gate p = None
             then Option.bind (gate_word v) (\<lambda>g. wl_words ws' (p\<lparr>wp_gate := Some g\<rparr>))
             else if a = str ''--log-fd'' \<and> wp_log_fd p = None
             then Option.bind (wl_number v) (\<lambda>n. wl_words ws' (p\<lparr>wp_log_fd := Some n\<rparr>))
             else if a = str ''--ready-fd'' \<and> wp_ready_fd p = None
             then Option.bind (wl_number v) (\<lambda>n. wl_words ws' (p\<lparr>wp_ready_fd := Some n\<rparr>))
             else None))"

definition named_fds :: "WlArgs \<Rightarrow> int list" where
  "named_fds a = wa_listen_fd a #
     (case wa_log_fd a of Some n \<Rightarrow> [n] | None \<Rightarrow> []) @ (case wa_ready_fd a of Some n \<Rightarrow> [n] | None \<Rightarrow> [])"

fun repeats :: "int list \<Rightarrow> bool" where
  "repeats [] = False"
| "repeats (x # xs) = (x \<in> set xs \<or> repeats xs)"

definition wl_parse_from :: "bytes list \<Rightarrow> WlArgs option" where
  "wl_parse_from words =
     Option.bind (wl_words words \<lparr>wp_listen_fd = None, wp_upstream = None, wp_gate = None,
       wp_fallback_deny = False, wp_log_fd = None, wp_ready_fd = None\<rparr>) (\<lambda>p.
     Option.bind (wp_listen_fd p) (\<lambda>l. Option.bind (wp_upstream p) (\<lambda>u. Option.bind (wp_gate p) (\<lambda>g.
       let a = \<lparr>wa_listen_fd = l, wa_upstream = u, wa_gate = g, wa_fallback_deny = wp_fallback_deny p,
                wa_log_fd = wp_log_fd p, wa_ready_fd = wp_ready_fd p\<rparr>
       in if repeats (named_fds a) then None else Some a))))"

text \<open>One try of the probe: \<open>socket\<close>'s failure, what \<open>connect\<close> answered, what the wait for an
  unfinished connection gave (nothing in time, or the socket's own error), and the clock at
  the check that follows.  A script that ends is a probe still waiting.\<close>

record Try =
  ty_socket :: "Errno option"
  ty_connect :: "Errno option"
  ty_poll :: "Errno + bool"
  ty_error :: "Errno option"
  ty_now :: instant

datatype ProbeEnd = Reached | TimedOutProbe | ProbeErr Errno

definition finish :: "Try \<Rightarrow> ProbeEnd" where
  "finish t =
     (case ty_poll t of
        Inl e \<Rightarrow> ProbeErr e
      | Inr answered \<Rightarrow>
          if \<not> answered then TimedOutProbe
          else (case ty_error t of None \<Rightarrow> Reached | Some e \<Rightarrow> ProbeErr e))"

fun probe_loop :: "instant \<Rightarrow> Try list \<Rightarrow> ProbeEnd option" where
  "probe_loop deadline [] = None"
| "probe_loop deadline (t # ts) =
     (case ty_socket t of
        Some e \<Rightarrow> Some (ProbeErr e)
      | None \<Rightarrow>
          (case ty_connect t of
             None \<Rightarrow> Some Reached
           | Some e \<Rightarrow>
               if e = INPROGRESS then Some (finish t)
               else if e = AGAIN then
                 if ty_now t + RETRY \<ge> deadline then Some TimedOutProbe else probe_loop deadline ts
               else Some (ProbeErr e)))"

definition probe :: "Errno option \<Rightarrow> instant \<Rightarrow> Try list \<Rightarrow> ProbeEnd option" where
  "probe bad_address now ts =
     (case bad_address of Some e \<Rightarrow> Some (ProbeErr e) | None \<Rightarrow> probe_loop (now + PROBE) ts)"

text \<open>\<open>adopt\<close> and \<open>prepare\<close>: the descriptors the process may take, whether the listener is one, and
  the readiness byte.\<close>

record PrepareEnv =
  pr_adopt :: "int \<Rightarrow> bool"
  pr_acceptconn :: "bool option"
  pr_nonblock :: bool
  pr_address :: "Errno option"
  pr_now :: instant
  pr_tries :: "Try list"
  pr_write :: bool

datatype Prepared = Failed | Waiting | Serving "int list" bool

definition prepare :: "PrepareEnv \<Rightarrow> WlArgs \<Rightarrow> Prepared" where
  "prepare e a =
     (if \<not> pr_adopt e (wa_listen_fd a) then Failed
      else if pr_acceptconn e \<noteq> Some True then Failed
      else if \<not> pr_nonblock e then Failed
      else
        (case probe (pr_address e) (pr_now e) (pr_tries e) of
           None \<Rightarrow> Waiting
         | Some Reached \<Rightarrow>
             (case wa_ready_fd a of
                None \<Rightarrow> Serving [wa_listen_fd a] False
              | Some fd \<Rightarrow>
                  if pr_adopt e fd \<and> pr_write e then Serving [wa_listen_fd a, fd] True else Failed)
         | Some _ \<Rightarrow> Failed))"

datatype WlStart = WlExit nat | WlWaiting | WlServe WlArgs "int list" bool

definition wl_main :: "PrepareEnv \<Rightarrow> bytes list \<Rightarrow> WlStart" where
  "wl_main e words =
     (case wl_parse_from words of
        None \<Rightarrow> WlExit 2
      | Some a \<Rightarrow>
          if (case wa_log_fd a of Some fd \<Rightarrow> \<not> pr_adopt e fd | None \<Rightarrow> False) then WlExit 1
          else
            (case prepare e a of
               Failed \<Rightarrow> WlExit 1
             | Waiting \<Rightarrow> WlWaiting
             | Serving fds ready \<Rightarrow>
                 WlServe a ((case wa_log_fd a of Some fd \<Rightarrow> [fd] | None \<Rightarrow> []) @ fds) ready))"

text \<open>No descriptor is taken over twice.\<close>

lemma repeats_distinct: "repeats xs \<longleftrightarrow> \<not> distinct xs"
  by (induction xs) auto

lemma wl_adopts_once: "wl_main e words = WlServe a fds ready \<Longrightarrow> distinct fds \<and> wa_listen_fd a \<in> set fds"
  by (auto simp: wl_main_def wl_parse_from_def prepare_def repeats_distinct named_fds_def Let_def
      bind_eq_Some_conv split: option.splits if_splits Prepared.splits ProbeEnd.splits)

text \<open>The probe ends: a clock that is past the bound at the check of some try has ended it by
  then.\<close>

lemma probe_ends:
  assumes "\<exists>t \<in> set ts. now + PROBE \<le> ty_now t + RETRY"
  shows "probe bad now ts \<noteq> None"
proof -
  have "probe_loop d ts \<noteq> None" if "\<exists>t \<in> set ts. d \<le> ty_now t + RETRY" for d
    using that by (induction ts) (auto split: option.splits)
  with assms show ?thesis by (auto simp: probe_def split: option.splits)
qed

text \<open>The launcher is told the socket answers only when it does.\<close>

lemma ready_means_reached:
  "wl_main e words = WlServe a fds ready \<Longrightarrow> probe (pr_address e) (pr_now e) (pr_tries e) = Some Reached"
  by (auto simp: wl_main_def prepare_def split: option.splits if_splits Prepared.splits ProbeEnd.splits)

end
