(* ===== verification/Dbus_Sig.thy ===== *)
theory Dbus_Sig
  imports Bub_Codec
begin

text \<open>
  D-Bus type signatures (\<^verbatim>\<open>crates/bubbler-core/src/dbus_wire.rs\<close>): the types, the parser with its two
  nesting limits, the error type of the module and the rule for object paths.  The parser's
  cursor into the bytes is the suffix still to be read; its calls are nested, so that it ends is
  shown from the fact that every type takes at least its own code.  Shown: the parser accepts
  exactly the printed forms of well-formed types, each in one way.
\<close>

section \<open>Types\<close>

datatype Type =
    TByte | TBool | TInt16 | TUint16 | TInt32 | TUint32 | TInt64 | TUint64 | TDouble
  | TStr | TObjectPath | TSignature | TFd
  | TArray Type | TStruct "Type list" | TDictEntry Type Type | TVariant

fun alignment :: "Type \<Rightarrow> nat" where
  "alignment TByte = 1" | "alignment TSignature = 1" | "alignment TVariant = 1"
| "alignment TInt16 = 2" | "alignment TUint16 = 2"
| "alignment TBool = 4" | "alignment TInt32 = 4" | "alignment TUint32 = 4" | "alignment TFd = 4"
| "alignment TStr = 4" | "alignment TObjectPath = 4" | "alignment (TArray _) = 4"
| "alignment TInt64 = 8" | "alignment TUint64 = 8" | "alignment TDouble = 8"
| "alignment (TStruct _) = 8" | "alignment (TDictEntry _ _) = 8"

fun type_code :: "Type \<Rightarrow> byte" where
  "type_code TByte = of_char CHR ''y''"
| "type_code TBool = of_char CHR ''b''"
| "type_code TInt16 = of_char CHR ''n''"
| "type_code TUint16 = of_char CHR ''q''"
| "type_code TInt32 = of_char CHR ''i''"
| "type_code TUint32 = of_char CHR ''u''"
| "type_code TInt64 = of_char CHR ''x''"
| "type_code TUint64 = of_char CHR ''t''"
| "type_code TDouble = of_char CHR ''d''"
| "type_code TStr = of_char CHR ''s''"
| "type_code TObjectPath = of_char CHR ''o''"
| "type_code TSignature = of_char CHR ''g''"
| "type_code TFd = of_char CHR ''h''"
| "type_code (TArray _) = of_char CHR ''a''"
| "type_code (TStruct _) = of_char CHR ''(''"
| "type_code (TDictEntry _ _) = of_char CHR ''{''"
| "type_code TVariant = of_char CHR ''v''"

fun is_basic :: "Type \<Rightarrow> bool" where
  "is_basic (TArray _) = False"
| "is_basic (TStruct _) = False"
| "is_basic (TDictEntry _ _) = False"
| "is_basic TVariant = False"
| "is_basic _ = True"

section \<open>Signatures\<close>

datatype WireError =
    Connect nat | Io nat | Closed | Timeout | Auth bytes | AuthRejected bytes | NoFdPassing
  | TooManyFds nat | Remote bytes bytes | BadSignature bytes | Arity nat nat
  | TypeMismatch byte bytes | Unsupported bytes | Truncated | Padding | Trailing nat
  | ArrayTooLong nat | MessageTooLong nat | TooManyValues | BadString | BadObjectPath bytes
  | BadBool u32 | Depth | Endianness byte | BadMessage bytes | FdIndex u32 | NoDestination

definition MAX_SIGNATURE :: nat where
  "MAX_SIGNATURE = 255"

definition MAX_CONTAINER_DEPTH :: nat where
  "MAX_CONTAINER_DEPTH = 32"

definition basic_code :: "byte \<Rightarrow> Type option" where
  "basic_code c = List.find (\<lambda>t. type_code t = c)
     [TByte, TBool, TInt16, TUint16, TInt32, TUint32, TInt64, TUint64, TDouble,
      TStr, TObjectPath, TSignature, TFd, TVariant]"

function (sequential) parse_type :: "nat \<Rightarrow> nat \<Rightarrow> bytes \<Rightarrow> (Type \<times> bytes) option"
  and parse_fields :: "nat \<Rightarrow> nat \<Rightarrow> bytes \<Rightarrow> (Type list \<times> bytes) option" where
  "parse_type arrays structs [] = None"
| "parse_type arrays structs (c # rest) =
     (if c = of_char CHR ''a'' then
        if arrays \<ge> MAX_CONTAINER_DEPTH then None
        else if get_at rest 0 = Some (of_char CHR ''{'') then
          if structs \<ge> MAX_CONTAINER_DEPTH then None
          else
            (case parse_type (arrays + 1) (structs + 1) (tl rest) of
               None \<Rightarrow> None
             | Some (key, rest1) \<Rightarrow>
                 if \<not> is_basic key then None
                 else
                   (case parse_type (arrays + 1) (structs + 1) rest1 of
                      None \<Rightarrow> None
                    | Some (entry, rest2) \<Rightarrow>
                        if get_at rest2 0 \<noteq> Some (of_char CHR ''}'') then None
                        else Some (TArray (TDictEntry key entry), tl rest2)))
        else
          (case parse_type (arrays + 1) structs rest of
             None \<Rightarrow> None
           | Some (t, rest1) \<Rightarrow> Some (TArray t, rest1))
      else if c = of_char CHR ''('' then
        if structs \<ge> MAX_CONTAINER_DEPTH then None
        else
          (case parse_fields arrays (structs + 1) rest of
             None \<Rightarrow> None
           | Some (fields, rest1) \<Rightarrow> if fields = [] then None else Some (TStruct fields, rest1))
      else map_option (\<lambda>t. (t, rest)) (basic_code c))"
| "parse_fields arrays structs [] = None"
| "parse_fields arrays structs (c # rest) =
     (if c = of_char CHR '')'' then Some ([], rest)
      else
        (case parse_type arrays structs (c # rest) of
           None \<Rightarrow> None
         | Some (t, rest1) \<Rightarrow>
             (case parse_fields arrays structs rest1 of
                None \<Rightarrow> None
              | Some (ts, rest2) \<Rightarrow> Some (t # ts, rest2))))"
  by pat_completeness auto

lemma parse_shrinks:
  "parse_type_parse_fields_dom (Inl (a, s, bs)) \<Longrightarrow> parse_type a s bs = Some (t, r) \<Longrightarrow> length r < length bs"
  "parse_type_parse_fields_dom (Inr (a, s, bs)) \<Longrightarrow> parse_fields a s bs = Some (ts, r) \<Longrightarrow> length r < length bs"
proof (induction a s bs and a s bs arbitrary: t r and ts r rule: parse_type_parse_fields.pinduct)
  case (1 arrays structs)
  then show ?case by (simp add: parse_type.psimps)
next
  case (2 arrays structs c rest)
  show ?case
  proof (cases "c = of_char CHR ''a'' \<and> get_at rest 0 = Some (of_char CHR ''{'')")
    case True
    with 2(6) 2(1) obtain key rest1 entry rest2 where
      p: "parse_type (arrays + 1) (structs + 1) (tl rest) = Some (key, rest1)"
         "parse_type (arrays + 1) (structs + 1) rest1 = Some (entry, rest2)"
         "is_basic key" "\<not> MAX_CONTAINER_DEPTH \<le> arrays" "\<not> MAX_CONTAINER_DEPTH \<le> structs" "r = tl rest2"
      by (auto simp: parse_type.psimps split: if_splits option.splits)
    have "length rest1 < length (tl rest)" using 2(2) True p by auto
    moreover have "length rest2 < length rest1" using 2(3) True p by auto
    ultimately show ?thesis using p(6) by simp
  next
    case False
    with 2(6) 2(1) 2(4,5) show ?thesis
      by (fastforce simp: parse_type.psimps less_SucI split: if_splits option.splits)
  qed
next
  case (3 arrays structs)
  then show ?case by (simp add: parse_fields.psimps)
next
  case (4 arrays structs c rest)
  from 4(4) 4(1) 4(2,3) show ?case
    by (fastforce simp: parse_fields.psimps split: if_splits option.splits)
qed

termination parse_type
proof (relation "measure (\<lambda>x. case x of Inl (a, s, bs) \<Rightarrow> 2 * length bs | Inr (a, s, bs) \<Rightarrow> 2 * length bs + 1)",
    goal_cases)
  case (3 arrays structs c rest x key rest1)
  then have "length rest1 < length (tl rest)" by (intro parse_shrinks(1)) auto
  then show ?case by simp
next
  case (7 arrays structs c rest x t rest1)
  then have "length rest1 < length (c # rest)" by (intro parse_shrinks(1)) auto
  then show ?case by simp
qed auto


section \<open>The valid signatures\<close>

fun sig_of :: "Type \<Rightarrow> bytes" where
  "sig_of (TArray t) = of_char CHR ''a'' # sig_of t"
| "sig_of (TStruct ts) = of_char CHR ''('' # concat (map sig_of ts) @ [of_char CHR '')'']"
| "sig_of (TDictEntry k v) = of_char CHR ''{'' # sig_of k @ sig_of v @ [of_char CHR ''}'']"
| "sig_of t = [type_code t]"

fun wf_type :: "nat \<Rightarrow> nat \<Rightarrow> Type \<Rightarrow> bool" where
  "wf_type a s (TArray (TDictEntry k v)) \<longleftrightarrow>
     a < MAX_CONTAINER_DEPTH \<and> s < MAX_CONTAINER_DEPTH \<and> is_basic k \<and> wf_type (a + 1) (s + 1) v"
| "wf_type a s (TArray t) \<longleftrightarrow> a < MAX_CONTAINER_DEPTH \<and> wf_type (a + 1) s t"
| "wf_type a s (TStruct ts) \<longleftrightarrow> s < MAX_CONTAINER_DEPTH \<and> ts \<noteq> [] \<and> list_all (wf_type a (s + 1)) ts"
| "wf_type a s (TDictEntry k v) \<longleftrightarrow> False"
| "wf_type a s t \<longleftrightarrow> True"

lemma basic_code_Some:
  "basic_code c = Some t \<Longrightarrow> sig_of t = [c] \<and> (is_basic t \<or> t = TVariant) \<and> wf_type a s t"
  by (auto simp: basic_code_def split: if_splits)

lemma get_at_0 [simp]: "get_at xs 0 = Some x \<longleftrightarrow> (\<exists>r. xs = x # r)"
  by (cases xs) (auto simp: get_at_def)

lemma sig_of_not_Nil: "sig_of t \<noteq> []"
  by (cases t) auto

lemma wf_TArray: "\<forall>k v. t \<noteq> TDictEntry k v \<Longrightarrow> wf_type a s (TArray t) \<longleftrightarrow> a < MAX_CONTAINER_DEPTH \<and> wf_type (a + 1) s t"
  by (cases t) auto

lemma wf_not_entry: "wf_type a s t \<Longrightarrow> \<forall>k v. t \<noteq> TDictEntry k v"
  by auto

lemma parse_sound:
  "parse_type a s bs = Some (t, r) \<Longrightarrow> bs = sig_of t @ r \<and> wf_type a s t"
  "parse_fields a s bs = Some (ts, r) \<Longrightarrow>
     bs = concat (map sig_of ts) @ of_char CHR '')'' # r \<and> list_all (wf_type a s) ts"
proof (induction a s bs and a s bs arbitrary: t r and ts r rule: parse_type_parse_fields.induct)
  case (1 arrays structs)
  then show ?case by simp
next
  case (2 arrays structs c rest)
  consider (entry) "c = of_char CHR ''a''" "get_at rest 0 = Some (of_char CHR ''{'')"
    | (array) "c = of_char CHR ''a''" "get_at rest 0 \<noteq> Some (of_char CHR ''{'')"
    | (struct) "c = of_char CHR ''(''"
    | (basic) "c \<noteq> of_char CHR ''a''" "c \<noteq> of_char CHR ''(''"
    by blast
  then show ?case
  proof cases
    case entry
    with "2.prems" obtain key rest1 v rest2 where
      p: "parse_type (arrays + 1) (structs + 1) (tl rest) = Some (key, rest1)"
         "parse_type (arrays + 1) (structs + 1) rest1 = Some (v, rest2)"
         "is_basic key" "\<not> MAX_CONTAINER_DEPTH \<le> arrays" "\<not> MAX_CONTAINER_DEPTH \<le> structs"
         "rest2 = of_char CHR ''}'' # r" "t = TArray (TDictEntry key v)"
      by (auto split: if_splits option.splits)
    have "tl rest = sig_of key @ rest1" using "2.IH"(1) entry p by simp
    moreover have "rest1 = sig_of v @ rest2 \<and> wf_type (arrays + 1) (structs + 1) v" using "2.IH"(2) entry p by auto
    ultimately show ?thesis using entry p by auto
  next
    case array
    with "2.prems" obtain u where u: "parse_type (arrays + 1) structs rest = Some (u, r)"
        "\<not> MAX_CONTAINER_DEPTH \<le> arrays" "t = TArray u"
      by (auto split: if_splits option.splits)
    have "rest = sig_of u @ r \<and> wf_type (arrays + 1) structs u" using "2.IH"(3) array u by auto
    with array u wf_TArray [OF wf_not_entry, of _ _ u] show ?thesis by auto
  next
    case struct
    with "2.prems" obtain us where us: "parse_fields arrays (structs + 1) rest = Some (us, r)"
        "\<not> MAX_CONTAINER_DEPTH \<le> structs" "t = TStruct us" "us \<noteq> []"
      by (auto split: if_splits option.splits)
    have "rest = concat (map sig_of us) @ of_char CHR '')'' # r \<and> list_all (wf_type arrays (structs + 1)) us"
      using "2.IH"(4) struct us by auto
    with struct us show ?thesis by auto
  next
    case basic
    with "2.prems" show ?thesis by (auto dest: basic_code_Some)
  qed
next
  case (3 arrays structs)
  then show ?case by simp
next
  case (4 arrays structs c rest)
  show ?case
  proof (cases "c = of_char CHR '')''")
    case True
    with "4.prems" show ?thesis by auto
  next
    case False
    with "4.prems" obtain u rest1 us where us: "parse_type arrays structs (c # rest) = Some (u, rest1)"
        "parse_fields arrays structs rest1 = Some (us, r)" "ts = u # us"
      by (auto split: option.splits simp del: parse_type.simps)
    from "4.IH"(1) [OF False us(1)] "4.IH"(2) [OF False us(1) _ us(2)] us(3) show ?thesis by simp
  qed
qed

lemma parse_fields_step:
  assumes "parse_type a s (x @ r) = Some (t, r)" and "x = sig_of t" and "wf_type a s t"
  shows "parse_fields a s (x @ r) = (case parse_fields a s r of None \<Rightarrow> None | Some (ts, r2) \<Rightarrow> Some (t # ts, r2))"
proof -
  obtain c cs where x: "x = c # cs" using assms(2) sig_of_not_Nil by (metis neq_Nil_conv)
  have "c \<noteq> of_char CHR '')''" using assms(2,3) x by (cases t) auto
  with x assms(1) show ?thesis by (simp del: parse_type.simps)
qed

lemma parse_basic:
  "is_basic t \<or> t = TVariant \<Longrightarrow> parse_type a s (sig_of t @ r) = Some (t, r)"
  by (cases t) (auto simp: basic_code_def)

lemma parse_complete: "wf_type a s t \<Longrightarrow> parse_type a s (sig_of t @ r) = Some (t, r)"
proof (induction a s t arbitrary: r rule: wf_type.induct)
  case (1 a s k v)
  have k: "parse_type (a + 1) (s + 1) (sig_of k @ sig_of v @ of_char CHR ''}'' # r) =
      Some (k, sig_of v @ of_char CHR ''}'' # r)" using 1 by (intro parse_basic) simp
  from 1 k show ?case by simp
next
  case (3 a s ts)
  have "list_all (wf_type a (s + 1)) us \<Longrightarrow> set us \<subseteq> set ts \<Longrightarrow>
      parse_fields a (s + 1) (concat (map sig_of us) @ of_char CHR '')'' # r) = Some (us, r)" for us
  proof (induction us)
    case Nil
    then show ?case by simp
  next
    case (Cons u us)
    have u: "parse_type a (s + 1) (sig_of u @ concat (map sig_of us) @ of_char CHR '')'' # r) =
        Some (u, concat (map sig_of us) @ of_char CHR '')'' # r)"
      using "3.IH" [of u] Cons.prems "3.prems" by (auto simp: list_all_iff)
    from parse_fields_step [OF u refl] Cons show ?case by simp
  qed
  from this [of ts] 3 show ?case by simp
qed (auto simp: parse_basic basic_code_def)

function parse_all :: "bytes \<Rightarrow> Type list option" where
  "parse_all bs =
     (if bs = [] then Some []
      else
        (case parse_type 0 0 bs of
           None \<Rightarrow> None
         | Some (t, rest) \<Rightarrow> map_option (Cons t) (parse_all rest)))"
  by pat_completeness auto
termination
  by (relation "measure length") (auto dest!: parse_sound(1) simp: sig_of_not_Nil)

declare parse_all.simps [simp del]

definition parse_signature :: "bytes \<Rightarrow> WireError + Type list" where
  "parse_signature sig =
     (if length sig > MAX_SIGNATURE then Inl (BadSignature sig)
      else ok_or (BadSignature sig) (parse_all sig))"

section \<open>Object paths\<close>

definition path_byte :: "byte \<Rightarrow> bool" where
  "path_byte b \<longleftrightarrow> is_ascii_alphanumeric b \<or> b = of_char CHR ''_''"

definition valid_object_path :: "bytes \<Rightarrow> bool" where
  "valid_object_path path \<longleftrightarrow>
     (path = str ''/'' \<or>
      (case path of
         [] \<Rightarrow> False
       | c # rest \<Rightarrow>
           c = of_char CHR ''/'' \<and> rest \<noteq> [] \<and>
           list_all (\<lambda>element. element \<noteq> [] \<and> list_all path_byte element)
             (split_on (of_char CHR ''/'') rest)))"

lemma parse_all_iff: "parse_all bs = Some ts \<longleftrightarrow> list_all (wf_type 0 0) ts \<and> bs = concat (map sig_of ts)"
proof
  show "parse_all bs = Some ts \<Longrightarrow> list_all (wf_type 0 0) ts \<and> bs = concat (map sig_of ts)"
  proof (induction bs arbitrary: ts rule: parse_all.induct)
    case (1 bs)
    show ?case
    proof (cases "bs = []")
      case True
      with "1.prems" show ?thesis by (simp add: parse_all.simps)
    next
      case False
      with "1.prems" obtain t rest us where us: "parse_type 0 0 bs = Some (t, rest)" "parse_all rest = Some us" "ts = t # us"
        by (subst (asm) parse_all.simps) (auto split: option.splits)
      from "1.IH" [OF False us(1) _ us(2)] parse_sound(1) [OF us(1)] us(3) show ?thesis by simp
    qed
  qed
next
  have "list_all (wf_type 0 0) ts \<Longrightarrow> parse_all (concat (map sig_of ts)) = Some ts"
  proof (induction ts)
    case Nil
    then show ?case by (simp add: parse_all.simps)
  next
    case (Cons t ts)
    have "sig_of t @ concat (map sig_of ts) \<noteq> []" by (simp add: sig_of_not_Nil)
    with Cons parse_complete [of 0 0 t "concat (map sig_of ts)"] show ?case by (simp add: parse_all.simps)
  qed
  then show "list_all (wf_type 0 0) ts \<and> bs = concat (map sig_of ts) \<Longrightarrow> parse_all bs = Some ts" by blast
qed

lemma parse_signature_Inr:
  "parse_signature sig = Inr ts \<longleftrightarrow> length sig \<le> MAX_SIGNATURE \<and> parse_all sig = Some ts"
  by (auto simp: parse_signature_def rust_simps)

interpretation signature: exact_codec "\<lambda>ts. concat (map sig_of ts)" parse_signature
    "\<lambda>ts. list_all (wf_type 0 0) ts \<and> length (concat (map sig_of ts)) \<le> MAX_SIGNATURE"
  by unfold_locales (auto simp: parse_signature_Inr parse_all_iff simp del: length_concat)

text \<open>C35. The signature parser accepts exactly the valid signatures and reads each in one way: at most 255
  bytes that print a list of types in which arrays and structs nest at most 32 deep each, no
  struct is empty, and dict entries stand only in arrays with a basic key; anything else is
  refused under its own text.\<close>

theorem signature_exact:
  "(parse_signature sig = Inr ts \<longleftrightarrow>
      (list_all (wf_type 0 0) ts \<and> length (concat (map sig_of ts)) \<le> MAX_SIGNATURE) \<and> sig = concat (map sig_of ts)) \<and>
   (parse_signature sig = Inl e \<longleftrightarrow>
      e = BadSignature sig \<and> \<not> (\<exists>us. (list_all (wf_type 0 0) us \<and> length (concat (map sig_of us)) \<le> MAX_SIGNATURE) \<and>
         sig = concat (map sig_of us)))"
proof -
  have "parse_signature sig = Inl e \<Longrightarrow> e = BadSignature sig" for e
    by (auto simp: parse_signature_def rust_simps split: if_splits)
  moreover have "(\<exists>e. parse_signature sig = Inl e) \<longleftrightarrow> \<not> (\<exists>us. parse_signature sig = Inr us)"
    by (cases "parse_signature sig") auto
  ultimately show ?thesis using signature.dec_iff [of sig] by (metis (no_types))
qed

end
