(* ===== verification/Dbus_Wire.thy ===== *)
theory Dbus_Wire
  imports Dbus_Sig Bub_Utf8
begin

text \<open>
  The marshalling of \<^verbatim>\<open>dbus_wire.rs\<close>: values, \<open>encode\<close> against a signature, and the strict
  \<open>decode\<close> of a block.
\<close>

section \<open>Values\<close>

text \<open>Signed integers and doubles are kept as their bits, which is all the codec looks at; text is
  its UTF-8 bytes.\<close>

datatype Value =
    VByte byte | VBool bool | VInt16 u16 | VUint16 u16 | VInt32 u32 | VUint32 u32
  | VInt64 "64 word" | VUint64 "64 word" | VDouble "64 word"
  | VStr bytes | VObjectPath bytes | VSignature bytes | VFd u32
  | VByteArray bytes | VArray "Value list" | VStruct "Value list"
  | VDict "(bytes \<times> Value) list" | VVariant Value

fun kind :: "Value \<Rightarrow> bytes" where
  "kind (VByte _) = str ''a byte''"
| "kind (VBool _) = str ''a boolean''"
| "kind (VInt16 _) = str ''an int16''"
| "kind (VUint16 _) = str ''a uint16''"
| "kind (VInt32 _) = str ''an int32''"
| "kind (VUint32 _) = str ''a uint32''"
| "kind (VInt64 _) = str ''an int64''"
| "kind (VUint64 _) = str ''a uint64''"
| "kind (VDouble _) = str ''a double''"
| "kind (VStr _) = str ''a string''"
| "kind (VObjectPath _) = str ''an object path''"
| "kind (VSignature _) = str ''a signature''"
| "kind (VFd _) = str ''a file descriptor index''"
| "kind (VByteArray _) = str ''a byte array''"
| "kind (VArray _) = str ''an array''"
| "kind (VStruct _) = str ''a struct''"
| "kind (VDict _) = str ''a dict''"
| "kind (VVariant _) = str ''a variant''"

definition MAX_ARRAY :: nat where
  "MAX_ARRAY = 2 ^ 26"

definition MAX_VALUES :: nat where
  "MAX_VALUES = 2 ^ 20"

definition MAX_DEPTH :: nat where
  "MAX_DEPTH = 64"

section \<open>Marshalling\<close>

definition padding_of :: "nat \<Rightarrow> nat \<Rightarrow> nat" where
  "padding_of n align = (let over = n mod align in if over = 0 then 0 else align - over)"

definition pad :: "bytes \<Rightarrow> nat \<Rightarrow> bytes" where
  "pad out align = out @ replicate (padding_of (length out) align) 0"

definition align_up :: "nat \<Rightarrow> nat \<Rightarrow> nat" where
  "align_up n align = (n div align + (if n mod align = 0 then 0 else 1)) * align"

definition encode_str :: "bytes \<Rightarrow> bytes \<Rightarrow> WireError + bytes" where
  "encode_str out txt =
     (if 0 \<in> set txt then Inl BadString
      else if length txt \<ge> 2 ^ 32 then Inl (ArrayTooLong (length txt))
      else Inr (out @ u32_le (of_nat (length txt)) @ txt @ [0]))"

definition encode_signature :: "bytes \<Rightarrow> bytes \<Rightarrow> bytes" where
  "encode_signature out sig = out @ of_nat (length sig) # sig @ [0]"

fun signature_of :: "Value \<Rightarrow> nat \<Rightarrow> WireError + bytes"
  and signature_all :: "Value list \<Rightarrow> nat \<Rightarrow> WireError + bytes" where
  "signature_of v depth =
     (if depth > MAX_DEPTH then Inl Depth
      else case v of
        VByte _ \<Rightarrow> Inr (str ''y'')
      | VBool _ \<Rightarrow> Inr (str ''b'')
      | VInt16 _ \<Rightarrow> Inr (str ''n'')
      | VUint16 _ \<Rightarrow> Inr (str ''q'')
      | VInt32 _ \<Rightarrow> Inr (str ''i'')
      | VUint32 _ \<Rightarrow> Inr (str ''u'')
      | VInt64 _ \<Rightarrow> Inr (str ''x'')
      | VUint64 _ \<Rightarrow> Inr (str ''t'')
      | VDouble _ \<Rightarrow> Inr (str ''d'')
      | VStr _ \<Rightarrow> Inr (str ''s'')
      | VObjectPath _ \<Rightarrow> Inr (str ''o'')
      | VSignature _ \<Rightarrow> Inr (str ''g'')
      | VFd _ \<Rightarrow> Inr (str ''h'')
      | VByteArray _ \<Rightarrow> Inr (str ''ay'')
      | VVariant _ \<Rightarrow> Inr (str ''v'')
      | VArray [] \<Rightarrow> Inl (Unsupported (str ''an empty array inside a variant''))
      | VArray (x # _) \<Rightarrow> res_bind (signature_of x (depth + 1)) (\<lambda>s. Inr (str ''a'' @ s))
      | VDict [] \<Rightarrow> Inl (Unsupported (str ''an empty dict inside a variant''))
      | VDict ((_, x) # _) \<Rightarrow>
          res_bind (signature_of x (depth + 1)) (\<lambda>s. Inr (str ''a{s'' @ s @ str ''}''))
      | VStruct fields \<Rightarrow>
          res_bind (signature_all fields (depth + 1)) (\<lambda>s. Inr (str ''('' @ s @ str '')'')))"
| "signature_all [] depth = Inr []"
| "signature_all (v # vs) depth =
     res_bind (signature_of v depth) (\<lambda>s. res_bind (signature_all vs depth) (\<lambda>t. Inr (s @ t)))"

declare signature_of.simps [simp del]

text \<open>A slice pattern of one element.\<close>

definition single :: "'a list \<Rightarrow> 'a option" where
  "single xs = (case xs of [x] \<Rightarrow> Some x | _ \<Rightarrow> None)"

lemma single_Some [simp]: "single xs = Some x \<longleftrightarrow> xs = [x]"
  by (auto simp: single_def split: list.split)

text \<open>The key and value types of an array's element when that is a dict entry.\<close>

definition dict_entry :: "Type \<Rightarrow> (Type \<times> Type) option" where
  "dict_entry t = (case t of TDictEntry k v \<Rightarrow> Some (k, v) | _ \<Rightarrow> None)"

text \<open>\<open>encode_value\<close> with the loops of its containers: \<open>encode_fields\<close> walks types and values
  together, \<open>encode_items\<close> and \<open>encode_entries\<close> the elements of an array.\<close>

function (sequential) encode_value :: "bytes \<Rightarrow> Type \<Rightarrow> Value \<Rightarrow> nat \<Rightarrow> WireError + bytes"
  and encode_fields :: "bytes \<Rightarrow> Type list \<Rightarrow> Value list \<Rightarrow> nat \<Rightarrow> WireError + bytes"
  and encode_array :: "bytes \<Rightarrow> Type \<Rightarrow> Value \<Rightarrow> nat \<Rightarrow> WireError + bytes"
  and encode_items :: "bytes \<Rightarrow> Type \<Rightarrow> Value list \<Rightarrow> nat \<Rightarrow> WireError + bytes"
  and encode_entries :: "bytes \<Rightarrow> Type \<Rightarrow> (bytes \<times> Value) list \<Rightarrow> nat \<Rightarrow> WireError + bytes" where
  "encode_value out ty v depth =
     (if depth > MAX_DEPTH then Inl Depth
      else
        let out = pad out (alignment ty); mismatch = Inl (TypeMismatch (type_code ty) (kind v)) in
        case ty of
          TByte \<Rightarrow> (case v of VByte x \<Rightarrow> Inr (out @ [x]) | _ \<Rightarrow> mismatch)
        | TBool \<Rightarrow> (case v of VBool x \<Rightarrow> Inr (out @ u32_le (if x then 1 else 0)) | _ \<Rightarrow> mismatch)
        | TInt16 \<Rightarrow> (case v of VInt16 x \<Rightarrow> Inr (out @ u16_le x) | _ \<Rightarrow> mismatch)
        | TUint16 \<Rightarrow> (case v of VUint16 x \<Rightarrow> Inr (out @ u16_le x) | _ \<Rightarrow> mismatch)
        | TInt32 \<Rightarrow> (case v of VInt32 x \<Rightarrow> Inr (out @ u32_le x) | _ \<Rightarrow> mismatch)
        | TUint32 \<Rightarrow> (case v of VUint32 x \<Rightarrow> Inr (out @ u32_le x) | _ \<Rightarrow> mismatch)
        | TInt64 \<Rightarrow> (case v of VInt64 x \<Rightarrow> Inr (out @ u64_le x) | _ \<Rightarrow> mismatch)
        | TUint64 \<Rightarrow> (case v of VUint64 x \<Rightarrow> Inr (out @ u64_le x) | _ \<Rightarrow> mismatch)
        | TDouble \<Rightarrow> (case v of VDouble x \<Rightarrow> Inr (out @ u64_le x) | _ \<Rightarrow> mismatch)
        | TFd \<Rightarrow> (case v of VFd x \<Rightarrow> Inr (out @ u32_le x) | _ \<Rightarrow> mismatch)
        | TStr \<Rightarrow> (case v of VStr x \<Rightarrow> encode_str out x | _ \<Rightarrow> mismatch)
        | TObjectPath \<Rightarrow>
            (case v of
               VObjectPath x \<Rightarrow> if \<not> valid_object_path x then Inl (BadObjectPath x) else encode_str out x
             | _ \<Rightarrow> mismatch)
        | TSignature \<Rightarrow>
            (case v of
               VSignature x \<Rightarrow> res_bind (parse_signature x) (\<lambda>_. Inr (encode_signature out x))
             | _ \<Rightarrow> mismatch)
        | TArray element \<Rightarrow> encode_array out element v depth
        | TStruct fields \<Rightarrow>
            (case v of
               VStruct given \<Rightarrow>
                 if length fields \<noteq> length given then Inl (Arity (length fields) (length given))
                 else encode_fields out fields given (depth + 1)
             | _ \<Rightarrow> mismatch)
        | TVariant \<Rightarrow>
            (case v of
               VVariant inner \<Rightarrow>
                 res_bind (signature_of inner 0) (\<lambda>sig.
                 res_bind (parse_signature sig) (\<lambda>types.
                   case single types of
                     Some t \<Rightarrow> encode_value (encode_signature out sig) t inner (depth + 1)
                   | None \<Rightarrow> Inl (BadSignature sig)))
             | _ \<Rightarrow> mismatch)
        | TDictEntry _ _ \<Rightarrow> mismatch)"
| "encode_fields out (t # ts) (v # vs) depth =
     res_bind (encode_value out t v depth) (\<lambda>out. encode_fields out ts vs depth)"
| "encode_fields out _ _ depth = Inr out"
| "encode_array out element v depth =
     (if depth \<ge> MAX_DEPTH then Inl Depth
      else
        let length_at = length out; mismatch = Inl (TypeMismatch (of_char CHR ''a'') (kind v));
            out = pad (out @ u32_le 0) (alignment element); start = length out;
            elements =
              (if element = TByte then (case v of VByteArray bs \<Rightarrow> Inr (out @ bs) | _ \<Rightarrow> mismatch)
               else
                 case dict_entry element of
                   Some (key, entry) \<Rightarrow>
                     (case v of
                        VDict entries \<Rightarrow>
                          if key \<noteq> TStr then Inl (Unsupported (str ''dict keys that are not strings''))
                          else encode_entries out entry entries (depth + 1)
                      | _ \<Rightarrow> mismatch)
                 | None \<Rightarrow>
                     (case v of VArray items \<Rightarrow> encode_items out element items (depth + 1) | _ \<Rightarrow> mismatch))
        in res_bind elements (\<lambda>out.
             let len = length out - start in
             if len > MAX_ARRAY then Inl (ArrayTooLong len)
             else Inr (take length_at out @ u32_le (of_nat len) @ drop (length_at + 4) out)))"
| "encode_items out element [] depth = Inr out"
| "encode_items out element (v # vs) depth =
     res_bind (encode_value out element v depth) (\<lambda>out. encode_items out element vs depth)"
| "encode_entries out entry [] depth = Inr out"
| "encode_entries out entry ((key, v) # es) depth =
     res_bind (encode_str (pad out 8) key) (\<lambda>out.
     res_bind (encode_value out entry v depth) (\<lambda>out. encode_entries out entry es depth))"
  by pat_completeness auto
termination
  by (relation "measure (\<lambda>x. case x of
        Inl (Inl (out, ty, v, d)) \<Rightarrow> 3 * size v + 2
      | Inl (Inr (out, ts, vs, d)) \<Rightarrow> 3 * size_list size vs
      | Inr (Inl (out, t, v, d)) \<Rightarrow> 3 * size v + 1
      | Inr (Inr (Inl (out, t, vs, d))) \<Rightarrow> 3 * size_list size vs
      | Inr (Inr (Inr (out, t, es, d))) \<Rightarrow> 3 * size_list (size_prod (\<lambda>_. 0) size) es)") auto

declare encode_value.simps [simp del] encode_array.simps [simp del]

definition dbus_encode :: "bytes \<Rightarrow> Value list \<Rightarrow> WireError + bytes" where
  "dbus_encode sig vs =
     res_bind (parse_signature sig) (\<lambda>types.
       if length types \<noteq> length vs then Inl (Arity (length types) (length vs))
       else encode_fields [] types vs 0)"

section \<open>Unmarshalling\<close>

record Reader =
  rd_buf :: bytes
  rd_at :: nat
  rd_values :: nat

definition reader_new :: "bytes \<Rightarrow> Reader" where
  "reader_new buf = \<lparr>rd_buf = buf, rd_at = 0, rd_values = 0\<rparr>"

definition rd_value :: "Reader \<Rightarrow> WireError + Reader" where
  "rd_value r =
     (let n = rd_values r + 1 in if n > MAX_VALUES then Inl TooManyValues else Inr (r\<lparr>rd_values := n\<rparr>))"

definition rd_take :: "nat \<Rightarrow> Reader \<Rightarrow> WireError + bytes \<times> Reader" where
  "rd_take n r =
     res_bind (ok_or Truncated (checked_add (rd_at r) n)) (\<lambda>end_at.
     res_bind (ok_or Truncated (get_range (rd_buf r) (rd_at r) end_at)) (\<lambda>bs.
       Inr (bs, r\<lparr>rd_at := end_at\<rparr>)))"

definition rd_align :: "nat \<Rightarrow> Reader \<Rightarrow> WireError + Reader" where
  "rd_align align r =
     res_bind (rd_take (padding_of (rd_at r) align) r) (\<lambda>(bs, r).
       if \<exists>b \<in> set bs. b \<noteq> 0 then Inl Padding else Inr r)"

definition rd_byte :: "Reader \<Rightarrow> WireError + byte \<times> Reader" where
  "rd_byte r = res_bind (rd_take 1 r) (\<lambda>(bs, r). Inr (bs ! 0, r))"

definition rd_uint16 :: "Reader \<Rightarrow> WireError + u16 \<times> Reader" where
  "rd_uint16 r = res_bind (rd_take 2 r) (\<lambda>(b, r). Inr (le_u16 (b ! 0) (b ! 1), r))"

definition rd_uint32 :: "Reader \<Rightarrow> WireError + u32 \<times> Reader" where
  "rd_uint32 r = res_bind (rd_take 4 r) (\<lambda>(b, r). Inr (le_u32 (b ! 0) (b ! 1) (b ! 2) (b ! 3), r))"

definition rd_uint64 :: "Reader \<Rightarrow> WireError + 64 word \<times> Reader" where
  "rd_uint64 r = res_bind (rd_take 8 r) (\<lambda>(b, r).
     Inr (le_u64 (b ! 0) (b ! 1) (b ! 2) (b ! 3) (b ! 4) (b ! 5) (b ! 6) (b ! 7), r))"

definition rd_text :: "nat \<Rightarrow> Reader \<Rightarrow> WireError + bytes \<times> Reader" where
  "rd_text len r =
     res_bind (rd_take len r) (\<lambda>(bs, r).
       if 0 \<in> set bs then Inl BadString
       else res_bind (rd_byte r) (\<lambda>(b, r).
         if b \<noteq> 0 then Inl BadString else if utf8_valid bs then Inr (bs, r) else Inl BadString))"

definition rd_string :: "Reader \<Rightarrow> WireError + bytes \<times> Reader" where
  "rd_string r = res_bind (rd_uint32 r) (\<lambda>(len, r). rd_text (unat len) r)"

definition rd_signature :: "Reader \<Rightarrow> WireError + (bytes \<times> Type list) \<times> Reader" where
  "rd_signature r =
     res_bind (rd_byte r) (\<lambda>(len, r). res_bind (rd_text (unat len) r) (\<lambda>(sig, r).
       res_bind (parse_signature sig) (\<lambda>types. Inr ((sig, types), r))))"

lemma rd_value_Inr: "rd_value r = Inr r' \<longleftrightarrow> rd_values r < MAX_VALUES \<and> r' = r\<lparr>rd_values := rd_values r + 1\<rparr>"
  by (auto simp: rd_value_def Let_def)

lemma rd_take_Inr:
  "rd_take n r = Inr (bs, r') \<longleftrightarrow> rd_at r + n \<le> usize_max \<and> rd_at r + n \<le> length (rd_buf r) \<and>
     bs = take n (drop (rd_at r) (rd_buf r)) \<and> r' = r\<lparr>rd_at := rd_at r + n\<rparr>"
  by (auto simp: rd_take_def rust_simps)

definition moved :: "Reader \<Rightarrow> Reader \<Rightarrow> bool" where
  "moved r r' \<longleftrightarrow> rd_values r' = rd_values r \<and> rd_buf r' = rd_buf r \<and> rd_at r \<le> rd_at r'"

lemma moved_trans: "moved r r' \<Longrightarrow> moved r' r'' \<Longrightarrow> moved r r''"
  by (auto simp: moved_def)

lemma take_moved: "rd_take n r = Inr (bs, r') \<Longrightarrow> moved r r'"
  by (auto simp: rd_take_Inr moved_def)

lemma reads_moved:
  "rd_align a r = Inr r' \<Longrightarrow> moved r r'"
  "rd_byte r = Inr (x, r') \<Longrightarrow> moved r r'"
  "rd_uint16 r = Inr (h, r') \<Longrightarrow> moved r r'"
  "rd_uint32 r = Inr (w, r') \<Longrightarrow> moved r r'"
  "rd_uint64 r = Inr (q, r') \<Longrightarrow> moved r r'"
  by (auto simp: rd_align_def rd_byte_def rd_uint16_def rd_uint32_def rd_uint64_def rust_simps
      split: if_splits dest: take_moved)

lemma rd_text_moved: "rd_text n r = Inr (bs, r') \<Longrightarrow> moved r r'"
  by (auto simp: rd_text_def rust_simps split: if_splits dest!: take_moved reads_moved(2) intro: moved_trans)

lemma rd_string_moved: "rd_string r = Inr (bs, r') \<Longrightarrow> moved r r'"
  by (auto simp: rd_string_def rust_simps dest!: reads_moved(4) rd_text_moved intro: moved_trans)

lemma rd_signature_moved: "rd_signature r = Inr (st, r') \<Longrightarrow> moved r r'"
  by (auto simp: rd_signature_def rust_simps dest!: reads_moved(2) rd_text_moved intro: moved_trans)

lemmas readers_moved = take_moved reads_moved rd_text_moved rd_string_moved rd_signature_moved

lemma res_bind_cong [fundef_cong]:
  "r = r' \<Longrightarrow> (\<And>a. r' = Inr a \<Longrightarrow> f a = g a) \<Longrightarrow> res_bind r f = res_bind r' g"
  by (cases r') auto

function (sequential) decode_value :: "Type \<Rightarrow> nat \<Rightarrow> Reader \<Rightarrow> WireError + Value \<times> Reader"
  and decode_fields :: "Type list \<Rightarrow> nat \<Rightarrow> Reader \<Rightarrow> WireError + Value list \<times> Reader"
  and decode_array :: "Type \<Rightarrow> nat \<Rightarrow> Reader \<Rightarrow> WireError + Value \<times> Reader"
  and decode_items :: "Type \<Rightarrow> nat \<Rightarrow> nat \<Rightarrow> Reader \<Rightarrow> WireError + Value list \<times> Reader"
  and decode_entries :: "Type \<Rightarrow> nat \<Rightarrow> nat \<Rightarrow> Reader \<Rightarrow> WireError + (bytes \<times> Value) list \<times> Reader" where
  "decode_value ty depth r =
     (if depth > MAX_DEPTH then Inl Depth
      else
        res_bind (rd_value r) (\<lambda>r. res_bind (rd_align (alignment ty) r) (\<lambda>r.
          case ty of
            TByte \<Rightarrow> res_bind (rd_byte r) (\<lambda>(x, r). Inr (VByte x, r))
          | TBool \<Rightarrow> res_bind (rd_uint32 r) (\<lambda>(x, r).
              if x = 0 then Inr (VBool False, r) else if x = 1 then Inr (VBool True, r) else Inl (BadBool x))
          | TInt16 \<Rightarrow> res_bind (rd_uint16 r) (\<lambda>(x, r). Inr (VInt16 x, r))
          | TUint16 \<Rightarrow> res_bind (rd_uint16 r) (\<lambda>(x, r). Inr (VUint16 x, r))
          | TInt32 \<Rightarrow> res_bind (rd_uint32 r) (\<lambda>(x, r). Inr (VInt32 x, r))
          | TUint32 \<Rightarrow> res_bind (rd_uint32 r) (\<lambda>(x, r). Inr (VUint32 x, r))
          | TInt64 \<Rightarrow> res_bind (rd_uint64 r) (\<lambda>(x, r). Inr (VInt64 x, r))
          | TUint64 \<Rightarrow> res_bind (rd_uint64 r) (\<lambda>(x, r). Inr (VUint64 x, r))
          | TDouble \<Rightarrow> res_bind (rd_uint64 r) (\<lambda>(x, r). Inr (VDouble x, r))
          | TFd \<Rightarrow> res_bind (rd_uint32 r) (\<lambda>(x, r). Inr (VFd x, r))
          | TStr \<Rightarrow> res_bind (rd_string r) (\<lambda>(x, r). Inr (VStr x, r))
          | TObjectPath \<Rightarrow> res_bind (rd_string r) (\<lambda>(x, r).
              if \<not> valid_object_path x then Inl (BadObjectPath x) else Inr (VObjectPath x, r))
          | TSignature \<Rightarrow> res_bind (rd_signature r) (\<lambda>(st, r). Inr (VSignature (fst st), r))
          | TVariant \<Rightarrow> res_bind (rd_signature r) (\<lambda>(st, r).
              case single (snd st) of
                Some t \<Rightarrow> res_bind (decode_value t (depth + 1) r) (\<lambda>(x, r). Inr (VVariant x, r))
              | None \<Rightarrow> Inl (BadSignature (fst st)))
          | TArray element \<Rightarrow> decode_array element depth r
          | TStruct ts \<Rightarrow> res_bind (decode_fields ts (depth + 1) r) (\<lambda>(xs, r). Inr (VStruct xs, r))
          | TDictEntry _ _ \<Rightarrow> Inl (Unsupported (str ''a dict entry outside an array'')))))"
| "decode_fields [] depth r = Inr ([], r)"
| "decode_fields (t # ts) depth r =
     res_bind (decode_value t depth r) (\<lambda>(x, r).
     res_bind (decode_fields ts depth r) (\<lambda>(xs, r). Inr (x # xs, r)))"
| "decode_array element depth r =
     (if depth \<ge> MAX_DEPTH then Inl Depth
      else
        res_bind (rd_uint32 r) (\<lambda>(len, r).
        if unat len > MAX_ARRAY then Inl (ArrayTooLong (unat len))
        else
          res_bind (rd_align (alignment element) r) (\<lambda>r.
          res_bind (ok_or Truncated (checked_add (rd_at r) (unat len))) (\<lambda>end_at.
          if end_at > length (rd_buf r) then Inl Truncated
          else
            res_bind
              (if element = TByte then res_bind (rd_take (unat len) r) (\<lambda>(bs, r). Inr (VByteArray bs, r))
               else
                 case dict_entry element of
                   Some (key, entry) \<Rightarrow>
                     if key \<noteq> TStr then Inl (Unsupported (str ''dict keys that are not strings''))
                     else res_bind (decode_entries entry end_at (depth + 1) r) (\<lambda>(es, r). Inr (VDict es, r))
                 | None \<Rightarrow> res_bind (decode_items element end_at (depth + 1) r) (\<lambda>(xs, r). Inr (VArray xs, r)))
              (\<lambda>(v, r). if rd_at r \<noteq> end_at then Inl Truncated else Inr (v, r))))))"
| "decode_items element end_at depth r =
     (if \<not> rd_at r < end_at then Inr ([], r)
      else
        res_bind (decode_value element depth r) (\<lambda>(x, r).
          if rd_at r > end_at then Inl Truncated
          else res_bind (decode_items element end_at depth r) (\<lambda>(xs, r). Inr (x # xs, r))))"
| "decode_entries entry end_at depth r =
     (if \<not> rd_at r < end_at then Inr ([], r)
      else
        res_bind (rd_value r) (\<lambda>r. res_bind (rd_align 8 r) (\<lambda>r. res_bind (rd_string r) (\<lambda>(key, r).
        res_bind (decode_value entry depth r) (\<lambda>(x, r).
          if rd_at r > end_at then Inl Truncated
          else res_bind (decode_entries entry end_at depth r) (\<lambda>(es, r). Inr ((key, x) # es, r)))))))"
  by pat_completeness auto

text \<open>Every value counts against the budget of the block, which is what bounds the loops.\<close>

definition spent :: "Reader \<Rightarrow> Reader \<Rightarrow> bool" where
  "spent r r' \<longleftrightarrow> rd_values r \<le> rd_values r' \<and> (rd_values r \<le> MAX_VALUES \<longrightarrow> rd_values r' \<le> MAX_VALUES)"

definition paid :: "Reader \<Rightarrow> Reader \<Rightarrow> bool" where
  "paid r r' \<longleftrightarrow> rd_values r < rd_values r' \<and> rd_values r' \<le> MAX_VALUES"

lemma spent_refl: "spent r r"
  by (simp add: spent_def)

lemma spent_trans: "spent r r' \<Longrightarrow> spent r' r'' \<Longrightarrow> spent r r''"
  by (auto simp: spent_def)

lemma moved_spent: "moved r r' \<Longrightarrow> spent r r'"
  by (simp add: moved_def spent_def)

lemma paid_spent: "paid r r' \<Longrightarrow> spent r r'"
  by (simp add: paid_def spent_def)

lemma paid_then: "paid r r' \<Longrightarrow> spent r' r'' \<Longrightarrow> paid r r''"
  by (auto simp: paid_def spent_def)

lemma paid_spent_then: "paid r r' \<Longrightarrow> spent r' r'' \<Longrightarrow> spent r r''"
  by (rule paid_spent [OF paid_then])

lemma rd_value_paid: "rd_value r = Inr r' \<Longrightarrow> paid r r'"
  by (auto simp: rd_value_Inr paid_def)

lemma decode_spends:
  "decode_value_decode_fields_decode_array_decode_items_decode_entries_dom (Inl (Inl (ty, d, r))) \<Longrightarrow>
     decode_value ty d r = Inr (v, r') \<Longrightarrow> paid r r'"
  "decode_value_decode_fields_decode_array_decode_items_decode_entries_dom (Inl (Inr (ts, d, r))) \<Longrightarrow>
     decode_fields ts d r = Inr (vs, r') \<Longrightarrow> spent r r'"
  "decode_value_decode_fields_decode_array_decode_items_decode_entries_dom (Inr (Inl (ty, d, r))) \<Longrightarrow>
     decode_array ty d r = Inr (v, r') \<Longrightarrow> spent r r'"
  "decode_value_decode_fields_decode_array_decode_items_decode_entries_dom (Inr (Inr (Inl (ty, e, d, r)))) \<Longrightarrow>
     decode_items ty e d r = Inr (vs, r') \<Longrightarrow> spent r r'"
  "decode_value_decode_fields_decode_array_decode_items_decode_entries_dom (Inr (Inr (Inr (ty, e, d, r)))) \<Longrightarrow>
     decode_entries ty e d r = Inr (es, r') \<Longrightarrow> spent r r'"
proof (induction ty d r and ts d r and ty d r and ty e d r and ty e d r
    arbitrary: v r' and vs r' and v r' and vs r' and es r'
    rule: decode_value_decode_fields_decode_array_decode_items_decode_entries.pinduct)
  case (1 ty depth r)
  from "1.prems" "1.hyps" obtain r1 r2 where r: "\<not> MAX_DEPTH < depth" "rd_value r = Inr r1" "rd_align (alignment ty) r1 = Inr r2"
    by (auto simp: decode_value.psimps rust_simps split: if_splits)
  have "paid r r2" using r(2,3) by (meson rd_value_paid moved_spent reads_moved(1) paid_then)
  moreover have "spent r2 r'"
  proof (cases ty)
    case (TStruct ts)
    with "1.prems" "1.hyps" r "1.IH"(2) [OF r(1-3)] show ?thesis
      by (auto simp: decode_value.psimps rust_simps)
  next
    case TVariant
    with "1.prems" "1.hyps" r obtain sig t r3 x where t: "rd_signature r2 = Inr ((sig, [t]), r3)"
        "decode_value t (depth + 1) r3 = Inr (x, r')"
      by (auto simp: decode_value.psimps rust_simps split: option.split_asm)
    from "1.IH"(3) [OF r(1-3) TVariant t(1) _ _ t(2)] rd_signature_moved [OF t(1)] show ?thesis
      by (auto dest!: moved_spent paid_spent intro: spent_trans)
  next
    case (TArray element)
    with "1.prems" "1.hyps" r "1.IH"(1) [OF r(1-3)] show ?thesis by (auto simp: decode_value.psimps)
  qed (use "1.prems" "1.hyps" r in \<open>auto simp: decode_value.psimps rust_simps split: if_splits
        dest!: readers_moved moved_spent\<close>)
  ultimately show ?case by (rule paid_then)
next
  case (2 depth r)
  then show ?case by (auto simp: decode_fields.psimps spent_refl)
next
  case (3 t ts depth r)
  then show ?case by (fastforce simp: decode_fields.psimps rust_simps intro: paid_spent_then)
next
  case (4 element depth r)
  from "4.prems" "4.hyps" obtain len r1 r2 end_at where
    a: "\<not> MAX_DEPTH \<le> depth" "rd_uint32 r = Inr (len, r1)" "\<not> MAX_ARRAY < unat len"
       "rd_align (alignment element) r1 = Inr r2"
       "ok_or Truncated (checked_add (rd_at r2) (unat len)) = Inr end_at" "\<not> length (rd_buf r2) < end_at"
    by (auto simp: decode_array.psimps res_bind_eq_Inr split: if_splits)
  have rest: "(if element = TByte then res_bind (rd_take (unat len) r2) (\<lambda>(bs, r). Inr (VByteArray bs, r))
     else
       case dict_entry element of
         Some (key, entry) \<Rightarrow>
           if key \<noteq> TStr then Inl (Unsupported (str ''dict keys that are not strings''))
           else res_bind (decode_entries entry end_at (depth + 1) r2) (\<lambda>(es, r). Inr (VDict es, r))
       | None \<Rightarrow> res_bind (decode_items element end_at (depth + 1) r2) (\<lambda>(xs, r). Inr (VArray xs, r))) = Inr (v, r')"
    (is "?rest = _")
    using "4.prems" a unfolding decode_array.psimps [OF "4.hyps"]
    by (simp only: res_bind_simps if_False split_conv) (auto simp: res_bind_eq_Inr split: if_splits)
  consider "element = TByte" | k v where "element \<noteq> TByte" "dict_entry element = Some (k, v)"
    | "element \<noteq> TByte" "dict_entry element = None" by fastforce
  then have "spent r2 r'"
  proof cases
    case 1
    with rest show ?thesis by (auto simp: res_bind_eq_Inr dest!: take_moved moved_spent)
  next
    case (2 k v)
    with rest obtain es where "k = TStr" "decode_entries v end_at (depth + 1) r2 = Inr (es, r')"
      by (auto simp: res_bind_eq_Inr split: if_splits)
    with 2 a show ?thesis by (intro "4.IH"(2) [of "(len, r1)" len r1 r2 end_at]) (simp_all add: a)
  next
    case 3
    with rest obtain vs where "decode_items element end_at (depth + 1) r2 = Inr (vs, r')"
      by (auto simp: res_bind_eq_Inr)
    with 3 a show ?thesis by (intro "4.IH"(1) [of "(len, r1)" len r1 r2 end_at]) (simp_all add: a)
  qed
  moreover have "spent r r2" using a(2,4) by (meson moved_spent readers_moved spent_trans)
  ultimately show ?case by (meson spent_trans)
next
  case (5 element end_at depth r)
  then show ?case
    by (fastforce simp: decode_items.psimps rust_simps spent_refl split: if_splits intro: paid_spent_then)
next
  case (6 entry end_at depth r)
  show ?case
  proof (cases "rd_at r < end_at")
    case True
    with 6 obtain r1 r2 key r3 x r4 fs where
      s: "rd_value r = Inr r1" "rd_align 8 r1 = Inr r2" "rd_string r2 = Inr (key, r3)"
         "decode_value entry depth r3 = Inr (x, r4)" "\<not> end_at < rd_at r4"
         "decode_entries entry end_at depth r4 = Inr (fs, r')"
      by (auto simp: decode_entries.psimps rust_simps split: if_splits)
    have "paid r3 r4" using "6.IH"(1) [of r1 r2 "(key, r3)" key r3 x r4] True s by simp
    moreover have "spent r4 r'" using "6.IH"(2) [of r1 r2 "(key, r3)" key r3 "(x, r4)" x r4 fs r'] True s by simp
    moreover have "paid r r3"
      using s(1-3) by (meson rd_value_paid moved_spent readers_moved paid_then spent_trans)
    ultimately show ?thesis by (meson paid_spent_then)
  next
    case False
    with 6 show ?thesis by (auto simp: decode_entries.psimps spent_refl)
  qed
qed

termination decode_value
  by (relation "measure (\<lambda>x. case x of
        Inl (Inl (ty, d, r)) \<Rightarrow> 3 * (MAX_VALUES + 1 - rd_values r)
      | Inl (Inr (ts, d, r)) \<Rightarrow> 3 * (MAX_VALUES + 1 - rd_values r) + 1
      | Inr (Inl (t, d, r)) \<Rightarrow> 3 * (MAX_VALUES + 1 - rd_values r) + 2
      | Inr (Inr (Inl (t, e, d, r))) \<Rightarrow> 3 * (MAX_VALUES + 1 - rd_values r) + 1
      | Inr (Inr (Inr (t, e, d, r))) \<Rightarrow> 3 * (MAX_VALUES + 1 - rd_values r) + 1)")
    (auto dest!: readers_moved rd_value_paid decode_spends(1) simp: moved_def paid_def)

declare decode_value.simps [simp del] decode_array.simps [simp del] decode_items.simps [simp del]
  decode_entries.simps [simp del]

definition dbus_decode :: "bytes \<Rightarrow> bytes \<Rightarrow> WireError + Value list" where
  "dbus_decode sig body =
     res_bind (parse_signature sig) (\<lambda>types.
     res_bind (decode_fields types 0 (reader_new body)) (\<lambda>(vs, r).
       if rd_at r \<noteq> length body then Inl (Trailing (length body - rd_at r)) else Inr vs))"

end
