(* ===== verification/Dbus_Codec.thy ===== *)
theory Dbus_Codec
  imports Dbus_Wire
begin

text \<open>
  The two directions of the D-Bus codec together.  \<open>reads\<close> says what a decoder makes of some bytes
  wherever they stand in a block; one lemma per type code carries it through the decoder, and an
  induction along the encoder shows that every value it writes is read back.  A second induction,
  along the decoder, bounds what any body a peer sends can make it build.
\<close>

section \<open>What a decoder reads\<close>

text \<open>\<open>reads D p b x k\<close>: behind any \<open>p\<close> bytes, \<open>D\<close> reads the bytes \<open>b\<close> as \<open>x\<close>, stops right behind them and
  counts \<open>k\<close> values, whatever follows.\<close>

definition rdr :: "bytes \<Rightarrow> nat \<Rightarrow> nat \<Rightarrow> Reader" where
  "rdr buf p n = \<lparr>rd_buf = buf, rd_at = p, rd_values = n\<rparr>"

lemma rdr_simps [simp]:
  "rd_buf (rdr b p n) = b" "rd_at (rdr b p n) = p" "rd_values (rdr b p n) = n"
  "(rdr b p n)\<lparr>rd_at := q\<rparr> = rdr b q n" "(rdr b p n)\<lparr>rd_values := m\<rparr> = rdr b p m"
  by (simp_all add: rdr_def)

definition reads :: "(Reader \<Rightarrow> WireError + 'a \<times> Reader) \<Rightarrow> nat \<Rightarrow> bytes \<Rightarrow> 'a \<Rightarrow> nat \<Rightarrow> bool" where
  "reads D p b x k \<longleftrightarrow>
     (\<forall>pre rest n. length pre = p \<longrightarrow> length (pre @ b @ rest) \<le> usize_max \<longrightarrow> n + k \<le> MAX_VALUES \<longrightarrow>
        D (rdr (pre @ b @ rest) p n) = Inr (x, rdr (pre @ b @ rest) (p + length b) (n + k)))"

lemma readsI:
  "(\<And>pre rest n. length pre = p \<Longrightarrow> length (pre @ b @ rest) \<le> usize_max \<Longrightarrow> n + k \<le> MAX_VALUES \<Longrightarrow>
      D (rdr (pre @ b @ rest) p n) = Inr (x, rdr (pre @ b @ rest) (p + length b) (n + k))) \<Longrightarrow> reads D p b x k"
  by (simp add: reads_def)

lemma readsD:
  "reads D p b x k \<Longrightarrow> length pre = p \<Longrightarrow> length (pre @ b @ rest) \<le> usize_max \<Longrightarrow> n + k \<le> MAX_VALUES \<Longrightarrow>
     D (rdr (pre @ b @ rest) p n) = Inr (x, rdr (pre @ b @ rest) (p + length b) (n + k))"
  by (simp add: reads_def)

lemma reads_bind:
  assumes "reads D p b x k" and "reads (E x) (p + length b) c y l"
  shows "reads (\<lambda>r. res_bind (D r) (\<lambda>(x, r). E x r)) p (b @ c) y (k + l)"
proof (rule readsI)
  fix pre rest :: bytes and n
  assume h: "length pre = p" "length (pre @ (b @ c) @ rest) \<le> usize_max" "n + (k + l) \<le> MAX_VALUES"
  have "D (rdr (pre @ b @ c @ rest) p n) = Inr (x, rdr (pre @ b @ c @ rest) (p + length b) (n + k))"
    using readsD [OF assms(1), of pre "c @ rest" n] h by simp
  moreover have "E x (rdr ((pre @ b) @ c @ rest) (p + length b) (n + k)) =
      Inr (y, rdr ((pre @ b) @ c @ rest) (p + length b + length c) (n + k + l))"
    using readsD [OF assms(2), of "pre @ b" rest "n + k"] h by simp
  ultimately show "res_bind (D (rdr (pre @ (b @ c) @ rest) p n)) (\<lambda>(x, r). E x r) =
      Inr (y, rdr (pre @ (b @ c) @ rest) (p + length (b @ c)) (n + (k + l)))"
    by (simp add: ac_simps)
qed

lemma reads_return: "reads (\<lambda>r. Inr (x, r)) p [] x 0"
  by (simp add: reads_def)

lemma reads_map: "reads D p b x k \<Longrightarrow> reads (\<lambda>r. res_bind (D r) (\<lambda>(x, r). Inr (f x, r))) p b (f x) k"
  using reads_bind [of D p b x k "\<lambda>x r. Inr (f x, r)", OF _ reads_return] by simp

lemma reads_cong: "reads D p b x k \<Longrightarrow> (\<And>r. E r = D r) \<Longrightarrow> reads E p b x k"
  by (simp add: reads_def)

lemma reads_take: "reads (rd_take (length b)) p b b 0"
  by (rule readsI) (simp add: rd_take_Inr)

lemma reads_taken:
  assumes "length b = m" and "f b = x"
  shows "reads (\<lambda>r. res_bind (rd_take m r) (\<lambda>(b, r). Inr (f b, r))) p b x 0"
  using reads_map [OF reads_take [of b p], of f] assms by simp

lemma reads_byte: "reads rd_byte p [x] x 0"
  unfolding rd_byte_def by (rule reads_taken) simp_all

lemma reads_uint16: "reads rd_uint16 p (u16_le x) x 0"
  unfolding rd_uint16_def by (rule reads_taken) (simp_all add: u16_le_def)

lemma reads_uint32: "reads rd_uint32 p (u32_le x) x 0"
  unfolding rd_uint32_def by (rule reads_taken) (simp_all add: u32_le_def)

lemma reads_uint64: "reads rd_uint64 p (u64_le x) x 0"
  unfolding rd_uint64_def
  by (rule reads_taken) (simp_all add: u64_le_def u32_le_def le_u64_def u64_le_halves)

lemma reads_text:
  assumes "0 \<notin> set t" and "utf8_valid t"
  shows "reads (rd_text (length t)) p (t @ [0]) t 0"
proof -
  have "reads (\<lambda>r. res_bind (rd_byte r) (\<lambda>(b, r). if b \<noteq> 0 then Inl BadString
      else if utf8_valid t then Inr (t, r) else Inl BadString)) q [0] t 0" for q
    using reads_bind [OF reads_byte [of q 0], of "\<lambda>b r. if b \<noteq> 0 then Inl BadString
      else if utf8_valid t then Inr (t, r) else Inl BadString" "[]" t 0]
    by (simp add: reads_return assms)
  then have "reads (\<lambda>r. if 0 \<in> set t then Inl BadString
       else res_bind (rd_byte r) (\<lambda>(b, r). if b \<noteq> 0 then Inl BadString
         else if utf8_valid t then Inr (t, r) else Inl BadString)) (p + length t) [0] t 0"
    using assms by simp
  from reads_bind [OF reads_take [of t p], of "\<lambda>bs r. if 0 \<in> set bs then Inl BadString
       else res_bind (rd_byte r) (\<lambda>(b, r). if b \<noteq> 0 then Inl BadString
         else if utf8_valid bs then Inr (bs, r) else Inl BadString)", OF this]
  show ?thesis by (simp add: rd_text_def [abs_def])
qed

lemma reads_string:
  assumes "0 \<notin> set t" and "utf8_valid t" and "length t < 2 ^ 32"
  shows "reads rd_string p (u32_le (of_nat (length t)) @ t @ [0]) t 0"
proof -
  have "unat (of_nat (length t) :: u32) = length t" using assms(3) by (simp add: unat_of_nat take_bit_nat_eq_self)
  with reads_bind [OF reads_uint32 [of p "of_nat (length t)"], of "\<lambda>len r. rd_text (unat len) r"]
    reads_text [OF assms(1,2)] show ?thesis by (simp add: rd_string_def [abs_def])
qed

lemma type_code_ascii: "c \<in> set (sig_of t) \<Longrightarrow> c \<noteq> 0 \<and> c < 0x80"
  by (induction t rule: sig_of.induct) auto

lemma signature_text:
  assumes "parse_signature sig = Inr ts"
  shows "0 \<notin> set sig" and "utf8_valid sig" and "length sig \<le> 255" and "list_all (wf_type 0 0) ts"
proof -
  from assms have p: "parse_all sig = Some ts" and l: "length sig \<le> 255"
    by (auto simp: parse_signature_def MAX_SIGNATURE_def rust_simps split: if_splits)
  from p have s: "sig = concat (map sig_of ts)" and w: "list_all (wf_type 0 0) ts" by (auto simp: parse_all_iff)
  from s show "0 \<notin> set sig" using type_code_ascii by fastforce
  from s show "utf8_valid sig" using type_code_ascii by (intro utf8_valid_ascii) fastforce
  show "length sig \<le> 255" "list_all (wf_type 0 0) ts" by (fact l w)+
qed

lemma reads_signature:
  assumes "parse_signature sig = Inr ts"
  shows "reads rd_signature p (of_nat (length sig) # sig @ [0]) (sig, ts) 0"
proof -
  have "unat (of_nat (length sig) :: byte) = length sig"
    using signature_text(3) [OF assms] by (simp add: unat_of_nat take_bit_nat_eq_self)
  moreover have "reads (\<lambda>r. res_bind (rd_text (length sig) r) (\<lambda>(sig, r).
       res_bind (parse_signature sig) (\<lambda>types. Inr ((sig, types), r)))) q (sig @ [0]) (sig, ts) 0" for q
    using reads_bind [OF reads_text [OF signature_text(1,2) [OF assms], of q],
        of "\<lambda>sig r. res_bind (parse_signature sig) (\<lambda>types. Inr ((sig, types), r))" "[]" "(sig, ts)" 0]
      assms by (simp add: reads_return)
  ultimately show ?thesis
    using reads_bind [OF reads_byte [of p "of_nat (length sig)"], of "\<lambda>len r. res_bind (rd_text (unat len) r) (\<lambda>(sig, r).
       res_bind (parse_signature sig) (\<lambda>types. Inr ((sig, types), r)))"]
    by (simp add: rd_signature_def [abs_def])
qed

section \<open>The counted values\<close>

fun count :: "Value \<Rightarrow> nat" and count_all :: "Value list \<Rightarrow> nat" and count_entries :: "(bytes \<times> Value) list \<Rightarrow> nat" where
  "count (VArray xs) = Suc (count_all xs)"
| "count (VStruct xs) = Suc (count_all xs)"
| "count (VDict es) = Suc (count_entries es)"
| "count (VVariant x) = Suc (count x)"
| "count _ = 1"
| "count_all [] = 0"
| "count_all (x # xs) = count x + count_all xs"
| "count_entries [] = 0"
| "count_entries ((_, x) # es) = Suc (count x + count_entries es)"

text \<open>Text in a value is UTF-8, as Rust's \<open>String\<close> promises.\<close>

fun texts_ok :: "Value \<Rightarrow> bool" where
  "texts_ok (VStr t) = utf8_valid t"
| "texts_ok (VObjectPath t) = utf8_valid t"
| "texts_ok (VSignature t) = utf8_valid t"
| "texts_ok (VArray xs) = list_all texts_ok xs"
| "texts_ok (VStruct xs) = list_all texts_ok xs"
| "texts_ok (VDict es) = list_all (\<lambda>(k, x). utf8_valid k \<and> texts_ok x) es"
| "texts_ok (VVariant x) = texts_ok x"
| "texts_ok _ = True"

definition good :: "Type \<Rightarrow> bool" where
  "good t \<longleftrightarrow> (\<exists>a s. wf_type a s t)"

lemma good_array: "good (TArray t) \<Longrightarrow> good t \<or> (\<exists>k v. t = TDictEntry k v \<and> good v)"
  by (cases t) (auto simp: good_def)

lemma good_struct: "good (TStruct ts) \<Longrightarrow> ts \<noteq> [] \<and> list_all good ts"
  by (auto simp: good_def list_all_iff)

lemma good_signature: "parse_signature sig = Inr ts \<Longrightarrow> list_all good ts"
  using signature_text(4) by (fastforce simp: good_def list_all_iff)

section \<open>The decoder by its parts\<close>

definition value_body :: "Type \<Rightarrow> nat \<Rightarrow> Reader \<Rightarrow> WireError + Value \<times> Reader" where
  "value_body ty depth r =
     (case ty of
        TByte \<Rightarrow> res_bind (rd_byte r) (\<lambda>(x, r). Inr (VByte x, r))
      | TBool \<Rightarrow> res_bind (rd_uint32 r) (\<lambda>(x, r).
          if x = 0 then Inr (VBool False, r) else if x = 1 then Inr (VBool True, r) else Inl (BadBool x))
      | TInt16 \<Rightarrow> res_bind (rd_uint16 r) (\<lambda>(x, r). Inr (VInt16 x, r))
      | TUint16 \<Rightarrow> res_bind (rd_uint16 r) (\<lambda>(x, r). Inr (VUint16 x, r))
      | TInt32 \<Rightarrow> res_bind (rd_uint32 r) (\<lambda>(x, r). Inr (VInt32 x, r))
      | TUint32 \<Rightarrow> res_bind (rd_uint32 r) (\<lambda>(x, r). Inr (VUint32 x, r))
      | TInt64 \<Rightarrow> res_bind (rd_uint64 r) (\<lambda>(x, r). Inr (VInt64 x, r))
      | TUint64 \<Rightarrow> res_bind (rd_uint64 r) (\<lambda>(x, r). Inr (VUint64 x, r))
      | TDouble \<Rightarrow> res_bind (rd_uint64 r) (\<lambda>(x, r). Inr (VDouble x, r))
      | TFd \<Rightarrow> res_bind (rd_uint32 r) (\<lambda>(x, r). Inr (VFd x, r))
      | TStr \<Rightarrow> res_bind (rd_string r) (\<lambda>(x, r). Inr (VStr x, r))
      | TObjectPath \<Rightarrow> res_bind (rd_string r) (\<lambda>(x, r).
          if \<not> valid_object_path x then Inl (BadObjectPath x) else Inr (VObjectPath x, r))
      | TSignature \<Rightarrow> res_bind (rd_signature r) (\<lambda>(st, r). Inr (VSignature (fst st), r))
      | TVariant \<Rightarrow> res_bind (rd_signature r) (\<lambda>(st, r).
          case single (snd st) of
            Some t \<Rightarrow> res_bind (decode_value t (depth + 1) r) (\<lambda>(x, r). Inr (VVariant x, r))
          | None \<Rightarrow> Inl (BadSignature (fst st)))
      | TArray element \<Rightarrow> decode_array element depth r
      | TStruct ts \<Rightarrow> res_bind (decode_fields ts (depth + 1) r) (\<lambda>(xs, r). Inr (VStruct xs, r))
      | TDictEntry _ _ \<Rightarrow> Inl (Unsupported (str ''a dict entry outside an array'')))"

lemma decode_value_body:
  "decode_value ty depth r =
     (if depth > MAX_DEPTH then Inl Depth
      else res_bind (rd_value r) (\<lambda>r. res_bind (rd_align (alignment ty) r) (value_body ty depth)))"
  by (simp add: decode_value.simps value_body_def [abs_def] eta_contract_eq)

lemma rd_align_zeros:
  assumes "length pre = p" and "length (pre @ replicate (padding_of p a) 0 @ rest) \<le> usize_max"
  shows "rd_align a (rdr (pre @ replicate (padding_of p a) 0 @ rest) p n) =
    Inr (rdr (pre @ replicate (padding_of p a) 0 @ rest) (p + padding_of p a) n)"
  using readsD [OF reads_take [of "replicate (padding_of p a) 0" p], of pre rest 0] assms
  by (simp add: rd_align_def rd_take_def checked_add_Some get_range_def)

lemma reads_value:
  assumes "\<not> depth > MAX_DEPTH"
    and "reads (value_body ty depth) (p + padding_of p (alignment ty)) b v k"
  shows "reads (decode_value ty depth) p (replicate (padding_of p (alignment ty)) 0 @ b) v (Suc k)"
proof (rule readsI)
  let ?z = "replicate (padding_of p (alignment ty)) 0"
  fix pre rest :: bytes and n
  assume h: "length pre = p" "length (pre @ (?z @ b) @ rest) \<le> usize_max" "n + Suc k \<le> MAX_VALUES"
  have "rd_align (alignment ty) (rdr (pre @ ?z @ b @ rest) p (n + 1)) =
      Inr (rdr (pre @ ?z @ b @ rest) (p + padding_of p (alignment ty)) (n + 1))"
    using h by (intro rd_align_zeros) simp_all
  moreover have "value_body ty depth (rdr ((pre @ ?z) @ b @ rest) (p + padding_of p (alignment ty)) (n + 1)) =
      Inr (v, rdr ((pre @ ?z) @ b @ rest) (p + padding_of p (alignment ty) + length b) (n + 1 + k))"
    using h by (intro readsD [OF assms(2)]) simp_all
  ultimately show "decode_value ty depth (rdr (pre @ (?z @ b) @ rest) p n) =
      Inr (v, rdr (pre @ (?z @ b) @ rest) (p + length (?z @ b)) (n + Suc k))"
    using assms(1) h(3) by (simp add: decode_value_body rd_value_def ac_simps)
qed

lemma body_numbers:
  "reads (value_body TByte d) p [x1] (VByte x1) 0"
  "reads (value_body TInt16 d) p (u16_le x2) (VInt16 x2) 0"
  "reads (value_body TUint16 d) p (u16_le x2) (VUint16 x2) 0"
  "reads (value_body TInt32 d) p (u32_le x4) (VInt32 x4) 0"
  "reads (value_body TUint32 d) p (u32_le x4) (VUint32 x4) 0"
  "reads (value_body TFd d) p (u32_le x4) (VFd x4) 0"
  "reads (value_body TInt64 d) p (u64_le x8) (VInt64 x8) 0"
  "reads (value_body TUint64 d) p (u64_le x8) (VUint64 x8) 0"
  "reads (value_body TDouble d) p (u64_le x8) (VDouble x8) 0"
  unfolding value_body_def [abs_def] Type.case
  by (rule reads_map reads_byte reads_uint16 reads_uint32 reads_uint64)+

lemma body_bool: "reads (value_body TBool d) p (u32_le (if x then 1 else 0)) (VBool x) 0"
  using reads_bind [OF reads_uint32 [of p "if x then 1 else 0"], of "\<lambda>y r. if y = 0 then Inr (VBool False, r)
    else if y = 1 then Inr (VBool True, r) else Inl (BadBool y)" "[]" "VBool x" 0]
  by (simp add: value_body_def [abs_def] reads_return split: if_splits)

lemma encode_str_Inr:
  "encode_str out t = Inr out' \<longleftrightarrow>
     0 \<notin> set t \<and> length t < 2 ^ 32 \<and> out' = out @ u32_le (of_nat (length t)) @ t @ [0]"
  by (auto simp: encode_str_def)

lemma body_str:
  assumes "encode_str out t = Inr out'" and "utf8_valid t"
  shows "reads (value_body TStr d) p (u32_le (of_nat (length t)) @ t @ [0]) (VStr t) 0"
  using reads_map [OF reads_string [of t p], of VStr] assms
  by (simp add: encode_str_Inr value_body_def [abs_def])

lemma body_path:
  assumes "encode_str out t = Inr out'" and "utf8_valid t" and "valid_object_path t"
  shows "reads (value_body TObjectPath d) p (u32_le (of_nat (length t)) @ t @ [0]) (VObjectPath t) 0"
  using reads_bind [OF reads_string [of t p], of "\<lambda>x r. if \<not> valid_object_path x then Inl (BadObjectPath x)
      else Inr (VObjectPath x, r)" "[]" "VObjectPath t" 0] assms
  by (simp add: encode_str_Inr value_body_def [abs_def] reads_return)

lemma body_signature:
  assumes "parse_signature t = Inr ts"
  shows "reads (value_body TSignature d) p (of_nat (length t) # t @ [0]) (VSignature t) 0"
  using reads_map [OF reads_signature [OF assms, of p], of "\<lambda>st. VSignature (fst st)"]
  by (simp add: value_body_def [abs_def])

lemma body_variant:
  assumes "parse_signature sig = Inr [t]"
    and "reads (decode_value t (d + 1)) (p + (length sig + 2)) b x k"
  shows "reads (value_body TVariant d) p ((of_nat (length sig) # sig @ [0]) @ b) (VVariant x) k"
proof -
  have "reads (\<lambda>r. case single (snd (sig, [t])) of
            Some t \<Rightarrow> res_bind (decode_value t (d + 1) r) (\<lambda>(x, r). Inr (VVariant x, r))
          | None \<Rightarrow> Inl (BadSignature (fst (sig, [t])))) (p + (length sig + 2)) b (VVariant x) k"
    using reads_map [OF assms(2), of VVariant] by (simp add: single_def)
  with reads_bind [OF reads_signature [OF assms(1), of p], of "\<lambda>st r. case single (snd st) of
            Some t \<Rightarrow> res_bind (decode_value t (d + 1) r) (\<lambda>(x, r). Inr (VVariant x, r))
          | None \<Rightarrow> Inl (BadSignature (fst st))" b "VVariant x" k]
  show ?thesis by (simp add: value_body_def [abs_def])
qed

lemma body_containers:
  "reads (decode_array element d) p b x k \<Longrightarrow> reads (value_body (TArray element) d) p b x k"
  "reads (decode_fields ts (d + 1)) p b xs k \<Longrightarrow> reads (value_body (TStruct ts) d) p b (VStruct xs) k"
  by (simp_all add: value_body_def [abs_def] reads_map [of "decode_fields ts (d + 1)" p b xs k VStruct, simplified])

definition decode_elements :: "Type \<Rightarrow> nat \<Rightarrow> nat \<Rightarrow> nat \<Rightarrow> Reader \<Rightarrow> WireError + Value \<times> Reader" where
  "decode_elements element len end_at depth r =
     (if element = TByte then res_bind (rd_take len r) (\<lambda>(bs, r). Inr (VByteArray bs, r))
      else
        case dict_entry element of
          Some (key, entry) \<Rightarrow>
            if key \<noteq> TStr then Inl (Unsupported (str ''dict keys that are not strings''))
            else res_bind (decode_entries entry end_at (depth + 1) r) (\<lambda>(es, r). Inr (VDict es, r))
        | None \<Rightarrow> res_bind (decode_items element end_at (depth + 1) r) (\<lambda>(xs, r). Inr (VArray xs, r)))"

lemma decode_array_elements:
  "decode_array element depth r =
     (if depth \<ge> MAX_DEPTH then Inl Depth
      else
        res_bind (rd_uint32 r) (\<lambda>(len, r).
        if unat len > MAX_ARRAY then Inl (ArrayTooLong (unat len))
        else
          res_bind (rd_align (alignment element) r) (\<lambda>r.
          res_bind (ok_or Truncated (checked_add (rd_at r) (unat len))) (\<lambda>end_at.
          if end_at > length (rd_buf r) then Inl Truncated
          else
            res_bind (decode_elements element (unat len) end_at depth r)
              (\<lambda>(v, r). if rd_at r \<noteq> end_at then Inl Truncated else Inr (v, r))))))"
  unfolding decode_array.simps decode_elements_def ..

lemma reads_array:
  fixes element p
  defines "z \<equiv> padding_of (p + 4) (alignment element)"
  assumes "\<not> depth \<ge> MAX_DEPTH" and "length b \<le> MAX_ARRAY"
    and el: "reads (decode_elements element (length b) (p + 4 + z + length b) depth) (p + 4 + z) b v k"
  shows "reads (decode_array element depth) p (u32_le (of_nat (length b)) @ replicate z 0 @ b) v k"
proof (rule readsI)
  let ?l = "u32_le (of_nat (length b))" and ?z = "replicate z 0"
  fix pre rest :: bytes and n
  assume h: "length pre = p" "length (pre @ (?l @ ?z @ b) @ rest) \<le> usize_max" "n + k \<le> MAX_VALUES"
  let ?buf = "pre @ ?l @ ?z @ b @ rest"
  have len: "unat (of_nat (length b) :: u32) = length b"
    using assms(3) by (simp add: unat_of_nat take_bit_nat_eq_self MAX_ARRAY_def)
  have "rd_uint32 (rdr ?buf p n) = Inr (of_nat (length b), rdr ?buf (p + 4) n)"
    using readsD [OF reads_uint32 [of p "of_nat (length b)"], of pre "?z @ b @ rest" n] h by simp
  moreover have "rd_align (alignment element) (rdr ?buf (p + 4) n) = Inr (rdr ?buf (p + 4 + z) n)"
    using rd_align_zeros [of "pre @ ?l" "p + 4" "alignment element" "b @ rest" n] h
    by (simp add: z_def)
  moreover have "decode_elements element (length b) (p + 4 + z + length b) depth (rdr ?buf (p + 4 + z) n) =
      Inr (v, rdr ?buf (p + 4 + z + length b) (n + k))"
    using readsD [OF el, of "pre @ ?l @ ?z" rest n] h by simp
  ultimately show "decode_array element depth (rdr (pre @ (?l @ ?z @ b) @ rest) p n) =
      Inr (v, rdr (pre @ (?l @ ?z @ b) @ rest) (p + length (?l @ ?z @ b)) (n + k))"
    using assms(2,3) h len by (simp add: decode_array_elements checked_add_Some ac_simps)
qed

lemma elements_bytes: "reads (decode_elements TByte (length bs) e d) p bs (VByteArray bs) 0"
  using reads_map [OF reads_take [of bs p], of VByteArray] by (simp add: decode_elements_def [abs_def])

lemma elements_items:
  "reads (decode_items t e (d + 1)) p b xs k \<Longrightarrow> t \<noteq> TByte \<Longrightarrow> dict_entry t = None \<Longrightarrow>
     reads (decode_elements t l e d) p b (VArray xs) k"
  using reads_map [of "decode_items t e (d + 1)" p b xs k VArray] by (simp add: decode_elements_def [abs_def])

lemma elements_entries:
  "reads (decode_entries t e (d + 1)) p b xs k \<Longrightarrow> reads (decode_elements (TDictEntry TStr t) l e d) p b (VDict xs) k"
  using reads_map [of "decode_entries t e (d + 1)" p b xs k VDict]
  by (simp add: decode_elements_def [abs_def] dict_entry_def)

text \<open>The loops.\<close>

lemma reads_items_Nil: "reads (decode_items t p d) p [] [] 0"
  by (rule readsI) (simp add: decode_items.simps)

lemma reads_items_Cons:
  assumes "reads (decode_value t d) p b x k" and "b \<noteq> []"
    and "reads (decode_items t e d) (p + length b) c xs l" and "e = p + length b + length c"
  shows "reads (decode_items t e d) p (b @ c) (x # xs) (k + l)"
proof (rule readsI)
  fix pre rest :: bytes and n
  assume h: "length pre = p" "length (pre @ (b @ c) @ rest) \<le> usize_max" "n + (k + l) \<le> MAX_VALUES"
  have "decode_value t d (rdr (pre @ b @ c @ rest) p n) = Inr (x, rdr (pre @ b @ c @ rest) (p + length b) (n + k))"
    using readsD [OF assms(1), of pre "c @ rest" n] h by simp
  moreover have "decode_items t e d (rdr (pre @ b @ c @ rest) (p + length b) (n + k)) =
      Inr (xs, rdr (pre @ b @ c @ rest) (p + length b + length c) (n + k + l))"
    using readsD [OF assms(3), of "pre @ b" rest "n + k"] h by simp
  ultimately show "decode_items t e d (rdr (pre @ (b @ c) @ rest) p n) =
      Inr (x # xs, rdr (pre @ (b @ c) @ rest) (p + length (b @ c)) (n + (k + l)))"
    using assms(2,4) by (subst decode_items.simps) (simp add: ac_simps)
qed

lemma reads_entries_Nil: "reads (decode_entries t p d) p [] [] 0"
  by (rule readsI) (simp add: decode_entries.simps)

lemma reads_entries_Cons:
  fixes p
  defines "z \<equiv> padding_of p 8"
  assumes key: "reads rd_string (p + z) s key 0" "s \<noteq> []"
    and val: "reads (decode_value t d) (p + z + length s) b x k"
    and rest_e: "reads (decode_entries t e d) (p + z + length s + length b) c es l"
    and e: "e = p + z + length s + length b + length c"
  shows "reads (decode_entries t e d) p (replicate z 0 @ s @ b @ c) ((key, x) # es) (Suc (k + l))"
proof (rule readsI)
  let ?z = "replicate z 0"
  fix pre rest :: bytes and n
  assume h: "length pre = p" "length (pre @ (?z @ s @ b @ c) @ rest) \<le> usize_max" "n + Suc (k + l) \<le> MAX_VALUES"
  let ?buf = "pre @ ?z @ s @ b @ c @ rest"
  have "rd_align 8 (rdr ?buf p (n + 1)) = Inr (rdr ?buf (p + z) (n + 1))"
    using rd_align_zeros [of pre p 8 "s @ b @ c @ rest" "n + 1"] h by (simp add: z_def)
  moreover have "rd_string (rdr ?buf (p + z) (n + 1)) = Inr (key, rdr ?buf (p + z + length s) (n + 1))"
    using readsD [OF key(1), of "pre @ ?z" "b @ c @ rest" "n + 1"] h by simp
  moreover have "decode_value t d (rdr ?buf (p + z + length s) (n + 1)) =
      Inr (x, rdr ?buf (p + z + length s + length b) (n + 1 + k))"
    using readsD [OF val, of "pre @ ?z @ s" "c @ rest" "n + 1"] h by simp
  moreover have "decode_entries t e d (rdr ?buf (p + z + length s + length b) (n + 1 + k)) =
      Inr (es, rdr ?buf (p + z + length s + length b + length c) (n + 1 + k + l))"
    using readsD [OF rest_e, of "pre @ ?z @ s @ b" rest "n + 1 + k"] h by simp
  ultimately show "decode_entries t e d (rdr (pre @ (?z @ s @ b @ c) @ rest) p n) =
      Inr ((key, x) # es, rdr (pre @ (?z @ s @ b @ c) @ rest) (p + length (?z @ s @ b @ c)) (n + Suc (k + l)))"
    using e key(2) h(3) by (subst decode_entries.simps) (simp add: rd_value_def ac_simps)
qed

section \<open>What is encoded is read back\<close>

lemma pad_append: "pad out a = out @ replicate (padding_of (length out) a) 0"
  by (simp add: pad_def)

lemma value_from_body:
  assumes "\<not> d > MAX_DEPTH" and "out' = pad out (alignment ty) @ b" and "b \<noteq> []"
    and "reads (value_body ty d) (length (pad out (alignment ty))) b v (count v - 1)" and "count v \<noteq> 0"
  shows "\<exists>b. out' = out @ b \<and> b \<noteq> [] \<and> reads (decode_value ty d) (length out) b v (count v)"
proof -
  have "reads (decode_value ty d) (length out) (replicate (padding_of (length out) (alignment ty)) 0 @ b) v
      (Suc (count v - 1))"
    using assms(1,4) by (intro reads_value) (simp_all add: pad_append)
  with assms(2,3,5) show ?thesis by (intro exI [of _ "replicate (padding_of (length out) (alignment ty)) 0 @ b"])
      (simp add: pad_append)
qed

lemma count_pos [simp]: "count v \<noteq> 0" "0 < count v"
  by (cases v; simp)+

text \<open>What the encoder writes for an array behind \<open>out\<close> is its length, the padding and the elements.\<close>

lemma array_from_elements:
  fixes out element
  defines "start \<equiv> pad (out @ u32_le 0) (alignment element)"
  assumes "\<not> MAX_DEPTH \<le> d" and "length b \<le> MAX_ARRAY"
    and out': "out' = take (length out) (start @ b) @ u32_le (of_nat (length b)) @ drop (length out + 4) (start @ b)"
    and "reads (decode_elements element (length b) (length start + length b) d) (length start) b v k"
  shows "\<exists>b. out' = out @ b \<and> b \<noteq> [] \<and> reads (decode_array element d) (length out) b v k"
proof -
  let ?z = "padding_of (length out + 4) (alignment element)"
  let ?b = "u32_le (of_nat (length b)) @ replicate ?z 0 @ b"
  have start: "start = out @ u32_le 0 @ replicate ?z 0" by (simp add: start_def pad_append)
  have "out' = out @ ?b" unfolding out' start by simp
  moreover have "reads (decode_array element d) (length out) ?b v k"
    using assms(2,3,5) by (intro reads_array) (simp_all add: start ac_simps)
  ultimately show ?thesis by (intro exI [of _ ?b]) (simp add: u32_le_def)
qed

lemma encode_number_Inr:
  "encode_value out TByte v d = Inr out' \<Longrightarrow> \<exists>x. v = VByte x \<and> out' = pad out 1 @ [x]"
  "encode_value out TBool v d = Inr out' \<Longrightarrow> \<exists>x. v = VBool x \<and> out' = pad out 4 @ u32_le (if x then 1 else 0)"
  "encode_value out TInt16 v d = Inr out' \<Longrightarrow> \<exists>x. v = VInt16 x \<and> out' = pad out 2 @ u16_le x"
  "encode_value out TUint16 v d = Inr out' \<Longrightarrow> \<exists>x. v = VUint16 x \<and> out' = pad out 2 @ u16_le x"
  "encode_value out TInt32 v d = Inr out' \<Longrightarrow> \<exists>x. v = VInt32 x \<and> out' = pad out 4 @ u32_le x"
  "encode_value out TUint32 v d = Inr out' \<Longrightarrow> \<exists>x. v = VUint32 x \<and> out' = pad out 4 @ u32_le x"
  "encode_value out TInt64 v d = Inr out' \<Longrightarrow> \<exists>x. v = VInt64 x \<and> out' = pad out 8 @ u64_le x"
  "encode_value out TUint64 v d = Inr out' \<Longrightarrow> \<exists>x. v = VUint64 x \<and> out' = pad out 8 @ u64_le x"
  "encode_value out TDouble v d = Inr out' \<Longrightarrow> \<exists>x. v = VDouble x \<and> out' = pad out 8 @ u64_le x"
  "encode_value out TFd v d = Inr out' \<Longrightarrow> \<exists>x. v = VFd x \<and> out' = pad out 4 @ u32_le x"
  by (cases v; simp add: encode_value.simps split: if_splits)+

lemma encode_text_Inr:
  "encode_value out TStr v d = Inr out' \<Longrightarrow> \<exists>t. v = VStr t \<and> encode_str (pad out 4) t = Inr out'"
  "encode_value out TObjectPath v d = Inr out' \<Longrightarrow>
     \<exists>t. v = VObjectPath t \<and> valid_object_path t \<and> encode_str (pad out 4) t = Inr out'"
  "encode_value out TSignature v d = Inr out' \<Longrightarrow>
     \<exists>t ts. v = VSignature t \<and> parse_signature t = Inr ts \<and> out' = encode_signature (pad out 1) t"
  by (cases v; simp add: encode_value.simps rust_simps split: if_splits; fail)+

lemma encode_depth: "encode_value out ty v d = Inr out' \<Longrightarrow> \<not> d > MAX_DEPTH"
  by (auto simp: encode_value.simps split: if_splits)

lemma value_of_body:
  assumes "encode_value out ty v d = Inr out'"
    and "\<exists>b. out' = pad out (alignment ty) @ b \<and> b \<noteq> [] \<and>
      reads (value_body ty d) (length (pad out (alignment ty))) b v (count v - 1)"
  shows "\<exists>b. out' = out @ b \<and> b \<noteq> [] \<and> reads (decode_value ty d) (length out) b v (count v)"
  using assms(2) by (elim exE conjE) (rule value_from_body [OF encode_depth [OF assms(1)]], simp_all)

lemma encode_number:
  assumes "encode_value out ty v d = Inr out'"
    and "ty \<in> {TByte, TBool, TInt16, TUint16, TInt32, TUint32, TInt64, TUint64, TDouble, TFd}"
  shows "\<exists>b. out' = out @ b \<and> b \<noteq> [] \<and> reads (decode_value ty d) (length out) b v (count v)"
proof -
  have ne: "u16_le x \<noteq> []" "u32_le y \<noteq> []" "u64_le w \<noteq> []" for x y w
    by (simp_all add: u16_le_def u32_le_def u64_le_def)
  have "\<exists>b. out' = pad out (alignment ty) @ b \<and> b \<noteq> [] \<and>
      reads (value_body ty d) (length (pad out (alignment ty))) b v (count v - 1)"
    using assms by (auto dest!: encode_number_Inr simp: ne body_numbers body_bool)
  from value_of_body [OF assms(1) this] show ?thesis .
qed

lemma encode_text:
  assumes "encode_value out ty v d = Inr out'" and "texts_ok v"
    and "ty \<in> {TStr, TObjectPath, TSignature}"
  shows "\<exists>b. out' = out @ b \<and> b \<noteq> [] \<and> reads (decode_value ty d) (length out) b v (count v)"
proof -
  have "\<exists>b. out' = pad out (alignment ty) @ b \<and> b \<noteq> [] \<and>
      reads (value_body ty d) (length (pad out (alignment ty))) b v (count v - 1)"
  proof -
    from assms(3) consider "ty = TStr" | "ty = TObjectPath" | "ty = TSignature" by blast
    then show ?thesis
    proof cases
      case 1
      with encode_text_Inr(1) assms(1) obtain t where t: "v = VStr t" "encode_str (pad out 4) t = Inr out'" by blast
      then have "out' = pad out 4 @ u32_le (of_nat (length t)) @ t @ [0]" by (simp add: encode_str_Inr)
      with t 1 assms(2) body_str [OF t(2)] show ?thesis by simp
    next
      case 2
      with encode_text_Inr(2) assms(1) obtain t where
        t: "v = VObjectPath t" "valid_object_path t" "encode_str (pad out 4) t = Inr out'" by blast
      then have "out' = pad out 4 @ u32_le (of_nat (length t)) @ t @ [0]" by (simp add: encode_str_Inr)
      with t 2 assms(2) body_path [OF t(3)] show ?thesis by simp
    next
      case 3
      with encode_text_Inr(3) assms(1) obtain t ts where
        t: "v = VSignature t" "parse_signature t = Inr ts" "out' = encode_signature (pad out 1) t" by blast
      with 3 body_signature [OF t(2)] show ?thesis by (simp add: encode_signature_def)
    qed
  qed
  from value_of_body [OF assms(1) this] show ?thesis .
qed

lemma encode_array_value: "encode_value out (TArray el) v d = Inr out' \<Longrightarrow> encode_array (pad out 4) el v d = Inr out'"
  by (simp add: encode_value.simps split: if_splits)

lemma encode_struct_value:
  "encode_value out (TStruct ts) v d = Inr out' \<Longrightarrow>
     \<exists>vs. v = VStruct vs \<and> length ts = length vs \<and> encode_fields (pad out 8) ts vs (d + 1) = Inr out'"
  by (cases v) (simp_all add: encode_value.simps split: if_splits)

lemma encode_variant_value:
  "encode_value out TVariant v d = Inr out' \<Longrightarrow>
     \<exists>x sig t. v = VVariant x \<and> signature_of x 0 = Inr sig \<and> parse_signature sig = Inr [t] \<and>
       encode_value (encode_signature (pad out 1) sig) t x (d + 1) = Inr out'"
  by (cases v) (subst (asm) encode_value.simps; auto simp: rust_simps split: if_splits option.splits)+

lemma encode_array_Inr:
  assumes "encode_array out el v d = Inr out'"
  defines "start \<equiv> pad (out @ u32_le 0) (alignment el)"
  obtains out2 where "\<not> MAX_DEPTH \<le> d" "\<not> length out2 - length start > MAX_ARRAY"
    "out' = take (length out) out2 @ u32_le (of_nat (length out2 - length start)) @ drop (length out + 4) out2"
    "(\<exists>bs. el = TByte \<and> v = VByteArray bs \<and> out2 = start @ bs) \<or>
     (\<exists>t es. dict_entry el = Some (TStr, t) \<and> v = VDict es \<and> encode_entries start t es (d + 1) = Inr out2) \<or>
     (\<exists>vs. el \<noteq> TByte \<and> dict_entry el = None \<and> v = VArray vs \<and> encode_items start el vs (d + 1) = Inr out2)"
  using assms(1) that unfolding start_def
  by (cases v; cases "el = TByte"; cases "dict_entry el")
    (auto simp: encode_array.simps Let_def res_bind_eq_Inr split: if_splits)

lemma dict_entry_Some: "dict_entry el = Some (k, t) \<Longrightarrow> el = TDictEntry k t"
  by (auto simp: dict_entry_def split: Type.splits)

lemma array_cases:
  assumes "encode_array out el v d = Inr out'" and "texts_ok v" and "good (TArray el)"
    and items: "\<And>start vs out2. v = VArray vs \<Longrightarrow> list_all texts_ok vs \<Longrightarrow> good el \<Longrightarrow>
      encode_items start el vs (d + 1) = Inr out2 \<Longrightarrow> start = pad (out @ u32_le 0) (alignment el) \<Longrightarrow>
      el \<noteq> TByte \<Longrightarrow> dict_entry el = None \<Longrightarrow>
      \<exists>b. out2 = start @ b \<and> reads (decode_items el (length out2) (d + 1)) (length start) b vs (count_all vs)"
    and entries: "\<And>start t es out2. el = TDictEntry TStr t \<Longrightarrow> v = VDict es \<Longrightarrow>
      list_all (\<lambda>(k, x). utf8_valid k \<and> texts_ok x) es \<Longrightarrow> good t \<Longrightarrow>
      encode_entries start t es (d + 1) = Inr out2 \<Longrightarrow> start = pad (out @ u32_le 0) (alignment el) \<Longrightarrow>
      \<exists>b. out2 = start @ b \<and> reads (decode_entries t (length out2) (d + 1)) (length start) b es (count_entries es)"
  shows "\<exists>b. out' = out @ b \<and> b \<noteq> [] \<and> reads (decode_array el d) (length out) b v (count v - 1)"
proof -
  define start where "start = pad (out @ u32_le 0) (alignment el)"
  from encode_array_Inr [OF assms(1)] obtain out2 where
    o: "\<not> MAX_DEPTH \<le> d" "\<not> length out2 - length start > MAX_ARRAY"
      "out' = take (length out) out2 @ u32_le (of_nat (length out2 - length start)) @ drop (length out + 4) out2"
    and c: "(\<exists>bs. el = TByte \<and> v = VByteArray bs \<and> out2 = start @ bs) \<or>
     (\<exists>t es. dict_entry el = Some (TStr, t) \<and> v = VDict es \<and> encode_entries start t es (d + 1) = Inr out2) \<or>
     (\<exists>vs. el \<noteq> TByte \<and> dict_entry el = None \<and> v = VArray vs \<and> encode_items start el vs (d + 1) = Inr out2)"
    unfolding start_def by blast
  have "\<exists>b. out2 = start @ b \<and>
      reads (decode_elements el (length b) (length start + length b) d) (length start) b v (count v - 1)"
    using c
  proof (elim disjE exE conjE)
    fix bs assume "el = TByte" "v = VByteArray bs" "out2 = start @ bs"
    with elements_bytes show ?thesis by simp
  next
    fix t es assume h: "dict_entry el = Some (TStr, t)" "v = VDict es" "encode_entries start t es (d + 1) = Inr out2"
    then have el: "el = TDictEntry TStr t" by (simp add: dict_entry_Some)
    with good_array [OF assms(3)] have "good t" by (auto simp: good_def)
    with entries [OF el h(2) _ _ h(3) start_def] assms(2) h(2) obtain b where
      "out2 = start @ b" "reads (decode_entries t (length out2) (d + 1)) (length start) b es (count_entries es)" by auto
    with el h(2) elements_entries show ?thesis by auto
  next
    fix vs assume h: "el \<noteq> TByte" "dict_entry el = None" "v = VArray vs" "encode_items start el vs (d + 1) = Inr out2"
    with good_array [OF assms(3)] have "good el" by (auto simp: dict_entry_def)
    with items [OF h(3) _ _ h(4) start_def h(1,2)] assms(2) h(3) obtain b where
      "out2 = start @ b" "reads (decode_items el (length out2) (d + 1)) (length start) b vs (count_all vs)" by auto
    with h elements_items show ?thesis by auto
  qed
  then obtain b where b: "out2 = start @ b"
      "reads (decode_elements el (length b) (length start + length b) d) (length start) b v (count v - 1)" by blast
  with o show ?thesis by (intro array_from_elements [of d b out' out el v]) (simp_all add: start_def)
qed

lemma reads_fields_Cons:
  assumes "reads (decode_value t d) p b x k" and "reads (decode_fields ts d) (p + length b) c xs l"
  shows "reads (decode_fields (t # ts) d) p (b @ c) (x # xs) (k + l)"
  using reads_bind [OF assms(1), of "\<lambda>x r. res_bind (decode_fields ts d r) (\<lambda>(xs, r). Inr (x # xs, r))",
      OF reads_map [OF assms(2), of "Cons x"]]
  by (simp add: reads_def)

lemma encode_reads:
  "encode_value out ty v d = Inr out' \<Longrightarrow> texts_ok v \<Longrightarrow> good ty \<Longrightarrow>
     \<exists>b. out' = out @ b \<and> b \<noteq> [] \<and> reads (decode_value ty d) (length out) b v (count v)"
  "encode_fields out ts vs d = Inr out' \<Longrightarrow> list_all texts_ok vs \<Longrightarrow> list_all good ts \<Longrightarrow> length ts = length vs \<Longrightarrow>
     \<exists>b. out' = out @ b \<and> (ts \<noteq> [] \<longrightarrow> b \<noteq> []) \<and> reads (decode_fields ts d) (length out) b vs (count_all vs)"
  "encode_array out ty v d = Inr out' \<Longrightarrow> texts_ok v \<Longrightarrow> good (TArray ty) \<Longrightarrow>
     \<exists>b. out' = out @ b \<and> b \<noteq> [] \<and> reads (decode_array ty d) (length out) b v (count v - 1)"
  "encode_items out ty vs d = Inr out' \<Longrightarrow> list_all texts_ok vs \<Longrightarrow> good ty \<Longrightarrow>
     \<exists>b. out' = out @ b \<and> reads (decode_items ty (length out') d) (length out) b vs (count_all vs)"
  "encode_entries out ty es d = Inr out' \<Longrightarrow> list_all (\<lambda>(k, x). utf8_valid k \<and> texts_ok x) es \<Longrightarrow> good ty \<Longrightarrow>
     \<exists>b. out' = out @ b \<and> reads (decode_entries ty (length out') d) (length out) b es (count_entries es)"
proof (induction out ty v d and out ts vs d and out ty v d and out ty vs d and out ty es d
    arbitrary: out' and out' and out' and out' and out'
    rule: encode_value_encode_fields_encode_array_encode_items_encode_entries.induct)
  case (1 out ty v depth)
  note d = encode_depth [OF "1.prems"(1)]
  show ?case
  proof (cases ty)
    case (TArray el)
    have al: "pad out 4 = pad out (alignment ty)" by (simp add: TArray)
    from "1.IH"(1) [OF d al refl TArray encode_array_value [OF "1.prems"(1) [unfolded TArray]] "1.prems"(2)
        "1.prems"(3) [unfolded TArray]]
    obtain b where b: "out' = pad out 4 @ b" "b \<noteq> []" "reads (decode_array el depth) (length (pad out 4)) b v (count v - 1)"
      by blast
    from value_of_body [OF "1.prems"(1)] b(1,2) body_containers(1) [OF b(3)] show ?thesis
      unfolding al unfolding TArray by blast
  next
    case (TStruct ts)
    have al: "pad out 8 = pad out (alignment ty)" by (simp add: TStruct)
    from encode_struct_value [OF "1.prems"(1) [unfolded TStruct]] obtain vs where
      vs: "v = VStruct vs" "length ts = length vs" "encode_fields (pad out 8) ts vs (depth + 1) = Inr out'"
      by blast
    have ts: "ts \<noteq> []" "list_all good ts" using good_struct [OF "1.prems"(3) [unfolded TStruct]] by blast+
    have "list_all texts_ok vs" using "1.prems"(2) vs(1) by simp
    from "1.IH"(2) [OF d al refl TStruct vs(1) _ vs(3) this ts(2) vs(2)] ts(1) vs(2) obtain b where
      b: "out' = pad out 8 @ b" "b \<noteq> []" "reads (decode_fields ts (depth + 1)) (length (pad out 8)) b vs (count_all vs)"
      by blast
    have "reads (value_body (TStruct ts) depth) (length (pad out 8)) b v (count v - 1)"
      using body_containers(2) [OF b(3)] vs(1) by simp
    with value_of_body [OF "1.prems"(1)] b(1,2) show ?thesis unfolding al unfolding TStruct by blast
  next
    case TVariant
    have al: "pad out 1 = pad out (alignment ty)" by (simp add: TVariant)
    from encode_variant_value [OF "1.prems"(1) [unfolded TVariant]] obtain x sig t where
      x: "v = VVariant x" "parse_signature sig = Inr [t]"
        "encode_value (encode_signature (pad out 1) sig) t x (depth + 1) = Inr out'"
      by blast
    have g: "good t" "texts_ok x" using good_signature [OF x(2)] "1.prems"(2) x(1) by simp_all
    from "1.IH"(3) [OF d al refl TVariant x(1) _ x(3) g(2,1), of "[t]"] obtain b where
      b: "out' = encode_signature (pad out 1) sig @ b"
        "reads (decode_value t (depth + 1)) (length (encode_signature (pad out 1) sig)) b x (count x)"
      by auto
    let ?b = "(of_nat (length sig) # sig @ [0]) @ b"
    have "reads (value_body TVariant depth) (length (pad out 1)) ?b (VVariant x) (count x)"
      using b(2) by (intro body_variant [OF x(2)]) (simp add: encode_signature_def ac_simps)
    then have "reads (value_body TVariant depth) (length (pad out 1)) ?b v (count v - 1)"
      using x(1) by simp
    moreover have "out' = pad out 1 @ ?b" "?b \<noteq> []" using b(1) by (simp_all add: encode_signature_def)
    ultimately show ?thesis using value_of_body [OF "1.prems"(1)] unfolding al unfolding TVariant by blast
  next
    case TDictEntry
    with "1.prems"(3) show ?thesis by (simp add: good_def)
  qed ((rule encode_number [OF "1.prems"(1)], simp; fail) | (rule encode_text [OF "1.prems"(1,2)], simp; fail))+
next
  case (2 out t ts v vs depth)
  from "2.prems"(1) obtain out1 where o: "encode_value out t v depth = Inr out1" "encode_fields out1 ts vs depth = Inr out'"
    by (auto simp: rust_simps)
  from "2.IH"(1) [OF o(1)] "2.prems"(2,3) obtain b where
    b: "out1 = out @ b" "b \<noteq> []" "reads (decode_value t depth) (length out) b v (count v)" by auto
  from "2.IH"(2) [OF o(2)] "2.prems" obtain c where
    c: "out' = out1 @ c" "reads (decode_fields ts depth) (length out1) c vs (count_all vs)" by auto
  have "reads (decode_fields (t # ts) depth) (length out) (b @ c) (v # vs) (count v + count_all vs)"
    using b c by (intro reads_fields_Cons) simp_all
  with b c show ?case by (intro exI [of _ "b @ c"]) (simp del: decode_fields.simps)
next
  case "3_1"
  then show ?case by (simp add: reads_def)
next
  case "3_2"
  then show ?case by (simp add: reads_def)
next
  case (4 out element v depth)
  have d: "\<not> MAX_DEPTH \<le> depth" by (rule encode_array_Inr [OF "4.prems"(1)])
  show ?case
  proof (rule array_cases [OF "4.prems"])
    fix start vs out2
    assume "v = VArray vs" "list_all texts_ok vs" "good element" "encode_items start element vs (depth + 1) = Inr out2"
      "start = pad (out @ u32_le 0) (alignment element)" "element \<noteq> TByte" "dict_entry element = None"
    then show "\<exists>b. out2 = start @ b \<and>
        reads (decode_items element (length out2) (depth + 1)) (length start) b vs (count_all vs)"
      using "4.IH"(1) [OF d refl refl] by blast
  next
    fix start t es out2
    assume "element = TDictEntry TStr t" "v = VDict es" "list_all (\<lambda>(k, x). utf8_valid k \<and> texts_ok x) es" "good t"
      "encode_entries start t es (depth + 1) = Inr out2" "start = pad (out @ u32_le 0) (alignment element)"
    then show "\<exists>b. out2 = start @ b \<and>
        reads (decode_entries t (length out2) (depth + 1)) (length start) b es (count_entries es)"
      using "4.IH"(2) [OF d refl refl, of start "length start" "(TStr, t)" TStr t] by (simp add: dict_entry_def)
  qed
next
  case (5 out element depth)
  then show ?case by (simp add: reads_items_Nil)
next
  case (6 out element v vs depth)
  from "6.prems"(1) obtain out1 where o: "encode_value out element v depth = Inr out1"
      "encode_items out1 element vs depth = Inr out'"
    by (auto simp: rust_simps)
  from "6.IH"(1) [OF o(1)] "6.prems"(2,3) obtain b where
    b: "out1 = out @ b" "b \<noteq> []" "reads (decode_value element depth) (length out) b v (count v)" by auto
  from "6.IH"(2) [OF o(2)] "6.prems" obtain c where
    c: "out' = out1 @ c" "reads (decode_items element (length out') depth) (length out1) c vs (count_all vs)" by auto
  have "reads (decode_items element (length out') depth) (length out) (b @ c) (v # vs) (count v + count_all vs)"
    using b c by (intro reads_items_Cons) simp_all
  with b c show ?case by (intro exI [of _ "b @ c"]) simp
next
  case (7 out entry depth)
  then show ?case by (simp add: reads_entries_Nil)
next
  case (8 out entry key v es depth)
  from "8.prems"(1) obtain out0 out1 where o: "encode_str (pad out 8) key = Inr out0"
      "encode_value out0 entry v depth = Inr out1" "encode_entries out1 entry es depth = Inr out'"
    by (auto simp: rust_simps)
  let ?z = "padding_of (length out) 8" and ?s = "u32_le (of_nat (length key)) @ key @ [0]"
  have out0: "out0 = out @ replicate ?z 0 @ ?s" using o(1) by (simp add: encode_str_Inr pad_append)
  have key: "reads rd_string (length out + ?z) ?s key 0"
    using o(1) "8.prems"(2) by (intro reads_string) (simp_all add: encode_str_Inr)
  from "8.IH"(1) [OF o(2)] "8.prems"(2,3) obtain b where
    b: "out1 = out0 @ b" "reads (decode_value entry depth) (length out0) b v (count v)" by auto
  from "8.IH"(2) [OF o(3)] "8.prems" obtain c where
    c: "out' = out1 @ c" "reads (decode_entries entry (length out') depth) (length out1) c es (count_entries es)" by auto
  have "reads (decode_entries entry (length out') depth) (length out) (replicate ?z 0 @ ?s @ b @ c)
      ((key, v) # es) (Suc (count v + count_entries es))"
    using b c out0 key by (intro reads_entries_Cons) (simp_all add: ac_simps)
  with b c out0 show ?case by (intro exI [of _ "replicate ?z 0 @ ?s @ b @ c"]) simp
qed

lemma encoded_reads_back:
  assumes "dbus_encode sig vs = Inr b" and "list_all texts_ok vs" and "count_all vs \<le> MAX_VALUES"
    and "length b \<le> usize_max"
  shows "dbus_decode sig b = Inr vs"
proof -
  from assms(1) obtain ts where ts: "parse_signature sig = Inr ts" "length ts = length vs" "encode_fields [] ts vs 0 = Inr b"
    by (auto simp: dbus_encode_def rust_simps split: if_splits)
  from encode_reads(2) [OF ts(3) assms(2) good_signature [OF ts(1)] ts(2)]
  have "reads (decode_fields ts 0) 0 b vs (count_all vs)" by simp
  from readsD [OF this, of "[]" "[]" 0] assms(3,4)
  have "decode_fields ts 0 (rdr b 0 0) = Inr (vs, rdr b (length b) (count_all vs))" by simp
  moreover have "reader_new b = rdr b 0 0" by (simp add: reader_new_def rdr_def)
  ultimately show ?thesis using ts(1) by (simp add: dbus_decode_def)
qed

text \<open>C36. What is marshalled is read back: values whose text is UTF-8 and that stay within the value budget,
  encoded against a signature, decode under the same signature to exactly those values, with
  nothing left over.\<close>

theorem dbus_roundtrip:
  assumes "dbus_encode sig vs = Inr b" and "list_all texts_ok vs" and "count_all vs \<le> MAX_VALUES"
    and "length b \<le> usize_max"
  shows "dbus_decode sig b = Inr vs"
  using assms by (rule encoded_reads_back)

theorem dbus_roundtrip_witness:
  "\<exists>b. dbus_encode (str ''aqv'') [VArray [VUint16 7], VVariant (VByte 1)] = Inr b \<and>
     dbus_decode (str ''aqv'') b = Inr [VArray [VUint16 7], VVariant (VByte 1)]"
proof -
  let ?sig = "str ''aqv''" and ?vs = "[VArray [VUint16 7], VVariant (VByte 1)]"
  have "parse_signature ?sig = Inr [TArray TUint16, TVariant]"
    by (simp add: parse_signature_Inr parse_all_iff MAX_SIGNATURE_def MAX_CONTAINER_DEPTH_def)
  moreover have "parse_signature (str ''y'') = Inr [TByte]"
    by (simp add: parse_signature_Inr parse_all_iff MAX_SIGNATURE_def)
  ultimately obtain b where b: "dbus_encode ?sig ?vs = Inr b" "length b \<le> 20"
    by (simp add: dbus_encode_def encode_value.simps encode_array.simps signature_of.simps
        encode_signature_def pad_def padding_of_def u32_le_def u16_le_def MAX_DEPTH_def MAX_ARRAY_def
        dict_entry_def single_def)
  have "list_all texts_ok ?vs" "count_all ?vs \<le> MAX_VALUES" "length b \<le> usize_max"
    using b(2) by (simp_all add: MAX_VALUES_def usize_max_def)
  from dbus_roundtrip [OF b(1) this] b(1) show ?thesis by blast
qed

section \<open>What a peer can make the decoder build\<close>

fun nesting :: "Value \<Rightarrow> nat" and nesting_all :: "Value list \<Rightarrow> nat" and nesting_entries :: "(bytes \<times> Value) list \<Rightarrow> nat" where
  "nesting (VArray xs) = Suc (nesting_all xs)"
| "nesting (VStruct xs) = Suc (nesting_all xs)"
| "nesting (VDict es) = Suc (nesting_entries es)"
| "nesting (VVariant x) = Suc (nesting x)"
| "nesting _ = 1"
| "nesting_all [] = 0"
| "nesting_all (x # xs) = max (nesting x) (nesting_all xs)"
| "nesting_entries [] = 0"
| "nesting_entries ((_, x) # es) = max (nesting x) (nesting_entries es)"

text \<open>What holds of a value read at depth \<open>d\<close> from \<open>r\<close> to \<open>r'\<close>.\<close>

definition bounded :: "nat \<Rightarrow> nat \<Rightarrow> nat \<Rightarrow> Reader \<Rightarrow> Reader \<Rightarrow> bool" where
  "bounded d c n r r' \<longleftrightarrow> rd_values r' = rd_values r + c \<and> d + n \<le> MAX_DEPTH + 1 \<and>
     (rd_values r \<le> MAX_VALUES \<longrightarrow> rd_values r' \<le> MAX_VALUES)"

lemma bounded_then: "bounded d c n r r1 \<Longrightarrow> bounded d c' n' r1 r' \<Longrightarrow> bounded d (c + c') (max n n') r r'"
  by (auto simp: bounded_def)

lemma bounded_moved: "moved r r1 \<Longrightarrow> bounded d c n r1 r' \<Longrightarrow> bounded d c n r r'"
  by (auto simp: bounded_def moved_def)

lemma bounded_counted: "rd_value r = Inr r1 \<Longrightarrow> bounded d c n r1 r' \<Longrightarrow> bounded d (Suc c) n r r'"
  by (auto simp: bounded_def rd_value_Inr)

lemma bounded_inner: "bounded (d + 1) c n r r' \<Longrightarrow> bounded d c (Suc n) r r'"
  by (auto simp: bounded_def)

lemma rd_text_valid: "rd_text n r = Inr (t, r') \<Longrightarrow> utf8_valid t"
  by (auto simp: rd_text_def rust_simps split: if_splits)

lemma rd_string_valid: "rd_string r = Inr (t, r') \<Longrightarrow> utf8_valid t"
  by (auto simp: rd_string_def rust_simps dest: rd_text_valid)

lemma rd_signature_valid: "rd_signature r = Inr (st, r') \<Longrightarrow> utf8_valid (fst st) \<and> parse_signature (fst st) = Inr (snd st)"
  by (auto simp: rd_signature_def rust_simps dest: rd_text_valid)

lemma moved_values: "moved r r' \<Longrightarrow> rd_values r' = rd_values r"
  by (simp add: moved_def)

lemma body_number_bounded:
  assumes "value_body ty d r = Inr (v, r')" and "\<not> MAX_DEPTH < d"
    and "\<forall>t. ty \<noteq> TArray t" "\<forall>ts. ty \<noteq> TStruct ts" "ty \<noteq> TVariant"
  shows "texts_ok v \<and> bounded d (count v - 1) (nesting v) r r'"
proof -
  have "moved r r'" using assms by (cases ty) (auto simp: value_body_def rust_simps split: if_splits dest: readers_moved)
  moreover have "texts_ok v" "count v = 1" "nesting v = 1"
    using assms by (cases ty; auto simp: value_body_def rust_simps split: if_splits
        dest: rd_string_valid rd_signature_valid)+
  ultimately show ?thesis using assms(2) by (auto simp: bounded_def moved_def)
qed

lemma decode_bounded:
  "decode_value ty d r = Inr (v, r') \<Longrightarrow> texts_ok v \<and> bounded d (count v) (nesting v) r r'"
  "decode_fields ts d r = Inr (vs, r') \<Longrightarrow> d \<le> MAX_DEPTH + 1 \<Longrightarrow>
     list_all texts_ok vs \<and> bounded d (count_all vs) (nesting_all vs) r r'"
  "decode_array ty d r = Inr (v, r') \<Longrightarrow> texts_ok v \<and> bounded d (count v - 1) (nesting v) r r'"
  "decode_items ty e d r = Inr (vs, r') \<Longrightarrow> d \<le> MAX_DEPTH + 1 \<Longrightarrow>
     list_all texts_ok vs \<and> bounded d (count_all vs) (nesting_all vs) r r'"
  "decode_entries ty e d r = Inr (es, r') \<Longrightarrow> d \<le> MAX_DEPTH + 1 \<Longrightarrow>
     list_all (\<lambda>(k, x). utf8_valid k \<and> texts_ok x) es \<and> bounded d (count_entries es) (nesting_entries es) r r'"
proof (induction ty d r and ts d r and ty d r and ty e d r and ty e d r
    arbitrary: v r' and vs r' and v r' and vs r' and es r'
    rule: decode_value_decode_fields_decode_array_decode_items_decode_entries.induct)
  case (1 ty depth r)
  from "1.prems" obtain r1 r2 where r: "\<not> MAX_DEPTH < depth" "rd_value r = Inr r1" "rd_align (alignment ty) r1 = Inr r2"
      and body: "value_body ty depth r2 = Inr (v, r')"
    by (auto simp: decode_value_body rust_simps split: if_splits)
  have "texts_ok v \<and> bounded depth (count v - 1) (nesting v) r2 r'"
  proof -
    consider t where "ty = TArray t" | ts where "ty = TStruct ts" | "ty = TVariant"
      | "\<forall>t. ty \<noteq> TArray t" "\<forall>ts. ty \<noteq> TStruct ts" "ty \<noteq> TVariant" by blast
    then show ?thesis
    proof cases
      case (1 t)
      with body "1.IH"(1) [OF r] show ?thesis by (simp add: value_body_def)
    next
      case (2 ts)
      with body obtain vs where "v = VStruct vs" "decode_fields ts (depth + 1) r2 = Inr (vs, r')"
        by (auto simp: value_body_def rust_simps)
      with "1.IH"(2) [OF r 2, of vs r'] r(1) bounded_inner show ?thesis by auto
    next
      case 3
      with body obtain st r3 t x where x: "rd_signature r2 = Inr (st, r3)" "single (snd st) = Some t" "v = VVariant x"
          "decode_value t (depth + 1) r3 = Inr (x, r')"
        by (auto simp: value_body_def rust_simps split: option.splits)
      from "1.IH"(3) [OF r 3 x(1) refl x(2,4)] rd_signature_moved [OF x(1)] x(3) show ?thesis
        by (auto intro: bounded_moved bounded_inner [simplified])
    next
      case 4
      with body_number_bounded [OF body r(1)] show ?thesis by blast
    qed
  qed
  with bounded_counted [OF r(2) bounded_moved [OF reads_moved(1) [OF r(3)]], of depth "count v - 1" "nesting v" r']
  show ?case by simp
next
  case (2 depth r)
  then show ?case by (simp add: bounded_def)
next
  case (3 t ts depth r)
  from "3.prems"(1) obtain x r1 xs where x: "decode_value t depth r = Inr (x, r1)"
      "decode_fields ts depth r1 = Inr (xs, r')" "vs = x # xs"
    by (auto simp: rust_simps)
  from "3.IH"(1) [OF x(1)] "3.IH"(2) [OF x(1) refl x(2) "3.prems"(2)] x(3) show ?case
    by (auto intro: bounded_then)
next
  case (4 element depth r)
  from "4.prems" obtain len r1 r2 end_at where
    a: "\<not> MAX_DEPTH \<le> depth" "rd_uint32 r = Inr (len, r1)" "\<not> MAX_ARRAY < unat len"
       "rd_align (alignment element) r1 = Inr r2"
       "ok_or Truncated (checked_add (rd_at r2) (unat len)) = Inr end_at" "\<not> length (rd_buf r2) < end_at"
       and els: "decode_elements element (unat len) end_at depth r2 = Inr (v, r')"
    by (auto simp: decode_array_elements res_bind_eq_Inr split: if_splits)
  note step = a(1,2) refl a(3-6)
  have m: "moved r r2" by (rule moved_trans [OF reads_moved(4) [OF a(2)] reads_moved(1) [OF a(4)]])
  consider "element = TByte" | k t where "element \<noteq> TByte" "dict_entry element = Some (k, t)"
    | "element \<noteq> TByte" "dict_entry element = None" by fastforce
  then have "texts_ok v \<and> bounded depth (count v - 1) (nesting v) r2 r'"
  proof cases
    case 1
    with els a(1) show ?thesis
      by (auto simp: decode_elements_def res_bind_eq_Inr bounded_def rd_take_Inr)
  next
    case (2 k t)
    with els obtain es where e: "k = TStr" "v = VDict es" "decode_entries t end_at (depth + 1) r2 = Inr (es, r')"
      by (auto simp: decode_elements_def res_bind_eq_Inr split: if_splits)
    from "4.IH"(2) [OF step 2(1,2) refl _ e(3)] e(1,2) a(1) bounded_inner show ?thesis by auto
  next
    case 3
    with els obtain vs where e: "v = VArray vs" "decode_items element end_at (depth + 1) r2 = Inr (vs, r')"
      by (auto simp: decode_elements_def res_bind_eq_Inr)
    from "4.IH"(1) [OF step 3 e(2)] e(1) a(1) bounded_inner show ?thesis by auto
  qed
  with bounded_moved [OF m] show ?case by blast
next
  case (5 element end_at depth r)
  show ?case
  proof (cases "rd_at r < end_at")
    case True
    with "5.prems"(1) obtain x r1 xs where x: "decode_value element depth r = Inr (x, r1)" "\<not> end_at < rd_at r1"
        "decode_items element end_at depth r1 = Inr (xs, r')" "vs = x # xs"
      by (subst (asm) decode_items.simps) (auto simp: rust_simps split: if_splits)
    from True "5.IH"(1) [OF _ x(1)] "5.IH"(2) [OF _ x(1) refl x(2,3) "5.prems"(2)] x(4) show ?thesis
      by (auto intro: bounded_then)
  next
    case False
    with "5.prems" show ?thesis by (simp add: decode_items.simps bounded_def)
  qed
next
  case (6 entry end_at depth r)
  show ?case
  proof (cases "rd_at r < end_at")
    case True
    with "6.prems"(1) obtain r1 r2 key r3 x r4 fs where
      s: "rd_value r = Inr r1" "rd_align 8 r1 = Inr r2" "rd_string r2 = Inr (key, r3)"
         "decode_value entry depth r3 = Inr (x, r4)" "\<not> end_at < rd_at r4"
         "decode_entries entry end_at depth r4 = Inr (fs, r')" "es = (key, x) # fs"
      by (subst (asm) decode_entries.simps) (auto simp: rust_simps split: if_splits)
    have m: "moved r1 r3" by (rule moved_trans [OF reads_moved(1) [OF s(2)] rd_string_moved [OF s(3)]])
    have x: "texts_ok x \<and> bounded depth (count x) (nesting x) r3 r4"
      using True by (intro "6.IH"(1) [OF _ s(1-3) refl s(4)]) simp
    have fs: "list_all (\<lambda>(k, x). utf8_valid k \<and> texts_ok x) fs \<and>
        bounded depth (count_entries fs) (nesting_entries fs) r4 r'"
      using True by (intro "6.IH"(2) [OF _ s(1-3) refl s(4) refl s(5,6) "6.prems"(2)]) simp
    have "bounded depth (Suc (count x + count_entries fs)) (max (nesting x) (nesting_entries fs)) r r'"
      by (rule bounded_counted [OF s(1) bounded_moved [OF m bounded_then [OF conjunct2 [OF x] conjunct2 [OF fs]]]])
    with x fs rd_string_valid [OF s(3)] show ?thesis unfolding s(7) by simp
  next
    case False
    with "6.prems" show ?thesis by (simp add: decode_entries.simps bounded_def)
  qed
qed

text \<open>C37. Whatever bytes a peer sends, a block that decodes holds at most \<open>MAX_VALUES\<close> values, nested at most
  one level deeper than \<open>MAX_DEPTH\<close>, and every text in it is UTF-8.\<close>

theorem dbus_decode_bounds:
  assumes "dbus_decode sig body = Inr vs"
  shows "list_all texts_ok vs \<and> count_all vs \<le> MAX_VALUES \<and> nesting_all vs \<le> MAX_DEPTH + 1"
proof -
  from assms obtain ts r where "decode_fields ts 0 (reader_new body) = Inr (vs, r)"
    by (auto simp: dbus_decode_def rust_simps split: if_splits)
  from decode_bounded(2) [OF this] show ?thesis by (simp add: bounded_def reader_new_def)
qed

theorem dbus_decode_bounds_witness:
  "dbus_decode (str ''y'') [7] = Inr [VByte 7] \<and> count_all [VByte 7] \<le> MAX_VALUES \<and>
     nesting_all [VByte 7] \<le> MAX_DEPTH + 1"
proof -
  have "parse_signature (str ''y'') = Inr [TByte]"
    using parse_all_iff [of "str ''y''" "[TByte]"] by (simp add: parse_signature_def MAX_SIGNATURE_def)
  then have "dbus_decode (str ''y'') [7] = Inr [VByte 7]"
    by (simp add: dbus_decode_def reader_new_def decode_value.simps rd_value_def rd_align_def rd_take_def rd_byte_def
        padding_of_def checked_add_def usize_max_def get_range_def MAX_VALUES_def MAX_DEPTH_def)
  from dbus_decode_bounds [OF this] this show ?thesis by blast
qed

end
