(* ===== verification/Dbus_Message.thy ===== *)
theory Dbus_Message
  imports Dbus_Codec
begin

text \<open>
  Whole messages of \<^verbatim>\<open>dbus_wire.rs\<close>: \<open>encode_message\<close>, the framing read off the fixed header, and
  \<open>decode_message\<close> with its header fields.
\<close>

definition PROTOCOL_VERSION :: byte where
  "PROTOCOL_VERSION = 1"

definition FIXED_HEADER :: nat where
  "FIXED_HEADER = 16"

definition MAX_MESSAGE :: nat where
  "MAX_MESSAGE = 2 ^ 27"

definition MAX_INCOMING :: nat where
  "MAX_INCOMING = 16 * 2 ^ 20"

definition MSG_METHOD_CALL :: byte where "MSG_METHOD_CALL = 1"
definition MSG_METHOD_RETURN :: byte where "MSG_METHOD_RETURN = 2"
definition MSG_ERROR :: byte where "MSG_ERROR = 3"
definition FIELD_PATH :: byte where "FIELD_PATH = 1"
definition FIELD_INTERFACE :: byte where "FIELD_INTERFACE = 2"
definition FIELD_MEMBER :: byte where "FIELD_MEMBER = 3"
definition FIELD_ERROR_NAME :: byte where "FIELD_ERROR_NAME = 4"
definition FIELD_REPLY_SERIAL :: byte where "FIELD_REPLY_SERIAL = 5"
definition FIELD_DESTINATION :: byte where "FIELD_DESTINATION = 6"
definition FIELD_SENDER :: byte where "FIELD_SENDER = 7"
definition FIELD_SIGNATURE :: byte where "FIELD_SIGNATURE = 8"
definition FIELD_UNIX_FDS :: byte where "FIELD_UNIX_FDS = 9"

record Message =
  me_kind :: byte
  me_reply_serial :: "u32 option"
  me_error_name :: "bytes option"
  me_sender :: "bytes option"
  me_signature :: bytes
  me_unix_fds :: u32
  me_body :: bytes

definition HEADER :: bytes where
  "HEADER = str ''yyyyuua(yv)''"

definition field_value :: "byte \<times> Value \<Rightarrow> Value" where
  "field_value f = VStruct [VByte (fst f), VVariant (snd f)]"

definition encode_message :: "byte \<Rightarrow> byte \<Rightarrow> u32 \<Rightarrow> (byte \<times> Value) list \<Rightarrow> bytes \<Rightarrow> WireError + bytes" where
  "encode_message mtype flags serial fs body =
     (if length body > MAX_MESSAGE then Inl (MessageTooLong (length body))
      else
        res_bind
          (dbus_encode HEADER
             [VByte (of_char CHR ''l''), VByte mtype, VByte flags, VByte PROTOCOL_VERSION,
              VUint32 (of_nat (length body)), VUint32 serial, VArray (map field_value fs)])
          (\<lambda>message.
             let message = pad message 8 @ body in
             if length message > MAX_MESSAGE then Inl (MessageTooLong (length message)) else Inr message))"

definition u32_at :: "bytes \<Rightarrow> nat \<Rightarrow> u32" where
  "u32_at b i = le_u32 (b ! i) (b ! (i + 1)) (b ! (i + 2)) (b ! (i + 3))"

definition frame :: "bytes \<Rightarrow> WireError + nat \<times> nat" where
  "frame buf =
     res_bind (ok_or Truncated (get_range buf 0 FIXED_HEADER)) (\<lambda>head.
       if head ! 0 \<noteq> of_char CHR ''l'' then Inl (Endianness (head ! 0))
       else if head ! 3 \<noteq> PROTOCOL_VERSION then Inl (BadMessage (str ''a message of an unknown version''))
       else
         let body_len = unat (u32_at head 4); fields_len = unat (u32_at head 12) in
         if fields_len > MAX_ARRAY then Inl (ArrayTooLong fields_len)
         else if body_len > MAX_INCOMING then Inl (MessageTooLong body_len)
         else
           let body_at = align_up (FIXED_HEADER + fields_len) 8 in
           res_bind (ok_or (MessageTooLong body_len) (checked_add body_at body_len)) (\<lambda>total.
             if total > MAX_INCOMING then Inl (MessageTooLong total) else Inr (body_at, body_len)))"

definition is_field :: "byte \<Rightarrow> bool" where
  "is_field c \<longleftrightarrow> c \<in> {FIELD_PATH, FIELD_INTERFACE, FIELD_MEMBER, FIELD_ERROR_NAME, FIELD_REPLY_SERIAL,
     FIELD_DESTINATION, FIELD_SENDER, FIELD_SIGNATURE, FIELD_UNIX_FDS}"

definition wrong_type :: WireError where
  "wrong_type = BadMessage (str ''a header field of the wrong type'')"

text \<open>One header field, into the message gathered so far.\<close>

definition take_field :: "byte \<Rightarrow> Value \<Rightarrow> Message \<Rightarrow> WireError + Message" where
  "take_field code v m =
     (case v of
        VUint32 x \<Rightarrow>
          if code = FIELD_REPLY_SERIAL then Inr (m\<lparr>me_reply_serial := Some x\<rparr>)
          else if code = FIELD_UNIX_FDS then Inr (m\<lparr>me_unix_fds := x\<rparr>)
          else if is_field code then Inl wrong_type else Inr m
      | VStr x \<Rightarrow>
          if code = FIELD_ERROR_NAME then Inr (m\<lparr>me_error_name := Some x\<rparr>)
          else if code = FIELD_SENDER then Inr (m\<lparr>me_sender := Some x\<rparr>)
          else if code \<in> {FIELD_INTERFACE, FIELD_MEMBER, FIELD_DESTINATION} then Inr m
          else if is_field code then Inl wrong_type else Inr m
      | VSignature x \<Rightarrow>
          if code = FIELD_SIGNATURE then Inr (m\<lparr>me_signature := x\<rparr>)
          else if is_field code then Inl wrong_type else Inr m
      | VObjectPath _ \<Rightarrow>
          if code = FIELD_PATH then Inr m else if is_field code then Inl wrong_type else Inr m
      | _ \<Rightarrow> if is_field code then Inl wrong_type else Inr m)"

definition field_pair :: "Value \<Rightarrow> (byte \<times> Value) option" where
  "field_pair f =
     (case f of
        VStruct xs \<Rightarrow>
          (case xs of
             [a, b] \<Rightarrow>
               (case a of VByte code \<Rightarrow> (case b of VVariant v \<Rightarrow> Some (code, v) | _ \<Rightarrow> None) | _ \<Rightarrow> None)
           | _ \<Rightarrow> None)
      | _ \<Rightarrow> None)"

fun take_fields :: "Value list \<Rightarrow> byte list \<Rightarrow> Message \<Rightarrow> WireError + Message" where
  "take_fields [] seen m = Inr m"
| "take_fields (f # fs) seen m =
     (case field_pair f of
        None \<Rightarrow> Inl (BadMessage (str ''a header field it could not read''))
      | Some (code, v) \<Rightarrow>
          if code \<in> set seen then Inl (BadMessage (str ''a header field twice''))
          else res_bind (take_field code v m) (take_fields fs (seen @ [code])))"

definition header_parts :: "Value list \<Rightarrow> (byte \<times> Value list) option" where
  "header_parts vs =
     (if length vs \<noteq> 7 then None
      else case vs ! 1 of VByte mtype \<Rightarrow> (case vs ! 6 of VArray fs \<Rightarrow> Some (mtype, fs) | _ \<Rightarrow> None) | _ \<Rightarrow> None)"

definition decode_message :: "bytes \<Rightarrow> WireError + Message" where
  "decode_message message =
     res_bind (frame message) (\<lambda>(body_at, body_len).
       let fields_end = FIXED_HEADER + unat (u32_at message 12) in
       res_bind (ok_or Truncated (get_range message 0 fields_end)) (\<lambda>header.
       res_bind (dbus_decode HEADER header) (\<lambda>values.
         case header_parts values of
           Some (mtype, fs) \<Rightarrow>
             res_bind (ok_or Truncated (get_range message fields_end body_at)) (\<lambda>padding.
             if \<exists>b \<in> set padding. b \<noteq> 0 then Inl Padding
             else
               res_bind (ok_or Truncated (get_range message body_at (body_at + body_len))) (\<lambda>body.
               res_bind
                 (take_fields fs []
                    \<lparr>me_kind = mtype, me_reply_serial = None, me_error_name = None, me_sender = None,
                     me_signature = [], me_unix_fds = 0, me_body = body\<rparr>)
                 (\<lambda>m. if me_signature m = [] \<and> body \<noteq> [] then Inl (BadMessage (str ''a body with no signature''))
                      else Inr m)))
         | None \<Rightarrow> Inl (BadMessage (str ''a header it could not read'')))))"

section \<open>The layout of an encoded message\<close>

lemma encode_items_extends:
  "encode_items out t vs d = Inr out' \<Longrightarrow> list_all texts_ok vs \<Longrightarrow> good t \<Longrightarrow> \<exists>b. out' = out @ b"
  using encode_reads(4) by blast

lemma header_types:
  "parse_signature HEADER = Inr [TByte, TByte, TByte, TByte, TUint32, TUint32, TArray (TStruct [TByte, TVariant])]"
  by (simp add: parse_signature_Inr parse_all_iff HEADER_def MAX_SIGNATURE_def MAX_CONTAINER_DEPTH_def)

text \<open>The header is its sixteen fixed bytes, the last four counting the field bytes behind them.\<close>

lemma header_layout:
  assumes "dbus_encode HEADER [VByte e, VByte mtype, VByte flags, VByte ver, VUint32 blen, VUint32 serial, VArray fs] = Inr h"
    and "list_all texts_ok fs"
  shows "\<exists>b. h = [e, mtype, flags, ver] @ u32_le blen @ u32_le serial @ u32_le (of_nat (length b)) @ b \<and>
    length b \<le> MAX_ARRAY"
proof -
  let ?t = "TStruct [TByte, TVariant]" and ?out = "[e, mtype, flags, ver] @ u32_le blen @ u32_le serial"
  have "encode_array ?out ?t (VArray fs) 0 = Inr h"
    using assms(1) header_types
    by (simp add: dbus_encode_def encode_value.simps pad_def padding_of_def MAX_DEPTH_def rust_simps)
  then obtain out2 where o: "\<not> length out2 - 16 > MAX_ARRAY"
      "h = take 12 out2 @ u32_le (of_nat (length out2 - 16)) @ drop 16 out2"
      "encode_items (?out @ u32_le 0) ?t fs 1 = Inr out2"
    by (elim encode_array_Inr) (auto simp: pad_def padding_of_def dict_entry_def)
  have "good ?t" by (auto simp: good_def MAX_CONTAINER_DEPTH_def intro!: exI [of _ 0])
  from encode_items_extends [OF o(3) assms(2) this] obtain b where "out2 = (?out @ u32_le 0) @ b" by blast
  with o show ?thesis by (intro exI [of _ b]) simp
qed

lemma u32_at_append: "length pre = i \<Longrightarrow> u32_at (pre @ u32_le x @ rest) i = x"
  by (auto simp: u32_at_def u32_le_def nth_append)

lemma align_up_pad: "0 < a \<Longrightarrow> align_up n a = n + padding_of n a"
proof -
  assume "0 < a"
  then have "n mod a < a" by simp
  with div_mult_mod_eq [of n a] have "(n div a + 1) * a = n + (a - n mod a)"
    unfolding distrib_right by linarith
  then show ?thesis by (auto simp: align_up_def padding_of_def Let_def)
qed

lemma length_pad: "0 < a \<Longrightarrow> length (pad out a) = align_up (length out) a"
  by (simp add: pad_def align_up_pad)

lemma unat_of_nat_u32: "n \<le> 2 ^ 27 \<Longrightarrow> unat (of_nat n :: u32) = n"
  by (simp add: unat_of_nat take_bit_nat_eq_self)

text \<open>A frame read off the first sixteen bytes.\<close>

lemma frame_header:
  assumes "m = [of_char CHR ''l'', mtype, flags, PROTOCOL_VERSION] @ u32_le (of_nat blen) @ u32_le serial @
      u32_le (of_nat flen) @ rest"
    and "flen \<le> MAX_ARRAY" and "align_up (16 + flen) 8 + blen \<le> MAX_INCOMING"
  shows "frame m = Inr (align_up (16 + flen) 8, blen)"
proof -
  have b: "blen \<le> MAX_INCOMING" "blen \<le> 2 ^ 27" "flen \<le> 2 ^ 27" using assms(2,3) by (simp_all add: MAX_INCOMING_def MAX_ARRAY_def)
  let ?head = "[of_char CHR ''l'', mtype, flags, PROTOCOL_VERSION] @ u32_le (of_nat blen) @ u32_le serial @ u32_le (of_nat flen)"
  have head: "get_range m 0 16 = Some ?head" by (simp add: assms(1) get_range_def)
  have codes: "?head ! 0 = of_char CHR ''l''" "?head ! 3 = PROTOCOL_VERSION" by simp_all
  have "u32_at ?head 4 = of_nat blen"
    using u32_at_append [of "[of_char CHR ''l'', mtype, flags, PROTOCOL_VERSION]" 4 "of_nat blen"] by simp
  moreover have "u32_at ?head 12 = of_nat flen"
    using u32_at_append [of "[of_char CHR ''l'', mtype, flags, PROTOCOL_VERSION] @ u32_le (of_nat blen) @ u32_le serial" 12
      "of_nat flen" "[]"] by simp
  moreover have "align_up (16 + flen) 8 + blen \<le> usize_max"
    using assms(3) by (simp add: MAX_INCOMING_def usize_max_def)
  ultimately show ?thesis using assms(2,3) b
    unfolding frame_def FIXED_HEADER_def head ok_or_simps res_bind_simps Let_def codes
    by (simp add: unat_of_nat_u32 checked_add_def)
qed

definition interpret_fields :: "byte \<Rightarrow> (byte \<times> Value) list \<Rightarrow> bytes \<Rightarrow> WireError + Message" where
  "interpret_fields mtype fs body =
     res_bind
       (take_fields (map field_value fs) []
          \<lparr>me_kind = mtype, me_reply_serial = None, me_error_name = None, me_sender = None,
           me_signature = [], me_unix_fds = 0, me_body = body\<rparr>)
       (\<lambda>m. if me_signature m = [] \<and> body \<noteq> [] then Inl (BadMessage (str ''a body with no signature'')) else Inr m)"

lemma message_reads:
  assumes "encode_message mtype flags serial fs body = Inr m" and "list_all (\<lambda>f. texts_ok (snd f)) fs"
    and "count_all (map field_value fs) + 7 \<le> MAX_VALUES" and "length m \<le> MAX_INCOMING"
  shows "frame m = Inr (length m - length body, length body) \<and> drop (length m - length body) m = body \<and>
    decode_message m = interpret_fields mtype fs body"
proof -
  let ?vs = "[VByte (of_char CHR ''l''), VByte mtype, VByte flags, VByte PROTOCOL_VERSION,
      VUint32 (of_nat (length body)), VUint32 serial, VArray (map field_value fs)]"
  from assms(1) obtain h where h: "dbus_encode HEADER ?vs = Inr h" and m: "m = pad h 8 @ body"
    by (auto simp: encode_message_def Let_def rust_simps split: if_splits)
  have ok: "list_all texts_ok (map field_value fs)" using assms(2) by (auto simp: list_all_iff field_value_def)
  from header_layout [OF h ok] obtain b where
    b: "h = [of_char CHR ''l'', mtype, flags, PROTOCOL_VERSION] @ u32_le (of_nat (length body)) @ u32_le serial @
        u32_le (of_nat (length b)) @ b" "length b \<le> MAX_ARRAY" by blast
  have hl: "length h = 16 + length b" by (simp add: b(1))
  have body_at: "length (pad h 8) = align_up (16 + length b) 8" by (simp add: length_pad hl)
  have fr: "frame m = Inr (align_up (16 + length b) 8, length body)"
    using assms(4) b(2) body_at unfolding m
    by (intro frame_header [where rest = "b @ replicate (padding_of (length h) 8) 0 @ body"]) (simp_all add: b(1) pad_def)
  have read: "dbus_decode HEADER h = Inr ?vs"
    using ok assms(3,4) m by (intro encoded_reads_back [OF h]) (simp_all add: MAX_INCOMING_def usize_max_def pad_def)
  have "u32_at m 12 = of_nat (length b)"
    using u32_at_append [of "[of_char CHR ''l'', mtype, flags, PROTOCOL_VERSION] @ u32_le (of_nat (length body)) @ u32_le serial"
      12 "of_nat (length b)"] by (simp add: m b(1) pad_def)
  then have fe: "FIXED_HEADER + unat (u32_at m 12) = length h"
    using b(2) by (simp add: unat_of_nat_u32 hl FIXED_HEADER_def MAX_ARRAY_def)
  have parts: "get_range m 0 (length h) = Some h"
      "get_range m (length h) (length (pad h 8)) = Some (replicate (padding_of (length h) 8) 0)"
      "get_range m (length (pad h 8)) (length (pad h 8) + length body) = Some body"
    by (simp_all add: m get_range_def pad_def)
  have "decode_message m = interpret_fields mtype fs body"
    unfolding decode_message_def fr interpret_fields_def
    by (simp add: fe parts read header_parts_def flip: body_at)
  with fr body_at show ?thesis by (simp add: m)
qed

text \<open>The encoder takes every header field the client and its peers write: numbers, strings and object
  paths that say what they are.\<close>

definition field_ok :: "Value \<Rightarrow> bool" where
  "field_ok v =
     (case v of
        VUint32 _ \<Rightarrow> True
      | VStr t \<Rightarrow> 0 \<notin> set t \<and> length t < 2 ^ 32
      | VObjectPath p \<Rightarrow> valid_object_path p \<and> 0 \<notin> set p \<and> length p < 2 ^ 32
      | _ \<Rightarrow> False)"

definition field_size :: "Value \<Rightarrow> nat" where
  "field_size v = (case v of VStr t \<Rightarrow> 22 + length t | VObjectPath p \<Rightarrow> 22 + length p | _ \<Rightarrow> 22)"

lemma one_letter:
  "parse_signature (str ''u'') = Inr [TUint32]" "parse_signature (str ''s'') = Inr [TStr]"
  "parse_signature (str ''o'') = Inr [TObjectPath]"
  by (simp_all add: parse_signature_Inr parse_all_iff MAX_SIGNATURE_def)

lemma length_pad_le: "0 < a \<Longrightarrow> length (pad out a) \<le> length out + (a - 1)"
  by (auto simp: pad_def padding_of_def Let_def)

lemma pad_4_le: "3 \<le> k \<Longrightarrow> length (pad out 4) \<le> k + length out"
  using length_pad_le [of 4 out] by simp

lemma field_body_encodes:
  assumes "field_ok v"
  shows "\<exists>sig t. signature_of v 0 = Inr [sig] \<and> parse_signature [sig] = Inr [t] \<and>
    (\<forall>out. \<exists>b. encode_value out t v 3 = Inr b \<and> length b + 14 \<le> length out + field_size v)"
  using assms one_letter
  by (cases v) (auto simp: field_ok_def field_size_def signature_of.simps encode_value.simps encode_str_def MAX_DEPTH_def
      pad_4_le)

lemma field_encodes:
  assumes "field_ok v"
  shows "\<exists>b. encode_value out (TStruct [TByte, TVariant]) (field_value (c, v)) 1 = Inr b \<and>
    length b \<le> length out + field_size v"
proof -
  let ?out = "pad out 8 @ [c]"
  obtain sig t b where b: "signature_of v 0 = Inr [sig]" "parse_signature [sig] = Inr [t]"
      "encode_value (encode_signature ?out [sig]) t v 3 = Inr b"
      "length b + 14 \<le> length (encode_signature ?out [sig]) + field_size v"
    using field_body_encodes [OF assms] by blast
  have v: "encode_value ?out TVariant (VVariant v) 2 = Inr b"
    using b(1-3) by (simp add: encode_value.simps [of _ TVariant] pad_def padding_of_def MAX_DEPTH_def single_def)
  have "encode_value (pad out 8) TByte (VByte c) 2 = Inr ?out"
    by (simp add: encode_value.simps pad_def padding_of_def MAX_DEPTH_def)
  with v have "encode_value out (TStruct [TByte, TVariant]) (field_value (c, v)) 1 = Inr b"
    by (subst encode_value.simps) (simp add: field_value_def MAX_DEPTH_def numeral_2_eq_2)
  with b(4) length_pad_le [of 8 out] show ?thesis by (auto simp: encode_signature_def)
qed

lemma fields_encode:
  "list_all (\<lambda>f. field_ok (snd f)) fs \<Longrightarrow>
   \<exists>b. encode_items out (TStruct [TByte, TVariant]) (map field_value fs) 1 = Inr b \<and>
     length b \<le> length out + sum_list (map (\<lambda>f. field_size (snd f)) fs)"
proof (induction fs arbitrary: out)
  case (Cons f fs)
  with field_encodes [of "snd f" out "fst f"] obtain b where
    b: "encode_value out (TStruct [TByte, TVariant]) (field_value f) 1 = Inr b" "length b \<le> length out + field_size (snd f)"
    by auto
  with Cons.IH [of b] Cons.prems show ?case by fastforce
qed simp

lemma message_encodes:
  assumes "list_all (\<lambda>f. field_ok (snd f)) fs"
    and "sum_list (map (\<lambda>f. field_size (snd f)) fs) + length body \<le> 2 ^ 25"
  shows "\<exists>m. encode_message mtype flags serial fs body = Inr m \<and>
    length m \<le> 24 + sum_list (map (\<lambda>f. field_size (snd f)) fs) + length body"
proof -
  let ?t = "TStruct [TByte, TVariant]" and ?size = "sum_list (map (\<lambda>f. field_size (snd f)) fs)"
  let ?out = "[of_char CHR ''l'', mtype, flags, PROTOCOL_VERSION] @ u32_le (of_nat (length body)) @ u32_le serial"
  from fields_encode [OF assms(1), of "?out @ u32_le 0"] obtain b where
    b: "encode_items (?out @ u32_le 0) ?t (map field_value fs) 1 = Inr b" "length b \<le> 16 + ?size" by auto
  then have "\<exists>h. encode_array ?out ?t (VArray (map field_value fs)) 0 = Inr h \<and> length h \<le> 16 + ?size"
    using assms(2) by (auto simp: encode_array.simps pad_def padding_of_def MAX_DEPTH_def MAX_ARRAY_def dict_entry_def Let_def)
  then obtain h where h: "encode_array ?out ?t (VArray (map field_value fs)) 0 = Inr h" "length h \<le> 16 + ?size" by blast
  with header_types have "dbus_encode HEADER [VByte (of_char CHR ''l''), VByte mtype, VByte flags, VByte PROTOCOL_VERSION,
      VUint32 (of_nat (length body)), VUint32 serial, VArray (map field_value fs)] = Inr h"
    by (simp add: dbus_encode_def encode_value.simps pad_def padding_of_def MAX_DEPTH_def)
  with h(2) length_pad_le [of 8 h] assms(2) show ?thesis
    by (simp add: encode_message_def Let_def MAX_MESSAGE_def)
qed

text \<open>C38. A message this client writes is framed and read back by its own reader: the frame names exactly
  the body's place and length, and decoding gives the message type, the body's bytes and the
  header fields as they were given, each judged by its code and type.\<close>

theorem message_read_back:
  assumes "encode_message mtype flags serial fs body = Inr m" and "list_all (\<lambda>f. texts_ok (snd f)) fs"
    and "count_all (map field_value fs) + 7 \<le> MAX_VALUES" and "length m \<le> MAX_INCOMING"
  shows "frame m = Inr (length m - length body, length body) \<and> drop (length m - length body) m = body \<and>
    decode_message m = interpret_fields mtype fs body"
  using assms by (rule message_reads)

theorem message_read_back_witness:
  "\<exists>m. encode_message MSG_METHOD_RETURN 0 1 [(FIELD_REPLY_SERIAL, VUint32 9)] [] = Inr m \<and>
     frame m = Inr (length m, 0) \<and>
     decode_message m = Inr \<lparr>me_kind = MSG_METHOD_RETURN, me_reply_serial = Some 9, me_error_name = None,
       me_sender = None, me_signature = [], me_unix_fds = 0, me_body = []\<rparr>"
proof -
  let ?fs = "[(FIELD_REPLY_SERIAL, VUint32 9)]"
  obtain m where m: "encode_message MSG_METHOD_RETURN 0 1 ?fs [] = Inr m" "length m \<le> 46"
    using message_encodes [of ?fs "[]" MSG_METHOD_RETURN 0 1] by (auto simp: field_ok_def field_size_def)
  have "list_all (\<lambda>f. texts_ok (snd f)) ?fs" "count_all (map field_value ?fs) + 7 \<le> MAX_VALUES"
      "length m \<le> MAX_INCOMING"
    using m(2) by (simp_all add: field_value_def MAX_VALUES_def MAX_INCOMING_def)
  from message_read_back [OF m(1) this] m(1) show ?thesis
    by (simp add: interpret_fields_def field_pair_def field_value_def take_field_def)
qed

end
