(* ===== verification/Dbus_Session.thy ===== *)
theory Dbus_Session
  imports Dbus_Message "HOL-Library.Sublist"
begin

text \<open>
  The bus client of \<^verbatim>\<open>dbus_wire.rs\<close>: the session with its buffer and its cache of name owners, the
  authentication handshake, sending and receiving, and the method call with its owner lookup.
  What the kernel and the clock answer is a script, consumed one answer per call of the code; a
  run that needs an answer the script does not have is \<open>None\<close>, a client still waiting.  Shown: the
  values a call returns were in a whole message, among the bytes the buffer held and those read from the
  socket since, that is a method return to this very call with the sender the bus named (or the caller did).
\<close>

section \<open>The session and the answers it gets\<close>

definition CALL_TIMEOUT :: duration where
  "CALL_TIMEOUT = 5 * 10 ^ 9"

definition MAX_CALL_FDS :: nat where
  "MAX_CALL_FDS = 253"

definition MAX_AUTH_LINE :: nat where
  "MAX_AUTH_LINE = 4096"

definition ERROR_NO_OWNER :: bytes where
  "ERROR_NO_OWNER = str ''org.freedesktop.DBus.Error.NameHasNoOwner''"

definition ERROR_SERVICE_UNKNOWN :: bytes where
  "ERROR_SERVICE_UNKNOWN = str ''org.freedesktop.DBus.Error.ServiceUnknown''"

definition BUS_NAME :: bytes where
  "BUS_NAME = str ''org.freedesktop.DBus''"

definition BUS_PATH :: bytes where
  "BUS_PATH = str ''/org/freedesktop/DBus''"

definition BUS_INTERFACE :: bytes where
  "BUS_INTERFACE = str ''org.freedesktop.DBus''"

record Session =
  se_owners :: "(bytes \<times> bytes) list"
  se_fds_seen :: nat
  se_serial :: u32
  se_unique_name :: bytes
  se_fd_passing :: bool
  se_buf :: bytes

definition session_new :: Session where
  "session_new = \<lparr>se_owners = [], se_fds_seen = 0, se_serial = 0, se_unique_name = [], se_fd_passing = False,
     se_buf = []\<rparr>"

datatype Io =
    Clock instant
  | PollOk nat | PollIntr | PollErr nat
  | Sent nat | SendIntr | SendAgain | SendErr nat
  | Got bytes nat | RecvIntr | RecvAgain | RecvErr nat

type_synonym 'a run = "((WireError + 'a) \<times> Session \<times> Io list) option"

definition run_bind :: "'a run \<Rightarrow> ('a \<Rightarrow> Session \<Rightarrow> Io list \<Rightarrow> 'b run) \<Rightarrow> 'b run" where
  "run_bind x f =
     (case x of
        None \<Rightarrow> None
      | Some (Inl e, s, io) \<Rightarrow> Some (Inl e, s, io)
      | Some (Inr a, s, io) \<Rightarrow> f a s io)"

definition lift :: "WireError + 'a \<Rightarrow> Session \<Rightarrow> Io list \<Rightarrow> 'a run" where
  "lift r s io = Some (r, s, io)"

section \<open>Waiting, sending and reading\<close>

definition uid_hex :: "u32 \<Rightarrow> bytes" where
  "uid_hex uid = concat (map (\<lambda>b. [str ''0123456789abcdef'' ! unat (drop_bit 4 b),
     str ''0123456789abcdef'' ! unat (b AND 0xf)]) (dec_digits (unat uid)))"

fun wait_ready :: "instant \<Rightarrow> Io list \<Rightarrow> ((WireError + unit) \<times> Io list) option" where
  "wait_ready deadline (Clock now # io) =
     (if deadline \<le> now then Some (Inl Timeout, io)
      else
        (case io of
           PollOk n # io1 \<Rightarrow> Some (if n = 0 then Inl Timeout else Inr (), io1)
         | PollIntr # io1 \<Rightarrow> wait_ready deadline io1
         | PollErr e # io1 \<Rightarrow> Some (Inl (Io e), io1)
         | _ \<Rightarrow> None))"
| "wait_ready deadline _ = None"

text \<open>Every call takes its answers off the front of the script.\<close>

lemma suffix_later: "strict_suffix a b \<Longrightarrow> strict_suffix b c \<Longrightarrow> strict_suffix a c"
  by (rule suffix_order.less_trans)

lemma suffix_head [simp]: "strict_suffix io (x # io)"
  by (simp add: strict_suffix_def suffix_Cons)

lemma suffix_tail: "strict_suffix io' io \<Longrightarrow> strict_suffix io' (x # io)"
  by (rule suffix_later [OF _ suffix_head])

lemma wait_ready_suffix: "wait_ready deadline io = Some (r, io') \<Longrightarrow> strict_suffix io' io"
proof (induction deadline io rule: wait_ready.induct)
  case (1 deadline now io)
  show ?case
  proof (cases "\<exists>io1. io = PollIntr # io1 \<and> \<not> deadline \<le> now")
    case True
    then obtain io1 where io1: "io = PollIntr # io1" "\<not> deadline \<le> now" by blast
    with "1.IH" [OF io1(2)] "1.prems" have "strict_suffix io' io1" by simp
    with io1 show ?thesis by (auto intro: suffix_tail)
  next
    case False
    with "1.prems" show ?thesis by (auto intro: suffix_tail split: if_splits list.splits Io.splits)
  qed
qed auto

text \<open>\<open>send\<close>: the bytes still to go, and how many descriptors travel with the next of them.\<close>

function send_bytes :: "instant \<Rightarrow> bytes \<Rightarrow> nat \<Rightarrow> Io list \<Rightarrow> ((WireError + unit) \<times> Io list) option" where
  "send_bytes deadline bs carried io =
     (if bs = [] then Some (Inr (), io)
      else if carried > MAX_CALL_FDS then Some (Inl (TooManyFds carried), io)
      else
        (case io of
           Sent n # io1 \<Rightarrow> if n = 0 then Some (Inl Closed, io1) else send_bytes deadline (drop n bs) 0 io1
         | SendIntr # io1 \<Rightarrow> send_bytes deadline bs carried io1
         | SendAgain # io1 \<Rightarrow>
             (case wait_ready deadline io1 of
                None \<Rightarrow> None
              | Some (Inl e, io2) \<Rightarrow> Some (Inl e, io2)
              | Some (Inr _, io2) \<Rightarrow> send_bytes deadline bs carried io2)
         | SendErr e # io1 \<Rightarrow> Some (Inl (Io e), io1)
         | _ \<Rightarrow> None))"
  by pat_completeness auto
termination
  by (relation "measure (\<lambda>(d, bs, c, io). length io)") (auto dest!: wait_ready_suffix [THEN suffix_length_less])

function fill :: "instant \<Rightarrow> Session \<Rightarrow> Io list \<Rightarrow> unit run" where
  "fill deadline s io =
     (case io of
        Got bs n # io1 \<Rightarrow>
          let s1 = s\<lparr>se_fds_seen := se_fds_seen s + n\<rparr> in
          if bs = [] then Some (Inl Closed, s1, io1)
          else Some (Inr (), s1\<lparr>se_buf := se_buf s1 @ bs\<rparr>, io1)
      | RecvIntr # io1 \<Rightarrow> fill deadline s io1
      | RecvAgain # io1 \<Rightarrow>
          (case wait_ready deadline io1 of
             None \<Rightarrow> None
           | Some (Inl e, io2) \<Rightarrow> Some (Inl e, s, io2)
           | Some (Inr _, io2) \<Rightarrow> fill deadline s io2)
      | RecvErr e # io1 \<Rightarrow> Some (Inl (Io e), s, io1)
      | _ \<Rightarrow> None)"
  by pat_completeness auto
termination
  by (relation "measure (\<lambda>(d, s, io). length io)") (auto dest!: wait_ready_suffix [THEN suffix_length_less])

declare send_bytes.simps [simp del] fill.simps [simp del]

text \<open>Reading changes the buffer and the descriptor count only.\<close>

definition reads_only :: "Session \<Rightarrow> Session \<Rightarrow> bool" where
  "reads_only s s' \<longleftrightarrow> se_owners s' = se_owners s \<and> se_serial s' = se_serial s \<and> se_fd_passing s' = se_fd_passing s \<and>
     se_unique_name s' = se_unique_name s"

lemma reads_only_trans: "reads_only s s1 \<Longrightarrow> reads_only s1 s2 \<Longrightarrow> reads_only s s2"
  by (simp add: reads_only_def)

lemma reads_only_refl [simp]: "reads_only s s"
  by (simp add: reads_only_def)

lemma fill_step: "fill deadline s io = Some (r, s', io') \<Longrightarrow> strict_suffix io' io \<and> reads_only s s'"
proof (induction deadline s io rule: fill.induct)
  case (1 deadline s io)
  show ?case
  proof (cases io)
    case (Cons a io1)
    show ?thesis
    proof (cases a)
      case RecvIntr
      with 1 Cons have "strict_suffix io' io1 \<and> reads_only s s'" by (simp add: fill.simps [of deadline s "_ # _"])
      with Cons show ?thesis by (blast intro: suffix_tail)
    next
      case RecvAgain
      with "1.prems" Cons obtain w io2 where w: "wait_ready deadline io1 = Some (w, io2)"
        by (auto simp: fill.simps [of deadline s "_ # _"] split: option.splits)
      with "1.prems" "1.IH"(2) [OF Cons RecvAgain w refl _] Cons RecvAgain
      have "(io' = io2 \<or> strict_suffix io' io2) \<and> reads_only s s'"
        by (cases w) (simp_all add: fill.simps [of deadline s "_ # _"])
      with wait_ready_suffix [OF w] Cons show ?thesis by (blast intro: suffix_later suffix_tail)
    qed (use "1.prems" Cons in \<open>auto simp: fill.simps [of deadline s "_ # _"] Let_def reads_only_def split: if_splits\<close>)
  qed (use "1.prems" in \<open>simp add: fill.simps\<close>)
qed

lemmas fill_suffix = fill_step [THEN conjunct1]

text \<open>The whole message at the front of the buffer, if there is one.\<close>

definition whole_message :: "Session \<Rightarrow> (WireError + Message option) \<times> Session" where
  "whole_message s =
     (if length (se_buf s) < FIXED_HEADER then (Inr None, s)
      else
        case frame (se_buf s) of
          Inl e \<Rightarrow> (Inl e, s)
        | Inr (body_at, body_len) \<Rightarrow>
            let total = body_at + body_len in
            if length (se_buf s) < total then (Inr None, s)
            else
              let bs = take total (se_buf s); s1 = s\<lparr>se_buf := drop total (se_buf s)\<rparr> in
              case decode_message bs of
                Inl e \<Rightarrow> (Inl e, s1)
              | Inr m \<Rightarrow>
                  let arrived = se_fds_seen s1; s2 = s1\<lparr>se_fds_seen := 0\<rparr> in
                  if arrived \<noteq> unat (me_unix_fds m)
                  then (Inl (BadMessage (str ''a message with fewer or more descriptors than it declares'')), s2)
                  else (Inr (Some m), s2))"

function receive :: "instant \<Rightarrow> Session \<Rightarrow> Io list \<Rightarrow> Message run" where
  "receive deadline s io =
     (case whole_message s of
        (Inl e, s1) \<Rightarrow> Some (Inl e, s1, io)
      | (Inr (Some m), s1) \<Rightarrow> Some (Inr m, s1, io)
      | (Inr None, _) \<Rightarrow>
          (case io of
             Clock now # io1 \<Rightarrow>
               if deadline \<le> now then Some (Inl Timeout, s, io1)
               else
                 (case fill deadline s io1 of
                    None \<Rightarrow> None
                  | Some (Inl e, s2, io2) \<Rightarrow> Some (Inl e, s2, io2)
                  | Some (Inr _, s2, io2) \<Rightarrow> receive deadline s2 io2)
           | _ \<Rightarrow> None))"
  by pat_completeness auto
termination
  by (relation "measure (\<lambda>(d, s, io). length io)") (auto dest!: fill_suffix [THEN suffix_length_less])

declare receive.simps [simp del]

definition send_run :: "instant \<Rightarrow> bytes \<Rightarrow> nat \<Rightarrow> Session \<Rightarrow> Io list \<Rightarrow> unit run" where
  "send_run deadline bs carried s io = map_option (\<lambda>(r, io1). (r, s, io1)) (send_bytes deadline bs carried io)"

section \<open>Authentication\<close>

fun crlf_at :: "bytes \<Rightarrow> nat option" where
  "crlf_at (a # b # rest) = (if a = 13 \<and> b = 10 then Some 0 else map_option Suc (crlf_at (b # rest)))"
| "crlf_at _ = None"

function read_line :: "instant \<Rightarrow> Session \<Rightarrow> Io list \<Rightarrow> bytes run" where
  "read_line deadline s io =
     (case crlf_at (se_buf s) of
        Some e \<Rightarrow>
          let l = take e (se_buf s); s1 = s\<lparr>se_buf := drop (e + 2) (se_buf s)\<rparr> in
          Some (if \<exists>b \<in> set l. b \<ge> 0x80 then Inl (Auth (utf8_lossy l)) else Inr l, s1, io)
      | None \<Rightarrow>
          if length (se_buf s) > MAX_AUTH_LINE then Some (Inl (Auth (str ''a line with no end'')), s, io)
          else
            (case fill deadline s io of
               None \<Rightarrow> None
             | Some (Inl e, s1, io1) \<Rightarrow> Some (Inl e, s1, io1)
             | Some (Inr _, s1, io1) \<Rightarrow> read_line deadline s1 io1))"
  by pat_completeness auto
termination
  by (relation "measure (\<lambda>(d, s, io). length io)") (auto dest!: fill_suffix [THEN suffix_length_less])

declare read_line.simps [simp del]

definition is_space :: "byte \<Rightarrow> bool" where
  "is_space b \<longleftrightarrow> (9 \<le> b \<and> b \<le> 13) \<or> b = 32"

definition trim_ascii :: "bytes \<Rightarrow> bytes" where
  "trim_ascii t = rev (dropWhile is_space (rev (dropWhile is_space t)))"

definition crlf :: bytes where
  "crlf = [13, 10]"

definition authenticate :: "u32 \<Rightarrow> instant \<Rightarrow> Session \<Rightarrow> Io list \<Rightarrow> unit run" where
  "authenticate uid deadline s io =
     run_bind (send_run deadline (0 # str ''AUTH EXTERNAL '' @ uid_hex uid @ crlf) 0 s io) (\<lambda>_ s io.
     run_bind (read_line deadline s io) (\<lambda>l s io.
       if starts_with (str ''REJECTED'') l then lift (Inl (AuthRejected (trim_ascii (drop 8 l)))) s io
       else if \<not> starts_with (str ''OK '') l then lift (Inl (Auth l)) s io
       else
         run_bind (send_run deadline (str ''NEGOTIATE_UNIX_FD'' @ crlf) 0 s io) (\<lambda>_ s io.
         run_bind (read_line deadline s io) (\<lambda>l s io.
           if l \<noteq> str ''AGREE_UNIX_FD'' \<and> \<not> starts_with (str ''ERROR'') l then lift (Inl (Auth l)) s io
           else
             let s = (if l = str ''AGREE_UNIX_FD'' then s\<lparr>se_fd_passing := True\<rparr> else s) in
             send_run deadline (str ''BEGIN'' @ crlf) 0 s io))))"

section \<open>Calls\<close>

fun check_fd_indices :: "u32 \<Rightarrow> Value \<Rightarrow> WireError + unit"
  and check_all_indices :: "u32 \<Rightarrow> Value list \<Rightarrow> WireError + unit"
  and check_entry_indices :: "u32 \<Rightarrow> (bytes \<times> Value) list \<Rightarrow> WireError + unit" where
  "check_fd_indices n (VFd i) = (if i \<ge> n then Inl (FdIndex i) else Inr ())"
| "check_fd_indices n (VArray xs) = check_all_indices n xs"
| "check_fd_indices n (VStruct xs) = check_all_indices n xs"
| "check_fd_indices n (VDict es) = check_entry_indices n es"
| "check_fd_indices n (VVariant x) = check_fd_indices n x"
| "check_fd_indices n _ = Inr ()"
| "check_all_indices n [] = Inr ()"
| "check_all_indices n (x # xs) = res_bind (check_fd_indices n x) (\<lambda>_. check_all_indices n xs)"
| "check_entry_indices n [] = Inr ()"
| "check_entry_indices n ((_, x) # es) = res_bind (check_fd_indices n x) (\<lambda>_. check_entry_indices n es)"

definition call_fields :: "bytes \<Rightarrow> bytes \<Rightarrow> bytes \<Rightarrow> bytes \<Rightarrow> bytes \<Rightarrow> nat \<Rightarrow> (byte \<times> Value) list" where
  "call_fields owner path iface member sig n =
     [(FIELD_PATH, VObjectPath path), (FIELD_DESTINATION, VStr owner)] @
     (if iface = [] then [] else [(FIELD_INTERFACE, VStr iface)]) @
     [(FIELD_MEMBER, VStr member)] @
     (if sig = [] then [] else [(FIELD_SIGNATURE, VSignature sig)]) @
     (if n > 0 then [(FIELD_UNIX_FDS, VUint32 (of_nat n))] else [])"

text \<open>What a reply that passed the checks on serial, type and sender is worth.\<close>

definition reply_result :: "bytes \<Rightarrow> Message \<Rightarrow> Session \<Rightarrow> (WireError + Value list) \<times> Session" where
  "reply_result dest m s =
     (if me_kind m = MSG_METHOD_RETURN then (dbus_decode (me_signature m) (me_body m), s)
      else if me_kind m \<noteq> MSG_ERROR then (Inl (BadMessage (str ''a reply that is not a reply'')), s)
      else
        case me_error_name m of
          None \<Rightarrow> (Inl (BadMessage (str ''an error reply with no error name'')), s)
        | Some name \<Rightarrow>
            (Inl (Remote name
               (case dbus_decode (me_signature m) (me_body m) of
                  Inr (VStr t # _) \<Rightarrow> t | _ \<Rightarrow> [])),
             if name = ERROR_NO_OWNER \<or> name = ERROR_SERVICE_UNKNOWN
             then s\<lparr>se_owners := filter (\<lambda>(cached, _). cached \<noteq> dest) (se_owners s)\<rparr> else s))"

text \<open>Whether a message is to be skipped, refused, or taken as the reply.\<close>

datatype Judged = Skip | Refuse WireError | Take

definition judge_reply :: "u32 \<Rightarrow> bytes \<Rightarrow> Message \<Rightarrow> Judged" where
  "judge_reply serial owner m =
     (if me_reply_serial m \<noteq> Some serial then Skip
      else if me_kind m \<noteq> MSG_METHOD_RETURN \<and> me_kind m \<noteq> MSG_ERROR then Skip
      else
        case me_sender m of
          None \<Rightarrow> Refuse (BadMessage (str ''a reply with no sender''))
        | Some sender \<Rightarrow>
            if sender = owner then Take
            else if sender = BUS_NAME \<and> me_kind m = MSG_ERROR then Take
            else Skip)"

lemma whole_reads_only: "whole_message s = (r, s') \<Longrightarrow> reads_only s s'"
  by (auto simp: whole_message_def reads_only_def Let_def split: if_splits sum.splits prod.splits)

lemma receive_step: "receive deadline s io = Some (r, s', io') \<Longrightarrow> suffix io' io \<and> reads_only s s'"
proof (induction deadline s io rule: receive.induct)
  case (1 deadline s io)
  obtain w s1 where w: "whole_message s = (w, s1)" by (cases "whole_message s")
  show ?case
  proof (cases "w = Inr None")
    case False
    with w whole_reads_only [OF w] "1.prems" show ?thesis
      by (cases w) (auto simp: receive.simps [of deadline s io] split: option.splits)
  next
    case True
    with w "1.prems" obtain now io1 where io: "io = Clock now # io1"
      by (auto simp: receive.simps [of deadline s io] split: list.splits Io.splits)
    show ?thesis
    proof (cases "deadline \<le> now")
      case le: True
      with True w io "1.prems" show ?thesis by (auto simp: receive.simps [of deadline s "_ # _"] suffix_Cons)
    next
      case lt: False
      with True w io "1.prems" obtain f s2 io2 where f: "fill deadline s io1 = Some (f, s2, io2)"
        by (auto simp: receive.simps [of deadline s "_ # _"] split: option.splits)
      have step: "suffix io2 io" "reads_only s s2"
        using fill_step [OF f] io by (auto simp: strict_suffix_def suffix_Cons)
      show ?thesis
      proof (cases f)
        case (Inl e)
        with True w io lt f "1.prems" step show ?thesis by (auto simp: receive.simps [of deadline s "_ # _"])
      next
        case (Inr u)
        with True w io lt f "1.prems" have "receive deadline s2 io2 = Some (r, s', io')"
          by (simp add: receive.simps [of deadline s "_ # _"])
        from "1.IH" [OF w [symmetric] True refl io refl lt f refl Inr refl this] step show ?thesis
          by (meson suffix_order.trans reads_only_trans)
      qed
    qed
  qed
qed

function await_reply :: "instant \<Rightarrow> bytes \<Rightarrow> bytes \<Rightarrow> u32 \<Rightarrow> Session \<Rightarrow> Io list \<Rightarrow> Value list run" where
  "await_reply deadline dest owner serial s io =
     (case io of
        Clock now # io1 \<Rightarrow>
          if deadline \<le> now then Some (Inl Timeout, s, io1)
          else
            (case receive deadline s io1 of
               None \<Rightarrow> None
             | Some (Inl e, s2, io2) \<Rightarrow> Some (Inl e, s2, io2)
             | Some (Inr m, s2, io2) \<Rightarrow>
                 (case judge_reply serial owner m of
                    Skip \<Rightarrow> await_reply deadline dest owner serial s2 io2
                  | Refuse e \<Rightarrow> Some (Inl e, s2, io2)
                  | Take \<Rightarrow> let (r, s3) = reply_result dest m s2 in Some (r, s3, io2)))
      | _ \<Rightarrow> None)"
  by pat_completeness auto
termination
  by (relation "measure (\<lambda>(dl, d, ow, sr, s, io). length io)") (auto dest!: receive_step suffix_length_le)

declare await_reply.simps [simp del]

text \<open>\<open>call_by\<close> once the owner is known: the message, addressed to the owner, and the wait for its reply.\<close>

definition send_call :: "bytes \<Rightarrow> bytes \<Rightarrow> bytes \<Rightarrow> bytes \<Rightarrow> bytes \<Rightarrow> Value list \<Rightarrow> nat \<Rightarrow> instant \<Rightarrow> bytes \<Rightarrow>
    Session \<Rightarrow> Io list \<Rightarrow> Value list run" where
  "send_call dest path iface member sig body n deadline owner s io =
     run_bind (lift (dbus_encode sig body) s io) (\<lambda>bs s io.
       let serial = max (se_serial s + 1) 1; s = s\<lparr>se_serial := serial\<rparr> in
       run_bind (lift (encode_message MSG_METHOD_CALL 0 serial (call_fields owner path iface member sig n) bs) s io)
         (\<lambda>message s io.
            run_bind (send_run deadline message n s io) (\<lambda>_. await_reply deadline dest owner serial)))"

text \<open>\<open>call_by\<close>, over the way the owner of the destination is found.\<close>

definition call_with :: "(instant \<Rightarrow> Session \<Rightarrow> Io list \<Rightarrow> bytes run) \<Rightarrow> bytes \<Rightarrow> bytes \<Rightarrow> bytes \<Rightarrow> bytes \<Rightarrow> bytes \<Rightarrow>
    Value list \<Rightarrow> nat \<Rightarrow> instant \<Rightarrow> Session \<Rightarrow> Io list \<Rightarrow> Value list run" where
  "call_with seek dest path iface member sig body n deadline s io =
     (if dest = [] then lift (Inl NoDestination) s io
      else if n \<noteq> 0 \<and> \<not> se_fd_passing s then lift (Inl NoFdPassing) s io
      else if n > MAX_CALL_FDS then lift (Inl (TooManyFds n)) s io
      else
        run_bind (lift (check_all_indices (of_nat n) body) s io) (\<lambda>_ s io.
        run_bind (seek deadline s io) (send_call dest path iface member sig body n deadline)))"

text \<open>A call to the bus itself, whose owner is its own name.\<close>

definition bus_call :: "bytes \<Rightarrow> bytes \<Rightarrow> Value list \<Rightarrow> instant \<Rightarrow> Session \<Rightarrow> Io list \<Rightarrow> Value list run" where
  "bus_call member sig body =
     call_with (\<lambda>_. lift (Inr BUS_NAME)) BUS_NAME BUS_PATH BUS_INTERFACE member sig body 0"

definition unique_name :: "bytes \<Rightarrow> bool" where
  "unique_name n \<longleftrightarrow> starts_with (str '':'') n"

definition one_name :: "Value list \<Rightarrow> bytes option" where
  "one_name vs = (case single vs of Some v \<Rightarrow> (case v of VStr t \<Rightarrow> Some t | _ \<Rightarrow> None) | None \<Rightarrow> None)"

definition ask_owner :: "bytes \<Rightarrow> instant \<Rightarrow> Session \<Rightarrow> Io list \<Rightarrow> bytes run" where
  "ask_owner dest deadline s io =
     run_bind (bus_call (str ''GetNameOwner'') (str ''s'') [VStr dest] deadline s io) (\<lambda>reply.
       lift (case one_name reply of
               None \<Rightarrow> Inl (BadMessage (str ''a GetNameOwner reply that is not one name''))
             | Some owner \<Rightarrow>
                 if unique_name owner then Inr owner else Inl (BadMessage (str ''a name owner that is not unique''))))"

definition start_service :: "bytes \<Rightarrow> instant \<Rightarrow> Session \<Rightarrow> Io list \<Rightarrow> unit run" where
  "start_service dest deadline s io =
     run_bind (bus_call (str ''StartServiceByName'') (str ''su'') [VStr dest, VUint32 0] deadline s io)
       (\<lambda>_. lift (Inr ()))"

definition is_no_owner :: "WireError \<Rightarrow> bool" where
  "is_no_owner e = (case e of Remote name _ \<Rightarrow> name = ERROR_NO_OWNER | _ \<Rightarrow> False)"

definition remember :: "bytes \<Rightarrow> bytes \<Rightarrow> Session \<Rightarrow> Io list \<Rightarrow> bytes run" where
  "remember dest owner s io = lift (Inr owner) (s\<lparr>se_owners := se_owners s @ [(dest, owner)]\<rparr>) io"

definition owner_of :: "bytes \<Rightarrow> instant \<Rightarrow> Session \<Rightarrow> Io list \<Rightarrow> bytes run" where
  "owner_of dest deadline s io =
     (if dest = BUS_NAME \<or> unique_name dest then lift (Inr dest) s io
      else
        case map_of (se_owners s) dest of
          Some owner \<Rightarrow> lift (Inr owner) s io
        | None \<Rightarrow>
            run_bind
              (case ask_owner dest deadline s io of
                 Some (Inl e, s1, io1) \<Rightarrow>
                   if is_no_owner e
                   then run_bind (start_service dest deadline s1 io1) (\<lambda>_. ask_owner dest deadline)
                   else Some (Inl e, s1, io1)
               | other \<Rightarrow> other)
              (remember dest))"

definition call_by :: "bytes \<Rightarrow> bytes \<Rightarrow> bytes \<Rightarrow> bytes \<Rightarrow> bytes \<Rightarrow> Value list \<Rightarrow> nat \<Rightarrow> instant \<Rightarrow> Session \<Rightarrow> Io list \<Rightarrow>
    Value list run" where
  "call_by dest = call_with (owner_of dest) dest"

text \<open>The bus's own name needs no looking up, so a call to the bus is the call everybody makes.\<close>

lemma bus_call_by: "bus_call member sig body = call_by BUS_NAME BUS_PATH BUS_INTERFACE member sig body 0"
proof -
  have "owner_of BUS_NAME = (\<lambda>_. lift (Inr BUS_NAME))" by (intro ext) (simp add: owner_of_def)
  then show ?thesis by (simp add: bus_call_def call_by_def)
qed

definition session_call :: "bytes \<Rightarrow> bytes \<Rightarrow> bytes \<Rightarrow> bytes \<Rightarrow> bytes \<Rightarrow> Value list \<Rightarrow> nat \<Rightarrow> instant \<Rightarrow> Session \<Rightarrow> Io list \<Rightarrow>
    Value list run" where
  "session_call dest path iface member sig body n now =
     call_by dest path iface member sig body n (now + CALL_TIMEOUT)"

definition hello :: "instant \<Rightarrow> Session \<Rightarrow> Io list \<Rightarrow> bytes run" where
  "hello deadline s io =
     run_bind (bus_call (str ''Hello'') [] [] deadline s io) (\<lambda>reply.
       lift (case one_name reply of
               None \<Rightarrow> Inl (BadMessage (str ''a Hello reply that is not one name''))
             | Some name \<Rightarrow>
                 if unique_name name then Inr name
                 else Inl (BadMessage (str ''a Hello reply that is not a unique name''))))"

text \<open>\<open>connect\<close>, from what opening the socket gave.\<close>

definition connect :: "WireError option \<Rightarrow> u32 \<Rightarrow> instant \<Rightarrow> Io list \<Rightarrow> unit run" where
  "connect failed uid now io =
     (let deadline = now + CALL_TIMEOUT in
      case failed of
        Some e \<Rightarrow> lift (Inl e) session_new io
      | None \<Rightarrow>
          run_bind (authenticate uid deadline session_new io) (\<lambda>_ s io.
          run_bind (hello deadline s io) (\<lambda>name s io. lift (Inr ()) (s\<lparr>se_unique_name := name\<rparr>) io)))"

section \<open>Whose words a call returns\<close>

lemma run_bind_Inr:
  "run_bind x f = Some (Inr b, s', io') \<longleftrightarrow> (\<exists>a s io. x = Some (Inr a, s, io) \<and> f a s io = Some (Inr b, s', io'))"
  by (auto simp: run_bind_def split: option.splits sum.splits prod.splits)

lemma lift_Inr: "lift r s io = Some (Inr a, s', io') \<longleftrightarrow> r = Inr a \<and> s' = s \<and> io' = io"
  by (auto simp: lift_def)

text \<open>The bytes the socket gave in some part of the script, and the whole messages among bytes: a message is
  carried when it decodes from a frame that whole frames precede.\<close>

definition got :: "Io list \<Rightarrow> bytes" where
  "got io = concat (map (\<lambda>a. case a of Got bs _ \<Rightarrow> bs | _ \<Rightarrow> []) io)"

definition whole :: "bytes \<Rightarrow> bool" where
  "whole b \<longleftrightarrow> FIXED_HEADER \<le> length b \<and> (\<exists>body_at body_len. frame b = Inr (body_at, body_len) \<and> length b = body_at + body_len)"

definition carried :: "bytes \<Rightarrow> Message \<Rightarrow> bool" where
  "carried stream m \<longleftrightarrow> (\<exists>ms b rest. stream = concat ms @ b @ rest \<and> (\<forall>x \<in> set ms. whole x) \<and> whole b \<and>
     decode_message b = Inr m)"

text \<open>A message that came in between two points of the script: in the session's buffer, or read since.\<close>

definition heard :: "Session \<Rightarrow> Io list \<Rightarrow> Io list \<Rightarrow> Message \<Rightarrow> bool" where
  "heard s io io' m \<longleftrightarrow> (\<exists>used. io = used @ io' \<and> carried (se_buf s @ got used) m)"

text \<open>A reply to the call with this serial, from this sender, that carries these values.\<close>

definition answered :: "Session \<Rightarrow> Io list \<Rightarrow> Io list \<Rightarrow> u32 \<Rightarrow> bytes \<Rightarrow> Value list \<Rightarrow> bool" where
  "answered s io io' serial owner vs \<longleftrightarrow>
     (\<exists>m. heard s io io' m \<and> me_reply_serial m = Some serial \<and> me_kind m = MSG_METHOD_RETURN \<and>
        me_sender m = Some owner \<and> dbus_decode (me_signature m) (me_body m) = Inr vs)"

text \<open>What every operation does to the buffer: the bytes read go to its end, whole messages leave its front.\<close>

definition moved :: "Session \<Rightarrow> Io list \<Rightarrow> Session \<Rightarrow> Io list \<Rightarrow> bool" where
  "moved s io s' io' \<longleftrightarrow> (\<exists>used ms. io = used @ io' \<and> se_buf s @ got used = concat ms @ se_buf s' \<and> (\<forall>x \<in> set ms. whole x))"

lemma got_simps [simp]: "got [] = []" "got (a # io) = (case a of Got bs _ \<Rightarrow> bs | _ \<Rightarrow> []) @ got io"
    "got (io1 @ io2) = got io1 @ got io2"
  by (simp_all add: got_def)

lemma moved_refl: "se_buf s' = se_buf s \<Longrightarrow> moved s io s' io"
  unfolding moved_def by (intro exI [of _ "[]"]) simp

lemma moved_serial [simp]: "moved (s\<lparr>se_serial := n\<rparr>) io s' io' = moved s io s' io'"
  by (simp add: moved_def)

lemma io_moved_trans:
  assumes "moved s io s1 io1" and "moved s1 io1 s2 io2"
  shows "moved s io s2 io2"
proof -
  from assms(1) obtain u ms where 1: "io = u @ io1" "se_buf s @ got u = concat ms @ se_buf s1" "\<forall>x \<in> set ms. whole x"
    by (auto simp: moved_def)
  from assms(2) obtain v ns where 2: "io1 = v @ io2" "se_buf s1 @ got v = concat ns @ se_buf s2" "\<forall>x \<in> set ns. whole x"
    by (auto simp: moved_def)
  have "se_buf s @ got (u @ v) = (se_buf s @ got u) @ got v" by simp
  also have "\<dots> = concat (ms @ ns) @ se_buf s2" unfolding 1(2) by (simp add: 2(2))
  finally show ?thesis using 1 2 unfolding moved_def by (intro exI [of _ "u @ v"] exI [of _ "ms @ ns"]) auto
qed

lemma moved_quiet: "got [a] = [] \<Longrightarrow> moved s (a # io) s io"
  unfolding moved_def by (intro exI [of _ "[a]"] exI [of _ "[]"]) simp

lemma moved_suffix: "moved s io s' io' \<Longrightarrow> suffix io' io"
  by (auto simp: moved_def suffix_def)

lemma carried_before: "carried stream m \<Longrightarrow> \<forall>x \<in> set ms. whole x \<Longrightarrow> carried (concat ms @ stream) m"
  unfolding carried_def by (elim exE conjE, rule exI [of _ "ms @ ns" for ns]) auto

lemma carried_after: "carried stream m \<Longrightarrow> carried (stream @ tail) m"
  unfolding carried_def by fastforce

lemma heard_before:
  assumes "moved s io s1 io1" and "heard s1 io1 io2 m"
  shows "heard s io io2 m"
proof -
  from assms(1) obtain u ms where 1: "io = u @ io1" "se_buf s @ got u = concat ms @ se_buf s1" "\<forall>x \<in> set ms. whole x"
    by (auto simp: moved_def)
  from assms(2) obtain v where 2: "io1 = v @ io2" "carried (se_buf s1 @ got v) m" by (auto simp: heard_def)
  have "se_buf s @ got (u @ v) = (se_buf s @ got u) @ got v" by simp
  also have "\<dots> = concat ms @ (se_buf s1 @ got v)" unfolding 1(2) by simp
  finally have "carried (se_buf s @ got (u @ v)) m" using carried_before [OF 2(2) 1(3)] by (simp only:)
  then show ?thesis using 1(1) 2(1) unfolding heard_def by (intro exI [of _ "u @ v"]) simp
qed

lemma heard_after:
  assumes "heard s io io1 m" and "suffix io2 io1"
  shows "heard s io io2 m"
proof -
  from assms obtain u v where "io = u @ io1" "carried (se_buf s @ got u) m" "io1 = v @ io2"
    by (auto simp: heard_def suffix_def)
  then show ?thesis using carried_after [of "se_buf s @ got u" m "got v"]
    unfolding heard_def by (intro exI [of _ "u @ v"]) simp
qed

lemma answered_within:
  assumes "answered s1 io1 io2 serial owner vs" and "moved s io s1 io1" and "suffix io3 io2"
  shows "answered s io io3 serial owner vs"
  using assms unfolding answered_def by (meson heard_before heard_after)

lemma frame_take:
  assumes "frame buf = Inr (body_at, body_len)"
  shows "FIXED_HEADER \<le> body_at + body_len"
    and "FIXED_HEADER \<le> length b \<Longrightarrow> take FIXED_HEADER b = take FIXED_HEADER buf \<Longrightarrow> frame b = frame buf"
proof -
  have "x \<le> align_up x 8" for x :: nat unfolding align_up_def by simp presburger
  then have "FIXED_HEADER \<le> align_up (FIXED_HEADER + n) 8" for n by (meson le_add1 order_trans)
  with assms show "FIXED_HEADER \<le> body_at + body_len"
    by (auto simp: frame_def rust_simps Let_def split: if_splits intro: le_add1 order_trans)
  have "FIXED_HEADER \<le> length buf" using assms by (auto simp: frame_def rust_simps)
  then show "FIXED_HEADER \<le> length b \<Longrightarrow> take FIXED_HEADER b = take FIXED_HEADER buf \<Longrightarrow> frame b = frame buf"
    by (simp add: frame_def get_range_def)
qed

lemma whole_message_front:
  assumes "whole_message s = (r, s')"
  shows "moved s io s' io" and "r = Inr (Some m) \<Longrightarrow> heard s io io m"
proof -
  have "\<exists>ms. se_buf s = concat ms @ se_buf s' \<and> (\<forall>x \<in> set ms. whole x) \<and>
    (\<forall>m. r = Inr (Some m) \<longrightarrow> (\<exists>b. ms = [b] \<and> decode_message b = Inr m))"
  proof (cases "FIXED_HEADER \<le> length (se_buf s) \<and> (\<exists>body_at body_len. frame (se_buf s) = Inr (body_at, body_len) \<and>
      body_at + body_len \<le> length (se_buf s))")
    case False
    have "s' = s \<and> (\<forall>m. r \<noteq> Inr (Some m))"
    proof (cases "length (se_buf s) < FIXED_HEADER")
      case short: False
      show ?thesis
      proof (cases "frame (se_buf s)")
        case (Inl e)
        with short assms show ?thesis by (simp add: whole_message_def) blast
      next
        case (Inr p)
        obtain body_at body_len where p: "p = (body_at, body_len)" by (cases p)
        with False short Inr have "length (se_buf s) < body_at + body_len" by (auto simp: not_less not_le)
        with short assms Inr p show ?thesis by (simp add: whole_message_def Let_def) blast
      qed
    qed (use assms in \<open>simp add: whole_message_def, blast\<close>)
    then show ?thesis by (intro exI [of _ "[]"]) simp
  next
    case True
    then obtain body_at body_len where f: "frame (se_buf s) = Inr (body_at, body_len)" "FIXED_HEADER \<le> length (se_buf s)"
        "body_at + body_len \<le> length (se_buf s)" by blast
    let ?b = "take (body_at + body_len) (se_buf s)"
    have "frame ?b = frame (se_buf s)"
    proof (rule frame_take(2) [OF f(1)])
      show "FIXED_HEADER \<le> length ?b" using frame_take(1) [OF f(1)] f(3) by simp
      show "take FIXED_HEADER ?b = take FIXED_HEADER (se_buf s)" using frame_take(1) [OF f(1)] by (simp add: min_absorb1)
    qed
    then have w: "whole ?b" using f frame_take(1) [OF f(1)] by (simp add: whole_def)
    have "\<not> length (se_buf s) < FIXED_HEADER" "\<not> length (se_buf s) < body_at + body_len" using f by simp_all
    note front = assms [unfolded whole_message_def Let_def f(1) sum.case prod.case if_not_P [OF this(1)] if_not_P [OF this(2)]]
    have "se_buf s' = drop (body_at + body_len) (se_buf s)" "\<forall>m. r = Inr (Some m) \<longrightarrow> decode_message ?b = Inr m"
      using front by (cases "decode_message ?b"; auto split: if_splits)+
    with w show ?thesis by (intro exI [of _ "[?b]"]) simp
  qed
  then obtain ms where ms: "se_buf s = concat ms @ se_buf s'" "\<forall>x \<in> set ms. whole x"
      "\<forall>m. r = Inr (Some m) \<longrightarrow> (\<exists>b. ms = [b] \<and> decode_message b = Inr m)" by (elim exE conjE)
  show "moved s io s' io" unfolding moved_def by (intro exI [of _ "[]"] exI [of _ ms]) (simp add: ms(1,2))
  assume "r = Inr (Some m)"
  with ms(3) obtain b where "ms = [b]" "decode_message b = Inr m" by blast
  with ms(1,2) have "carried (se_buf s) m" unfolding carried_def
    by (intro exI [of _ "[] :: bytes list"] exI [of _ b] exI [of _ "se_buf s'"]) simp
  then show "heard s io io m" by (auto simp: heard_def)
qed

lemma wait_ready_moved: "wait_ready deadline io = Some (r, io') \<Longrightarrow> moved s io s io'"
proof (induction deadline io rule: wait_ready.induct)
  case (1 deadline now io)
  show ?case
  proof (cases "deadline \<le> now")
    case True
    with "1.prems" show ?thesis by (auto intro: moved_quiet)
  next
    case False
    with "1.prems" obtain a io1 where io: "io = a # io1" "got [a] = []" "io' = io1 \<or> wait_ready deadline io1 = Some (r, io') \<and> a = PollIntr"
      by (auto split: list.splits Io.splits)
    then have "moved s io1 s io'" using "1.IH" [OF False] by (auto intro: moved_refl)
    then have "moved s io s io'" unfolding io(1) by (rule io_moved_trans [OF moved_quiet [OF io(2)]])
    then show ?thesis by (rule io_moved_trans [OF moved_quiet, rotated]) simp
  qed
qed auto

lemma fill_moved: "fill deadline s io = Some (r, s', io') \<Longrightarrow> moved s io s' io'"
proof (induction deadline s io rule: fill.induct)
  case (1 deadline s io)
  note turn = fill.simps [of deadline s "_ # _"]
  show ?case
  proof (cases io)
    case (Cons a io1)
    show ?thesis
    proof (cases a)
      case (Got bs n)
      with "1.prems" Cons have "io' = io1" "se_buf s' = se_buf s @ bs" by (auto simp: turn Let_def split: if_splits)
      with Cons Got show ?thesis unfolding moved_def by (intro exI [of _ "[a]"] exI [of _ "[]"]) simp
    next
      case RecvIntr
      with 1 Cons have "moved s io1 s' io'" by (simp add: turn)
      with Cons RecvIntr show ?thesis by (auto intro: io_moved_trans [OF moved_quiet])
    next
      case RecvAgain
      with "1.prems" Cons obtain w io2 where w: "wait_ready deadline io1 = Some (w, io2)"
        by (auto simp: turn split: option.splits)
      with "1.prems" "1.IH"(2) [OF Cons RecvAgain w refl _] Cons RecvAgain have "moved s io2 s' io'"
        by (cases w) (auto simp: turn intro: moved_refl)
      then have "moved s io1 s' io'" by (rule io_moved_trans [OF wait_ready_moved [OF w]])
      then have "moved s (RecvAgain # io1) s' io'" by (rule io_moved_trans [OF moved_quiet, rotated]) simp
      with Cons RecvAgain show ?thesis by simp
    qed (use "1.prems" Cons in \<open>auto simp: turn intro: moved_quiet\<close>)
  qed (use "1.prems" in \<open>simp add: fill.simps\<close>)
qed

lemma receive_moved:
  "receive deadline s io = Some (r, s', io') \<Longrightarrow> moved s io s' io' \<and> (\<forall>m. r = Inr m \<longrightarrow> heard s io io' m)"
proof (induction deadline s io rule: receive.induct)
  case (1 deadline s io)
  note turn = receive.simps [of deadline s "_ # _"]
  obtain w s1 where w: "whole_message s = (w, s1)" by (cases "whole_message s")
  show ?case
  proof (cases "w = Inr None")
    case False
    with w "1.prems" have "s' = s1" "io' = io" "\<And>m. r = Inr m \<Longrightarrow> w = Inr (Some m)"
      by (cases w; auto simp: receive.simps [of deadline s io] split: option.splits)+
    with whole_message_front [OF w] show ?thesis by blast
  next
    case True
    with w "1.prems" obtain now io1 where io: "io = Clock now # io1"
      by (auto simp: receive.simps [of deadline s io] split: list.splits Io.splits)
    show ?thesis
    proof (cases "deadline \<le> now")
      case le: True
      with True w io "1.prems" show ?thesis by (auto simp: turn intro: moved_quiet)
    next
      case lt: False
      with True w io "1.prems" obtain f s2 io2 where f: "fill deadline s io1 = Some (f, s2, io2)"
        by (auto simp: turn split: option.splits)
      have step: "moved s io s2 io2" using io_moved_trans [OF moved_quiet fill_moved [OF f]] io by simp
      show ?thesis
      proof (cases f)
        case (Inl e)
        with True w io lt f "1.prems" step show ?thesis by (auto simp: turn)
      next
        case (Inr u)
        with True w io lt f "1.prems" have "receive deadline s2 io2 = Some (r, s', io')" by (simp add: turn)
        from "1.IH" [OF w [symmetric] True refl io refl lt f refl Inr refl this]
        show ?thesis using io_moved_trans [OF step] heard_before [OF step] by blast
      qed
    qed
  qed
qed

lemma judge_Take:
  "judge_reply serial owner m = Take \<Longrightarrow> me_reply_serial m = Some serial \<and>
     (me_kind m = MSG_METHOD_RETURN \<longrightarrow> me_sender m = Some owner)"
  by (auto simp: judge_reply_def MSG_METHOD_RETURN_def MSG_ERROR_def split: if_splits option.splits)

lemma reply_result_Inr:
  "reply_result dest m s = (Inr vs, s') \<Longrightarrow>
     me_kind m = MSG_METHOD_RETURN \<and> dbus_decode (me_signature m) (me_body m) = Inr vs \<and> s' = s"
  by (auto simp: reply_result_def split: if_splits option.splits)

lemma await_turn:
  assumes "await_reply deadline dest owner serial s io = Some (r, s', io')"
  obtains (time) now where "io = Clock now # io'" "s' = s" "\<exists>e. r = Inl e"
  | (fail) now io1 e where "io = Clock now # io1" "receive deadline s io1 = Some (Inl e, s', io')" "r = Inl e"
  | (message) now io1 m s2 io2 where "io = Clock now # io1" "\<not> deadline \<le> now"
      "receive deadline s io1 = Some (Inr m, s2, io2)"
      "(case judge_reply serial owner m of
          Skip \<Rightarrow> await_reply deadline dest owner serial s2 io2
        | Refuse e \<Rightarrow> Some (Inl e, s2, io2)
        | Take \<Rightarrow> let (r, s3) = reply_result dest m s2 in Some (r, s3, io2)) = Some (r, s', io')"
proof -
  from assms obtain now io1 where io: "io = Clock now # io1"
    by (auto simp: await_reply.simps [of deadline dest owner serial s io] split: list.splits Io.splits)
  note turn = await_reply.simps [of deadline dest owner serial s "_ # _"]
  show thesis
  proof (cases "deadline \<le> now")
    case True
    with assms io have "Inl Timeout = r" "s = s'" "io1 = io'" by (simp_all add: turn)
    with io time show thesis by blast
  next
    case False
    with assms io obtain q s2 io2 where q: "receive deadline s io1 = Some (q, s2, io2)"
      by (auto simp: turn split: option.splits)
    with assms io False fail message show thesis by (cases q) (simp_all add: turn)
  qed
qed

text \<open>What every operation on a session keeps: the script is taken from its front, the buffer loses whole
  messages only, and the cached owners are forgotten at most.\<close>

definition tame :: "(Session \<Rightarrow> Io list \<Rightarrow> 'a run) \<Rightarrow> bool" where
  "tame f \<longleftrightarrow> (\<forall>s io r s' io'. f s io = Some (r, s', io') \<longrightarrow>
     set (se_owners s') \<subseteq> set (se_owners s) \<and> moved s io s' io')"

lemma tame_lift: "tame (lift r)"
  by (simp add: tame_def lift_def moved_refl)

lemma tame_if: "tame f \<Longrightarrow> tame g \<Longrightarrow> tame (\<lambda>s io. if P s then f s io else g s io)"
  by (simp add: tame_def)

lemma run_bind_cases:
  assumes "run_bind x f = Some (r, s', io')"
  obtains e where "x = Some (Inl e, s', io')" "r = Inl e" | a s io where "x = Some (Inr a, s, io)" "f a s io = Some (r, s', io')"
  using assms by (auto simp: run_bind_def split: option.splits sum.splits prod.splits)

lemma tame_bind:
  assumes "tame x" and "\<And>a. tame (f a)"
  shows "tame (\<lambda>s io. run_bind (x s io) f)"
proof -
  have "set (se_owners s') \<subseteq> set (se_owners s) \<and> moved s io s' io'" if "run_bind (x s io) f = Some (r, s', io')" for s io r s' io'
    using that
  proof (cases rule: run_bind_cases)
    case (1 e)
    with assms(1) show ?thesis unfolding tame_def by blast
  next
    case (2 a s1 io1)
    with assms show ?thesis unfolding tame_def by (meson subset_trans io_moved_trans)
  qed
  then show ?thesis unfolding tame_def by blast
qed

lemma reply_result_owners: "reply_result dest m s = (r, s') \<Longrightarrow> set (se_owners s') \<subseteq> set (se_owners s)"
  by (auto simp: reply_result_def split: if_splits option.splits)

lemma await_tame_aux: "await_reply deadline dest owner serial s io = Some (r, s', io') \<Longrightarrow>
    set (se_owners s') \<subseteq> set (se_owners s) \<and> moved s io s' io'"
proof (induction deadline dest owner serial s io rule: await_reply.induct)
  case (1 deadline dest owner serial s io)
  from "1.prems" show ?case
  proof (cases rule: await_turn)
    case (time now)
    then show ?thesis by (simp add: moved_quiet)
  next
    case (fail now io1 e)
    with receive_step [OF fail(2)] io_moved_trans [OF moved_quiet conjunct1 [OF receive_moved [OF fail(2)]]] show ?thesis
      by (simp add: reads_only_def)
  next
    case (message now io1 m s2 io2)
    have step: "moved s io s2 io2" "se_owners s2 = se_owners s"
      using receive_step [OF message(3)] io_moved_trans [OF moved_quiet conjunct1 [OF receive_moved [OF message(3)]]] message(1)
      by (simp_all add: reads_only_def)
    show ?thesis
    proof (cases "judge_reply serial owner m")
      case Skip
      with message(4) have "await_reply deadline dest owner serial s2 io2 = Some (r, s', io')" by simp
      from "1.IH" [OF message(1) refl message(2,3) refl refl refl Skip this] step show ?thesis
        by (auto intro: io_moved_trans)
    next
      case (Refuse e)
      with message(4) step show ?thesis by simp
    next
      case Take
      with message(4) obtain s3 where t: "reply_result dest m s2 = (r, s3)" "s' = s3" "io' = io2" by (auto split: prod.splits)
      then have "se_buf s' = se_buf s2" by (auto simp: reply_result_def split: if_splits option.splits)
      with t reply_result_owners [OF t(1)] step show ?thesis by (auto intro: io_moved_trans moved_refl)
    qed
  qed
qed

lemma await_tame: "tame (await_reply deadline dest owner serial)"
  unfolding tame_def using await_tame_aux by blast

lemma await_answered:
  "await_reply deadline dest owner serial s io = Some (Inr vs, s', io') \<Longrightarrow>
     answered s io io' serial owner vs \<and> reads_only s s'"
proof (induction deadline dest owner serial s io rule: await_reply.induct)
  case (1 deadline dest owner serial s io)
  from "1.prems" show ?case
  proof (cases rule: await_turn)
    case (message now io1 m s2 io2)
    have first: "moved s io s io1" by (simp add: message(1) moved_quiet)
    note received = receive_moved [OF message(3)]
    have step: "moved s io s2 io2" "reads_only s s2"
      using io_moved_trans [OF first conjunct1 [OF received]] receive_step [OF message(3)] by simp_all
    have here: "heard s io io2 m" using heard_before [OF first] received by blast
    show ?thesis
    proof (cases "judge_reply serial owner m")
      case Skip
      with message(4) have again: "await_reply deadline dest owner serial s2 io2 = Some (Inr vs, s', io')" by simp
      from "1.IH" [OF message(1) refl message(2,3) refl refl refl Skip this]
      have "answered s2 io2 io' serial owner vs" "reads_only s2 s'" by simp_all
      with step show ?thesis by (meson answered_within suffix_order.refl reads_only_trans)
    next
      case (Refuse e)
      with message(4) show ?thesis by simp
    next
      case Take
      with message(4) have "reply_result dest m s2 = (Inr vs, s')" "io' = io2" by (auto split: prod.splits)
      from reply_result_Inr [OF this(1)] judge_Take [OF Take] here step this(2) show ?thesis
        unfolding answered_def by blast
    qed
  qed auto
qed

lemma send_bytes_moved: "send_bytes deadline bs n io = Some (r, io') \<Longrightarrow> moved s io s io'"
proof (induction deadline bs n io rule: send_bytes.induct)
  case (1 deadline bs n io)
  note turn = send_bytes.simps [of deadline bs n "_ # _"]
  show ?case
  proof (cases "bs = [] \<or> n > MAX_CALL_FDS")
    case True
    with "1.prems" show ?thesis by (auto simp: send_bytes.simps [of deadline bs n io] intro: moved_refl split: if_splits)
  next
    case False
    then have bs: "bs \<noteq> []" "\<not> n > MAX_CALL_FDS" by auto
    show ?thesis
    proof (cases io)
      case (Cons a io1)
      have head: "got [a] = [] \<Longrightarrow> moved s io1 s io' \<Longrightarrow> moved s io s io'"
        unfolding Cons by (rule io_moved_trans [OF moved_quiet])
      show ?thesis
      proof (cases a)
        case (Sent k)
        show ?thesis
        proof (cases "k = 0")
          case True
          with "1.prems" Sent Cons bs have "io' = io1" by (simp add: turn)
          with head Sent show ?thesis by (simp add: moved_refl)
        next
          case False
          with "1.prems" Sent Cons bs have "send_bytes deadline (drop k bs) 0 io1 = Some (r, io')" by (simp add: turn)
          with "1.IH"(1) [OF bs Cons Sent False] head Sent show ?thesis by simp
        qed
      next
        case SendIntr
        with "1.prems" Cons bs have "send_bytes deadline bs n io1 = Some (r, io')" by (simp add: turn)
        with "1.IH"(2) [OF bs Cons SendIntr] head SendIntr show ?thesis by simp
      next
        case SendAgain
        with "1.prems" Cons bs obtain w io2 where w: "wait_ready deadline io1 = Some (w, io2)"
          by (auto simp: turn split: option.splits)
        have "moved s io2 s io'"
        proof (cases w)
          case (Inl e)
          with "1.prems" SendAgain Cons bs w have "io' = io2" by (simp add: turn)
          then show ?thesis by (simp add: moved_refl)
        next
          case (Inr u)
          with "1.prems" SendAgain Cons bs w have "send_bytes deadline bs n io2 = Some (r, io')" by (simp add: turn)
          with "1.IH"(3) [OF bs Cons SendAgain w refl Inr] show ?thesis by simp
        qed
        then have "moved s io1 s io'" by (rule io_moved_trans [OF wait_ready_moved [OF w]])
        with head SendAgain show ?thesis by simp
      next
        case (SendErr e)
        with "1.prems" Cons bs have "io' = io1" by (simp add: turn)
        with head SendErr show ?thesis by (simp add: moved_refl)
      qed (use "1.prems" Cons bs in \<open>simp_all add: turn\<close>)
    qed (use "1.prems" bs in \<open>simp add: send_bytes.simps\<close>)
  qed
qed

lemma send_run_Some: "send_run deadline bs n s io = Some (r, s', io') \<Longrightarrow> s' = s \<and> moved s io s' io'"
  by (auto simp: send_run_def dest: send_bytes_moved)

lemma send_tame: "tame (send_run deadline bs n)"
  unfolding tame_def using send_run_Some by blast

lemma send_call_tame: "tame (send_call dest path iface member sig body n deadline owner)"
proof -
  have "tame (\<lambda>s io. run_bind (lift (encode_message MSG_METHOD_CALL 0 serial (call_fields owner path iface member sig n) bs) s io)
      (\<lambda>message s io. run_bind (send_run deadline message n s io) (\<lambda>_. await_reply deadline dest owner serial)))" for serial bs
    by (intro tame_bind tame_lift send_tame await_tame)
  then have "tame (\<lambda>s io. let serial = max (se_serial s + 1) 1; s = s\<lparr>se_serial := serial\<rparr> in
      run_bind (lift (encode_message MSG_METHOD_CALL 0 serial (call_fields owner path iface member sig n) bs) s io)
        (\<lambda>message s io. run_bind (send_run deadline message n s io) (\<lambda>_. await_reply deadline dest owner serial)))" for bs
    by (fastforce simp: tame_def Let_def)
  then show ?thesis unfolding send_call_def [abs_def] by (intro tame_bind tame_lift)
qed

lemma call_tame: "tame (seek deadline) \<Longrightarrow> tame (call_with seek dest path iface member sig body n deadline)"
  unfolding call_with_def [abs_def] by (intro tame_if tame_bind tame_lift send_call_tame)

lemma bus_tame: "tame (bus_call member sig body deadline)"
  unfolding bus_call_def by (rule call_tame) (rule tame_lift)

lemma max_serial: "max (x + 1) 1 \<noteq> (0 :: u32)"
  by (metis max.cobounded2 word_le_0_iff zero_neq_one)

lemma send_call_answered:
  assumes "send_call dest path iface member sig body n deadline owner s io = Some (Inr vs, s', io')"
  shows "answered s io io' (se_serial s') owner vs \<and> se_owners s' = se_owners s \<and> se_serial s' = max (se_serial s + 1) 1"
proof -
  let ?s = "s\<lparr>se_serial := max (se_serial s + 1) 1\<rparr>"
  from assms obtain message s2 io2 where
    m: "send_run deadline message n ?s io = Some (Inr (), s2, io2)"
      "await_reply deadline dest owner (max (se_serial s + 1) 1) s2 io2 = Some (Inr vs, s', io')"
    unfolding send_call_def run_bind_Inr lift_Inr Let_def by auto
  note sent = send_run_Some [OF m(1)] and got = await_answered [OF m(2)]
  have "moved s io ?s io" by (rule moved_refl) simp
  then have "moved s io s2 io2" using sent by (blast intro: io_moved_trans)
  with answered_within [OF conjunct1 [OF got] this suffix_order.refl] sent got show ?thesis
    by (auto simp: reads_only_def)
qed

lemma call_with_Inr:
  assumes "call_with seek dest path iface member sig body n deadline s io = Some (Inr vs, s', io')"
  shows "\<exists>owner s1 io1. seek deadline s io = Some (Inr owner, s1, io1) \<and>
    send_call dest path iface member sig body n deadline owner s1 io1 = Some (Inr vs, s', io')"
  using assms unfolding call_with_def by (simp split: if_splits add: run_bind_Inr lift_Inr)

text \<open>Who may answer for a destination: a unique name and the bus for themselves, the owner remembered from
  before, or else the one unique name the bus itself gave in its reply to the call with serial \<open>q\<close>.\<close>

definition vouched :: "Session \<Rightarrow> Io list \<Rightarrow> Io list \<Rightarrow> u32 \<Rightarrow> bytes \<Rightarrow> bytes \<Rightarrow> bool" where
  "vouched s io io' q dest owner \<longleftrightarrow>
     (if dest = BUS_NAME \<or> unique_name dest then owner = dest
      else case map_of (se_owners s) dest of
        Some remembered \<Rightarrow> owner = remembered
      | None \<Rightarrow> unique_name owner \<and> answered s io io' q BUS_NAME [VStr owner])"

lemma ask_owner_Inr:
  assumes "ask_owner dest deadline s io = Some (Inr owner, s', io')"
  shows "unique_name owner \<and> answered s io io' (se_serial s') BUS_NAME [VStr owner] \<and>
    set (se_owners s') \<subseteq> set (se_owners s) \<and> moved s io s' io'"
proof -
  from assms obtain vs where vs: "bus_call (str ''GetNameOwner'') (str ''s'') [VStr dest] deadline s io = Some (Inr vs, s', io')"
      "one_name vs = Some owner" "unique_name owner"
    by (auto simp: ask_owner_def run_bind_Inr lift_Inr split: option.splits if_splits)
  from vs(2) have "vs = [VStr owner]" by (auto simp: one_name_def split: option.splits Value.splits)
  moreover have "answered s io io' (se_serial s') BUS_NAME vs"
    using call_with_Inr [OF vs(1) [unfolded bus_call_def]] send_call_answered by (fastforce simp: lift_Inr)
  ultimately show ?thesis using bus_tame vs(1,3) unfolding tame_def by blast
qed

lemma ask_tame: "tame (ask_owner dest deadline)"
  unfolding ask_owner_def [abs_def] by (intro tame_bind bus_tame tame_lift)

lemma start_tame: "tame (start_service dest deadline)"
  unfolding start_service_def [abs_def] by (intro tame_bind bus_tame tame_lift)

lemma seek_asked:
  assumes r: "(case ask_owner dest deadline s io of
       Some (Inl e, s1, io1) \<Rightarrow>
         if is_no_owner e then run_bind (start_service dest deadline s1 io1) (\<lambda>_. ask_owner dest deadline)
         else Some (Inl e, s1, io1)
     | other \<Rightarrow> other) = Some (Inr owner, s1, io1)"
  shows "\<exists>s2 io2. ask_owner dest deadline s2 io2 = Some (Inr owner, s1, io1) \<and> moved s io s2 io2 \<and>
    set (se_owners s2) \<subseteq> set (se_owners s)"
proof (cases "\<exists>e s3 io3. ask_owner dest deadline s io = Some (Inl e, s3, io3)")
  case True
  then obtain e s3 io3 where e: "ask_owner dest deadline s io = Some (Inl e, s3, io3)" by blast
  with r have "run_bind (start_service dest deadline s3 io3) (\<lambda>_. ask_owner dest deadline) = Some (Inr owner, s1, io1)"
    by (simp split: if_splits)
  then obtain u s4 io4 where u: "start_service dest deadline s3 io3 = Some (Inr u, s4, io4)"
      "ask_owner dest deadline s4 io4 = Some (Inr owner, s1, io1)" unfolding run_bind_Inr by blast
  from ask_tame e have 1: "moved s io s3 io3" "set (se_owners s3) \<subseteq> set (se_owners s)" unfolding tame_def by blast+
  from start_tame u(1) have 2: "moved s3 io3 s4 io4" "set (se_owners s4) \<subseteq> set (se_owners s3)" unfolding tame_def by blast+
  from 1(1) 2(1) have "moved s io s4 io4" by (rule io_moved_trans)
  moreover from 1(2) 2(2) have "set (se_owners s4) \<subseteq> set (se_owners s)" by (rule subset_trans [rotated])
  ultimately show ?thesis using u(2) by blast
next
  case False
  with r have "ask_owner dest deadline s io = Some (Inr owner, s1, io1)"
    by (auto split: option.splits sum.splits prod.splits)
  then show ?thesis using moved_refl [of s s io] by blast
qed

lemma owner_of_vouched:
  assumes "owner_of dest deadline s io = Some (Inr owner, s', io')"
  shows "vouched s io io' (se_serial s') dest owner \<and> moved s io s' io' \<and>
    (set (se_owners s') \<subseteq> set (se_owners s) \<or>
     unique_name owner \<and> set (se_owners s') \<subseteq> set (se_owners s) \<union> {(dest, owner)})"
proof (cases "dest = BUS_NAME \<or> unique_name dest \<or> map_of (se_owners s) dest \<noteq> None")
  case True
  with assms have "s' = s" "io' = io" "vouched s io io' q dest owner" for q
    by (auto simp: owner_of_def lift_Inr vouched_def split: if_splits option.splits)
  then show ?thesis by (simp add: moved_refl)
next
  case False
  with assms obtain s1 where
    r: "(case ask_owner dest deadline s io of
           Some (Inl e, s1, io1) \<Rightarrow>
             if is_no_owner e then run_bind (start_service dest deadline s1 io1) (\<lambda>_. ask_owner dest deadline)
             else Some (Inl e, s1, io1)
         | other \<Rightarrow> other) = Some (Inr owner, s1, io')"
    and s': "s' = s1\<lparr>se_owners := se_owners s1 @ [(dest, owner)]\<rparr>"
    by (auto simp: owner_of_def run_bind_Inr remember_def lift_Inr)
  from seek_asked [OF r] obtain s2 io2 where
    a: "ask_owner dest deadline s2 io2 = Some (Inr owner, s1, io')" "moved s io s2 io2"
      "set (se_owners s2) \<subseteq> set (se_owners s)" by blast
  from ask_owner_Inr [OF a(1)] have
    b: "unique_name owner" "answered s2 io2 io' (se_serial s1) BUS_NAME [VStr owner]"
      "set (se_owners s1) \<subseteq> set (se_owners s2)" "moved s2 io2 s1 io'" by blast+
  have "answered s io io' (se_serial s1) BUS_NAME [VStr owner]" using answered_within [OF b(2) a(2)] by simp
  then have "vouched s io io' (se_serial s') dest owner" using False b(1) by (simp add: vouched_def s')
  moreover have "moved s1 io' s' io'" by (rule moved_refl) (simp add: s')
  then have "moved s io s' io'" using io_moved_trans [OF io_moved_trans [OF a(2) b(4)]] by blast
  moreover have "set (se_owners s') \<subseteq> set (se_owners s) \<union> {(dest, owner)}"
    using b(3) a(3) by (auto simp: s')
  ultimately show ?thesis using b(1) by blast
qed

text \<open>C39. Nobody but the peer asked can answer a call.  The values a call returns are the body of a whole message
  carried by the bytes the session's buffer held and those the socket gave while the call ran; it is a method
  return to this call's own non-zero serial, sent by the owner of the destination: the destination itself when it
  is a unique name or the bus, the owner remembered for it, or else the one unique name that the bus gave in its
  own reply, carried by the same bytes, to the call made just before.  Every remembered owner is a unique name
  again.\<close>

theorem reply_authentic:
  assumes "call_by dest path iface member sig body n deadline s io = Some (Inr vs, s', io')"
    and "\<forall>p \<in> set (se_owners s). unique_name (snd p)"
  shows "(\<exists>owner q. vouched s io io' q dest owner \<and> se_serial s' = max (q + 1) 1 \<and>
      answered s io io' (se_serial s') owner vs) \<and> se_serial s' \<noteq> 0 \<and>
    (\<forall>p \<in> set (se_owners s'). unique_name (snd p))"
proof -
  from call_with_Inr [OF assms(1) [unfolded call_by_def]] obtain owner s1 io1 where
    o: "owner_of dest deadline s io = Some (Inr owner, s1, io1)"
      "send_call dest path iface member sig body n deadline owner s1 io1 = Some (Inr vs, s', io')" by blast
  note v = owner_of_vouched [OF o(1)] and sent = send_call_answered [OF o(2)]
  have later: "suffix io' io1" using send_call_tame o(2) unfolding tame_def by (blast intro: moved_suffix)
  from v have "vouched s io io1 (se_serial s1) dest owner" by blast
  then have "vouched s io io' (se_serial s1) dest owner" using answered_within [OF _ moved_refl [OF refl] later]
    by (auto simp: vouched_def split: if_splits option.splits)
  moreover from v sent have "answered s io io' (se_serial s') owner vs" using answered_within by blast
  moreover from v have "\<forall>p \<in> set (se_owners s1). unique_name (snd p)" using assms(2) by force
  moreover have "se_serial s' \<noteq> 0" using sent max_serial [of "se_serial s1"] by simp
  ultimately show ?thesis using sent by auto
qed

lemma no_signature: "parse_signature [] = Inr []"
  by (simp add: parse_signature_Inr parse_all_iff MAX_SIGNATURE_def)

lemma dbus_encode_nothing: "dbus_encode [] [] = Inr []"
  by (simp add: dbus_encode_def no_signature)

lemma dbus_decode_nothing: "dbus_decode [] [] = Inr []"
  by (simp add: dbus_decode_def no_signature reader_new_def)

text \<open>A call with no arguments to a peer named by its unique name, whose reply is in the buffer.\<close>

definition demo_peer :: bytes where
  "demo_peer = str '':1.2''"

definition demo_reply :: Message where
  "demo_reply = \<lparr>me_kind = MSG_METHOD_RETURN, me_reply_serial = Some 1, me_error_name = None,
     me_sender = Some demo_peer, me_signature = [], me_unix_fds = 0, me_body = []\<rparr>"

lemma demo_reply_bytes:
  "\<exists>m. frame m = Inr (length m, 0) \<and> FIXED_HEADER \<le> length m \<and> decode_message m = Inr demo_reply"
proof -
  let ?fs = "[(FIELD_REPLY_SERIAL, VUint32 1), (FIELD_SENDER, VStr demo_peer)]"
  obtain m where m: "encode_message MSG_METHOD_RETURN 0 1 ?fs [] = Inr m" "length m \<le> 100"
    using message_encodes [of ?fs "[]" MSG_METHOD_RETURN 0 1]
    by (auto simp: field_ok_def field_size_def demo_peer_def)
  have "list_all (\<lambda>f. texts_ok (snd f)) ?fs" "count_all (map field_value ?fs) + 7 \<le> MAX_VALUES"
      "length m \<le> MAX_INCOMING"
    using m(2) by (simp_all add: field_value_def MAX_VALUES_def MAX_INCOMING_def demo_peer_def)
  from message_reads [OF m(1) this] have "frame m = Inr (length m, 0)" "decode_message m = Inr demo_reply"
    by (simp_all add: interpret_fields_def field_pair_def field_value_def take_field_def demo_reply_def
        FIELD_REPLY_SERIAL_def FIELD_SENDER_def FIELD_ERROR_NAME_def)
  moreover have "FIXED_HEADER \<le> length m"
    using \<open>frame m = _\<close> by (auto simp: frame_def get_range_def ok_or_def split: if_splits)
  ultimately show ?thesis by blast
qed

lemma demo_call_bytes:
  "\<exists>m. encode_message MSG_METHOD_CALL 0 1 (call_fields demo_peer (str ''/'') [] (str ''Ping'') [] 0) [] = Inr m \<and> m \<noteq> []"
proof -
  let ?fs = "call_fields demo_peer (str ''/'') [] (str ''Ping'') [] 0"
  obtain m where "encode_message MSG_METHOD_CALL 0 1 ?fs [] = Inr m"
    using message_encodes [of ?fs "[]" MSG_METHOD_CALL 0 1]
    by (auto simp: field_ok_def field_size_def demo_peer_def call_fields_def valid_object_path_def)
  moreover have "list_all texts_ok (map field_value ?fs)"
    by (simp add: call_fields_def field_value_def demo_peer_def)
  ultimately have "m \<noteq> []"
    by (auto simp: encode_message_def Let_def rust_simps pad_def split: if_splits dest!: header_layout)
  with \<open>encode_message _ _ _ _ _ = Inr m\<close> show ?thesis by blast
qed

theorem reply_authentic_witness:
  "\<exists>reply (call :: bytes) s'. call \<noteq> [] \<and>
     call_by demo_peer (str ''/'') [] (str ''Ping'') [] [] 0 1 session_new [Sent (length call), Clock 0, Clock 0, Got reply 0]
       = Some (Inr [], s', []) \<and>
     answered session_new [Sent (length call), Clock 0, Clock 0, Got reply 0] [] (se_serial s') demo_peer [] \<and>
     se_serial s' \<noteq> 0"
proof -
  obtain reply where reply: "frame reply = Inr (length reply, 0)" "FIXED_HEADER \<le> length reply"
      "decode_message reply = Inr demo_reply" using demo_reply_bytes by blast
  obtain call where call: "encode_message MSG_METHOD_CALL 0 1 (call_fields demo_peer (str ''/'') [] (str ''Ping'') [] 0) [] = Inr call"
      "call \<noteq> []" using demo_call_bytes by blast
  let ?s = session_new and ?io = "[Sent (length call), Clock 0, Clock 0, Got reply 0]"
  let ?s1 = "?s\<lparr>se_serial := 1\<rparr>" and ?s2 = "?s\<lparr>se_serial := 1, se_buf := []\<rparr>"
  have sent: "send_bytes 1 call 0 ?io = Some (Inr (), [Clock 0, Clock 0, Got reply 0])"
    using call(2) by (simp add: send_bytes.simps MAX_CALL_FDS_def)
  have some: "reply \<noteq> []" using reply(2) by (auto simp: FIXED_HEADER_def)
  have empty: "whole_message ?s1 = (Inr None, ?s1)" by (simp add: whole_message_def session_new_def FIXED_HEADER_def)
  have full: "whole_message (?s1\<lparr>se_fds_seen := 0, se_buf := reply\<rparr>) = (Inr (Some demo_reply), ?s2)"
    using reply by (simp add: whole_message_def session_new_def demo_reply_def)
  have "fill 1 ?s1 [Got reply 0] = Some (Inr (), ?s1\<lparr>se_fds_seen := 0, se_buf := reply\<rparr>, [])"
    using some by (simp add: fill.simps session_new_def)
  then have "receive 1 ?s1 [Clock 0, Got reply 0] = Some (Inr demo_reply, ?s2, [])"
    using empty full by (simp add: receive.simps)
  then have got: "await_reply 1 demo_peer demo_peer 1 ?s1 [Clock 0, Clock 0, Got reply 0] = Some (Inr [], ?s2, [])"
    by (simp add: await_reply.simps [of _ _ _ _ _ "_ # _"] judge_reply_def demo_reply_def reply_result_def
        dbus_decode_nothing)
  have run: "call_by demo_peer (str ''/'') [] (str ''Ping'') [] [] 0 1 ?s ?io = Some (Inr [], ?s2, [])"
    using call(1) sent got
    by (simp add: call_by_def call_with_def owner_of_def send_call_def run_bind_def lift_def send_run_def
        unique_name_def demo_peer_def starts_with_def session_new_def Let_def dbus_encode_nothing)
  have "unique_name demo_peer" by (simp add: unique_name_def demo_peer_def starts_with_def)
  with run reply_authentic [OF run] call(2) have
    "call \<noteq> [] \<and> call_by demo_peer (str ''/'') [] (str ''Ping'') [] [] 0 1 ?s ?io = Some (Inr [], ?s2, []) \<and>
     answered ?s ?io [] (se_serial ?s2) demo_peer [] \<and> se_serial ?s2 \<noteq> 0"
    by (auto simp: session_new_def vouched_def)
  then show ?thesis by (intro exI)
qed

end
