(* ===== verification/Core_Path.thy ===== *)
theory Core_Path
  imports Bub_Utf8 "HOL-Library.Sublist"
begin

text \<open>
  Unix paths as \<^verbatim>\<open>std::path\<close> reads them, which is what the core's path checks are written in:
  a path is its bytes, and \<^verbatim>\<open>components\<close>, \<^verbatim>\<open>starts_with\<close>, \<^verbatim>\<open>strip_prefix\<close>, \<^verbatim>\<open>join\<close>,
  \<^verbatim>\<open>parent\<close> and \<^verbatim>\<open>==\<close> work on its components, in which repeated separators, inner
  dots and a trailing separator do not count.  Shown: what joining does to the components.
\<close>

type_synonym path = bytes

datatype Component = RootDir | CurDir | ParentDir | Normal bytes

definition slash :: byte where
  "slash = of_char CHR ''/''"

definition is_absolute :: "path \<Rightarrow> bool" where
  "is_absolute p \<longleftrightarrow> p \<noteq> [] \<and> hd p = slash"

text \<open>The pieces between separators that are no component.\<close>

definition empty_piece :: "bytes \<Rightarrow> bool" where
  "empty_piece s \<longleftrightarrow> s = [] \<or> s = str ''.''"

definition piece :: "bytes \<Rightarrow> Component" where
  "piece s = (if s = str ''..'' then ParentDir else Normal s)"

definition body_components :: "bytes list \<Rightarrow> Component list" where
  "body_components ss = map piece (filter (\<lambda>s. \<not> empty_piece s) ss)"

definition components :: "path \<Rightarrow> Component list" where
  "components p =
     (if is_absolute p then RootDir # body_components (split_on slash p)
      else if hd (split_on slash p) = str ''.'' then CurDir # body_components (tl (split_on slash p))
      else body_components (split_on slash p))"

definition path_eq :: "path \<Rightarrow> path \<Rightarrow> bool" where
  "path_eq p q \<longleftrightarrow> components p = components q"

definition path_starts_with :: "path \<Rightarrow> path \<Rightarrow> bool" where
  "path_starts_with p base \<longleftrightarrow> prefix (components base) (components p)"

definition path_join :: "path \<Rightarrow> path \<Rightarrow> path" where
  "path_join p q =
     (if is_absolute q then q
      else if p \<noteq> [] \<and> last p \<noteq> slash then p @ slash # q
      else p @ q)"

text \<open>The text left of a path once so many of its components are taken off the front, without the
  separators and dots at either end.\<close>

fun drop_components :: "nat \<Rightarrow> bytes list \<Rightarrow> bytes list" where
  "drop_components 0 ss = ss"
| "drop_components (Suc n) [] = []"
| "drop_components (Suc n) (s # ss) =
     (if empty_piece s then drop_components (Suc n) ss else drop_components n ss)"

definition trim_pieces :: "bytes list \<Rightarrow> bytes list" where
  "trim_pieces ss = rev (dropWhile empty_piece (rev (dropWhile empty_piece ss)))"

definition strip_path :: "path \<Rightarrow> path \<Rightarrow> path option" where
  "strip_path p base =
     (if \<not> path_starts_with p base then None
      else
        let ss = split_on slash p in
        Some (case components base of
                [] \<Rightarrow>
                  if components p = [RootDir] then [slash]
                  else join [slash] (hd ss # rev (dropWhile empty_piece (rev (tl ss))))
              | RootDir # cs \<Rightarrow> join [slash] (trim_pieces (drop_components (length cs) (tl ss)))
              | CurDir # cs \<Rightarrow> join [slash] (trim_pieces (drop_components (length cs) (tl ss)))
              | cs \<Rightarrow> join [slash] (trim_pieces (drop_components (length cs) ss))))"

text \<open>\<open>path.parent() == Some(dir)\<close>.\<close>

definition parent_is :: "path \<Rightarrow> path \<Rightarrow> bool" where
  "parent_is p dir \<longleftrightarrow> components p \<noteq> [] \<and> last (components p) \<noteq> RootDir \<and> butlast (components p) = components dir"

text \<open>\<open>path.file_name()\<close>.\<close>

definition file_name :: "path \<Rightarrow> bytes option" where
  "file_name p =
     (if components p = [] then None else case last (components p) of Normal s \<Rightarrow> Some s | _ \<Rightarrow> None)"

text \<open>\<open>components().collect::<PathBuf>()\<close>, a component at a time.\<close>

fun component_text :: "Component \<Rightarrow> bytes" where
  "component_text RootDir = [slash]"
| "component_text CurDir = str ''.''"
| "component_text ParentDir = str ''..''"
| "component_text (Normal s) = s"

definition collect_path :: "Component list \<Rightarrow> path" where
  "collect_path cs = foldl (\<lambda>p c. path_join p (component_text c)) [] cs"

text \<open>Whether two paths are the same or one holds the other.\<close>

definition nested :: "path \<Rightarrow> path \<Rightarrow> bool" where
  "nested a b \<longleftrightarrow> path_starts_with a b \<or> path_starts_with b a"

section \<open>Components of joined paths\<close>

lemma split_on_append: "split_on c (xs @ c # ys) = split_on c xs @ split_on c ys"
  by (induction xs) (auto split: list.splits)

lemma body_append: "body_components (a @ b) = body_components a @ body_components b"
  by (simp add: body_components_def)

lemma body_Nil [simp]: "body_components [] = []" "body_components [[]] = []"
  by (simp_all add: body_components_def empty_piece_def)

lemma split_absolute: "is_absolute p \<Longrightarrow> split_on slash p = [] # split_on slash (tl p)"
  by (cases p) (auto simp: is_absolute_def)

lemma absolute_components: "is_absolute p \<longleftrightarrow> (\<exists>cs. components p = RootDir # cs)"
proof -
  have "RootDir \<notin> set (body_components ss)" for ss
    by (auto simp: body_components_def piece_def split: if_splits)
  then have "body_components ss \<noteq> RootDir # cs" for ss cs by (metis list.set_intros(1))
  then show ?thesis by (auto simp: components_def)
qed

text \<open>What a relative path adds when it is joined to another: its components but a leading dot.\<close>

definition added :: "path \<Rightarrow> Component list" where
  "added q = body_components (split_on slash q)"

lemma hd_split_append: "p \<noteq> [] \<Longrightarrow> hd (split_on slash p @ r) = hd (split_on slash p)"
  by simp

lemma components_append:
  assumes "p \<noteq> []"
  shows "components (p @ slash # q) = components p @ added q"
proof -
  have "is_absolute (p @ slash # q) \<longleftrightarrow> is_absolute p" using assms by (auto simp: is_absolute_def)
  moreover have "tl (split_on slash p @ split_on slash q) = tl (split_on slash p) @ split_on slash q" by simp
  ultimately show ?thesis by (simp add: components_def split_on_append body_append added_def)
qed

lemma components_slash: "p \<noteq> [] \<Longrightarrow> components (p @ [slash]) = components p"
  using components_append [of p "[]"] by (simp add: added_def)

lemma components_root: "components (slash # q) = RootDir # added q"
  by (simp add: components_def is_absolute_def added_def body_components_def empty_piece_def)

lemma components_join:
  assumes "p \<noteq> []" and "\<not> is_absolute q"
  shows "components (path_join p q) = components p @ added q"
proof (cases "last p = slash")
  case False
  with assms show ?thesis by (simp add: path_join_def components_append)
next
  case True
  with assms(1) obtain p' where p: "p = p' @ [slash]" by (metis append_butlast_last_id)
  show ?thesis
  proof (cases "p' = []")
    case True
    with p assms(2) show ?thesis
      by (simp add: path_join_def components_root) (simp add: added_def)
  next
    case False
    then have "components (p' @ slash # q) = components p' @ added q" by (rule components_append)
    with p assms(2) False True show ?thesis by (simp add: path_join_def components_slash)
  qed
qed

lemma join_starts_with:
  "p \<noteq> [] \<Longrightarrow> \<not> is_absolute q \<Longrightarrow> path_starts_with (path_join p q) p"
  by (simp add: path_starts_with_def components_join)

lemma added_name: "slash \<notin> set n \<Longrightarrow> \<not> empty_piece n \<Longrightarrow> added n = [piece n]"
  by (simp add: added_def split_on_no_sep body_components_def)

lemma starts_with_trans: "path_starts_with p q \<Longrightarrow> path_starts_with q r \<Longrightarrow> path_starts_with p r"
  by (auto simp: path_starts_with_def)

lemma starts_with_refl [simp]: "path_starts_with p p"
  by (simp add: path_starts_with_def)

lemma nested_sym: "nested a b \<longleftrightarrow> nested b a"
  by (auto simp: nested_def)

lemma nested_refl [simp]: "nested a a"
  by (simp add: nested_def)

text \<open>Nothing below a path that is apart from a root meets the root.\<close>

lemma apart_below:
  assumes "\<not> nested a root" and "path_starts_with b a"
  shows "\<not> path_starts_with b root"
  using assms by (auto simp: nested_def path_starts_with_def dest: prefix_same_cases)

end
