(* ===== verification/Core_Host.thy ===== *)
theory Core_Host
  imports Core_Path
begin

text \<open>
  What the core is told about the host: the environment facts of \<^verbatim>\<open>env.rs\<close> with its two policies
  (which variables pass, which search directories count), the host's files behind the trait of
  \<^verbatim>\<open>host.rs\<close>, the launch errors of \<^verbatim>\<open>error.rs\<close> the argument builder raises, the probes
  every service makes of a path (\<^verbatim>\<open>service.rs\<close>) and the lookup of bubbler's own binaries
  (\<^verbatim>\<open>init_bin.rs\<close>).  The host is a parameter of everything that asks it.
\<close>

section \<open>Environment\<close>

definition SANDBOX_HOME :: path where
  "SANDBOX_HOME = str ''/home/bubbler''"

definition DEFAULT_DATA_DIRS :: "path list" where
  "DEFAULT_DATA_DIRS = [str ''/usr/local/share'', str ''/usr/share'']"

definition DEFAULT_CONFIG_DIRS :: "path list" where
  "DEFAULT_CONFIG_DIRS = [str ''/etc/xdg'']"

definition PASSTHROUGH_VARS :: "bytes list" where
  "PASSTHROUGH_VARS = [str ''TERM'', str ''LANG'', str ''LANGUAGE'', str ''COLORTERM'', str ''TZ'']"

definition is_passthrough :: "bytes \<Rightarrow> bool" where
  "is_passthrough name \<longleftrightarrow> starts_with (str ''LC_'') name \<or> name \<in> set PASSTHROUGH_VARS"

definition xdg_dirs :: "bytes option \<Rightarrow> path list \<Rightarrow> path list" where
  "xdg_dirs v defaults =
     (case v of
        Some t \<Rightarrow> if t = [] then defaults else filter is_absolute (split_on (of_char CHR '':'') t)
      | None \<Rightarrow> defaults)"

record Env =
  env_home :: path
  env_data_home :: path
  env_config_home :: path
  env_config_dirs :: "path list"
  env_data_dirs :: "path list"
  env_runtime_dir :: path
  env_uid :: u32
  env_gid :: u32
  env_wayland_display :: "bytes option"
  env_display :: "bytes option"
  env_xauthority :: "path option"
  env_passthrough :: "(bytes \<times> bytes) list"
  env_init_override :: "path option"
  env_dbus_address :: "bytes option"
  env_dbus_system_address :: "bytes option"
  env_at_spi_bus_address :: "bytes option"
  env_dbus_log :: bool
  env_net_proxy_log :: bool
  env_seccomp_log :: bool
  env_test_allow_path :: "path option"
  env_profile_dir_override :: "path option"
  env_proxy_override :: "path option"
  env_pasta_override :: "path option"
  env_wl_proxy_override :: "path option"
  env_net_proxy_override :: "path option"

section \<open>Host files\<close>

datatype FileType = RegularFile | Directory | Socket | CharDevice | OtherType

text \<open>The trait: what each question is answered.  \<open>h_current_exe\<close> is \<open>std::env::current_exe\<close>.\<close>

record Host =
  h_file_type :: "path \<Rightarrow> FileType option"
  h_list_dir :: "path \<Rightarrow> bytes list"
  h_canonicalize :: "path \<Rightarrow> path option"
  h_is_mountpoint :: "path \<Rightarrow> bool option"
  h_writable :: "path \<Rightarrow> bool"
  h_read_link :: "path \<Rightarrow> nat + path option"
  h_read :: "path \<Rightarrow> bytes option"
  h_current_exe :: "path option"

datatype LaunchError =
    MissingResource bytes path
  | WrongType bytes path bytes
  | MissingEnv bytes bytes
  | BadValue bytes bytes
  | PlantedSymlink path bytes path path
  | UncheckedDestination path bytes path nat
  | UnwalkableDestination path
  | DataError nat
  | NoCommand
  | SeccompFailed bytes

section \<open>Probes\<close>

definition require :: "Host \<Rightarrow> bytes \<Rightarrow> path \<Rightarrow> bytes \<Rightarrow> (FileType \<Rightarrow> bool) \<Rightarrow> LaunchError + path" where
  "require h service p expected accept =
     (case h_file_type h p of
        None \<Rightarrow> Inl (MissingResource service p)
      | Some t \<Rightarrow> if accept t then Inr p else Inl (WrongType service p expected))"

definition require_socket :: "Host \<Rightarrow> bytes \<Rightarrow> path \<Rightarrow> LaunchError + path" where
  "require_socket h service p = require h service p (str ''a socket'') (\<lambda>t. t = Socket)"

definition require_file :: "Host \<Rightarrow> bytes \<Rightarrow> path \<Rightarrow> LaunchError + path" where
  "require_file h service p = require h service p (str ''a regular file'') (\<lambda>t. t = RegularFile)"

definition require_dir :: "Host \<Rightarrow> bytes \<Rightarrow> path \<Rightarrow> LaunchError + path" where
  "require_dir h service p = require h service p (str ''a directory'') (\<lambda>t. t = Directory)"

definition require_dir_or_file :: "Host \<Rightarrow> bytes \<Rightarrow> path \<Rightarrow> LaunchError + path" where
  "require_dir_or_file h service p =
     require h service p (str ''a directory or a regular file'') (\<lambda>t. t = Directory \<or> t = RegularFile)"

definition require_exists :: "Host \<Rightarrow> bytes \<Rightarrow> path \<Rightarrow> LaunchError + path" where
  "require_exists h service p =
     (case h_file_type h p of Some _ \<Rightarrow> Inr p | None \<Rightarrow> Inl (MissingResource service p))"

definition is_type :: "Host \<Rightarrow> FileType \<Rightarrow> path \<Rightarrow> bool" where
  "is_type h t p \<longleftrightarrow> h_file_type h p = Some t"

lemma require_Inr [rust_simps]:
  "require h service p expected accept = Inr q \<longleftrightarrow> q = p \<and> (\<exists>t. h_file_type h p = Some t \<and> accept t)"
  by (auto simp: require_def split: option.splits)

lemma require_exists_Inr [rust_simps]:
  "require_exists h service p = Inr q \<longleftrightarrow> q = p \<and> h_file_type h p \<noteq> None"
  by (auto simp: require_exists_def split: option.splits)

section \<open>Bubbler's own binaries\<close>

definition INIT_NAME :: bytes where
  "INIT_NAME = str ''bubbler-init''"

definition INIT_INSTALLED :: path where
  "INIT_INSTALLED = str ''/usr/lib/bubbler/bubbler-init''"

datatype Found = Override | Sibling | Installed

text \<open>The directory a program is in; \<open>None\<close> for a path with no parent.\<close>

definition parent_dir :: "path \<Rightarrow> path option" where
  "parent_dir p =
     (if components p = [] \<or> last (components p) = RootDir then None
      else Some (collect_path (butlast (components p))))"

definition sibling_of :: "Host \<Rightarrow> bytes \<Rightarrow> path option" where
  "sibling_of h name =
     (case h_current_exe h of
        None \<Rightarrow> None
      | Some exe \<Rightarrow>
          (case parent_dir exe of
             None \<Rightarrow> None
           | Some dir \<Rightarrow> let p = path_join dir name in if is_type h RegularFile p then Some p else None))"

definition locate_binary :: "path option \<Rightarrow> bytes \<Rightarrow> path \<Rightarrow> bytes \<Rightarrow> Host \<Rightarrow> LaunchError + path \<times> Found" where
  "locate_binary over name installed service h =
     (case over of
        Some p \<Rightarrow> res_bind (require_file h service p) (\<lambda>p. Inr (p, Override))
      | None \<Rightarrow>
          (case sibling_of h name of
             Some p \<Rightarrow> Inr (p, Sibling)
           | None \<Rightarrow> res_bind (require_file h service installed) (\<lambda>p. Inr (p, Installed))))"

definition locate_init :: "Env \<Rightarrow> Host \<Rightarrow> LaunchError + path" where
  "locate_init env h =
     res_bind (locate_binary (env_init_override env) INIT_NAME INIT_INSTALLED (str ''init'') h) (\<lambda>r. Inr (fst r))"

text \<open>Whatever binary is found is a regular file, and an override is never quietly replaced.\<close>

lemma locate_binary_Inr:
  assumes "locate_binary over name installed service h = Inr (p, found)"
  shows "h_file_type h p = Some RegularFile \<and> (over \<noteq> None \<longrightarrow> over = Some p \<and> found = Override) \<and>
    (found = Installed \<longrightarrow> p = installed)"
  using assms
  by (auto simp: locate_binary_def sibling_of_def require_file_def rust_simps is_type_def Let_def split: option.splits if_splits)

lemma xdg_dirs_absolute: "list_all is_absolute defaults \<Longrightarrow> list_all is_absolute (xdg_dirs v defaults)"
  by (auto simp: xdg_dirs_def list_all_iff split: option.split)

end
