(* ===== verification/Core_Addr.thy ===== *)
theory Core_Addr
  imports Net_Args
begin

text \<open>
  Addresses as text: the standard library's \<^verbatim>\<open>Display\<close> for an address, which the launcher
  writes into resolver files, firewall rules and the proxy's argv, against its \<^verbatim>\<open>FromStr\<close>
  (\<open>parse_ip\<close>), with which the profile parser and the proxy read them.  Shown: an address reads back as
  printed, the compressed and the IPv4-mapped form included.
\<close>

section \<open>Addresses as text\<close>

definition ipv4_fmt :: "byte \<Rightarrow> byte \<Rightarrow> byte \<Rightarrow> byte \<Rightarrow> bytes" where
  "ipv4_fmt a b c d = join [dot] (map (\<lambda>x. dec_digits (unat x)) [a, b, c, d])"

definition hex_digit :: "nat \<Rightarrow> byte" where
  "hex_digit n = (if n < 10 then of_nat (48 + n) else of_nat (87 + n))"

fun hex_digits :: "nat \<Rightarrow> bytes" where
  "hex_digits n = (if n < 16 then [hex_digit n] else hex_digits (n div 16) @ [hex_digit (n mod 16)])"

declare hex_digits.simps [simp del]

text \<open>The eight groups of an address, and the longest run of zero groups (the first of equals).\<close>

fun segments :: "bytes \<Rightarrow> u16 list" where
  "segments (a # b # rest) = be_u16 a b # segments rest"
| "segments _ = []"

fun zero_run :: "nat \<Rightarrow> u16 list \<Rightarrow> nat \<times> nat \<Rightarrow> nat \<times> nat \<Rightarrow> nat \<times> nat" where
  "zero_run i [] cur longest = longest"
| "zero_run i (s # ss) cur longest =
     (if s = 0 then
        let cur = (if snd cur = 0 then (i, 1) else (fst cur, snd cur + 1)) in
        zero_run (i + 1) ss cur (if snd cur > snd longest then cur else longest)
      else zero_run (i + 1) ss (0, 0) longest)"

definition groups_fmt :: "u16 list \<Rightarrow> bytes" where
  "groups_fmt ss = join [0x3a] (map (\<lambda>s. hex_digits (unat s)) ss)"

definition ipv6_fmt :: "bytes \<Rightarrow> bytes" where
  "ipv6_fmt x =
     (case to_ipv4_mapped x of
        Some (a, b, c, d) \<Rightarrow> str ''::ffff:'' @ ipv4_fmt a b c d
      | None \<Rightarrow>
          let ss = segments x; (start, len) = zero_run 0 ss (0, 0) (0, 0) in
          if len > 1 then groups_fmt (take start ss) @ [0x3a, 0x3a] @ groups_fmt (drop (start + len) ss)
          else groups_fmt ss)"

fun ip_fmt :: "IpAddr \<Rightarrow> bytes" where
  "ip_fmt (V4 a b c d) = ipv4_fmt a b c d"
| "ip_fmt (V6 x) = ipv6_fmt x"


section \<open>One group\<close>

lemma takeWhile_run:
  "list_all P xs \<Longrightarrow> ys = [] \<or> \<not> P (hd ys) \<Longrightarrow> takeWhile P (xs @ ys) = xs"
  by (induction xs) (cases ys; auto)+

lemma length_dec_digits: "n < 10 ^ Suc k \<Longrightarrow> length (dec_digits n) \<le> Suc k"
proof (induction k arbitrary: n)
  case (Suc k)
  show ?case
  proof (cases "n < 10")
    case False
    from Suc.prems have "n div 10 < 10 ^ Suc k" by auto
    with Suc.IH [of "n div 10"] False show ?thesis by (simp add: dec_digits.simps [of n])
  qed (simp add: dec_digits.simps [of n])
qed (simp add: dec_digits.simps)

lemma hd_dec_digits: "hd (dec_digits n) = 0x30 \<Longrightarrow> n = 0"
proof (induction n rule: dec_digits.induct)
  case (1 n)
  show ?case
  proof (cases "n < 10")
    case True
    then have "digit_val (hd (dec_digits n)) = n"
      using digit_of_nat [of n] by (simp add: dec_digits.simps [of n])
    with 1 show ?thesis by (simp add: digit_val_def)
  next
    case False
    with 1 show ?thesis by (simp add: dec_digits.simps [of n])
  qed
qed

lemma read_octet_fmt:
  assumes "rest = [] \<or> \<not> is_ascii_digit (hd rest)"
  shows "read_octet (dec_digits (unat a) @ rest) = Some (a, rest)"
proof -
  let ?ds = "dec_digits (unat a)"
  have "unat a < 256" using unsigned_less [of a] by simp
  moreover have "list_all is_ascii_digit ?ds" using dec_digits_ascii by (auto simp: list_all_iff)
  with assms have "takeWhile is_ascii_digit (?ds @ rest) = ?ds" by (rule takeWhile_run [rotated])
  moreover have "hd ?ds = 0x30 \<Longrightarrow> length ?ds \<le> 1"
    using hd_dec_digits [of "unat a"] by (simp add: dec_digits.simps)
  ultimately show ?thesis
    using length_dec_digits [of "unat a" 2] by (auto simp: read_octet_def Let_def dec_val_digits)
qed

lemma hex_digit_ok: "n < 16 \<Longrightarrow> is_hex (hex_digit n) \<and> hex_val (hex_digit n) = n"
proof -
  assume "n < 16"
  then have "n \<in> {0,1,2,3,4,5,6,7,8,9,10,11,12,13,14,15}" by (simp, arith)
  then show ?thesis by (auto simp: hex_digit_def is_hex_def hex_val_def is_ascii_digit_def)
qed

lemma hex_digits_ok:
  "hex_digits n \<noteq> [] \<and> list_all is_hex (hex_digits n) \<and> foldl (\<lambda>n d. 16 * n + hex_val d) 0 (hex_digits n) = n"
proof (induction n rule: hex_digits.induct)
  case (1 n)
  then show ?case
    using hex_digit_ok [of n] hex_digit_ok [of "n mod 16"] by (auto simp: hex_digits.simps [of n])
qed

lemma length_hex_digits: "n < 16 ^ Suc k \<Longrightarrow> length (hex_digits n) \<le> Suc k"
proof (induction k arbitrary: n)
  case (Suc k)
  show ?case
  proof (cases "n < 16")
    case False
    from Suc.prems have "n div 16 < 16 ^ Suc k" by auto
    with Suc.IH [of "n div 16"] False show ?thesis by (simp add: hex_digits.simps [of n])
  qed (simp add: hex_digits.simps [of n])
qed (simp add: hex_digits.simps)

definition stops :: "bytes \<Rightarrow> bool" where
  "stops rest \<longleftrightarrow> rest = [] \<or> hd rest = 0x3a"

lemma stops_not: "stops rest \<Longrightarrow> rest = [] \<or> \<not> is_hex (hd rest)"
  by (auto simp: stops_def is_hex_def is_ascii_digit_def)

lemma read_group_fmt:
  assumes "stops rest"
  shows "read_group (hex_digits (unat s) @ rest) = Some (u16_be s, rest)"
proof -
  let ?ds = "hex_digits (unat s)"
  have "takeWhile is_hex (?ds @ rest) = ?ds"
    using hex_digits_ok stops_not [OF assms] by (intro takeWhile_run) auto
  moreover have "unat s < 65536" using unsigned_less [of s] by simp
  ultimately show ?thesis
    using length_hex_digits [of "unat s" 3] hex_digits_ok [of "unat s"] by (auto simp: read_group_def Let_def)
qed

lemma dropWhile_digits: "list_all is_hex ds \<Longrightarrow> stops rest \<Longrightarrow> read_sep dot (Suc 0) (dropWhile is_ascii_digit (ds @ rest)) = None"
  by (induction ds) (cases rest; auto simp: read_sep_def stops_def is_hex_def is_ascii_digit_def)+

lemma read_octet_rest: "read_octet s = Some (a, t) \<Longrightarrow> t = dropWhile is_ascii_digit s"
  by (auto simp: read_octet_def Let_def dropWhile_eq_drop split: if_splits)

lemma read_ipv4_hex: "list_all is_hex ds \<Longrightarrow> stops rest \<Longrightarrow> read_ipv4 (ds @ rest) = None"
  by (cases "read_octet (ds @ rest)") (auto simp: read_ipv4_def dropWhile_digits dest!: read_octet_rest)

lemma read_ipv4_group: "stops rest \<Longrightarrow> read_ipv4 (hex_digits n @ rest) = None"
  using hex_digits_ok by (auto intro: read_ipv4_hex)

lemma read_ipv4_colon: "stops rest \<Longrightarrow> read_ipv4 rest = None"
  using read_ipv4_hex [of "[]" rest] by simp

lemma read_group_colon: "stops rest \<Longrightarrow> read_group rest = None"
  using stops_not [of rest] by (cases rest) (auto simp: read_group_def Let_def)

lemma read_ipv4_fmt: "rest = [] \<Longrightarrow> read_ipv4 (ipv4_fmt a b c d @ rest) = Some ([a, b, c, d], rest)"
proof -
  have *: "read_octet (dec_digits (unat x) @ dot # t) = Some (x, dot # t)" for x t
    by (rule read_octet_fmt) (simp add: is_ascii_digit_def)
  assume "rest = []"
  with * read_octet_fmt [of "[]"] show ?thesis
    by (simp add: read_ipv4_def ipv4_fmt_def read_sep_def)
qed

section \<open>All groups\<close>

definition tail_text :: "u16 list \<Rightarrow> bytes" where
  "tail_text ss = concat (map (\<lambda>s. 0x3a # hex_digits (unat s)) ss)"

lemma tail_text_simps [simp]:
  "tail_text [] = []" "tail_text (s # ss) = 0x3a # hex_digits (unat s) @ tail_text ss"
  by (simp_all add: tail_text_def)

lemma groups_fmt_simps: "groups_fmt [] = []" "groups_fmt (s # ss) = hex_digits (unat s) @ tail_text ss"
proof -
  show "groups_fmt (s # ss) = hex_digits (unat s) @ tail_text ss"
    by (induction ss arbitrary: s) (simp_all add: groups_fmt_def)
qed (simp add: groups_fmt_def)

definition ends :: "bytes \<Rightarrow> bool" where
  "ends rest \<longleftrightarrow> rest = [] \<or> (\<exists>t. rest = 0x3a # 0x3a # t)"

lemma ends_stops: "ends rest \<Longrightarrow> stops rest"
  by (auto simp: ends_def stops_def)

lemma tail_stops: "ends rest \<Longrightarrow> stops (tail_text ss @ rest)"
  by (cases ss) (auto simp: ends_stops, simp add: stops_def)

lemma read_groups_end: "ends rest \<Longrightarrow> read_groups fuel limit i acc rest = (acc, i, False, rest)"
proof (cases fuel)
  case (Suc n)
  assume "ends rest"
  then have "Option.bind (read_sep 0x3a i rest) f = None" if "\<And>t. stops t \<Longrightarrow> f t = None" for f :: "bytes \<Rightarrow> (bytes \<times> bytes) option"
    using that by (auto simp: ends_def read_sep_def stops_def)
  with Suc show ?thesis using read_ipv4_colon read_group_colon by simp
qed simp

lemma read_groups_tail:
  assumes "ends rest"
  shows "0 < i \<Longrightarrow> length ss \<le> fuel \<Longrightarrow>
    read_groups fuel limit i acc (tail_text ss @ rest) = (acc @ concat (map u16_be ss), i + length ss, False, rest)"
proof (induction ss arbitrary: fuel i acc)
  case Nil
  with assms show ?case by (simp add: read_groups_end)
next
  case (Cons s ss)
  then obtain n where "fuel = Suc n" by (cases fuel) auto
  with Cons show ?case
    using tail_stops [OF assms, of ss] by (simp add: read_sep_def read_ipv4_group read_group_fmt)
qed

lemma read_groups_fmt:
  assumes "ends rest" and "length ss \<le> fuel"
  shows "read_groups fuel limit 0 [] (groups_fmt ss @ rest) = (concat (map u16_be ss), length ss, False, rest)"
proof (cases ss)
  case Nil
  with assms show ?thesis by (simp add: groups_fmt_simps read_groups_end)
next
  case (Cons s ss')
  with assms obtain n where "fuel = Suc n" by (cases fuel) auto
  with Cons assms show ?thesis
    using tail_stops [OF assms(1), of ss']
    by (simp add: groups_fmt_simps read_sep_def read_ipv4_group read_group_fmt read_groups_tail)
qed

lemma length_u16_bytes: "length (concat (map u16_be ss)) = 2 * length ss"
  by (induction ss) auto

lemma segments_bytes: "even (length x) \<Longrightarrow> concat (map u16_be (segments x)) = x \<and> 2 * length (segments x) = length x"
  by (induction x rule: segments.induct) auto

section \<open>The longest run of zero groups\<close>

definition run_at :: "u16 list \<Rightarrow> nat \<Rightarrow> nat \<times> nat \<Rightarrow> bool" where
  "run_at ss i r \<longleftrightarrow> fst r + snd r \<le> i \<and> (\<forall>j. fst r \<le> j \<and> j < fst r + snd r \<longrightarrow> ss ! j = 0)"

lemma zero_run_at:
  "run_at (pre @ ss) (length pre) cur \<Longrightarrow> snd cur = 0 \<or> fst cur + snd cur = length pre \<Longrightarrow>
   run_at (pre @ ss) (length pre) longest \<Longrightarrow>
   run_at (pre @ ss) (length (pre @ ss)) (zero_run (length pre) ss cur longest)"
proof (induction ss arbitrary: pre cur longest)
  case (Cons s ss)
  let ?cur = "if s = 0 then if snd cur = 0 then (length pre, 1) else (fst cur, snd cur + 1) else (0, 0)"
  let ?longest = "if s = 0 \<and> snd ?cur > snd longest then ?cur else longest"
  have len: "length (pre @ [s]) = length pre + 1" by simp
  have cur: "run_at (pre @ s # ss) (length pre + 1) ?cur \<and> (snd ?cur = 0 \<or> fst ?cur + snd ?cur = length pre + 1)"
    using Cons.prems(1,2) by (auto simp: run_at_def nth_append less_Suc_eq)
  moreover have "run_at (pre @ s # ss) (length pre + 1) ?longest"
    using cur Cons.prems(3) by (auto simp: run_at_def)
  moreover have "zero_run (length pre) (s # ss) cur longest = zero_run (length pre + 1) ss ?cur ?longest"
    by (simp add: Let_def)
  ultimately show ?case
    using Cons.IH [of "pre @ [s]" ?cur ?longest] by (simp only: len append_assoc append.simps)
qed simp

lemma zero_run_split:
  assumes "zero_run 0 ss (0, 0) (0, 0) = (start, len)"
  shows "start + len \<le> length ss" and "ss = take start ss @ replicate len 0 @ drop (start + len) ss"
proof -
  have run: "run_at ss (length ss) (start, len)"
    using zero_run_at [of "[]" ss "(0, 0)" "(0, 0)"] assms by (simp add: run_at_def)
  then show le: "start + len \<le> length ss" by (simp add: run_at_def)
  have "take len (drop start ss) = replicate len 0"
    using run le by (intro nth_equalityI) (auto simp: run_at_def)
  then show "ss = take start ss @ replicate len 0 @ drop (start + len) ss"
    by (metis append_take_drop_id drop_drop add.commute)
qed

section \<open>The round trip\<close>

lemma parse_ipv6:
  assumes "read_ipv4 s = None" and "read_ipv6 s = Some (x, [])"
  shows "parse_ip s = Some (V6 x)"
  using assms by (simp add: parse_ip_def)

lemma read_ipv4_groups: "ends rest \<Longrightarrow> read_ipv4 (groups_fmt ss @ rest) = None"
  by (cases ss) (simp_all add: groups_fmt_simps read_ipv4_colon ends_stops read_ipv4_group tail_stops)

lemma u16_be_zeros: "concat (map u16_be (replicate n 0)) = replicate (2 * n) 0"
  by (induction n) (simp_all add: u16_be_def)

lemma parse_full:
  assumes "length ss = 8"
  shows "parse_ip (groups_fmt ss) = Some (V6 (concat (map u16_be ss)))"
  using read_groups_fmt [of "[]" ss 8 8] read_ipv4_groups [of "[]" ss] assms
  by (intro parse_ipv6) (simp_all add: read_ipv6_def ends_def)

lemma parse_compressed:
  assumes "length hs + length ts < 7"
  shows "parse_ip (groups_fmt hs @ [0x3a, 0x3a] @ groups_fmt ts) =
    Some (V6 (concat (map u16_be hs) @ replicate (16 - 2 * length hs - 2 * length ts) 0 @ concat (map u16_be ts)))"
proof (rule parse_ipv6)
  let ?rest = "[0x3a, 0x3a] @ groups_fmt ts"
  have e: "ends ?rest" "ends []" by (simp_all add: ends_def)
  then show "read_ipv4 (groups_fmt hs @ ?rest) = None" by (simp add: read_ipv4_groups)
  have "read_groups 8 8 0 [] (groups_fmt hs @ ?rest) = (concat (map u16_be hs), length hs, False, ?rest)"
    using e assms by (intro read_groups_fmt) auto
  moreover have "read_groups (7 - length hs) (7 - length hs) 0 [] (groups_fmt ts) = (concat (map u16_be ts), length ts, False, [])"
    using read_groups_fmt [OF e(2), of ts "7 - length hs" "7 - length hs"] assms by simp
  ultimately show "read_ipv6 (groups_fmt hs @ ?rest) = Some
      (concat (map u16_be hs) @ replicate (16 - 2 * length hs - 2 * length ts) 0 @ concat (map u16_be ts), [])"
    using assms by (simp add: read_ipv6_def length_u16_bytes)
qed

lemma parse_mapped:
  "parse_ip (str ''::ffff:'' @ ipv4_fmt a b c d) = Some (V6 (replicate 10 0 @ [0xff, 0xff, a, b, c, d]))"
proof (rule parse_ipv6)
  let ?t = "str ''ffff:'' @ ipv4_fmt a b c d"
  let ?s = "str ''::ffff:'' @ ipv4_fmt a b c d"
  have s: "?s = 0x3a # 0x3a # ?t" by simp
  have e: "ends ?s" unfolding s by (simp add: ends_def)
  then show "read_ipv4 ?s = None" by (intro read_ipv4_colon ends_stops)
  have hd: "read_ipv4 ?t = None"
    using read_ipv4_hex [of "str ''ffff''" "str '':'' @ ipv4_fmt a b c d"] by (simp add: is_hex_def stops_def)
  have "read_group (hex_digits (unat (0xffff :: u16)) @ str '':'' @ ipv4_fmt a b c d) =
      Some (u16_be 0xffff, str '':'' @ ipv4_fmt a b c d)"
    by (rule read_group_fmt) (simp add: stops_def)
  then have grp: "read_group ?t = Some ([0xff, 0xff], str '':'' @ ipv4_fmt a b c d)"
    by (simp add: hex_digits.simps hex_digit_def u16_be_def)
  have "read_groups 7 7 0 [] ?t = ([0xff, 0xff, a, b, c, d], 3, True, [])"
    using hd grp read_ipv4_fmt [of "[]" a b c d] by (simp add: numeral_eq_Suc read_sep_def)
  then show "read_ipv6 ?s = Some (replicate 10 0 @ [0xff, 0xff, a, b, c, d], [])"
    unfolding read_ipv6_def using read_groups_end [OF e] by (simp add: s numeral_eq_Suc)
qed

lemma mapped_bytes: "to_ipv4_mapped x = Some (a, b, c, d) \<Longrightarrow> x = replicate 10 0 @ [0xff, 0xff, a, b, c, d]"
proof -
  assume m: "to_ipv4_mapped x = Some (a, b, c, d)"
  then have "length x = 16" "take 12 x = replicate 10 0 @ [0xff, 0xff]"
    and "x ! 12 = a" "x ! 13 = b" "x ! 14 = c" "x ! 15 = d"
    by (auto simp: to_ipv4_mapped_def split: if_splits)
  moreover from this have "drop 12 x = [x ! 12, x ! 13, x ! 14, x ! 15]"
    using Cons_nth_drop_Suc [of 12 x] Cons_nth_drop_Suc [of 13 x] Cons_nth_drop_Suc [of 14 x] Cons_nth_drop_Suc [of 15 x]
    by simp
  ultimately show ?thesis by (metis append_take_drop_id append_assoc append.simps)
qed

definition address_ok :: "IpAddr \<Rightarrow> bool" where
  "address_ok a \<longleftrightarrow> (case a of V4 _ _ _ _ \<Rightarrow> True | V6 x \<Rightarrow> length x = 16)"

lemma parse_ipv6_fmt:
  assumes "length x = 16"
  shows "parse_ip (ipv6_fmt x) = Some (V6 x)"
proof (cases "to_ipv4_mapped x")
  case (Some v)
  obtain a b c d where "v = (a, b, c, d)" by (cases v)
  with Some show ?thesis
    using mapped_bytes [of x a b c d] parse_mapped [of a b c d] by (simp add: ipv6_fmt_def)
next
  case None
  let ?ss = "segments x"
  obtain start len where run: "zero_run 0 ?ss (0, 0) (0, 0) = (start, len)" by force
  have x: "concat (map u16_be ?ss) = x" "length ?ss = 8" using segments_bytes [of x] assms by auto
  show ?thesis
  proof (cases "len > 1")
    case True
    let ?hs = "take start ?ss" and ?ts = "drop (start + len) ?ss"
    note split = zero_run_split [OF run]
    have n: "length ?hs = start" "length ?ts = 8 - (start + len)" using split(1) x(2) by auto
    have "2 * len = 16 - 2 * length ?hs - 2 * length ?ts" using split(1) x(2) n by auto
    moreover have "x = concat (map u16_be ?hs) @ replicate (2 * len) 0 @ concat (map u16_be ?ts)"
      by (metis split(2) x(1) map_append concat_append u16_be_zeros)
    moreover have "length ?hs + length ?ts < 7" using split(1) x(2) n True by auto
    ultimately show ?thesis
      using parse_compressed [of ?hs ?ts] None run True by (simp add: ipv6_fmt_def Let_def)
  next
    case False
    with None run x parse_full [of ?ss] show ?thesis by (simp add: ipv6_fmt_def)
  qed
qed

lemma parse_ip_fmt: "address_ok a \<Longrightarrow> parse_ip (ip_fmt a) = Some a"
  using read_ipv4_fmt [of "[]"]
  by (cases a) (simp_all add: address_ok_def parse_ipv6_fmt, simp add: parse_ip_def)

end
