(* ===== verification/Core_Network.thy ===== *)
theory Core_Network
  imports Core_Host Core_Addr
begin

text \<open>
  The \<^verbatim>\<open>network\<close> grant of \<^verbatim>\<open>network.rs\<close>: the modes and the typed values of its children, the
  generated resolver file, the nftables ruleset of \<^verbatim>\<open>outbound "deny"\<close>, the egress proxy's argv
  and environment, and the pasta argv.
  Shown: what the ruleset lets out, packet by packet; and that the proxy's own command line parser reads the argv built here as exactly this grant.
\<close>

section \<open>The grant\<close>

definition DNS_FORWARD :: IpAddr where
  "DNS_FORWARD = V4 169 254 1 1"

definition DNS_PORT :: u16 where
  "DNS_PORT = 53"

definition FORWARD_ADDRESS :: bytes where
  "FORWARD_ADDRESS = str ''127.0.0.1''"

datatype NetMode = NetIsolated | NetHost | NetNone

datatype ConfigError =
    KdlInvalid
  | UnknownNode bytes
  | UnknownProperty bytes bytes
  | BadArgument bytes bytes
  | Duplicate bytes
  | MissingCommand
  | ConfigTooLarge nat nat
  | TooDeep u32 nat
  | CommentTooBusy u32 nat
  | ParserThread
  | ParserPanicked bytes

definition quoted :: "bytes \<Rightarrow> bytes" where
  "quoted s = str ''`'' @ s @ str ''`''"

definition mode_of_str :: "bytes \<Rightarrow> ConfigError + NetMode" where
  "mode_of_str s =
     (if s = str ''host'' then Inr NetHost
      else if s = str ''none'' then Inr NetNone
      else Inl (BadArgument (str ''network'') (str ''expected `host` or `none`, got '' @ quoted s)))"

record Forward =
  fw_port :: u16
  fw_udp :: bool

datatype Outbound = OutAllow | OutDeny

definition outbound_of_str :: "bytes \<Rightarrow> ConfigError + Outbound" where
  "outbound_of_str s =
     (if s = str ''allow'' then Inr OutAllow
      else if s = str ''deny'' then Inr OutDeny
      else Inl (BadArgument (str ''outbound'') (str ''expected `allow` or `deny`, got '' @ quoted s)))"

datatype Proto = Tcp | Udp

fun keyword :: "Proto \<Rightarrow> bytes" where
  "keyword Tcp = str ''tcp''"
| "keyword Udp = str ''udp''"

definition proto_of_str :: "bytes \<Rightarrow> ConfigError + Proto" where
  "proto_of_str s =
     (if s = str ''tcp'' then Inr Tcp
      else if s = str ''udp'' then Inr Udp
      else Inl (BadArgument (str ''allow-out'') (str ''proto must be \"tcp\" or \"udp\", got '' @ quoted s)))"

record Cidr =
  cd_addr :: IpAddr
  cd_prefix :: nat

fun is_ipv6 :: "IpAddr \<Rightarrow> bool" where
  "is_ipv6 (V4 _ _ _ _) = False"
| "is_ipv6 (V6 _) = True"

definition family :: "Cidr \<Rightarrow> bytes" where
  "family c = (if is_ipv6 (cd_addr c) then str ''ip6'' else str ''ip'')"

definition bits :: "IpAddr \<Rightarrow> nat" where
  "bits a = (if is_ipv6 a then 128 else 32)"

definition u128_of :: "bytes \<Rightarrow> 128 word" where
  "u128_of x = foldl (\<lambda>n b. push_bit 8 n OR ucast b) 0 x"

definition is_network_address :: "IpAddr \<Rightarrow> nat \<Rightarrow> bool" where
  "is_network_address a plen =
     (if plen = bits a then True
      else case a of
        V4 p q r s \<Rightarrow> be_u32 p q r s AND drop_bit plen (- 1) = 0
      | V6 x \<Rightarrow> u128_of x AND drop_bit plen (- 1) = 0)"

definition split_once :: "byte \<Rightarrow> bytes \<Rightarrow> (bytes \<times> bytes) option" where
  "split_once c s = (case position (\<lambda>x. x = c) s of None \<Rightarrow> None | Some i \<Rightarrow> Some (take i s, drop (i + 1) s))"

definition bad_out :: "string \<Rightarrow> ConfigError" where
  "bad_out reason = BadArgument (str ''allow-out'') (str reason)"

definition cidr_of_str :: "bytes \<Rightarrow> ConfigError + Cidr" where
  "cidr_of_str s =
     (let (addr, len) = (case split_once slash s of Some (a, l) \<Rightarrow> (a, Some l) | None \<Rightarrow> (s, None)) in
      case parse_ip addr of
        None \<Rightarrow> Inl (bad_out ''expects an address or a prefix, such as \"1.1.1.1\" or \"140.82.112.0/20\"'')
      | Some ip \<Rightarrow>
          if (case ip of V6 x \<Rightarrow> to_ipv4_mapped x \<noteq> None | V4 _ _ _ _ \<Rightarrow> False)
          then Inl (bad_out (''an IPv4-mapped address names an IPv4 destination, which an IPv6 rule '' @
            ''never matches; write the address in its IPv4 form''))
          else
            res_bind
              (case len of
                 None \<Rightarrow> Inr (bits ip)
               | Some l \<Rightarrow>
                   (case parse_unsigned 255 l of
                      Some n \<Rightarrow>
                        if n \<le> bits ip then Inr n
                        else Inl (bad_out ''prefix length is out of range for the address family'')
                    | None \<Rightarrow> Inl (bad_out ''prefix length is out of range for the address family'')))
              (\<lambda>plen.
                 if \<not> is_network_address ip plen
                 then Inl (bad_out (''the bits below the prefix must be zero, or the rule covers a network its '' @
                   ''author did not write''))
                 else Inr \<lparr>cd_addr = ip, cd_prefix = plen\<rparr>))"

definition cidr_fmt :: "Cidr \<Rightarrow> bytes" where
  "cidr_fmt c =
     (if cd_prefix c = bits (cd_addr c) then ip_fmt (cd_addr c)
      else ip_fmt (cd_addr c) @ [slash] @ dec_digits (cd_prefix c))"

record AllowOut =
  ao_dest :: Cidr
  ao_port :: "u16 option"
  ao_proto :: "Proto option"

definition quote_mark :: byte where
  "quote_mark = 0x22"

definition allow_out_fmt :: "AllowOut \<Rightarrow> bytes" where
  "allow_out_fmt a =
     [quote_mark] @ cidr_fmt (ao_dest a) @ [quote_mark] @
     (case ao_port a of Some p \<Rightarrow> str '' port='' @ dec_digits (unat p) | None \<Rightarrow> []) @
     (case ao_proto a of Some p \<Rightarrow> str '' proto='' @ [quote_mark] @ keyword p @ [quote_mark] | None \<Rightarrow> [])"

record AllowHost =
  ah_pattern :: HostPattern
  ah_port :: u16

definition DEFAULT_PORT :: u16 where
  "DEFAULT_PORT = 443"

definition allow_host_fmt :: "AllowHost \<Rightarrow> bytes" where
  "allow_host_fmt a =
     [quote_mark] @ pattern_fmt (ah_pattern a) @ [quote_mark] @
     (if ah_port a \<noteq> DEFAULT_PORT then str '' port='' @ dec_digits (unat (ah_port a)) else [])"

record Cgroup =
  cg_path :: bytes
  cg_level :: nat

definition is_ascii_whitespace :: "byte \<Rightarrow> bool" where
  "is_ascii_whitespace b \<longleftrightarrow> b \<in> {0x20, 0x09, 0x0a, 0x0c, 0x0d}"

definition is_ascii_control :: "byte \<Rightarrow> bool" where
  "is_ascii_control b \<longleftrightarrow> b < 0x20 \<or> b = 0x7f"

definition forbidden :: "byte \<Rightarrow> bytes option" where
  "forbidden b =
     (if b = quote_mark then Some (str ''a quote'')
      else if is_ascii_whitespace b then Some (str ''whitespace'')
      else if is_ascii_control b then Some (str ''a control byte'')
      else if b \<ge> 0x80 then Some (str ''a byte outside ASCII'')
      else None)"

fun find_map :: "('a \<Rightarrow> 'b option) \<Rightarrow> 'a list \<Rightarrow> 'b option" where
  "find_map f [] = None"
| "find_map f (x # xs) = (case f x of Some y \<Rightarrow> Some y | None \<Rightarrow> find_map f xs)"

definition cgroup_new :: "bytes \<Rightarrow> bytes + Cgroup" where
  "cgroup_new p =
     (if p = [] then Inl (str ''a cgroup path is not empty'')
      else if hd p = slash \<or> last p = slash
      then Inl (str ''a cgroup path is relative to the cgroup2 mount: no leading or trailing `/`'')
      else
        case find_map forbidden p of
          Some what \<Rightarrow> Inl (str ''a cgroup path is written into a quoted nftables rule, so it holds no '' @ what)
        | None \<Rightarrow>
            let comps = split_on slash p in
            if list_ex (\<lambda>c. c = [] \<or> c = str ''.'' \<or> c = str ''..'') comps
            then Inl (str (''every component of a cgroup path is a directory name, so none of them is '' @
              ''empty, `.` or `..`''))
            else if length comps > 255 then Inl (str ''a cgroup path has more components than nftables counts'')
            else Inr \<lparr>cg_path = p, cg_level = length comps\<rparr>)"

definition cgroup_fmt :: "Cgroup \<Rightarrow> bytes" where
  "cgroup_fmt c =
     str ''socket cgroupv2 level '' @ dec_digits (cg_level c) @ str '' '' @ [quote_mark] @ cg_path c @ [quote_mark]"

record NetworkConfig =
  nc_mode :: NetMode
  nc_dns :: "IpAddr list"
  nc_forwards :: "Forward list"
  nc_no_ipv6 :: bool
  nc_outbound :: Outbound
  nc_allow_out :: "AllowOut list"
  nc_allow_hosts :: "AllowHost list"

definition network_default :: NetworkConfig where
  "network_default = \<lparr>nc_mode = NetIsolated, nc_dns = [], nc_forwards = [], nc_no_ipv6 = False, nc_outbound = OutAllow,
     nc_allow_out = [], nc_allow_hosts = []\<rparr>"

definition is_isolated :: "NetworkConfig \<Rightarrow> bool" where
  "is_isolated cfg \<longleftrightarrow> nc_mode cfg = NetIsolated"

section \<open>What is generated from it\<close>

definition resolvers :: "NetworkConfig \<Rightarrow> IpAddr list option" where
  "resolvers cfg =
     (case nc_mode cfg of
        NetNone \<Rightarrow> None
      | NetIsolated \<Rightarrow> Some (if nc_dns cfg \<noteq> [] then nc_dns cfg else [DNS_FORWARD])
      | NetHost \<Rightarrow> if nc_dns cfg \<noteq> [] then Some (nc_dns cfg) else None)"

definition resolv_conf :: "NetworkConfig \<Rightarrow> bytes option" where
  "resolv_conf cfg =
     map_option (\<lambda>servers. concat (map (\<lambda>s. str ''nameserver '' @ ip_fmt s @ [10]) servers)) (resolvers cfg)"

definition NET_PROXY_NAME :: bytes where
  "NET_PROXY_NAME = str ''bubbler-net-proxy''"

definition NET_PROXY_INSTALLED :: path where
  "NET_PROXY_INSTALLED = str ''/usr/lib/bubbler/bubbler-net-proxy''"

definition net_proxy_program :: "Env \<Rightarrow> Host \<Rightarrow> LaunchError + path \<times> Found" where
  "net_proxy_program env h =
     locate_binary (env_net_proxy_override env) NET_PROXY_NAME NET_PROXY_INSTALLED (str ''network'') h"

definition NET_PROXY_INSIDE :: path where
  "NET_PROXY_INSIDE = str ''/run/bubbler-net-proxy''"

definition PROXY_PORT :: u16 where
  "PROXY_PORT = 3128"

definition net_proxy_argv :: "NetworkConfig \<Rightarrow> bytes \<Rightarrow> bytes \<Rightarrow> bool \<Rightarrow> bytes list" where
  "net_proxy_argv cfg ready log_fd log_tunnels =
     concat (map (\<lambda>a. [str ''--allow'', pattern_fmt (ah_pattern a) @ str '':'' @ dec_digits (unat (ah_port a))])
       (nc_allow_hosts cfg)) @
     concat (map (\<lambda>s. [str ''--dns'', ip_fmt s]) (case resolvers cfg of Some ss \<Rightarrow> ss | None \<Rightarrow> [])) @
     [str ''--port'', dec_digits (unat PROXY_PORT), str ''--ready-fd'', ready, str ''--log-fd'', log_fd] @
     (if log_tunnels then [str ''--log-tunnels''] else [])"

definition PROXY_ENV_NAMES :: "bytes list" where
  "PROXY_ENV_NAMES = [str ''HTTPS_PROXY'', str ''HTTP_PROXY'', str ''https_proxy'', str ''http_proxy'', str ''NO_PROXY'',
     str ''no_proxy'', str ''NODE_USE_ENV_PROXY'']"

definition PROXY_BYPASS :: bytes where
  "PROXY_BYPASS = str ''localhost,127.0.0.1,::1''"

definition proxy_env :: "u16 \<Rightarrow> (bytes \<times> bytes) list" where
  "proxy_env port =
     map (\<lambda>name.
       (name,
        if name = str ''NO_PROXY'' \<or> name = str ''no_proxy'' then PROXY_BYPASS
        else if name = str ''NODE_USE_ENV_PROXY'' then str ''1''
        else str ''http://127.0.0.1:'' @ dec_digits (unat port))) PROXY_ENV_NAMES"

definition dport_rule :: "Cidr \<Rightarrow> Proto \<Rightarrow> u16 \<Rightarrow> bytes" where
  "dport_rule dest proto port =
     family dest @ str '' daddr '' @ cidr_fmt dest @ str '' '' @ keyword proto @ str '' dport '' @
     dec_digits (unat port) @ str '' accept''"

definition allow_out_rules :: "AllowOut \<Rightarrow> bytes list" where
  "allow_out_rules a =
     map (\<lambda>proto.
       case ao_port a of
         Some port \<Rightarrow> dport_rule (ao_dest a) proto port
       | None \<Rightarrow>
           family (ao_dest a) @ str '' daddr '' @ cidr_fmt (ao_dest a) @ str '' meta l4proto '' @ keyword proto @
           str '' accept'')
       (case ao_proto a of Some p \<Rightarrow> [p] | None \<Rightarrow> [Tcp, Udp])"

definition host_cidr :: "IpAddr \<Rightarrow> Cidr" where
  "host_cidr ip = \<lparr>cd_addr = ip, cd_prefix = bits ip\<rparr>"

definition gated :: "Cgroup option \<Rightarrow> bytes \<Rightarrow> bytes" where
  "gated gate rule = (case gate of Some c \<Rightarrow> cgroup_fmt c @ str '' '' @ rule | None \<Rightarrow> rule)"

definition gate_of :: "NetworkConfig \<Rightarrow> Cgroup option \<Rightarrow> Cgroup option option" where
  "gate_of cfg cgroup =
     (if nc_allow_hosts cfg = [] then Some None
      else case cgroup of Some c \<Rightarrow> Some (Some c) | None \<Rightarrow> None)"

definition rule_lines :: "NetworkConfig \<Rightarrow> Cgroup option \<Rightarrow> bytes list" where
  "rule_lines cfg gate =
     [str ''oifname '' @ [quote_mark] @ str ''lo'' @ [quote_mark] @ str '' accept'', str ''ct state established,related accept''] @
     (if \<not> nc_no_ipv6 cfg
      then [str (''icmpv6 type { nd-router-solicit, nd-router-advert, nd-neighbor-solicit, '' @
        ''nd-neighbor-advert } accept'')] else []) @
     concat (map (\<lambda>ip. map (\<lambda>proto. gated gate (dport_rule (host_cidr ip) proto DNS_PORT)) [Udp, Tcp])
       (case resolvers cfg of Some ss \<Rightarrow> ss | None \<Rightarrow> [])) @
     concat (map (\<lambda>a. map (\<lambda>r. if ao_port a = Some DNS_PORT then gated gate r else r) (allow_out_rules a))
       (nc_allow_out cfg)) @
     (case gate of Some c \<Rightarrow> [cgroup_fmt c @ str '' accept''] | None \<Rightarrow> []) @
     [str ''reject with icmpx admin-prohibited'']"

definition table_text :: "bytes list \<Rightarrow> bytes" where
  "table_text rules =
     str ''table inet bubbler {'' @ [10, 9] @ str ''chain out {'' @ [10, 9, 9] @
     str ''type filter hook output priority 0; policy drop;'' @ [10] @
     concat (map (\<lambda>r. [9, 9] @ r @ [10]) rules) @ [9] @ str ''}'' @ [10] @ str ''}'' @ [10]"

definition ruleset :: "NetworkConfig \<Rightarrow> Cgroup option \<Rightarrow> bytes option" where
  "ruleset cfg cgroup =
     (if nc_outbound cfg \<noteq> OutDeny \<or> \<not> is_isolated cfg then None
      else map_option (\<lambda>gate. table_text (rule_lines cfg gate)) (gate_of cfg cgroup))"

definition forwards :: "NetworkConfig \<Rightarrow> bool \<Rightarrow> bytes" where
  "forwards cfg udp =
     (let ports = map (\<lambda>f. dec_digits (unat (fw_port f))) (filter (\<lambda>f. fw_udp f = udp) (nc_forwards cfg)) in
      if ports = [] then str ''none'' else FORWARD_ADDRESS @ [slash] @ join [0x2c] ports)"

definition pasta_argv :: "NetworkConfig \<Rightarrow> bytes \<Rightarrow> bytes \<Rightarrow> bytes \<Rightarrow> bytes list" where
  "pasta_argv cfg userns ready child =
     [str ''--config-net'', str ''--foreground'', str ''--quiet'', str ''-t'', forwards cfg False, str ''-u'', forwards cfg True,
      str ''-T'', str ''none'', str ''-U'', str ''none'', str ''--map-host-loopback'', str ''none'',
      str ''--map-guest-addr'', str ''none''] @
     (if nc_dns cfg = [] then [str ''--dns-forward'', ip_fmt DNS_FORWARD] else []) @
     (if nc_no_ipv6 cfg then [str ''-4''] else []) @
     [str ''--userns'', userns, str ''--pid'', ready, child]"

section \<open>What the ruleset lets out\<close>

text \<open>The rules as values, their nftables text, and what one matches.  A packet carries what the
  matches read; \<open>pk_cgroup\<close> is the path of the sending socket's control group, component by component.\<close>

datatype NftMatch =
    OifLo | CtEstablished | IcmpNd | Daddr Cidr | Dport Proto u16 | L4proto Proto | InCgroup Cgroup

datatype NftVerdict = Accept | RejectAdmin

type_synonym NftRule = "NftMatch list \<times> NftVerdict"

record Packet =
  pk_lo :: bool
  pk_established :: bool
  pk_nd :: bool
  pk_dst :: IpAddr
  pk_proto :: "Proto option"
  pk_dport :: u16
  pk_cgroup :: "bytes list"

fun match_text :: "NftMatch \<Rightarrow> bytes" where
  "match_text OifLo = str ''oifname '' @ [quote_mark] @ str ''lo'' @ [quote_mark]"
| "match_text CtEstablished = str ''ct state established,related''"
| "match_text IcmpNd = str (''icmpv6 type { nd-router-solicit, nd-router-advert, nd-neighbor-solicit, '' @
     ''nd-neighbor-advert }'')"
| "match_text (Daddr c) = family c @ str '' daddr '' @ cidr_fmt c"
| "match_text (Dport p port) = keyword p @ str '' dport '' @ dec_digits (unat port)"
| "match_text (L4proto p) = str ''meta l4proto '' @ keyword p"
| "match_text (InCgroup c) = cgroup_fmt c"

fun verdict_text :: "NftVerdict \<Rightarrow> bytes" where
  "verdict_text Accept = str ''accept''"
| "verdict_text RejectAdmin = str ''reject with icmpx admin-prohibited''"

definition rule_text :: "NftRule \<Rightarrow> bytes" where
  "rule_text r = join (str '' '') (map match_text (fst r) @ [verdict_text (snd r)])"

fun covers :: "Cidr \<Rightarrow> IpAddr \<Rightarrow> bool" where
  "covers c ip =
     (case (cd_addr c, ip) of
        (V4 a b d e, V4 p q r s) \<Rightarrow>
          drop_bit (32 - cd_prefix c) (be_u32 a b d e) = drop_bit (32 - cd_prefix c) (be_u32 p q r s)
      | (V6 x, V6 y) \<Rightarrow> drop_bit (128 - cd_prefix c) (u128_of x) = drop_bit (128 - cd_prefix c) (u128_of y)
      | _ \<Rightarrow> False)"

declare covers.simps [simp del]

definition in_cgroup :: "Cgroup \<Rightarrow> Packet \<Rightarrow> bool" where
  "in_cgroup c pk \<longleftrightarrow> cg_level c \<le> length (pk_cgroup pk) \<and> join [slash] (take (cg_level c) (pk_cgroup pk)) = cg_path c"

fun match_packet :: "NftMatch \<Rightarrow> Packet \<Rightarrow> bool" where
  "match_packet OifLo pk = pk_lo pk"
| "match_packet CtEstablished pk = pk_established pk"
| "match_packet IcmpNd pk = pk_nd pk"
| "match_packet (Daddr c) pk = covers c (pk_dst pk)"
| "match_packet (Dport p port) pk = (pk_proto pk = Some p \<and> pk_dport pk = port)"
| "match_packet (L4proto p) pk = (pk_proto pk = Some p)"
| "match_packet (InCgroup c) pk = in_cgroup c pk"

fun accepted :: "NftRule list \<Rightarrow> Packet \<Rightarrow> bool" where
  "accepted [] pk = False"
| "accepted (r # rs) pk = (if list_all (\<lambda>m. match_packet m pk) (fst r) then snd r = Accept else accepted rs pk)"

definition gate_match :: "Cgroup option \<Rightarrow> NftMatch list" where
  "gate_match gate = (case gate of Some c \<Rightarrow> [InCgroup c] | None \<Rightarrow> [])"

definition out_protos :: "AllowOut \<Rightarrow> Proto list" where
  "out_protos a = (case ao_proto a of Some p \<Rightarrow> [p] | None \<Rightarrow> [Tcp, Udp])"

definition out_rule :: "Cgroup option \<Rightarrow> AllowOut \<Rightarrow> Proto \<Rightarrow> NftRule" where
  "out_rule gate a p =
     ((if ao_port a = Some DNS_PORT then gate_match gate else []) @
      [Daddr (ao_dest a), case ao_port a of Some port \<Rightarrow> Dport p port | None \<Rightarrow> L4proto p], Accept)"

definition accept_rules :: "NetworkConfig \<Rightarrow> Cgroup option \<Rightarrow> NftRule list" where
  "accept_rules cfg gate =
     [([OifLo], Accept), ([CtEstablished], Accept)] @ (if \<not> nc_no_ipv6 cfg then [([IcmpNd], Accept)] else []) @
     concat (map (\<lambda>ip. map (\<lambda>p. (gate_match gate @ [Daddr (host_cidr ip), Dport p DNS_PORT], Accept)) [Udp, Tcp])
       (case resolvers cfg of Some ss \<Rightarrow> ss | None \<Rightarrow> [])) @
     concat (map (\<lambda>a. map (out_rule gate a) (out_protos a)) (nc_allow_out cfg)) @
     (case gate of Some c \<Rightarrow> [([InCgroup c], Accept)] | None \<Rightarrow> [])"

definition nft_rules :: "NetworkConfig \<Rightarrow> Cgroup option \<Rightarrow> NftRule list" where
  "nft_rules cfg gate = accept_rules cfg gate @ [([], RejectAdmin)]"

lemma join_snoc_space: "ms \<noteq> [] \<Longrightarrow> join sep (ms @ [v]) = join sep ms @ sep @ v"
  by (induction sep ms rule: join.induct) auto

lemma rule_text_dport: "rule_text ([Daddr c, Dport p port], Accept) = dport_rule c p port"
  by (simp add: rule_text_def dport_rule_def)

lemma rule_text_gated:
  assumes "ms \<noteq> []"
  shows "rule_text (gate_match gate @ ms, v) = gated gate (rule_text (ms, v))"
  using assms by (cases ms) (auto simp: rule_text_def gate_match_def gated_def split: option.splits)

lemma out_rule_text:
  "map rule_text (map (out_rule gate a) (out_protos a)) =
   map (\<lambda>r. if ao_port a = Some DNS_PORT then gated gate r else r) (allow_out_rules a)"
proof -
  have "rule_text (out_rule gate a p) = (if ao_port a = Some DNS_PORT then gated gate r else r)"
    if "r = rule_text ([Daddr (ao_dest a), case ao_port a of Some port \<Rightarrow> Dport p port | None \<Rightarrow> L4proto p], Accept)" for r p
    using that by (simp add: out_rule_def rule_text_gated)
  moreover have "allow_out_rules a =
      map (\<lambda>p. rule_text ([Daddr (ao_dest a), case ao_port a of Some port \<Rightarrow> Dport p port | None \<Rightarrow> L4proto p], Accept)) (out_protos a)"
    by (cases "ao_port a") (simp_all add: allow_out_rules_def out_protos_def rule_text_dport, simp add: rule_text_def)
  ultimately show ?thesis by simp
qed

lemma rule_lines_text: "rule_lines cfg gate = map rule_text (nft_rules cfg gate)"
proof -
  have first: "rule_text ([OifLo], Accept) = str ''oifname '' @ [quote_mark] @ str ''lo'' @ [quote_mark] @ str '' accept''"
    "rule_text ([CtEstablished], Accept) = str ''ct state established,related accept''"
    "rule_text ([IcmpNd], Accept) = str (''icmpv6 type { nd-router-solicit, nd-router-advert, nd-neighbor-solicit, '' @
       ''nd-neighbor-advert } accept'')"
    "rule_text ([], RejectAdmin) = str ''reject with icmpx admin-prohibited''"
    "rule_text ([InCgroup c], Accept) = cgroup_fmt c @ str '' accept''" for c
    by (simp_all add: rule_text_def)
  have dns: "rule_text (gate_match gate @ [Daddr (host_cidr ip), Dport p DNS_PORT], Accept) =
      gated gate (dport_rule (host_cidr ip) p DNS_PORT)" for ip p
    by (simp add: rule_text_gated rule_text_dport)
  show ?thesis
    unfolding rule_lines_def nft_rules_def accept_rules_def map_append map_concat map_map o_def
      out_rule_text [unfolded map_map o_def]
    by (simp only: list.map dns) (cases gate; simp only: list.map if_distrib [of "map rule_text"] first append_assoc append.simps option.case)
qed

lemma accepted_rules:
  "(\<forall>r \<in> set rs. snd r = Accept) \<Longrightarrow>
   accepted (rs @ [([], RejectAdmin)]) pk \<longleftrightarrow> (\<exists>r \<in> set rs. \<forall>m \<in> set (fst r). match_packet m pk)"
  by (induction rs) (auto simp: list_all_iff)

text \<open>Whether the sender may use what the gate covers: without an \<open>allow-host\<close> everybody, with one only the
  proxy's own control group.\<close>

definition gate_open :: "Cgroup option \<Rightarrow> Packet \<Rightarrow> bool" where
  "gate_open gate pk \<longleftrightarrow> (case gate of Some c \<Rightarrow> in_cgroup c pk | None \<Rightarrow> True)"

definition resolver_packet :: "NetworkConfig \<Rightarrow> Packet \<Rightarrow> bool" where
  "resolver_packet cfg pk \<longleftrightarrow>
     pk_proto pk \<noteq> None \<and> pk_dport pk = DNS_PORT \<and>
     (\<exists>ss ip. resolvers cfg = Some ss \<and> ip \<in> set ss \<and> covers (host_cidr ip) (pk_dst pk))"

definition out_packet :: "Cgroup option \<Rightarrow> AllowOut \<Rightarrow> Packet \<Rightarrow> bool" where
  "out_packet gate a pk \<longleftrightarrow>
     covers (ao_dest a) (pk_dst pk) \<and> (\<exists>p. pk_proto pk = Some p \<and> ao_proto a \<in> {None, Some p}) \<and>
     ao_port a \<in> {None, Some (pk_dport pk)} \<and> (ao_port a = Some DNS_PORT \<longrightarrow> gate_open gate pk)"

lemma gate_match_all: "(\<forall>m \<in> set (gate_match gate). match_packet m pk) = gate_open gate pk"
  by (simp add: gate_match_def gate_open_def split: option.splits)

lemma proto_other: "p \<noteq> Udp \<Longrightarrow> p = Tcp"
  by (cases p) auto

lemma out_rule_all:
  "(\<exists>p \<in> set (out_protos a). \<forall>m \<in> set (fst (out_rule gate a p)). match_packet m pk) = out_packet gate a pk"
  using gate_match_all [of gate pk]
  by (cases "ao_port a"; cases "ao_proto a") (auto intro: proto_other simp: out_rule_def out_protos_def out_packet_def)

lemma accept_rules_all:
  "(\<exists>r \<in> set (accept_rules cfg gate). \<forall>m \<in> set (fst r). match_packet m pk) \<longleftrightarrow>
     pk_lo pk \<or> pk_established pk \<or> (\<not> nc_no_ipv6 cfg \<and> pk_nd pk) \<or>
     (resolver_packet cfg pk \<and> gate_open gate pk) \<or> (\<exists>a \<in> set (nc_allow_out cfg). out_packet gate a pk) \<or>
     (\<exists>c. gate = Some c \<and> in_cgroup c pk)"
  (is "?l = ?r")
proof -
  have dns: "(\<exists>r \<in> set (concat (map (\<lambda>ip. map (\<lambda>p. (gate_match gate @ [Daddr (host_cidr ip), Dport p DNS_PORT], Accept)) [Udp, Tcp])
       (case resolvers cfg of Some ss \<Rightarrow> ss | None \<Rightarrow> []))). \<forall>m \<in> set (fst r). match_packet m pk) \<longleftrightarrow>
       resolver_packet cfg pk \<and> gate_open gate pk"
    using gate_match_all [of gate pk]
    by (cases "resolvers cfg") (auto simp: resolver_packet_def, metis proto_other)
  have out: "(\<exists>r \<in> set (concat (map (\<lambda>a. map (out_rule gate a) (out_protos a)) (nc_allow_out cfg))).
       \<forall>m \<in> set (fst r). match_packet m pk) \<longleftrightarrow> (\<exists>a \<in> set (nc_allow_out cfg). out_packet gate a pk)"
    by (auto simp flip: out_rule_all)
  show ?thesis
    unfolding accept_rules_def set_append bex_Un dns out by (cases gate) auto
qed

lemma accept_rules_Accept: "r \<in> set (accept_rules cfg gate) \<Longrightarrow> snd r = Accept"
  by (auto simp: accept_rules_def out_rule_def split: if_splits option.splits)

lemma accepted_iff:
  "accepted (nft_rules cfg gate) pk \<longleftrightarrow>
     pk_lo pk \<or> pk_established pk \<or> (\<not> nc_no_ipv6 cfg \<and> pk_nd pk) \<or>
     (resolver_packet cfg pk \<and> gate_open gate pk) \<or> (\<exists>a \<in> set (nc_allow_out cfg). out_packet gate a pk) \<or>
     (\<exists>c. gate = Some c \<and> in_cgroup c pk)"
  unfolding nft_rules_def
  by (subst accepted_rules) (auto simp: accept_rules_Accept accept_rules_all)

section \<open>What the proxy reads\<close>

lemma digits_ascii: "\<forall>b \<in> set (dec_digits n). b < 0x80"
proof
  fix b assume "b \<in> set (dec_digits n)"
  then have "b \<le> 0x39" using dec_digits_ascii by (auto simp: is_ascii_digit_def)
  then show "b < 0x80" by (rule order_le_less_trans) simp
qed

lemma to_str_ascii: "\<forall>b \<in> set w. b < 0x80 \<Longrightarrow> to_str w = Some w"
  by (simp add: to_str_def utf8_valid_ascii)

lemma label_byte: "is_ascii_alphanumeric b \<or> b = hyphen \<or> b = dot \<or> b = star \<Longrightarrow> b < 0x80 \<and> b \<noteq> 0x3a"
  by (auto simp: ascii_defs elim: order_le_less_trans)

lemma pattern_ascii:
  assumes "pattern_parse s = Inr p"
  shows "\<forall>b \<in> set (pattern_fmt p). b < 0x80 \<and> b \<noteq> 0x3a"
proof
  fix b assume b: "b \<in> set (pattern_fmt p)"
  have "is_ascii_alphanumeric b \<or> b = hyphen" if "l \<in> set (labels p)" "b \<in> set l" for l
    using pattern_parse_ok [OF assms] that by (simp add: pattern_ok_def label_ok_def)
  moreover from b have "b = dot \<or> b = star \<or> (\<exists>l \<in> set (labels p). b \<in> set l)"
    using set_join [of "[dot]" "labels p"] by (auto simp: pattern_fmt_def split: if_splits)
  ultimately show "b < 0x80 \<and> b \<noteq> 0x3a" by (intro label_byte) blast
qed

lemma groups_ascii: "\<forall>b \<in> set (groups_fmt ss). b < 0x80"
proof -
  have hex: "is_hex b \<Longrightarrow> b < 0x80" for b
    by (auto simp: is_hex_def is_ascii_digit_def elim: order_le_less_trans)
  have "b < 0x80" if "b \<in> set (hex_digits n)" for b n
    using hex_digits_ok [of n] that hex by (auto simp: list_all_iff)
  then show ?thesis
    using set_join [of "[0x3a :: byte]" "map (\<lambda>s. hex_digits (unat s)) ss"] by (fastforce simp: groups_fmt_def)
qed

lemma ipv4_ascii: "\<forall>b \<in> set (ipv4_fmt p q r s). b < 0x80"
  using digits_ascii by (auto simp: ipv4_fmt_def)

lemma address_ascii: "\<forall>b \<in> set (ip_fmt a). b < 0x80"
  using groups_ascii ipv4_ascii by (cases a) (auto simp: ipv6_fmt_def Let_def split: option.splits prod.splits)

definition allow_word :: "AllowHost \<Rightarrow> bytes" where
  "allow_word a = pattern_fmt (ah_pattern a) @ str '':'' @ dec_digits (unat (ah_port a))"

definition host_ok_entry :: "AllowHost \<Rightarrow> bool" where
  "host_ok_entry a \<longleftrightarrow> (\<exists>s. pattern_parse s = Inr (ah_pattern a)) \<and> ah_port a \<noteq> 0"

lemma port_word_digits: "p \<noteq> 0 \<Longrightarrow> port_word (dec_digits (unat (p :: u16))) = Inr p"
proof -
  assume "p \<noteq> 0"
  moreover have "unat p \<le> 65535" using unsigned_less [of p, where ?'a = nat] by simp
  moreover from this have "length (dec_digits (unat p)) \<le> 5"
    using length_dec_digits [of "unat p" 4] by simp
  ultimately show ?thesis
    using dec_digits_ascii by (auto simp: port_word_def all_digits_def parse_dec_digits unat_eq_zero)
qed

lemma allow_entry_word:
  assumes "host_ok_entry a"
  shows "allow_entry (allow_word a) = Inr (ah_pattern a, ah_port a)"
proof -
  have "0x3a \<notin> set (dec_digits (unat (ah_port a)))"
    using dec_digits_ascii [of "0x3a" "unat (ah_port a)"] by (auto simp: is_ascii_digit_def)
  moreover have "pattern_parse (pattern_fmt (ah_pattern a)) = Inr (ah_pattern a)" "ah_port a \<noteq> 0"
    using assms pattern_fmt_roundtrip by (auto simp: host_ok_entry_def)
  ultimately show ?thesis
    unfolding allow_entry_iff by (intro exI conjI) (auto simp: allow_word_def port_word_digits)
qed

lemma allowlist_words:
  "list_all host_ok_entry as \<Longrightarrow> allowlist_parse (map allow_word as) = Inr (map (\<lambda>a. (ah_pattern a, ah_port a)) as)"
  by (induction as) (simp_all add: allow_entry_word)

lemma parse_words_allow:
  "list_all host_ok_entry as \<Longrightarrow>
   parse_words (concat (map (\<lambda>a. [str ''--allow'', allow_word a]) as) @ rest) p =
   parse_words rest (p\<lparr>p_allow := p_allow p @ map allow_word as\<rparr>)"
proof (induction as arbitrary: p)
  case (Cons a as)
  then have "to_str (allow_word a) = Some (allow_word a)"
    using pattern_ascii digits_ascii by (intro to_str_ascii) (fastforce simp: allow_word_def host_ok_entry_def)
  with Cons show ?case by (simp add: valued_def)
qed simp

lemma parse_words_dns:
  "list_all address_ok ss \<Longrightarrow>
   parse_words (concat (map (\<lambda>s. [str ''--dns'', ip_fmt s]) ss) @ rest) p =
   parse_words rest (p\<lparr>p_dns := p_dns p @ ss\<rparr>)"
proof (induction ss arbitrary: p)
  case (Cons s ss)
  then have "to_str (ip_fmt s) = Some (ip_fmt s)" "parse_ip (ip_fmt s) = Some s"
    using to_str_ascii [OF address_ascii] by (simp_all add: parse_ip_fmt)
  with Cons show ?case by (simp add: valued_def)
qed simp

lemma number_digits: "n < 2 ^ 31 \<Longrightarrow> number (dec_digits n) = Some (int n)"
proof -
  assume "n < 2 ^ 31"
  moreover have "hd (dec_digits n) \<noteq> 0x2d"
    using dec_digits_ascii [of "hd (dec_digits n)" n] by (auto simp: is_ascii_digit_def)
  ultimately show ?thesis
    by (simp add: number_def parse_signed_def to_str_ascii digits_ascii parse_dec_digits)
qed

lemma net_proxy_words:
  assumes "list_all host_ok_entry (nc_allow_hosts cfg)" and "resolvers cfg = Some ss" and "list_all address_ok ss"
    and "ready < 2 ^ 31" and "log < 2 ^ 31"
  shows "parse_words (net_proxy_argv cfg (dec_digits ready) (dec_digits log) tunnels) parsing_start =
    Some \<lparr>p_allow = map allow_word (nc_allow_hosts cfg), p_dns = ss, p_port = Some PROXY_PORT, p_ready = Some (int ready),
          p_log = Some (int log), p_tunnels = tunnels\<rparr>"
proof -
  have port: "listen_port (dec_digits (unat PROXY_PORT)) = Some PROXY_PORT"
    by (simp add: listen_port_def to_str_ascii digits_ascii parse_dec_digits PROXY_PORT_def)
  have "net_proxy_argv cfg (dec_digits ready) (dec_digits log) tunnels =
      concat (map (\<lambda>a. [str ''--allow'', allow_word a]) (nc_allow_hosts cfg)) @
      concat (map (\<lambda>s. [str ''--dns'', ip_fmt s]) ss) @
      [str ''--port'', dec_digits (unat PROXY_PORT), str ''--ready-fd'', dec_digits ready, str ''--log-fd'', dec_digits log] @
      (if tunnels then [str ''--log-tunnels''] else [])"
    by (simp only: net_proxy_argv_def allow_word_def assms(2) option.case)
  then have "parse_words (net_proxy_argv cfg (dec_digits ready) (dec_digits log) tunnels) parsing_start =
      parse_words ([str ''--port'', dec_digits (unat PROXY_PORT), str ''--ready-fd'', dec_digits ready, str ''--log-fd'', dec_digits log] @
        (if tunnels then [str ''--log-tunnels''] else []))
        (parsing_start\<lparr>p_allow := p_allow parsing_start @ map allow_word (nc_allow_hosts cfg),
           p_dns := p_dns parsing_start @ ss\<rparr>)"
    using assms(1,3) by (simp only: parse_words_allow parse_words_dns) simp
  with assms(4,5) port show ?thesis
    by (simp add: valued_def number_digits parsing_start_def)
qed

section \<open>Properties\<close>

text \<open>C4. The launcher and the egress proxy agree on the grant: the argv built for an \<open>allow-host\<close> grant
  is accepted by the proxy's own command line parser, which reads back the resolvers, the port and the
  descriptors; and the allowlist it then parses is exactly the names and ports of the grant.\<close>

theorem net_proxy_reads_grant:
  assumes "nc_allow_hosts cfg \<noteq> []" and "list_all host_ok_entry (nc_allow_hosts cfg)"
    and "resolvers cfg = Some ss" and "list_all address_ok ss"
    and "ready < 2 ^ 31" and "log < 2 ^ 31" and "ready \<noteq> log"
  shows "\<exists>args. parse_from (net_proxy_argv cfg (dec_digits ready) (dec_digits log) tunnels) = Some args \<and>
    allowlist_parse (a_allow args) = Inr (map (\<lambda>a. (ah_pattern a, ah_port a)) (nc_allow_hosts cfg)) \<and>
    a_dns args = ss \<and> a_port args = PROXY_PORT \<and> a_ready_fd args = int ready \<and>
    a_log_fd args = Some (int log) \<and> a_log_tunnels args = tunnels"
proof -
  have "ss \<noteq> []" using assms(3) by (auto simp: resolvers_def split: NetMode.splits if_splits)
  with assms show ?thesis
    by (simp add: parse_from_def net_proxy_words allowlist_words)
qed

definition example_net :: NetworkConfig where
  "example_net = network_default\<lparr>nc_dns := [V4 9 9 9 9, V6 ([0x26, 0x20, 0, 0xfe] @ replicate 10 0 @ [0, 0xfe])], nc_outbound := OutDeny,
     nc_allow_hosts := [\<lparr>ah_pattern = \<lparr>labels = [str ''cdn'', str ''example''], wildcard = True\<rparr>, ah_port = 443\<rparr>]\<rparr>"

lemma example_hosts: "list_all host_ok_entry (nc_allow_hosts example_net)"
proof -
  have "pattern_parse (str ''*.CDN.Example.'') = Inr \<lparr>labels = [str ''cdn'', str ''example''], wildcard = True\<rparr>"
    by (simp add: pattern_parse_def strip_or_def strip_suffix_def check_label_def MAX_NAME_def
        MAX_LABEL_def ascii_defs to_ascii_lowercase_def all_digits_def)
  then show ?thesis by (auto simp: host_ok_entry_def example_net_def)
qed

theorem net_proxy_reads_grant_witness:
  "\<exists>args. parse_from (net_proxy_argv example_net (dec_digits 11) (dec_digits 12) True) = Some args \<and>
    allowlist_parse (a_allow args) = Inr [(\<lparr>labels = [str ''cdn'', str ''example''], wildcard = True\<rparr>, 443)] \<and>
    a_dns args = nc_dns example_net \<and> a_port args = 3128 \<and> a_ready_fd args = 11 \<and>
    a_log_fd args = Some 12 \<and> a_log_tunnels args"
proof -
  have "nc_allow_hosts example_net \<noteq> []" "resolvers example_net = Some (nc_dns example_net)"
    "list_all address_ok (nc_dns example_net)" "nc_allow_hosts example_net =
      [\<lparr>ah_pattern = \<lparr>labels = [str ''cdn'', str ''example''], wildcard = True\<rparr>, ah_port = 443\<rparr>]"
    by (simp_all add: example_net_def network_default_def resolvers_def address_ok_def)
  moreover note example_hosts
  ultimately show ?thesis
    using net_proxy_reads_grant [of example_net "nc_dns example_net" 11 12 True] by (simp add: PROXY_PORT_def)
qed

text \<open>C17. What leaves a sandbox under \<open>outbound "deny"\<close>: read as nftables reads it, the generated
  table accepts a packet exactly when it stays on the loopback, belongs to an accepted connection, is
  IPv6 neighbour discovery (unless IPv6 is off), goes to port 53 of a resolver of the grant or to a
  destination an \<open>allow-out\<close> names with its port and protocol, or is the egress proxy's own.  Once a
  name is allowed, a query to a resolver and a packet of an \<open>allow-out\<close> on port 53 pass only from the proxy's
  cgroup (\<open>gate_open\<close>).\<close>

theorem ruleset_lets_out:
  assumes "ruleset cfg cgroup = Some table"
  shows "\<exists>gate. gate_of cfg cgroup = Some gate \<and> table = table_text (map rule_text (nft_rules cfg gate)) \<and>
    (\<forall>pk. accepted (nft_rules cfg gate) pk \<longleftrightarrow>
       pk_lo pk \<or> pk_established pk \<or> (\<not> nc_no_ipv6 cfg \<and> pk_nd pk) \<or>
       (resolver_packet cfg pk \<and> gate_open gate pk) \<or> (\<exists>a. a \<in> set (nc_allow_out cfg) \<and> out_packet gate a pk) \<or>
       (\<exists>c. cgroup = Some c \<and> nc_allow_hosts cfg \<noteq> [] \<and> in_cgroup c pk))"
proof -
  obtain gate where g: "gate_of cfg cgroup = Some gate" and t: "table = table_text (rule_lines cfg gate)"
    using assms by (auto simp: ruleset_def split: if_splits)
  have "(\<exists>c. gate = Some c \<and> in_cgroup c pk) \<longleftrightarrow> (\<exists>c. cgroup = Some c \<and> nc_allow_hosts cfg \<noteq> [] \<and> in_cgroup c pk)" for pk
    using g by (auto simp: gate_of_def split: if_splits option.splits)
  with g t show ?thesis by (auto simp: rule_lines_text accepted_iff)
qed

definition example_cgroup :: Cgroup where
  "example_cgroup = \<lparr>cg_path = str ''user/proxy'', cg_level = 2\<rparr>"

definition example_query :: "bytes list \<Rightarrow> Packet" where
  "example_query cgroup = \<lparr>pk_lo = False, pk_established = False, pk_nd = False, pk_dst = V4 9 9 9 9, pk_proto = Some Udp,
     pk_dport = 53, pk_cgroup = cgroup\<rparr>"

theorem ruleset_lets_out_witness:
  "\<exists>gate. gate_of example_net (Some example_cgroup) = Some gate \<and>
     accepted (nft_rules example_net gate) (example_query [str ''user'', str ''proxy'']) \<and>
     \<not> accepted (nft_rules example_net gate) (example_query [str ''user'', str ''app''])"
proof -
  have "ruleset example_net (Some example_cgroup) = Some (table_text (rule_lines example_net (Some example_cgroup)))"
    by (simp add: ruleset_def gate_of_def example_net_def network_default_def is_isolated_def)
  from ruleset_lets_out [OF this] obtain gate where
    g: "gate_of example_net (Some example_cgroup) = Some gate" and
    acc: "\<And>pk. accepted (nft_rules example_net gate) pk \<longleftrightarrow>
       pk_lo pk \<or> pk_established pk \<or> (\<not> nc_no_ipv6 example_net \<and> pk_nd pk) \<or>
       (resolver_packet example_net pk \<and> gate_open gate pk) \<or>
       (\<exists>a. a \<in> set (nc_allow_out example_net) \<and> out_packet gate a pk) \<or>
       (\<exists>c. Some example_cgroup = Some c \<and> nc_allow_hosts example_net \<noteq> [] \<and> in_cgroup c pk)"
    by blast
  from g have "gate = Some example_cgroup" by (simp add: gate_of_def example_net_def)
  then have "accepted (nft_rules example_net gate) (example_query [str ''user'', str ''proxy''])"
    "\<not> accepted (nft_rules example_net gate) (example_query [str ''user'', str ''app''])"
    unfolding acc
    by (simp_all add: gate_open_def in_cgroup_def example_query_def example_cgroup_def example_net_def network_default_def slash_def)
  with g show ?thesis by blast
qed

end
