(* ===== verification/Core_Seccomp.thy ===== *)
theory Core_Seccomp
  imports Bub_Prelude
begin

text \<open>
  The seccomp denylist (\<^verbatim>\<open>crates/bubbler-core/src/seccomp.rs\<close>): the rule set a profile's node
  makes, the calls that build libseccomp's filter from it, and the hand-written cBPF block put
  in front of it.  libseccomp is a parameter: its name table, what it refuses, and the program
  it exports; the kernel's cBPF machine is modelled for the four instructions the block uses,
  the meaning of any other instruction being a parameter.  Shown: which error each syscall
  name gets is decided by the last \<open>deny\<close>, then the \<open>allow\<close> list, then the defaults; no number
  is given two rules; and the block denies exactly \<open>personality\<close> outside its five values and
  otherwise leaves the decision to the program behind it.
\<close>

section \<open>The rule set\<close>

definition DEFAULT_EPERM :: "bytes list" where
  "DEFAULT_EPERM = map str
     [''syslog'', ''uselib'', ''acct'', ''quotactl'', ''add_key'', ''keyctl'', ''request_key'', ''move_pages'',
      ''mbind'', ''get_mempolicy'', ''set_mempolicy'', ''migrate_pages'', ''perf_event_open'', ''bpf'',
      ''userfaultfd'', ''fanotify_init'', ''lookup_dcookie'', ''name_to_handle_at'', ''open_by_handle_at'',
      ''kexec_load'', ''kexec_file_load'', ''init_module'', ''finit_module'', ''delete_module'', ''iopl'',
      ''ioperm'', ''swapon'', ''swapoff'', ''reboot'', ''vhangup'', ''settimeofday'', ''clock_settime'',
      ''clock_settime64'', ''adjtimex'', ''clock_adjtime'', ''clock_adjtime64'', ''sethostname'',
      ''setdomainname'', ''nfsservctl'', ''vm86'', ''vm86old'', ''io_uring_setup'', ''io_uring_enter'',
      ''io_uring_register'', ''pidfd_getfd'', ''kcmp'']"

definition SINGLE_ARCH_EPERM :: "bytes list" where
  "SINGLE_ARCH_EPERM = [str ''modify_ldt'']"

definition DEFAULT_ENOSYS :: "bytes list" where
  "DEFAULT_ENOSYS = map str
     [''clone3'', ''open_tree'', ''move_mount'', ''fsopen'', ''fsconfig'', ''fsmount'', ''fspick'']"

definition DEFAULT_ENOSYS_NUMBERED :: "(bytes \<times> int) list" where
  "DEFAULT_ENOSYS_NUMBERED = [(str ''open_tree_attr'', 467), (str ''listns'', 470), (str ''fchroot'', 472)]"

definition TIOCSTI :: u32 where
  "TIOCSTI = 0x5412"

definition TIOCLINUX :: u32 where
  "TIOCLINUX = 0x541C"

definition DEFAULT_IOCTL_EPERM :: "u32 list" where
  "DEFAULT_IOCTL_EPERM = [TIOCSTI, TIOCLINUX]"

text \<open>\<open>EXTRA_ARCHES\<close>, by whether the build is for x86_64.\<close>

datatype Arch = I386

definition EXTRA_ARCHES :: "bool \<Rightarrow> Arch list" where
  "EXTRA_ARCHES x86_64 = (if x86_64 then [I386] else [])"

datatype DenyErrno = Eperm | Enosys

definition errno_name :: "DenyErrno \<Rightarrow> bytes" where
  "errno_name e = (case e of Eperm \<Rightarrow> str ''EPERM'' | Enosys \<Rightarrow> str ''ENOSYS'')"

definition errno_raw :: "DenyErrno \<Rightarrow> u32" where
  "errno_raw e = (case e of Eperm \<Rightarrow> 1 | Enosys \<Rightarrow> 38)"

record SeccompConfig =
  sc_allow :: "bytes list"
  sc_deny :: "(bytes \<times> DenyErrno) list"
  sc_disable :: bool

record RuleSet =
  rs_eperm :: "bytes list"
  rs_enosys :: "bytes list"
  rs_numbered :: "(bytes \<times> int \<times> DenyErrno) list"
  rs_ioctl :: "u32 list"
  rs_personality :: bool

definition default_set :: "bool \<Rightarrow> RuleSet" where
  "default_set x86_64 = \<lparr>
     rs_eperm = DEFAULT_EPERM @ (if EXTRA_ARCHES x86_64 = [] then SINGLE_ARCH_EPERM else []),
     rs_enosys = DEFAULT_ENOSYS,
     rs_numbered = map (\<lambda>(name, nr). (name, nr, Enosys)) DEFAULT_ENOSYS_NUMBERED,
     rs_ioctl = DEFAULT_IOCTL_EPERM, rs_personality = True\<rparr>"

definition rs_remove :: "bytes \<Rightarrow> RuleSet \<Rightarrow> RuleSet" where
  "rs_remove name s = s\<lparr>rs_eperm := filter (\<lambda>x. x \<noteq> name) (rs_eperm s),
     rs_enosys := filter (\<lambda>x. x \<noteq> name) (rs_enosys s),
     rs_numbered := filter (\<lambda>(n, _, _). n \<noteq> name) (rs_numbered s)\<rparr>"

definition allow_one :: "bytes \<Rightarrow> RuleSet \<Rightarrow> RuleSet" where
  "allow_one name s =
     (let s1 = rs_remove name s;
          s2 = (if name = str ''ioctl'' then s1\<lparr>rs_ioctl := []\<rparr> else s1)
      in if name = str ''personality'' then s2\<lparr>rs_personality := False\<rparr> else s2)"

definition deny_one :: "bytes \<times> DenyErrno \<Rightarrow> RuleSet \<Rightarrow> RuleSet" where
  "deny_one d s =
     (let (name, e) = d;
          s1 = rs_remove name s;
          s2 = (if name = str ''ioctl'' then s1\<lparr>rs_ioctl := []\<rparr> else s1)
      in case map_of DEFAULT_ENOSYS_NUMBERED name of
           Some nr \<Rightarrow> s2\<lparr>rs_numbered := rs_numbered s2 @ [(name, nr, e)]\<rparr>
         | None \<Rightarrow> (case e of Eperm \<Rightarrow> s2\<lparr>rs_eperm := rs_eperm s2 @ [name]\<rparr>
                           | Enosys \<Rightarrow> s2\<lparr>rs_enosys := rs_enosys s2 @ [name]\<rparr>))"

definition ruleset_with :: "bool \<Rightarrow> SeccompConfig \<Rightarrow> RuleSet option" where
  "ruleset_with x86_64 cfg =
     (if sc_disable cfg then None
      else Some (fold deny_one (sc_deny cfg) (fold allow_one (sc_allow cfg) (default_set x86_64))))"

section \<open>The filter\<close>

definition REQUEST_MASK :: "64 word" where
  "REQUEST_MASK = 0xFFFFFFFF"

datatype ScmpAction = ScmpLog | ScmpErrno u32

definition scmp_action :: "bool \<Rightarrow> DenyErrno \<Rightarrow> ScmpAction" where
  "scmp_action log e = (if log then ScmpLog else ScmpErrno (errno_raw e))"

text \<open>The calls made on the libseccomp context, the first of which makes it, with allowing as its
  default action; a conditional rule names an argument, the mask it is read under and the value
  it must have there.\<close>

datatype ScmpCall =
    NewAllow
  | BadArchKill
  | AddRule ScmpAction int
  | AddArch Arch
  | AddConditional ScmpAction int nat "64 word" "64 word"

text \<open>A build in progress: the calls so far and the numbers already given a rule.  \<open>refuses\<close> is
  libseccomp's answer to a call after those before it.\<close>

record Build =
  bu_calls :: "ScmpCall list"
  bu_seen :: "int list"
  bu_skipped :: "bytes list"

definition call :: "(ScmpCall list \<Rightarrow> ScmpCall \<Rightarrow> bytes option) \<Rightarrow> ScmpCall \<Rightarrow> Build \<Rightarrow> bytes + Build" where
  "call refuses c b =
     (case refuses (bu_calls b) c of
        Some e \<Rightarrow> Inl e | None \<Rightarrow> Inr (b\<lparr>bu_calls := bu_calls b @ [c]\<rparr>))"

definition add_number :: "(ScmpCall list \<Rightarrow> ScmpCall \<Rightarrow> bytes option) \<Rightarrow> bool \<Rightarrow> DenyErrno \<Rightarrow> int \<Rightarrow> Build \<Rightarrow>
    bytes + Build" where
  "add_number refuses log e nr b =
     (if nr \<in> set (bu_seen b) then Inr b
      else call refuses (AddRule (scmp_action log e) nr) (b\<lparr>bu_seen := bu_seen b @ [nr]\<rparr>))"

fun add_numbered :: "(ScmpCall list \<Rightarrow> ScmpCall \<Rightarrow> bytes option) \<Rightarrow> bool \<Rightarrow> (bytes \<times> int \<times> DenyErrno) list \<Rightarrow>
    Build \<Rightarrow> bytes + Build" where
  "add_numbered refuses log [] b = Inr b"
| "add_numbered refuses log ((_, nr, e) # ns) b =
     res_bind (add_number refuses log e nr b) (add_numbered refuses log ns)"

fun add_arches :: "(ScmpCall list \<Rightarrow> ScmpCall \<Rightarrow> bytes option) \<Rightarrow> Arch list \<Rightarrow> Build \<Rightarrow> bytes + Build" where
  "add_arches refuses [] b = Inr b"
| "add_arches refuses (a # as) b = res_bind (call refuses (AddArch a) b) (add_arches refuses as)"

fun add_names :: "(ScmpCall list \<Rightarrow> ScmpCall \<Rightarrow> bytes option) \<Rightarrow> (bytes \<Rightarrow> int option) \<Rightarrow> bool \<Rightarrow> DenyErrno \<Rightarrow>
    bytes list \<Rightarrow> Build \<Rightarrow> bytes + Build" where
  "add_names refuses number log e [] b = Inr b"
| "add_names refuses number log e (n # ns) b =
     (case number n of
        None \<Rightarrow> add_names refuses number log e ns (b\<lparr>bu_skipped := bu_skipped b @ [n]\<rparr>)
      | Some nr \<Rightarrow> res_bind (add_number refuses log e nr b) (add_names refuses number log e ns))"

definition ioctl_rule :: "ScmpAction \<Rightarrow> int \<Rightarrow> u32 \<Rightarrow> ScmpCall" where
  "ioctl_rule act ioctl r = AddConditional act ioctl 1 REQUEST_MASK (ucast r)"

fun add_requests :: "(ScmpCall list \<Rightarrow> ScmpCall \<Rightarrow> bytes option) \<Rightarrow> bool \<Rightarrow> int \<Rightarrow> u32 list \<Rightarrow> Build \<Rightarrow>
    bytes + Build" where
  "add_requests refuses log ioctl [] b = Inr b"
| "add_requests refuses log ioctl (r # rs) b =
     res_bind (call refuses (ioctl_rule (scmp_action log Eperm) ioctl r) b) (add_requests refuses log ioctl rs)"

text \<open>\<open>build\<close>: the finished build with the count of rules that reached the filter.\<close>

definition build_filter :: "(ScmpCall list \<Rightarrow> ScmpCall \<Rightarrow> bytes option) \<Rightarrow> (bytes \<Rightarrow> int option) \<Rightarrow> bool \<Rightarrow> bool \<Rightarrow>
    RuleSet \<Rightarrow> bytes + (Build \<times> nat)" where
  "build_filter refuses number x86_64 log s =
     res_bind (call refuses NewAllow \<lparr>bu_calls = [], bu_seen = [], bu_skipped = []\<rparr>) (\<lambda>b.
     res_bind (call refuses BadArchKill b) (\<lambda>b.
     res_bind (add_numbered refuses log (rs_numbered s) b) (\<lambda>b.
     res_bind (add_arches refuses (EXTRA_ARCHES x86_64) b) (\<lambda>b.
     res_bind (add_names refuses number log Eperm (rs_eperm s) b) (\<lambda>b.
     res_bind (add_names refuses number log Enosys (rs_enosys s) b) (\<lambda>b.
       let rules = length (bu_seen b) in
       case number (str ''ioctl'') of
         None \<Rightarrow> Inr (b, rules)
       | Some ioctl \<Rightarrow>
           if rs_ioctl s \<noteq> [] \<and> ioctl \<notin> set (bu_seen b)
           then res_bind (add_requests refuses log ioctl (rs_ioctl s) b) (\<lambda>b.
                  Inr (b, rules + length (rs_ioctl s)))
           else Inr (b, rules)))))))"

definition take_note :: "bytes list \<Rightarrow> bool \<Rightarrow> bool \<times> bool" where
  "take_note skipped noted = (if skipped = [] then (False, noted) else (\<not> noted, True))"

section \<open>The hand-written block\<close>

definition PERSONALITY_ALLOWED :: "u32 list" where
  "PERSONALITY_ALLOWED = [0x0, 0x8, 0x20000, 0x20008, 0xffffffff]"

definition AUDIT_ARCH_X86_64 :: u32 where
  "AUDIT_ARCH_X86_64 = 0xc000003e"

definition AUDIT_ARCH_I386 :: u32 where
  "AUDIT_ARCH_I386 = 0x40000003"

definition NR_PERSONALITY_X86_64 :: u32 where
  "NR_PERSONALITY_X86_64 = 135"

definition NR_PERSONALITY_I386 :: u32 where
  "NR_PERSONALITY_I386 = 136"

definition BPF_LD_W_ABS :: u16 where
  "BPF_LD_W_ABS = 0x0020"

definition BPF_JEQ_K :: u16 where
  "BPF_JEQ_K = 0x0015"

definition BPF_JA :: u16 where
  "BPF_JA = 0x0005"

definition BPF_RET_K :: u16 where
  "BPF_RET_K = 0x0006"

definition SECCOMP_RET_ERRNO :: u32 where
  "SECCOMP_RET_ERRNO = 0x00050000"

definition SECCOMP_RET_LOG :: u32 where
  "SECCOMP_RET_LOG = 0x7ffc0000"

definition insn :: "u16 \<Rightarrow> byte \<Rightarrow> byte \<Rightarrow> u32 \<Rightarrow> bytes" where
  "insn code jt jf k = u16_le code @ [jt, jf] @ u32_le k"

definition deny_word :: "bool \<Rightarrow> u32" where
  "deny_word log = (if log then SECCOMP_RET_LOG else SECCOMP_RET_ERRNO OR errno_raw Eperm)"

definition personality_prefix :: "bool \<Rightarrow> bytes" where
  "personality_prefix log = concat
     [insn BPF_LD_W_ABS 0 0 4,
      insn BPF_JEQ_K 0 2 AUDIT_ARCH_X86_64,
      insn BPF_LD_W_ABS 0 0 0,
      insn BPF_JEQ_K 3 9 NR_PERSONALITY_X86_64,
      insn BPF_JEQ_K 0 8 AUDIT_ARCH_I386,
      insn BPF_LD_W_ABS 0 0 0,
      insn BPF_JEQ_K 0 6 NR_PERSONALITY_I386,
      insn BPF_LD_W_ABS 0 0 16,
      insn BPF_JEQ_K 4 0 (PERSONALITY_ALLOWED ! 0),
      insn BPF_JEQ_K 3 0 (PERSONALITY_ALLOWED ! 1),
      insn BPF_JEQ_K 2 0 (PERSONALITY_ALLOWED ! 2),
      insn BPF_JEQ_K 1 0 (PERSONALITY_ALLOWED ! 3),
      insn BPF_JEQ_K 0 1 (PERSONALITY_ALLOWED ! 4),
      insn BPF_JA 0 0 1,
      insn BPF_RET_K 0 0 (deny_word log)]"

text \<open>\<open>compile\<close>: no program when no rule went in.  \<open>exports\<close> is what libseccomp writes for the calls,
  or the error.\<close>

definition compile :: "(ScmpCall list \<Rightarrow> ScmpCall \<Rightarrow> bytes option) \<Rightarrow> (bytes \<Rightarrow> int option) \<Rightarrow>
    (ScmpCall list \<Rightarrow> bytes + bytes) \<Rightarrow> bool \<Rightarrow> bool \<Rightarrow> RuleSet \<Rightarrow> bytes + bytes option" where
  "compile refuses number exports x86_64 log s =
     res_bind (build_filter refuses number x86_64 log s) (\<lambda>(b, rules).
       if rules = 0 then Inr None
       else
         let first = (if rs_personality s then personality_prefix log else []) in
         res_bind (exports (bu_calls b)) (\<lambda>rest. Inr (Some (first @ rest))))"

section \<open>The kernel's machine\<close>

text \<open>\<open>struct sock_filter\<close> read back from its eight bytes.\<close>

record Insn =
  in_code :: u16
  in_jt :: byte
  in_jf :: byte
  in_k :: u32

fun insns :: "bytes \<Rightarrow> Insn list" where
  "insns (a # b # c # d # e # f # g # h # rest) =
     \<lparr>in_code = push_bit 8 (ucast b) OR ucast a, in_jt = c, in_jf = d, in_k = le_u32 e f g h\<rparr> # insns rest"
| "insns _ = []"

text \<open>\<open>struct seccomp_data\<close>: the number, the architecture, the instruction pointer and six
  arguments.\<close>

record SecData =
  da_nr :: u32
  da_arch :: u32
  da_ip :: "64 word"
  da_args :: "64 word list"

definition data_bytes :: "SecData \<Rightarrow> bytes" where
  "data_bytes d = u32_le (da_nr d) @ u32_le (da_arch d) @ u64_le (da_ip d) @ concat (map u64_le (da_args d))"

definition load_word :: "SecData \<Rightarrow> u32 \<Rightarrow> u32 option" where
  "load_word d k = map_option fst (read_u32_le (data_bytes d) (unat k))"

text \<open>Running a program from its first instruction with the accumulator \<open>a\<close>.  \<open>other\<close> gives any
  further instruction its meaning: an answer, or the next accumulator and how far to jump.
  \<open>None\<close> is a program the kernel would not load.\<close>

function bpf :: "(Insn \<Rightarrow> SecData \<Rightarrow> u32 \<Rightarrow> u32 + u32 \<times> nat) \<Rightarrow> SecData \<Rightarrow> u32 \<Rightarrow> Insn list \<Rightarrow> u32 option" where
  "bpf other d a [] = None"
| "bpf other d a (i # is) =
     (if in_code i = BPF_LD_W_ABS then
        (case load_word d (in_k i) of Some w \<Rightarrow> bpf other d w is | None \<Rightarrow> None)
      else if in_code i = BPF_JEQ_K then
        bpf other d a (drop (unat (if a = in_k i then in_jt i else in_jf i)) is)
      else if in_code i = BPF_JA then bpf other d a (drop (unat (in_k i)) is)
      else if in_code i = BPF_RET_K then Some (in_k i)
      else
        (case other i d a of
           Inl r \<Rightarrow> Some r
         | Inr (a', n) \<Rightarrow> bpf other d a' (drop n is)))"
  by pat_completeness auto
termination
  by (relation "measure (\<lambda>(other, d, a, is). length is)") auto

lemma insns_insn [simp]:
  "insns (insn code jt jf k @ rest) = \<lparr>in_code = code, in_jt = jt, in_jf = jf, in_k = k\<rparr> # insns rest"
  using le_u16_of_u16 [of code] by (simp add: insn_def u16_le_def u32_le_def le_u16_def)

lemma load_at: "length pre + 4 \<le> usize_max \<Longrightarrow> data_bytes d = pre @ u32_le w @ post \<Longrightarrow>
    unat k = length pre \<Longrightarrow> load_word d k = Some w"
  by (simp add: load_word_def)

lemma loads [simp]:
  "load_word d 0 = Some (da_nr d)" "load_word d 4 = Some (da_arch d)"
  "da_args d \<noteq> [] \<Longrightarrow> load_word d 16 = Some (ucast (hd (da_args d)))"
proof -
  show "load_word d 0 = Some (da_nr d)"
    by (rule load_at [of "[]"]) (simp_all add: data_bytes_def usize_max_def)
  show "load_word d 4 = Some (da_arch d)"
    by (rule load_at [of "u32_le (da_nr d)"]) (simp_all add: data_bytes_def usize_max_def)
  assume "da_args d \<noteq> []"
  then obtain x xs where "da_args d = x # xs" by (cases "da_args d") auto
  then show "load_word d 16 = Some (ucast (hd (da_args d)))"
    by (intro load_at [of "u32_le (da_nr d) @ u32_le (da_arch d) @ u64_le (da_ip d)"])
      (simp_all add: data_bytes_def u64_le_def usize_max_def)
qed

text \<open>A call of \<open>personality\<close> on either ABI, and the block's decision on it.\<close>

definition calls_personality :: "SecData \<Rightarrow> bool" where
  "calls_personality d \<longleftrightarrow>
     (da_arch d = AUDIT_ARCH_X86_64 \<and> da_nr d = NR_PERSONALITY_X86_64) \<or>
     (da_arch d = AUDIT_ARCH_I386 \<and> da_nr d = NR_PERSONALITY_I386)"

lemmas bpf_codes = BPF_LD_W_ABS_def BPF_JEQ_K_def BPF_JA_def BPF_RET_K_def

text \<open>C32. The hand-written block: in front of any program that begins by loading a word, as the ones
  libseccomp exports do, it answers a \<open>personality\<close> call of either ABI whose argument's low word
  is not one of the five allowed personas with the denial, and on everything else the
  combined program decides exactly as the program alone.\<close>

theorem personality_block:
  assumes "length (da_args d) = 6" and "insns rest = i # is" and "in_code i = BPF_LD_W_ABS"
  shows "bpf other d a (insns (personality_prefix log @ rest)) =
    (if calls_personality d \<and> ucast (hd (da_args d)) \<notin> set PERSONALITY_ALLOWED
     then Some (deny_word log) else bpf other d a (insns rest))"
proof -
  have args: "da_args d \<noteq> []" using assms(1) by auto
  have start: "bpf other d x (insns rest) = bpf other d y (insns rest)" for x y
    using assms(2,3) by simp
  show ?thesis
    unfolding personality_prefix_def
    using start [of _ a] args
    by (auto simp: bpf_codes calls_personality_def PERSONALITY_ALLOWED_def AUDIT_ARCH_X86_64_def
        AUDIT_ARCH_I386_def NR_PERSONALITY_X86_64_def NR_PERSONALITY_I386_def)
qed

theorem personality_block_witness:
  "bpf (\<lambda>_ _ _. Inl 0) \<lparr>da_nr = 135, da_arch = 0xc000003e, da_ip = 0, da_args = [0x40000, 0, 0, 0, 0, 0]\<rparr> 0
     (insns (personality_prefix False @ insn BPF_LD_W_ABS 0 0 4 @ insn BPF_RET_K 0 0 0x7fff0000)) =
     Some 0x00050001"
proof -
  let ?d = "\<lparr>da_nr = 135, da_arch = 0xc000003e, da_ip = 0, da_args = [0x40000, 0, 0, 0, 0, 0]\<rparr>"
  have len: "length (da_args ?d) = 6" by simp
  have rest: "insns (insn BPF_LD_W_ABS 0 0 4 @ insn BPF_RET_K 0 0 0x7fff0000) =
      \<lparr>in_code = BPF_LD_W_ABS, in_jt = 0, in_jf = 0, in_k = 4\<rparr> # insns (insn BPF_RET_K 0 0 0x7fff0000)"
    by simp
  from personality_block [OF len rest, of "\<lambda>_ _ _. Inl 0" 0 False] show ?thesis
    by (simp add: calls_personality_def PERSONALITY_ALLOWED_def AUDIT_ARCH_X86_64_def
        NR_PERSONALITY_X86_64_def deny_word_def SECCOMP_RET_ERRNO_def errno_raw_def)
qed

section \<open>What a profile asks for\<close>

text \<open>The error a name gets under a rule set.\<close>

definition rs_action :: "RuleSet \<Rightarrow> bytes \<Rightarrow> DenyErrno option" where
  "rs_action s n =
     (if n \<in> set (rs_eperm s) then Some Eperm
      else if n \<in> set (rs_enosys s) then Some Enosys
      else map_option snd (map_of (rs_numbered s) n))"

definition one_action :: "RuleSet \<Rightarrow> bool" where
  "one_action s \<longleftrightarrow>
     set (rs_eperm s) \<inter> set (rs_enosys s) = {} \<and>
     (set (rs_eperm s) \<union> set (rs_enosys s)) \<inter> fst ` set DEFAULT_ENOSYS_NUMBERED = {} \<and>
     distinct (map fst (rs_numbered s)) \<and>
     (\<forall>(n, nr, e) \<in> set (rs_numbered s). map_of DEFAULT_ENOSYS_NUMBERED n = Some nr)"

lemma map_of_filter_other:
  "map_of (filter (\<lambda>(n, _, _). n \<noteq> name) xs) n = (if n = name then None else map_of xs n)"
  by (induction xs) auto

lemma remove_one: "one_action s \<Longrightarrow> one_action (rs_remove name s)"
  by (auto simp: one_action_def rs_remove_def distinct_map inj_on_def split: prod.splits)

lemma remove_action: "rs_action (rs_remove name s) n = (if n = name then None else rs_action s n)"
  by (simp add: rs_action_def rs_remove_def map_of_filter_other)

lemma one_action_irrelevant [simp]:
  "one_action (s\<lparr>rs_ioctl := x\<rparr>) = one_action s" "one_action (s\<lparr>rs_personality := y\<rparr>) = one_action s"
  "rs_action (s\<lparr>rs_ioctl := x\<rparr>) = rs_action s" "rs_action (s\<lparr>rs_personality := y\<rparr>) = rs_action s"
  by (simp_all add: one_action_def rs_action_def fun_eq_iff)

lemma remove_keeps [simp]:
  "rs_ioctl (rs_remove name s) = rs_ioctl s" "rs_personality (rs_remove name s) = rs_personality s"
  by (simp_all add: rs_remove_def)

lemma allow_one_step:
  assumes "one_action s"
  shows "one_action (allow_one name s) \<and>
    rs_action (allow_one name s) n = (if n = name then None else rs_action s n) \<and>
    rs_ioctl (allow_one name s) = (if name = str ''ioctl'' then [] else rs_ioctl s) \<and>
    rs_personality (allow_one name s) = (name \<noteq> str ''personality'' \<and> rs_personality s)"
  by (simp add: allow_one_def Let_def remove_one [OF assms] remove_action del: str_Cons)

text \<open>Putting a name that stands on no list on one of them.\<close>

definition put_deny :: "bytes \<Rightarrow> DenyErrno \<Rightarrow> RuleSet \<Rightarrow> RuleSet" where
  "put_deny name e s =
     (case map_of DEFAULT_ENOSYS_NUMBERED name of
        Some nr \<Rightarrow> s\<lparr>rs_numbered := rs_numbered s @ [(name, nr, e)]\<rparr>
      | None \<Rightarrow> (case e of Eperm \<Rightarrow> s\<lparr>rs_eperm := rs_eperm s @ [name]\<rparr>
                        | Enosys \<Rightarrow> s\<lparr>rs_enosys := rs_enosys s @ [name]\<rparr>))"

lemma put_deny_step:
  assumes "one_action s" and "name \<notin> set (rs_eperm s)" "name \<notin> set (rs_enosys s)"
    "name \<notin> fst ` set (rs_numbered s)"
  shows "one_action (put_deny name e s) \<and>
    rs_action (put_deny name e s) n = (if n = name then Some e else rs_action s n) \<and>
    rs_ioctl (put_deny name e s) = rs_ioctl s \<and> rs_personality (put_deny name e s) = rs_personality s"
proof (cases "map_of DEFAULT_ENOSYS_NUMBERED name")
  case None
  then have "name \<notin> fst ` set DEFAULT_ENOSYS_NUMBERED" by (simp add: map_of_eq_None_iff)
  with None assms show ?thesis by (cases e) (auto simp: put_deny_def one_action_def rs_action_def)
next
  case (Some nr)
  have "map_of (rs_numbered s) name = None" using assms(4) by (simp add: map_of_eq_None_iff)
  with Some assms show ?thesis
    by (auto simp: put_deny_def one_action_def rs_action_def map_add_def split: option.splits)
qed

lemma deny_one_step:
  assumes "one_action s"
  shows "one_action (deny_one (name, e) s) \<and>
    rs_action (deny_one (name, e) s) n = (if n = name then Some e else rs_action s n) \<and>
    rs_ioctl (deny_one (name, e) s) = (if name = str ''ioctl'' then [] else rs_ioctl s) \<and>
    rs_personality (deny_one (name, e) s) = rs_personality s"
proof -
  define r where "r = (if name = str ''ioctl'' then (rs_remove name s)\<lparr>rs_ioctl := []\<rparr> else rs_remove name s)"
  have d: "deny_one (name, e) s = put_deny name e r"
    by (simp add: deny_one_def put_deny_def r_def Let_def)
  have r: "one_action r" "rs_action r n = (if n = name then None else rs_action s n)"
      "rs_ioctl r = (if name = str ''ioctl'' then [] else rs_ioctl s)" "rs_personality r = rs_personality s"
    using remove_one [OF assms] remove_action by (simp_all add: r_def del: str_Cons)
  have "name \<notin> set (rs_eperm r)" "name \<notin> set (rs_enosys r)" "name \<notin> fst ` set (rs_numbered r)"
    by (auto simp: r_def rs_remove_def)
  from put_deny_step [OF r(1) this, of e n] r show ?thesis by (simp add: d del: str_Cons)
qed

lemma allows_step:
  "one_action s \<Longrightarrow> one_action (fold allow_one ns s) \<and>
     rs_action (fold allow_one ns s) n = (if n \<in> set ns then None else rs_action s n) \<and>
     rs_ioctl (fold allow_one ns s) = (if str ''ioctl'' \<in> set ns then [] else rs_ioctl s) \<and>
     rs_personality (fold allow_one ns s) = (str ''personality'' \<notin> set ns \<and> rs_personality s)"
proof (induction ns arbitrary: s)
  case Nil
  then show ?case by simp
next
  case (Cons m ns)
  have "one_action (allow_one m s)" using allow_one_step [OF Cons.prems] by blast
  from Cons.IH [OF this] allow_one_step [OF Cons.prems, of m n] show ?case
    by (auto simp del: str_Cons)
qed

lemma denies_step:
  "one_action s \<Longrightarrow> one_action (fold deny_one ds s) \<and>
     rs_action (fold deny_one ds s) n = (case map_of (rev ds) n of Some e \<Rightarrow> Some e | None \<Rightarrow> rs_action s n) \<and>
     rs_ioctl (fold deny_one ds s) = (if str ''ioctl'' \<in> fst ` set ds then [] else rs_ioctl s) \<and>
     rs_personality (fold deny_one ds s) = rs_personality s"
proof (induction ds arbitrary: s)
  case Nil
  then show ?case by simp
next
  case (Cons d ds)
  obtain m e where d: "d = (m, e)" by (cases d)
  have "one_action (deny_one (m, e) s)" using deny_one_step [OF Cons.prems] by blast
  from Cons.IH [OF this] deny_one_step [OF Cons.prems, of m e n] show ?case
    by (auto simp: d map_add_def simp del: str_Cons split: option.splits)
qed

lemma default_one_action: "one_action (default_set x86_64)"
  by (simp add: one_action_def default_set_def EXTRA_ARCHES_def DEFAULT_EPERM_def SINGLE_ARCH_EPERM_def
      DEFAULT_ENOSYS_def DEFAULT_ENOSYS_NUMBERED_def)

text \<open>C33. What a profile's \<open>seccomp\<close> node asks for is what it gets: every syscall name stands on at most
  one list of the rule set, and its error is the one of the last \<open>deny\<close> that names it, else
  none if an \<open>allow\<close> names it, else the default; the two \<open>ioctl\<close> request rules go as soon as
  either list names \<open>ioctl\<close>, and the persona block exactly when \<open>personality\<close> is allowed.\<close>

theorem ruleset_denotation:
  assumes "ruleset_with x86_64 cfg = Some s"
  shows "one_action s \<and>
    rs_action s n = (case map_of (rev (sc_deny cfg)) n of
       Some e \<Rightarrow> Some e
     | None \<Rightarrow> if n \<in> set (sc_allow cfg) then None else rs_action (default_set x86_64) n) \<and>
    rs_ioctl s = (if str ''ioctl'' \<in> set (sc_allow cfg) \<union> fst ` set (sc_deny cfg) then []
      else DEFAULT_IOCTL_EPERM) \<and>
    (rs_personality s \<longleftrightarrow> str ''personality'' \<notin> set (sc_allow cfg))"
proof -
  let ?a = "fold allow_one (sc_allow cfg) (default_set x86_64)"
  have s: "s = fold deny_one (sc_deny cfg) ?a"
    using assms by (simp add: ruleset_with_def split: if_splits)
  have init: "rs_ioctl (default_set x86_64) = DEFAULT_IOCTL_EPERM" "rs_personality (default_set x86_64)"
    by (simp_all add: default_set_def)
  note allows = allows_step [OF default_one_action, of "sc_allow cfg" x86_64]
  from denies_step [of ?a "sc_deny cfg" n] allows [of n] init show ?thesis
    unfolding s by (auto simp del: str_Cons split: option.splits)
qed

theorem ruleset_denotation_witness:
  "\<exists>s. ruleset_with True \<lparr>sc_allow = [str ''bpf''], sc_deny = [(str ''bpf'', Enosys), (str ''ioctl'', Eperm)],
     sc_disable = False\<rparr> = Some s \<and> rs_action s (str ''bpf'') = Some Enosys \<and> rs_ioctl s = []"
proof -
  let ?cfg = "\<lparr>sc_allow = [str ''bpf''], sc_deny = [(str ''bpf'', Enosys), (str ''ioctl'', Eperm)],
    sc_disable = False\<rparr>"
  obtain s where s: "ruleset_with True ?cfg = Some s" by (simp add: ruleset_with_def)
  from ruleset_denotation [OF this, of "str ''bpf''"] s show ?thesis by simp
qed

section \<open>What the filter is built from\<close>

text \<open>The unconditional and the conditional rules of a run of calls, and the pairs the rule set
  asks for in the order the build meets them.\<close>

fun ruled :: "ScmpCall list \<Rightarrow> (int \<times> ScmpAction) list" where
  "ruled [] = []"
| "ruled (AddRule act nr # cs) = (nr, act) # ruled cs"
| "ruled (_ # cs) = ruled cs"

fun conditional :: "ScmpCall list \<Rightarrow> (int \<times> ScmpAction \<times> nat \<times> 64 word \<times> 64 word) list" where
  "conditional [] = []"
| "conditional (AddConditional act nr arg m v # cs) = (nr, act, arg, m, v) # conditional cs"
| "conditional (_ # cs) = conditional cs"

definition rule_pairs :: "(bytes \<Rightarrow> int option) \<Rightarrow> RuleSet \<Rightarrow> (int \<times> DenyErrno) list" where
  "rule_pairs number s =
     map (\<lambda>(_, nr, e). (nr, e)) (rs_numbered s) @
     map (\<lambda>nr. (nr, Eperm)) (List.map_filter number (rs_eperm s)) @
     map (\<lambda>nr. (nr, Enosys)) (List.map_filter number (rs_enosys s))"

definition built :: "bool \<Rightarrow> (int \<times> DenyErrno) list \<Rightarrow> Build \<Rightarrow> bool" where
  "built log ps b \<longleftrightarrow> conditional (bu_calls b) = [] \<and> bu_seen b = map fst (ruled (bu_calls b)) \<and> distinct (map fst (ruled (bu_calls b))) \<and>
     (\<forall>nr. map_of (ruled (bu_calls b)) nr = map_option (scmp_action log) (map_of ps nr))"

lemma ruled_append [simp]: "ruled (xs @ ys) = ruled xs @ ruled ys"
  by (induction xs rule: ruled.induct) auto

lemma conditional_append [simp]: "conditional (xs @ ys) = conditional xs @ conditional ys"
  by (induction xs rule: conditional.induct) auto

lemma call_Inr: "call refuses c b = Inr b' \<Longrightarrow>
    bu_calls b' = bu_calls b @ [c] \<and> bu_seen b' = bu_seen b \<and> bu_skipped b' = bu_skipped b"
  by (auto simp: call_def split: option.splits)

lemma built_seen: "built log ps b \<Longrightarrow> nr \<in> set (bu_seen b) \<longleftrightarrow> map_of ps nr \<noteq> None"
proof -
  assume b: "built log ps b"
  then have "bu_seen b = map fst (ruled (bu_calls b))" by (simp add: built_def)
  then have "nr \<in> set (bu_seen b) \<longleftrightarrow> map_of (ruled (bu_calls b)) nr \<noteq> None"
    by (simp add: map_of_eq_None_iff)
  also have "map_of (ruled (bu_calls b)) nr = map_option (scmp_action log) (map_of ps nr)"
    using b by (simp only: built_def)
  also have "map_option (scmp_action log) (map_of ps nr) \<noteq> None \<longleftrightarrow> map_of ps nr \<noteq> None"
    by (simp only: option.map_disc_iff)
  finally show ?thesis .
qed

lemma built_same: "built log ps b \<Longrightarrow> bu_seen b' = bu_seen b \<Longrightarrow> ruled (bu_calls b') = ruled (bu_calls b) \<Longrightarrow>
    conditional (bu_calls b') = conditional (bu_calls b) \<Longrightarrow> built log ps b'"
  unfolding built_def by simp

lemma add_number_built:
  assumes "built log ps b" and "add_number refuses log e nr b = Inr b'"
  shows "built log (ps @ [(nr, e)]) b'"
proof (cases "nr \<in> set (bu_seen b)")
  case True
  with built_seen [OF assms(1)] obtain y where y: "map_of ps nr = Some y" by auto
  have "map_of (ps @ [(nr, e)]) x = map_of ps x" for x
    using y by (auto simp: map_add_def split: option.splits)
  with True assms show ?thesis by (simp add: add_number_def built_def)
next
  case False
  with built_seen [OF assms(1)] have none: "map_of ps nr = None" by auto
  from False assms(2) have "bu_calls b' = bu_calls b @ [AddRule (scmp_action log e) nr]"
      "bu_seen b' = bu_seen b @ [nr]"
    by (auto simp: add_number_def dest: call_Inr)
  with False assms(1) none show ?thesis
    by (auto simp: built_def map_add_def split: option.splits)
qed

lemma add_numbered_built:
  "built log ps b \<Longrightarrow> add_numbered refuses log ns b = Inr b' \<Longrightarrow>
     built log (ps @ map (\<lambda>(_, nr, e). (nr, e)) ns) b'"
proof (induction ns arbitrary: ps b)
  case Nil
  then show ?case by simp
next
  case (Cons n ns)
  obtain m nr e where n: "n = (m, nr, e)" by (cases n)
  from Cons.prems(2) n obtain b1 where b1: "add_number refuses log e nr b = Inr b1"
      "add_numbered refuses log ns b1 = Inr b'" by (auto simp: rust_simps)
  from Cons.IH [OF add_number_built [OF Cons.prems(1) b1(1)] b1(2)] n show ?case by simp
qed

lemma call_built: "built log ps b \<Longrightarrow> call refuses c b = Inr b' \<Longrightarrow> ruled [c] = [] \<Longrightarrow> conditional [c] = [] \<Longrightarrow>
    built log ps b'"
  using call_Inr [of refuses c b b'] by (auto intro: built_same)

lemma add_arches_built: "built log ps b \<Longrightarrow> add_arches refuses as b = Inr b' \<Longrightarrow> built log ps b'"
proof (induction as arbitrary: b)
  case Nil
  then show ?case by simp
next
  case (Cons a as)
  from Cons.prems(2) obtain b1 where b1: "call refuses (AddArch a) b = Inr b1" "add_arches refuses as b1 = Inr b'"
    by (auto simp: rust_simps)
  from Cons.IH [OF call_built [OF Cons.prems(1) b1(1)] b1(2)] show ?case by simp
qed

lemma add_names_built:
  "built log ps b \<Longrightarrow> add_names refuses number log e ns b = Inr b' \<Longrightarrow>
     built log (ps @ map (\<lambda>nr. (nr, e)) (List.map_filter number ns)) b'"
proof (induction ns arbitrary: ps b)
  case Nil
  then show ?case by (simp add: map_filter_simps)
next
  case (Cons n ns)
  show ?case
  proof (cases "number n")
    case None
    have "built log ps (b\<lparr>bu_skipped := bu_skipped b @ [n]\<rparr>)" by (rule built_same [OF Cons.prems(1)]) simp_all
    from Cons.IH [OF this] Cons.prems(2) None show ?thesis by (simp add: map_filter_simps)
  next
    case (Some nr)
    with Cons.prems(2) obtain b1 where b1: "add_number refuses log e nr b = Inr b1"
        "add_names refuses number log e ns b1 = Inr b'" by (auto simp: rust_simps)
    from Cons.IH [OF add_number_built [OF Cons.prems(1) b1(1)] b1(2)] Some show ?thesis
      by (simp add: map_filter_simps)
  qed
qed

lemma add_requests_calls:
  "add_requests refuses log ioctl rs b = Inr b' \<Longrightarrow>
     bu_calls b' = bu_calls b @ map (ioctl_rule (scmp_action log Eperm) ioctl) rs \<and> bu_seen b' = bu_seen b"
proof (induction rs arbitrary: b)
  case Nil
  then show ?case by simp
next
  case (Cons r rs)
  from Cons.prems obtain b1 where b1: "call refuses (ioctl_rule (scmp_action log Eperm) ioctl r) b = Inr b1"
      "add_requests refuses log ioctl rs b1 = Inr b'" by (auto simp: rust_simps)
  from Cons.IH [OF b1(2)] call_Inr [OF b1(1)] show ?case by simp
qed

lemma ruled_ioctls [simp]:
  "ruled (map (ioctl_rule act nr) rs) = []" "conditional (map (ioctl_rule act nr) rs) = map (\<lambda>r. (nr, act, 1, REQUEST_MASK, ucast r)) rs"
  by (induction rs) (auto simp: ioctl_rule_def)

text \<open>The part of the build that precedes the conditional rules.\<close>

lemma build_filter_Inr:
  assumes "build_filter refuses number x86_64 log s = Inr (b', rules)"
  obtains b where "built log (rule_pairs number s) b"
    and "bu_calls b' = bu_calls b @
      (case number (str ''ioctl'') of
         None \<Rightarrow> []
       | Some io \<Rightarrow>
           if map_of (rule_pairs number s) io = None
           then map (ioctl_rule (scmp_action log Eperm) io) (rs_ioctl s) else [])"
    and "rules = length (bu_calls b') - length (bu_calls b) + length (bu_seen b)"
    and "bu_seen b' = bu_seen b"
proof -
  let ?b0 = "\<lparr>bu_calls = [], bu_seen = [], bu_skipped = []\<rparr>"
  from assms obtain b1 b2 b3 b4 b5 b where bs:
      "call refuses NewAllow ?b0 = Inr b1" "call refuses BadArchKill b1 = Inr b2"
      "add_numbered refuses log (rs_numbered s) b2 = Inr b3"
      "add_arches refuses (EXTRA_ARCHES x86_64) b3 = Inr b4"
      "add_names refuses number log Eperm (rs_eperm s) b4 = Inr b5"
      "add_names refuses number log Enosys (rs_enosys s) b5 = Inr b"
    and rest: "(case number (str ''ioctl'') of
         None \<Rightarrow> Inr (b, length (bu_seen b))
       | Some io \<Rightarrow>
           if rs_ioctl s \<noteq> [] \<and> io \<notin> set (bu_seen b)
           then res_bind (add_requests refuses log io (rs_ioctl s) b) (\<lambda>b''.
                  Inr (b'', length (bu_seen b) + length (rs_ioctl s)))
           else Inr (b, length (bu_seen b))) = Inr (b', rules)"
    unfolding build_filter_def Let_def res_bind_eq_Inr by blast
  have "built log [] ?b0" by (simp add: built_def)
  from call_built [OF call_built [OF this bs(1)] bs(2)] have "built log [] b2" by simp
  from add_names_built [OF add_names_built [OF add_arches_built [OF add_numbered_built [OF this bs(3)] bs(4)]
    bs(5)] bs(6)]
  have b: "built log (rule_pairs number s) b" by (simp add: rule_pairs_def)
  show thesis
  proof (cases "\<exists>io. number (str ''ioctl'') = Some io \<and> rs_ioctl s \<noteq> [] \<and> io \<notin> set (bu_seen b)")
    case True
    then obtain io where io: "number (str ''ioctl'') = Some io" "rs_ioctl s \<noteq> []" "io \<notin> set (bu_seen b)"
      by blast
    with rest have rs: "add_requests refuses log io (rs_ioctl s) b = Inr b'"
        "rules = length (bu_seen b) + length (rs_ioctl s)"
      by (auto simp: res_bind_eq_Inr simp del: str_Cons)
    have "map_of (rule_pairs number s) io = None" using io(3) built_seen [OF b] by blast
    with io add_requests_calls [OF rs(1)] rs(2) show thesis
      by (intro that [OF b]) (simp_all del: str_Cons)
  next
    case False
    with rest have "b' = b" "rules = length (bu_seen b)"
      by (auto split: option.splits if_splits simp del: str_Cons)
    moreover have "rs_ioctl s = [] \<or> map_of (rule_pairs number s) io \<noteq> None"
      if "number (str ''ioctl'') = Some io" for io
      using False that built_seen [OF b, of io] by blast
    ultimately show thesis
      by (intro that [OF b]) (auto split: option.splits simp del: str_Cons)
  qed
qed

text \<open>C34. What a built filter carries: the number of a rule is added once, and the error it
  carries is the first one the rule set gives it, in the order the build meets them (the numbered
  rules, the EPERM names, the ENOSYS names): no number outside that list has an unconditional
  rule.  The rules on single requests go in, each comparing argument 1 under the mask, exactly
  when no rule denies \<open>ioctl\<close> outright.  The count that decides whether there is a filter at
  all is the number of rules that went in.\<close>

theorem build_one_rule:
  assumes "build_filter refuses number x86_64 log s = Inr (b, rules)"
  shows "distinct (map fst (ruled (bu_calls b))) \<and>
    map_of (ruled (bu_calls b)) nr = map_option (scmp_action log) (map_of (rule_pairs number s) nr) \<and>
    conditional (bu_calls b) =
      (case number (str ''ioctl'') of
         None \<Rightarrow> []
       | Some io \<Rightarrow>
           if map_of (rule_pairs number s) io = None
           then map (\<lambda>r. (io, scmp_action log Eperm, 1, REQUEST_MASK, ucast r)) (rs_ioctl s) else []) \<and>
    rules = length (ruled (bu_calls b)) + length (conditional (bu_calls b))"
proof -
  obtain b1 where b1: "built log (rule_pairs number s) b1"
    and calls: "bu_calls b = bu_calls b1 @
      (case number (str ''ioctl'') of
         None \<Rightarrow> []
       | Some io \<Rightarrow>
           if map_of (rule_pairs number s) io = None
           then map (ioctl_rule (scmp_action log Eperm) io) (rs_ioctl s) else [])"
    and rules: "rules = length (bu_calls b) - length (bu_calls b1) + length (bu_seen b1)"
    by (rule build_filter_Inr [OF assms])
  have same: "ruled (bu_calls b) = ruled (bu_calls b1)"
    unfolding calls by (simp del: str_Cons split: option.split)
  have "length (bu_seen b1) = length (ruled (bu_calls b1))" using b1 by (simp add: built_def)
  with b1 rules same show ?thesis
    unfolding built_def calls by (simp del: str_Cons split: option.split)
qed

theorem build_one_rule_witness:
  "\<exists>b. build_filter (\<lambda>_ _. None) (map_of [(str ''bpf'', 321), (str ''ioctl'', 16)]) True False
       \<lparr>rs_eperm = [str ''bpf'', str ''none''], rs_enosys = [str ''bpf''], rs_numbered = [],
        rs_ioctl = [TIOCSTI], rs_personality = True\<rparr> = Inr (b, 2) \<and>
     map_of (ruled (bu_calls b)) 321 = Some (ScmpErrno 1) \<and>
     conditional (bu_calls b) = [(16, ScmpErrno 1, 1, 0xFFFFFFFF, 0x5412)]"
proof -
  let ?s = "\<lparr>rs_eperm = [str ''bpf'', str ''none''], rs_enosys = [str ''bpf''], rs_numbered = [],
        rs_ioctl = [TIOCSTI], rs_personality = True\<rparr>"
  let ?number = "map_of [(str ''bpf'', 321 :: int), (str ''ioctl'', 16)]"
  obtain b where b: "build_filter (\<lambda>_ _. None) ?number True False ?s = Inr (b, 2)"
    by (simp add: build_filter_def call_def add_number_def EXTRA_ARCHES_def)
  from build_one_rule [OF b, of 321] have "map_of (ruled (bu_calls b)) 321 = Some (ScmpErrno 1)"
      "conditional (bu_calls b) = [(16, ScmpErrno 1, 1, 0xFFFFFFFF, 0x5412)]"
    by (simp_all add: rule_pairs_def map_filter_simps scmp_action_def errno_raw_def REQUEST_MASK_def TIOCSTI_def)
  with b show ?thesis by blast
qed

end
