(* ===== verification/Core_Config.thy ===== *)
theory Core_Config
  imports Core_Network Core_Seccomp
begin

text \<open>
  The typed configuration of \<^verbatim>\<open>config.rs\<close>: the names the sandbox keeps for itself, the grant
  types with the command line of the nested X server, the nodes a file may hold, and the instance
  configuration the launcher is given.  Shown: every grant and every node is written under a name
  the parser knows, a portal child is found under its own name and no other, and the audio grants of
  an instance fold into one set whatever their order.
\<close>

section \<open>Names the sandbox keeps\<close>

definition RESERVED_ENV :: "bytes list" where
  "RESERVED_ENV =
     [str ''HOME'', str ''PATH'', str ''XDG_RUNTIME_DIR'', str ''USER'', str ''LOGNAME'', str ''WAYLAND_DISPLAY'',
      str ''DISPLAY'', str ''XAUTHORITY'', str ''XDG_SESSION_TYPE'', str ''PULSE_SERVER'',
      str ''DBUS_SESSION_BUS_ADDRESS'', str ''DBUS_SYSTEM_BUS_ADDRESS'', str ''AT_SPI_BUS_ADDRESS'',
      str ''IBUS_USE_PORTAL'', str ''XDG_ACTIVATION_TOKEN'', str ''HTTPS_PROXY'', str ''HTTP_PROXY'',
      str ''https_proxy'', str ''http_proxy'', str ''NO_PROXY'', str ''no_proxy'', str ''NODE_USE_ENV_PROXY'']"

definition RESERVED_ETC :: "bytes list" where
  "RESERVED_ETC =
     [str ''passwd'', str ''passwd-'', str ''passwd+'', str ''group'', str ''group-'', str ''group+'', str ''shadow'',
      str ''shadow-'', str ''shadow+'', str ''gshadow'', str ''gshadow-'', str ''gshadow+'']"

definition NODES :: "bytes list" where
  "NODES =
     [str ''wayland'', str ''x11'', str ''network'', str ''dri'', str ''pipewire'', str ''pulseaudio'', str ''gamepad'',
      str ''hidraw'', str ''camera'', str ''home-share'', str ''path-share'', str ''etc-share'', str ''app-runtime'',
      str ''dbus'', str ''system-bus'', str ''portals'', str ''notify'', str ''tray'', str ''mpris'', str ''a11y'',
      str ''input-method'', str ''etc'', str ''tmp'', str ''tty'', str ''userns'', str ''seccomp'', str ''env'',
      str ''lint-allow'', str ''desktop'', str ''command'']"

definition REPEATABLE :: "bytes list" where
  "REPEATABLE =
     [str ''home-share'', str ''path-share'', str ''etc-share'', str ''app-runtime'', str ''env'', str ''lint-allow'']"

definition TMP_SIZE_MAX :: nat where
  "TMP_SIZE_MAX = 64 * 1024 * 1024 * 1024"

section \<open>Modes\<close>

datatype Userns = UsernsAllow | UsernsDisable

definition userns_of_str :: "bytes \<Rightarrow> ConfigError + Userns" where
  "userns_of_str s =
     (if s = str ''allow'' then Inr UsernsAllow
      else if s = str ''disable'' then Inr UsernsDisable
      else Inl (BadArgument (str ''userns'') (str ''expected `allow` or `disable`, got '' @ quoted s)))"

datatype EtcMode = EtcAllowlist | EtcHost

datatype TtyMode = TtyPty | TtyPassthrough | TtyNone

definition tty_of_str :: "bytes \<Rightarrow> ConfigError + TtyMode" where
  "tty_of_str s =
     (if s = str ''pty'' then Inr TtyPty
      else if s = str ''passthrough'' then Inr TtyPassthrough
      else if s = str ''none'' then Inr TtyNone
      else Inl (BadArgument (str ''tty'') (str ''expected `pty`, `passthrough` or `none`, got '' @ quoted s)))"

datatype Clipboard = ClipPaste | ClipOpen

datatype WaylandMode = WlSandboxed Clipboard | WlHost

definition wayland_default :: WaylandMode where
  "wayland_default = WlSandboxed ClipPaste"

definition XWAYLAND :: path where
  "XWAYLAND = str ''/usr/bin/Xwayland''"

record NestedX11 =
  nx_geometry :: bytes
  nx_fullscreen :: bool
  nx_grab :: bool
  nx_wm :: "bytes option"

definition nested_default :: NestedX11 where
  "nested_default = \<lparr>nx_geometry = str ''1280x720'', nx_fullscreen = False, nx_grab = False, nx_wm = None\<rparr>"

definition xwayland_argv :: "NestedX11 \<Rightarrow> bytes list" where
  "xwayland_argv n =
     [XWAYLAND, str '':0'', str ''-noreset'', str ''-nolisten'', str ''tcp'', str ''-nolisten'', str ''local'',
      str ''-nolisten'', str ''unix'', str ''-ac'', str ''-hidpi''] @
     (if nx_fullscreen n then [str ''-fullscreen'']
      else [str ''-decorate'', str ''-geometry'', nx_geometry n]) @
     (if nx_grab n then [str ''-host-grab''] else [])"

datatype X11Mode = X11Nested NestedX11 | X11Host

definition x11_default :: X11Mode where
  "x11_default = X11Nested nested_default"

datatype ShareMode = ReadOnly | ReadWrite

record Share =
  sh_path :: path
  sh_mode :: ShareMode

record LintAllow =
  la_id :: bytes
  la_reason :: bytes

section \<open>Bus rules and portal groups\<close>

datatype BusRule = See bytes | Talk bytes | Own bytes | Call bytes bytes | Broadcast bytes bytes

fun bus_policy :: "BusRule \<Rightarrow> (bytes \<times> bytes) option" where
  "bus_policy (See n) = Some (n, str ''see'')"
| "bus_policy (Talk n) = Some (n, str ''talk'')"
| "bus_policy (Own n) = Some (n, str ''own'')"
| "bus_policy (Call n r) = None"
| "bus_policy (Broadcast n r) = None"

datatype Portal = ScreenCast | RemoteDesktop | GlobalShortcuts | PBackground | Location | Secrets

definition portal_all :: "Portal list" where
  "portal_all = [ScreenCast, RemoteDesktop, GlobalShortcuts, PBackground, Location, Secrets]"

fun portal_node_name :: "Portal \<Rightarrow> bytes" where
  "portal_node_name ScreenCast = str ''screencast''"
| "portal_node_name RemoteDesktop = str ''remote-desktop''"
| "portal_node_name GlobalShortcuts = str ''global-shortcuts''"
| "portal_node_name PBackground = str ''background''"
| "portal_node_name Location = str ''location''"
| "portal_node_name Secrets = str ''secrets''"

fun portal_interfaces :: "Portal \<Rightarrow> bytes list" where
  "portal_interfaces ScreenCast = [str ''ScreenCast'', str ''Screenshot'']"
| "portal_interfaces RemoteDesktop = [str ''RemoteDesktop'', str ''InputCapture'']"
| "portal_interfaces GlobalShortcuts = [str ''GlobalShortcuts'']"
| "portal_interfaces PBackground = [str ''Background'', str ''DynamicLauncher'']"
| "portal_interfaces Location = [str ''Location'']"
| "portal_interfaces Secrets = [str ''Secret'']"

definition portal_from_name :: "bytes \<Rightarrow> Portal option" where
  "portal_from_name name = List.find (\<lambda>p. portal_node_name p = name) portal_all"

section \<open>Grants and nodes\<close>

datatype Service =
    Wayland WaylandMode
  | X11 X11Mode
  | Network NetworkConfig
  | Dri bool
  | Pipewire bool
  | Pulseaudio bool
  | HomeShare path ShareMode bool
  | PathShare path ShareMode bool
  | EtcShare bytes
  | Dbus "BusRule list"
  | SystemBus "BusRule list"
  | Portals "Portal list"
  | Notify
  | Tray
  | Gamepad bool bool
  | Hidraw
  | Camera bool
  | Mpris bytes
  | A11y
  | InputMethod
  | AppRuntime bytes ShareMode

fun service_node_name :: "Service \<Rightarrow> bytes" where
  "service_node_name (Wayland _) = str ''wayland''"
| "service_node_name (X11 _) = str ''x11''"
| "service_node_name (Network _) = str ''network''"
| "service_node_name (Dri _) = str ''dri''"
| "service_node_name (Pipewire _) = str ''pipewire''"
| "service_node_name (Pulseaudio _) = str ''pulseaudio''"
| "service_node_name (HomeShare _ _ _) = str ''home-share''"
| "service_node_name (PathShare _ _ _) = str ''path-share''"
| "service_node_name (EtcShare _) = str ''etc-share''"
| "service_node_name (Dbus _) = str ''dbus''"
| "service_node_name (SystemBus _) = str ''system-bus''"
| "service_node_name (Portals _) = str ''portals''"
| "service_node_name Notify = str ''notify''"
| "service_node_name Tray = str ''tray''"
| "service_node_name (Gamepad _ _) = str ''gamepad''"
| "service_node_name Hidraw = str ''hidraw''"
| "service_node_name (Camera _) = str ''camera''"
| "service_node_name (Mpris _) = str ''mpris''"
| "service_node_name A11y = str ''a11y''"
| "service_node_name InputMethod = str ''input-method''"
| "service_node_name (AppRuntime _ _) = str ''app-runtime''"

datatype Node =
    NService Service
  | NEnv "(bytes \<times> bytes) list"
  | NLintAllow "LintAllow list"
  | NEtc EtcMode
  | NTmp nat
  | NTty TtyMode
  | NUserns Userns
  | NSeccomp SeccompConfig
  | NDesktop bytes
  | NCommand "bytes list"

fun node_name :: "Node \<Rightarrow> bytes" where
  "node_name (NService s) = service_node_name s"
| "node_name (NEnv _) = str ''env''"
| "node_name (NLintAllow _) = str ''lint-allow''"
| "node_name (NEtc _) = str ''etc''"
| "node_name (NTmp _) = str ''tmp''"
| "node_name (NTty _) = str ''tty''"
| "node_name (NUserns _) = str ''userns''"
| "node_name (NSeccomp _) = str ''seccomp''"
| "node_name (NDesktop _) = str ''desktop''"
| "node_name (NCommand _) = str ''command''"

fun service_has_content :: "Service \<Rightarrow> bool" where
  "service_has_content (Wayland mode) = (mode \<noteq> wayland_default)"
| "service_has_content (X11 mode) = (mode \<noteq> x11_default)"
| "service_has_content (Network cfg) = (cfg \<noteq> network_default)"
| "service_has_content (Camera nodes) = nodes"
| "service_has_content (Dri kms) = kms"
| "service_has_content (Gamepad hidraw uinput) = (hidraw \<or> uinput)"
| "service_has_content (Dbus rules) = (rules \<noteq> [])"
| "service_has_content (SystemBus rules) = (rules \<noteq> [])"
| "service_has_content (Portals children) = (children \<noteq> [])"
| "service_has_content (Pipewire microphone) = microphone"
| "service_has_content (Pulseaudio microphone) = microphone"
| "service_has_content Notify = False"
| "service_has_content Tray = False"
| "service_has_content Hidraw = False"
| "service_has_content A11y = False"
| "service_has_content InputMethod = False"
| "service_has_content (HomeShare _ _ _) = True"
| "service_has_content (PathShare _ _ _) = True"
| "service_has_content (EtcShare _) = True"
| "service_has_content (AppRuntime _ _) = True"
| "service_has_content (Mpris _) = True"

fun has_content :: "Node \<Rightarrow> bool" where
  "has_content (NEtc mode) = (mode \<noteq> EtcAllowlist)"
| "has_content (NService s) = service_has_content s"
| "has_content _ = True"

record Disabled =
  di_node :: Node
  di_before :: nat

record InstanceConfig =
  ic_services :: "Service list"
  ic_shares :: "Share list"
  ic_command :: "bytes list option"
  ic_env :: "(bytes \<times> bytes) list"
  ic_etc :: EtcMode
  ic_tmp :: "nat option"
  ic_tty :: TtyMode
  ic_seccomp :: SeccompConfig
  ic_userns :: Userns
  ic_lint_allows :: "LintAllow list"
  ic_desktop :: "bytes option"
  ic_disabled :: "Disabled list"

text \<open>The audio set: \<open>Some\<close> with whether the microphone was asked for.\<close>

fun microphone_of :: "Service \<Rightarrow> bool option" where
  "microphone_of (Pipewire microphone) = Some microphone"
| "microphone_of (Pulseaudio microphone) = Some microphone"
| "microphone_of _ = None"

definition audio_step :: "bool option \<Rightarrow> Service \<Rightarrow> bool option" where
  "audio_step s svc =
     (case microphone_of svc of None \<Rightarrow> s | Some microphone \<Rightarrow> Some (s = Some True \<or> microphone))"

definition audio :: "InstanceConfig \<Rightarrow> bool option" where
  "audio cfg = foldl audio_step None (ic_services cfg)"

section \<open>What the tables say\<close>

lemma service_node_known: "service_node_name s \<in> set NODES"
  by (cases s) (simp_all add: NODES_def)

lemma node_known: "node_name n \<in> set NODES"
  using service_node_known by (cases n) (simp_all add: NODES_def)

lemma portal_from_name_iff: "portal_from_name name = Some p \<longleftrightarrow> portal_node_name p = name"
  by (cases p) (auto simp: portal_from_name_def portal_all_def find_None_iff)

lemma audio_foldl:
  "foldl audio_step s svcs =
     (if List.map_filter microphone_of svcs = [] then s
      else Some (s = Some True \<or> True \<in> set (List.map_filter microphone_of svcs)))"
  by (induction svcs arbitrary: s) (auto simp: audio_step_def List.map_filter_def split: option.splits)

lemma audio_iff:
  "audio cfg = (let ms = List.map_filter microphone_of (ic_services cfg) in if ms = [] then None else Some (True \<in> set ms))"
  by (simp add: audio_def audio_foldl Let_def)

text \<open>The proxy variables the launcher sets are all kept from \<open>env\<close> nodes.\<close>

lemma proxy_names_reserved: "set PROXY_ENV_NAMES \<subseteq> set RESERVED_ENV"
  by (simp add: PROXY_ENV_NAMES_def RESERVED_ENV_def)

section \<open>The nested server's size\<close>

definition positive :: "bytes \<Rightarrow> nat option" where
  "positive part =
     (if list_all is_ascii_digit part \<and> (part = [] \<or> hd part \<noteq> 0x30) then parse_unsigned (2 ^ 32 - 1) part else None)"

definition parse_geometry :: "bytes \<Rightarrow> bytes option" where
  "parse_geometry s =
     Option.bind (position (\<lambda>b. b = 0x78) s) (\<lambda>i.
     Option.bind (positive (take i s)) (\<lambda>w.
     Option.bind (positive (drop (i + 1) s)) (\<lambda>h.
       Some (dec_digits w @ str ''x'' @ dec_digits h))))"

lemma digit_unat: "is_ascii_digit d \<Longrightarrow> digit_val d < 10 \<and> of_nat (48 + digit_val d) = d \<and> (digit_val d = 0 \<longleftrightarrow> d = 0x30)"
proof -
  assume "is_ascii_digit d"
  then have b: "48 \<le> unat d" "unat d \<le> 57" by (simp_all add: is_ascii_digit_def word_le_nat_alt)
  from b(1) have "48 + digit_val d = unat d" by (simp add: digit_val_def)
  then have "of_nat (48 + digit_val d) = d" by (simp only: of_nat_unat ucast_id)
  moreover have "d = 0x30 \<longleftrightarrow> unat d = 48" by (simp add: word_unat_eq_iff)
  ultimately show ?thesis using b by (auto simp: digit_val_def)
qed

lemma digits_of_val:
  "ds \<noteq> [] \<Longrightarrow> list_all is_ascii_digit ds \<Longrightarrow> hd ds \<noteq> 0x30 \<Longrightarrow> dec_digits (dec_val ds) = ds \<and> 0 < dec_val ds"
proof (induction ds rule: rev_induct)
  case (snoc d ds)
  from snoc.prems(2) have d: "digit_val d < 10" "of_nat (48 + digit_val d) = d" "digit_val d = 0 \<longleftrightarrow> d = 0x30"
    using digit_unat [of d] by auto
  show ?case
  proof (cases "ds = []")
    case True
    with snoc.prems(3) d show ?thesis by (simp add: dec_val_def dec_digits.simps [of "digit_val d"])
  next
    case False
    with snoc have IH: "dec_digits (dec_val ds) = ds" "0 < dec_val ds" by auto
    let ?n = "10 * dec_val ds + digit_val d"
    have "?n div 10 = dec_val ds" "?n mod 10 = digit_val d" "\<not> ?n < 10" using d(1) IH(2) by auto
    with IH d(2) show ?thesis by (simp add: dec_val_snoc dec_digits.simps [of ?n])
  qed
qed simp

lemma positive_Some:
  assumes "positive part = Some n"
  shows "dec_digits n = part \<and> 0 < n"
proof -
  from assms have d: "list_all is_ascii_digit part" "part = [] \<or> hd part \<noteq> 0x30" "parse_unsigned (2 ^ 32 - 1) part = Some n"
    by (auto simp: positive_def split: if_splits)
  from d(3) have "part \<noteq> []" by (auto simp: parse_unsigned_def)
  moreover from this d(1) have "hd part \<noteq> 0x2b" by (cases part) (auto simp: is_ascii_digit_def)
  moreover from this d(3) have "n = dec_val part" by (simp add: parse_unsigned_def split: if_splits)
  ultimately show ?thesis using digits_of_val [of part] d by simp
qed

text \<open>An accepted size is already spelled the way it is written back.\<close>

lemma parse_geometry_canonical:
  assumes "parse_geometry s = Some g"
  shows "g = s" and "0x78 \<in> set g"
proof -
  from assms obtain i w h where p: "position (\<lambda>b. b = 0x78) s = Some i" "positive (take i s) = Some w"
      "positive (drop (i + 1) s) = Some h" "g = dec_digits w @ str ''x'' @ dec_digits h"
    by (auto simp: parse_geometry_def Option.bind_eq_Some_conv)
  from position_Some [OF p(1)] have i: "i < length s" "s ! i = 0x78" by auto
  have "g = take i s @ 0x78 # drop (Suc i) s"
    using p(4) positive_Some [OF p(2)] positive_Some [OF p(3)] by simp
  with i show "g = s" by (simp add: id_take_nth_drop [symmetric] flip: i(2))
  show "0x78 \<in> set g" using p(4) by simp
qed

end
