(* ===== verification/Core_Bwrap.thy ===== *)
theory Core_Bwrap
  imports Core_Host
begin

text \<open>
  The argument builder of \<^verbatim>\<open>bwrap.rs\<close>: the phases of \<^verbatim>\<open>BwrapArgs\<close>, the baselines every
  sandbox and every sidecar starts from, one definition per builder call, and \<^verbatim>\<open>finish\<close>, which
  turns the phases into one argv through an allocator of descriptors and files.  The allocator
  is a parameter with a state of its own.  A call the source lets panic returns \<open>None\<close>.
\<close>

section \<open>Data\<close>

datatype Origin =
    FromBaseline | FromSeccomp | FromUserns | FromTmp | FromEtc | FromCtty | FromIdentity
  | FromService nat | FromShare nat | FromEnv nat | FromInit | FromCommand

record Explained =
  ex_origin :: Origin
  ex_args :: "bytes list"
  ex_note :: "bytes option"

datatype ItemKind =
    KArgs "bytes list"
  | KNoted "bytes list" bytes
  | KData bytes path
  | KInfoFd
  | KBlockFd
  | KSeccomp bytes bytes

record Item =
  it_origin :: Origin
  it_kind :: ItemKind

definition INIT_INSIDE :: path where
  "INIT_INSIDE = str ''/run/bubbler-init''"

definition FLATPAK_SPAWN_INSIDE :: path where
  "FLATPAK_SPAWN_INSIDE = str ''/usr/bin/flatpak-spawn''"

text \<open>The calls of the \<open>FdAllocator\<close> trait; an allocator answers each with an error or a word.\<close>

datatype AllocCall =
    AllocData bytes | AllocFile path bytes | AllocInitSocket | AllocReadyPipe | AllocListener
  | AllocInfoPipe | AllocBlockPipe

type_synonym 's allocator = "AllocCall \<Rightarrow> 's \<Rightarrow> (nat + bytes) \<times> 's"

record BwrapArgs =
  ba_namespaces :: "Item list"
  ba_skeleton :: "Item list"
  ba_runtime_dir :: "Item list"
  ba_binds :: "Item list"
  ba_masks :: "Item list"
  ba_env :: "Item list"
  ba_ctty :: bool
  ba_x11 :: "(Origin \<times> bytes list \<times> bytes option) option"
  ba_origin :: Origin

text \<open>Whether an item is an operation the flag leads.\<close>

definition holds :: "bytes \<Rightarrow> Item \<Rightarrow> bool" where
  "holds flag i = (case it_kind i of KArgs a \<Rightarrow> a \<noteq> [] \<and> hd a = flag | _ \<Rightarrow> False)"

definition op :: "Origin \<Rightarrow> bytes list \<Rightarrow> Item" where
  "op orig parts = \<lparr>it_origin = orig, it_kind = KArgs parts\<rparr>"

definition TMP_SIZE :: nat where
  "TMP_SIZE = 2 * 1024 * 1024 * 1024"

definition TMPFS_SIZE :: nat where
  "TMPFS_SIZE = 64 * 1024 * 1024"

definition ETC_ALLOWLIST :: "bytes list" where
  "ETC_ALLOWLIST =
     [str ''ld.so.cache'', str ''ld.so.conf'', str ''ld.so.conf.d'', str ''fonts'', str ''localtime'',
      str ''machine-id'', str ''nsswitch.conf'', str ''hosts'', str ''host.conf'', str ''ssl'',
      str ''ca-certificates'', str ''mime.types'', str ''xdg'', str ''gtk-3.0'', str ''gtk-4.0'',
      str ''pulse'', str ''pipewire'', str ''alsa'', str ''drirc'', str ''vulkan'', str ''glvnd'',
      str ''egl'', str ''vdpau_wrapper.cfg'', str ''os-release'']"

definition PROXY_ETC :: "bytes list" where
  "PROXY_ETC = [str ''ld.so.cache'', str ''ld.so.conf'', str ''ld.so.conf.d'', str ''nsswitch.conf'']"

definition passwd_content :: "u32 \<Rightarrow> u32 \<Rightarrow> bytes" where
  "passwd_content uid gid =
     str ''bubbler:x:'' @ dec_digits (unat uid) @ str '':'' @ dec_digits (unat gid) @ str '':bubbler:'' @
     SANDBOX_HOME @ str '':/bin/sh'' @ [10] @ str ''nobody:x:65534:65534:nobody:/:/bin/sh'' @ [10]"

definition group_content :: "u32 \<Rightarrow> bytes" where
  "group_content gid =
     str ''bubbler:x:'' @ dec_digits (unat gid) @ str '':'' @ [10] @ str ''nobody:x:65534:'' @ [10]"

section \<open>Baselines\<close>

definition empty_args :: BwrapArgs where
  "empty_args = \<lparr>ba_namespaces = [], ba_skeleton = [], ba_runtime_dir = [], ba_binds = [], ba_masks = [], ba_env = [],
     ba_ctty = False, ba_x11 = None, ba_origin = FromBaseline\<rparr>"

abbreviation base_op :: "bytes list \<Rightarrow> Item" where
  "base_op \<equiv> op FromBaseline"

definition unshare_flags :: "Item list" where
  "unshare_flags = [base_op [str ''--unshare-all''], base_op [str ''--die-with-parent''], base_op [str ''--new-session'']]"

definition usr_links :: "Item list" where
  "usr_links =
     [base_op [str ''--ro-bind'', str ''/usr'', str ''/usr''],
      base_op [str ''--symlink'', str ''usr/bin'', str ''/bin''],
      base_op [str ''--symlink'', str ''usr/lib'', str ''/lib''],
      base_op [str ''--symlink'', str ''usr/lib64'', str ''/lib64''],
      base_op [str ''--symlink'', str ''usr/bin'', str ''/sbin'']]"

definition tmpfs_op :: "nat \<Rightarrow> path \<Rightarrow> Item" where
  "tmpfs_op cap dir = base_op [str ''--size'', dec_digits cap, str ''--tmpfs'', dir]"

definition etc_binds :: "Host \<Rightarrow> bytes list \<Rightarrow> Item list" where
  "etc_binds h names =
     map (\<lambda>p. base_op [str ''--ro-bind'', p, p])
       (filter (\<lambda>p. h_file_type h p \<noteq> None) (map (path_join (str ''/etc'')) names))"

definition data_item :: "Origin \<Rightarrow> bytes \<Rightarrow> path \<Rightarrow> Item" where
  "data_item orig content dest = \<lparr>it_origin = orig, it_kind = KData content dest\<rparr>"

definition baseline_skeleton :: "Env \<Rightarrow> path \<Rightarrow> Host \<Rightarrow> Item list" where
  "baseline_skeleton env instance_home h =
     usr_links @ [base_op [str ''--ro-bind-try'', str ''/opt'', str ''/opt''], tmpfs_op TMPFS_SIZE (str ''/etc'')] @
     etc_binds h ETC_ALLOWLIST @
     [data_item FromBaseline (passwd_content (env_uid env) (env_gid env)) (str ''/etc/passwd''),
      data_item FromBaseline (group_content (env_gid env)) (str ''/etc/group''),
      base_op [str ''--proc'', str ''/proc''], base_op [str ''--dev'', str ''/dev'']] @
     (if is_type h CharDevice (str ''/dev/ntsync'')
      then [base_op [str ''--dev-bind'', str ''/dev/ntsync'', str ''/dev/ntsync'']] else []) @
     [tmpfs_op TMP_SIZE (str ''/tmp''), tmpfs_op TMPFS_SIZE (str ''/var''), tmpfs_op TMPFS_SIZE (str ''/run''),
      base_op [str ''--bind'', instance_home, SANDBOX_HOME]]"

definition baseline_env :: "Env \<Rightarrow> Item list" where
  "baseline_env env =
     base_op [str ''--clearenv''] #
     map (\<lambda>(k, v). base_op [str ''--setenv'', k, v])
       (env_passthrough env @
        [(str ''HOME'', SANDBOX_HOME), (str ''PATH'', str ''/usr/bin:'' @ SANDBOX_HOME @ str ''/.local/bin''),
         (str ''XDG_RUNTIME_DIR'', env_runtime_dir env), (str ''USER'', str ''bubbler''),
         (str ''LOGNAME'', str ''bubbler'')])"

definition baseline :: "Env \<Rightarrow> path \<Rightarrow> Host \<Rightarrow> BwrapArgs" where
  "baseline env instance_home h =
     empty_args\<lparr>
       ba_namespaces := unshare_flags @
         [base_op [str ''--hostname'', str ''bubbler''], base_op [str ''--chdir'', SANDBOX_HOME],
          \<lparr>it_origin = FromBaseline, it_kind = KInfoFd\<rparr>],
       ba_skeleton := baseline_skeleton env instance_home h,
       ba_runtime_dir := [base_op [str ''--perms'', str ''0700'', str ''--dir'', env_runtime_dir env]],
       ba_env := baseline_env env\<rparr>"

definition sidecar_baseline :: "Host \<Rightarrow> BwrapArgs" where
  "sidecar_baseline h =
     empty_args\<lparr>
       ba_namespaces := unshare_flags,
       ba_skeleton := usr_links @ [tmpfs_op TMPFS_SIZE (str ''/etc'')] @ etc_binds h PROXY_ETC @
         [base_op [str ''--proc'', str ''/proc''], base_op [str ''--dev'', str ''/dev''], tmpfs_op TMPFS_SIZE (str ''/tmp'')],
       ba_env := [base_op [str ''--clearenv'']]\<rparr>"

definition add_skeleton :: "bytes list list \<Rightarrow> BwrapArgs \<Rightarrow> BwrapArgs" where
  "add_skeleton ops a = a\<lparr>ba_skeleton := ba_skeleton a @ map base_op ops\<rparr>"

definition proxy_baseline :: "path option \<Rightarrow> path option \<Rightarrow> path option \<Rightarrow> path \<Rightarrow> Host \<Rightarrow> BwrapArgs" where
  "proxy_baseline host_bus host_system_bus host_a11y_bus socket_dir h =
     add_skeleton
       (map (\<lambda>bus. [str ''--ro-bind'', bus, bus]) (List.map_filter (\<lambda>b. b) [host_bus, host_system_bus, host_a11y_bus]) @
        [[str ''--bind'', socket_dir, socket_dir]])
       (sidecar_baseline h)"

definition pw_context_baseline :: "path \<Rightarrow> path \<Rightarrow> Host \<Rightarrow> BwrapArgs" where
  "pw_context_baseline host_socket dir h =
     add_skeleton [[str ''--ro-bind'', host_socket, host_socket], [str ''--bind'', dir, str ''/tmp'']] (sidecar_baseline h)"

definition pw_pulse_baseline :: "path \<Rightarrow> path \<Rightarrow> path \<Rightarrow> Host \<Rightarrow> BwrapArgs" where
  "pw_pulse_baseline socket inside dir h =
     add_skeleton [[str ''--ro-bind'', socket, inside], [str ''--bind'', dir, str ''/tmp'']] (sidecar_baseline h)"

definition wl_proxy_baseline :: "path \<Rightarrow> Host \<Rightarrow> BwrapArgs" where
  "wl_proxy_baseline upstream h = add_skeleton [[str ''--ro-bind'', upstream, upstream]] (sidecar_baseline h)"

section \<open>Builder calls\<close>

definition share_net :: "BwrapArgs \<Rightarrow> BwrapArgs" where
  "share_net a =
     (if list_ex (holds (str ''--share-net'')) (ba_namespaces a) then a
      else a\<lparr>ba_namespaces := take 1 (ba_namespaces a) @ op (ba_origin a) [str ''--share-net''] # drop 1 (ba_namespaces a)\<rparr>)"

text \<open>The first item a predicate picks, changed in place.\<close>

fun update_first :: "('a \<Rightarrow> bool) \<Rightarrow> ('a \<Rightarrow> 'a) \<Rightarrow> 'a list \<Rightarrow> 'a list option" where
  "update_first p f [] = None"
| "update_first p f (x # xs) = (if p x then Some (f x # xs) else map_option ((#) x) (update_first p f xs))"

definition set_chdir :: "path \<Rightarrow> Item \<Rightarrow> Item" where
  "set_chdir dir i = (case it_kind i of KArgs a \<Rightarrow> i\<lparr>it_kind := KArgs (take 1 a @ [dir])\<rparr> | _ \<Rightarrow> i)"

definition chdir :: "path \<Rightarrow> BwrapArgs \<Rightarrow> BwrapArgs option" where
  "chdir dir a =
     map_option (\<lambda>ns. a\<lparr>ba_namespaces := ns\<rparr>) (update_first (holds (str ''--chdir'')) (set_chdir dir) (ba_namespaces a))"

definition sized_tmpfs :: "path \<Rightarrow> Item \<Rightarrow> bool" where
  "sized_tmpfs dir i =
     (case it_kind i of KArgs a \<Rightarrow> a \<noteq> [] \<and> hd a = str ''--size'' \<and> last a = dir | _ \<Rightarrow> False)"

definition set_size :: "Origin \<Rightarrow> nat \<Rightarrow> Item \<Rightarrow> Item" where
  "set_size orig cap i =
     (case it_kind i of KArgs a \<Rightarrow> \<lparr>it_origin = orig, it_kind = KArgs (a[1 := dec_digits cap])\<rparr> | _ \<Rightarrow> i)"

definition tmp_size :: "nat \<Rightarrow> BwrapArgs \<Rightarrow> BwrapArgs option" where
  "tmp_size cap a =
     map_option (\<lambda>sk. a\<lparr>ba_skeleton := sk\<rparr>)
       (update_first (sized_tmpfs (str ''/tmp'')) (set_size (ba_origin a) cap) (ba_skeleton a))"

definition is_data :: "Item \<Rightarrow> bool" where
  "is_data i = (case it_kind i of KData _ _ \<Rightarrow> True | _ \<Rightarrow> False)"

definition account_copies :: "Host \<Rightarrow> Origin \<Rightarrow> bytes \<Rightarrow> bytes \<Rightarrow> Item list" where
  "account_copies h orig passwd groups =
     map (\<lambda>(content, dest). data_item orig content dest)
       (filter (\<lambda>(content, dest). h_file_type h dest \<noteq> None)
          [(passwd, str ''/etc/passwd-''), (passwd, str ''/etc/passwd+''), (groups, str ''/etc/group-''),
           (groups, str ''/etc/group+''), ([], str ''/etc/subuid''), ([], str ''/etc/subgid'')])"

definition bind_host_etc :: "Host \<Rightarrow> BwrapArgs \<Rightarrow> BwrapArgs option" where
  "bind_host_etc h a =
     (let sk = ba_skeleton a; orig = ba_origin a in
      case position (sized_tmpfs (str ''/etc'')) sk of
        None \<Rightarrow> None
      | Some start \<Rightarrow>
          (case position is_data (drop start sk) of
             None \<Rightarrow> None
           | Some n \<Rightarrow>
               let e = start + n in
               if length sk < e + 2 then None
               else
                 (case (it_kind (sk ! e), it_kind (sk ! (e + 1))) of
                    (KData passwd d1, KData groups d2) \<Rightarrow>
                      Some (a\<lparr>ba_skeleton :=
                        take start sk @ op orig [str ''--ro-bind'', str ''/etc'', str ''/etc''] #
                        data_item orig passwd d1 # data_item orig groups d2 # account_copies h orig passwd groups @ drop (e + 2) sk\<rparr>)
                  | _ \<Rightarrow> None)))"

definition tag :: "Origin \<Rightarrow> BwrapArgs \<Rightarrow> BwrapArgs" where
  "tag orig a = a\<lparr>ba_origin := orig\<rparr>"

definition disable_userns :: "BwrapArgs \<Rightarrow> BwrapArgs" where
  "disable_userns a =
     (if list_ex (holds (str ''--unshare-user'')) (ba_namespaces a) then a
      else a\<lparr>ba_namespaces := ba_namespaces a @ [op (ba_origin a) [str ''--unshare-user'', str ''--disable-userns'']]\<rparr>)"

definition block_until_released :: "BwrapArgs \<Rightarrow> BwrapArgs" where
  "block_until_released a = a\<lparr>ba_namespaces := ba_namespaces a @ [\<lparr>it_origin = ba_origin a, it_kind = KBlockFd\<rparr>]\<rparr>"

definition add_seccomp :: "bytes \<Rightarrow> bytes \<Rightarrow> BwrapArgs \<Rightarrow> BwrapArgs" where
  "add_seccomp program arches a =
     a\<lparr>ba_namespaces := ba_namespaces a @ [\<lparr>it_origin = ba_origin a, it_kind = KSeccomp program arches\<rparr>]\<rparr>"

definition push_bind :: "bytes list \<Rightarrow> BwrapArgs \<Rightarrow> BwrapArgs" where
  "push_bind parts a = a\<lparr>ba_binds := ba_binds a @ [op (ba_origin a) parts]\<rparr>"

definition ro_bind :: "path \<Rightarrow> path \<Rightarrow> BwrapArgs \<Rightarrow> BwrapArgs" where
  "ro_bind src dst = push_bind [str ''--ro-bind'', src, dst]"

definition dev_bind :: "path \<Rightarrow> path \<Rightarrow> BwrapArgs \<Rightarrow> BwrapArgs" where
  "dev_bind src dst = push_bind [str ''--dev-bind'', src, dst]"

definition dev_bind_try :: "path \<Rightarrow> path \<Rightarrow> BwrapArgs \<Rightarrow> BwrapArgs" where
  "dev_bind_try src dst = push_bind [str ''--dev-bind-try'', src, dst]"

definition symlink :: "path \<Rightarrow> path \<Rightarrow> BwrapArgs \<Rightarrow> BwrapArgs" where
  "symlink target link = push_bind [str ''--symlink'', target, link]"

definition mask_dir :: "path \<Rightarrow> BwrapArgs \<Rightarrow> BwrapArgs" where
  "mask_dir dir a =
     a\<lparr>ba_masks := ba_masks a @
       [op (ba_origin a) [str ''--size'', str ''4096'', str ''--tmpfs'', dir], op (ba_origin a) [str ''--remount-ro'', dir]]\<rparr>"

definition bind_rw :: "path \<Rightarrow> path \<Rightarrow> BwrapArgs \<Rightarrow> BwrapArgs" where
  "bind_rw src dst = push_bind [str ''--bind'', src, dst]"

definition bind_init :: "path \<Rightarrow> BwrapArgs \<Rightarrow> BwrapArgs" where
  "bind_init host_path = ro_bind host_path INIT_INSIDE"

definition flatpak_spawn_shim :: "path \<Rightarrow> BwrapArgs \<Rightarrow> BwrapArgs" where
  "flatpak_spawn_shim host_path a =
     (let a = a\<lparr>ba_binds := ba_binds a @
            [\<lparr>it_origin = ba_origin a,
              it_kind = KNoted [str ''--overlay-src'', str ''/usr/bin'', str ''--tmp-overlay'', str ''/usr/bin'']
                (str ''flatpak-spawn shim (glycin, gdk-pixbuf)'')\<rparr>]\<rparr>;
          a = ro_bind host_path FLATPAK_SPAWN_INSIDE a
      in push_bind [str ''--remount-ro'', str ''/usr/bin''] a)"

definition ro_bind_data :: "bytes \<Rightarrow> path \<Rightarrow> BwrapArgs \<Rightarrow> BwrapArgs" where
  "ro_bind_data content dest a = a\<lparr>ba_binds := ba_binds a @ [data_item (ba_origin a) content dest]\<rparr>"

definition set_ctty :: "BwrapArgs \<Rightarrow> BwrapArgs" where
  "set_ctty a = a\<lparr>ba_ctty := True\<rparr>"

definition x11_server :: "bytes list \<Rightarrow> bytes option \<Rightarrow> BwrapArgs \<Rightarrow> BwrapArgs" where
  "x11_server argv wm a =
     (case ba_x11 a of None \<Rightarrow> a\<lparr>ba_x11 := Some (ba_origin a, argv, wm)\<rparr> | Some _ \<Rightarrow> a)"

definition setenv :: "bytes \<Rightarrow> bytes \<Rightarrow> BwrapArgs \<Rightarrow> BwrapArgs" where
  "setenv key v a = a\<lparr>ba_env := ba_env a @ [op (ba_origin a) [str ''--setenv'', key, v]]\<rparr>"

section \<open>Finishing\<close>

definition call_alloc :: "'s allocator \<Rightarrow> AllocCall \<Rightarrow> 's \<Rightarrow> (LaunchError + bytes) \<times> 's" where
  "call_alloc alloc c s = (case alloc c s of (Inl e, s1) \<Rightarrow> (Inl (DataError e), s1) | (Inr w, s1) \<Rightarrow> (Inr w, s1))"

definition resolve_item :: "'s allocator \<Rightarrow> Item \<Rightarrow> 's \<Rightarrow> (LaunchError + bytes list \<times> bytes option) \<times> 's" where
  "resolve_item alloc i s =
     (case it_kind i of
        KArgs a \<Rightarrow> (Inr (a, None), s)
      | KNoted a note \<Rightarrow> (Inr (a, Some note), s)
      | KData content dest \<Rightarrow>
          (case call_alloc alloc (AllocFile dest content) s of
             (Inl e, s1) \<Rightarrow> (Inl e, s1)
           | (Inr src, s1) \<Rightarrow>
               (Inr ([str ''--ro-bind'', src, dest],
                     Some (str ''generated file, '' @ dec_digits (length content) @ str '' bytes'')), s1))
      | KInfoFd \<Rightarrow>
          (case call_alloc alloc AllocInfoPipe s of
             (Inl e, s1) \<Rightarrow> (Inl e, s1)
           | (Inr fd, s1) \<Rightarrow>
               (Inr ([str ''--info-fd'', fd], Some (str ''pipe: bwrap reports the sandbox pid on it'')), s1))
      | KBlockFd \<Rightarrow>
          (case call_alloc alloc AllocBlockPipe s of
             (Inl e, s1) \<Rightarrow> (Inl e, s1)
           | (Inr fd, s1) \<Rightarrow>
               (Inr ([str ''--block-fd'', fd],
                     Some (str ''pipe: the sandbox waits on it until bubbler lets it go'')), s1))
      | KSeccomp program arches \<Rightarrow>
          (case call_alloc alloc (AllocData program) s of
             (Inl e, s1) \<Rightarrow> (Inl e, s1)
           | (Inr fd, s1) \<Rightarrow>
               (Inr ([str ''--add-seccomp-fd'', fd],
                     Some (str ''filter, '' @ dec_digits (length program) @ str '' bytes, '' @ arches)), s1)))"

fun emit_items :: "'s allocator \<Rightarrow> Item list \<Rightarrow> 's \<Rightarrow> (LaunchError + Explained list) \<times> 's" where
  "emit_items alloc [] s = (Inr [], s)"
| "emit_items alloc (i # rest) s =
     (case resolve_item alloc i s of
        (Inl e, s1) \<Rightarrow> (Inl e, s1)
      | (Inr (args, note), s1) \<Rightarrow>
          (case emit_items alloc rest s1 of
             (Inl e, s2) \<Rightarrow> (Inl e, s2)
           | (Inr out, s2) \<Rightarrow> (Inr (\<lparr>ex_origin = it_origin i, ex_args = args, ex_note = note\<rparr> # out), s2)))"

definition all_items :: "BwrapArgs \<Rightarrow> Item list" where
  "all_items a = ba_namespaces a @ ba_skeleton a @ ba_runtime_dir a @ ba_binds a @ ba_masks a @ ba_env a"

definition emit :: "'s allocator \<Rightarrow> BwrapArgs \<Rightarrow> 's \<Rightarrow> (LaunchError + Explained list) \<times> 's" where
  "emit alloc a = emit_items alloc (all_items a)"

definition flatten :: "Explained list \<Rightarrow> bytes list" where
  "flatten items = concat (map ex_args items)"

record Argv =
  av_args :: "bytes list"
  av_command_at :: nat

definition argv_options :: "Argv \<Rightarrow> bytes list" where
  "argv_options v = take (av_command_at v) (av_args v)"

definition argv_command :: "Argv \<Rightarrow> bytes list" where
  "argv_command v = drop (av_command_at v) (av_args v)"

record Finished =
  fi_ops :: "Explained list"
  fi_options :: nat

definition into_argv :: "Finished \<Rightarrow> Argv" where
  "into_argv f =
     \<lparr>av_args = flatten (fi_ops f), av_command_at = sum_list (map (\<lambda>x. length (ex_args x)) (take (fi_options f) (fi_ops f)))\<rparr>"

definition init_op :: "bytes \<Rightarrow> Explained" where
  "init_op socket =
     \<lparr>ex_origin = FromInit, ex_args = [str ''--'', INIT_INSIDE, str ''--socket-fd'', socket],
      ex_note = Some (str ''socket: the exec channel bubbler-init serves'')\<rparr>"

definition ctty_ops :: "bool \<Rightarrow> Explained list" where
  "ctty_ops ctty =
     (if ctty then [\<lparr>ex_origin = FromCtty, ex_args = [str ''--ctty''], ex_note = None\<rparr>] else [])"

definition x11_ops :: "(Origin \<times> bytes list \<times> bytes option) option \<Rightarrow> Explained list" where
  "x11_ops x =
     (case x of
        None \<Rightarrow> []
      | Some (orig, argv, wm) \<Rightarrow>
          \<lparr>ex_origin = orig, ex_args = str ''--x11'' # argv @ [str ''--''],
           ex_note = Some (str ''nested Xwayland, started by bubbler-init on the first X connection; '' @
             str ''-listenfd is added at run time'')\<rparr> #
          (case wm of
             None \<Rightarrow> []
           | Some w \<Rightarrow>
               [\<lparr>ex_origin = orig, ex_args = [str ''--wm'', w],
                 ex_note = Some (str ''window manager inside the sandbox, started with the server'')\<rparr>]))"

definition command_op :: "bytes list \<Rightarrow> Explained" where
  "command_op command = \<lparr>ex_origin = FromCommand, ex_args = str ''--'' # command, ex_note = None\<rparr>"

definition finish_ops :: "bytes list \<Rightarrow> 's allocator \<Rightarrow> BwrapArgs \<Rightarrow> 's \<Rightarrow> (LaunchError + Finished) \<times> 's" where
  "finish_ops command alloc a s =
     (case emit alloc a s of
        (Inl e, s1) \<Rightarrow> (Inl e, s1)
      | (Inr out, s1) \<Rightarrow>
          (case call_alloc alloc AllocInitSocket s1 of
             (Inl e, s2) \<Rightarrow> (Inl e, s2)
           | (Inr socket, s2) \<Rightarrow>
               (Inr \<lparr>fi_ops = out @ init_op socket # ctty_ops (ba_ctty a) @ x11_ops (ba_x11 a) @ [command_op command],
                     fi_options = length out\<rparr>, s2)))"

definition finish :: "bytes list \<Rightarrow> 's allocator \<Rightarrow> BwrapArgs \<Rightarrow> 's \<Rightarrow> (LaunchError + Argv) \<times> 's" where
  "finish command alloc a s =
     (case finish_ops command alloc a s of (Inl e, s1) \<Rightarrow> (Inl e, s1) | (Inr f, s1) \<Rightarrow> (Inr (into_argv f), s1))"

definition finish_explained :: "bytes list \<Rightarrow> 's allocator \<Rightarrow> BwrapArgs \<Rightarrow> 's \<Rightarrow> (LaunchError + Explained list) \<times> 's" where
  "finish_explained command alloc a s =
     (case finish_ops command alloc a s of (Inl e, s1) \<Rightarrow> (Inl e, s1) | (Inr f, s1) \<Rightarrow> (Inr (fi_ops f), s1))"

definition finish_plain :: "bytes list \<Rightarrow> 's allocator \<Rightarrow> BwrapArgs \<Rightarrow> 's \<Rightarrow> (LaunchError + Argv) \<times> 's" where
  "finish_plain command alloc a s =
     (case emit alloc a s of
        (Inl e, s1) \<Rightarrow> (Inl e, s1)
      | (Inr out, s1) \<Rightarrow>
          (let args = flatten out in
           (Inr \<lparr>av_args = args @ str ''--'' # command, av_command_at = length args\<rparr>, s1)))"

definition finish_plain_explained ::
    "(bytes \<times> Origin) list \<Rightarrow> 's allocator \<Rightarrow> BwrapArgs \<Rightarrow> 's \<Rightarrow> (LaunchError + Explained list) \<times> 's" where
  "finish_plain_explained command alloc a s =
     (case emit alloc a s of
        (Inl e, s1) \<Rightarrow> (Inl e, s1)
      | (Inr out, s1) \<Rightarrow>
          (Inr (out @ map (\<lambda>(arg, orig). \<lparr>ex_origin = orig, ex_args = [arg], ex_note = None\<rparr>)
             ((str ''--'', FromCommand) # command)), s1))"

section \<open>What the builder calls keep\<close>

text \<open>The shape every call keeps.  The first phase is one literal list, with the network flag right behind
  \<^verbatim>\<open>--unshare-all\<close> or nowhere and one working directory, and behind it only the options that close more; every
  mount item is one mount option with exactly its words; and the environment is cleared before anything is set
  in it.\<close>

definition is_setenv :: "Item \<Rightarrow> bool" where
  "is_setenv i \<longleftrightarrow> (\<exists>orig k v. i = op orig [str ''--setenv'', k, v])"

definition ns_core :: "bool \<Rightarrow> path \<Rightarrow> ItemKind list" where
  "ns_core shared dir =
     KArgs [str ''--unshare-all''] # (if shared then [KArgs [str ''--share-net'']] else []) @
     [KArgs [str ''--die-with-parent''], KArgs [str ''--new-session''], KArgs [str ''--hostname'', str ''bubbler''],
      KArgs [str ''--chdir'', dir], KInfoFd]"

fun ns_extra :: "ItemKind \<Rightarrow> bool" where
  "ns_extra (KArgs a) \<longleftrightarrow> a = [str ''--unshare-user'', str ''--disable-userns'']"
| "ns_extra (KNoted _ _) \<longleftrightarrow> False"
| "ns_extra (KData _ _) \<longleftrightarrow> False"
| "ns_extra KInfoFd \<longleftrightarrow> False"
| "ns_extra KBlockFd \<longleftrightarrow> True"
| "ns_extra (KSeccomp _ _) \<longleftrightarrow> True"

definition ns_ok :: "Item list \<Rightarrow> bool" where
  "ns_ok ns \<longleftrightarrow> (\<exists>shared dir extras. map it_kind ns = ns_core shared dir @ extras \<and> list_all ns_extra extras)"

definition env_ok :: "Item list \<Rightarrow> bool" where
  "env_ok e \<longleftrightarrow> e \<noteq> [] \<and> hd e = base_op [str ''--clearenv''] \<and> list_all is_setenv (tl e)"

text \<open>One mount option of bubblewrap's with exactly the words it takes.\<close>

fun mount_words :: "bytes list \<Rightarrow> bool" where
  "mount_words [flag, dst] \<longleftrightarrow> flag \<in> set [str ''--remount-ro'', str ''--proc'', str ''--dev'']"
| "mount_words [flag, src, dst] \<longleftrightarrow> flag \<in> set [str ''--ro-bind'', str ''--ro-bind-try'', str ''--bind'',
     str ''--dev-bind'', str ''--dev-bind-try'', str ''--symlink'']"
| "mount_words [flag, a, flag', dst] \<longleftrightarrow> (flag, flag') \<in> set [(str ''--size'', str ''--tmpfs''), (str ''--perms'', str ''--dir''),
     (str ''--overlay-src'', str ''--tmp-overlay'')]"
| "mount_words _ \<longleftrightarrow> False"

definition is_mount :: "Item \<Rightarrow> bool" where
  "is_mount i \<longleftrightarrow>
     (case it_kind i of
        KArgs a \<Rightarrow> mount_words a
      | KNoted a _ \<Rightarrow> mount_words a
      | KData _ _ \<Rightarrow> True
      | _ \<Rightarrow> False)"

definition args_ok :: "BwrapArgs \<Rightarrow> bool" where
  "args_ok a \<longleftrightarrow> ns_ok (ba_namespaces a) \<and> env_ok (ba_env a) \<and>
     list_all is_mount (ba_skeleton a @ ba_runtime_dir a @ ba_binds a @ ba_masks a)"

definition net_shared :: "BwrapArgs \<Rightarrow> bool" where
  "net_shared a \<longleftrightarrow> list_ex (holds (str ''--share-net'')) (ba_namespaces a)"

text \<open>A call that only adds binds, masks and variables, which is all a service but the host's network
  may do.\<close>

definition keeps :: "BwrapArgs \<Rightarrow> BwrapArgs \<Rightarrow> bool" where
  "keeps a a' \<longleftrightarrow> ba_namespaces a' = ba_namespaces a \<and> ba_skeleton a' = ba_skeleton a \<and>
     ba_runtime_dir a' = ba_runtime_dir a \<and> ba_ctty a' = ba_ctty a \<and> ba_x11 a' = ba_x11 a \<and> (\<exists>new. ba_binds a' = ba_binds a @ new \<and> list_all is_mount new) \<and>
     (\<exists>new. ba_masks a' = ba_masks a @ new \<and> list_all is_mount new) \<and> (\<exists>new. ba_env a' = ba_env a @ new \<and> list_all is_setenv new)"

lemma keeps_refl [simp]: "keeps a a"
  by (simp add: keeps_def)

lemma keeps_trans: "keeps a b \<Longrightarrow> keeps b c \<Longrightarrow> keeps a c"
  by (auto simp: keeps_def)

lemma keeps_call [simp]:
  "keeps a (ro_bind s d a)" "keeps a (dev_bind s d a)" "keeps a (dev_bind_try s d a)" "keeps a (symlink s d a)"
  "keeps a (bind_rw s d a)" "keeps a (bind_init s a)" "keeps a (mask_dir d a)" "keeps a (ro_bind_data c d a)"
  "keeps a (setenv k v a)" "keeps a (tag t a)" "keeps a (flatpak_spawn_shim s a)"
  by (auto simp: keeps_def is_mount_def op_def data_item_def ro_bind_def dev_bind_def dev_bind_try_def symlink_def bind_rw_def bind_init_def mask_dir_def
      ro_bind_data_def setenv_def tag_def flatpak_spawn_shim_def push_bind_def is_setenv_def Let_def
      split: option.split)

lemma keeps_then [simp]:
  assumes "keeps a b"
  shows "keeps a (ro_bind s d b)" "keeps a (dev_bind s d b)" "keeps a (dev_bind_try s d b)" "keeps a (symlink s d b)"
    "keeps a (bind_rw s d b)" "keeps a (bind_init s b)" "keeps a (mask_dir d b)" "keeps a (ro_bind_data c d b)"
    "keeps a (setenv k v b)" "keeps a (tag t b)" "keeps a (flatpak_spawn_shim s b)"
  by (rule keeps_trans [OF assms], simp)+

lemma keeps_ok: "keeps a a' \<Longrightarrow> args_ok a \<Longrightarrow> args_ok a'"
  by (auto simp: keeps_def args_ok_def env_ok_def)

lemma keeps_net: "keeps a a' \<Longrightarrow> net_shared a' = net_shared a"
  by (simp add: keeps_def net_shared_def)

lemma is_mount_data [simp]: "is_mount (data_item orig content dest)"
  by (simp add: is_mount_def data_item_def)

lemma is_mount_op: "is_mount (op orig a) \<longleftrightarrow> mount_words a"
  by (simp add: is_mount_def op_def)

lemma baseline_mounts: "list_all is_mount (baseline_skeleton env home h)"
  by (auto simp: baseline_skeleton_def usr_links_def tmpfs_op_def etc_binds_def is_mount_op list_all_iff)

lemma baseline_ok: "args_ok (baseline env home h)"
proof -
  have "ns_ok (ba_namespaces (baseline env home h))"
    unfolding ns_ok_def
    by (intro exI [of _ False] exI [of _ SANDBOX_HOME] exI [of _ "[]"])
      (simp add: ns_core_def baseline_def unshare_flags_def op_def)
  moreover have "env_ok (ba_env (baseline env home h))"
    by (auto simp: env_ok_def baseline_def baseline_env_def is_setenv_def list_all_iff)
  moreover have "list_all is_mount (ba_skeleton (baseline env home h) @ ba_runtime_dir (baseline env home h) @
      ba_binds (baseline env home h) @ ba_masks (baseline env home h))"
    using baseline_mounts by (simp add: baseline_def empty_args_def is_mount_op)
  ultimately show ?thesis by (simp add: args_ok_def)
qed

lemma baseline_net: "\<not> net_shared (baseline env home h)"
  by (simp add: net_shared_def baseline_def unshare_flags_def holds_def op_def)

text \<open>Whether the network is shared is one bit of the shape.\<close>

lemma holds_kind: "holds flag i = (case it_kind i of KArgs a \<Rightarrow> a \<noteq> [] \<and> hd a = flag | _ \<Rightarrow> False)"
  by (simp add: holds_def)

lemma extra_holds: "ns_extra (it_kind i) \<Longrightarrow> \<not> holds (str ''--share-net'') i"
  by (cases "it_kind i") (simp_all add: holds_kind)

lemma ns_shared:
  assumes "map it_kind ns = ns_core shared dir @ extras" and "list_all ns_extra extras"
  shows "list_ex (holds (str ''--share-net'')) ns \<longleftrightarrow> shared"
proof -
  from assms(1) obtain core rest where ns: "ns = core @ rest" "map it_kind core = ns_core shared dir" "map it_kind rest = extras"
    by (auto simp: map_eq_append_conv)
  have "\<not> list_ex (holds (str ''--share-net'')) rest" using assms(2) ns(3) extra_holds by (auto simp: list_ex_iff list_all_iff)
  moreover have "list_ex (holds (str ''--share-net'')) core \<longleftrightarrow> shared"
    using ns(2) by (cases shared) (auto simp: ns_core_def map_eq_Cons_conv holds_kind)
  ultimately show ?thesis by (simp add: ns(1))
qed

lemma share_net_ok:
  assumes "args_ok a"
  shows "args_ok (share_net a)"
proof (cases "list_ex (holds (str ''--share-net'')) (ba_namespaces a)")
  case False
  from assms obtain shared dir extras where ns: "map it_kind (ba_namespaces a) = ns_core shared dir @ extras" "list_all ns_extra extras"
    by (auto simp: args_ok_def ns_ok_def)
  with False have "\<not> shared" using ns_shared [OF ns] by blast
  with ns have "map it_kind (ba_namespaces (share_net a)) = ns_core True dir @ extras"
    using False by (auto simp: share_net_def ns_core_def op_def map_eq_Cons_conv)
  with ns(2) assms show ?thesis unfolding args_ok_def ns_ok_def by (auto simp: share_net_def)
qed (use assms in \<open>simp add: share_net_def\<close>)

lemma share_net_net [simp]: "net_shared (share_net a)"
  by (auto simp: net_shared_def share_net_def holds_def op_def)

lemma share_net_same [simp]:
  "ba_skeleton (share_net a) = ba_skeleton a" "ba_runtime_dir (share_net a) = ba_runtime_dir a"
  "ba_ctty (share_net a) = ba_ctty a" "ba_x11 (share_net a) = ba_x11 a"
  by (simp_all add: share_net_def)

text \<open>Flags appended to the first phase.\<close>

lemma append_ns_ok:
  assumes "ns_ok ns" and "ns_extra (it_kind i)"
  shows "ns_ok (ns @ [i])" and "list_ex (holds (str ''--share-net'')) (ns @ [i]) = list_ex (holds (str ''--share-net'')) ns"
proof -
  from assms obtain shared dir extras where "map it_kind ns = ns_core shared dir @ extras" "list_all ns_extra extras"
    by (auto simp: ns_ok_def)
  with assms(2) have "map it_kind (ns @ [i]) = ns_core shared dir @ (extras @ [it_kind i])" "list_all ns_extra (extras @ [it_kind i])"
    by simp_all
  then show "ns_ok (ns @ [i])" unfolding ns_ok_def by blast
qed (simp add: extra_holds [OF assms(2)] del: str_Cons)

lemma ns_calls:
  assumes "args_ok a"
  shows "args_ok (disable_userns a)" "net_shared (disable_userns a) = net_shared a"
    "args_ok (block_until_released a)" "net_shared (block_until_released a) = net_shared a"
    "args_ok (add_seccomp program arches a)" "net_shared (add_seccomp program arches a) = net_shared a"
    "args_ok (set_ctty a)" "net_shared (set_ctty a) = net_shared a"
  using assms
  by (auto simp: args_ok_def net_shared_def disable_userns_def block_until_released_def add_seccomp_def set_ctty_def
      append_ns_ok op_def holds_kind)

lemma update_first_Some:
  "list_ex p xs \<Longrightarrow> \<exists>pre x post. xs = pre @ x # post \<and> p x \<and> list_all (\<lambda>y. \<not> p y) pre \<and>
     update_first p f xs = Some (pre @ f x # post)"
proof (induction xs)
  case (Cons y ys)
  show ?case
  proof (cases "p y")
    case True
    then show ?thesis by (intro exI [of _ "[]"]) simp
  next
    case False
    with Cons obtain pre x post where "ys = pre @ x # post" "p x" "list_all (\<lambda>y. \<not> p y) pre"
        "update_first p f ys = Some (pre @ f x # post)" by auto
    with False show ?thesis by (intro exI [of _ "y # pre"]) auto
  qed
qed simp

lemma update_first_skip: "list_all (\<lambda>y. \<not> p y) pre \<Longrightarrow> p x \<Longrightarrow> update_first p f (pre @ x # post) = Some (pre @ f x # post)"
  by (induction pre) auto

text \<open>The baseline always has a working directory to replace, so this never panics.\<close>

lemma chdir_total:
  assumes "args_ok a"
  shows "\<exists>ns. chdir dir a = Some (a\<lparr>ba_namespaces := ns\<rparr>) \<and> args_ok (a\<lparr>ba_namespaces := ns\<rparr>) \<and>
    net_shared (a\<lparr>ba_namespaces := ns\<rparr>) = net_shared a"
proof -
  from assms obtain shared old extras where ns: "map it_kind (ba_namespaces a) = ns_core shared old @ extras" "list_all ns_extra extras"
    by (auto simp: args_ok_def ns_ok_def)
  let ?pre = "KArgs [str ''--unshare-all''] # (if shared then [KArgs [str ''--share-net'']] else []) @
     [KArgs [str ''--die-with-parent''], KArgs [str ''--new-session''], KArgs [str ''--hostname'', str ''bubbler'']]"
  from ns(1) have "map it_kind (ba_namespaces a) = ?pre @ KArgs [str ''--chdir'', old] # KInfoFd # extras"
    by (simp add: ns_core_def)
  then obtain pre tail where q: "ba_namespaces a = pre @ tail" "map it_kind pre = ?pre"
      "map it_kind tail = KArgs [str ''--chdir'', old] # KInfoFd # extras"
    unfolding map_eq_append_conv by (elim exE conjE) (rule that; simp only:)
  from q(3) obtain x post where "tail = x # post" "it_kind x = KArgs [str ''--chdir'', old]" "map it_kind post = KInfoFd # extras"
    unfolding map_eq_Cons_conv [of it_kind tail] by (elim exE conjE)
  note p = q(1) [unfolded this(1)] q(2) this(2,3)
  have "list_all (\<lambda>i. \<not> holds (str ''--chdir'') i) pre"
    using p(2) by (cases shared) (auto simp: map_eq_Cons_conv holds_kind)
  then have u: "update_first (holds (str ''--chdir'')) (set_chdir dir) (ba_namespaces a) = Some (pre @ set_chdir dir x # post)"
    unfolding p(1) by (rule update_first_skip) (simp add: holds_kind p(3) del: str_Cons)
  have kinds: "map it_kind (pre @ set_chdir dir x # post) = ns_core shared dir @ extras"
    by (simp add: p(2-4) set_chdir_def ns_core_def del: str_Cons)
  with ns(2) have "ns_ok (pre @ set_chdir dir x # post)" unfolding ns_ok_def by blast
  moreover have "list_ex (holds (str ''--share-net'')) (pre @ set_chdir dir x # post) =
      list_ex (holds (str ''--share-net'')) (ba_namespaces a)"
    using ns_shared [OF kinds ns(2)] ns_shared [OF ns] by simp
  ultimately show ?thesis using assms u
    by (intro exI [of _ "pre @ set_chdir dir x # post"]) (simp add: chdir_def args_ok_def net_shared_def)
qed

lemma position_at: "list_all (\<lambda>y. \<not> p y) pre \<Longrightarrow> p x \<Longrightarrow> position p (pre @ x # post) = Some (length pre)"
  by (induction pre) auto

text \<open>The baseline's second phase around the two account files.\<close>

definition skeleton_head :: "Item list" where
  "skeleton_head = usr_links @ [base_op [str ''--ro-bind-try'', str ''/opt'', str ''/opt'']]"

definition skeleton_tail :: "path \<Rightarrow> Host \<Rightarrow> Item list" where
  "skeleton_tail instance_home h =
     [base_op [str ''--proc'', str ''/proc''], base_op [str ''--dev'', str ''/dev'']] @
     (if is_type h CharDevice (str ''/dev/ntsync'')
      then [base_op [str ''--dev-bind'', str ''/dev/ntsync'', str ''/dev/ntsync'']] else []) @
     [tmpfs_op TMP_SIZE (str ''/tmp''), tmpfs_op TMPFS_SIZE (str ''/var''), tmpfs_op TMPFS_SIZE (str ''/run''),
      base_op [str ''--bind'', instance_home, SANDBOX_HOME]]"

lemma baseline_skeleton_parts:
  "baseline_skeleton env home h =
     skeleton_head @ tmpfs_op TMPFS_SIZE (str ''/etc'') # etc_binds h ETC_ALLOWLIST @
     data_item FromBaseline (passwd_content (env_uid env) (env_gid env)) (str ''/etc/passwd'') #
     data_item FromBaseline (group_content (env_gid env)) (str ''/etc/group'') # skeleton_tail home h"
  by (simp add: baseline_skeleton_def skeleton_head_def skeleton_tail_def)

lemma etc_binds_plain: "list_all (\<lambda>i. \<not> is_data i) (etc_binds h names)" "list_all (\<lambda>i. \<not> sized_tmpfs d i) (etc_binds h names)"
  by (auto simp: etc_binds_def list_all_iff is_data_def sized_tmpfs_def op_def)

text \<open>On the baseline the whole host \<^verbatim>\<open>/etc\<close> takes the place of the allowlist, and the synthetic
  account files stay behind it.\<close>

lemma bind_host_etc_baseline:
  assumes "ba_skeleton a = baseline_skeleton env home h"
  shows "bind_host_etc h a = Some (a\<lparr>ba_skeleton :=
    skeleton_head @ op (ba_origin a) [str ''--ro-bind'', str ''/etc'', str ''/etc''] #
    data_item (ba_origin a) (passwd_content (env_uid env) (env_gid env)) (str ''/etc/passwd'') #
    data_item (ba_origin a) (group_content (env_gid env)) (str ''/etc/group'') #
    account_copies h (ba_origin a) (passwd_content (env_uid env) (env_gid env)) (group_content (env_gid env)) @
    skeleton_tail home h\<rparr>)"
proof -
  let ?sk = "ba_skeleton a" and ?t = "tmpfs_op TMPFS_SIZE (str ''/etc'')" and ?e = "etc_binds h ETC_ALLOWLIST"
  let ?p = "data_item FromBaseline (passwd_content (env_uid env) (env_gid env)) (str ''/etc/passwd'')"
  let ?g = "data_item FromBaseline (group_content (env_gid env)) (str ''/etc/group'')"
  have sk: "?sk = skeleton_head @ ?t # ?e @ ?p # ?g # skeleton_tail home h" by (simp add: assms baseline_skeleton_parts)
  have "list_all (\<lambda>i. \<not> sized_tmpfs (str ''/etc'') i) skeleton_head"
    by (simp add: skeleton_head_def usr_links_def sized_tmpfs_def op_def)
  then have start: "position (sized_tmpfs (str ''/etc'')) ?sk = Some (length skeleton_head)"
    unfolding sk by (rule position_at) (simp add: tmpfs_op_def sized_tmpfs_def op_def)
  have "position is_data ((?t # ?e) @ ?p # ?g # skeleton_tail home h) = Some (length (?t # ?e))"
    by (rule position_at) (simp_all add: etc_binds_plain tmpfs_op_def op_def data_item_def, simp_all add: is_data_def)
  then have n: "position is_data (drop (length skeleton_head) ?sk) = Some (Suc (length ?e))" by (simp add: sk)
  have at: "?sk ! (length skeleton_head + Suc (length ?e)) = ?p" "?sk ! (length skeleton_head + Suc (length ?e) + 1) = ?g"
    "drop (length skeleton_head + Suc (length ?e) + 2) ?sk = skeleton_tail home h"
    "take (length skeleton_head) ?sk = skeleton_head" "\<not> length ?sk < length skeleton_head + Suc (length ?e) + 2"
    by (simp_all add: sk nth_append numeral_3_eq_3)
  show ?thesis
    unfolding bind_host_etc_def Let_def start n option.case at
    using at(5) by (simp add: data_item_def)
qed

lemma tmp_size_total:
  assumes "list_ex (sized_tmpfs (str ''/tmp'')) (ba_skeleton a)"
  shows "\<exists>sk. tmp_size cap a = Some (a\<lparr>ba_skeleton := sk\<rparr>) \<and> (list_all is_mount (ba_skeleton a) \<longrightarrow> list_all is_mount sk)"
proof -
  let ?f = "set_size (ba_origin a) cap"
  from update_first_Some [OF assms, of ?f] obtain pre x post where
    u: "ba_skeleton a = pre @ x # post" "sized_tmpfs (str ''/tmp'') x"
      "update_first (sized_tmpfs (str ''/tmp'')) ?f (ba_skeleton a) = Some (pre @ ?f x # post)" by blast
  have "is_mount (?f x)" if "is_mount x"
    using u(2) that by (cases "it_kind x") (auto simp: sized_tmpfs_def set_size_def is_mount_def elim!: mount_words.elims)
  with u show ?thesis by (intro exI [of _ "pre @ ?f x # post"]) (simp add: tmp_size_def)
qed

text \<open>Both replacements of the second phase leave it made of mount operations, with the \<^verbatim>\<open>/tmp\<close> in it that
  the second one looks for.\<close>

lemma etc_kept:
  "list_all is_mount (skeleton_head @ op orig [str ''--ro-bind'', str ''/etc'', str ''/etc''] #
     data_item orig passwd p # data_item orig groups g # account_copies h orig passwd groups @ skeleton_tail home h)"
  "list_ex (sized_tmpfs (str ''/tmp'')) (skeleton_tail home h)"
  by (auto simp: skeleton_head_def skeleton_tail_def usr_links_def tmpfs_op_def account_copies_def is_mount_op
      list_all_iff sized_tmpfs_def op_def is_mount_def data_item_def)

section \<open>From phases to an argv\<close>

lemma flatten_append [simp]: "flatten (a @ b) = flatten a @ flatten b" "flatten [] = []"
    "flatten (x # xs) = ex_args x @ flatten xs"
  by (simp_all add: flatten_def)

lemma length_flatten: "length (flatten ops) = sum_list (map (\<lambda>x. length (ex_args x)) ops)"
  by (induction ops) simp_all

lemma into_argv_parts:
  "argv_options (into_argv f) = flatten (take (fi_options f) (fi_ops f))"
  "argv_command (into_argv f) = flatten (drop (fi_options f) (fi_ops f))"
proof -
  have "flatten (fi_ops f) = flatten (take (fi_options f) (fi_ops f)) @ flatten (drop (fi_options f) (fi_ops f))"
    unfolding flatten_append(1) [symmetric] by simp
  then show "argv_options (into_argv f) = flatten (take (fi_options f) (fi_ops f))"
    "argv_command (into_argv f) = flatten (drop (fi_options f) (fi_ops f))"
    by (simp_all add: argv_options_def argv_command_def into_argv_def length_flatten [symmetric])
qed

text \<open>An item of literal arguments is emitted as it stands, and every item becomes one operation.\<close>

lemma emit_items_args:
  "emit_items alloc xs s = (Inr out, s') \<Longrightarrow>
     length out = length xs \<and> (\<forall>k < length xs. \<forall>a. it_kind (xs ! k) = KArgs a \<longrightarrow> ex_args (out ! k) = a)"
proof (induction xs arbitrary: s out)
  case (Cons i rest)
  from Cons.prems obtain args remark s1 tail where
    r: "resolve_item alloc i s = (Inr (args, remark), s1)" "emit_items alloc rest s1 = (Inr tail, s')"
      "out = \<lparr>ex_origin = it_origin i, ex_args = args, ex_note = remark\<rparr> # tail"
    by (auto split: prod.splits sum.splits)
  from Cons.IH [OF r(2)] r(1,3) show ?case
    by (auto simp: less_Suc_eq_0_disj resolve_item_def)
qed simp

end
