(* ===== verification/Core_Shares.thy ===== *)
theory Core_Shares
  imports Core_Config Core_Bwrap
begin

text \<open>
  What a configuration or a flag may share of the host's files (the second half of
  \<^verbatim>\<open>service.rs\<close>): the reserved roots, \<open>path-share\<close>, \<open>home-share\<close>, \<open>etc-share\<close>,
  \<open>app-runtime\<close> and \<open>--share\<close>, the configured variables, and the sweep of the mount points for
  planted links before a launch.  Shown: whatever is shared keeps clear, at both ends, of every
  reserved root; no two shares contain one another; a share of the home stays in the home; and the
  sweep passes exactly when no component of any mount point in a tree the application writes is a link.
\<close>

definition display :: "path \<Rightarrow> bytes" where
  "display p = utf8_lossy p"

section \<open>Variables\<close>

fun apply_env :: "nat \<Rightarrow> (bytes \<times> bytes) list \<Rightarrow> BwrapArgs \<Rightarrow> LaunchError + BwrapArgs" where
  "apply_env i [] a = Inr a"
| "apply_env i ((k, v) # pairs) a =
     (let a = tag (FromEnv i) a in
      if k \<in> set RESERVED_ENV
      then Inl (BadValue (str ''env'') (k @ str '' is set by bubbler and cannot be overridden''))
      else apply_env (i + 1) pairs (setenv k v a))"

section \<open>Sources\<close>

definition resolve_source ::
    "Host \<Rightarrow> bytes \<Rightarrow> path \<Rightarrow> (Host \<Rightarrow> bytes \<Rightarrow> path \<Rightarrow> LaunchError + path) \<Rightarrow> LaunchError + path" where
  "resolve_source h service src probe =
     (case h_canonicalize h src of
        None \<Rightarrow> Inl (MissingResource service src)
      | Some real \<Rightarrow> probe h service real)"

definition confine :: "Host \<Rightarrow> bytes \<Rightarrow> path \<Rightarrow> path \<Rightarrow> bytes \<Rightarrow> LaunchError + path" where
  "confine h service root src outside =
     res_bind (ok_or (MissingResource service root) (h_canonicalize h root)) (\<lambda>root.
     res_bind (resolve_source h service src require_exists) (\<lambda>real.
       if \<not> path_starts_with real root
       then Inl (BadValue service (display src @ str '' resolves outside '' @ outside))
       else Inr real))"

section \<open>Reserved roots\<close>

definition DENIED_ROOTS :: "path list" where
  "DENIED_ROOTS =
     [str ''/proc'', str ''/sys'', str ''/dev'', str ''/etc'', str ''/usr'', str ''/opt'', str ''/home'', str ''/tmp'',
      str ''/var'', str ''/run'']"

definition MEDIA_ROOT :: path where
  "MEDIA_ROOT = str ''/run/media''"

datatype End = EndSource | EndDestination

definition resolved_or :: "Host \<Rightarrow> path \<Rightarrow> path" where
  "resolved_or h p = (case h_canonicalize h p of Some real \<Rightarrow> real | None \<Rightarrow> p)"

definition named_roots :: "Host \<Rightarrow> Env \<Rightarrow> path list" where
  "named_roots h env =
     [env_home env, env_runtime_dir env, path_join (env_data_home env) (str ''bubbler''),
      path_join (resolved_or h (env_data_home env)) (str ''bubbler''),
      path_join (env_config_home env) (str ''bubbler''),
      path_join (resolved_or h (env_config_home env)) (str ''bubbler'')] @
     (case env_profile_dir_override env of Some p \<Rightarrow> [p] | None \<Rightarrow> [])"

definition env_roots :: "Host \<Rightarrow> Env \<Rightarrow> path list" where
  "env_roots h env = named_roots h env @ List.map_filter (h_canonicalize h) (named_roots h env)"

definition root_path :: path where
  "root_path = str ''/''"

definition fixed_root :: "path \<Rightarrow> Env \<Rightarrow> path option" where
  "fixed_root p env =
     (if (case env_test_allow_path env of Some allow \<Rightarrow> path_starts_with p allow | None \<Rightarrow> False) then None
      else if path_eq p root_path then Some root_path
      else
        let on_media = path_starts_with p MEDIA_ROOT in
        List.find (\<lambda>root. nested p root \<and> \<not> (on_media \<and> path_eq root (str ''/run''))) DENIED_ROOTS)"

definition denied_root :: "Host \<Rightarrow> Env \<Rightarrow> path \<Rightarrow> path \<Rightarrow> (path \<times> End) option" where
  "denied_root h env canonical written =
     (if path_eq canonical root_path \<or> path_eq written root_path then Some (root_path, EndSource)
      else
        let roots = env_roots h env in
        case List.find (nested canonical) roots of
          Some root \<Rightarrow> Some (root, EndSource)
        | None \<Rightarrow>
            (case List.find (nested written) roots of
               Some root \<Rightarrow> Some (root, EndDestination)
             | None \<Rightarrow>
                 if nested written SANDBOX_HOME then Some (SANDBOX_HOME, EndDestination)
                 else
                   (case fixed_root canonical env of
                      Some root \<Rightarrow> Some (root, EndSource)
                    | None \<Rightarrow> map_option (\<lambda>root. (root, EndDestination)) (fixed_root written env))))"

definition denied_reason :: "path \<Rightarrow> path \<Rightarrow> path \<Rightarrow> End \<Rightarrow> bytes" where
  "denied_reason written src root e =
     (case e of
        EndDestination \<Rightarrow>
          display written @ str '' would be bound over '' @ display root @ str '', which bubbler never shares''
      | EndSource \<Rightarrow>
          let target =
            (if path_eq src root then display root
             else display src @ str '', which overlaps '' @ display root)
          in if path_eq src written then str ''bubbler never shares '' @ target
             else display written @ str '' resolves to '' @ target @ str '', which bubbler never shares'')"

definition reserved_reason :: "Host \<Rightarrow> Env \<Rightarrow> path \<Rightarrow> bytes option" where
  "reserved_reason h env written =
     (let src = resolved_or h written in
      map_option (\<lambda>(root, e). denied_reason written src root e) (denied_root h env src written))"

section \<open>Path shares\<close>

text \<open>A missing source that its node lets be absent.\<close>

definition absent_optional :: "bool \<Rightarrow> path \<Rightarrow> LaunchError + path \<Rightarrow> bool" where
  "absent_optional optional written r \<longleftrightarrow>
     (case r of Inl (MissingResource _ p) \<Rightarrow> optional \<and> path_eq p written | _ \<Rightarrow> False)"

type_synonym placed = "nat \<times> path \<times> path \<times> ShareMode"

fun as_path_share :: "Service \<Rightarrow> (path \<times> ShareMode \<times> bool) option" where
  "as_path_share (PathShare p mode optional) = Some (p, mode, optional)"
| "as_path_share _ = None"

fun collect_shares :: "Env \<Rightarrow> Host \<Rightarrow> nat \<Rightarrow> Service list \<Rightarrow> LaunchError + placed list" where
  "collect_shares env h i [] = Inr []"
| "collect_shares env h i (s # services) =
     (case as_path_share s of
        Some (p, mode, optional) \<Rightarrow>
          let r = resolve_source h (str ''path-share'') p require_dir_or_file in
          if absent_optional optional p r then collect_shares env h (i + 1) services
          else
            res_bind r (\<lambda>src.
              case denied_root h env src p of
                Some (root, e) \<Rightarrow> Inl (BadValue (str ''path-share'') (denied_reason p src root e))
              | None \<Rightarrow> res_bind (collect_shares env h (i + 1) services) (\<lambda>rest. Inr ((i, p, src, mode) # rest)))
      | None \<Rightarrow> collect_shares env h (i + 1) services)"

definition where_text :: "path \<Rightarrow> path \<Rightarrow> bytes" where
  "where_text a b = str '' (they resolve to '' @ display a @ str '' and '' @ display b @ str '')''"

definition overlap_text :: "path \<Rightarrow> path \<Rightarrow> bytes \<Rightarrow> bytes" where
  "overlap_text a b where =
     display a @ str '' and '' @ display b @ str '' overlap'' @ where @ str ''; one share cannot contain another''"

fun pair_overlap :: "placed \<Rightarrow> placed \<Rightarrow> bytes option" where
  "pair_overlap (_, a_dst, a_src, _) (_, b_dst, b_src, _) =
     (let destinations = nested a_dst b_dst in
      if \<not> destinations \<and> \<not> nested a_src b_src then None
      else Some (overlap_text a_dst b_dst (if destinations then [] else where_text a_src b_src)))"

fun first_overlap :: "placed list \<Rightarrow> bytes option" where
  "first_overlap [] = None"
| "first_overlap (a # rest) =
     (case find_map (pair_overlap a) rest of Some reason \<Rightarrow> Some reason | None \<Rightarrow> first_overlap rest)"

definition path_shares :: "Service list \<Rightarrow> Env \<Rightarrow> Host \<Rightarrow> LaunchError + placed list" where
  "path_shares services env h =
     res_bind (collect_shares env h 0 services) (\<lambda>shares.
       case first_overlap shares of
         Some reason \<Rightarrow> Inl (BadValue (str ''path-share'') reason)
       | None \<Rightarrow> Inr shares)"

section \<open>Shares of the home and of the account directory\<close>

definition denied_root_in_home :: "Host \<Rightarrow> Env \<Rightarrow> path \<Rightarrow> path \<Rightarrow> (path \<times> End) option" where
  "denied_root_in_home h env canonical dst =
     (if path_eq dst SANDBOX_HOME then Some (SANDBOX_HOME, EndDestination)
      else
        let home = env_home env # (case h_canonicalize h (env_home env) of Some p \<Rightarrow> [p] | None \<Rightarrow> []) in
        map_option (\<lambda>root. (root, EndSource))
          (List.find (nested canonical) (filter (\<lambda>root. \<not> list_ex (\<lambda>p. path_eq p root) home) (env_roots h env))))"

definition deny_reserved_in_home :: "Host \<Rightarrow> Env \<Rightarrow> bytes \<Rightarrow> path \<Rightarrow> path \<Rightarrow> path \<Rightarrow> LaunchError + unit" where
  "deny_reserved_in_home h env service written src dst =
     (case denied_root_in_home h env src dst of
        Some (root, e) \<Rightarrow> Inl (BadValue service (denied_reason written src root e))
      | None \<Rightarrow> Inr ())"

definition reserved_in_home_reason :: "Host \<Rightarrow> Env \<Rightarrow> path \<Rightarrow> bytes option" where
  "reserved_in_home_reason h env rel =
     (let written = path_join (env_home env) rel;
          src = resolved_or h written;
          dst = path_join SANDBOX_HOME rel
      in map_option (\<lambda>(root, e). denied_reason written src root e) (denied_root_in_home h env src dst))"

definition bind_mode :: "ShareMode \<Rightarrow> path \<Rightarrow> path \<Rightarrow> BwrapArgs \<Rightarrow> BwrapArgs" where
  "bind_mode mode src dst = (case mode of ReadOnly \<Rightarrow> ro_bind src dst | ReadWrite \<Rightarrow> bind_rw src dst)"

definition home_share :: "Env \<Rightarrow> Host \<Rightarrow> path \<Rightarrow> ShareMode \<Rightarrow> bool \<Rightarrow> BwrapArgs \<Rightarrow> LaunchError + BwrapArgs" where
  "home_share env h rel mode optional a =
     (let written = path_join (env_home env) rel;
          r = confine h (str ''home-share'') (env_home env) written (str ''the home directory'')
      in if absent_optional optional written r then Inr a
         else
           res_bind r (\<lambda>src.
             let dst = path_join SANDBOX_HOME rel in
             res_bind (deny_reserved_in_home h env (str ''home-share'') written src dst) (\<lambda>_.
               Inr (bind_mode mode src dst a))))"

definition etc_share :: "Host \<Rightarrow> bytes \<Rightarrow> BwrapArgs \<Rightarrow> LaunchError + BwrapArgs" where
  "etc_share h name a =
     (let etc = str ''/etc''; dst = path_join etc name in
      res_bind (confine h (str ''etc-share'') etc dst (str ''/etc'')) (\<lambda>src. Inr (ro_bind src dst a)))"

definition app_runtime_dir :: "Env \<Rightarrow> bytes \<Rightarrow> path" where
  "app_runtime_dir env app_id = path_join (path_join (env_runtime_dir env) (str ''app'')) app_id"

definition app_runtime :: "Env \<Rightarrow> bytes \<Rightarrow> ShareMode \<Rightarrow> BwrapArgs \<Rightarrow> BwrapArgs" where
  "app_runtime env app_id mode a = (let dir = app_runtime_dir env app_id in bind_mode mode dir dir a)"

section \<open>The shares of one run\<close>

fun as_home_share :: "Service \<Rightarrow> (path \<times> ShareMode \<times> bool) option" where
  "as_home_share (HomeShare p mode optional) = Some (p, mode, optional)"
| "as_home_share _ = None"

fun home_shares :: "Env \<Rightarrow> Host \<Rightarrow> Service list \<Rightarrow> LaunchError + (path \<times> path) list" where
  "home_shares env h [] = Inr []"
| "home_shares env h (s # services) =
     (case as_home_share s of
        Some (p, mode, optional) \<Rightarrow>
          let written = path_join (env_home env) p;
              r = confine h (str ''home-share'') (env_home env) written (str ''the home directory'')
          in if absent_optional optional written r then home_shares env h services
             else
               res_bind r (\<lambda>src.
                 res_bind (home_shares env h services) (\<lambda>rest. Inr ((src, path_join SANDBOX_HOME p) # rest)))
      | None \<Rightarrow> home_shares env h services)"

definition config_shares :: "Service list \<Rightarrow> Env \<Rightarrow> Host \<Rightarrow> LaunchError + (path option \<times> path) list" where
  "config_shares services env h =
     res_bind (home_shares env h services) (\<lambda>homes.
     res_bind (path_shares services env h) (\<lambda>shares.
       Inr (map (\<lambda>(src, dst). (Some src, dst)) homes @ map (\<lambda>(_, dst, src, _). (Some src, dst)) shares)))"

definition overlap :: "path \<Rightarrow> path \<Rightarrow> path option \<times> path \<Rightarrow> bytes option" where
  "overlap src dst other =
     (if nested dst (snd other) then Some (overlap_text dst (snd other) [])
      else case fst other of
             Some o_src \<Rightarrow>
               if nested src o_src then Some (overlap_text dst (snd other) (where_text src o_src)) else None
           | None \<Rightarrow> None)"

definition share_paths :: "Env \<Rightarrow> Host \<Rightarrow> path \<Rightarrow> LaunchError + path \<times> path" where
  "share_paths env h written =
     (let cs = components written; flag = str ''--share'' in
      if cs = [] \<or> hd cs \<noteq> RootDir then Inl (BadValue flag (display written @ str '' is not absolute''))
      else if \<not> list_all (\<lambda>c. case c of Normal _ \<Rightarrow> True | _ \<Rightarrow> False) (tl cs)
      then Inl (BadValue flag (display written @ str '' contains `.` or `..`; give the path without them''))
      else case strip_path written (env_home env) of
        Some rel \<Rightarrow>
          res_bind (confine h flag (env_home env) written (str ''the home directory'')) (\<lambda>src.
          res_bind (require_dir_or_file h flag src) (\<lambda>src.
            let dst = path_join SANDBOX_HOME rel in
            res_bind (deny_reserved_in_home h env flag written src dst) (\<lambda>_. Inr (src, dst))))
      | None \<Rightarrow>
          res_bind (resolve_source h flag written require_dir_or_file) (\<lambda>src.
            case denied_root h env src written of
              Some (root, e) \<Rightarrow> Inl (BadValue flag (denied_reason written src root e))
            | None \<Rightarrow> Inr (src, collect_path cs)))"

fun plan_shares ::
    "Env \<Rightarrow> Host \<Rightarrow> (path option \<times> path) list \<Rightarrow> (path \<times> path) list \<Rightarrow> Share list \<Rightarrow> LaunchError + (path \<times> path) list" where
  "plan_shares env h config out [] = Inr out"
| "plan_shares env h config out (s # shares) =
     res_bind (share_paths env h (sh_path s)) (\<lambda>(src, dst).
       if list_ex (\<lambda>(_, d). path_eq d dst) config
       then Inl (BadValue (str ''--share'') (display (sh_path s) @ str '' already shared by config.kdl''))
       else if list_ex (\<lambda>(_, d). path_eq d dst) out
       then Inl (BadValue (str ''--share'') (display (sh_path s) @ str '' given twice''))
       else case find_map (overlap src dst) (config @ map (\<lambda>(o_src, o_dst). (Some o_src, o_dst)) out) of
              Some reason \<Rightarrow> Inl (BadValue (str ''--share'') reason)
            | None \<Rightarrow> plan_shares env h config (out @ [(src, dst)]) shares)"

definition share_plan :: "Service list \<Rightarrow> Share list \<Rightarrow> Env \<Rightarrow> Host \<Rightarrow> LaunchError + (path \<times> path) list" where
  "share_plan services shares env h =
     res_bind (config_shares services env h) (\<lambda>config. plan_shares env h config [] shares)"

fun bind_shares ::
    "Host \<Rightarrow> nat \<Rightarrow> (Share \<times> path \<times> path) list \<Rightarrow> path option \<Rightarrow> BwrapArgs \<Rightarrow> path option \<times> BwrapArgs" where
  "bind_shares h i [] cwd a = (cwd, a)"
| "bind_shares h i ((s, src, dst) # rest) cwd a =
     (let a = bind_mode (sh_mode s) src dst (tag (FromShare i) a) in
      bind_shares h (i + 1) rest (if cwd = None \<and> is_type h Directory src then Some dst else cwd) a)"

definition apply_shares ::
    "Service list \<Rightarrow> Share list \<Rightarrow> Env \<Rightarrow> Host \<Rightarrow> BwrapArgs \<Rightarrow> (LaunchError + BwrapArgs) option" where
  "apply_shares services shares env h a =
     (if shares = [] then Some (Inr a)
      else case share_plan services shares env h of
             Inl e \<Rightarrow> Some (Inl e)
           | Inr plan \<Rightarrow>
               (case bind_shares h 0 (zip shares plan) None a of
                  (Some dir, a) \<Rightarrow> map_option Inr (chdir dir a)
                | (None, a) \<Rightarrow> Some (Inr a)))"

section \<open>The sweep\<close>

definition CREATES :: "(bytes \<times> nat) list" where
  "CREATES =
     [(str ''--bind'', 2), (str ''--bind-try'', 2), (str ''--ro-bind'', 2), (str ''--ro-bind-try'', 2), (str ''--dev-bind'', 2),
      (str ''--dev-bind-try'', 2), (str ''--symlink'', 2), (str ''--bind-data'', 2), (str ''--ro-bind-data'', 2),
      (str ''--file'', 2), (str ''--dir'', 1), (str ''--tmpfs'', 1), (str ''--proc'', 1), (str ''--dev'', 1),
      (str ''--mqueue'', 1), (str ''--overlay'', 3), (str ''--tmp-overlay'', 1), (str ''--ro-overlay'', 1)]"

fun destination_in :: "bytes list \<Rightarrow> path option" where
  "destination_in [] = None"
| "destination_in (arg # args) =
     (case map_of CREATES arg of Some n \<Rightarrow> get_at (arg # args) n | None \<Rightarrow> destination_in args)"

definition destination :: "Explained \<Rightarrow> path option" where
  "destination x = destination_in (ex_args x)"

definition tree_of :: "Env \<Rightarrow> Explained \<Rightarrow> (path \<times> path \<times> bytes) option" where
  "tree_of env x =
     (case position (\<lambda>arg. arg = str ''--bind'' \<or> arg = str ''--ro-bind'') (ex_args x) of
        None \<Rightarrow> None
      | Some i \<Rightarrow>
          (case (get_at (ex_args x) (i + 1), get_at (ex_args x) (i + 2)) of
             (Some src, Some dst) \<Rightarrow>
               if path_eq dst SANDBOX_HOME then Some (src, dst, str ''the instance home'')
               else if parent_is dst (path_join (env_runtime_dir env) (str ''app''))
               then Some (src, dst, str ''the app-runtime directory'')
               else if path_eq dst (path_join (env_runtime_dir env) (str ''doc''))
               then Some (src, dst, str ''the document view'')
               else None
           | _ \<Rightarrow> None))"

definition writable_trees :: "Explained list \<Rightarrow> Env \<Rightarrow> (path \<times> path \<times> bytes) list" where
  "writable_trees ops env = List.map_filter (tree_of env) ops"

fun sweep_parts :: "Host \<Rightarrow> path \<Rightarrow> path \<Rightarrow> bytes \<Rightarrow> path \<Rightarrow> path \<Rightarrow> Component list \<Rightarrow> LaunchError + unit" where
  "sweep_parts h dst host_root tree on_host inside [] = Inr ()"
| "sweep_parts h dst host_root tree on_host inside (part # parts) =
     (case part of
        Normal name \<Rightarrow>
          let on_host = path_join on_host name; inside = path_join inside name in
          (case h_read_link h on_host of
             Inr None \<Rightarrow> sweep_parts h dst host_root tree on_host inside parts
           | Inr (Some target) \<Rightarrow> Inl (PlantedSymlink inside tree target host_root)
           | Inl e \<Rightarrow> Inl (UncheckedDestination inside tree on_host e))
      | _ \<Rightarrow> Inl (UnwalkableDestination dst))"

definition sweep_tree :: "Host \<Rightarrow> path \<Rightarrow> path \<times> path \<times> bytes \<Rightarrow> LaunchError + unit" where
  "sweep_tree h dst t =
     (case t of (host_root, inside_root, tree) \<Rightarrow>
        (case strip_path dst inside_root of
           None \<Rightarrow> Inr ()
         | Some rel \<Rightarrow> sweep_parts h dst host_root tree host_root inside_root (components rel)))"

fun for_each :: "('a \<Rightarrow> 'e + unit) \<Rightarrow> 'a list \<Rightarrow> 'e + unit" where
  "for_each f [] = Inr ()"
| "for_each f (x # xs) = res_bind (f x) (\<lambda>_. for_each f xs)"

definition before_command :: "Explained list \<Rightarrow> Explained list" where
  "before_command ops = takeWhile (\<lambda>x. \<not> (ex_args x \<noteq> [] \<and> hd (ex_args x) = str ''--'')) ops"

definition sweep_destinations :: "Explained list \<Rightarrow> Env \<Rightarrow> Host \<Rightarrow> LaunchError + unit" where
  "sweep_destinations ops env h =
     (let trees = writable_trees ops env in
      for_each (\<lambda>x. case destination x of None \<Rightarrow> Inr () | Some dst \<Rightarrow> for_each (sweep_tree h dst) trees)
        (before_command ops))"

section \<open>What the roots keep out\<close>

lemma no_pair [simp]: "(\<forall>a b. x \<noteq> Some (a, b)) \<longleftrightarrow> x = None"
  by (cases x) auto

lemma find_None: "List.find p xs = None \<longleftrightarrow> (\<forall>x \<in> set xs. \<not> p x)"
  by (auto simp: find_None_iff)

lemma resolve_source_Inr:
  "resolve_source h service src probe = Inr real \<longleftrightarrow> (\<exists>p. h_canonicalize h src = Some p \<and> probe h service p = Inr real)"
  by (simp add: resolve_source_def split: option.splits)

lemma confine_Inr:
  "confine h service root src outside = Inr real \<longleftrightarrow>
     (\<exists>r. h_canonicalize h root = Some r \<and> h_canonicalize h src = Some real \<and> h_file_type h real \<noteq> None \<and>
        path_starts_with real r)"
  by (auto simp: confine_def resolve_source_Inr rust_simps)

text \<open>A path keeps clear of the fixed roots: of each of them, but for removable media under \<^verbatim>\<open>/run\<close> and for
  the subtree the test hook opens.\<close>

definition clear_of_fixed :: "Env \<Rightarrow> path \<Rightarrow> bool" where
  "clear_of_fixed env p \<longleftrightarrow>
     (\<exists>allow. env_test_allow_path env = Some allow \<and> path_starts_with p allow) \<or>
     (\<forall>root \<in> set DENIED_ROOTS. nested p root \<longrightarrow> path_eq root (str ''/run'') \<and> path_starts_with p MEDIA_ROOT)"

definition clear_of_env :: "Host \<Rightarrow> Env \<Rightarrow> path \<Rightarrow> bool" where
  "clear_of_env h env p \<longleftrightarrow> (\<forall>root \<in> set (env_roots h env). \<not> nested p root)"

lemma fixed_root_None: "fixed_root p env = None \<Longrightarrow> clear_of_fixed env p"
  by (auto simp: fixed_root_def clear_of_fixed_def find_None Let_def split: if_splits option.splits)

lemma denied_root_None:
  assumes "denied_root h env canonical written = None"
  shows "clear_of_env h env canonical \<and> clear_of_env h env written \<and> clear_of_fixed env canonical \<and>
    clear_of_fixed env written \<and> \<not> nested written SANDBOX_HOME \<and> \<not> path_eq canonical root_path \<and>
    \<not> path_eq written root_path"
  using assms
  by (auto simp: denied_root_def Let_def find_None clear_of_env_def fixed_root_None split: if_splits option.splits)

definition placed_ok :: "Env \<Rightarrow> Host \<Rightarrow> Service list \<Rightarrow> placed \<Rightarrow> bool" where
  "placed_ok env h services s \<longleftrightarrow>
     (case s of (i, dst, src, mode) \<Rightarrow>
        i < length services \<and> (\<exists>optional. services ! i = PathShare dst mode optional) \<and>
        h_canonicalize h dst = Some src \<and> (h_file_type h src = Some Directory \<or> h_file_type h src = Some RegularFile) \<and>
        denied_root h env src dst = None)"

lemma as_path_share_Some: "as_path_share s = Some (p, mode, optional) \<longleftrightarrow> s = PathShare p mode optional"
  by (cases s) auto

lemma collect_shares_ok:
  "collect_shares env h i rest = Inr shares \<Longrightarrow> services = pre @ rest \<Longrightarrow> length pre = i \<Longrightarrow>
   list_all (placed_ok env h services) shares"
proof (induction rest arbitrary: i pre shares)
  case (Cons s rest)
  have tail: "services = (pre @ [s]) @ rest" "length (pre @ [s]) = i + 1" using Cons.prems by auto
  note IH = Cons.IH [OF _ tail]
  show ?case
  proof (cases "as_path_share s")
    case None
    with Cons.prems IH show ?thesis by simp
  next
    case (Some v)
    obtain p mode optional where v: "v = (p, mode, optional)" by (cases v)
    let ?r = "resolve_source h (str ''path-share'') p require_dir_or_file"
    show ?thesis
    proof (cases "absent_optional optional p ?r")
      case True
      with Some v Cons.prems IH show ?thesis by (simp add: Let_def)
    next
      case False
      with Some v Cons.prems obtain src more where r: "?r = Inr src" "denied_root h env src p = None"
          "collect_shares env h (i + 1) rest = Inr more" "shares = (i, p, src, mode) # more"
        by (auto simp: Let_def rust_simps split: option.splits)
      moreover have "placed_ok env h services (i, p, src, mode)"
        using r(1,2) Some v Cons.prems(2,3)
        by (auto simp: placed_ok_def resolve_source_Inr require_dir_or_file_def rust_simps as_path_share_Some)
      ultimately show ?thesis using IH [OF r(3)] by simp
    qed
  qed
qed simp

definition apart :: "path \<times> path \<Rightarrow> path \<times> path \<Rightarrow> bool" where
  "apart a b \<longleftrightarrow> \<not> nested (fst a) (fst b) \<and> \<not> nested (snd a) (snd b)"

fun pairwise_apart :: "(path \<times> path) list \<Rightarrow> bool" where
  "pairwise_apart [] = True"
| "pairwise_apart (a # rest) = ((\<forall>b \<in> set rest. apart a b) \<and> pairwise_apart rest)"

definition ends_of :: "placed \<Rightarrow> path \<times> path" where
  "ends_of s = (case s of (_, dst, src, _) \<Rightarrow> (src, dst))"

lemma find_map_None: "find_map f xs = None \<longleftrightarrow> (\<forall>x \<in> set xs. f x = None)"
  by (induction xs) (auto split: option.splits)

lemma pair_overlap_None: "pair_overlap a b = None \<longleftrightarrow> apart (ends_of a) (ends_of b)"
  by (cases a; cases b) (auto simp: apart_def ends_of_def Let_def)

lemma first_overlap_None: "first_overlap shares = None \<longleftrightarrow> pairwise_apart (map ends_of shares)"
proof (induction shares)
  case (Cons a rest)
  have "find_map (pair_overlap a) rest = None \<longleftrightarrow> (\<forall>b \<in> set rest. apart (ends_of a) (ends_of b))"
    by (simp add: find_map_None pair_overlap_None)
  with Cons show ?case by (cases "find_map (pair_overlap a) rest") auto
qed simp

lemma path_shares_Inr:
  assumes "path_shares services env h = Inr shares"
  shows "list_all (placed_ok env h services) shares" "pairwise_apart (map ends_of shares)"
  using assms collect_shares_ok [of env h 0 services shares services "[]"]
  by (auto simp: path_shares_def rust_simps first_overlap_None split: option.splits)

text \<open>What a share of the home may be: inside the home once links are resolved, and apart from everything
  bubbler keeps there.\<close>

definition clear_in_home :: "Host \<Rightarrow> Env \<Rightarrow> path \<Rightarrow> bool" where
  "clear_in_home h env src \<longleftrightarrow>
     (\<forall>root \<in> set (env_roots h env). nested src root \<longrightarrow>
        path_eq root (env_home env) \<or> (\<exists>real. h_canonicalize h (env_home env) = Some real \<and> path_eq root real))"

lemma path_eq_sym: "path_eq a b \<longleftrightarrow> path_eq b a"
  by (auto simp: path_eq_def)

lemma denied_in_home_None:
  "denied_root_in_home h env src dst = None \<Longrightarrow> clear_in_home h env src \<and> \<not> path_eq dst SANDBOX_HOME"
  by (auto simp: denied_root_in_home_def Let_def find_None clear_in_home_def path_eq_sym split: if_splits option.splits)

lemma deny_reserved_Inr: "deny_reserved_in_home h env service written src dst = Inr u \<longleftrightarrow> denied_root_in_home h env src dst = None"
  by (auto simp: deny_reserved_in_home_def split: option.splits)

section \<open>What the builder calls here keep\<close>

lemma keeps_bind_mode [simp]: "keeps a b \<Longrightarrow> keeps a (bind_mode mode src dst b)"
  by (cases mode) (simp_all add: bind_mode_def)

lemma home_share_Inr:
  assumes "home_share env h rel mode optional a = Inr a'"
  shows "a' = a \<or> (\<exists>src home. h_canonicalize h (env_home env) = Some home \<and>
    h_canonicalize h (path_join (env_home env) rel) = Some src \<and> path_starts_with src home \<and> clear_in_home h env src \<and>
    \<not> path_eq (path_join SANDBOX_HOME rel) SANDBOX_HOME \<and> a' = bind_mode mode src (path_join SANDBOX_HOME rel) a)"
  using assms
  by (auto simp: home_share_def Let_def rust_simps confine_Inr deny_reserved_Inr split: if_splits dest: denied_in_home_None)

lemma etc_share_Inr:
  assumes "etc_share h name a = Inr a'"
  shows "\<exists>src etc. h_canonicalize h (str ''/etc'') = Some etc \<and> path_starts_with src etc \<and>
    h_canonicalize h (path_join (str ''/etc'') name) = Some src \<and> a' = ro_bind src (path_join (str ''/etc'') name) a"
  using assms by (simp only: etc_share_def Let_def rust_simps confine_Inr) blast

lemma apply_env_keeps: "apply_env i pairs a = Inr a' \<Longrightarrow> keeps a a'"
proof (induction i pairs a rule: apply_env.induct)
  case (2 i k v pairs a)
  then have "keeps (setenv k v (tag (FromEnv i) a)) a'" by (auto simp: Let_def split: if_splits)
  then show ?case by (rule keeps_trans [rotated]) simp
qed simp

lemma bind_shares_keeps: "bind_shares h i plan cwd a = (cwd', a') \<Longrightarrow> keeps a a'"
proof (induction h i plan cwd a rule: bind_shares.induct)
  case (2 h i s src dst rest cwd a)
  then have "keeps (bind_mode (sh_mode s) src dst (tag (FromShare i) a)) a'" by (simp add: Let_def)
  then show ?case by (rule keeps_trans [rotated]) simp
qed simp

section \<open>Shares of one run\<close>

definition mapped_home :: "Env \<Rightarrow> Host \<Rightarrow> path \<Rightarrow> path \<times> path \<Rightarrow> bool" where
  "mapped_home env h written s \<longleftrightarrow>
     (\<exists>rel home. strip_path written (env_home env) = Some rel \<and> snd s = path_join SANDBOX_HOME rel \<and>
        h_canonicalize h (env_home env) = Some home \<and> path_starts_with (fst s) home \<and> clear_in_home h env (fst s) \<and>
        \<not> path_eq (snd s) SANDBOX_HOME)"

definition share_ok :: "Env \<Rightarrow> Host \<Rightarrow> path \<Rightarrow> path \<times> path \<Rightarrow> bool" where
  "share_ok env h written s \<longleftrightarrow>
     h_canonicalize h written = Some (fst s) \<and>
     (h_file_type h (fst s) = Some Directory \<or> h_file_type h (fst s) = Some RegularFile) \<and>
     (mapped_home env h written s \<or> snd s = collect_path (components written) \<and> denied_root h env (fst s) written = None)"

lemma share_paths_Inr:
  assumes "share_paths env h written = Inr (src, dst)"
  shows "share_ok env h written (src, dst)" "ParentDir \<notin> set (components written)" "is_absolute written"
proof -
  let ?cs = "components written"
  from assms have cs: "?cs \<noteq> []" "hd ?cs = RootDir" "list_all (\<lambda>c. case c of Normal _ \<Rightarrow> True | _ \<Rightarrow> False) (tl ?cs)"
    by (auto simp: share_paths_def Let_def split: if_splits)
  then show "ParentDir \<notin> set ?cs" by (cases ?cs) (auto simp: list_all_iff)
  show "is_absolute written" using cs by (auto simp: absolute_components neq_Nil_conv)
  show "share_ok env h written (src, dst)"
  proof (cases "strip_path written (env_home env)")
    case None
    with assms cs show ?thesis
      by (auto simp: share_paths_def Let_def rust_simps resolve_source_Inr require_dir_or_file_def share_ok_def split: option.splits)
  next
    case (Some rel)
    with assms cs show ?thesis
      by (auto simp: share_paths_def Let_def rust_simps confine_Inr require_dir_or_file_def share_ok_def mapped_home_def
          deny_reserved_Inr dest!: denied_in_home_None)
  qed
qed

lemma overlap_None:
  "overlap src dst (Some o_src, o_dst) = None \<longleftrightarrow> apart (src, dst) (o_src, o_dst)"
  by (auto simp: overlap_def apart_def)

lemma pairwise_snoc:
  "pairwise_apart (xs @ [y]) \<longleftrightarrow> pairwise_apart xs \<and> (\<forall>x \<in> set xs. apart y x)"
proof -
  have "apart a b = apart b a" for a b using nested_sym by (auto simp: apart_def)
  then show ?thesis by (induction xs) auto
qed

lemma plan_shares_Inr:
  assumes "plan_shares env h (map (\<lambda>(s, d). (Some s, d)) config) out shares = Inr plan" and "pairwise_apart out"
    and "\<forall>s \<in> set out. \<forall>c \<in> set config. apart s c"
  shows "pairwise_apart plan \<and> (\<forall>s \<in> set plan. \<forall>c \<in> set config. apart s c) \<and>
    (\<exists>new. plan = out @ new \<and> list_all2 (\<lambda>s p. share_ok env h (sh_path s) p) shares new)"
  using assms
proof (induction shares arbitrary: out)
  case (Cons s shares)
  from Cons.prems(1) obtain src dst where p: "share_paths env h (sh_path s) = Inr (src, dst)"
      "find_map (overlap src dst) (map (\<lambda>(s, d). (Some s, d)) config @ map (\<lambda>(o_src, o_dst). (Some o_src, o_dst)) out) = None"
      "plan_shares env h (map (\<lambda>(s, d). (Some s, d)) config) (out @ [(src, dst)]) shares = Inr plan"
    by (auto simp: rust_simps split: if_splits option.splits)
  have "overlap src dst (case c of (s, d) \<Rightarrow> (Some s, d)) = None \<longleftrightarrow> apart (src, dst) c" for c
    by (cases c) (simp add: overlap_None)
  with p(2) have against: "\<forall>c \<in> set config \<union> set out. apart (src, dst) c"
    by (simp add: find_map_None ball_Un)
  with Cons.prems(2) have 1: "pairwise_apart (out @ [(src, dst)])" by (simp add: pairwise_snoc)
  from against Cons.prems(3) have 2: "\<forall>s \<in> set (out @ [(src, dst)]). \<forall>c \<in> set config. apart s c" by auto
  from Cons.IH [OF p(3) 1 2] share_paths_Inr(1) [OF p(1)] show ?case by auto
qed simp

lemma config_shares_Inr:
  "config_shares services env h = Inr config \<longleftrightarrow>
     (\<exists>homes placed. home_shares env h services = Inr homes \<and> path_shares services env h = Inr placed \<and>
        config = map (\<lambda>(s, d). (Some s, d)) (homes @ map ends_of placed))"
proof -
  have "map (\<lambda>(_, dst, src, _). (Some src, dst)) placed = map (\<lambda>(s, d). (Some s, d)) (map ends_of placed)" for placed :: "placed list"
    by (induction placed) (auto simp: ends_of_def)
  then show ?thesis by (auto simp: config_shares_def rust_simps)
qed

lemma share_plan_Inr:
  assumes "share_plan services shares env h = Inr plan"
  shows "\<exists>homes placed. home_shares env h services = Inr homes \<and> path_shares services env h = Inr placed \<and>
    pairwise_apart plan \<and> (\<forall>s \<in> set plan. \<forall>c \<in> set homes \<union> set (map ends_of placed). apart s c) \<and>
    list_all2 (\<lambda>s p. share_ok env h (sh_path s) p) shares plan"
proof -
  from assms obtain homes placed where c: "home_shares env h services = Inr homes" "path_shares services env h = Inr placed"
      "plan_shares env h (map (\<lambda>(s, d). (Some s, d)) (homes @ map ends_of placed)) [] shares = Inr plan"
    by (auto simp: share_plan_def rust_simps config_shares_Inr)
  from plan_shares_Inr [OF c(3)] c(1,2) show ?thesis
    by (intro exI [of _ homes] exI [of _ placed]) auto
qed

text \<open>The working directory a share asks for is always there to be set, so this never panics.\<close>

lemma apply_shares_total:
  assumes "args_ok a"
  shows "\<exists>r. apply_shares services shares env h a = Some r \<and>
    (\<forall>a'. r = Inr a' \<longrightarrow> args_ok a' \<and> net_shared a' = net_shared a)"
proof (cases "shares = []")
  case True
  with assms show ?thesis by (simp add: apply_shares_def)
next
  case False
  show ?thesis
  proof (cases "share_plan services shares env h")
    case (Inl e)
    with False show ?thesis by (simp add: apply_shares_def)
  next
    case (Inr plan)
    obtain cwd a1 where b: "bind_shares h 0 (zip shares plan) None a = (cwd, a1)" by force
    from bind_shares_keeps [OF this] assms have ok: "args_ok a1" "net_shared a1 = net_shared a"
      by (simp_all add: keeps_ok keeps_net)
    show ?thesis
    proof (cases cwd)
      case None
      with False Inr b ok show ?thesis by (simp add: apply_shares_def)
    next
      case (Some dir)
      from chdir_total [OF ok(1), of dir] False Inr b ok Some show ?thesis by (auto simp: apply_shares_def)
    qed
  qed
qed

section \<open>What the sweep finds\<close>

text \<open>Every component is a plain name and none of the paths down to the last is a link.\<close>

definition walk_clean :: "Host \<Rightarrow> path \<Rightarrow> Component list \<Rightarrow> bool" where
  "walk_clean h host_root cs \<longleftrightarrow>
     (\<exists>names. cs = map Normal names \<and>
        (\<forall>k < length names. h_read_link h (foldl path_join host_root (take (Suc k) names)) = Inr None))"

lemma walk_clean_Nil: "walk_clean h host_root []"
  by (simp add: walk_clean_def)

lemma walk_clean_Cons:
  "walk_clean h host_root (Normal n # cs) \<longleftrightarrow>
     h_read_link h (path_join host_root n) = Inr None \<and> walk_clean h (path_join host_root n) cs"
proof -
  have names: "(\<exists>names. Normal n # cs = map Normal names \<and> P names) \<longleftrightarrow> (\<exists>ns. cs = map Normal ns \<and> P (n # ns))" for P
    by (auto simp: Cons_eq_map_conv)
  have all: "(\<forall>k < Suc m. Q k) \<longleftrightarrow> Q 0 \<and> (\<forall>k < m. Q (Suc k))" for Q m
    by (auto simp: less_Suc_eq_0_disj)
  show ?thesis unfolding walk_clean_def names by (simp add: all del: take_Suc_Cons) (simp, blast)
qed

lemma walk_clean_other: "\<forall>n. c \<noteq> Normal n \<Longrightarrow> \<not> walk_clean h host_root (c # cs)"
  by (auto simp: walk_clean_def Cons_eq_map_conv)

lemma sweep_parts_Inr:
  "sweep_parts h dst host_root tree on_host inside cs = Inr u \<longleftrightarrow> walk_clean h on_host cs"
proof (induction cs arbitrary: on_host inside)
  case (Cons c cs)
  then show ?case
    by (cases c) (auto simp: Let_def walk_clean_Cons walk_clean_other split: sum.splits option.splits)
qed (simp add: walk_clean_Nil)

lemma for_each_Inr: "for_each f xs = Inr u \<longleftrightarrow> (\<forall>x \<in> set xs. f x = Inr ())"
  by (induction xs) (auto simp: rust_simps)

lemma sweep_tree_Inr:
  "sweep_tree h dst t = Inr u \<longleftrightarrow>
     (case t of (host_root, inside_root, tree) \<Rightarrow>
        \<forall>rel. strip_path dst inside_root = Some rel \<longrightarrow> walk_clean h host_root (components rel))"
  by (cases t) (auto simp: sweep_tree_def sweep_parts_Inr split: option.splits)

lemma sweep_iff:
  "sweep_destinations ops env h = Inr () \<longleftrightarrow>
     (\<forall>x \<in> set (before_command ops). \<forall>dst. destination x = Some dst \<longrightarrow>
        (\<forall>t \<in> set (writable_trees ops env). sweep_tree h dst t = Inr ()))"
  by (simp add: sweep_destinations_def for_each_Inr Let_def split: option.splits)

section \<open>Properties\<close>

text \<open>A host with one shared disk and a private home, for the witnesses.\<close>

definition example_env :: Env where
  "example_env = \<lparr>env_home = str ''/home/u'', env_data_home = str ''/home/u/.local/share'', env_config_home = str ''/home/u/.config'',
     env_config_dirs = [], env_data_dirs = [], env_runtime_dir = str ''/run/user/1000'', env_uid = 1000, env_gid = 1000,
     env_wayland_display = None, env_display = None, env_xauthority = None, env_passthrough = [], env_init_override = None,
     env_dbus_address = None, env_dbus_system_address = None, env_at_spi_bus_address = None, env_dbus_log = False,
     env_net_proxy_log = False, env_seccomp_log = False, env_test_allow_path = None, env_profile_dir_override = None,
     env_proxy_override = None, env_pasta_override = None, env_wl_proxy_override = None, env_net_proxy_override = None\<rparr>"

definition example_host :: Host where
  "example_host = \<lparr>h_file_type = (\<lambda>p. Some Directory), h_list_dir = (\<lambda>_. []), h_canonicalize = Some, h_is_mountpoint = (\<lambda>_. None),
     h_writable = (\<lambda>_. True), h_read_link = (\<lambda>p. if p = str ''/inst/Downloads'' then Inr (Some (str ''/oldroot'')) else Inr None),
     h_read = (\<lambda>_. None), h_current_exe = None\<rparr>"

definition example_services :: "Service list" where
  "example_services = [PathShare (str ''/data'') ReadWrite False, HomeShare (str ''Music'') ReadOnly False]"

text \<open>C6. What \<open>path-share\<close> nodes bind: the canonical directory or file behind the written path, at that path.
  Neither end is, holds or lies in the home, the runtime directory, the instance store, a profile layer,
  the private home or a fixed root of the system (removable media under \<^verbatim>\<open>/run\<close> and the subtree of the test
  hook apart), and no two of them contain one another at either end.\<close>

theorem path_shares_confined:
  assumes "path_shares services env h = Inr shares"
  shows "pairwise_apart (map ends_of shares) \<and>
    (\<forall>i dst src mode. (i, dst, src, mode) \<in> set shares \<longrightarrow>
       (\<exists>optional. services ! i = PathShare dst mode optional) \<and> h_canonicalize h dst = Some src \<and>
       (h_file_type h src = Some Directory \<or> h_file_type h src = Some RegularFile) \<and>
       clear_of_env h env src \<and> clear_of_env h env dst \<and> clear_of_fixed env src \<and> clear_of_fixed env dst \<and>
       \<not> nested dst SANDBOX_HOME \<and> \<not> path_eq src root_path \<and> \<not> path_eq dst root_path)"
  using path_shares_Inr [OF assms] denied_root_None
  by (fastforce simp: list_all_iff placed_ok_def)

theorem path_shares_confined_witness:
  "clear_of_env example_host example_env (str ''/data'') \<and> clear_of_fixed example_env (str ''/data'') \<and>
   \<not> nested (str ''/data'') SANDBOX_HOME"
proof -
  have "path_shares example_services example_env example_host = Inr [(0, str ''/data'', str ''/data'', ReadWrite)]"
    by code_simp
  from path_shares_confined [OF this] show ?thesis by simp
qed

text \<open>C23. What the \<open>--share\<close> flags of a run bind, once all are accepted: one pair of paths per flag, each either
  mapped into the private home from inside the real one or kept clear of every reserved root at both
  ends; no two of them, and none of them and a share of the configuration, contain one another.\<close>

theorem run_shares_apart:
  assumes "share_plan services shares env h = Inr plan"
  shows "\<exists>homes placed. home_shares env h services = Inr homes \<and> path_shares services env h = Inr placed \<and>
    pairwise_apart plan \<and> (\<forall>s c. s \<in> set plan \<and> c \<in> set homes \<union> set (map ends_of placed) \<longrightarrow> apart s c) \<and>
    list_all2 (\<lambda>s p. h_canonicalize h (sh_path s) = Some (fst p) \<and>
      (mapped_home env h (sh_path s) p \<or>
       snd p = collect_path (components (sh_path s)) \<and> clear_of_env h env (fst p) \<and> clear_of_env h env (sh_path s) \<and>
       clear_of_fixed env (fst p) \<and> clear_of_fixed env (sh_path s))) shares plan"
proof -
  obtain homes placed where p: "home_shares env h services = Inr homes" "path_shares services env h = Inr placed"
      "pairwise_apart plan" "\<forall>s \<in> set plan. \<forall>c \<in> set homes \<union> set (map ends_of placed). apart s c"
      "list_all2 (\<lambda>s p. share_ok env h (sh_path s) p) shares plan"
    using share_plan_Inr [OF assms] by blast
  have "list_all2 (\<lambda>s p. h_canonicalize h (sh_path s) = Some (fst p) \<and>
      (mapped_home env h (sh_path s) p \<or>
       snd p = collect_path (components (sh_path s)) \<and> clear_of_env h env (fst p) \<and> clear_of_env h env (sh_path s) \<and>
       clear_of_fixed env (fst p) \<and> clear_of_fixed env (sh_path s))) shares plan"
    using p(5) by (rule list_all2_mono) (auto simp: share_ok_def dest: denied_root_None)
  with p(1-4) show ?thesis by blast
qed

definition example_disk :: path where
  "example_disk = str ''/srv/x''"

lemma example_plan:
  "share_plan example_services [\<lparr>sh_path = example_disk, sh_mode = ReadWrite\<rparr>] example_env example_host =
     Inr [(example_disk, example_disk)]"
  by code_simp

lemma example_not_home: "strip_path example_disk (env_home example_env) = None"
  by code_simp

theorem run_shares_apart_witness: "clear_of_env example_host example_env example_disk \<and> clear_of_fixed example_env example_disk"
proof -
  have "\<not> mapped_home example_env example_host example_disk p" for p
    by (simp only: mapped_home_def example_not_home) simp
  with run_shares_apart [OF example_plan] show ?thesis by auto
qed

text \<open>C19. The sweep before a launch is exact: it passes precisely when, for every path the argv has bwrap
  create and every tree of that argv an application may write, each component of the path inside the tree
  is a plain name and no path on the way down, the last included, is a link on the host.\<close>

theorem sweep_exact:
  "sweep_destinations ops env h = Inr () \<longleftrightarrow>
     (\<forall>x dst host_root inside_root tree rel.
        x \<in> set (before_command ops) \<and> destination x = Some dst \<and>
        (host_root, inside_root, tree) \<in> set (writable_trees ops env) \<and> strip_path dst inside_root = Some rel \<longrightarrow>
        walk_clean h host_root (components rel))"
proof -
  have "(\<forall>t \<in> set (writable_trees ops env). sweep_tree h dst t = Inr ()) \<longleftrightarrow>
      (\<forall>host_root inside_root tree rel. (host_root, inside_root, tree) \<in> set (writable_trees ops env) \<and>
         strip_path dst inside_root = Some rel \<longrightarrow> walk_clean h host_root (components rel))" for dst
    by (auto simp: sweep_tree_Inr)
  then show ?thesis unfolding sweep_iff by blast
qed

definition example_ops :: "Explained list" where
  "example_ops = map (\<lambda>args. \<lparr>ex_origin = FromBaseline, ex_args = args, ex_note = None\<rparr>)
     [[str ''--bind'', str ''/inst'', SANDBOX_HOME],
      [str ''--ro-bind'', str ''/home/u/Downloads'', str ''/home/bubbler/Downloads'']]"

theorem sweep_exact_witness: "sweep_destinations example_ops example_env example_host \<noteq> Inr ()"
proof -
  have facts: "example_ops ! 1 \<in> set (before_command example_ops)"
    "destination (example_ops ! 1) = Some (str ''/home/bubbler/Downloads'')"
    "writable_trees example_ops example_env = [(str ''/inst'', SANDBOX_HOME, str ''the instance home'')]"
    "strip_path (str ''/home/bubbler/Downloads'') SANDBOX_HOME = Some (str ''Downloads'')"
    "components (str ''Downloads'') = [Normal (str ''Downloads'')]"
    by code_simp+
  have "h_read_link example_host (path_join (str ''/inst'') (str ''Downloads'')) \<noteq> Inr None" by code_simp
  then have "\<not> walk_clean example_host (str ''/inst'') (components (str ''Downloads''))"
    unfolding facts(5) walk_clean_Cons by blast
  with facts(1-4) show ?thesis unfolding sweep_exact by (metis list.set_intros(1))
qed

end
