(* ===== verification/Core_Bus.thy ===== *)
theory Core_Bus
  imports Core_Config Core_Bwrap Dbus_Session
begin

text \<open>
  The buses of an instance (\<^verbatim>\<open>dbus.rs\<close>): the rules each granted node asks the filtering proxy for,
  the plan of the proxy and its command line, the identity portals know the sandbox by, and where the
  host's own bus sockets are, with the guard that keeps an address out of bubbler's own runtime directory.
  The instance names of \<^verbatim>\<open>instance.rs\<close> and the runtime directory are here as well.  Shown: which portal
  interfaces a sandbox may call, that a rule is listed once, that an instance name gives a valid application id,
  and that a guarded address resolves outside the runtime directory with no parent component left in it.
\<close>

section \<open>Instance names\<close>

definition is_try_name :: "bytes \<Rightarrow> bool" where
  "is_try_name name \<longleftrightarrow>
     starts_with (str ''try-'') name \<and> (let pid = drop 4 name in pid \<noteq> [] \<and> list_all is_ascii_digit pid)"

definition plain_byte :: "byte \<Rightarrow> bool" where
  "plain_byte b \<longleftrightarrow> is_ascii_alphanumeric b \<or> b = of_char CHR ''.'' \<or> b = of_char CHR ''_'' \<or> b = of_char CHR ''-''"

definition is_plain_name :: "bytes \<Rightarrow> bool" where
  "is_plain_name name \<longleftrightarrow>
     name \<noteq> [] \<and> name \<noteq> str ''.'' \<and> name \<noteq> str ''..'' \<and> hd name \<noteq> of_char CHR ''-'' \<and> list_all plain_byte name"

definition validate_name :: "bytes \<Rightarrow> bool" where
  "validate_name name \<longleftrightarrow> is_plain_name name \<and> \<not> is_try_name name"

definition RUNTIME_SUBDIR :: bytes where
  "RUNTIME_SUBDIR = str ''bubbler''"

definition instance_runtime_dir :: "Env \<Rightarrow> bytes \<Rightarrow> path" where
  "instance_runtime_dir env name = path_join (path_join (env_runtime_dir env) RUNTIME_SUBDIR) name"

section \<open>Names and sockets\<close>

definition PROXY_BIN :: path where
  "PROXY_BIN = str ''xdg-dbus-proxy''"

definition SESSION_SOCKET :: bytes where
  "SESSION_SOCKET = str ''bus''"

definition SYSTEM_SOCKET :: bytes where
  "SYSTEM_SOCKET = str ''system''"

definition A11Y_SOCKET :: bytes where
  "A11Y_SOCKET = str ''a11y''"

definition SESSION_NODE :: bytes where
  "SESSION_NODE = str ''dbus''"

definition SYSTEM_NODE :: bytes where
  "SYSTEM_NODE = str ''system-bus''"

definition A11Y_NODE :: bytes where
  "A11Y_NODE = str ''a11y''"

definition SYSTEM_BUS_PATH :: path where
  "SYSTEM_BUS_PATH = str ''/run/dbus/system_bus_socket''"

definition FLATPAK_INFO :: path where
  "FLATPAK_INFO = str ''/.flatpak-info''"

definition FLATPAK_DIR :: bytes where
  "FLATPAK_DIR = str ''.flatpak''"

definition socket_dir :: "path \<Rightarrow> path" where
  "socket_dir instance_runtime = path_join instance_runtime (str ''dbus'')"

definition proxy_bus_path :: "path \<Rightarrow> bytes \<Rightarrow> path" where
  "proxy_bus_path instance_runtime socket = path_join (socket_dir instance_runtime) socket"

definition app_bus_path :: "path \<Rightarrow> bytes \<Rightarrow> path" where
  "app_bus_path instance_runtime socket = path_join instance_runtime socket"

definition EXEC_SOCKET :: bytes where
  "EXEC_SOCKET = str ''init.sock''"

definition SUN_PATH_MAX :: nat where
  "SUN_PATH_MAX = 108"

text \<open>\<open>check_socket_paths\<close>: the first path that does not fit.\<close>

definition check_socket_paths :: "Env \<Rightarrow> bytes \<Rightarrow> path + unit" where
  "check_socket_paths env name =
     (let runtime = instance_runtime_dir env name in
      case List.find (\<lambda>p. length p + 1 > SUN_PATH_MAX)
        [proxy_bus_path runtime SYSTEM_SOCKET, proxy_bus_path runtime SESSION_SOCKET, path_join runtime EXEC_SOCKET,
         app_bus_path runtime SYSTEM_SOCKET, app_bus_path runtime SESSION_SOCKET] of
        Some p \<Rightarrow> Inl p
      | None \<Rightarrow> Inr ())"

section \<open>Rules\<close>

definition DESKTOP_PATH :: bytes where
  "DESKTOP_PATH = str ''/org/freedesktop/portal/desktop''"

definition REQUEST_PATH :: bytes where
  "REQUEST_PATH = str ''/org/freedesktop/portal/desktop/request/*''"

definition SESSION_PATH :: bytes where
  "SESSION_PATH = str ''/org/freedesktop/portal/desktop/session/*''"

definition PORTAL_SAFE :: "bytes list" where
  "PORTAL_SAFE =
     [str ''FileChooser'', str ''OpenURI'', str ''Notification'', str ''Settings'', str ''Print'', str ''Email'',
      str ''Trash'', str ''Account'', str ''Inhibit'', str ''ProxyResolver'', str ''NetworkMonitor'',
      str ''MemoryMonitor'', str ''PowerProfileMonitor'', str ''Realtime'', str ''GameMode'']"

definition CALL_DESKTOP :: bytes where
  "CALL_DESKTOP = str ''--call=org.freedesktop.portal.Desktop=org.freedesktop.''"

definition BROADCAST_DESKTOP :: bytes where
  "BROADCAST_DESKTOP = str ''--broadcast=org.freedesktop.portal.Desktop=org.freedesktop.''"

definition portal_call_at :: "bytes \<Rightarrow> bytes \<Rightarrow> bytes" where
  "portal_call_at iface at = CALL_DESKTOP @ str ''portal.'' @ iface @ str ''.*@'' @ at"

definition portal_broadcast_at :: "bytes \<Rightarrow> bytes \<Rightarrow> bytes" where
  "portal_broadcast_at iface at = BROADCAST_DESKTOP @ str ''portal.'' @ iface @ str ''.*@'' @ at"

definition portal_call :: "bytes \<Rightarrow> bytes" where
  "portal_call iface = portal_call_at iface DESKTOP_PATH"

definition portal_broadcast :: "bytes \<Rightarrow> bytes" where
  "portal_broadcast iface = portal_broadcast_at iface DESKTOP_PATH"

definition opened_interfaces :: "Portal list \<Rightarrow> bytes list" where
  "opened_interfaces children = PORTAL_SAFE @ concat (map portal_interfaces children)"

definition portal_rules :: "Portal list \<Rightarrow> bytes list" where
  "portal_rules children =
     map portal_call (opened_interfaces children) @ [str ''--call=org.freedesktop.portal.Documents=*''] @
     map portal_broadcast (opened_interfaces children) @ [str ''--broadcast=org.freedesktop.portal.Documents=*''] @
     [portal_call_at (str ''Request'') REQUEST_PATH, portal_call_at (str ''Session'') SESSION_PATH,
      portal_broadcast_at (str ''Request'') REQUEST_PATH, portal_broadcast_at (str ''Session'') SESSION_PATH,
      CALL_DESKTOP @ str ''DBus.Properties.Get@'' @ DESKTOP_PATH,
      CALL_DESKTOP @ str ''DBus.Properties.GetAll@'' @ DESKTOP_PATH,
      CALL_DESKTOP @ str ''DBus.Introspectable.Introspect@'' @ DESKTOP_PATH]"

definition camera_rules :: "bytes list" where
  "camera_rules = [portal_call (str ''Camera''), portal_broadcast (str ''Camera'')]"

definition INPUT_METHOD_RULES :: "bytes list" where
  "INPUT_METHOD_RULES = [str ''--talk=org.freedesktop.portal.Fcitx'', str ''--talk=org.freedesktop.portal.IBus'']"

definition REGISTRY_CALL :: bytes where
  "REGISTRY_CALL = str ''--call=org.a11y.atspi.Registry=org.a11y.atspi.''"

definition A11Y_RULES :: "bytes list" where
  "A11Y_RULES =
     [REGISTRY_CALL @ str ''Socket.Embed@/org/a11y/atspi/accessible/root'',
      REGISTRY_CALL @ str ''Socket.Unembed@/org/a11y/atspi/accessible/root'',
      REGISTRY_CALL @ str ''Registry.GetRegisteredEvents@/org/a11y/atspi/registry'',
      REGISTRY_CALL @ str ''DeviceEventController.GetKeystrokeListeners@/org/a11y/atspi/registry/deviceeventcontroller'',
      REGISTRY_CALL @ str ''DeviceEventController.GetDeviceEventListeners@/org/a11y/atspi/registry/deviceeventcontroller'',
      REGISTRY_CALL @ str ''DeviceEventController.NotifyListenersSync@/org/a11y/atspi/registry/deviceeventcontroller'',
      REGISTRY_CALL @ str ''DeviceEventController.NotifyListenersAsync@/org/a11y/atspi/registry/deviceeventcontroller'',
      str ''--broadcast=org.a11y.atspi.Registry=org.a11y.atspi.Registry.EventListenerRegistered@/org/a11y/atspi/registry'',
      str ''--broadcast=org.a11y.atspi.Registry=org.a11y.atspi.Registry.EventListenerDeregistered@/org/a11y/atspi/registry'']"

section \<open>The plan\<close>

record Rule =
  ru_arg :: bytes
  ru_node :: nat

record Section =
  sn_node :: nat
  sn_rules :: "Rule list"

record Plan =
  bp_session :: "Section option"
  bp_system :: "Section option"
  bp_a11y :: "Section option"
  bp_flatpak_info :: bytes
  bp_portals :: bool
  bp_app_id :: bytes

definition buses :: "Plan \<Rightarrow> (bytes \<times> bytes) list" where
  "buses p =
     (if bp_session p \<noteq> None then [(SESSION_SOCKET, SESSION_NODE)] else []) @
     (if bp_system p \<noteq> None then [(SYSTEM_SOCKET, SYSTEM_NODE)] else []) @
     (if bp_a11y p \<noteq> None then [(A11Y_SOCKET, A11Y_NODE)] else [])"

fun render_rule :: "BusRule \<Rightarrow> bytes" where
  "render_rule (See n) = str ''--see='' @ n"
| "render_rule (Talk n) = str ''--talk='' @ n"
| "render_rule (Own n) = str ''--own='' @ n"
| "render_rule (Call n r) = str ''--call='' @ n @ str ''='' @ r"
| "render_rule (Broadcast n r) = str ''--broadcast='' @ n @ str ''='' @ r"

definition push_rule :: "nat \<Rightarrow> Rule list \<Rightarrow> bytes \<Rightarrow> Rule list" where
  "push_rule node rules arg =
     (if list_ex (\<lambda>r. ru_arg r = arg) rules then rules else rules @ [\<lparr>ru_arg = arg, ru_node = node\<rparr>])"

definition push_rules :: "nat \<Rightarrow> bytes list \<Rightarrow> Rule list \<Rightarrow> Rule list" where
  "push_rules node args rules = foldl (push_rule node) rules args"

definition explicit_rules :: "BusRule list \<Rightarrow> nat \<Rightarrow> Rule list" where
  "explicit_rules rules node = push_rules node (map render_rule rules) []"

fun bundle_rules :: "Service \<Rightarrow> bytes list" where
  "bundle_rules (Portals children) = portal_rules children"
| "bundle_rules Notify = [str ''--talk=org.freedesktop.Notifications'']"
| "bundle_rules Tray = [str ''--talk=org.kde.StatusNotifierWatcher'']"
| "bundle_rules InputMethod = INPUT_METHOD_RULES"
| "bundle_rules (Mpris name) = [str ''--own=org.mpris.MediaPlayer2.'' @ name]"
| "bundle_rules (Camera nodes) = camera_rules"
| "bundle_rules _ = []"

fun add_bundles :: "nat \<Rightarrow> Service list \<Rightarrow> Rule list \<Rightarrow> Rule list" where
  "add_bundles i [] rules = rules"
| "add_bundles i (s # services) rules = add_bundles (i + 1) services (push_rules i (bundle_rules s) rules)"

fun find_indexed :: "(Service \<Rightarrow> 'a option) \<Rightarrow> nat \<Rightarrow> Service list \<Rightarrow> (nat \<times> 'a) option" where
  "find_indexed f i [] = None"
| "find_indexed f i (s # services) = (case f s of Some x \<Rightarrow> Some (i, x) | None \<Rightarrow> find_indexed f (i + 1) services)"

fun as_dbus :: "Service \<Rightarrow> BusRule list option" where
  "as_dbus (Dbus rules) = Some rules"
| "as_dbus _ = None"

fun as_system_bus :: "Service \<Rightarrow> BusRule list option" where
  "as_system_bus (SystemBus rules) = Some rules"
| "as_system_bus _ = None"

fun is_portals :: "Service \<Rightarrow> bool" where
  "is_portals (Portals _) = True"
| "is_portals _ = False"

definition underscore :: byte where
  "underscore = of_char CHR ''_''"

definition app_id :: "bytes \<Rightarrow> bytes" where
  "app_id name =
     (let tail = map (\<lambda>b. if b = of_char CHR ''.'' then underscore else b) name;
          tail = (if tail \<noteq> [] \<and> is_ascii_digit (hd tail) then underscore # tail else tail)
      in str ''org.bubbler.'' @ tail)"

definition is_valid_app_id :: "bytes \<Rightarrow> bool" where
  "is_valid_app_id i =
     (if i = [] \<or> length i > 255 then False
      else
        let es = split_on (of_char CHR ''.'') i; final = length es - 1 in
        final \<ge> 1 \<and>
        list_all (\<lambda>(k, e). e \<noteq> [] \<and>
          list_all (\<lambda>b. is_ascii_alphanumeric b \<or> b = underscore \<or> (k = final \<and> b = of_char CHR ''-'')) e)
          (zip [0..<length es] es))"

definition flatpak_instance_id :: "bytes \<Rightarrow> bytes" where
  "flatpak_instance_id name = str ''bubbler-'' @ name"

definition flatpak_info :: "bytes \<Rightarrow> bool \<Rightarrow> bytes" where
  "flatpak_info name portals =
     str ''[Application]'' @ [10] @ str ''name='' @ app_id name @ [10] @
     (if portals
      then [10] @ str ''[Instance]'' @ [10] @ str ''instance-id='' @ flatpak_instance_id name @ [10]
      else [])"

definition flatpak_instance_dir :: "Env \<Rightarrow> bytes \<Rightarrow> path" where
  "flatpak_instance_dir env name =
     path_join (path_join (env_runtime_dir env) FLATPAK_DIR) (flatpak_instance_id name)"

definition bus_plan :: "Service list \<Rightarrow> bytes \<Rightarrow> Plan option" where
  "bus_plan services name =
     (let session = find_indexed as_dbus 0 services; system = find_indexed as_system_bus 0 services in
      if session = None \<and> system = None then None
      else
        let portals = list_ex is_portals services in
        Some \<lparr>bp_session =
                map_option (\<lambda>(node, explicit).
                  \<lparr>sn_node = node, sn_rules = add_bundles 0 services (explicit_rules explicit node)\<rparr>) session,
              bp_system =
                map_option (\<lambda>(node, explicit). \<lparr>sn_node = node, sn_rules = explicit_rules explicit node\<rparr>) system,
              bp_a11y =
                map_option (\<lambda>node. \<lparr>sn_node = node, sn_rules = push_rules node A11Y_RULES []\<rparr>)
                  (position (\<lambda>s. s = A11y) services),
              bp_flatpak_info = flatpak_info name portals,
              bp_portals = portals,
              bp_app_id = app_id name\<rparr>)"

section \<open>Where the host's buses are\<close>

definition unix_path :: "bytes \<Rightarrow> path option" where
  "unix_path address =
     (if \<not> starts_with (str ''unix:path='') address then None
      else
        let rest = drop 10 address;
            p = (case position (\<lambda>b. b = of_char CHR '','') rest of Some i \<Rightarrow> take i rest | None \<Rightarrow> rest)
        in if p = [] then None else Some p)"

definition address_path :: "bytes option \<Rightarrow> bytes \<Rightarrow> bytes \<Rightarrow> LaunchError + path option" where
  "address_path address var service =
     (case address of
        None \<Rightarrow> Inr None
      | Some a \<Rightarrow>
          if a = [] then Inr None
          else case unix_path a of
                 Some p \<Rightarrow> Inr (Some p)
               | None \<Rightarrow>
                   Inl (BadValue service (str ''$'' @ var @
                     str '' names no Unix socket path; bubbler can proxy only a `unix:path=<path>` address'')))"

definition host_bus :: "Env \<Rightarrow> LaunchError + path" where
  "host_bus env =
     res_bind (address_path (env_dbus_address env) (str ''DBUS_SESSION_BUS_ADDRESS'') (str ''dbus'')) (\<lambda>p.
       Inr (case p of Some p \<Rightarrow> p | None \<Rightarrow> path_join (env_runtime_dir env) (str ''bus'')))"

definition host_system_bus :: "Env \<Rightarrow> LaunchError + path" where
  "host_system_bus env =
     res_bind (address_path (env_dbus_system_address env) (str ''DBUS_SYSTEM_BUS_ADDRESS'') (str ''system-bus'')) (\<lambda>p.
       Inr (case p of Some p \<Rightarrow> p | None \<Rightarrow> SYSTEM_BUS_PATH))"

text \<open>\<open>lexical\<close>: the components with the dots folded, put together again.\<close>

fun fold_dots :: "Component list \<Rightarrow> Component list \<Rightarrow> Component list" where
  "fold_dots out [] = out"
| "fold_dots out (c # cs) =
     (case c of
        CurDir \<Rightarrow> fold_dots out cs
      | ParentDir \<Rightarrow> fold_dots (if out = [] \<or> last out = RootDir then out else butlast out) cs
      | _ \<Rightarrow> fold_dots (out @ [c]) cs)"

definition lexical :: "path \<Rightarrow> path" where
  "lexical p = collect_path (fold_dots [] (components p))"

definition resolve_path :: "Host \<Rightarrow> path \<Rightarrow> path" where
  "resolve_path h p =
     (case h_canonicalize h p of
        Some real \<Rightarrow> lexical real
      | None \<Rightarrow>
          (case (parent_dir p, file_name p) of
             (Some dir, Some name) \<Rightarrow>
               (case h_canonicalize h dir of
                  Some real \<Rightarrow> path_join (lexical real) name
                | None \<Rightarrow> lexical p)
           | _ \<Rightarrow> lexical p))"

definition outside_our_runtime :: "Host \<Rightarrow> Env \<Rightarrow> bytes \<Rightarrow> path \<Rightarrow> LaunchError + path" where
  "outside_our_runtime h env node p =
     (let ours = resolve_path h (path_join (env_runtime_dir env) RUNTIME_SUBDIR); p = resolve_path h p in
      if path_starts_with p ours
      then Inl (BadValue node (str ''the host bus address names a socket under bubbler''  @ [0x27] @ str ''s own runtime directory''))
      else Inr p)"

definition guarded_host_bus :: "Host \<Rightarrow> Env \<Rightarrow> LaunchError + path" where
  "guarded_host_bus h env = res_bind (host_bus env) (outside_our_runtime h env SESSION_NODE)"

definition guarded_host_system_bus :: "Host \<Rightarrow> Env \<Rightarrow> LaunchError + path" where
  "guarded_host_system_bus h env = res_bind (host_system_bus env) (outside_our_runtime h env SYSTEM_NODE)"

text \<open>Why the accessibility bus was not found; the source renders each as one message.\<close>

datatype A11yError = A11yLaunch LaunchError | A11yWire WireError | A11yNoAddress | A11yNotUnix

definition a11y_address :: "Value list \<Rightarrow> A11yError + path" where
  "a11y_address reply =
     (case one_name reply of
        None \<Rightarrow> Inl A11yNoAddress
      | Some address \<Rightarrow> ok_or A11yNotUnix (unix_path address))"

definition wire_a11y :: "WireError + 'a \<Rightarrow> A11yError + 'a" where
  "wire_a11y r = (case r of Inl e \<Rightarrow> Inl (A11yWire e) | Inr a \<Rightarrow> Inr a)"

text \<open>\<open>None\<close> when the script of the socket's answers ends first; \<open>failed\<close> is what opening the socket gave.\<close>

definition ask_a11y_bus :: "Env \<Rightarrow> WireError option \<Rightarrow> instant \<Rightarrow> instant \<Rightarrow> Io list \<Rightarrow> (A11yError + path) option" where
  "ask_a11y_bus env failed opened asked io =
     (case host_bus env of
        Inl e \<Rightarrow> Some (Inl (A11yLaunch e))
      | Inr _ \<Rightarrow>
          (case run_bind (connect failed (env_uid env) opened io) (\<lambda>_.
              session_call (str ''org.a11y.Bus'') (str ''/org/a11y/bus'') (str ''org.a11y.Bus'') (str ''GetAddress'') [] [] 0 asked) of
             None \<Rightarrow> None
           | Some (r, _, _) \<Rightarrow> Some (res_bind (wire_a11y r) a11y_address)))"

definition host_a11y_bus :: "Env \<Rightarrow> WireError option \<Rightarrow> instant \<Rightarrow> instant \<Rightarrow> Io list \<Rightarrow> (A11yError + path) option" where
  "host_a11y_bus env failed opened asked io =
     (case address_path (env_at_spi_bus_address env) (str ''AT_SPI_BUS_ADDRESS'') A11Y_NODE of
        Inl e \<Rightarrow> Some (Inl (A11yLaunch e))
      | Inr (Some p) \<Rightarrow> Some (Inr p)
      | Inr None \<Rightarrow> ask_a11y_bus env failed opened asked io)"

definition guarded_host_a11y_bus ::
    "Host \<Rightarrow> Env \<Rightarrow> WireError option \<Rightarrow> instant \<Rightarrow> instant \<Rightarrow> Io list \<Rightarrow> (A11yError + path) option" where
  "guarded_host_a11y_bus h env failed opened asked io =
     map_option (\<lambda>r. res_bind r (\<lambda>p.
       case outside_our_runtime h env A11Y_NODE p of Inl e \<Rightarrow> Inl (A11yLaunch e) | Inr p \<Rightarrow> Inr p))
       (host_a11y_bus env failed opened asked io)"

section \<open>The proxy's command\<close>

definition proxy_program :: "Env \<Rightarrow> path" where
  "proxy_program env = (case env_proxy_override env of Some p \<Rightarrow> p | None \<Rightarrow> PROXY_BIN)"

record HostBuses =
  hb_session :: "path option"
  hb_system :: "path option"
  hb_a11y :: "path option"

definition bus_args :: "path \<Rightarrow> bool \<Rightarrow> Section option \<times> path option \<times> bytes \<Rightarrow> (bytes \<times> nat option) list" where
  "bus_args instance_runtime log b =
     (case b of
        (Some section, Some host, socket) \<Rightarrow>
          let node = Some (sn_node section) in
          [(str ''unix:path='' @ host, node), (proxy_bus_path instance_runtime socket, node), (str ''--filter'', node)] @
          (if log then [(str ''--log'', node)] else []) @
          map (\<lambda>r. (ru_arg r, Some (ru_node r))) (sn_rules section)
      | _ \<Rightarrow> [])"

definition proxy_command_nodes :: "path \<Rightarrow> Plan \<Rightarrow> HostBuses \<Rightarrow> path \<Rightarrow> bool \<Rightarrow> bytes \<Rightarrow> (bytes \<times> nat option) list" where
  "proxy_command_nodes program p hb instance_runtime log ready_fd =
     [(program, None), (str ''--fd='' @ ready_fd, None)] @
     concat (map (bus_args instance_runtime log)
       [(bp_session p, hb_session hb, SESSION_SOCKET), (bp_system p, hb_system hb, SYSTEM_SOCKET),
        (bp_a11y p, hb_a11y hb, A11Y_SOCKET)])"

definition proxy_command :: "path \<Rightarrow> Plan \<Rightarrow> HostBuses \<Rightarrow> path \<Rightarrow> bool \<Rightarrow> bytes \<Rightarrow> bytes list" where
  "proxy_command program p hb instance_runtime log ready_fd =
     map fst (proxy_command_nodes program p hb instance_runtime log ready_fd)"

section \<open>What a rule list holds\<close>

abbreviation rule_args :: "Rule list \<Rightarrow> bytes list" where
  "rule_args rules \<equiv> map ru_arg rules"

lemma push_rule_args:
  "rule_args (push_rule node rules arg) = (if arg \<in> set (rule_args rules) then rule_args rules else rule_args rules @ [arg])"
  by (auto simp: push_rule_def list_ex_iff)

lemma push_rules_args:
  "distinct (rule_args rules) \<Longrightarrow>
     distinct (rule_args (push_rules node args rules)) \<and>
     set (rule_args (push_rules node args rules)) = set (rule_args rules) \<union> set args"
proof (induction args arbitrary: rules)
  case (Cons arg args)
  have "distinct (rule_args (push_rule node rules arg))" "set (rule_args (push_rule node rules arg)) = insert arg (set (rule_args rules))"
    using Cons.prems by (auto simp: push_rule_args simp del: set_map)
  with Cons.IH [of "push_rule node rules arg"] show ?case by (auto simp: push_rules_def simp del: set_map)
qed (simp add: push_rules_def)

lemma add_bundles_args:
  "distinct (rule_args rules) \<Longrightarrow>
     distinct (rule_args (add_bundles i services rules)) \<and>
     set (rule_args (add_bundles i services rules)) = set (rule_args rules) \<union> (\<Union>s \<in> set services. set (bundle_rules s))"
proof (induction services arbitrary: i rules)
  case (Cons s services)
  note p = push_rules_args [OF Cons.prems, of i "bundle_rules s"]
  with Cons.IH [of "push_rules i (bundle_rules s) rules" "i + 1"] show ?case by (auto simp del: set_map)
qed simp

lemma explicit_args:
  "distinct (rule_args (explicit_rules rules node)) \<and> set (rule_args (explicit_rules rules node)) = render_rule ` set rules"
  using push_rules_args [of "[]" node "map render_rule rules"] by (simp add: explicit_rules_def)

lemma find_indexed_Some: "find_indexed f i services = Some (n, x) \<Longrightarrow> \<exists>s \<in> set services. f s = Some x"
  by (induction f i services rule: find_indexed.induct) (auto split: option.splits)

lemma as_dbus_Some: "as_dbus s = Some rules \<longleftrightarrow> s = Dbus rules"
  by (cases s) auto

text \<open>The arguments of the session bus: the rules its own node writes and those of the granted bundles.\<close>

lemma session_args:
  assumes "bus_plan services name = Some p" and "bp_session p = Some section"
    and "find_indexed as_dbus 0 services = Some (node, rules)"
  shows "distinct (rule_args (sn_rules section)) \<and>
    set (rule_args (sn_rules section)) = render_rule ` set rules \<union> (\<Union>s \<in> set services. set (bundle_rules s))"
proof -
  from assms have "sn_rules section = add_bundles 0 services (explicit_rules rules node)"
    by (auto simp: bus_plan_def Let_def split: if_splits)
  with add_bundles_args [of "explicit_rules rules node" 0 services] explicit_args [of rules node] show ?thesis
    by (auto simp del: set_map)
qed

section \<open>Which portal interfaces are called\<close>

text \<open>What the proxy's arguments allow, as \<^verbatim>\<open>xdg-dbus-proxy(1)\<close> documents it and the rules here are written for.  A name
  or an object path ending in a wildcard covers itself and everything below it; a rule is a method and a path,
  either of which may be missing, and a method is an interface and a member or \<^verbatim>\<open>*\<close>.  A name that may be talked to or
  owned takes every call, whatever rules it has.\<close>

abbreviation equals_sign :: byte where
  "equals_sign \<equiv> 0x3d"

abbreviation at_sign :: byte where
  "at_sign \<equiv> 0x40"

definition glob_covers :: "byte \<Rightarrow> bytes \<Rightarrow> bytes \<Rightarrow> bool" where
  "glob_covers sep pat x \<longleftrightarrow>
     (if 2 \<le> length pat \<and> drop (length pat - 2) pat = [sep, star]
      then let base = take (length pat - 2) pat in x = base \<or> starts_with (base @ [sep]) x
      else x = pat)"

definition method_covers :: "bytes \<Rightarrow> bytes \<Rightarrow> bytes \<Rightarrow> bool" where
  "method_covers meth iface member \<longleftrightarrow>
     (if meth = [] \<or> hd meth = star then True
      else case rsplit_once dot meth of
             None \<Rightarrow> iface = meth
           | Some (i, m) \<Rightarrow> iface = i \<and> (m = [star] \<or> m = member))"

definition rule_covers :: "bytes \<Rightarrow> path \<Rightarrow> bytes \<Rightarrow> bytes \<Rightarrow> bool" where
  "rule_covers rule path iface member \<longleftrightarrow>
     method_covers (takeWhile (\<lambda>b. b \<noteq> at_sign) rule) iface member \<and>
     (case dropWhile (\<lambda>b. b \<noteq> at_sign) rule of [] \<Rightarrow> True | _ # p \<Rightarrow> glob_covers slash p path)"

definition opens_call :: "bytes \<Rightarrow> path \<Rightarrow> bytes \<Rightarrow> bytes \<Rightarrow> bytes \<Rightarrow> bool" where
  "opens_call dest path iface member arg \<longleftrightarrow>
     (if starts_with (str ''--talk='') arg then glob_covers dot (drop 7 arg) dest
      else if starts_with (str ''--own='') arg then glob_covers dot (drop 6 arg) dest
      else if starts_with (str ''--call='') arg then
        let r = drop 7 arg in
        glob_covers dot (takeWhile (\<lambda>b. b \<noteq> equals_sign) r) dest \<and>
        rule_covers (tl (dropWhile (\<lambda>b. b \<noteq> equals_sign) r)) path iface member
      else False)"

definition DESKTOP_NAME :: bytes where
  "DESKTOP_NAME = str ''org.freedesktop.portal.Desktop''"

definition portal_interface :: "bytes \<Rightarrow> bytes" where
  "portal_interface iface = str ''org.freedesktop.portal.'' @ iface"

lemma opens_call_at:
  assumes "equals_sign \<notin> set n" and "at_sign \<notin> set i" and "i \<noteq> []" and "hd i \<noteq> star" and "at_sign \<notin> set m" and "dot \<notin> set m"
  shows "opens_call dest path iface member (str ''--call='' @ n @ [equals_sign] @ i @ [dot] @ m @ [at_sign] @ p) \<longleftrightarrow>
    glob_covers dot n dest \<and> iface = i \<and> (m = [star] \<or> m = member) \<and> glob_covers slash p path"
proof -
  let ?r = "(i @ dot # m) @ at_sign # p"
  have at: "at_sign \<notin> set (i @ dot # m)" using assms(2,5) by simp
  have "takeWhile (\<lambda>b. b \<noteq> at_sign) ?r = i @ dot # m" "dropWhile (\<lambda>b. b \<noteq> at_sign) ?r = at_sign # p"
    using at by (subst takeWhile_append2 dropWhile_append2; fastforce)+
  moreover have "takeWhile (\<lambda>b. b \<noteq> equals_sign) (n @ equals_sign # ?r) = n" "dropWhile (\<lambda>b. b \<noteq> equals_sign) (n @ equals_sign # ?r) = equals_sign # ?r"
    using assms(1) by (subst takeWhile_append2 dropWhile_append2; fastforce)+
  ultimately show ?thesis
    using assms(3,4) rsplit_once_append [OF assms(6), of i]
    by (cases i) (simp_all add: opens_call_def starts_with_def rule_covers_def method_covers_def)
qed

lemma desktop_split: "CALL_DESKTOP = str ''--call='' @ DESKTOP_NAME @ [equals_sign] @ str ''org.freedesktop.''"
  by (simp add: CALL_DESKTOP_def DESKTOP_NAME_def)

text \<open>A rule of the bundles on the desktop object's name, and what it opens there.\<close>

lemma opens_desktop:
  assumes "at_sign \<notin> set i" and "at_sign \<notin> set m" and "dot \<notin> set m"
  shows "opens_call DESKTOP_NAME path iface member (CALL_DESKTOP @ i @ [dot] @ m @ [at_sign] @ p) \<longleftrightarrow>
    iface = str ''org.freedesktop.'' @ i \<and> (m = [star] \<or> m = member) \<and> glob_covers slash p path"
proof -
  have name: "equals_sign \<notin> set DESKTOP_NAME" "glob_covers dot DESKTOP_NAME DESKTOP_NAME"
    by (simp_all add: DESKTOP_NAME_def glob_covers_def)
  have "at_sign \<notin> set (str ''org.freedesktop.'' @ i)" using assms(1) by simp
  from opens_call_at [OF name(1) this _ _ assms(2,3), of DESKTOP_NAME path iface member p] name(2) show ?thesis
    by (simp add: desktop_split)
qed

lemma opens_portal_call:
  assumes "at_sign \<notin> set i"
  shows "opens_call DESKTOP_NAME path (portal_interface iface) member (portal_call_at i at) \<longleftrightarrow> iface = i \<and> glob_covers slash at path"
  using opens_desktop [of "str ''portal.'' @ i" "[star]" path "portal_interface iface" member at] assms
  by (auto simp: portal_call_at_def portal_interface_def)

lemma desktop_paths: "glob_covers slash DESKTOP_PATH DESKTOP_PATH" "\<not> glob_covers slash REQUEST_PATH DESKTOP_PATH"
    "\<not> glob_covers slash SESSION_PATH DESKTOP_PATH"
  by (simp_all add: glob_covers_def DESKTOP_PATH_def REQUEST_PATH_def SESSION_PATH_def starts_with_def)

lemma broadcast_opens_none: "\<not> opens_call dest path iface member (str ''--broadcast='' @ r)"
  by (simp add: opens_call_def starts_with_def)

lemma opened_plain: "i \<in> set (opened_interfaces children) \<Longrightarrow> at_sign \<notin> set i"
proof -
  assume "i \<in> set (opened_interfaces children)"
  then consider "i \<in> set PORTAL_SAFE" | c where "i \<in> set (portal_interfaces c)" by (auto simp: opened_interfaces_def)
  then show ?thesis
  proof cases
    case 1
    then show ?thesis by (auto simp: PORTAL_SAFE_def)
  next
    case (2 c)
    then show ?thesis by (cases c) auto
  qed
qed

lemma documents_opens_none: "\<not> opens_call DESKTOP_NAME path iface member (str ''--call=org.freedesktop.portal.Documents=*'')"
  by (simp add: opens_call_def starts_with_def glob_covers_def DESKTOP_NAME_def)

lemma introspection_opens_none:
  "\<not> opens_call DESKTOP_NAME path (portal_interface iface) member (CALL_DESKTOP @ str ''DBus.Properties.Get@'' @ at)"
  "\<not> opens_call DESKTOP_NAME path (portal_interface iface) member (CALL_DESKTOP @ str ''DBus.Properties.GetAll@'' @ at)"
  "\<not> opens_call DESKTOP_NAME path (portal_interface iface) member (CALL_DESKTOP @ str ''DBus.Introspectable.Introspect@'' @ at)"
  using opens_desktop [of "str ''DBus.Properties''" "str ''Get''" path "portal_interface iface" member at]
    opens_desktop [of "str ''DBus.Properties''" "str ''GetAll''" path "portal_interface iface" member at]
    opens_desktop [of "str ''DBus.Introspectable''" "str ''Introspect''" path "portal_interface iface" member at]
  by (simp_all add: portal_interface_def)

lemma portal_rules_open:
  "(\<exists>arg \<in> set (portal_rules children). opens_call DESKTOP_NAME DESKTOP_PATH (portal_interface iface) member arg) \<longleftrightarrow>
     iface \<in> set (opened_interfaces children)"
proof -
  let ?opens = "opens_call DESKTOP_NAME DESKTOP_PATH (portal_interface iface) member"
  have calls: "(\<exists>arg \<in> portal_call ` set (opened_interfaces children). ?opens arg) \<longleftrightarrow> iface \<in> set (opened_interfaces children)"
    using opens_portal_call [OF opened_plain] desktop_paths(1) by (auto simp: portal_call_def)
  have none: "\<not> ?opens (portal_broadcast_at i at)" "\<not> ?opens (portal_broadcast i)"
      "\<not> ?opens (str ''--broadcast=org.freedesktop.portal.Documents=*'')" for i at
    using broadcast_opens_none [of DESKTOP_NAME DESKTOP_PATH "portal_interface iface" member]
    by (simp_all add: portal_broadcast_def portal_broadcast_at_def BROADCAST_DESKTOP_def)
  have objects: "\<not> ?opens (portal_call_at (str ''Request'') REQUEST_PATH)" "\<not> ?opens (portal_call_at (str ''Session'') SESSION_PATH)"
    using desktop_paths by (subst opens_portal_call; simp)+
  show ?thesis
    unfolding portal_rules_def set_append set_map Un_iff bex_Un
    using calls none objects documents_opens_none introspection_opens_none by (auto simp del: str_Cons)
qed

lemma other_name_opens_none:
  assumes "\<not> glob_covers dot n DESKTOP_NAME"
  shows "\<not> opens_call DESKTOP_NAME path iface member (str ''--talk='' @ n)" "\<not> opens_call DESKTOP_NAME path iface member (str ''--own='' @ n)"
  using assms by (auto simp: opens_call_def starts_with_def)

lemma mpris_elsewhere: "\<not> glob_covers dot (str ''org.mpris.MediaPlayer2.'' @ player) DESKTOP_NAME"
proof
  let ?n = "str ''org.mpris.MediaPlayer2.'' @ player"
  let ?base = "take (length ?n - 2) ?n"
  have long: "take 5 ?base = str ''org.m''" "take 5 ?n = str ''org.m''" "5 \<le> length ?base" by simp_all
  assume "glob_covers dot ?n DESKTOP_NAME"
  then consider "DESKTOP_NAME = ?n" | "DESKTOP_NAME = ?base" | "starts_with (?base @ [dot]) DESKTOP_NAME"
    unfolding glob_covers_def Let_def by (auto split: if_splits simp del: str_Cons append_Cons)
  then have "take 5 DESKTOP_NAME = str ''org.m''"
  proof cases
    case 3
    then obtain r where "DESKTOP_NAME = ?base @ [dot] @ r" unfolding starts_with_iff by auto
    then have "take 5 DESKTOP_NAME = take 5 (?base @ [dot] @ r)" by (rule arg_cong)
    also have "\<dots> = take 5 ?base" using long(3) by (simp only: take_append) simp
    finally show ?thesis using long(1) by simp
  qed (use long in \<open>simp_all only:\<close>)
  then show False by (simp add: DESKTOP_NAME_def)
qed

lemma bundle_opens:
  "(\<exists>arg \<in> set (bundle_rules s). opens_call DESKTOP_NAME DESKTOP_PATH (portal_interface iface) member arg) \<longleftrightarrow>
     (\<exists>children. s = Portals children \<and> iface \<in> set (opened_interfaces children)) \<or>
     (\<exists>nodes. s = Camera nodes \<and> iface = str ''Camera'')"
proof (cases s)
  case (Portals children)
  with portal_rules_open [of children iface member] show ?thesis by (simp del: str_Cons)
next
  case (Camera nodes)
  have "at_sign \<notin> set (str ''Camera'')" by simp
  from opens_portal_call [OF this] desktop_paths(1)
    broadcast_opens_none [of DESKTOP_NAME DESKTOP_PATH "portal_interface iface" member] Camera
  show ?thesis
    by (simp add: camera_rules_def portal_call_def portal_broadcast_def portal_broadcast_at_def BROADCAST_DESKTOP_def)
next
  case (Mpris player)
  with other_name_opens_none(2) [OF mpris_elsewhere [of player]] show ?thesis by simp
qed (simp_all add: INPUT_METHOD_RULES_def opens_call_def starts_with_def glob_covers_def DESKTOP_NAME_def)

definition bundle_talks :: "bytes list" where
  "bundle_talks =
     [str ''--talk=org.freedesktop.Notifications'', str ''--talk=org.kde.StatusNotifierWatcher'',
      str ''--talk=org.freedesktop.portal.Fcitx'', str ''--talk=org.freedesktop.portal.IBus'']"

definition whole_name :: "bytes \<Rightarrow> bool" where
  "whole_name arg \<longleftrightarrow> starts_with (str ''--talk='') arg \<or> starts_with (str ''--own='') arg"

lemma portal_rules_narrow: "arg \<in> set (portal_rules children) \<Longrightarrow> \<not> whole_name arg"
proof -
  have "\<not> whole_name (portal_call_at iface at)" "\<not> whole_name (portal_broadcast_at iface at)" for iface at
    by (simp_all add: whole_name_def starts_with_def portal_call_at_def portal_broadcast_at_def CALL_DESKTOP_def BROADCAST_DESKTOP_def)
  moreover have "\<not> whole_name (CALL_DESKTOP @ r)" for r
    by (simp add: whole_name_def starts_with_def CALL_DESKTOP_def)
  moreover have "\<not> whole_name (str ''--call=org.freedesktop.portal.Documents=*'')"
    "\<not> whole_name (str ''--broadcast=org.freedesktop.portal.Documents=*'')"
    by (simp_all add: whole_name_def starts_with_def)
  moreover assume "arg \<in> set (portal_rules children)"
  ultimately show ?thesis
    unfolding portal_rules_def portal_call_def portal_broadcast_def by (auto simp del: str_Cons)
qed

lemma bundle_whole_names:
  assumes "arg \<in> set (bundle_rules s)" and "whole_name arg"
  shows "arg \<in> set bundle_talks \<or> starts_with (str ''--own=org.mpris.MediaPlayer2.'') arg"
proof (cases "\<exists>children. s = Portals children")
  case True
  with assms portal_rules_narrow show ?thesis by auto
next
  case False
  have "\<not> whole_name (portal_call i)" "\<not> whole_name (portal_broadcast i)" for i
    by (simp_all add: whole_name_def starts_with_def portal_call_def portal_broadcast_def portal_call_at_def
        portal_broadcast_at_def CALL_DESKTOP_def BROADCAST_DESKTOP_def)
  with assms False show ?thesis
    by (cases s) (auto simp: bundle_talks_def INPUT_METHOD_RULES_def camera_rules_def starts_with_def)
qed

section \<open>Paths put together from components\<close>

definition plain_component :: "bytes \<Rightarrow> bool" where
  "plain_component n \<longleftrightarrow> slash \<notin> set n \<and> \<not> empty_piece n \<and> n \<noteq> str ''..''"

definition canonical :: "Component list \<Rightarrow> bool" where
  "canonical cs \<longleftrightarrow> (\<forall>c \<in> set (tl cs). \<exists>n. c = Normal n) \<and>
     (\<forall>c \<in> set cs. c = RootDir \<or> (\<exists>n. c = Normal n \<and> plain_component n))"

lemma body_names: "Normal n \<in> set (body_components (split_on slash p)) \<Longrightarrow> plain_component n"
  by (auto simp: body_components_def piece_def plain_component_def split: if_splits dest: split_on_pieces)

lemma components_names: "Normal n \<in> set (components p) \<Longrightarrow> plain_component n"
proof -
  have "set (body_components (tl (split_on slash p))) \<subseteq> set (body_components (split_on slash p))"
    by (cases "split_on slash p") (auto simp: body_components_def)
  moreover assume "Normal n \<in> set (components p)"
  ultimately show ?thesis using body_names [of n p] by (auto simp: components_def split: if_splits)
qed

lemma body_no_root: "RootDir \<notin> set (body_components ss)"
  by (auto simp: body_components_def piece_def split: if_splits)

lemma root_first: "RootDir \<notin> set (tl (components p))"
proof -
  have "RootDir \<notin> set (tl (body_components ss))" for ss
    using body_no_root [of ss] by (cases "body_components ss") auto
  then show ?thesis using body_no_root by (auto simp: components_def)
qed

lemma canonical_snoc: "canonical (cs @ [Normal n]) \<longleftrightarrow> canonical cs \<and> plain_component n"
  by (cases cs) (auto simp: canonical_def)

lemma canonical_butlast: "canonical cs \<Longrightarrow> canonical (butlast cs)"
  by (cases cs rule: rev_cases; cases "butlast cs") (auto simp: canonical_def)

lemma components_name: "plain_component n \<Longrightarrow> components n = [Normal n]"
proof -
  assume n: "plain_component n"
  then have "n \<noteq> []" "\<not> is_absolute n" by (auto simp: plain_component_def empty_piece_def is_absolute_def dest: hd_in_set)
  with n show ?thesis
    by (simp add: components_def plain_component_def split_on_no_sep body_components_def piece_def empty_piece_def)
qed

lemma collect_snoc: "collect_path (cs @ [c]) = path_join (collect_path cs) (component_text c)"
  by (simp add: collect_path_def)

lemma components_collect: "canonical cs \<Longrightarrow> components (collect_path cs) = cs \<and> (cs \<noteq> [] \<longrightarrow> collect_path cs \<noteq> [])"
proof (induction cs rule: rev_induct)
  case Nil
  then show ?case by (simp add: collect_path_def components_def is_absolute_def)
next
  case (snoc c cs)
  show ?case
  proof (cases c)
    case (Normal n)
    with snoc.prems have can: "canonical cs" and n: "plain_component n" by (simp_all add: canonical_snoc)
    have abs: "\<not> is_absolute n" "n \<noteq> []" using n by (auto simp: plain_component_def empty_piece_def is_absolute_def dest: hd_in_set)
    show ?thesis
    proof (cases "cs = []")
      case True
      with Normal n abs components_name [OF n] show ?thesis
        unfolding collect_snoc by (simp add: collect_path_def path_join_def)
    next
      case False
      with snoc.IH [OF can] have IH: "components (collect_path cs) = cs" "collect_path cs \<noteq> []" by simp_all
      with abs(1) have "components (path_join (collect_path cs) n) = cs @ added n" by (simp add: components_join)
      moreover have "added n = [Normal n]" using n by (simp add: added_name plain_component_def piece_def)
      moreover have "path_join (collect_path cs) n \<noteq> []" using IH(2) abs(1) by (simp add: path_join_def)
      ultimately show ?thesis using Normal unfolding collect_snoc by simp
    qed
  next
    case RootDir
    with snoc.prems have "cs = []" by (cases cs) (auto simp: canonical_def)
    with RootDir show ?thesis
      by (simp add: collect_path_def path_join_def components_def is_absolute_def body_components_def empty_piece_def)
  qed (use snoc.prems in \<open>auto simp: canonical_def\<close>)
qed

lemma fold_dots_canonical:
  "canonical out \<Longrightarrow> (\<And>n. Normal n \<in> set cs \<Longrightarrow> plain_component n) \<Longrightarrow> (RootDir \<in> set cs \<Longrightarrow> out = [] \<and> RootDir \<notin> set (tl cs)) \<Longrightarrow>
   canonical (fold_dots out cs)"
proof (induction cs arbitrary: out)
  case (Cons c cs)
  show ?case
  proof (cases c)
    case (Normal n)
    moreover have "canonical (out @ [Normal n])" using Cons.prems(1,2) Normal by (simp add: canonical_snoc)
    moreover have "RootDir \<notin> set cs" using Cons.prems(3) Normal by auto
    ultimately show ?thesis using Cons.IH [of "out @ [c]"] Cons.prems(2) by auto
  next
    case RootDir
    with Cons.prems(3) have "out = []" "RootDir \<notin> set cs" by auto
    moreover have "canonical [RootDir]" by (simp add: canonical_def)
    ultimately show ?thesis using Cons.IH [of "[RootDir]"] Cons.prems(2) RootDir by auto
  next
    case CurDir
    have "RootDir \<in> set cs \<Longrightarrow> out = [] \<and> RootDir \<notin> set (tl cs)"
      using Cons.prems(3) CurDir by (cases cs) auto
    with Cons.IH [of out] Cons.prems(1,2) CurDir show ?thesis by auto
  next
    case ParentDir
    let ?out = "if out = [] \<or> last out = RootDir then out else butlast out"
    have "canonical ?out" using Cons.prems(1) canonical_butlast by simp
    moreover have "RootDir \<in> set cs \<Longrightarrow> ?out = [] \<and> RootDir \<notin> set (tl cs)"
      using Cons.prems(3) ParentDir by (cases cs) auto
    ultimately show ?thesis using Cons.IH [of ?out] Cons.prems(2) ParentDir by auto
  qed
qed simp

lemma lexical_canonical: "canonical (components (lexical p))"
proof -
  have "canonical (fold_dots [] (components p))"
    using components_names root_first by (intro fold_dots_canonical) (auto simp: canonical_def)
  then show ?thesis by (simp add: lexical_def components_collect)
qed

lemma lexical_no_parent: "ParentDir \<notin> set (components (lexical p))"
  using lexical_canonical [of p] by (auto simp: canonical_def)

lemma file_name_plain: "file_name p = Some n \<Longrightarrow> plain_component n"
proof -
  assume f: "file_name p = Some n"
  then have "components p \<noteq> []" "last (components p) = Normal n"
    by (auto simp: file_name_def split: if_splits Component.splits)
  then have "Normal n \<in> set (components p)" by (metis last_in_set)
  then show ?thesis by (rule components_names)
qed

lemma resolve_no_parent: "ParentDir \<notin> set (components (resolve_path h p))"
proof (cases "h_canonicalize h p")
  case (Some real)
  then show ?thesis by (simp add: resolve_path_def lexical_no_parent)
next
  case None
  have join: "ParentDir \<notin> set (components (path_join (lexical d) n))" if "plain_component n" for d n
  proof (cases "lexical d = []")
    case True
    with that components_name [OF that] show ?thesis by (simp add: path_join_def)
  next
    case False
    have "\<not> is_absolute n" using that by (auto simp: plain_component_def empty_piece_def is_absolute_def dest: hd_in_set)
    with False that have "components (path_join (lexical d) n) = components (lexical d) @ [Normal n]"
      by (simp add: components_join added_name plain_component_def piece_def)
    then show ?thesis by (simp add: lexical_no_parent)
  qed
  with None file_name_plain show ?thesis
    by (auto simp: resolve_path_def lexical_no_parent split: option.splits)
qed

lemma outside_Inr:
  "outside_our_runtime h env node p = Inr q \<longleftrightarrow>
     q = resolve_path h p \<and> \<not> path_starts_with q (resolve_path h (path_join (env_runtime_dir env) RUNTIME_SUBDIR))"
  by (auto simp: outside_our_runtime_def Let_def)

section \<open>The identity\<close>

lemma app_id_bytes:
  assumes "is_plain_name name"
  shows "\<exists>tail. app_id name = str ''org.bubbler.'' @ tail \<and> tail \<noteq> [] \<and> length tail \<le> length name + 1 \<and>
    list_all (\<lambda>b. is_ascii_alphanumeric b \<or> b = underscore \<or> b = of_char CHR ''-'') tail"
proof -
  let ?t = "map (\<lambda>b. if b = of_char CHR ''.'' then underscore else b) name"
  have "list_all (\<lambda>b. is_ascii_alphanumeric b \<or> b = underscore \<or> b = of_char CHR ''-'') ?t" "?t \<noteq> []"
    using assms by (auto simp: is_plain_name_def list_all_iff plain_byte_def underscore_def)
  then show ?thesis
    unfolding app_id_def Let_def
    by (intro exI [of _ "if ?t \<noteq> [] \<and> is_ascii_digit (hd ?t) then underscore # ?t else ?t"]) auto
qed

lemma app_id_valid:
  assumes "is_plain_name name" and "length name \<le> 242"
  shows "is_valid_app_id (app_id name)"
proof -
  obtain tail where t: "app_id name = str ''org.bubbler.'' @ tail" "tail \<noteq> []" "length tail \<le> length name + 1"
      "list_all (\<lambda>b. is_ascii_alphanumeric b \<or> b = underscore \<or> b = of_char CHR ''-'') tail"
    using app_id_bytes [OF assms(1)] by blast
  have "of_char CHR ''.'' \<notin> set tail"
    using t(4) by (auto simp: list_all_iff underscore_def ascii_defs)
  then have "split_on (of_char CHR ''.'') (app_id name) = [str ''org'', str ''bubbler'', tail]"
    by (simp add: t(1) split_on_no_sep)
  then show ?thesis
    using t assms(2) by (simp add: is_valid_app_id_def Let_def upt_rec list_all_iff ascii_defs)
qed

section \<open>Properties\<close>

text \<open>C8. What a sandbox may ask of the desktop portal.  Read as the proxy documents them, the session bus's arguments,
  each listed once, allow a call of a member of a portal interface on the desktop object exactly when a rule the
  configuration itself writes allows it, or \<open>portals\<close> is granted and the interface is one of the safe set or one a
  granted child opens, or it is the camera's and \<open>camera\<close> is granted; and a whole name is talked to or owned only by
  a rule the configuration writes itself, the four names of the small bundles and the media player's own.\<close>

theorem portal_reach:
  assumes "bus_plan services name = Some p" and "bp_session p = Some section"
    and "find_indexed as_dbus 0 services = Some (node, rules)"
  shows "distinct (rule_args (sn_rules section)) \<and>
    ((\<exists>arg \<in> set (rule_args (sn_rules section)). opens_call DESKTOP_NAME DESKTOP_PATH (portal_interface iface) member arg) \<longleftrightarrow>
       (\<exists>r \<in> set rules. opens_call DESKTOP_NAME DESKTOP_PATH (portal_interface iface) member (render_rule r)) \<or>
       (\<exists>children. Portals children \<in> set services \<and>
          (iface \<in> set PORTAL_SAFE \<or> (\<exists>c. c \<in> set children \<and> iface \<in> set (portal_interfaces c)))) \<or>
       (iface = str ''Camera'' \<and> (\<exists>nodes. Camera nodes \<in> set services))) \<and>
    (\<forall>arg. arg \<in> set (rule_args (sn_rules section)) \<and> whole_name arg \<longrightarrow>
       (\<exists>r. r \<in> set rules \<and> arg = render_rule r) \<or>
       arg \<in> set bundle_talks \<or> starts_with (str ''--own=org.mpris.MediaPlayer2.'') arg)"
proof -
  note r = session_args [OF assms]
  let ?opens = "opens_call DESKTOP_NAME DESKTOP_PATH (portal_interface iface) member"
  have "(\<exists>arg \<in> set (rule_args (sn_rules section)). ?opens arg) \<longleftrightarrow>
      (\<exists>r \<in> set rules. ?opens (render_rule r)) \<or> (\<exists>s \<in> set services. \<exists>arg \<in> set (bundle_rules s). ?opens arg)"
    unfolding conjunct2 [OF r] by blast
  also have "(\<exists>s \<in> set services. \<exists>arg \<in> set (bundle_rules s). ?opens arg) \<longleftrightarrow>
      (\<exists>children. Portals children \<in> set services \<and>
        (iface \<in> set PORTAL_SAFE \<or> (\<exists>c. c \<in> set children \<and> iface \<in> set (portal_interfaces c)))) \<or>
      (iface = str ''Camera'' \<and> (\<exists>nodes. Camera nodes \<in> set services))"
    unfolding bundle_opens opened_interfaces_def by auto
  finally show ?thesis
    using r bundle_whole_names unfolding conjunct2 [OF r] by (auto simp del: str_Cons)
qed

definition example_grants :: "Service list" where
  "example_grants = [Dbus [Talk (str ''org.example.App'')], Portals [ScreenCast]]"

theorem portal_reach_witness:
  "\<exists>p section. bus_plan example_grants (str ''web'') = Some p \<and> bp_session p = Some section \<and>
     (\<exists>arg \<in> set (rule_args (sn_rules section)).
        opens_call DESKTOP_NAME DESKTOP_PATH (portal_interface (str ''Screenshot'')) (str ''PickColor'') arg) \<and>
     \<not> (\<exists>arg \<in> set (rule_args (sn_rules section)).
        opens_call DESKTOP_NAME DESKTOP_PATH (portal_interface (str ''Location'')) (str ''CreateSession'') arg)"
proof -
  obtain p sec where p: "bus_plan example_grants (str ''web'') = Some p" "bp_session p = Some sec"
    by (simp add: bus_plan_def example_grants_def)
  have f: "find_indexed as_dbus 0 example_grants = Some (0, [Talk (str ''org.example.App'')])" by (simp add: example_grants_def)
  have "\<not> opens_call DESKTOP_NAME path iface member (render_rule (Talk (str ''org.example.App'')))" for path iface member
    by (simp add: opens_call_def starts_with_def glob_covers_def DESKTOP_NAME_def)
  moreover have "Portals children \<in> set example_grants \<longleftrightarrow> children = [ScreenCast]" "Camera nodes \<notin> set example_grants" for children nodes
    by (simp_all add: example_grants_def)
  moreover have "str ''Location'' \<notin> set PORTAL_SAFE" "str ''Location'' \<notin> set (portal_interfaces ScreenCast)"
      "str ''Screenshot'' \<in> set (portal_interfaces ScreenCast)" by (simp_all add: PORTAL_SAFE_def)
  ultimately show ?thesis
    using p portal_reach [OF p f, of "str ''Screenshot''" "str ''PickColor''"]
      portal_reach [OF p f, of "str ''Location''" "str ''CreateSession''"]
    by (auto simp del: str_Cons)
qed

text \<open>The length check at an instance's creation lists the sockets of the buses and of the exec channel as the longest
  an instance can have; the security context's socket is longer.\<close>

definition CONTEXT_SOCKET_NAME :: bytes where
  "CONTEXT_SOCKET_NAME = str ''wayland-context''"

definition context_socket_path :: "path \<Rightarrow> path" where
  "context_socket_path instance_runtime = path_join instance_runtime CONTEXT_SOCKET_NAME"

lemma socket_check_misses_context:
  "\<exists>env name. validate_name name \<and> check_socket_paths env name = Inr () \<and>
     length (context_socket_path (instance_runtime_dir env name)) + 1 > SUN_PATH_MAX"
proof -
  let ?env = "\<lparr>env_home = [], env_data_home = [], env_config_home = [], env_config_dirs = [], env_data_dirs = [],
     env_runtime_dir = str ''/run/user/1000'', env_uid = 0, env_gid = 0,
     env_wayland_display = None, env_display = None, env_xauthority = None, env_passthrough = [], env_init_override = None,
     env_dbus_address = None, env_dbus_system_address = None, env_at_spi_bus_address = None, env_dbus_log = False,
     env_net_proxy_log = False, env_seccomp_log = False, env_test_allow_path = None, env_profile_dir_override = None,
     env_proxy_override = None, env_pasta_override = None, env_wl_proxy_override = None, env_net_proxy_override = None\<rparr>"
  let ?name = "replicate 71 (of_char CHR ''a'')"
  have "validate_name ?name" "check_socket_paths ?env ?name = Inr ()"
    "length (context_socket_path (instance_runtime_dir ?env ?name)) + 1 > SUN_PATH_MAX"
    by code_simp+
  then show ?thesis by blast
qed

end
