(* ===== verification/Core_Display.thy ===== *)
theory Core_Display
  imports Core_Bus Wl_Main
begin

text \<open>
  What the display and sound grants hand their sidecars: which Wayland socket a run binds and the command
  line of the Wayland proxy (\<^verbatim>\<open>wayland.rs\<close>), and the sockets, properties and commands of the PipeWire
  context and of the private pulse server (\<^verbatim>\<open>pipewire.rs\<close>, with the JSON literals of \<^verbatim>\<open>json.rs\<close>).
  Shown: the Wayland proxy's own command line parser reads the argv built here as exactly this plan, and a
  JSON literal holds no control character.
\<close>

section \<open>Wayland\<close>

definition WL_ENGINE :: bytes where
  "WL_ENGINE = str ''org.bubbler''"

definition WL_SOCKET_NAME :: bytes where
  "WL_SOCKET_NAME = str ''wayland''"

definition WL_PROXY_NAME :: bytes where
  "WL_PROXY_NAME = str ''bubbler-wl-proxy''"

definition WL_PROXY_BIN :: path where
  "WL_PROXY_BIN = str ''/usr/lib/bubbler/bubbler-wl-proxy''"

definition locate_proxy :: "Env \<Rightarrow> Host \<Rightarrow> LaunchError + path \<times> Found" where
  "locate_proxy env h = locate_binary (env_wl_proxy_override env) WL_PROXY_NAME WL_PROXY_BIN (str ''wayland'') h"

definition wl_socket_path :: "path \<Rightarrow> path" where
  "wl_socket_path instance_runtime = path_join instance_runtime WL_SOCKET_NAME"

datatype WaylandPlan = WlPlanProxy path | WlPlanHost

definition wayland_plan :: "WaylandMode \<Rightarrow> path \<Rightarrow> WaylandPlan" where
  "wayland_plan mode instance_runtime =
     (case mode of WlHost \<Rightarrow> WlPlanHost | WlSandboxed _ \<Rightarrow> WlPlanProxy (wl_socket_path instance_runtime))"

record ProxyPlan =
  pp_listener :: path
  pp_upstream :: path
  pp_context :: bool
  pp_clipboard :: Clipboard

definition context_plan :: "path \<Rightarrow> Clipboard \<Rightarrow> ProxyPlan" where
  "context_plan instance_runtime clipboard =
     \<lparr>pp_listener = wl_socket_path instance_runtime, pp_upstream = context_socket_path instance_runtime, pp_context = True,
      pp_clipboard = clipboard\<rparr>"

definition fallback_plan :: "path \<Rightarrow> path \<Rightarrow> Clipboard \<Rightarrow> ProxyPlan" where
  "fallback_plan instance_runtime session clipboard =
     \<lparr>pp_listener = wl_socket_path instance_runtime, pp_upstream = session, pp_context = False, pp_clipboard = clipboard\<rparr>"

definition gate_name :: "ProxyPlan \<Rightarrow> bytes" where
  "gate_name p = (case pp_clipboard p of ClipPaste \<Rightarrow> str ''paste'' | ClipOpen \<Rightarrow> str ''open'')"

definition wl_command_nodes :: "ProxyPlan \<Rightarrow> path \<Rightarrow> nat \<Rightarrow> bytes \<Rightarrow> bytes \<Rightarrow> (bytes \<times> nat option) list" where
  "wl_command_nodes p program node listen_fd ready_fd =
     [(program, None), (str ''--listen-fd'', None), (listen_fd, None), (str ''--upstream'', None), (pp_upstream p, None),
      (str ''--gate'', Some node), (gate_name p, Some node)] @
     (if \<not> pp_context p then [(str ''--fallback-deny'', None)] else []) @
     [(str ''--log-fd'', None), (str ''2'', None), (str ''--ready-fd'', None), (ready_fd, None)]"

definition refuse_inherited :: "bytes option \<Rightarrow> bool" where
  "refuse_inherited wayland_socket \<longleftrightarrow> wayland_socket \<noteq> None"

section \<open>JSON literals\<close>

definition json_hex :: "byte \<Rightarrow> bytes" where
  "json_hex b = 0x5c # str ''u00'' @ [hex_digit (unat b div 16), hex_digit (unat b mod 16)]"

text \<open>A character at a time; the two bytes of a character from U+0080 to U+009F are one control character.\<close>

fun json_body :: "bytes \<Rightarrow> bytes" where
  "json_body [] = []"
| "json_body (a # rest) =
     (if a = 0x22 then [0x5c, 0x22] @ json_body rest
      else if a = 0x5c then [0x5c, 0x5c] @ json_body rest
      else if a = 10 then 0x5c # str ''n'' @ json_body rest
      else if a = 13 then 0x5c # str ''r'' @ json_body rest
      else if a = 9 then 0x5c # str ''t'' @ json_body rest
      else if a < 0x20 \<or> a = 0x7f then json_hex a @ json_body rest
      else
        case rest of
          b # rest' \<Rightarrow>
            if a = 0xc2 \<and> 0x80 \<le> b \<and> b \<le> 0x9f then json_hex b @ json_body rest'
            else a # json_body (b # rest')
        | [] \<Rightarrow> [a])"

definition json_string :: "bytes \<Rightarrow> bytes" where
  "json_string s = [0x22] @ json_body s @ [0x22]"

section \<open>PipeWire\<close>

definition PW_ENGINE :: bytes where
  "PW_ENGINE = str ''org.bubbler''"

definition PW_ACCESS :: bytes where
  "PW_ACCESS = str ''restricted''"

definition PW_CONTAINER :: path where
  "PW_CONTAINER = str ''/usr/bin/pw-container''"

definition HOLDER_INSIDE :: path where
  "HOLDER_INSIDE = str ''/run/bubbler-pw-hold''"

definition PW_SOCKET_NAME :: bytes where
  "PW_SOCKET_NAME = str ''pipewire-0''"

definition PIPEWIRE :: path where
  "PIPEWIRE = str ''/usr/bin/pipewire''"

definition PULSE_MODULE :: path where
  "PULSE_MODULE = str ''/usr/lib/pipewire-0.3/libpipewire-module-protocol-pulse.so''"

definition PULSE_CONF :: bytes where
  "PULSE_CONF = str ''pipewire-pulse.conf''"

definition PULSE_ADOPTED :: bytes where
  "PULSE_ADOPTED = str ''pulse-native''"

definition pw_host_socket :: "path \<Rightarrow> path" where
  "pw_host_socket runtime_dir = path_join runtime_dir PW_SOCKET_NAME"

definition pw_dir :: "path \<Rightarrow> path" where
  "pw_dir instance_runtime = path_join instance_runtime (str ''pw'')"

definition pw_socket :: "path \<Rightarrow> path" where
  "pw_socket instance_runtime = path_join instance_runtime PW_SOCKET_NAME"

definition pulse_dir :: "path \<Rightarrow> path" where
  "pulse_dir instance_runtime = path_join instance_runtime (str ''pwpulse'')"

definition pulse_socket_dir :: "path \<Rightarrow> path" where
  "pulse_socket_dir instance_runtime = path_join (pulse_dir instance_runtime) (str ''pulse'')"

definition pulse_socket :: "path \<Rightarrow> path" where
  "pulse_socket instance_runtime = path_join instance_runtime PULSE_ADOPTED"

definition pulse_config_dir :: "path \<Rightarrow> path" where
  "pulse_config_dir instance_runtime = path_join (pulse_dir instance_runtime) (str ''cfg'')"

definition pulse_conf_dirs :: "path \<Rightarrow> path list" where
  "pulse_conf_dirs config_home =
     [path_join config_home (str ''pipewire''), str ''/etc/pipewire'', str ''/usr/share/pipewire'']"

definition pulse_conf :: "Host \<Rightarrow> path \<Rightarrow> path option" where
  "pulse_conf h config_home =
     List.find (is_type h RegularFile) (map (\<lambda>dir. path_join dir PULSE_CONF) (pulse_conf_dirs config_home))"

definition pulse_command :: "bytes list" where
  "pulse_command = [PIPEWIRE, str ''-c'', PULSE_CONF]"

definition pw_grant :: "bool \<Rightarrow> bytes" where
  "pw_grant microphone = (if microphone then str ''playback,microphone'' else str ''playback'')"

definition pw_properties :: "bytes \<Rightarrow> bytes \<Rightarrow> bool \<Rightarrow> bytes" where
  "pw_properties name run_id microphone =
     str ''{'' @ join (str '','')
       (map (\<lambda>(key, v). json_string key @ str '':'' @ json_string v)
          [(str ''pipewire.sec.engine'', PW_ENGINE), (str ''pipewire.sec.app-id'', name),
           (str ''pipewire.sec.instance-id'', run_id), (str ''pipewire.access'', PW_ACCESS),
           (str ''pipewire.sec.bubbler.audio'', pw_grant microphone)]) @ str ''}''"

definition pw_command :: "bytes \<Rightarrow> bytes list" where
  "pw_command properties = [PW_CONTAINER, str ''-P'', properties, str ''--'', HOLDER_INSIDE]"

section \<open>What the sidecars read\<close>

definition gate_of_clipboard :: "Clipboard \<Rightarrow> Gate" where
  "gate_of_clipboard c = (case c of ClipPaste \<Rightarrow> Paste | ClipOpen \<Rightarrow> Open)"

lemma wl_number_digits: "n < 2 ^ 31 \<Longrightarrow> wl_number (dec_digits n) = Some (int n)"
  using number_digits [of n] by (simp add: number_def wl_number_def)

lemma wl_proxy_reads_plan:
  assumes "listen < 2 ^ 31" and "ready < 2 ^ 31" and "distinct [listen, ready, 2]"
  shows "wl_parse_from (tl (map fst (wl_command_nodes p program node (dec_digits listen) (dec_digits ready)))) =
    Some \<lparr>wa_listen_fd = int listen, wa_upstream = pp_upstream p, wa_gate = gate_of_clipboard (pp_clipboard p),
          wa_fallback_deny = (\<not> pp_context p), wa_log_fd = Some 2, wa_ready_fd = Some (int ready)\<rparr>"
proof -
  have two: "wl_number (str ''2'') = Some 2" using wl_number_digits [of 2] by (simp add: dec_digits.simps)
  have gate: "gate_word (gate_name p) = Some (gate_of_clipboard (pp_clipboard p))"
    by (cases "pp_clipboard p") (simp_all add: gate_name_def gate_word_def gate_of_clipboard_def to_str_def)
  have "distinct [int listen, 2, int ready]" using assms(3) by auto
  then show ?thesis
    using two gate wl_number_digits [OF assms(1)] wl_number_digits [OF assms(2)]
    by (cases "pp_context p") (auto simp: wl_command_nodes_def wl_parse_from_def named_fds_def)
qed

lemma hex_digit_printable: "n < 16 \<Longrightarrow> 0x20 \<le> hex_digit n \<and> hex_digit n \<noteq> 0x7f"
proof -
  assume "n < 16"
  then have "n \<in> {0,1,2,3,4,5,6,7,8,9,10,11,12,13,14,15}" by (simp, arith)
  then show ?thesis by (auto simp: hex_digit_def)
qed

lemma json_hex_printable: "b \<in> set (json_hex c) \<Longrightarrow> 0x20 \<le> b \<and> b \<noteq> 0x7f"
proof -
  have "unat c < 256" using unsigned_less [of c, where ?'a = nat] by simp
  then have "0x20 \<le> hex_digit (unat c div 16) \<and> hex_digit (unat c div 16) \<noteq> 0x7f"
    "0x20 \<le> hex_digit (unat c mod 16) \<and> hex_digit (unat c mod 16) \<noteq> 0x7f"
    by (intro hex_digit_printable; simp)+
  moreover assume "b \<in> set (json_hex c)"
  ultimately show ?thesis by (auto simp: json_hex_def)
qed

definition printable :: "byte \<Rightarrow> bool" where
  "printable b \<longleftrightarrow> 0x20 \<le> b \<and> b \<noteq> 0x7f"

lemma json_step:
  "\<exists>out rest'. json_body (a # rest) = out @ json_body rest' \<and> length rest' \<le> length rest \<and> list_all printable out"
  (is "\<exists>out rest'. ?P out rest'")
proof -
  have esc: "printable 0x5c" "printable 0x22" "printable (of_char CHR ''n'')" "printable (of_char CHR ''r'')"
    "printable (of_char CHR ''t'')" by (simp_all add: printable_def)
  have hex: "list_all printable (json_hex c)" for c
    using json_hex_printable [of _ c] by (auto simp: list_all_iff printable_def)
  consider (q) "a = 0x22" | (b) "a = 0x5c" | (n) "a = 10" | (r) "a = 13" | (t) "a = 9"
    | (ctl) "a \<noteq> 0x22" "a \<noteq> 0x5c" "a \<noteq> 10" "a \<noteq> 13" "a \<noteq> 9" "a < 0x20 \<or> a = 0x7f"
    | (plain) "a \<noteq> 0x22" "a \<noteq> 0x5c" "a \<noteq> 10" "a \<noteq> 13" "a \<noteq> 9" "\<not> (a < 0x20 \<or> a = 0x7f)" by blast
  then show ?thesis
  proof cases
    case q
    then have "?P [0x5c, 0x22] rest" using esc by simp
    then show ?thesis by blast
  next
    case b
    then have "?P [0x5c, 0x5c] rest" using esc by simp
    then show ?thesis by blast
  next
    case n
    then have "?P (0x5c # str ''n'') rest" using esc by simp
    then show ?thesis by blast
  next
    case r
    then have "?P (0x5c # str ''r'') rest" using esc by simp
    then show ?thesis by blast
  next
    case t
    then have "?P (0x5c # str ''t'') rest" using esc by simp
    then show ?thesis by blast
  next
    case ctl
    then have "json_body (a # rest) = json_hex a @ json_body rest" by simp
    with hex show ?thesis by blast
  next
    case plain
    then have p: "printable a" by (simp add: printable_def not_less)
    show ?thesis
    proof (cases rest)
      case Nil
      with plain p have "?P [a] []" by simp
      then show ?thesis by blast
    next
      case (Cons b rest')
      show ?thesis
      proof (cases "a = 0xc2 \<and> 0x80 \<le> b \<and> b \<le> 0x9f")
        case True
        with plain Cons have "json_body (a # rest) = json_hex b @ json_body rest'" by simp
        with hex Cons show ?thesis by (intro exI [of _ "json_hex b"] exI [of _ rest']) simp
      next
        case False
        with plain Cons have "json_body (a # rest) = [a] @ json_body rest" by auto
        with p show ?thesis by (intro exI [of _ "[a]"] exI [of _ rest]) simp
      qed
    qed
  qed
qed

declare json_body.simps(2) [simp del]

lemma json_body_printable: "list_all printable (json_body s)"
proof (induction "length s" arbitrary: s rule: less_induct)
  case less
  show ?case
  proof (cases s)
    case (Cons a rest)
    obtain out rest' where o: "json_body (a # rest) = out @ json_body rest'" "length rest' \<le> length rest" "list_all printable out"
      using json_step by blast
    with less [of rest'] Cons show ?thesis by simp
  qed simp
qed

end
