(* ===== verification/Core_Grants.thy ===== *)
theory Core_Grants
  imports Core_Shares Core_Display
begin

text \<open>
  The grants of a configuration turned into builder calls (\<^verbatim>\<open>service.rs\<close>, \<^verbatim>\<open>service/dri.rs\<close>): one
  definition per service, and \<open>apply_all\<close>, which applies them in file order with the three that wait until
  the end.  Warnings on the standard error are not modelled.  Shown: every service only adds binds,
  masks and variables, so the namespaces the baseline unshares stay unshared, but for the host's network
  where a \<open>network "host"\<close> node asks for it.
\<close>

record ServiceCtx =
  cx_instance_runtime :: path
  cx_dbus :: "Plan option"
  cx_wayland :: "WaylandPlan option"
  cx_init_bin :: path

type_synonym grant = "BwrapArgs \<Rightarrow> LaunchError + BwrapArgs"

fun for_args :: "('x \<Rightarrow> grant) \<Rightarrow> 'x list \<Rightarrow> grant" where
  "for_args f [] a = Inr a"
| "for_args f (x # xs) a = res_bind (f x a) (for_args f xs)"

section \<open>Network\<close>

definition network :: "Env \<Rightarrow> Host \<Rightarrow> NetworkConfig \<Rightarrow> grant" where
  "network env h cfg a =
     (let a = (if nc_mode cfg = NetHost then share_net a else a) in
      res_bind
        (case resolv_conf cfg of
           Some content \<Rightarrow> Inr (ro_bind_data content (str ''/etc/resolv.conf'') a)
         | None \<Rightarrow>
             if nc_mode cfg = NetHost
             then res_bind (require_file h (str ''network'') (str ''/etc/resolv.conf'')) (\<lambda>p. Inr (ro_bind p p a))
             else Inr a)
        (\<lambda>a.
           if nc_allow_hosts cfg \<noteq> []
           then
             res_bind (net_proxy_program env h) (\<lambda>(program, _).
               Inr (foldl (\<lambda>a (name, v). setenv name v a) (ro_bind program NET_PROXY_INSIDE a) (proxy_env PROXY_PORT)))
           else Inr a))"

section \<open>Displays\<close>

definition check_wayland_display :: "bytes option \<Rightarrow> LaunchError + bytes" where
  "check_wayland_display v =
     res_bind (ok_or (MissingEnv (str ''wayland'') (str ''WAYLAND_DISPLAY'')) v) (\<lambda>display_name.
       case components display_name of
         [Normal _] \<Rightarrow> Inr display_name
       | _ \<Rightarrow>
           Inl (BadValue (str ''wayland'') (str ''cannot use WAYLAND_DISPLAY='' @ utf8_lossy display_name @
             str ''; only a plain socket name is supported'')))"

definition wayland_display :: "Env \<Rightarrow> LaunchError + bytes" where
  "wayland_display env = check_wayland_display (env_wayland_display env)"

definition wayland :: "Env \<Rightarrow> Host \<Rightarrow> bool \<Rightarrow> WaylandPlan option \<Rightarrow> grant" where
  "wayland env h claim_session plan a =
     res_bind (wayland_display env) (\<lambda>display_name.
       let inside = path_join (env_runtime_dir env) display_name in
       res_bind
         (case plan of
            Some (WlPlanProxy socket) \<Rightarrow> Inr (ro_bind socket inside a)
          | _ \<Rightarrow> res_bind (require_socket h (str ''wayland'') inside) (\<lambda>sock. Inr (ro_bind sock sock a)))
         (\<lambda>a.
            let a = setenv (str ''WAYLAND_DISPLAY'') display_name a in
            Inr (if claim_session then setenv (str ''XDG_SESSION_TYPE'') (str ''wayland'') a else a)))"

definition strip_start :: "bytes \<Rightarrow> bytes \<Rightarrow> bytes option" where
  "strip_start p s = (if starts_with p s then Some (drop (length p) s) else None)"

definition x11_display_number :: "bytes \<Rightarrow> nat option" where
  "x11_display_number display_name =
     Option.bind (to_str display_name) (\<lambda>s.
     Option.bind (case strip_start (str '':'') s of Some r \<Rightarrow> Some r | None \<Rightarrow> strip_start (str ''unix:'') s) (\<lambda>rest.
       let num = hd (split_on (of_char CHR ''.'') rest) in
       if starts_with (str ''+'') num then None else parse_unsigned (2 ^ 32 - 1) num))"

definition x11_nested :: "Host \<Rightarrow> NestedX11 \<Rightarrow> grant" where
  "x11_nested h n a =
     res_bind (require_file h (str ''x11'') XWAYLAND) (\<lambda>_.
       Inr (x11_server (xwayland_argv n) (nx_wm n) (setenv (str ''DISPLAY'') (str '':0'') a)))"

definition x11_cookie :: "Env \<Rightarrow> Host \<Rightarrow> LaunchError + path option" where
  "x11_cookie env h =
     (case env_xauthority env of
        Some xa \<Rightarrow> res_bind (require_file h (str ''x11'') xa) (\<lambda>p. Inr (Some p))
      | None \<Rightarrow>
          let home = path_join (env_home env) (str ''.Xauthority'') in
          Inr (if is_type h RegularFile home then Some home else None))"

definition x11_host :: "Env \<Rightarrow> Host \<Rightarrow> grant" where
  "x11_host env h a =
     res_bind (ok_or (MissingEnv (str ''x11'') (str ''DISPLAY'')) (env_display env)) (\<lambda>display_name.
     res_bind (ok_or (BadValue (str ''x11'') (str ''cannot use DISPLAY='' @ utf8_lossy display_name @
         str ''; only local displays like :0 are supported'')) (x11_display_number display_name)) (\<lambda>n.
     res_bind (require_socket h (str ''x11'') (str ''/tmp/.X11-unix/X'' @ dec_digits n)) (\<lambda>sock.
       let a = setenv (str ''DISPLAY'') (str '':'' @ dec_digits n) (ro_bind sock sock a) in
       res_bind (x11_cookie env h) (\<lambda>cookie.
         Inr (case cookie of
                None \<Rightarrow> a
              | Some p \<Rightarrow>
                  let inner = path_join SANDBOX_HOME (str ''.Xauthority'') in
                  setenv (str ''XAUTHORITY'') inner (ro_bind p inner a))))))"

definition x11 :: "Env \<Rightarrow> Host \<Rightarrow> X11Mode \<Rightarrow> grant" where
  "x11 env h mode = (case mode of X11Nested n \<Rightarrow> x11_nested h n | X11Host \<Rightarrow> x11_host env h)"

section \<open>Devices\<close>

definition bind_dir_if_there :: "Host \<Rightarrow> bytes \<Rightarrow> path \<Rightarrow> grant" where
  "bind_dir_if_there h svc p a =
     (case h_file_type h p of
        None \<Rightarrow> Inr a
      | Some Directory \<Rightarrow> Inr (ro_bind p p a)
      | Some _ \<Rightarrow> Inl (WrongType svc p (str ''a directory'')))"

definition dev_nodes :: "Host \<Rightarrow> (bytes \<Rightarrow> bool) \<Rightarrow> path list" where
  "dev_nodes h wanted =
     filter (is_type h CharDevice) (map (path_join (str ''/dev'')) (filter wanted (h_list_dir h (str ''/dev''))))"

definition hidraw :: "Host \<Rightarrow> bytes \<Rightarrow> grant" where
  "hidraw h svc a =
     bind_dir_if_there h svc (str ''/sys/class/hidraw'')
       (foldl (\<lambda>a p. dev_bind_try p p a) a (dev_nodes h (starts_with (str ''hidraw''))))"

definition gamepad_uinput :: "Host \<Rightarrow> grant" where
  "gamepad_uinput h a =
     res_bind (require h (str ''gamepad'') (str ''/dev/uinput'') (str ''a character device'') (\<lambda>t. t = CharDevice)) (\<lambda>p.
       Inr (dev_bind p p a))"

definition gamepad :: "Host \<Rightarrow> (bytes \<times> Origin) option \<Rightarrow> bool \<Rightarrow> grant" where
  "gamepad h hid uinput a =
     (let padnode = ba_origin a in
      res_bind (require_dir h (str ''gamepad'') (str ''/dev/input'')) (\<lambda>dev.
      res_bind (for_args (\<lambda>p a. res_bind (require_dir h (str ''gamepad'') p) (\<lambda>p. Inr (ro_bind p p a)))
        [str ''/sys/class/input'', str ''/sys/devices''] (dev_bind dev dev a)) (\<lambda>a.
      res_bind (bind_dir_if_there h (str ''gamepad'') (str ''/run/udev'') a) (\<lambda>a.
      res_bind
        (case hid of
           None \<Rightarrow> Inr a
         | Some (node, orig) \<Rightarrow> res_bind (hidraw h node (tag orig a)) (\<lambda>a. Inr (tag padnode a)))
        (\<lambda>a. if uinput then gamepad_uinput h a else Inr a)))))"

definition camera_nodes :: "Host \<Rightarrow> bool \<Rightarrow> grant" where
  "camera_nodes h udev a =
     for_args (bind_dir_if_there h (str ''camera''))
       ([str ''/dev/v4l'', str ''/sys/class/video4linux'', str ''/sys/bus/media''] @ (if udev then [str ''/run/udev''] else []))
       (foldl (\<lambda>a p. dev_bind_try p p a) a
          (dev_nodes h (\<lambda>n. starts_with (str ''video'') n \<or> starts_with (str ''media'') n)))"

fun is_gamepad :: "Service \<Rightarrow> bool" where
  "is_gamepad (Gamepad _ _) = True"
| "is_gamepad _ = False"

definition camera :: "Service list \<Rightarrow> Host \<Rightarrow> bool \<Rightarrow> grant" where
  "camera services h nodes a =
     (if \<not> list_ex is_portals services then Inl (BadValue (str ''camera'') (str ''requires portals''))
      else if nodes then camera_nodes h (\<not> list_ex is_gamepad services) a
      else Inr a)"

section \<open>GPUs\<close>

definition DRI_DEV :: path where
  "DRI_DEV = str ''/dev/dri''"

definition DRM_CLASS :: path where
  "DRM_CLASS = str ''/sys/class/drm''"

text \<open>A \<^verbatim>\<open>BTreeSet\<close> of names: in byte order, each once.\<close>

fun bytes_less :: "bytes \<Rightarrow> bytes \<Rightarrow> bool" where
  "bytes_less [] [] = False"
| "bytes_less [] (_ # _) = True"
| "bytes_less (_ # _) [] = False"
| "bytes_less (a # as) (b # bs) = (a < b \<or> (a = b \<and> bytes_less as bs))"

fun tree_insert :: "bytes \<Rightarrow> bytes list \<Rightarrow> bytes list" where
  "tree_insert x [] = [x]"
| "tree_insert x (y # ys) = (if x = y then y # ys else if bytes_less x y then x # y # ys else y # tree_insert x ys)"

definition ends_with :: "bytes \<Rightarrow> bytes \<Rightarrow> bool" where
  "ends_with suf s \<longleftrightarrow> length suf \<le> length s \<and> drop (length s - length suf) s = suf"

definition link_node :: "Host \<Rightarrow> path \<Rightarrow> bytes \<Rightarrow> bytes option" where
  "link_node h by_path entry =
     (case h_read_link h (path_join by_path entry) of
        Inr (Some target) \<Rightarrow> (case components target of [ParentDir, Normal node] \<Rightarrow> Some node | _ \<Rightarrow> None)
      | _ \<Rightarrow> None)"

definition dri_add :: "Host \<Rightarrow> path \<Rightarrow> bytes list \<times> bytes list \<Rightarrow> bytes \<Rightarrow> bytes list \<times> bytes list" where
  "dri_add h by_path sets entry =
     (case sets of (render, primary) \<Rightarrow>
        if ends_with (str ''-render'') entry
        then (case link_node h by_path entry of Some n \<Rightarrow> (tree_insert n render, primary) | None \<Rightarrow> sets)
        else if ends_with (str ''-card'') entry
        then (case link_node h by_path entry of Some n \<Rightarrow> (render, tree_insert n primary) | None \<Rightarrow> sets)
        else sets)"

definition dri_nodes :: "Host \<Rightarrow> path \<Rightarrow> bytes list \<times> bytes list" where
  "dri_nodes h by_path = foldl (dri_add h by_path) ([], []) (h_list_dir h by_path)"

definition dri_driver :: "Host \<Rightarrow> path \<Rightarrow> bytes option" where
  "dri_driver h dir =
     (case h_read_link h (path_join dir (str ''driver'')) of Inr (Some target) \<Rightarrow> file_name target | _ \<Rightarrow> None)"

definition dri_binds_a_primary_node :: "Host \<Rightarrow> bool" where
  "dri_binds_a_primary_node h =
     list_ex (\<lambda>name.
       case h_canonicalize h (path_join (path_join DRM_CLASS name) (str ''device'')) of
         Some dir \<Rightarrow> dri_driver h dir = Some (str ''nvidia'')
       | None \<Rightarrow> False) (fst (dri_nodes h (path_join DRI_DEV (str ''by-path''))))"

definition mask_card :: "Host \<Rightarrow> bool \<Rightarrow> path \<Rightarrow> BwrapArgs \<Rightarrow> bytes \<Rightarrow> BwrapArgs" where
  "mask_card h nvidia drm a entry =
     (let primary = path_join drm entry in
      if \<not> starts_with (str ''card'') entry \<or> \<not> is_type h Directory primary then a
      else
        let node = path_join DRI_DEV entry; a = (if nvidia then dev_bind node node a else a) in
        mask_dir primary a)"

definition dri_sysfs :: "Host \<Rightarrow> bool \<Rightarrow> bytes \<Rightarrow> grant" where
  "dri_sysfs h kms name a =
     (let cls = path_join DRM_CLASS name; link = path_join cls (str ''device''); devices = str ''/sys/devices'' in
      case h_canonicalize h link of
        None \<Rightarrow> Inl (MissingResource (str ''dri'') link)
      | Some dir \<Rightarrow>
          (case strip_path dir devices of
             None \<Rightarrow>
               Inl (BadValue (str ''dri'') (str ''`'' @ display link @ str ''` resolves to `'' @ display dir @
                 str ''`, outside /sys/devices''))
           | Some rel \<Rightarrow>
               let a = ro_bind dir dir a;
                   drm = path_join dir (str ''drm'');
                   a = (if kms then a
                        else foldl (mask_card h (dri_driver h dir = Some (str ''nvidia'')) drm) a (h_list_dir h drm))
               in Inr (symlink (path_join (path_join (path_join (str ''../../devices'') rel) (str ''drm'')) name) cls a)))"

definition nvidia_nodes :: "Host \<Rightarrow> path list" where
  "nvidia_nodes h = dev_nodes h (starts_with (str ''nvidia''))"

definition nvidia_modules :: "Host \<Rightarrow> path list" where
  "nvidia_modules h =
     filter (is_type h Directory)
       (map (path_join (str ''/sys/module'')) (filter (starts_with (str ''nvidia'')) (h_list_dir h (str ''/sys/module''))))"

definition dev_binds :: "path \<Rightarrow> bytes list \<Rightarrow> BwrapArgs \<Rightarrow> BwrapArgs" where
  "dev_binds dev ns a = foldl (\<lambda>a n. dev_bind (path_join dev n) (path_join dev n) a) a ns"

definition dri_rest :: "Host \<Rightarrow> BwrapArgs \<Rightarrow> BwrapArgs" where
  "dri_rest h a =
     (let version = path_join DRM_CLASS (str ''version'');
          a = (if is_type h RegularFile version then ro_bind version version a else a);
          a = foldl (\<lambda>a p. dev_bind p p a) a (nvidia_nodes h)
      in foldl (\<lambda>a p. ro_bind p p a) a (nvidia_modules h))"

definition dri :: "Host \<Rightarrow> bool \<Rightarrow> grant" where
  "dri h kms a =
     res_bind (require_dir h (str ''dri'') DRI_DEV) (\<lambda>dev.
       let by_path = path_join dev (str ''by-path''); (render, primary) = dri_nodes h by_path in
       if render = [] then Inl (MissingResource (str ''dri'') by_path)
       else
         let a = dev_binds dev render a; a = (if kms then dev_binds dev primary a else a) in
         res_bind (for_args (\<lambda>p a. res_bind (require_dir h (str ''dri'') p) (\<lambda>p. Inr (ro_bind p p a)))
           [str ''/sys/dev/char'', str ''/sys/devices/system/cpu''] a) (\<lambda>a.
         res_bind (for_args (dri_sysfs h kms) render a) (\<lambda>a. Inr (dri_rest h a))))"

section \<open>Sound\<close>

definition audio_context :: "Host \<Rightarrow> LaunchError + unit" where
  "audio_context h = res_bind (require_file h (str ''pipewire'') PW_CONTAINER) (\<lambda>_. Inr ())"

definition pipewire :: "Env \<Rightarrow> Host \<Rightarrow> ServiceCtx \<Rightarrow> grant" where
  "pipewire env h cx a =
     res_bind (audio_context h) (\<lambda>_.
       Inr (ro_bind (pw_socket (cx_instance_runtime cx)) (path_join (env_runtime_dir env) (str ''pipewire-0'')) a))"

definition pulseaudio :: "Env \<Rightarrow> Host \<Rightarrow> ServiceCtx \<Rightarrow> grant" where
  "pulseaudio env h cx a =
     res_bind (audio_context h) (\<lambda>_.
     res_bind (require_file h (str ''pulseaudio'') PULSE_MODULE) (\<lambda>_.
       let inside = path_join (env_runtime_dir env) (str ''pulse/native'') in
       Inr (setenv (str ''PULSE_SERVER'') (str ''unix:'' @ inside) (ro_bind (pulse_socket (cx_instance_runtime cx)) inside a))))"

section \<open>Buses\<close>

definition dbus_socket :: "Env \<Rightarrow> ServiceCtx \<Rightarrow> BwrapArgs \<Rightarrow> BwrapArgs" where
  "dbus_socket env cx a =
     (let inside = path_join (env_runtime_dir env) (str ''bus'') in
      setenv (str ''DBUS_SESSION_BUS_ADDRESS'') (str ''unix:path='' @ inside)
        (ro_bind (app_bus_path (cx_instance_runtime cx) SESSION_SOCKET) inside a))"

definition system_bus_socket :: "ServiceCtx \<Rightarrow> BwrapArgs \<Rightarrow> BwrapArgs" where
  "system_bus_socket cx a = ro_bind (app_bus_path (cx_instance_runtime cx) SYSTEM_SOCKET) SYSTEM_BUS_PATH a"

definition a11y :: "Env \<Rightarrow> ServiceCtx \<Rightarrow> grant" where
  "a11y env cx a =
     (if (case cx_dbus cx of Some p \<Rightarrow> bp_a11y p = None | None \<Rightarrow> True)
      then Inl (BadValue A11Y_NODE (str ''requires dbus''))
      else
        let inside = path_join (path_join (env_runtime_dir env) (str ''at-spi'')) (str ''bus'') in
        Inr (setenv (str ''AT_SPI_BUS_ADDRESS'') (str ''unix:path='' @ inside)
          (ro_bind (app_bus_path (cx_instance_runtime cx) A11Y_SOCKET) inside a)))"

definition input_method :: "BwrapArgs \<Rightarrow> BwrapArgs" where
  "input_method a = setenv (str ''IBUS_USE_PORTAL'') (str ''1'') a"

definition portals :: "Env \<Rightarrow> Host \<Rightarrow> ServiceCtx \<Rightarrow> grant" where
  "portals env h cx a =
     res_bind (ok_or (BadValue (str ''portals'') (str ''requires dbus''))
        (case cx_dbus cx of Some p \<Rightarrow> if bp_session p \<noteq> None then Some p else None | None \<Rightarrow> None)) (\<lambda>plan.
       let a = flatpak_spawn_shim (cx_init_bin cx) (ro_bind_data (bp_flatpak_info plan) FLATPAK_INFO a);
           doc = path_join (env_runtime_dir env) (str ''doc'');
           mounted = is_type h Directory doc \<and> h_is_mountpoint h doc = Some True
       in Inr (if mounted then bind_rw (path_join (path_join doc (str ''by-app'')) (bp_app_id plan)) doc a else a))"

section \<open>All of them\<close>

fun is_x11 :: "Service \<Rightarrow> bool" where
  "is_x11 (X11 _) = True"
| "is_x11 _ = False"

fun apply_service :: "Service list \<Rightarrow> Env \<Rightarrow> Host \<Rightarrow> ServiceCtx \<Rightarrow> Service \<Rightarrow> grant" where
  "apply_service services env h cx (Wayland _) a = wayland env h (\<not> list_ex is_x11 services) (cx_wayland cx) a"
| "apply_service services env h cx (X11 mode) a = x11 env h mode a"
| "apply_service services env h cx (Network cfg) a = network env h cfg a"
| "apply_service services env h cx (HomeShare p mode optional) a = home_share env h p mode optional a"
| "apply_service services env h cx (Dri kms) a = dri h kms a"
| "apply_service services env h cx (Pipewire _) a = pipewire env h cx a"
| "apply_service services env h cx (Pulseaudio _) a = pulseaudio env h cx a"
| "apply_service services env h cx (EtcShare name) a = etc_share h name a"
| "apply_service services env h cx (AppRuntime i mode) a = Inr (app_runtime env i mode a)"
| "apply_service services env h cx (Dbus _) a = Inr (dbus_socket env cx a)"
| "apply_service services env h cx (SystemBus _) a = Inr (system_bus_socket cx a)"
| "apply_service services env h cx (Portals _) a = portals env h cx a"
| "apply_service services env h cx (Camera nodes) a = camera services h nodes a"
| "apply_service services env h cx (PathShare _ _ _) a = Inr a"
| "apply_service services env h cx (Gamepad _ _) a = Inr a"
| "apply_service services env h cx Hidraw a = Inr a"
| "apply_service services env h cx Notify a = Inr a"
| "apply_service services env h cx Tray a = Inr a"
| "apply_service services env h cx (Mpris _) a = Inr a"
| "apply_service services env h cx A11y a = a11y env cx a"
| "apply_service services env h cx InputMethod a = Inr (input_method a)"

fun apply_services :: "Service list \<Rightarrow> Env \<Rightarrow> Host \<Rightarrow> ServiceCtx \<Rightarrow> nat \<Rightarrow> Service list \<Rightarrow> grant" where
  "apply_services services env h cx i [] a = Inr a"
| "apply_services services env h cx i (s # rest) a =
     res_bind (apply_service services env h cx s (tag (FromService i) a)) (apply_services services env h cx (i + 1) rest)"

fun as_gamepad :: "Service \<Rightarrow> (bool \<times> bool) option" where
  "as_gamepad (Gamepad hid uinput) = Some (hid, uinput)"
| "as_gamepad _ = None"

definition hidraw_node :: "Service list \<Rightarrow> (nat \<times> bool \<times> bool) option \<Rightarrow> (bytes \<times> Origin) option" where
  "hidraw_node services padnode =
     (case (position (\<lambda>s. s = Hidraw) services, padnode) of
        (Some i, _) \<Rightarrow> Some (str ''hidraw'', FromService i)
      | (None, Some (i, True, _)) \<Rightarrow> Some (str ''gamepad'', FromService i)
      | _ \<Rightarrow> None)"

definition apply_pads :: "Service list \<Rightarrow> Host \<Rightarrow> grant" where
  "apply_pads services h a =
     (let padnode = find_indexed as_gamepad 0 services; hid = hidraw_node services padnode in
      case padnode of
        Some (i, _, uinput) \<Rightarrow> gamepad h hid uinput (tag (FromService i) a)
      | None \<Rightarrow>
          (case hid of
             Some (node, orig) \<Rightarrow> hidraw h node (tag orig a)
           | None \<Rightarrow> Inr a))"

definition bind_placed :: "BwrapArgs \<Rightarrow> placed \<Rightarrow> BwrapArgs" where
  "bind_placed a s = (case s of (i, dst, src, mode) \<Rightarrow> bind_mode mode src dst (tag (FromService i) a))"

definition apply_all :: "Service list \<Rightarrow> Env \<Rightarrow> Host \<Rightarrow> ServiceCtx \<Rightarrow> grant" where
  "apply_all services env h cx a =
     res_bind (path_shares services env h) (\<lambda>shares.
     res_bind (apply_services services env h cx 0 services a) (\<lambda>a.
     res_bind (apply_pads services h a) (\<lambda>a.
       Inr (foldl bind_placed a shares))))"

section \<open>What a grant leaves alone\<close>

definition only_adds :: "grant \<Rightarrow> bool" where
  "only_adds g \<longleftrightarrow> (\<forall>a a'. g a = Inr a' \<longrightarrow> keeps a a')"

named_theorems adds \<open>grants that only add binds, masks and variables\<close>

lemma keeps_foldl:
  assumes "\<And>a x. keeps a (f a x)"
  shows "keeps a (foldl f a xs)"
proof (induction xs arbitrary: a)
  case (Cons x xs)
  show ?case using keeps_trans [OF assms Cons.IH [of "f a x"]] by simp
qed simp

lemma keeps_foldl_then: "(\<And>a x. keeps a (f a x)) \<Longrightarrow> keeps a b \<Longrightarrow> keeps a (foldl f b xs)"
  by (rule keeps_trans [OF _ keeps_foldl])

lemma only_addsI: "(\<And>a a'. g a = Inr a' \<Longrightarrow> keeps a a') \<Longrightarrow> only_adds g"
  by (simp add: only_adds_def)

lemma only_addsD: "only_adds g \<Longrightarrow> g a = Inr a' \<Longrightarrow> keeps a a'"
  by (simp add: only_adds_def)

lemma adds_for: "(\<And>x. only_adds (f x)) \<Longrightarrow> only_adds (for_args f xs)"
proof (rule only_addsI)
  fix a a'
  assume f: "\<And>x. only_adds (f x)" and "for_args f xs a = Inr a'"
  from this(2) show "keeps a a'"
  proof (induction xs arbitrary: a)
    case (Cons x xs)
    then obtain b where "f x a = Inr b" "for_args f xs b = Inr a'" by (auto simp: rust_simps)
    with Cons.IH only_addsD [OF f] show ?case by (blast intro: keeps_trans)
  qed simp
qed

lemma adds_require: "only_adds (\<lambda>a. res_bind (require_dir h svc p) (\<lambda>p. Inr (ro_bind p p a)))"
  by (auto simp: only_adds_def rust_simps)

lemma adds_bind_dir [adds]: "only_adds (bind_dir_if_there h svc p)"
  by (auto simp: only_adds_def bind_dir_if_there_def split: option.splits FileType.splits)

lemma adds_hidraw [adds]: "only_adds (hidraw h svc)"
proof (rule only_addsI)
  fix a a'
  let ?b = "foldl (\<lambda>a p. dev_bind_try p p a) a (dev_nodes h (starts_with (str ''hidraw'')))"
  assume "hidraw h svc a = Inr a'"
  then have "keeps ?b a'" using only_addsD [OF adds_bind_dir] by (simp only: hidraw_def)
  moreover have "keeps a ?b" by (rule keeps_foldl) simp
  ultimately show "keeps a a'" by (rule keeps_trans [rotated])
qed

lemma adds_uinput [adds]: "only_adds (gamepad_uinput h)"
  by (auto simp: only_adds_def gamepad_uinput_def rust_simps)

lemma adds_gamepad [adds]: "only_adds (gamepad h hid uinput)"
proof (rule only_addsI)
  fix a a'
  assume "gamepad h hid uinput a = Inr a'"
  then obtain dev b c d where g:
    "for_args (\<lambda>p a. res_bind (require_dir h (str ''gamepad'') p) (\<lambda>p. Inr (ro_bind p p a)))
       [str ''/sys/class/input'', str ''/sys/devices''] (dev_bind dev dev a) = Inr b"
    "bind_dir_if_there h (str ''gamepad'') (str ''/run/udev'') b = Inr c"
    "(case hid of None \<Rightarrow> Inr c | Some (node, orig) \<Rightarrow> res_bind (hidraw h node (tag orig c)) (\<lambda>x. Inr (tag (ba_origin a) x))) = Inr d"
    "(if uinput then gamepad_uinput h d else Inr d) = Inr a'"
    by (auto simp only: gamepad_def Let_def rust_simps)
  have "keeps (dev_bind dev dev a) b" using only_addsD [OF adds_for [OF adds_require] g(1)] .
  moreover have "keeps b c" using only_addsD [OF adds_bind_dir g(2)] .
  moreover have "keeps c d"
  proof (cases hid)
    case None
    with g(3) show ?thesis by simp
  next
    case (Some v)
    obtain node orig where v: "v = (node, orig)" by (cases v)
    with Some g(3) obtain x where x: "hidraw h node (tag orig c) = Inr x" "d = tag (ba_origin a) x"
      by (auto simp: rust_simps)
    have "keeps (tag orig c) x" using only_addsD [OF adds_hidraw x(1)] .
    then have "keeps c x" by (rule keeps_trans [rotated]) simp
    with x(2) show ?thesis by simp
  qed
  moreover have "keeps d a'" using g(4) only_addsD [OF adds_uinput] by (auto split: if_splits)
  moreover have "keeps a (dev_bind dev dev a)" by simp
  ultimately show "keeps a a'" by (blast intro: keeps_trans)
qed

lemma adds_camera [adds]: "only_adds (camera services h nodes)"
proof (rule only_addsI)
  fix a a'
  assume c: "camera services h nodes a = Inr a'"
  show "keeps a a'"
  proof (cases nodes)
    case False
    with c show ?thesis by (simp add: camera_def split: if_splits)
  next
    case True
    with c have "camera_nodes h (\<not> list_ex is_gamepad services) a = Inr a'" by (simp add: camera_def split: if_splits)
    from only_addsD [OF adds_for [OF adds_bind_dir] this [unfolded camera_nodes_def]] show ?thesis
      by (rule keeps_trans [rotated]) (rule keeps_foldl, simp)
  qed
qed

lemma keeps_dev_binds: "keeps a (dev_binds dev ns a)"
  unfolding dev_binds_def by (rule keeps_foldl) simp

lemma keeps_mask_card: "keeps a (mask_card h nvidia drm a entry)"
  by (simp add: mask_card_def Let_def)

lemma adds_dri_sysfs: "only_adds (dri_sysfs h kms name)"
  by (rule only_addsI)
    (auto simp: dri_sysfs_def Let_def intro!: keeps_then(4) keeps_foldl_then keeps_mask_card split: option.splits if_splits)

lemma keeps_dri_rest: "keeps a (dri_rest h a)"
  unfolding dri_rest_def Let_def by (intro keeps_foldl_then) simp_all

lemma adds_dri [adds]: "only_adds (dri h kms)"
proof (rule only_addsI)
  fix a a'
  assume d: "dri h kms a = Inr a'"
  obtain render primary where n: "dri_nodes h (path_join DRI_DEV (str ''by-path'')) = (render, primary)" by force
  let ?b = "if kms then dev_binds DRI_DEV primary (dev_binds DRI_DEV render a) else dev_binds DRI_DEV render a"
  from d n obtain c e where g:
    "for_args (\<lambda>p a. res_bind (require_dir h (str ''dri'') p) (\<lambda>p. Inr (ro_bind p p a)))
       [str ''/sys/dev/char'', str ''/sys/devices/system/cpu''] ?b = Inr c"
    "for_args (dri_sysfs h kms) render c = Inr e" "a' = dri_rest h e"
    by (auto simp: dri_def Let_def rust_simps require_dir_def simp del: for_args.simps str_Cons split: if_splits)
  have "keeps a ?b" using keeps_dev_binds keeps_trans [OF keeps_dev_binds keeps_dev_binds] by simp
  moreover note only_addsD [OF adds_for [OF adds_require] g(1)] only_addsD [OF adds_for [OF adds_dri_sysfs] g(2)]
  moreover have "keeps e a'" unfolding g(3) by (rule keeps_dri_rest)
  ultimately show "keeps a a'" by (blast intro: keeps_trans)
qed

lemma adds_sound [adds]: "only_adds (pipewire env h cx)" "only_adds (pulseaudio env h cx)"
  by (auto simp: only_adds_def pipewire_def pulseaudio_def rust_simps Let_def)

lemma adds_buses [adds]:
  "only_adds (a11y env cx)" "only_adds (portals env h cx)"
  by (auto simp: only_adds_def a11y_def portals_def rust_simps Let_def split: if_splits)

lemma adds_wayland [adds]: "only_adds (wayland env h claim plan)"
proof (rule only_addsI)
  fix a a'
  assume w: "wayland env h claim plan a = Inr a'"
  show "keeps a a'"
  proof (cases plan)
    case None
    with w show ?thesis by (auto simp: wayland_def rust_simps Let_def)
  next
    case (Some x)
    with w show ?thesis by (cases x) (auto simp: wayland_def rust_simps Let_def)
  qed
qed

lemma adds_x11_host [adds]: "only_adds (x11_host env h)"
  by (auto simp: only_adds_def x11_host_def rust_simps Let_def split: option.splits)

lemma adds_shares [adds]:
  "only_adds (home_share env h p mode optional)" "only_adds (etc_share h name)"
proof -
  show "only_adds (home_share env h p mode optional)"
    by (rule only_addsI) (auto dest!: home_share_Inr)
  show "only_adds (etc_share h name)"
    by (rule only_addsI) (auto dest!: etc_share_Inr)
qed

text \<open>The two grants that touch more than binds, masks and variables: \<open>network "host"\<close> gives the
  network namespace back, and the first nested \<open>x11\<close> names the server the supervisor starts.\<close>

fun shares_net :: "Service \<Rightarrow> bool" where
  "shares_net (Network cfg) = (nc_mode cfg = NetHost)"
| "shares_net _ = False"

fun nested_server :: "Service \<Rightarrow> (bytes list \<times> bytes option) option" where
  "nested_server (X11 (X11Nested n)) = Some (xwayland_argv n, nx_wm n)"
| "nested_server _ = None"

definition server_of :: "BwrapArgs \<Rightarrow> (bytes list \<times> bytes option) option" where
  "server_of a = map_option snd (ba_x11 a)"

definition grants_step :: "Service list \<Rightarrow> BwrapArgs \<Rightarrow> BwrapArgs \<Rightarrow> bool" where
  "grants_step ss a a' \<longleftrightarrow> args_ok a' \<and> net_shared a' = (net_shared a \<or> list_ex shares_net ss) \<and>
     ba_skeleton a' = ba_skeleton a \<and> ba_runtime_dir a' = ba_runtime_dir a \<and> ba_ctty a' = ba_ctty a \<and>
     server_of a' = (case server_of a of Some x \<Rightarrow> Some x | None \<Rightarrow> find_map nested_server ss)"

lemma grants_step_keeps: "args_ok a \<Longrightarrow> keeps a a' \<Longrightarrow> grants_step [] a a'"
  by (simp add: grants_step_def keeps_ok keeps_net) (simp add: keeps_def server_of_def split: option.split)

lemma find_map_append: "find_map f (xs @ ys) = (case find_map f xs of Some y \<Rightarrow> Some y | None \<Rightarrow> find_map f ys)"
  by (induction xs) (auto split: option.splits)

lemma grants_step_trans: "grants_step xs a b \<Longrightarrow> grants_step ys b c \<Longrightarrow> grants_step (xs @ ys) a c"
  by (auto simp: grants_step_def find_map_append split: option.splits)

lemma grants_step_then: "grants_step xs a b \<Longrightarrow> keeps b c \<Longrightarrow> grants_step xs a c"
  using grants_step_trans [of xs a b "[]" c] grants_step_keeps [of b c] by (simp add: grants_step_def)

lemma grants_step_plain: "grants_step [] a b \<Longrightarrow> \<not> shares_net s \<Longrightarrow> nested_server s = None \<Longrightarrow> grants_step [s] a b"
  by (simp add: grants_step_def split: option.split)

lemma network_step:
  assumes "network env h cfg a = Inr a'" and "args_ok a"
  shows "grants_step [Network cfg] a a'"
proof -
  let ?b = "if nc_mode cfg = NetHost then share_net a else a"
  have b: "grants_step [Network cfg] a ?b"
    using assms(2) by (simp add: grants_step_def share_net_ok server_of_def split: option.split)
  have env: "keeps x (foldl (\<lambda>a (name, v). setenv name v a) (ro_bind program NET_PROXY_INSIDE x) pairs)" for x program pairs
    by (rule keeps_foldl_then) auto
  from assms(1) have "keeps ?b a'"
    unfolding network_def Let_def
    by (cases "resolv_conf cfg"; cases "nc_allow_hosts cfg = []")
      (auto simp: rust_simps split: if_splits prod.splits intro: keeps_trans [OF _ env])
  with b show ?thesis by (rule grants_step_then)
qed

lemma x11_step:
  assumes "x11 env h mode a = Inr a'" and "args_ok a"
  shows "grants_step [X11 mode] a a'"
proof (cases mode)
  case (X11Nested n)
  let ?b = "setenv (str ''DISPLAY'') (str '':0'') a"
  from assms(1) X11Nested have a': "a' = x11_server (xwayland_argv n) (nx_wm n) ?b"
    by (auto simp: x11_def x11_nested_def rust_simps)
  have b: "grants_step [] a ?b" using assms(2) by (simp add: grants_step_keeps)
  then have "args_ok ?b" by (simp add: grants_step_def)
  then have "grants_step [X11 mode] ?b a'"
    by (auto simp: X11Nested a' grants_step_def server_of_def x11_server_def args_ok_def net_shared_def split: option.split)
  with grants_step_trans [OF b] show ?thesis by fastforce
next
  case X11Host
  with assms show ?thesis
    using only_addsD [OF adds_x11_host] by (auto simp: x11_def intro!: grants_step_plain grants_step_keeps)
qed

lemma service_step:
  assumes "apply_service services env h cx s a = Inr a'" and "args_ok a"
  shows "grants_step [s] a a'"
proof (cases "(\<exists>cfg. s = Network cfg) \<or> (\<exists>mode. s = X11 mode)")
  case True
  with assms network_step x11_step show ?thesis by auto
next
  case False
  have "keeps a a'"
    using assms(1) False
    by (cases s) (auto dest: adds [THEN only_addsD] simp: app_runtime_def dbus_socket_def system_bus_socket_def input_method_def Let_def)
  with assms(2) have "grants_step [] a a'" by (rule grants_step_keeps)
  with False show ?thesis by (cases s) (auto intro: grants_step_plain)
qed

lemma services_step:
  "apply_services services env h cx i rest a = Inr a' \<Longrightarrow> args_ok a \<Longrightarrow> grants_step rest a a'"
proof (induction rest arbitrary: i a)
  case Nil
  then show ?case using grants_step_keeps [of a a] by simp
next
  case (Cons s rest)
  then obtain b where b: "apply_service services env h cx s (tag (FromService i) a) = Inr b"
      "apply_services services env h cx (i + 1) rest b = Inr a'" by (auto simp: rust_simps)
  have t: "grants_step [] a (tag (FromService i) a)" using Cons.prems(2) by (simp add: grants_step_keeps)
  then have "grants_step [s] (tag (FromService i) a) b"
    using service_step [OF b(1)] by (simp add: grants_step_def)
  with t have 1: "grants_step [s] a b" using grants_step_trans by fastforce
  then have "args_ok b" by (simp add: grants_step_def)
  with Cons.IH [OF b(2)] grants_step_trans [OF 1] show ?case by simp
qed

lemma adds_tagged: "only_adds g \<Longrightarrow> g (tag orig a) = Inr a' \<Longrightarrow> keeps a a'"
  using keeps_trans [OF keeps_call(10)] by (blast dest: only_addsD)

lemma pads_add: "only_adds (apply_pads services h)"
proof (rule only_addsI)
  fix a a'
  assume p: "apply_pads services h a = Inr a'"
  show "keeps a a'"
  proof (cases "find_indexed as_gamepad 0 services")
    case None
    with p show ?thesis
      using adds_tagged [OF adds_hidraw] by (cases "hidraw_node services None") (auto simp: apply_pads_def Let_def)
  next
    case (Some v)
    obtain i hid uinput where "v = (i, hid, uinput)" by (cases v)
    with Some p have "gamepad h (hidraw_node services (Some v)) uinput (tag (FromService i) a) = Inr a'"
      by (simp add: apply_pads_def Let_def)
    then show ?thesis by (rule adds_tagged [OF adds_gamepad])
  qed
qed

lemma keeps_bind_placed: "keeps a (bind_placed a s)"
  by (cases s) (simp add: bind_placed_def)

lemma apply_all_step:
  assumes "apply_all services env h cx a = Inr a'" and "args_ok a"
  shows "grants_step services a a'"
proof -
  from assms(1) obtain shares b c where g: "apply_services services env h cx 0 services a = Inr b"
      "apply_pads services h b = Inr c" "a' = foldl bind_placed c shares"
    by (auto simp: apply_all_def rust_simps)
  have "keeps b a'"
    using only_addsD [OF pads_add g(2)] keeps_foldl [of bind_placed c shares] keeps_bind_placed keeps_trans
    unfolding g(3) by blast
  with services_step [OF g(1) assms(2)] show ?thesis by (rule grants_step_then)
qed

end
