(* ===== verification/Core_Launch.thy ===== *)
theory Core_Launch
  imports Core_Grants Init_Supervisor
begin

text \<open>
  What the launcher hands bubblewrap (\<^verbatim>\<open>launcher.rs\<close>): the argument vector of an instance built from
  its configuration, the ones of its sidecars, the allocator of a dry run, and the form in which the
  options reach bubblewrap.  libseccomp is a parameter, as in the filter's own theory.  Messages on the
  standard error and the processes themselves are not modelled.  A panic is \<open>None\<close>.
\<close>

section \<open>Instances\<close>

record Instance =
  in_name :: bytes
  in_dir :: path
  in_config :: InstanceConfig
  in_config_version :: "u32 option"

definition inst_home :: "Instance \<Rightarrow> path" where
  "inst_home inst = path_join (in_dir inst) (str ''home'')"

text \<open>libseccomp and the architecture bubbler is built for.\<close>

record SeccompLib =
  sl_refuses :: "ScmpCall list \<Rightarrow> ScmpCall \<Rightarrow> bytes option"
  sl_number :: "bytes \<Rightarrow> int option"
  sl_exports :: "ScmpCall list \<Rightarrow> bytes + bytes"
  sl_x86_64 :: bool
  sl_arch :: bytes

definition ARCHES :: "SeccompLib \<Rightarrow> bytes" where
  "ARCHES lib = (if sl_x86_64 lib then str ''x86_64 + i386'' else sl_arch lib)"

section \<open>Allocators\<close>

definition data_name :: "bytes \<Rightarrow> path \<Rightarrow> bytes" where
  "data_name pre dest =
     pre @ join (str ''-'') (List.map_filter (\<lambda>c. case c of Normal n \<Rightarrow> Some n | _ \<Rightarrow> None) (components dest))"

definition SIDECAR_PREFIX :: bytes where
  "SIDECAR_PREFIX = str ''proxy-''"

record DryRunAlloc =
  da_next :: u32
  da_dir :: path
  da_prefix :: bytes

definition dry_new :: "path \<Rightarrow> DryRunAlloc" where
  "dry_new dir = \<lparr>da_next = 2, da_dir = dir, da_prefix = []\<rparr>"

definition dry_sidecar :: "path \<Rightarrow> DryRunAlloc" where
  "dry_sidecar dir = (dry_new dir)\<lparr>da_prefix := SIDECAR_PREFIX\<rparr>"

definition bump :: "DryRunAlloc \<Rightarrow> (nat + bytes) \<times> DryRunAlloc" where
  "bump d = (let d = d\<lparr>da_next := da_next d + 1\<rparr> in (Inr (dec_digits (unat (da_next d))), d))"

fun dry_run :: "DryRunAlloc allocator" where
  "dry_run (AllocFile dest content) d = (Inr (path_join (da_dir d) (data_name (da_prefix d) dest)), d)"
| "dry_run (AllocData content) d = bump d"
| "dry_run AllocInitSocket d = bump d"
| "dry_run AllocReadyPipe d = bump d"
| "dry_run AllocListener d = bump d"
| "dry_run AllocInfoPipe d = bump d"
| "dry_run AllocBlockPipe d = bump d"

section \<open>The sandbox's argv\<close>

fun as_network :: "Service \<Rightarrow> NetworkConfig option" where
  "as_network (Network cfg) = Some cfg"
| "as_network _ = None"

definition network_of :: "Service list \<Rightarrow> NetworkConfig option" where
  "network_of services = find_map as_network services"

fun as_wayland :: "Service \<Rightarrow> WaylandMode option" where
  "as_wayland (Wayland mode) = Some mode"
| "as_wayland _ = None"

definition wayland_mode :: "Service list \<Rightarrow> WaylandMode option" where
  "wayland_mode services = find_map as_wayland services"

definition resolve_command :: "Instance \<Rightarrow> bytes list option \<Rightarrow> LaunchError + bytes list" where
  "resolve_command inst command =
     (case command of
        Some (c # cs) \<Rightarrow> Inr (c # cs)
      | _ \<Rightarrow> ok_or NoCommand (ic_command (in_config inst)))"

definition compile_with :: "SeccompLib \<Rightarrow> bool \<Rightarrow> RuleSet \<Rightarrow> LaunchError + bytes option" where
  "compile_with lib log s =
     (case compile (sl_refuses lib) (sl_number lib) (sl_exports lib) (sl_x86_64 lib) log s of
        Inl e \<Rightarrow> Inl (SeccompFailed e)
      | Inr p \<Rightarrow> Inr p)"

definition apply_seccomp :: "SeccompLib \<Rightarrow> RuleSet option \<Rightarrow> Env \<Rightarrow> grant" where
  "apply_seccomp lib s env a =
     (case s of
        None \<Rightarrow> Inr a
      | Some s \<Rightarrow>
          res_bind (compile_with lib (env_seccomp_log env) s) (\<lambda>p.
            Inr (case p of None \<Rightarrow> a | Some program \<Rightarrow> add_seccomp program (ARCHES lib) a)))"

fun is_isolated_network :: "Service \<Rightarrow> bool" where
  "is_isolated_network (Network cfg) = is_isolated cfg"
| "is_isolated_network _ = False"

text \<open>The node that makes the sandbox wait before it starts its command.\<close>

definition waits_for :: "Service list \<Rightarrow> Plan option \<Rightarrow> nat option" where
  "waits_for services p =
     (case (if (case p of Some pl \<Rightarrow> bp_portals pl | None \<Rightarrow> False) then position is_portals services else None) of
        Some i \<Rightarrow> Some i
      | None \<Rightarrow> position is_isolated_network services)"

definition service_ctx :: "Env \<Rightarrow> Instance \<Rightarrow> path \<Rightarrow> ServiceCtx" where
  "service_ctx env inst init =
     (let services = ic_services (in_config inst); dir = instance_runtime_dir env (in_name inst) in
      \<lparr>cx_instance_runtime = dir, cx_dbus = bus_plan services (in_name inst),
       cx_wayland = map_option (\<lambda>m. wayland_plan m dir) (wayland_mode services), cx_init_bin = init\<rparr>)"

text \<open>The baseline with what the configuration changes of it.\<close>

definition userns_args :: "Env \<Rightarrow> Instance \<Rightarrow> Host \<Rightarrow> BwrapArgs" where
  "userns_args env inst h =
     (let a = baseline env (inst_home inst) h in
      if ic_userns (in_config inst) = UsernsDisable then disable_userns (tag FromUserns a) else a)"

definition prepared_args :: "Env \<Rightarrow> Instance \<Rightarrow> bool \<Rightarrow> Host \<Rightarrow> Plan option \<Rightarrow> BwrapArgs option" where
  "prepared_args env inst tty h p =
     (let cfg = in_config inst; a = userns_args env inst h in
      Option.bind (if ic_etc cfg = EtcHost then bind_host_etc h (tag FromEtc a) else Some a) (\<lambda>a.
      Option.bind (case ic_tmp cfg of Some cap \<Rightarrow> tmp_size cap (tag FromTmp a) | None \<Rightarrow> Some a) (\<lambda>a.
        let a = (if tty then set_ctty a else a) in
        Some (case waits_for (ic_services cfg) p of
                Some i \<Rightarrow> block_until_released (tag (FromService i) a)
              | None \<Rightarrow> a))))"

text \<open>A fallible call that may panic, followed by the next one.\<close>

definition then_args :: "(LaunchError + 'a) option \<Rightarrow> ('a \<Rightarrow> (LaunchError + 'b) option) \<Rightarrow> (LaunchError + 'b) option" where
  "then_args r f = Option.bind r (\<lambda>r. case r of Inl e \<Rightarrow> Some (Inl e) | Inr x \<Rightarrow> f x)"

definition build_args_on ::
    "SeccompLib \<Rightarrow> Env \<Rightarrow> Instance \<Rightarrow> bytes list option \<Rightarrow> bool \<Rightarrow> Host \<Rightarrow> (LaunchError + BwrapArgs \<times> bytes list) option" where
  "build_args_on lib env inst command tty h =
     (let cfg = in_config inst; services = ic_services cfg in
      then_args (Some (resolve_command inst command)) (\<lambda>command.
      then_args (Some (locate_init env h)) (\<lambda>init.
      let cx = service_ctx env inst init in
      then_args (map_option Inr (prepared_args env inst tty h (cx_dbus cx))) (\<lambda>a.
      then_args (Some (apply_seccomp lib (ruleset_with (sl_x86_64 lib) (ic_seccomp cfg)) env (tag FromSeccomp a))) (\<lambda>a.
      then_args (Some (apply_all services env h cx a)) (\<lambda>a.
      then_args (apply_shares services (ic_shares cfg) env h a) (\<lambda>a.
      then_args (Some (apply_env 0 (ic_env cfg) a)) (\<lambda>a.
        Some (Inr (bind_init init (tag FromInit a), command))))))))))"

definition build_argv_on ::
    "SeccompLib \<Rightarrow> Env \<Rightarrow> Instance \<Rightarrow> bytes list option \<Rightarrow> 's allocator \<Rightarrow> bool \<Rightarrow> Host \<Rightarrow> 's \<Rightarrow> ((LaunchError + Argv) \<times> 's) option" where
  "build_argv_on lib env inst command alloc tty h s =
     map_option (\<lambda>r. case r of Inl e \<Rightarrow> (Inl e, s) | Inr (a, command) \<Rightarrow> Core_Bwrap.finish command alloc a s)
       (build_args_on lib env inst command tty h)"

definition explain_on ::
    "SeccompLib \<Rightarrow> Env \<Rightarrow> Instance \<Rightarrow> bytes list option \<Rightarrow> bool \<Rightarrow> Host \<Rightarrow> (LaunchError + Explained list) option" where
  "explain_on lib env inst command tty h =
     map_option (\<lambda>r. case r of
         Inl e \<Rightarrow> Inl e
       | Inr (a, command) \<Rightarrow> fst (finish_explained command dry_run a (dry_new (instance_runtime_dir env (in_name inst)))))
       (build_args_on lib env inst command tty h)"

text \<open>The part of a run between the sidecars and the spawn: the operations, the sweep over their
  destinations, and the argv.\<close>

definition run_argv ::
    "SeccompLib \<Rightarrow> Env \<Rightarrow> Instance \<Rightarrow> bytes list option \<Rightarrow> 's allocator \<Rightarrow> bool \<Rightarrow> Host \<Rightarrow> 's \<Rightarrow> ((LaunchError + Argv) \<times> 's) option" where
  "run_argv lib env inst command alloc tty h s =
     map_option (\<lambda>r. case r of
         Inl e \<Rightarrow> (Inl e, s)
       | Inr (a, command) \<Rightarrow>
           (case finish_ops command alloc a s of
              (Inl e, s1) \<Rightarrow> (Inl e, s1)
            | (Inr f, s1) \<Rightarrow>
                (case sweep_destinations (fi_ops f) env h of
                   Inl e \<Rightarrow> (Inl e, s1)
                 | Inr _ \<Rightarrow> (Inr (into_argv f), s1))))
       (build_args_on lib env inst command tty h)"

section \<open>The sidecars' argvs\<close>

definition alloc_bind :: "(LaunchError + 'a) \<times> 's \<Rightarrow> ('a \<Rightarrow> 's \<Rightarrow> (LaunchError + 'b) \<times> 's) \<Rightarrow> (LaunchError + 'b) \<times> 's" where
  "alloc_bind r f = (case r of (Inl e, s) \<Rightarrow> (Inl e, s) | (Inr x, s) \<Rightarrow> f x s)"

text \<open>Every sidecar has the default filter: an instance's own \<open>seccomp\<close> node never reaches it.\<close>

definition sidecar_seccomp :: "SeccompLib \<Rightarrow> Env \<Rightarrow> grant" where
  "sidecar_seccomp lib env a = apply_seccomp lib (Some (default_set (sl_x86_64 lib))) env (tag FromSeccomp a)"

definition REPORT_FD :: bytes where
  "REPORT_FD = str ''BUBBLER_PW_REPORT_FD''"

definition REMOTE_INSIDE :: path where
  "REMOTE_INSIDE = str ''/run/pipewire-0''"

definition PULSE_CONFIG_INSIDE :: path where
  "PULSE_CONFIG_INSIDE = str ''/tmp/cfg''"

record PwContext =
  pc_instance_runtime :: path
  pc_instance :: bytes
  pc_run_id :: bytes
  pc_microphone :: bool

definition pw_context_argv ::
    "SeccompLib \<Rightarrow> Env \<Rightarrow> PwContext \<Rightarrow> Host \<Rightarrow> 's allocator \<Rightarrow> 's \<Rightarrow> (LaunchError + Argv) \<times> 's" where
  "pw_context_argv lib env cx h alloc s =
     alloc_bind (call_alloc alloc AllocReadyPipe s) (\<lambda>report s.
     alloc_bind (locate_init env h, s) (\<lambda>init s.
     alloc_bind (sidecar_seccomp lib env
         (pw_context_baseline (pw_host_socket (env_runtime_dir env)) (pw_dir (pc_instance_runtime cx)) h), s) (\<lambda>a s.
       let a = ro_bind init HOLDER_INSIDE (tag FromCommand a);
           a = setenv REPORT_FD report (setenv (str ''XDG_RUNTIME_DIR'') (env_runtime_dir env) a)
       in finish_plain (pw_command (pw_properties (pc_instance cx) (pc_run_id cx) (pc_microphone cx))) alloc a s)))"

definition pw_pulse_argv :: "SeccompLib \<Rightarrow> Env \<Rightarrow> path \<Rightarrow> Host \<Rightarrow> 's allocator \<Rightarrow> 's \<Rightarrow> (LaunchError + Argv) \<times> 's" where
  "pw_pulse_argv lib env instance_runtime h alloc s =
     alloc_bind (sidecar_seccomp lib env
         (pw_pulse_baseline (pw_socket instance_runtime) REMOTE_INSIDE (pulse_dir instance_runtime) h), s) (\<lambda>a s.
       let a = setenv (str ''XDG_RUNTIME_DIR'') (str ''/tmp'') (tag FromCommand a);
           a = setenv (str ''PIPEWIRE_CONFIG_DIR'') PULSE_CONFIG_INSIDE (setenv (str ''PIPEWIRE_REMOTE'') REMOTE_INSIDE a)
       in finish_plain pulse_command alloc a s)"

definition node_origin :: "nat option \<Rightarrow> Origin" where
  "node_origin n = (case n of Some i \<Rightarrow> FromService i | None \<Rightarrow> FromCommand)"

definition proxy_args ::
    "SeccompLib \<Rightarrow> Env \<Rightarrow> Plan \<Rightarrow> HostBuses \<Rightarrow> path \<Rightarrow> Host \<Rightarrow> 's allocator \<Rightarrow> 's \<Rightarrow>
     (LaunchError + BwrapArgs \<times> (bytes \<times> Origin) list) \<times> 's" where
  "proxy_args lib env p hb dir h alloc s =
     alloc_bind (call_alloc alloc AllocReadyPipe s) (\<lambda>ready s.
       let program = proxy_program env;
           command = map (\<lambda>(arg, node). (arg, node_origin node)) (proxy_command_nodes program p hb dir (env_dbus_log env) ready)
       in
       alloc_bind (sidecar_seccomp lib env (proxy_baseline (hb_session hb) (hb_system hb) (hb_a11y hb) (socket_dir dir) h), s) (\<lambda>a s.
         let a = ro_bind_data (bp_flatpak_info p) FLATPAK_INFO (tag FromIdentity a) in
         if env_proxy_override env \<noteq> None
         then
           let a = tag FromCommand a in
           alloc_bind (require_file h (str ''dbus'') program, s) (\<lambda>program s. (Inr (ro_bind program program a, command), s))
         else (Inr (a, command), s)))"

definition proxy_argv ::
    "SeccompLib \<Rightarrow> Env \<Rightarrow> Plan \<Rightarrow> HostBuses \<Rightarrow> path \<Rightarrow> Host \<Rightarrow> 's allocator \<Rightarrow> 's \<Rightarrow> (LaunchError + Argv) \<times> 's" where
  "proxy_argv lib env p hb dir h alloc s =
     alloc_bind (proxy_args lib env p hb dir h alloc s) (\<lambda>(a, command). finish_plain (map fst command) alloc a)"

fun is_wayland :: "Service \<Rightarrow> bool" where
  "is_wayland (Wayland _) = True"
| "is_wayland _ = False"

definition wayland_node :: "Service list \<Rightarrow> nat option" where
  "wayland_node services = position is_wayland services"

definition wl_proxy_plan :: "Env \<Rightarrow> Instance \<Rightarrow> ProxyPlan option" where
  "wl_proxy_plan env inst =
     (case wayland_mode (ic_services (in_config inst)) of
        Some (WlSandboxed clipboard) \<Rightarrow> Some (context_plan (instance_runtime_dir env (in_name inst)) clipboard)
      | _ \<Rightarrow> None)"

definition wl_proxy_args ::
    "SeccompLib \<Rightarrow> Env \<Rightarrow> ProxyPlan \<Rightarrow> nat \<Rightarrow> Host \<Rightarrow> 's allocator \<Rightarrow> 's \<Rightarrow>
     (LaunchError + BwrapArgs \<times> (bytes \<times> Origin) list) \<times> 's" where
  "wl_proxy_args lib env p node h alloc s =
     alloc_bind (call_alloc alloc AllocListener s) (\<lambda>listen s.
     alloc_bind (call_alloc alloc AllocReadyPipe s) (\<lambda>ready s.
     alloc_bind (locate_proxy env h, s) (\<lambda>(program, found) s.
       let command = map (\<lambda>(arg, node). (arg, node_origin node)) (wl_command_nodes p program node listen ready) in
       alloc_bind (sidecar_seccomp lib env (wl_proxy_baseline (pp_upstream p) h), s) (\<lambda>a s.
         let a = (if found \<noteq> Installed then ro_bind program program (tag FromCommand a) else a) in
         (Inr (a, command), s)))))"

definition wl_proxy_argv ::
    "SeccompLib \<Rightarrow> Env \<Rightarrow> ProxyPlan \<Rightarrow> nat \<Rightarrow> Host \<Rightarrow> 's allocator \<Rightarrow> 's \<Rightarrow> (LaunchError + Argv) \<times> 's" where
  "wl_proxy_argv lib env p node h alloc s =
     alloc_bind (wl_proxy_args lib env p node h alloc s) (\<lambda>(a, command). finish_plain (map fst command) alloc a)"

definition explain_wayland_proxy :: "SeccompLib \<Rightarrow> Env \<Rightarrow> Instance \<Rightarrow> Host \<Rightarrow> LaunchError + Explained list option" where
  "explain_wayland_proxy lib env inst h =
     (case (wl_proxy_plan env inst, wayland_node (ic_services (in_config inst))) of
        (Some p, Some node) \<Rightarrow>
          (case alloc_bind (wl_proxy_args lib env p node h dry_run (dry_sidecar (instance_runtime_dir env (in_name inst))))
                  (\<lambda>(a, command). finish_plain_explained command dry_run a) of
             (Inl e, _) \<Rightarrow> Inl e
           | (Inr ops, _) \<Rightarrow> Inr (Some ops))
      | _ \<Rightarrow> Inr None)"

fun is_network :: "Service \<Rightarrow> bool" where
  "is_network (Network _) = True"
| "is_network _ = False"

definition network_node :: "Service list \<Rightarrow> nat option" where
  "network_node services = position is_network services"

fun chunks_of_two :: "'a list \<Rightarrow> 'a list list" where
  "chunks_of_two [] = []"
| "chunks_of_two [x] = [[x]]"
| "chunks_of_two (x # y # rest) = [x, y] # chunks_of_two rest"

definition explain_net_proxy :: "Env \<Rightarrow> Instance \<Rightarrow> Host \<Rightarrow> LaunchError + Explained list option" where
  "explain_net_proxy env inst h =
     (let services = ic_services (in_config inst) in
      case (network_of services, network_node services) of
        (Some cfg, Some node) \<Rightarrow>
          if nc_allow_hosts cfg = [] then Inr None
          else
            res_bind (net_proxy_program env h) (\<lambda>(program, _).
              Inr (Some (\<lparr>ex_origin = FromCommand, ex_args = [NET_PROXY_INSIDE],
                          ex_note = Some (str ''bound read-only from '' @ display program)\<rparr> #
                map (\<lambda>pair. \<lparr>ex_origin = FromService node, ex_args = pair, ex_note = None\<rparr>)
                  (chunks_of_two (net_proxy_argv cfg (str ''<ready-fd>'') (str ''2'') (env_net_proxy_log env))))))
      | _ \<Rightarrow> Inr None)"

section \<open>Handing the options over\<close>

text \<open>The bytes behind \<^verbatim>\<open>--args\<close>, refused when an option holds the separator, and the command line of
  bubblewrap given the number of the descriptor that holds them.\<close>

definition options_data :: "bytes list \<Rightarrow> bytes option" where
  "options_data options = (if list_ex (\<lambda>w. 0 \<in> set w) options then None else Some (concat (map (\<lambda>w. w @ [0]) options)))"

definition bwrap_command :: "bytes \<Rightarrow> Argv \<Rightarrow> bytes list" where
  "bwrap_command options_fd v = [str ''--args'', options_fd] @ argv_command v"

text \<open>Split at the separator, the bytes are the options again.\<close>

lemma options_read_back: "options_data options = Some d \<Longrightarrow> split_on 0 d = options @ [[]]"
proof (induction options arbitrary: d)
  case Nil
  then show ?case by (simp add: options_data_def)
next
  case (Cons w ws)
  then have "0 \<notin> set w" "options_data ws = Some (concat (map (\<lambda>w. w @ [0]) ws))" "d = w @ 0 # concat (map (\<lambda>w. w @ [0]) ws)"
    by (auto simp: options_data_def split: if_splits)
  with Cons.IH show ?case by (simp add: split_on_append_sep)
qed

text \<open>The names of generated files: two destinations can share one, but none of those the launcher generates do.\<close>

lemma data_name_collides: "data_name pre (str ''/etc/a-b'') = data_name pre (str ''/etc/a/b'')"
  by (simp add: data_name_def components_def is_absolute_def slash_def body_components_def empty_piece_def piece_def List.map_filter_def)

definition GENERATED :: "path list" where
  "GENERATED =
     [str ''/etc/passwd'', str ''/etc/group'', str ''/etc/passwd-'', str ''/etc/passwd+'', str ''/etc/group-'', str ''/etc/group+'',
      str ''/etc/subuid'', str ''/etc/subgid'', str ''/etc/resolv.conf'', FLATPAK_INFO]"

lemma generated_names_apart: "distinct (map (data_name pre) GENERATED)"
  by (simp add: GENERATED_def FLATPAK_INFO_def data_name_def components_def is_absolute_def slash_def body_components_def empty_piece_def
      piece_def List.map_filter_def)

section \<open>Allocators that always answer\<close>

text \<open>What a finishing call relies on to succeed; the dry run's allocator provides it.\<close>

locale answering_allocator =
  fixes alloc :: "'s allocator"
  assumes answers: "\<exists>w s'. alloc c s = (Inr w, s')"
begin

lemma call_answers: "\<exists>w s'. call_alloc alloc c s = (Inr w, s')"
  using answers [of c s] by (auto simp: call_alloc_def)

lemma resolve_answers: "\<exists>r s'. resolve_item alloc i s = (Inr r, s')"
proof (cases "it_kind i")
  case (KData content dest)
  with call_answers [of "AllocFile dest content" s] show ?thesis by (auto simp: resolve_item_def)
next
  case KInfoFd
  with call_answers [of AllocInfoPipe s] show ?thesis by (auto simp: resolve_item_def)
next
  case KBlockFd
  with call_answers [of AllocBlockPipe s] show ?thesis by (auto simp: resolve_item_def)
next
  case (KSeccomp program arches)
  with call_answers [of "AllocData program" s] show ?thesis by (auto simp: resolve_item_def)
qed (auto simp: resolve_item_def)

lemma emit_answers: "\<exists>out s'. emit_items alloc items s = (Inr out, s')"
proof (induction items arbitrary: s)
  case (Cons i rest)
  obtain args remark s1 where r: "resolve_item alloc i s = (Inr (args, remark), s1)" using resolve_answers [of i s] by auto
  from Cons.IH [of s1] r show ?case by auto
qed simp

lemma finish_answers: "\<exists>f s'. finish_ops command alloc a s = (Inr f, s')"
proof -
  obtain out s1 where "emit_items alloc (all_items a) s = (Inr out, s1)" using emit_answers by blast
  with call_answers [of AllocInitSocket s1] show ?thesis by (auto simp: finish_ops_def emit_def)
qed

end

interpretation dry: answering_allocator dry_run
proof
  show "\<exists>w s'. dry_run c s = (Inr w, s')" for c s by (cases c) (simp_all add: bump_def Let_def)
qed

text \<open>So an explanation fails exactly where building does.\<close>

lemma explain_fails_iff: "explain_on lib env inst command tty h = Some (Inl e) \<longleftrightarrow> build_args_on lib env inst command tty h = Some (Inl e)"
proof -
  have "fst (finish_explained cmd dry_run a d) \<noteq> Inl e" for cmd a d
    using dry.finish_answers [of cmd a d] by (auto simp: finish_explained_def)
  then show ?thesis
    by (cases "build_args_on lib env inst command tty h"; cases "the (build_args_on lib env inst command tty h)") (auto simp: explain_on_def)
qed

section \<open>Building never panics\<close>

lemma then_args_Inr: "then_args r f = Some (Inr y) \<longleftrightarrow> (\<exists>x. r = Some (Inr x) \<and> f x = Some (Inr y))"
  by (cases r) (auto simp: then_args_def split: sum.splits)

lemma then_args_total:
  assumes "r = Some r'" and "\<And>x. r' = Inr x \<Longrightarrow> \<exists>y. f x = Some y"
  shows "\<exists>y. then_args r f = Some y"
  using assms by (cases r') (auto simp: then_args_def)

text \<open>What the preparation keeps of the baseline.\<close>

definition fresh :: "BwrapArgs \<Rightarrow> bool" where
  "fresh a \<longleftrightarrow> args_ok a \<and> \<not> net_shared a \<and> \<not> ba_ctty a \<and> ba_x11 a = None"

lemma fresh_calls:
  assumes "fresh a"
  shows "fresh (tag orig a)" "fresh (disable_userns a)" "fresh (block_until_released a)"
    "list_all is_mount sk \<Longrightarrow> fresh (a\<lparr>ba_skeleton := sk\<rparr>)"
proof -
  from assms have a: "args_ok a" by (simp add: fresh_def)
  show "fresh (disable_userns a)" "fresh (block_until_released a)"
    using assms ns_calls [OF a] by (simp_all add: fresh_def) (simp_all add: disable_userns_def block_until_released_def)
  show "fresh (tag orig a)" using assms by (simp add: fresh_def args_ok_def net_shared_def tag_def)
  show "list_all is_mount sk \<Longrightarrow> fresh (a\<lparr>ba_skeleton := sk\<rparr>)"
    using assms by (simp add: fresh_def args_ok_def net_shared_def)
qed

lemma baseline_fresh: "fresh (baseline env home h)"
  using baseline_ok [of env home h] baseline_net [of env home h] by (simp add: fresh_def baseline_def empty_args_def)

lemma fresh_userns_skeleton [simp]: "ba_skeleton (disable_userns a) = ba_skeleton a" "ba_skeleton (tag orig a) = ba_skeleton a"
  by (simp_all add: disable_userns_def tag_def)

lemma userns_args_ok: "fresh (userns_args env inst h)"
    "ba_skeleton (userns_args env inst h) = baseline_skeleton env (inst_home inst) h"
  using fresh_calls [OF baseline_fresh] fresh_calls(2) [OF fresh_calls(1) [OF baseline_fresh]]
  by (simp_all add: userns_args_def Let_def baseline_fresh) (simp_all add: baseline_def)

lemma tmp_in_baseline: "list_ex (sized_tmpfs (str ''/tmp'')) (baseline_skeleton env home h)"
  using etc_kept(2) [of home h] by (simp add: baseline_skeleton_parts)

lemma etc_step:
  "\<exists>a. (if ic_etc (in_config inst) = EtcHost then bind_host_etc h (tag FromEtc (userns_args env inst h)) else Some (userns_args env inst h)) =
     Some a \<and> fresh a \<and> list_ex (sized_tmpfs (str ''/tmp'')) (ba_skeleton a)"
proof (cases "ic_etc (in_config inst) = EtcHost")
  case False
  then show ?thesis using userns_args_ok tmp_in_baseline by simp
next
  case True
  let ?t = "tag FromEtc (userns_args env inst h)"
  have "ba_skeleton ?t = baseline_skeleton env (inst_home inst) h" by (simp add: userns_args_ok)
  note b = bind_host_etc_baseline [OF this]
  show ?thesis
    using True b etc_kept(2) [of "inst_home inst" h]
      fresh_calls(4) [OF fresh_calls(1) [OF userns_args_ok(1)] etc_kept(1)]
    by (simp only: if_True option.inject) (auto simp: tag_def)
qed

lemma tmp_step:
  assumes "fresh a" and "list_ex (sized_tmpfs (str ''/tmp'')) (ba_skeleton a)"
  shows "\<exists>b. (case ic_tmp cfg of Some cap \<Rightarrow> tmp_size cap (tag FromTmp a) | None \<Rightarrow> Some a) = Some b \<and> fresh b"
proof (cases "ic_tmp cfg")
  case (Some cap)
  from assms(1) have "list_all is_mount (ba_skeleton (tag FromTmp a))" by (simp add: fresh_def args_ok_def)
  moreover from assms(2) have "list_ex (sized_tmpfs (str ''/tmp'')) (ba_skeleton (tag FromTmp a))" by simp
  ultimately obtain sk where "tmp_size cap (tag FromTmp a) = Some ((tag FromTmp a)\<lparr>ba_skeleton := sk\<rparr>)" "list_all is_mount sk"
    using tmp_size_total by metis
  with Some fresh_calls(4) [OF fresh_calls(1) [OF assms(1)]] show ?thesis by simp
qed (use assms in simp)

lemma prepared_total:
  "\<exists>a. prepared_args env inst tty h p = Some a \<and> args_ok a \<and> \<not> net_shared a \<and> ba_ctty a = tty \<and> server_of a = None"
proof -
  obtain a where a: "(if ic_etc (in_config inst) = EtcHost then bind_host_etc h (tag FromEtc (userns_args env inst h))
      else Some (userns_args env inst h)) = Some a" "fresh a" "list_ex (sized_tmpfs (str ''/tmp'')) (ba_skeleton a)"
    using etc_step by blast
  obtain b where b: "(case ic_tmp (in_config inst) of Some cap \<Rightarrow> tmp_size cap (tag FromTmp a) | None \<Rightarrow> Some a) = Some b" "fresh b"
    using tmp_step [OF a(2,3)] by blast
  let ?c = "if tty then set_ctty b else b"
  have c: "args_ok ?c" "\<not> net_shared ?c" "ba_ctty ?c = tty" "ba_x11 ?c = None"
    using b(2) ns_calls(7,8) [of b] by (auto simp: fresh_def) (simp_all add: set_ctty_def)
  have "prepared_args env inst tty h p =
      Some (case waits_for (ic_services (in_config inst)) p of
        Some i \<Rightarrow> block_until_released (tag (FromService i) ?c) | None \<Rightarrow> ?c)"
    unfolding prepared_args_def Let_def a(1) bind.simps b(1) by simp
  moreover have "args_ok (tag orig ?c)" "net_shared (tag orig ?c) = net_shared ?c" for orig
    using c(1) keeps_ok [OF keeps_call(10)] keeps_net [OF keeps_call(10)] by blast+
  note ns_calls(3,4) [OF this(1)] this
  ultimately show ?thesis
    using c by (auto split: option.split simp: server_of_def) (simp_all add: block_until_released_def tag_def)
qed

lemma apply_seccomp_keeps:
  assumes "apply_seccomp lib rs env a = Inr a'" and "args_ok a"
  shows "args_ok a' \<and> net_shared a' = net_shared a \<and> ba_ctty a' = ba_ctty a \<and> server_of a' = server_of a"
proof -
  from assms(1) have "a' = a \<or> (\<exists>program. a' = add_seccomp program (ARCHES lib) a)"
    by (auto simp: apply_seccomp_def rust_simps split: option.splits)
  with assms(2) ns_calls(5,6) [OF assms(2)] show ?thesis by (auto simp: server_of_def) (simp_all add: add_seccomp_def)
qed

lemma keeps_more: "keeps a a' \<Longrightarrow> args_ok a \<Longrightarrow> args_ok a' \<and> net_shared a' = net_shared a \<and> ba_ctty a' = ba_ctty a \<and> server_of a' = server_of a"
  using keeps_ok keeps_net by (auto simp: keeps_def server_of_def)

lemma apply_shares_keeps:
  assumes "apply_shares services shares env h a = Some (Inr a')" and "args_ok a"
  shows "args_ok a' \<and> net_shared a' = net_shared a \<and> ba_ctty a' = ba_ctty a \<and> server_of a' = server_of a"
proof -
  have "ba_ctty a' = ba_ctty a \<and> server_of a' = server_of a"
    using assms(1)
    by (auto simp: apply_shares_def chdir_def server_of_def dest!: bind_shares_keeps split: if_splits sum.splits option.splits prod.splits)
      (auto simp: keeps_def)
  with apply_shares_total [OF assms(2), of services shares env h] assms(1) show ?thesis by auto
qed

text \<open>What a built sandbox has, whatever the configuration and the host.\<close>

lemma build_args_built:
  assumes "build_args_on lib env inst command tty h = Some (Inr (a, cmd))"
  shows "args_ok a" and "net_shared a \<longleftrightarrow> list_ex shares_net (ic_services (in_config inst))" and "ba_ctty a = tty"
    and "server_of a = find_map nested_server (ic_services (in_config inst))" and "resolve_command inst command = Inr cmd"
proof -
  let ?cfg = "in_config inst"
  from assms obtain init a0 a1 a2 a3 a4 where
    b: "resolve_command inst command = Inr cmd"
      "prepared_args env inst tty h (cx_dbus (service_ctx env inst init)) = Some a0"
      "apply_seccomp lib (ruleset_with (sl_x86_64 lib) (ic_seccomp ?cfg)) env (tag FromSeccomp a0) = Inr a1"
      "apply_all (ic_services ?cfg) env h (service_ctx env inst init) a1 = Inr a2"
      "apply_shares (ic_services ?cfg) (ic_shares ?cfg) env h a2 = Some (Inr a3)"
      "apply_env 0 (ic_env ?cfg) a3 = Inr a4" "a = bind_init init (tag FromInit a4)"
    by (auto simp: build_args_on_def Let_def then_args_Inr)
  from prepared_total [of env inst tty h "cx_dbus (service_ctx env inst init)"] b(2)
  have 0: "args_ok a0" "\<not> net_shared a0" "ba_ctty a0 = tty" "server_of a0 = None" by auto
  have t: "keeps a0 (tag FromSeccomp a0)" by simp
  note 1 = keeps_more [OF t 0(1)]
  note 2 = apply_seccomp_keeps [OF b(3)]
  note 3 = apply_all_step [OF b(4), unfolded grants_step_def]
  note 4 = apply_shares_keeps [OF b(5)]
  have "keeps a3 a" unfolding b(7) using apply_env_keeps [OF b(6)] by simp
  note 5 = keeps_more [OF this]
  from 0 1 2 3 4 5 show "args_ok a" "net_shared a \<longleftrightarrow> list_ex shares_net (ic_services ?cfg)" "ba_ctty a = tty"
    "server_of a = find_map nested_server (ic_services ?cfg)" by simp_all
  show "resolve_command inst command = Inr cmd" by (rule b(1))
qed

lemma build_args_total: "\<exists>r. build_args_on lib env inst command tty h = Some r"
proof (cases "resolve_command inst command")
  case (Inr cmd)
  note cmd = Inr
  show ?thesis
  proof (cases "locate_init env h")
    case (Inr init)
    obtain a0 where a0: "prepared_args env inst tty h (cx_dbus (service_ctx env inst init)) = Some a0" "args_ok a0"
      using prepared_total by blast
    have t: "args_ok (tag FromSeccomp a0)" using a0(2) keeps_ok [OF keeps_call(10)] by blast
    let ?cfg = "in_config inst"
    show ?thesis
    proof (cases "apply_seccomp lib (ruleset_with (sl_x86_64 lib) (ic_seccomp ?cfg)) env (tag FromSeccomp a0)")
      case (Inr a1)
      note a1 = Inr apply_seccomp_keeps [OF Inr t]
      show ?thesis
      proof (cases "apply_all (ic_services ?cfg) env h (service_ctx env inst init) a1")
        case (Inr a2)
        with apply_all_step [OF Inr] a1 have "args_ok a2" by (simp add: grants_step_def)
        from apply_shares_total [OF this, of "ic_services ?cfg" "ic_shares ?cfg" env h] obtain r where
          r: "apply_shares (ic_services ?cfg) (ic_shares ?cfg) env h a2 = Some r" by blast
        show ?thesis
          by (cases r) (auto simp: build_args_on_def then_args_def cmd \<open>locate_init env h = Inr init\<close> a0(1) a1(1) Inr r Let_def split: sum.split)
      qed (simp add: build_args_on_def then_args_def cmd \<open>locate_init env h = Inr init\<close> a0(1) a1(1) Let_def)
    qed (simp add: build_args_on_def then_args_def cmd \<open>locate_init env h = Inr init\<close> a0(1) Let_def)
  qed (simp add: build_args_on_def then_args_def cmd Let_def)
qed (simp add: build_args_on_def then_args_def Let_def)

section \<open>What bubblewrap is told\<close>

text \<open>The words an item becomes.\<close>

fun kind_words :: "ItemKind \<Rightarrow> bytes list \<Rightarrow> bool" where
  "kind_words (KArgs a) w \<longleftrightarrow> w = a"
| "kind_words (KNoted a _) w \<longleftrightarrow> w = a"
| "kind_words (KData _ dest) w \<longleftrightarrow> (\<exists>src. w = [str ''--ro-bind'', src, dest])"
| "kind_words KInfoFd w \<longleftrightarrow> (\<exists>fd. w = [str ''--info-fd'', fd])"
| "kind_words KBlockFd w \<longleftrightarrow> (\<exists>fd. w = [str ''--block-fd'', fd])"
| "kind_words (KSeccomp _ _) w \<longleftrightarrow> (\<exists>fd. w = [str ''--add-seccomp-fd'', fd])"

definition item_words :: "Item \<Rightarrow> bytes list \<Rightarrow> bool" where
  "item_words i = kind_words (it_kind i)"

lemma resolve_item_words: "resolve_item alloc i s = (Inr (args, remark), s') \<Longrightarrow> item_words i args"
  by (auto simp: resolve_item_def item_words_def split: ItemKind.splits prod.splits sum.splits)

lemma emit_items_words: "emit_items alloc xs s = (Inr out, s') \<Longrightarrow> list_all2 item_words xs (map ex_args out)"
proof (induction xs arbitrary: s out)
  case (Cons i rest)
  from Cons.prems obtain args remark s1 tail where
    "resolve_item alloc i s = (Inr (args, remark), s1)" "emit_items alloc rest s1 = (Inr tail, s')"
      "out = \<lparr>ex_origin = it_origin i, ex_args = args, ex_note = remark\<rparr> # tail"
    by (auto split: prod.splits sum.splits)
  with Cons.IH show ?case by (auto dest: resolve_item_words)
qed simp

text \<open>What may stand behind the literal part of the first group: the options that close user namespaces, hold the
  command back, and load a filter.\<close>

fun closing_words :: "bytes list \<Rightarrow> bool" where
  "closing_words [flag, v] \<longleftrightarrow> flag = str ''--unshare-user'' \<and> v = str ''--disable-userns'' \<or>
     flag = str ''--block-fd'' \<or> flag = str ''--add-seccomp-fd''"
| "closing_words _ \<longleftrightarrow> False"

text \<open>The literal part: everything is unshared, the network given back at most, the sandbox dies with bubbler and has
  a session and a host name of its own, a working directory, and a pipe bubblewrap reports on.\<close>

definition isolating :: "bool \<Rightarrow> path \<Rightarrow> bytes \<Rightarrow> bytes list list" where
  "isolating shared dir info =
     [str ''--unshare-all''] # (if shared then [[str ''--share-net'']] else []) @
     [[str ''--die-with-parent''], [str ''--new-session''], [str ''--hostname'', str ''bubbler''], [str ''--chdir'', dir],
      [str ''--info-fd'', info]]"

lemma item_words_kinds: "list_all2 item_words xs ws \<longleftrightarrow> list_all2 kind_words (map it_kind xs) ws"
  by (simp add: list_all2_map1 item_words_def [abs_def])

lemma kind_words_extra: "kind_words k w \<Longrightarrow> ns_extra k \<Longrightarrow> closing_words w"
  by (cases k) auto

lemma item_words_mount: "item_words i w \<Longrightarrow> is_mount i \<Longrightarrow> mount_words w"
  by (cases "it_kind i") (auto simp: item_words_def is_mount_def)

lemma item_words_op [simp]: "item_words (op orig a) w \<longleftrightarrow> w = a"
  by (simp add: item_words_def op_def)

lemma kind_words_core: "list_all2 kind_words (ns_core shared dir) ws \<Longrightarrow> \<exists>info. ws = isolating shared dir info"
  by (cases shared) (auto simp: ns_core_def isolating_def list_all2_Cons1 simp del: str_Cons)

lemma words_of_ns:
  assumes "list_all2 item_words ns ws" and "ns_ok ns"
  shows "\<exists>dir info extras. ws = isolating (list_ex (holds (str ''--share-net'')) ns) dir info @ extras \<and> list_all closing_words extras"
proof -
  from assms(2) obtain shared dir extras where ns: "map it_kind ns = ns_core shared dir @ extras" "list_all ns_extra extras"
    unfolding ns_ok_def by (elim exE conjE)
  from assms(1) ns(1) obtain core rest where w: "ws = core @ rest" "list_all2 kind_words (ns_core shared dir) core"
      "list_all2 kind_words extras rest"
    by (auto simp: item_words_kinds list_all2_append1)
  from w(3) ns(2) have "list_all closing_words rest" by (induction rule: list_all2_induct) (auto dest: kind_words_extra)
  with kind_words_core [OF w(2)] w(1) ns_shared [OF ns] show ?thesis by metis
qed

lemma words_of_mounts: "list_all2 item_words xs ws \<Longrightarrow> list_all is_mount xs \<Longrightarrow> list_all mount_words ws"
  by (induction rule: list_all2_induct) (auto dest: item_words_mount)

lemma words_of_setenvs:
  "list_all2 item_words xs ws \<Longrightarrow> list_all is_setenv xs \<Longrightarrow> \<exists>pairs. ws = map (\<lambda>(k, v). [str ''--setenv'', k, v]) pairs"
proof (induction rule: list_all2_induct)
  case (Cons x xs w ws)
  then obtain pairs k v where "ws = map (\<lambda>(k, v). [str ''--setenv'', k, v]) pairs" "w = [str ''--setenv'', k, v]"
    by (auto simp: is_setenv_def)
  then show ?case by (intro exI [of _ "(k, v) # pairs"]) simp
qed simp

lemma words_of_env:
  assumes "list_all2 item_words xs ws" and "env_ok xs"
  shows "\<exists>pairs. ws = [str ''--clearenv''] # map (\<lambda>(k, v). [str ''--setenv'', k, v]) pairs"
proof -
  from assms(2) obtain rest where x: "xs = base_op [str ''--clearenv''] # rest" "list_all is_setenv rest"
    by (auto simp: env_ok_def neq_Nil_conv)
  with assms(1) obtain tail where "ws = [str ''--clearenv''] # tail" "list_all2 item_words rest tail"
    by (auto simp: list_all2_Cons1)
  with words_of_setenvs x(2) show ?thesis by blast
qed

lemma run_argv_cases:
  obtains e s1 where "run_argv lib env inst command alloc tty h s = Some (Inl e, s1)"
  | a cmd f s1 where "build_args_on lib env inst command tty h = Some (Inr (a, cmd))" "finish_ops cmd alloc a s = (Inr f, s1)"
      "sweep_destinations (fi_ops f) env h = Inr ()" "run_argv lib env inst command alloc tty h s = Some (Inr (into_argv f), s1)"
proof -
  obtain b where b: "build_args_on lib env inst command tty h = Some b" using build_args_total by blast
  show ?thesis
  proof (cases b)
    case (Inl e)
    with b that(1) show ?thesis by (simp add: run_argv_def)
  next
    case (Inr p)
    obtain a cmd where p: "p = (a, cmd)" by (cases p)
    obtain r s1 where f: "finish_ops cmd alloc a s = (r, s1)" by (cases "finish_ops cmd alloc a s")
    show ?thesis
    proof (cases r)
      case (Inl e)
      with b \<open>b = Inr p\<close> p f that(1) show ?thesis by (simp add: run_argv_def)
    next
      case (Inr g)
      with b \<open>b = Inr p\<close> p f that show ?thesis by (cases "sweep_destinations (fi_ops g) env h") (simp_all add: run_argv_def)
    qed
  qed
qed

lemma finish_ops_Inr:
  assumes "finish_ops cmd alloc a s = (Inr f, s')"
  obtains out s1 w where "emit_items alloc (all_items a) s = (Inr out, s1)" "alloc AllocInitSocket s1 = (Inr w, s')"
    "argv_options (into_argv f) = concat (map ex_args out)"
    "argv_command (into_argv f) = flatten (init_op w # ctty_ops (ba_ctty a) @ x11_ops (ba_x11 a) @ [command_op cmd])"
  using assms
  by (auto simp: finish_ops_def emit_def call_alloc_def into_argv_parts flatten_def split: sum.splits prod.splits)

text \<open>C40. The sandbox is closed unless a grant opens it.  Whatever the profile, the run's own shares and the
  host are, building the arguments never panics, and the options a run hands bubblewrap are, word for word,
  three groups.  The first unshares everything, gives the network back right behind that exactly when a
  \<open>network "host"\<close> node asks for it, ties the sandbox to bubbler's life, gives it a session and a host name of its
  own, a working directory and the pipe bubblewrap reports on, and then holds only the options that close user
  namespaces, hold the command back or load a filter.  The second is whole mount options, each a mount flag with
  exactly the words it takes.  The third clears the environment and then only sets variables.\<close>

theorem sandbox_closed:
  "case run_argv lib env inst command alloc tty h s of
     None \<Rightarrow> False
   | Some (Inl e, s') \<Rightarrow> True
   | Some (Inr v, s') \<Rightarrow>
       \<exists>dir info extras mounts pairs.
         argv_options v =
           concat (isolating (list_ex shares_net (ic_services (in_config inst))) dir info @ extras) @ concat mounts @
           concat ([str ''--clearenv''] # map (\<lambda>(k, v). [str ''--setenv'', k, v]) pairs) \<and>
         list_all closing_words extras \<and> list_all mount_words mounts"
proof -
  have "\<exists>dir info extras mounts pairs.
         argv_options (into_argv f) =
           concat (isolating (list_ex shares_net (ic_services (in_config inst))) dir info @ extras) @ concat mounts @
           concat ([str ''--clearenv''] # map (\<lambda>(k, v). [str ''--setenv'', k, v]) pairs) \<and>
         list_all closing_words extras \<and> list_all mount_words mounts"
    if b: "build_args_on lib env inst command tty h = Some (Inr (a, cmd))" "finish_ops cmd alloc a s = (Inr f, s')" for a cmd f s'
  proof -
    obtain out s1 where out: "emit_items alloc (all_items a) s = (Inr out, s1)" "argv_options (into_argv f) = concat (map ex_args out)"
      using b(2) by (auto elim: finish_ops_Inr)
    let ?mounts = "ba_skeleton a @ ba_runtime_dir a @ ba_binds a @ ba_masks a"
    have "list_all2 item_words (ba_namespaces a @ ?mounts @ ba_env a) (map ex_args out)"
      using emit_items_words [OF out(1)] by (simp add: all_items_def)
    then obtain ns mounts vars where w: "map ex_args out = ns @ mounts @ vars" "list_all2 item_words (ba_namespaces a) ns"
        "list_all2 item_words ?mounts mounts" "list_all2 item_words (ba_env a) vars"
      by (metis list_all2_append1)
    note ok = build_args_built(1) [OF b(1), unfolded args_ok_def]
    from words_of_env [OF w(4)] ok obtain pairs where
      vars: "vars = [str ''--clearenv''] # map (\<lambda>(k, v). [str ''--setenv'', k, v]) pairs" by blast
    from words_of_ns [OF w(2)] ok obtain dir info extras where
      ns: "ns = isolating (list_ex shares_net (ic_services (in_config inst))) dir info @ extras" "list_all closing_words extras"
      unfolding build_args_built(2) [OF b(1), unfolded net_shared_def] by blast
    from words_of_mounts [OF w(3)] ok have "list_all mount_words mounts" by blast
    then show ?thesis using ns(2)
      unfolding out(2) w(1) ns(1) vars concat_append [of _ "mounts @ _"] concat_append [of mounts] by blast
  qed
  note built = this
  show ?thesis
  proof (cases rule: run_argv_cases [of lib env inst command alloc tty h s])
    case (2 a cmd f s1)
    then show ?thesis using built [OF 2(1,2)] by (simp del: str_Cons)
  qed simp
qed

text \<open>One launch: a profile with a nested display and the host's network.\<close>

definition launch_lib :: SeccompLib where
  "launch_lib = \<lparr>sl_refuses = (\<lambda>_ _. None), sl_number = (\<lambda>_. None), sl_exports = (\<lambda>_. Inr []), sl_x86_64 = True, sl_arch = []\<rparr>"

definition launch_host :: Host where
  "launch_host = example_host\<lparr>h_file_type := (\<lambda>p. if p = XWAYLAND \<or> p = INIT_INSTALLED \<or> p = str ''/etc/resolv.conf'' then Some RegularFile else None)\<rparr>"

definition launch_env :: Env where
  "launch_env = example_env\<lparr>env_uid := 7, env_gid := 7\<rparr>"

definition launch_instance :: Instance where
  "launch_instance =
     \<lparr>in_name = str ''demo'', in_dir = str ''/data/demo'',
      in_config = \<lparr>ic_services = [Network (network_default\<lparr>nc_mode := NetHost\<rparr>), X11 x11_default], ic_shares = [],
        ic_command = Some [str ''app''], ic_env = [], ic_etc = EtcHost, ic_tmp = None, ic_tty = TtyPty,
        ic_seccomp = \<lparr>sc_allow = [], sc_deny = [], sc_disable = True\<rparr>, ic_userns = UsernsDisable, ic_lint_allows = [],
        ic_desktop = None, ic_disabled = []\<rparr>,
      in_config_version = None\<rparr>"

text \<open>The two sizes as text, so that an evaluation need not count them out.\<close>

lemma sizes_code [code_unfold]:
  "tmpfs_op TMP_SIZE = (\<lambda>dir. base_op [str ''--size'', str ''2147483648'', str ''--tmpfs'', dir])"
  "tmpfs_op TMPFS_SIZE = (\<lambda>dir. base_op [str ''--size'', str ''67108864'', str ''--tmpfs'', dir])"
  by (simp_all add: fun_eq_iff tmpfs_op_def TMP_SIZE_def TMPFS_SIZE_def dec_digits.simps)

section \<open>What the supervisor is told\<close>

lemma init_words_socket:
  assumes "fd < 2 ^ 31"
  shows "init_words (str ''--socket-fd'' # dec_digits fd # rest) p = init_words rest (p\<lparr>ip_socket_fd := Some (int fd)\<rparr>)"
proof -
  have "entry_fd (dec_digits fd) = Some (int fd)" using entry_fd_digits [of "int fd"] assms by simp
  then obtain v where "to_str (dec_digits fd) = Some v" "parse_signed 32 v = Some (int fd)"
    by (auto simp: entry_fd_def Option.bind_eq_Some_conv)
  then show ?thesis by simp
qed

lemma init_words_ctty:
  "init_words (flatten (ctty_ops t) @ rest) p = init_words rest (if t then p\<lparr>ip_ctty := True\<rparr> else p)"
  by (simp add: ctty_ops_def)

lemma init_words_x11:
  assumes "ip_x11 p = None" and "ip_wm p = None" and "xs \<noteq> []" and "str ''--'' \<notin> set xs"
  shows "init_words (flatten (x11_ops (Some (orig, xs, wm))) @ rest) p =
    init_words rest (case wm of None \<Rightarrow> p\<lparr>ip_x11 := Some xs\<rparr> | Some w \<Rightarrow> p\<lparr>ip_x11 := Some xs, ip_wm := Some w\<rparr>)"
proof -
  have t: "takeWhile (\<lambda>w. w \<noteq> str ''--'') (xs @ str ''--'' # r) = xs" for r
    using assms(4) by (subst takeWhile_append2) auto
  have "init_words (str ''--x11'' # xs @ str ''--'' # r) p = init_words r (p\<lparr>ip_x11 := Some xs\<rparr>)" for r
    using assms(1,3) t [of r] by simp
  then show ?thesis
    using assms(2) by (cases wm) (simp_all add: x11_ops_def flatten_def)
qed

lemma xwayland_words:
  assumes "parse_geometry (nx_geometry n) = Some (nx_geometry n)"
  shows "xwayland_argv n \<noteq> []" and "str ''--'' \<notin> set (xwayland_argv n)"
proof -
  have "nx_geometry n \<noteq> str ''--''" using parse_geometry_canonical(2) [OF assms] by auto
  then show "str ''--'' \<notin> set (xwayland_argv n)" by (simp add: xwayland_argv_def XWAYLAND_def)
qed (simp add: xwayland_argv_def)

lemma find_map_nested:
  "find_map nested_server services = Some x \<Longrightarrow> \<exists>n. X11 (X11Nested n) \<in> set services \<and> x = (xwayland_argv n, nx_wm n)"
proof (induction services)
  case (Cons s rest)
  show ?case
  proof (cases "nested_server s")
    case None
    with Cons show ?thesis by auto
  next
    case (Some y)
    with Cons.prems have "nested_server s = Some x" by simp
    then have "\<exists>n. s = X11 (X11Nested n) \<and> x = (xwayland_argv n, nx_wm n)" by (cases s rule: nested_server.cases) auto
    then show ?thesis by auto
  qed
qed simp

lemma init_parse_sandbox:
  assumes "fd < 2 ^ 31" and "cmd \<noteq> []"
    and "\<And>xs wm. server = Some (xs, wm) \<Longrightarrow> xs \<noteq> [] \<and> str ''--'' \<notin> set xs"
    and "map_option snd x = server"
  shows "init_parse (str ''--socket-fd'' # dec_digits fd # flatten (ctty_ops t) @ flatten (x11_ops x) @ str ''--'' # cmd) =
    Some \<lparr>ia_socket_fd = int fd, ia_ctty = t, ia_x11 = map_option fst server, ia_x11_socket = X11_SOCKET,
          ia_wm = Option.bind server snd, ia_command = cmd\<rparr>"
proof -
  let ?p = "init_parse_start\<lparr>ip_socket_fd := Some (int fd)\<rparr>"
  let ?q = "if t then ?p\<lparr>ip_ctty := True\<rparr> else ?p"
  have q: "ip_x11 ?q = None" "ip_wm ?q = None" "ip_ctty ?q = t" "ip_socket_fd ?q = Some (int fd)" "ip_x11_socket ?q = None" "ip_command ?q = []"
    by (simp_all add: init_parse_start_def)
  have "init_words (str ''--socket-fd'' # dec_digits fd # flatten (ctty_ops t) @ flatten (x11_ops x) @ str ''--'' # cmd) init_parse_start =
      init_words (flatten (x11_ops x) @ str ''--'' # cmd) ?q"
    by (simp only: init_words_socket [OF assms(1)] init_words_ctty)
  also have "\<dots> = (let p = (case server of None \<Rightarrow> ?q | Some (xs, wm) \<Rightarrow>
      (case wm of None \<Rightarrow> ?q\<lparr>ip_x11 := Some xs\<rparr> | Some w \<Rightarrow> ?q\<lparr>ip_x11 := Some xs, ip_wm := Some w\<rparr>)) in Some (p\<lparr>ip_command := cmd\<rparr>))"
  proof (cases x)
    case None
    with assms(4) q(6) show ?thesis by (auto simp: x11_ops_def Let_def)
  next
    case (Some y)
    obtain orig xs wm where y: "y = (orig, xs, wm)" by (cases y)
    with Some assms(4) have s: "server = Some (xs, wm)" by simp
    note xs = assms(3) [OF s]
    have "init_words (flatten (x11_ops x) @ str ''--'' # cmd) ?q =
        init_words (str ''--'' # cmd) (case wm of None \<Rightarrow> ?q\<lparr>ip_x11 := Some xs\<rparr> | Some w \<Rightarrow> ?q\<lparr>ip_x11 := Some xs, ip_wm := Some w\<rparr>)"
      unfolding Some y using xs by (intro init_words_x11 q) auto
    then show ?thesis using q(6) s by (simp add: Let_def init_parse_start_def split: option.split)
  qed
  finally show ?thesis
    using assms(2) q by (auto simp: init_parse_def Let_def split: option.split)
qed

text \<open>The launcher and the supervisor agree on their command line: what an argv puts behind bubblewrap's
  options starts the supervisor inside the sandbox with words it parses as exactly the control socket the
  allocator numbered, the terminal when there is one to claim, the argv and the window manager of the first
  nested display, and the command the caller or else the profile names, whatever words these hold.\<close>

lemma supervisor_reads_argv:
  assumes "build_argv_on lib env inst command alloc tty h s = Some (Inr v, s')"
    and "\<And>s1 w. alloc AllocInitSocket s1 = (Inr w, s') \<Longrightarrow> \<exists>fd < 2 ^ 31. w = dec_digits fd"
    and "\<And>n. X11 (X11Nested n) \<in> set (ic_services (in_config inst)) \<Longrightarrow> parse_geometry (nx_geometry n) = Some (nx_geometry n)"
    and "ic_command (in_config inst) \<noteq> Some []"
  shows "\<exists>s1 fd cmd words. alloc AllocInitSocket s1 = (Inr (dec_digits fd), s') \<and> resolve_command inst command = Inr cmd \<and>
    argv_command v = [str ''--'', INIT_INSIDE] @ words \<and>
    init_parse words =
      (let server = find_map nested_server (ic_services (in_config inst)) in
       Some \<lparr>ia_socket_fd = int fd, ia_ctty = tty, ia_x11 = map_option fst server, ia_x11_socket = X11_SOCKET,
             ia_wm = Option.bind server snd, ia_command = cmd\<rparr>)"
proof -
  let ?server = "find_map nested_server (ic_services (in_config inst))"
  obtain r where r: "build_args_on lib env inst command tty h = Some r" using build_args_total by blast
  with assms(1) obtain a cmd where b: "build_args_on lib env inst command tty h = Some (Inr (a, cmd))"
      "Core_Bwrap.finish cmd alloc a s = (Inr v, s')"
    by (cases r) (auto simp: build_argv_on_def)
  then obtain f where f: "finish_ops cmd alloc a s = (Inr f, s')" "v = into_argv f"
    by (auto simp: Core_Bwrap.finish_def split: sum.splits prod.splits)
  obtain out s1 w where w: "alloc AllocInitSocket s1 = (Inr w, s')"
      "argv_command (into_argv f) = flatten (init_op w # ctty_ops (ba_ctty a) @ x11_ops (ba_x11 a) @ [command_op cmd])"
    by (rule finish_ops_Inr [OF f(1)])
  obtain fd where fd: "fd < 2 ^ 31" "w = dec_digits fd" using assms(2) [OF w(1)] by blast
  note built = build_args_built [OF b(1)]
  have cmd: "cmd \<noteq> []"
    using built(5) assms(4) by (auto simp: resolve_command_def ok_or_def split: option.splits list.splits)
  have server: "xs \<noteq> [] \<and> str ''--'' \<notin> set xs" if "?server = Some (xs, wm)" for xs wm
  proof -
    from find_map_nested [OF that] obtain n where n: "X11 (X11Nested n) \<in> set (ic_services (in_config inst))" "xs = xwayland_argv n"
      by auto
    show ?thesis unfolding n(2) by (intro conjI xwayland_words assms(3) n(1))
  qed
  have x: "map_option snd (ba_x11 a) = ?server" using built(4) by (simp only: server_of_def)
  let ?words = "str ''--socket-fd'' # dec_digits fd # flatten (ctty_ops tty) @ flatten (x11_ops (ba_x11 a)) @ str ''--'' # cmd"
  have "argv_command v = [str ''--'', INIT_INSIDE] @ ?words"
    by (simp add: f(2) w(2) fd(2) built(3) init_op_def command_op_def del: str_Cons)
  moreover have "alloc AllocInitSocket s1 = (Inr (dec_digits fd), s')" using w(1) by (simp only: fd(2))
  ultimately show ?thesis using built(5) init_parse_sandbox [OF fd(1) cmd server x, where t = tty]
    unfolding Let_def by (intro exI [of _ s1] exI [of _ fd] exI [of _ cmd] exI [of _ ?words] conjI)
qed

lemma case_Inr: "(case x of Some (Inr v, s') \<Rightarrow> P v s' | _ \<Rightarrow> False) \<Longrightarrow> \<exists>v s'. x = Some (Inr v, s') \<and> P v s'"
  by (cases x; cases "fst (the x)"; cases "the x") auto

lemma launch_builds:
  "\<exists>v s'. build_argv_on launch_lib launch_env launch_instance None dry_run True launch_host (dry_new (str ''/run/d'')) = Some (Inr v, s') \<and>
     da_next s' < 9"
proof -
  have "(case build_argv_on launch_lib launch_env launch_instance None dry_run True launch_host (dry_new (str ''/run/d'')) of
      Some (Inr v, s') \<Rightarrow> da_next s' < 9 | _ \<Rightarrow> False)" by code_simp
  then show ?thesis by (rule case_Inr)
qed

lemma dry_run_number:
  assumes "dry_run AllocInitSocket d = (Inr w, d')" and "da_next d' < 9"
  shows "\<exists>fd < 2 ^ 31. w = dec_digits fd"
  using assms by (auto simp: bump_def Let_def word_less_nat_alt intro!: exI [of _ "unat (da_next d')"])

end
