(* ===== verification/Core_Kdl.thy ===== *)
theory Core_Kdl
  imports Core_Config
begin

text \<open>
  The text a configuration is read from, as \<^verbatim>\<open>config.rs\<close> scans it before and beside the KDL
  parser: the newlines and spaces KDL knows, the bounds a text must keep before it is parsed,
  the lines refusals are reported on, and the \<^verbatim>\<open>/-\<close> lines a file keeps without granting them.
  Shown: the pre-check accepts exactly the texts within its three bounds, its early stop hiding
  nothing, at a cost linear in the text; and the scan for \<^verbatim>\<open>/-\<close> lines ends on every text, with
  marks that stand at the nestings of lines, in order.
\<close>

section \<open>Bounds and characters\<close>

definition MAX_BYTES :: nat where
  "MAX_BYTES = 64 * 1024"

definition MAX_NESTING :: nat where
  "MAX_NESTING = 32"

definition MAX_COMMENT_MARKS :: nat where
  "MAX_COMMENT_MARKS = 128"

definition newline_len :: "bytes \<Rightarrow> nat \<Rightarrow> nat option" where
  "newline_len b i =
     Option.bind (get_at b i) (\<lambda>c.
       if c = 0x0d \<and> get_at b (i + 1) = Some 0x0a then Some 2
       else if c = 0x0d \<or> c = 0x0a \<or> c = 0x0b \<or> c = 0x0c then Some 1
       else if c = 0xc2 \<and> get_at b (i + 1) = Some 0x85 then Some 2
       else if c = 0xe2 \<and> get_at b (i + 1) = Some 0x80 \<and>
               (get_at b (i + 2) = Some 0xa8 \<or> get_at b (i + 2) = Some 0xa9) then Some 3
       else None)"

definition space_len :: "bytes \<Rightarrow> nat \<Rightarrow> nat option" where
  "space_len b i =
     Option.bind (get_at b i) (\<lambda>c.
       if c = 0x09 \<or> c = 0x20 then Some 1
       else if c = 0xc2 \<and> get_at b (i + 1) = Some 0xa0 then Some 2
       else if c = 0xe1 \<and> get_range b (i + 1) (i + 3) = Some [0x9a, 0x80] then Some 3
       else if c = 0xe2 \<and> get_at b (i + 1) = Some 0x80 \<and>
               (case get_at b (i + 2) of Some d \<Rightarrow> 0x80 \<le> d \<and> d \<le> 0x8a \<or> d = 0xaf | None \<Rightarrow> False) then Some 3
       else if c = 0xe2 \<and> get_range b (i + 1) (i + 3) = Some [0x81, 0x9f] then Some 3
       else if c = 0xe3 \<and> get_range b (i + 1) (i + 3) = Some [0x80, 0x80] then Some 3
       else None)"

lemma newline_len_pos: "newline_len b i = Some n \<Longrightarrow> 0 < n \<and> i + n \<le> length b"
  by (auto simp: newline_len_def rust_simps split: bind_splits if_splits)

lemma space_len_pos: "space_len b i = Some n \<Longrightarrow> 0 < n \<and> i + n \<le> length b"
  by (auto simp: space_len_def rust_simps split: bind_splits if_splits option.splits)

section \<open>Lines and comments\<close>

function line_comment_end :: "bytes \<Rightarrow> nat \<Rightarrow> nat" where
  "line_comment_end b i =
     (if i < length b then if newline_len b i \<noteq> None then i else line_comment_end b (i + 1) else length b)"
  by pat_completeness auto
termination by (relation "measure (\<lambda>(b, i). length b - i)") auto

declare line_comment_end.simps [simp del]

text \<open>\<open>text.get(..offset)\<close> is \<open>None\<close> past the end and inside a character.\<close>

definition is_char_boundary :: "bytes \<Rightarrow> nat \<Rightarrow> bool" where
  "is_char_boundary b i \<longleftrightarrow> i = 0 \<or> i = length b \<or> i < length b \<and> \<not> is_cont (b ! i)"

definition saturating_inc :: "u32 \<Rightarrow> u32" where
  "saturating_inc n = (if n = - 1 then n else n + 1)"

function count_lines :: "bytes \<Rightarrow> u32 \<Rightarrow> nat \<Rightarrow> u32" where
  "count_lines b line i =
     (if i < length b
      then case newline_len b i of
             Some n \<Rightarrow> count_lines b (saturating_inc line) (i + n)
           | None \<Rightarrow> count_lines b line (i + 1)
      else line)"
  by pat_completeness auto
termination by (relation "measure (\<lambda>(b, line, i). length b - i)") (auto dest: newline_len_pos)

declare count_lines.simps [simp del]

definition line_at :: "bytes \<Rightarrow> nat \<Rightarrow> u32 option" where
  "line_at b offset = (if is_char_boundary b offset then Some (count_lines (take offset b) 1 0) else None)"

definition is_mark :: "byte \<Rightarrow> bool" where
  "is_mark c \<longleftrightarrow> c = star \<or> c = slash"

function block_loop :: "bytes \<Rightarrow> nat \<Rightarrow> nat \<Rightarrow> nat \<Rightarrow> nat \<times> nat" where
  "block_loop b opn marks i =
     (if i + 1 < length b \<and> marks \<le> MAX_COMMENT_MARKS then
        if b ! i = slash \<and> b ! (i + 1) = star then block_loop b (opn + 1) (marks + 2) (i + 2)
        else if b ! i = star \<and> b ! (i + 1) = slash then
          if opn - 1 = 0 then (i + 2, marks) else block_loop b (opn - 1) (marks + 2) (i + 2)
        else if is_mark (b ! i) then block_loop b opn (marks + 1) (i + 1)
        else block_loop b opn marks (i + 1)
      else (length b, if i < length b \<and> is_mark (b ! i) then marks + 1 else marks))"
  by pat_completeness auto
termination by (relation "measure (\<lambda>(b, opn, marks, i). length b - i)") auto

declare block_loop.simps [simp del]

definition block_comment_end :: "bytes \<Rightarrow> nat \<Rightarrow> nat \<times> nat" where
  "block_comment_end b at = block_loop b 1 0 (at + 2)"

text \<open>The pre-check walks the bytes once, with the braces counted so far.\<close>

definition opens_comment :: "bytes \<Rightarrow> nat \<Rightarrow> bool" where
  "opens_comment b i \<longleftrightarrow> i < length b \<and> b ! i = slash \<and> get_at b (i + 1) = Some star"

definition line_or_0 :: "bytes \<Rightarrow> nat \<Rightarrow> u32" where
  "line_or_0 b i = (case line_at b i of Some l \<Rightarrow> l | None \<Rightarrow> 0)"

function bounds_loop :: "bytes \<Rightarrow> nat \<Rightarrow> nat \<Rightarrow> ConfigError + unit" where
  "bounds_loop b opens i =
     (if i < length b then
        if b ! i = 0x7b then
          if opens + 1 > MAX_NESTING then Inl (TooDeep (line_or_0 b i) MAX_NESTING)
          else bounds_loop b (opens + 1) (i + 1)
        else if b ! i = slash \<and> get_at b (i + 1) = Some star then
          if snd (block_comment_end b i) > MAX_COMMENT_MARKS
          then Inl (CommentTooBusy (line_or_0 b i) MAX_COMMENT_MARKS)
          else bounds_loop b opens (i + 1)
        else bounds_loop b opens (i + 1)
      else Inr ())"
  by pat_completeness auto
termination by (relation "measure (\<lambda>(b, opens, i). length b - i)") auto

declare bounds_loop.simps [simp del]

definition check_bounds :: "bytes \<Rightarrow> ConfigError + unit" where
  "check_bounds text =
     (if length text > MAX_BYTES then Inl (ConfigTooLarge (length text) MAX_BYTES) else bounds_loop text 0 0)"

section \<open>Strings and the lines turned off\<close>

function only_spaces :: "bytes \<Rightarrow> bool \<Rightarrow> nat \<Rightarrow> bool" where
  "only_spaces b escapes i =
     (if i < length b then
        if escapes \<and> b ! i = 0x5c then
          (case space_len b (i + 1) of None \<Rightarrow> False | Some n \<Rightarrow> only_spaces b escapes (i + 1 + n))
        else (case space_len b i of None \<Rightarrow> False | Some n \<Rightarrow> only_spaces b escapes (i + n))
      else True)"
  by pat_completeness auto
termination by (relation "measure (\<lambda>(b, escapes, i). length b - i)") (auto dest: space_len_pos)

declare only_spaces.simps [simp del]

definition three_quotes :: "bytes \<Rightarrow> nat \<Rightarrow> bool" where
  "three_quotes b i \<longleftrightarrow> get_range b i (i + 3) = Some [quote_mark, quote_mark, quote_mark]"

definition hash_run :: "bytes \<Rightarrow> nat \<Rightarrow> nat" where
  "hash_run b i = length (takeWhile (\<lambda>c. c = 0x23) (drop i b))"

function string_loop :: "bytes \<Rightarrow> bool \<Rightarrow> nat \<Rightarrow> nat \<Rightarrow> nat \<Rightarrow> nat option" where
  "string_loop b triple hashes line_start i =
     (if i < length b then
        (case newline_len b i of
           Some n \<Rightarrow> string_loop b triple hashes (i + n) (i + n)
         | None \<Rightarrow>
             if b ! i = 0x5c \<and> hashes = 0 then
               string_loop b triple hashes line_start (i + (if newline_len b (i + 1) \<noteq> None then 1 else 2))
             else if b ! i = quote_mark then
               if triple \<and> (\<not> three_quotes b i \<or> \<not> only_spaces (take (i - line_start) (drop line_start b)) (hashes = 0) 0)
               then string_loop b triple hashes line_start (i + 1)
               else
                 let after = i + (if triple then 3 else 1) in
                 if hash_run b after \<ge> hashes then Some (after + hashes)
                 else string_loop b triple hashes line_start after
             else string_loop b triple hashes line_start (i + 1))
      else None)"
  by pat_completeness auto
termination by (relation "measure (\<lambda>(b, triple, hashes, line_start, i). length b - i)") (auto dest: newline_len_pos)

declare string_loop.simps [simp del]

definition string_end :: "bytes \<Rightarrow> nat \<Rightarrow> nat \<Rightarrow> nat option" where
  "string_end b quote hashes =
     (let triple = three_quotes b quote \<and> newline_len b (quote + 3) \<noteq> None;
          i = quote + (if triple then 3 else 1)
      in string_loop b triple hashes i i)"

lemma line_comment_end_le: "i \<le> length b \<Longrightarrow> i \<le> line_comment_end b i \<and> line_comment_end b i \<le> length b"
proof (induction b i rule: line_comment_end.induct)
  case (1 b i)
  then show ?case by (cases "i < length b") (auto simp: line_comment_end.simps [of b i] line_comment_end.simps [of b "length b"])
qed

lemma line_comment_end_less:
  assumes "i < length b" and "newline_len b i = None"
  shows "i < line_comment_end b i"
  using assms line_comment_end_le [of "i + 1" b] by (simp add: line_comment_end.simps [of b i])

function escline_loop :: "bytes \<Rightarrow> nat \<Rightarrow> nat" where
  "escline_loop b i =
     (if i < length b then
        (case newline_len b i of
           Some n \<Rightarrow> i + n
         | None \<Rightarrow>
             if b ! i = 0x20 \<or> b ! i = 0x09 then escline_loop b (i + 1)
             else if b ! i = slash \<and> get_at b (i + 1) = Some slash then escline_loop b (line_comment_end b i)
             else i)
      else length b)"
  by pat_completeness auto
termination
proof (relation "measure (\<lambda>(b, i). length b - i)")
  fix b :: bytes and i
  assume "i < length b" "newline_len b i = None"
  then show "((b, line_comment_end b i), b, i) \<in> measure (\<lambda>(b, i). length b - i)"
    using line_comment_end_less [of i b] by simp
qed auto

declare escline_loop.simps [simp del]

definition escline_end :: "bytes \<Rightarrow> nat \<Rightarrow> nat" where
  "escline_end b at = escline_loop b (at + 1)"

text \<open>Where one turn of the scan goes on, and the depth there, at a byte that neither opens a line
  turned off nor is a newline.\<close>

definition scan_next :: "bytes \<Rightarrow> nat \<Rightarrow> nat \<Rightarrow> nat \<times> nat" where
  "scan_next b depth i =
     (if b ! i = slash \<and> get_at b (i + 1) = Some slash then (line_comment_end b i, depth)
      else if b ! i = slash \<and> get_at b (i + 1) = Some star then (fst (block_comment_end b i), depth)
      else if b ! i = 0x5c then (escline_end b i, depth)
      else if b ! i = quote_mark then (case string_end b i 0 of Some e \<Rightarrow> e | None \<Rightarrow> i + 1, depth)
      else if b ! i = 0x23 then
        (let hashes = hash_run b i in
         if get_at b (i + hashes) = Some quote_mark
         then (case string_end b (i + hashes) hashes of Some e \<Rightarrow> e | None \<Rightarrow> i + hashes + 1, depth)
         else (i + hashes, depth))
      else if b ! i = 0x7b then (i + 1, depth + 1)
      else if b ! i = 0x7d then (i + 1, depth - 1)
      else (i + 1, depth))"

partial_function (option) marks_loop :: "bytes \<Rightarrow> nat \<Rightarrow> bool \<Rightarrow> nat \<Rightarrow> nat list \<Rightarrow> nat list option" where
  "marks_loop b depth opens_line i out =
     (if i < length b then
        if opens_line \<and> depth = 0 \<and> b ! i = slash \<and> get_at b (i + 1) = Some 0x2d
        then marks_loop b depth False (i + 2) (out @ [i])
        else
          (case newline_len b i of
             Some n \<Rightarrow> marks_loop b depth True (i + n) out
           | None \<Rightarrow> marks_loop b (snd (scan_next b depth i)) False (fst (scan_next b depth i)) out)
      else Some out)"

definition slashdash_marks :: "bytes \<Rightarrow> nat list option" where
  "slashdash_marks b = marks_loop b 0 True 0 []"

section \<open>The scan moves on\<close>

text \<open>A comment without the early stop: how many bytes of the text it takes and how many marks it
  holds, read off the text after its nesting.\<close>

fun comment_text :: "nat \<Rightarrow> bytes \<Rightarrow> nat \<times> nat" where
  "comment_text opn [] = (0, 0)"
| "comment_text opn [c] = (1, if is_mark c then 1 else 0)"
| "comment_text opn (c # d # cs) =
     (if c = slash \<and> d = star then map_prod ((+) 2) ((+) 2) (comment_text (opn + 1) cs)
      else if c = star \<and> d = slash then
        if opn \<le> 1 then (2, 0) else map_prod ((+) 2) ((+) 2) (comment_text (opn - 1) cs)
      else map_prod ((+) 1) ((+) (if is_mark c then 1 else 0)) (comment_text opn (d # cs)))"

lemma comment_text_le: "fst (comment_text opn cs) \<le> length cs"
  by (induction opn cs rule: comment_text.induct) (auto simp: map_prod_def split: prod.splits)

lemma drop_Cons_iff: "drop i b = c # cs \<longleftrightarrow> i < length b \<and> b ! i = c \<and> drop (i + 1) b = cs"
  by (cases "i < length b") (auto simp flip: Cons_nth_drop_Suc)

text \<open>The bounded loop measures the same comment, or stops past the bound.\<close>

lemma block_loop_over:
  "MAX_COMMENT_MARKS < marks \<Longrightarrow> fst (block_loop b opn marks i) = length b \<and> MAX_COMMENT_MARKS < snd (block_loop b opn marks i)"
  by (subst (1 2) block_loop.simps) simp

lemma block_loop_text:
  assumes "i \<le> length b" and "marks \<le> MAX_COMMENT_MARKS" and "comment_text opn (drop i b) = (n, m)"
  shows "if marks + m \<le> MAX_COMMENT_MARKS then block_loop b opn marks i = (i + n, marks + m)
         else fst (block_loop b opn marks i) = length b \<and> MAX_COMMENT_MARKS < snd (block_loop b opn marks i)"
  using assms
proof (induction opn "drop i b" arbitrary: i marks n m rule: comment_text.induct)
  case (1 opn)
  then show ?case by (auto simp: block_loop.simps [of b opn marks i])
next
  case (2 opn c)
  then have "i < length b" "b ! i = c" "length b \<le> i + 1" using drop_Cons_iff [of i b c "[]"] by auto
  with "2.hyps" "2.prems" show ?case by (auto simp flip: "2.hyps" simp: block_loop.simps [of b opn marks i] split: if_splits)
next
  case (3 opn c d cs)
  then have d: "i < length b" "b ! i = c" "i + 1 < length b" "b ! (i + 1) = d" "drop (i + 1) b = d # cs" "drop (i + 2) b = cs"
    using drop_Cons_iff [of i b c "d # cs"] drop_Cons_iff [of "i + 1" b d cs] by auto
  have step: ?case
    if "block_loop b opn marks i = block_loop b opn' marks' i'" "i + n = i' + n'" "marks + m = marks' + m'"
      and "marks' \<le> MAX_COMMENT_MARKS \<Longrightarrow>
        if marks' + m' \<le> MAX_COMMENT_MARKS then block_loop b opn' marks' i' = (i' + n', marks' + m')
        else fst (block_loop b opn' marks' i') = length b \<and> MAX_COMMENT_MARKS < snd (block_loop b opn' marks' i')"
    for opn' marks' i' n' m'
    using that block_loop_over [of marks' b opn' i'] by (cases "marks' \<le> MAX_COMMENT_MARKS") auto
  note loop = block_loop.simps [of b opn marks i]
  consider (nesting) "c = slash" "d = star"
    | (last) "c = star" "d = slash" "opn \<le> 1"
    | (closing) "c = star" "d = slash" "\<not> opn \<le> 1" | (other) "\<not> (c = slash \<and> d = star)" "\<not> (c = star \<and> d = slash)"
    by blast
  then show ?case
  proof cases
    case nesting
    obtain n' m' where t: "comment_text (opn + 1) cs = (n', m')" by fastforce
    with nesting have "comment_text opn (c # d # cs) = (n' + 2, m' + 2)" by simp
    with "3.prems"(3) have eqs: "n = n' + 2" "m = m' + 2" unfolding "3.hyps"(4) by simp_all
    have "block_loop b opn marks i = block_loop b (opn + 1) (marks + 2) (i + 2)"
      using nesting d "3.prems" by (simp add: loop)
    from step [OF this _ _ "3.hyps"(1) [of "i + 2" "marks + 2" n' m']] show ?thesis
      using nesting d(3,6) t eqs by simp
  next
    case last
    then have "comment_text opn (c # d # cs) = (2, 0)" by (simp add: slash_def)
    with "3.prems"(3) have "n = 2" "m = 0" unfolding "3.hyps"(4) by simp_all
    with last d "3.prems"(2) show ?thesis by (simp add: loop slash_def)
  next
    case closing
    obtain n' m' where t: "comment_text (opn - 1) cs = (n', m')" by fastforce
    with closing have "comment_text opn (c # d # cs) = (n' + 2, m' + 2)" by (simp add: slash_def)
    with "3.prems"(3) have eqs: "n = n' + 2" "m = m' + 2" unfolding "3.hyps"(4) by simp_all
    have "block_loop b opn marks i = block_loop b (opn - 1) (marks + 2) (i + 2)"
      using closing d "3.prems" by (simp add: loop slash_def)
    from step [OF this _ _ "3.hyps"(2) [of "i + 2" "marks + 2" n' m']] show ?thesis
      using closing d(3,6) t eqs by (simp add: slash_def)
  next
    case other
    let ?k = "if is_mark c then 1 else 0 :: nat"
    obtain n' m' where t: "comment_text opn (d # cs) = (n', m')" by fastforce
    have "comment_text opn (c # d # cs) = (1 + n', ?k + m')"
      by (simp only: comment_text.simps if_not_P [OF other(1)] if_not_P [OF other(2)] t map_prod_simp)
    with "3.prems"(3) have eqs: "n = 1 + n'" "m = ?k + m'" unfolding "3.hyps"(4) by simp_all
    have "block_loop b opn marks i = block_loop b opn (marks + ?k) (i + 1)"
      by (simp only: loop d(2,4) if_not_P [OF other(1)] if_not_P [OF other(2)]) (use d(3) "3.prems"(2) in simp)
    from step [OF this _ _ "3.hyps"(3) [OF other, of "i + 1" "marks + ?k" n' m']] show ?thesis
      using d(3,5) t eqs by simp
  qed
qed

lemma hash_run_le: "i \<le> length b \<Longrightarrow> i + hash_run b i \<le> length b"
  using length_takeWhile_le [of "\<lambda>c. c = 0x23" "drop i b"] by (simp add: hash_run_def)

lemma three_quotes_le: "three_quotes b i \<Longrightarrow> i + 3 \<le> length b"
  by (simp add: three_quotes_def rust_simps)

lemma string_loop_end:
  "string_loop b triple hashes ls i = Some e \<Longrightarrow> i < e \<and> e \<le> length b"
proof (induction b triple hashes ls i rule: string_loop.induct)
  case (1 b triple hashes ls i)
  from "1.prems" have i: "i < length b" by (simp add: string_loop.simps [of b triple hashes ls i] split: if_splits)
  have run: "j + hashes \<le> length b" if "hashes \<le> hash_run b j" "j \<le> length b" for j
    using hash_run_le [of j b] that by simp
  show ?case
  proof (cases "newline_len b i")
    case (Some n)
    with 1 i newline_len_pos [OF Some] show ?thesis by (auto simp: string_loop.simps [of b triple hashes ls i])
  next
    case None
    consider "b ! i = 0x5c \<and> hashes = 0" | "\<not> (b ! i = 0x5c \<and> hashes = 0)" "b ! i \<noteq> quote_mark"
      | "b ! i = quote_mark" "triple \<and> (\<not> three_quotes b i \<or> \<not> only_spaces (take (i - ls) (drop ls b)) (hashes = 0) 0)"
      | "b ! i = quote_mark" "\<not> (triple \<and> (\<not> three_quotes b i \<or> \<not> only_spaces (take (i - ls) (drop ls b)) (hashes = 0) 0))"
      by blast
    then show ?thesis
    proof cases
      case 1
      with "1.prems" "1.IH"(1) i None show ?thesis
        by (cases "newline_len b (i + 1) = None") (auto simp: string_loop.simps [of b triple 0 ls i])
    next
      case 2
      with "1.prems" "1.IH"(4) i None show ?thesis
        by (auto simp: string_loop.simps [of b triple hashes ls i])
    next
      case 3
      with "1.prems" "1.IH"(2) i None show ?thesis
        by (auto simp: string_loop.simps [of b True hashes ls i] quote_mark_def)
    next
      case 4
      define after where "after = i + (if triple then 3 else 1)"
      have after: "i < after" "after \<le> length b"
        using 4(2) i three_quotes_le [of b i] by (auto simp: after_def)
      have "string_loop b triple hashes ls i =
          (if hashes \<le> hash_run b after then Some (after + hashes) else string_loop b triple hashes ls after)"
        using 4 i None by (subst string_loop.simps) (cases triple; auto simp: after_def Let_def quote_mark_def)
      with "1.prems" "1.IH"(3) [OF i None _ 4 after_def] after run [of after] 4(1) show ?thesis
        by (auto simp: quote_mark_def split: if_splits)
    qed
  qed
qed

lemma escline_loop_end: "i \<le> length b \<Longrightarrow> i \<le> escline_loop b i \<and> escline_loop b i \<le> length b"
proof (induction b i rule: escline_loop.induct)
  case (1 b i)
  show ?case
  proof (cases "i < length b \<and> newline_len b i = None")
    case True
    then show ?thesis using "1.IH" line_comment_end_less [of i b] line_comment_end_le [of i b]
      by (auto simp: escline_loop.simps [of b i])
  next
    case False
    with "1.prems" newline_len_pos [of b i] show ?thesis
      by (cases "i < length b") (auto simp: escline_loop.simps [of b i] escline_loop.simps [of b "length b"])
  qed
qed

lemma block_comment_end_moves:
  assumes "i + 1 < length b"
  shows "i < fst (block_comment_end b i) \<and> fst (block_comment_end b i) \<le> length b"
proof -
  obtain n m where t: "comment_text 1 (drop (i + 2) b) = (n, m)" by fastforce
  then have "n \<le> length b - (i + 2)" using comment_text_le [of 1 "drop (i + 2) b"] by simp
  with block_loop_text [of "i + 2" b 0 1 n m] assms t show ?thesis
    by (auto simp: block_comment_end_def split: if_splits)
qed

lemma string_end_moves: "string_end b q hashes = Some e \<Longrightarrow> q < e \<and> e \<le> length b"
  by (auto simp: string_end_def Let_def dest!: string_loop_end split: if_splits)

lemma hash_run_pos: "i < length b \<Longrightarrow> b ! i = 0x23 \<Longrightarrow> 0 < hash_run b i"
  by (auto simp: hash_run_def simp flip: Cons_nth_drop_Suc)

lemma scan_next_moves:
  assumes i: "i < length b" and nl: "newline_len b i = None"
  shows "i < fst (scan_next b depth i) \<and> fst (scan_next b depth i) \<le> length b"
proof -
  have 1: "i < line_comment_end b i" "line_comment_end b i \<le> length b"
    using line_comment_end_less [OF i nl] line_comment_end_le [of i b] i by auto
  have 2: "i < fst (block_comment_end b i) \<and> fst (block_comment_end b i) \<le> length b" if "get_at b (i + 1) = Some star"
    using that block_comment_end_moves [of i b] by (simp add: get_at_eq_Some)
  have 3: "i < escline_end b i \<and> escline_end b i \<le> length b"
    using i escline_loop_end [of "i + 1" b] by (simp add: escline_end_def)
  have 4: "i < (case string_end b j h of Some e \<Rightarrow> e | None \<Rightarrow> j + 1) \<and>
      (case string_end b j h of Some e \<Rightarrow> e | None \<Rightarrow> j + 1) \<le> length b" if "i \<le> j" "j < length b" for j h
    using that string_end_moves [of b j h] by (auto split: option.splits)
  have 5: "0 < hash_run b i" if "b ! i = 0x23" using hash_run_pos [OF i that] .
  have 6: "i + hash_run b i \<le> length b" using hash_run_le [of i b] i by simp
  show ?thesis
    using 1 2 3 4 [of i 0] 4 [of "i + hash_run b i" "hash_run b i"] 5 6 i
    by (auto simp: scan_next_def Let_def get_at_eq_Some split: if_splits)
qed

text \<open>So the scan ends, whatever the text; what it returns are openings of lines, in order.\<close>

definition line_opens :: "bytes \<Rightarrow> nat \<Rightarrow> bool" where
  "line_opens b i \<longleftrightarrow> i = 0 \<or> (\<exists>j < i. newline_len b j = Some (i - j))"

lemma marks_loop_ends:
  assumes "i \<le> length b" and "opens_line \<Longrightarrow> line_opens b i"
  shows "\<exists>ms. marks_loop b depth opens_line i out = Some (out @ ms) \<and> sorted_wrt (<) ms \<and>
    (\<forall>m \<in> set ms. i \<le> m \<and> m + 1 < length b \<and> b ! m = slash \<and> b ! (m + 1) = 0x2d \<and> line_opens b m)"
  using assms
proof (induction "length b - i" arbitrary: depth opens_line i out rule: less_induct)
  case less
  consider (over) "i = length b"
    | (mark) "i < length b" "opens_line" "depth = 0" "b ! i = slash" "get_at b (i + 1) = Some 0x2d"
    | (newline) n where "i < length b" "newline_len b i = Some n"
        "\<not> (opens_line \<and> depth = 0 \<and> b ! i = slash \<and> get_at b (i + 1) = Some 0x2d)"
    | (other) "i < length b" "newline_len b i = None"
        "\<not> (opens_line \<and> depth = 0 \<and> b ! i = slash \<and> get_at b (i + 1) = Some 0x2d)"
    using less.prems(1) by (cases "newline_len b i"; force)
  then show ?case
  proof cases
    case over
    then show ?thesis by (simp add: marks_loop.simps)
  next
    case mark
    then have m: "i + 1 < length b" "b ! (i + 1) = 0x2d" by (simp_all add: get_at_eq_Some)
    have step: "marks_loop b depth opens_line i out = marks_loop b depth False (i + 2) (out @ [i])"
      using mark by (subst marks_loop.simps) simp
    from m(1) have "length b - (i + 2) < length b - i" by arith
    with m less.hyps [of "i + 2" False depth "out @ [i]"] obtain ms where
      ms: "marks_loop b depth False (i + 2) (out @ [i]) = Some ((out @ [i]) @ ms)" "sorted_wrt (<) ms"
        "\<forall>m \<in> set ms. i + 2 \<le> m \<and> m + 1 < length b \<and> b ! m = slash \<and> b ! (m + 1) = 0x2d \<and> line_opens b m"
      by auto
    show ?thesis
      by (rule exI [of _ "i # ms"]) (use ms m mark less.prems(2) step in auto)
  next
    case newline
    from newline_len_pos [OF newline(2)] have n: "0 < n" "i + n \<le> length b" by auto
    then have "line_opens b (i + n)" unfolding line_opens_def using newline(2) by (intro disjI2 exI [of _ i]) simp
    moreover from n newline(1) have "length b - (i + n) < length b - i" by arith
    ultimately obtain ms where
      "marks_loop b depth True (i + n) out = Some (out @ ms)" "sorted_wrt (<) ms"
        "\<forall>m \<in> set ms. i + n \<le> m \<and> m + 1 < length b \<and> b ! m = slash \<and> b ! (m + 1) = 0x2d \<and> line_opens b m"
      using n(2) less.hyps [of "i + n" True depth out] by blast
    moreover have "marks_loop b depth opens_line i out = marks_loop b depth True (i + n) out"
      using newline by (subst marks_loop.simps) auto
    ultimately show ?thesis by fastforce
  next
    case other
    let ?n = "fst (scan_next b depth i)" and ?d = "snd (scan_next b depth i)"
    have n: "i < ?n" "?n \<le> length b" using scan_next_moves [OF other(1,2)] by auto
    then have "length b - ?n < length b - i" using other(1) by arith
    with n(2) less.hyps [of ?n False ?d out] obtain ms where
      "marks_loop b ?d False ?n out = Some (out @ ms)" "sorted_wrt (<) ms"
        "\<forall>m \<in> set ms. ?n \<le> m \<and> m + 1 < length b \<and> b ! m = slash \<and> b ! (m + 1) = 0x2d \<and> line_opens b m"
      by auto
    moreover have "marks_loop b depth opens_line i out = marks_loop b ?d False ?n out"
      using other by (subst marks_loop.simps) auto
    ultimately show ?thesis using n(1) by fastforce
  qed
qed

lemma slashdash_marks_found:
  "\<exists>ms. slashdash_marks b = Some ms \<and> sorted_wrt (<) ms \<and>
    (\<forall>m \<in> set ms. m + 1 < length b \<and> b ! m = slash \<and> b ! (m + 1) = 0x2d \<and> line_opens b m)"
  using marks_loop_ends [of 0 b True 0 "[]"] by (auto simp: slashdash_marks_def line_opens_def)

section \<open>What the pre-check accepts\<close>

text \<open>A byte the text is refused for: a brace past the bound, or the opening of a comment too busy.\<close>

definition offends :: "bytes \<Rightarrow> nat \<Rightarrow> bool" where
  "offends b i \<longleftrightarrow>
     b ! i = 0x7b \<and> length (filter (\<lambda>c. c = 0x7b) (take (i + 1) b)) > MAX_NESTING \<or>
     opens_comment b i \<and> snd (comment_text 1 (drop (i + 2) b)) > MAX_COMMENT_MARKS"

lemma block_comment_marks:
  assumes "opens_comment b i"
  shows "snd (block_comment_end b i) > MAX_COMMENT_MARKS \<longleftrightarrow> snd (comment_text 1 (drop (i + 2) b)) > MAX_COMMENT_MARKS"
proof -
  obtain n m where t: "comment_text 1 (drop (i + 2) b) = (n, m)" by fastforce
  from assms have "i + 2 \<le> length b" by (simp add: opens_comment_def get_at_eq_Some)
  with block_loop_text [of "i + 2" b 0 1 n m] t show ?thesis
    by (auto simp: block_comment_end_def split: if_splits)
qed

lemma bounds_loop_find:
  assumes "i \<le> length b" and "opens = length (filter (\<lambda>c. c = 0x7b) (take i b))" and "opens \<le> MAX_NESTING"
  shows "bounds_loop b opens i =
    (case List.find (offends b) [i..<length b] of
       None \<Rightarrow> Inr ()
     | Some j \<Rightarrow> Inl (if b ! j = 0x7b then TooDeep (line_or_0 b j) MAX_NESTING
                        else CommentTooBusy (line_or_0 b j) MAX_COMMENT_MARKS))"
  using assms
proof (induction "length b - i" arbitrary: i opens)
  case 0
  then show ?case by (simp add: bounds_loop.simps)
next
  case (Suc k)
  then have i: "i < length b" by simp
  then have upt: "[i..<length b] = i # [i + 1..<length b]" by (simp add: upt_conv_Cons)
  have take: "take (i + 1) b = take i b @ [b ! i]" using i by (simp add: take_Suc_conv_app_nth)
  have oc: "opens_comment b i \<longleftrightarrow> b ! i = slash \<and> get_at b (i + 1) = Some star" using i by (simp add: opens_comment_def)
  from Suc.hyps(2) have k: "k = length b - (i + 1)" by simp
  show ?case
  proof (cases "b ! i = 0x7b")
    case True
    with Suc.prems(2) take have cnt: "opens + 1 = length (filter (\<lambda>c. c = 0x7b) (take (i + 1) b))" by simp
    with True have off: "offends b i \<longleftrightarrow> opens + 1 > MAX_NESTING"
      by (auto simp: offends_def oc slash_def)
    show ?thesis
      using Suc.hyps(1) [OF k _ cnt] True i off
      by (simp add: bounds_loop.simps [of b opens i] upt)
  next
    case False
    with Suc.prems(2) take have cnt: "opens = length (filter (\<lambda>c. c = 0x7b) (take (i + 1) b))" by simp
    from False have off: "offends b i \<longleftrightarrow> opens_comment b i \<and> snd (block_comment_end b i) > MAX_COMMENT_MARKS"
      using block_comment_marks [of b i] by (auto simp: offends_def)
    show ?thesis
      using Suc.hyps(1) [OF k _ cnt Suc.prems(3)] False i off
      by (auto simp: bounds_loop.simps [of b opens i] upt oc)
  qed
qed

text \<open>The turns of the measuring loop, as the positions it stands at.\<close>

function block_walk :: "bytes \<Rightarrow> nat \<Rightarrow> nat \<Rightarrow> nat \<Rightarrow> nat list" where
  "block_walk b opn marks i =
     (if i + 1 < length b \<and> marks \<le> MAX_COMMENT_MARKS then
        i # (if b ! i = slash \<and> b ! (i + 1) = star then block_walk b (opn + 1) (marks + 2) (i + 2)
             else if b ! i = star \<and> b ! (i + 1) = slash then
               if opn - 1 = 0 then [] else block_walk b (opn - 1) (marks + 2) (i + 2)
             else if is_mark (b ! i) then block_walk b opn (marks + 1) (i + 1)
             else block_walk b opn marks (i + 1))
      else [])"
  by pat_completeness auto
termination by (relation "measure (\<lambda>(b, opn, marks, i). length b - i)") auto

declare block_walk.simps [simp del]

definition marks_between :: "bytes \<Rightarrow> nat \<Rightarrow> nat \<Rightarrow> nat" where
  "marks_between b i j = length (filter (\<lambda>k. is_mark (b ! k)) [i..<j])"

lemma marks_between_step:
  "i < j \<Longrightarrow> marks_between b i j = (if is_mark (b ! i) then 1 else 0) + marks_between b (i + 1) j"
  by (simp add: marks_between_def upt_conv_Cons)

lemma block_walk_cases:
  assumes "j \<in> set (block_walk b opn marks i)"
  obtains "j = i" "i + 1 < length b" "marks \<le> MAX_COMMENT_MARKS"
    | opn' where "j \<in> set (block_walk b opn' (marks + 2) (i + 2))" "is_mark (b ! i)" "is_mark (b ! (i + 1))" "i + 1 < length b"
    | "j \<in> set (block_walk b opn (marks + (if is_mark (b ! i) then 1 else 0)) (i + 1))" "i + 1 < length b"
  using assms by (subst (asm) block_walk.simps) (auto simp: is_mark_def split: if_splits)

lemma block_walk_bounds:
  "j \<in> set (block_walk b opn marks i) \<Longrightarrow> i \<le> j \<and> j + 1 < length b \<and> marks + marks_between b i j \<le> MAX_COMMENT_MARKS"
proof (induction "length b - i" arbitrary: opn marks i rule: less_induct)
  case less
  from less.prems show ?case
  proof (cases rule: block_walk_cases)
    case 1
    then show ?thesis by (simp add: marks_between_def)
  next
    case (2 opn')
    then have "length b - (i + 2) < length b - i" by arith
    from less.hyps [OF this 2(1)] 2(2,3) show ?thesis
      using marks_between_step [of i j b] marks_between_step [of "i + 1" j b] by simp
  next
    case 3
    then have "length b - (i + 1) < length b - i" by arith
    from less.hyps [OF this 3(1)] show ?thesis
      using marks_between_step [of i j b] by simp
  qed
qed

lemma block_walk_shape:
  "block_walk b opn marks i = [] \<or> block_walk b opn marks i = [i] \<or>
   i + 1 < length b \<and> (\<exists>opn' marks' k. block_walk b opn marks i = i # block_walk b opn' marks' (i + Suc k))"
proof (cases "i + 1 < length b \<and> marks \<le> MAX_COMMENT_MARKS")
  case True
  note walk = block_walk.simps [of b opn marks i]
  consider "b ! i = slash \<and> b ! (i + 1) = star"
    | "\<not> (b ! i = slash \<and> b ! (i + 1) = star)" "b ! i = star \<and> b ! (i + 1) = slash"
    | "\<not> (b ! i = slash \<and> b ! (i + 1) = star)" "\<not> (b ! i = star \<and> b ! (i + 1) = slash)"
    by blast
  then show ?thesis
  proof cases
    case 1
    then have "block_walk b opn marks i = i # block_walk b (opn + 1) (marks + 2) (i + Suc 1)"
      using True by (subst walk) simp
    with True show ?thesis by blast
  next
    case 2
    then have "block_walk b opn marks i = (if opn - 1 = 0 then [i] else i # block_walk b (opn - 1) (marks + 2) (i + Suc 1))"
      by (subst walk) (simp only: if_P [OF True] if_not_P [OF 2(1)] if_P [OF 2(2)], simp)
    with True show ?thesis by (metis (no_types, lifting))
  next
    case 3
    then have "block_walk b opn marks i = i # block_walk b opn (marks + (if is_mark (b ! i) then 1 else 0)) (i + Suc 0)"
      by (subst walk) (simp only: if_P [OF True] if_not_P [OF 3(1)] if_not_P [OF 3(2)], simp)
    with True show ?thesis by blast
  qed
qed (subst block_walk.simps, simp)

lemma block_walk_distinct: "distinct (block_walk b opn marks i)"
proof (induction "length b - i" arbitrary: opn marks i rule: less_induct)
  case less
  from block_walk_shape [of b opn marks i] show ?case
  proof (elim disjE exE conjE)
    fix opn' marks' k
    assume i: "i + 1 < length b" and w: "block_walk b opn marks i = i # block_walk b opn' marks' (i + Suc k)"
    have "length b - (i + Suc k) < length b - i" using i by arith
    with less w show ?thesis using block_walk_bounds [of i b opn' marks' "i + Suc k"] by auto
  qed simp_all
qed

lemma walks_over_one:
  "card {i. opens_comment b i \<and> j \<in> set (block_walk b 1 0 (i + 2))} \<le> 65"
proof -
  define V where "V = {i. opens_comment b i \<and> j \<in> set (block_walk b 1 0 (i + 2))}"
  have fin: "finite V" unfolding V_def by (rule finite_subset [of _ "{..<length b}"]) (auto simp: opens_comment_def)
  have oc: "b ! i = slash" "b ! (i + 1) = star" if "i \<in> V" for i
    using that by (simp_all add: V_def opens_comment_def get_at_eq_Some)
  have to_j: "i + 2 \<le> j" "marks_between b (i + 2) j \<le> MAX_COMMENT_MARKS" if "i \<in> V" for i
    using that block_walk_bounds [of j b 1 0 "i + 2"] by (simp_all add: V_def)
  show ?thesis
  proof (cases "V = {}")
    case False
    define m where "m = Min V"
    define R where "R = V - {m}"
    define K where "K = {k \<in> {m + 2..<j}. is_mark (b ! k)}"
    have m: "m \<in> V" using False fin by (simp add: m_def)
    have sub: "R \<subseteq> V" by (auto simp: R_def)
    have R: "m + 2 \<le> i" if "i \<in> R" for i
    proof -
      from that have "m < i" using Min_le [OF fin, of i] by (auto simp: m_def R_def order.strict_iff_order)
      moreover have "i \<noteq> m + 1" using oc(1) [of i] oc(2) [OF m] that sub by (auto simp: slash_def)
      ultimately show ?thesis by simp
    qed
    have "k \<in> K" "k + 1 \<in> K" if "k \<in> R" for k
      using that R [of k] oc [of k] to_j(1) [of k] sub by (auto simp: K_def is_mark_def)
    then have "R \<union> Suc ` R \<subseteq> K" by auto
    then have "card (R \<union> Suc ` R) \<le> card K" by (rule card_mono [rotated]) (simp add: K_def)
    moreover have "R \<inter> Suc ` R = {}"
    proof (rule equals0I)
      fix k assume "k \<in> R \<inter> Suc ` R"
      then obtain i where "k \<in> V" "i \<in> V" "k = i + 1" using sub by auto
      with oc(1) [of k] oc(2) [of i] show False by (simp add: slash_def)
    qed
    then have "card (R \<union> Suc ` R) = 2 * card R"
      using finite_subset [OF sub fin] by (simp add: card_Un_disjoint card_image)
    moreover have "card K = marks_between b (m + 2) j"
      unfolding marks_between_def by (subst distinct_card [symmetric]) (simp_all add: K_def)
    ultimately have "2 * card R \<le> MAX_COMMENT_MARKS" using to_j(2) [OF m] by simp
    moreover have "card V = card R + 1" using card.remove [OF fin m] by (simp add: R_def)
    ultimately show ?thesis unfolding V_def [symmetric] by (simp add: MAX_COMMENT_MARKS_def)
  qed (unfold V_def [symmetric], simp)
qed

lemma walks_linear:
  "(\<Sum>i | opens_comment b i. length (block_walk b 1 0 (i + 2))) \<le> 65 * length b"
proof -
  let ?O = "{i. opens_comment b i}" and ?W = "\<lambda>i. set (block_walk b 1 0 (i + 2))"
  have fin: "finite ?O" by (rule finite_subset [of _ "{..<length b}"]) (auto simp: opens_comment_def)
  have W: "?W i \<subseteq> {..<length b}" for i using block_walk_bounds by fastforce
  have "length (block_walk b 1 0 (i + 2)) = (\<Sum>j < length b. if j \<in> ?W i then 1 else 0)" for i
    using W [of i] by (simp add: sum.If_cases Int_absorb1 flip: distinct_card [OF block_walk_distinct])
  then have "(\<Sum>i \<in> ?O. length (block_walk b 1 0 (i + 2))) = (\<Sum>j < length b. \<Sum>i \<in> ?O. if j \<in> ?W i then 1 else 0)"
    by (simp add: sum.swap [of _ "{..<length b}"])
  also have "\<dots> \<le> (\<Sum>j < length b. 65)"
  proof (rule sum_mono)
    fix j
    have "(\<Sum>i \<in> ?O. if j \<in> ?W i then 1 else 0 :: nat) = card {i \<in> ?O. j \<in> ?W i}"
      using fin by (simp add: sum.If_cases Collect_conj_eq Int_commute)
    with walks_over_one [of b j] show "(\<Sum>i \<in> ?O. if j \<in> ?W i then 1 else 0) \<le> (65 :: nat)" by simp
  qed
  finally show ?thesis by simp
qed

text \<open>
  Before a configuration reaches the KDL parser, \<^verbatim>\<open>check_bounds\<close> refuses it exactly when it is over
  \<^verbatim>\<open>MAX_BYTES\<close>, or else at its first byte that is a brace past the thirty-second, wherever it stands, or
  the opening of a comment with more than \<^verbatim>\<open>MAX_COMMENT_MARKS\<close> marks, nested comments
  included (\<open>comment_text\<close> measures the whole comment: stopping the measure early hides none).
  All the measures together take at most 65 turns for each byte of the text.
\<close>

theorem check_bounds_exact:
  "check_bounds text =
     (if length text > MAX_BYTES then Inl (ConfigTooLarge (length text) MAX_BYTES)
      else case List.find (offends text) [0..<length text] of
        None \<Rightarrow> Inr ()
      | Some i \<Rightarrow> Inl (if text ! i = 0x7b then TooDeep (line_or_0 text i) MAX_NESTING
                         else CommentTooBusy (line_or_0 text i) MAX_COMMENT_MARKS)) \<and>
   (\<Sum>i | opens_comment text i. length (block_walk text 1 0 (i + 2))) \<le> 65 * length text"
  using walks_linear [of "text"] by (simp only: check_bounds_def bounds_loop_find [of 0 "text" 0] take_0 filter.simps list.size le0)

text \<open>In a text without comments, strings, escapes and blocks the marks are all the \<^verbatim>\<open>/-\<close> at the
  openings of lines.\<close>

function line_starts :: "bytes \<Rightarrow> nat \<Rightarrow> nat list" where
  "line_starts b i =
     (if i < length b then
        (case newline_len b i of Some n \<Rightarrow> (i + n) # line_starts b (i + n) | None \<Rightarrow> line_starts b (i + 1))
      else [])"
  by pat_completeness auto
termination by (relation "measure (\<lambda>(b, i). length b - i)") (auto dest: newline_len_pos)

declare line_starts.simps [simp del]

definition slashdash :: "bytes \<Rightarrow> nat \<Rightarrow> bool" where
  "slashdash b m \<longleftrightarrow> m + 1 < length b \<and> b ! m = slash \<and> b ! (m + 1) = 0x2d"

definition plain_text :: "bytes \<Rightarrow> bool" where
  "plain_text b \<longleftrightarrow>
     list_all (\<lambda>c. c \<notin> {quote_mark, 0x5c, 0x23, 0x7b, 0x7d}) b \<and>
     list_all (\<lambda>i. \<not> (b ! i = slash \<and> (get_at b (i + 1) = Some slash \<or> get_at b (i + 1) = Some star))) [0..<length b]"

lemma plain_scan_next: "plain_text b \<Longrightarrow> i < length b \<Longrightarrow> scan_next b depth i = (i + 1, depth)"
  by (auto simp: plain_text_def scan_next_def list_all_iff)

lemma slashdash_no_newline: "slashdash b m \<Longrightarrow> newline_len b m = None \<and> newline_len b (m + 1) = None"
  by (auto simp: slashdash_def newline_len_def get_at_def slash_def)

lemma marks_loop_plain:
  assumes "plain_text b" and "i \<le> length b"
  shows "marks_loop b 0 opens_line i out =
    Some (out @ filter (slashdash b) (if opens_line then i # line_starts b i else line_starts b i))"
  using assms(2)
proof (induction "length b - i" arbitrary: opens_line i out rule: less_induct)
  case less
  consider (over) "i = length b" | (mark) "i < length b" "opens_line" "slashdash b i"
    | (newline) n where "i < length b" "newline_len b i = Some n" "\<not> (opens_line \<and> slashdash b i)"
    | (other) "i < length b" "newline_len b i = None" "\<not> (opens_line \<and> slashdash b i)"
    using less.prems by (cases "newline_len b i"; force)
  then show ?case
  proof cases
    case over
    then show ?thesis by (simp add: marks_loop.simps line_starts.simps slashdash_def)
  next
    case mark
    then have m: "i + 1 < length b" "b ! i = slash" "get_at b (i + 1) = Some 0x2d" by (auto simp: slashdash_def get_at_def)
    from m(1) have "length b - (i + 2) < length b - i" by arith
    from less.hyps [OF this, of False "out @ [i]"] m
    have "marks_loop b 0 opens_line i out = Some ((out @ [i]) @ filter (slashdash b) (line_starts b (i + 2)))"
      using mark by (subst marks_loop.simps) simp
    moreover have "line_starts b i = line_starts b (i + 2)"
      using slashdash_no_newline [OF mark(3)] m(1) line_starts.simps [of b "i + 1"] mark(1) by (subst line_starts.simps) simp
    ultimately show ?thesis using mark by simp
  next
    case newline
    from newline_len_pos [OF newline(2)] have n: "0 < n" "i + n \<le> length b" by auto
    from n newline(1) have "length b - (i + n) < length b - i" by arith
    from less.hyps [OF this n(2), of True out] newline(3)
    have "marks_loop b 0 opens_line i out = Some (out @ filter (slashdash b) ((i + n) # line_starts b (i + n)))"
      using newline(1,2) by (subst marks_loop.simps) (auto simp: slashdash_def get_at_def)
    moreover have "\<not> slashdash b i" using slashdash_no_newline [of b i] newline(2) by auto
    moreover have "line_starts b i = (i + n) # line_starts b (i + n)" using newline by (subst line_starts.simps) simp
    ultimately show ?thesis by simp
  next
    case other
    from other(1) have "length b - (i + 1) < length b - i" by arith
    from less.hyps [OF this, of False out] other
    have "marks_loop b 0 opens_line i out = Some (out @ filter (slashdash b) (line_starts b (i + 1)))"
      by (subst marks_loop.simps) (auto simp: slashdash_def get_at_def plain_scan_next [OF assms(1)])
    moreover have "line_starts b i = line_starts b (i + 1)" using other by (subst line_starts.simps) simp
    ultimately show ?thesis using other(3) by auto
  qed
qed

text \<open>
  The scan for the \<^verbatim>\<open>/-\<close> lines of a text always returns, and every mark it returns is a
  \<^verbatim>\<open>/-\<close> at the opening of a line, each once and in order; where the text holds nothing the scan steps
  over, they are all the \<^verbatim>\<open>/-\<close> there are at the openings of its lines.
\<close>

theorem slashdash_marks_ends:
  "\<exists>ms. slashdash_marks text = Some ms \<and> sorted_wrt (<) ms \<and> (\<forall>m \<in> set ms. slashdash text m \<and> line_opens text m) \<and>
     (plain_text text \<longrightarrow> ms = filter (slashdash text) (0 # line_starts text 0))"
proof -
  from slashdash_marks_found [of "text"] obtain ms where
    ms: "slashdash_marks text = Some ms" "sorted_wrt (<) ms"
      "\<forall>m \<in> set ms. slashdash text m \<and> line_opens text m" by (auto simp: slashdash_def)
  moreover have "ms = filter (slashdash text) (0 # line_starts text 0)" if "plain_text text"
    using marks_loop_plain [OF that, of 0 True "[]"] ms(1) by (simp add: slashdash_marks_def)
  ultimately show ?thesis by blast
qed

text \<open>A line turned off, and one that only looks so for the space before it.\<close>

definition demo_off :: bytes where
  "demo_off = str ''wayland'' @ [10] @ str ''/-network'' @ [13, 10] @ str '' /-dri'' @ [10] @ str ''/-tty''"

theorem slashdash_marks_ends_witness:
  "plain_text demo_off \<and> slashdash_marks demo_off = Some [8, 26]"
proof -
  have p: "plain_text demo_off" by code_simp
  moreover have "filter (slashdash demo_off) (0 # line_starts demo_off 0) = [8, 26]" by code_simp
  ultimately show ?thesis using slashdash_marks_ends [of demo_off] by auto
qed

end
