(* ===== verification/Core_Nodes.thy ===== *)
theory Core_Nodes
  imports Core_Kdl Core_Bus
begin

text \<open>
  The node readers of \<^verbatim>\<open>config.rs\<close>: each top-level KDL node as the typed value it grants, or the
  error it is refused with.  The KDL document is the one the \<^verbatim>\<open>kdl\<close> crate parsed, of which the
  readers use names, offsets, entries, children and type annotations.  Shown: what every reader accepts
  is well-formed (\<open>node_ok\<close>), whatever document it is given.
\<close>

section \<open>KDL nodes\<close>

text \<open>A value is what \<^verbatim>\<open>as_string\<close>, \<^verbatim>\<open>as_integer\<close> and \<^verbatim>\<open>as_bool\<close> can tell of it: a float and
  \<^verbatim>\<open>#null\<close> are neither.\<close>

datatype KdlValue = KString bytes | KInteger int | KBool bool | KOther

fun as_string :: "KdlValue \<Rightarrow> bytes option" where
  "as_string (KString s) = Some s"
| "as_string _ = None"

fun as_integer :: "KdlValue \<Rightarrow> int option" where
  "as_integer (KInteger n) = Some n"
| "as_integer _ = None"

fun as_bool :: "KdlValue \<Rightarrow> bool option" where
  "as_bool (KBool b) = Some b"
| "as_bool _ = None"

record KdlEntry =
  en_name :: "bytes option"
  en_value :: KdlValue
  en_typed :: bool

datatype KdlNode =
  KdlNode (kn_name: bytes) (kn_offset: nat) (kn_typed: bool) (kn_entries: "KdlEntry list")
    (kn_children: "KdlNode list option") (kn_leading: "bytes option")

definition arg_entry :: "KdlValue \<Rightarrow> KdlEntry" where
  "arg_entry v = \<lparr>en_name = None, en_value = v, en_typed = False\<rparr>"

definition prop_entry :: "bytes \<Rightarrow> KdlValue \<Rightarrow> KdlEntry" where
  "prop_entry p v = \<lparr>en_name = Some p, en_value = v, en_typed = False\<rparr>"

section \<open>Refusals\<close>

definition bad :: "KdlNode \<Rightarrow> bytes \<Rightarrow> ConfigError" where
  "bad node reason = BadArgument (kn_name node) reason"

definition unknown_property :: "KdlNode \<Rightarrow> bytes \<Rightarrow> ConfigError" where
  "unknown_property node prop = UnknownProperty (kn_name node) prop"

definition refuse_if :: "bool \<Rightarrow> ConfigError \<Rightarrow> ConfigError + unit" where
  "refuse_if b e = (if b then Inl e else Inr ())"

lemma refuse_if_Inr [simp]: "refuse_if b e = Inr u \<longleftrightarrow> \<not> b"
  by (simp add: refuse_if_def)

definition map_err :: "('e \<Rightarrow> 'f) \<Rightarrow> 'e + 'a \<Rightarrow> 'f + 'a" where
  "map_err f r = (case r of Inl e \<Rightarrow> Inl (f e) | Inr a \<Rightarrow> Inr a)"

lemma map_err_Inr [simp]: "map_err f r = Inr a \<longleftrightarrow> r = Inr a"
  by (cases r) (simp_all add: map_err_def)

text \<open>A loop over entries or children that may return early with an error.\<close>

fun fold_res :: "('s \<Rightarrow> 'a \<Rightarrow> 'e + 's) \<Rightarrow> 's \<Rightarrow> 'a list \<Rightarrow> 'e + 's" where
  "fold_res f s [] = Inr s"
| "fold_res f s (x # xs) = res_bind (f s x) (\<lambda>s'. fold_res f s' xs)"

lemma fold_res_invariant:
  assumes "fold_res f s xs = Inr t" and "P s" and "\<And>s x s'. P s \<Longrightarrow> x \<in> set xs \<Longrightarrow> f s x = Inr s' \<Longrightarrow> P s'"
  shows "P t"
  using assms
proof (induction xs arbitrary: s)
  case (Cons x xs)
  from Cons.prems(1) obtain s' where s': "f s x = Inr s'" "fold_res f s' xs = Inr t" by (auto simp: res_bind_eq_Inr)
  show ?case
  proof (rule Cons.IH [OF s'(2)])
    show "P s'" using Cons.prems(3) [OF Cons.prems(2) _ s'(1)] by simp
  next
    fix u y u' assume "P u" "y \<in> set xs" "f u y = Inr u'"
    then show "P u'" using Cons.prems(3) [of u y u'] by simp
  qed
qed simp

definition reject_types :: "KdlNode \<Rightarrow> ConfigError + unit" where
  "reject_types node =
     refuse_if (kn_typed node \<or> list_ex en_typed (kn_entries node)) (bad node (str ''type annotations are not supported''))"

definition reject_arguments :: "KdlNode \<Rightarrow> ConfigError + unit" where
  "reject_arguments node =
     (case kn_entries node of
        [] \<Rightarrow> Inr ()
      | e # _ \<Rightarrow>
          (case en_name e of
             Some p \<Rightarrow> Inl (unknown_property node p)
           | None \<Rightarrow> Inl (bad node (str ''takes no arguments''))))"

definition reject_children :: "KdlNode \<Rightarrow> ConfigError + unit" where
  "reject_children node = refuse_if (kn_children node \<noteq> None) (bad node (str ''takes no children''))"

definition reject_entries :: "KdlNode \<Rightarrow> ConfigError + unit" where
  "reject_entries node = res_bind (reject_arguments node) (\<lambda>_. reject_children node)"

definition one_string_arg :: "KdlNode \<Rightarrow> ConfigError + bytes" where
  "one_string_arg node =
     (case find_map en_name (kn_entries node) of
        Some p \<Rightarrow> Inl (unknown_property node p)
      | None \<Rightarrow>
          (case kn_entries node of
             [e] \<Rightarrow> ok_or (bad node (str ''expects exactly one string argument'')) (as_string (en_value e))
           | _ \<Rightarrow> Inl (bad node (str ''expects exactly one string argument''))))"

text \<open>White space as \<^verbatim>\<open>char::is_whitespace\<close> has it: the union of KDL's newlines and spaces.\<close>

definition white_len :: "bytes \<Rightarrow> nat \<Rightarrow> nat option" where
  "white_len b i = (case newline_len b i of Some n \<Rightarrow> Some n | None \<Rightarrow> space_len b i)"

lemma white_len_pos: "white_len b i = Some n \<Longrightarrow> 0 < n"
  by (auto simp: white_len_def dest: newline_len_pos space_len_pos split: option.splits)

definition has_whitespace :: "bytes \<Rightarrow> bool" where
  "has_whitespace s \<longleftrightarrow> list_ex (\<lambda>i. white_len s i \<noteq> None) [0..<length s]"

function all_white :: "bytes \<Rightarrow> nat \<Rightarrow> bool" where
  "all_white b i = (if i < length b then (case white_len b i of Some n \<Rightarrow> all_white b (i + n) | None \<Rightarrow> False) else True)"
  by pat_completeness auto
termination by (relation "measure (\<lambda>(b, i). length b - i)") (auto dest: white_len_pos)

declare all_white.simps [simp del]

definition forbidden_byte :: "bytes \<Rightarrow> bytes option" where
  "forbidden_byte s =
     find_map (\<lambda>b. if b = 0 then Some (str ''a NUL byte'') else if b = 10 then Some (str ''a newline'')
       else if b = 13 then Some (str ''a carriage return'') else None) s"

section \<open>Shares and names\<close>

fun is_normal :: "Component \<Rightarrow> bool" where
  "is_normal (Normal _) = True"
| "is_normal _ = False"

definition validate_absolute :: "KdlNode \<Rightarrow> bytes \<Rightarrow> ConfigError + path" where
  "validate_absolute node s =
     (let comps = components s in
      if comps = [] \<or> hd comps \<noteq> RootDir \<or> \<not> list_all is_normal (tl comps)
      then Inl (bad node (str ''path must be absolute and contain no `.` or `..` component''))
      else Inr (collect_path comps))"

definition validate_relative :: "KdlNode \<Rightarrow> bytes \<Rightarrow> ConfigError + path" where
  "validate_relative node s =
     (if s = [] \<or> \<not> list_all is_normal (components s)
      then Inl (bad node (str ''path must be relative to the home directory and contain no `..`''))
      else Inr (collect_path (components s)))"

definition validate_app_id :: "KdlNode \<Rightarrow> bytes \<Rightarrow> ConfigError + bytes" where
  "validate_app_id node s =
     (if \<not> is_valid_app_id s
      then Inl (bad node (str (''expects an application id such as \"org.example.App\": at least two '' @
        ''`.`-separated elements of letters, digits and `_`, `-` allowed in the last'')))
      else Inr s)"

record 'a ShareRead =
  sr_value :: "'a option"
  sr_mode :: ShareMode
  sr_optional :: bool

definition share_entry ::
  "KdlNode \<Rightarrow> bytes \<Rightarrow> (KdlNode \<Rightarrow> bytes \<Rightarrow> ConfigError + 'a) \<Rightarrow> bool \<Rightarrow> 'a ShareRead \<Rightarrow> KdlEntry \<Rightarrow> ConfigError + 'a ShareRead" where
  "share_entry node what validate allow_optional st e =
     (case en_name e of
        None \<Rightarrow>
          if sr_value st \<noteq> None then Inl (bad node (str ''expects exactly one '' @ what @ str '' argument''))
          else
            res_bind (ok_or (bad node (what @ str '' must be a string'')) (as_string (en_value e))) (\<lambda>s.
            res_bind (validate node s) (\<lambda>v. Inr (st\<lparr>sr_value := Some v\<rparr>)))
      | Some p \<Rightarrow>
          if p = str ''mode'' then
            if as_string (en_value e) = Some (str ''ro'') then Inr (st\<lparr>sr_mode := ReadOnly\<rparr>)
            else if as_string (en_value e) = Some (str ''rw'') then Inr (st\<lparr>sr_mode := ReadWrite\<rparr>)
            else Inl (bad node (str ''mode must be \"ro\" or \"rw\"''))
          else if p = str ''optional'' \<and> allow_optional then
            res_bind (ok_or (bad node (str ''optional must be #true or #false'')) (as_bool (en_value e))) (\<lambda>opt.
            Inr (st\<lparr>sr_optional := opt\<rparr>))
          else Inl (unknown_property node p))"

definition parse_share ::
  "KdlNode \<Rightarrow> bytes \<Rightarrow> (KdlNode \<Rightarrow> bytes \<Rightarrow> ConfigError + 'a) \<Rightarrow> bool \<Rightarrow> ConfigError + 'a \<times> ShareMode \<times> bool" where
  "parse_share node what validate allow_optional =
     res_bind (fold_res (share_entry node what validate allow_optional)
       \<lparr>sr_value = None, sr_mode = ReadOnly, sr_optional = False\<rparr> (kn_entries node)) (\<lambda>st.
     res_bind (reject_children node) (\<lambda>_.
     res_bind (ok_or (bad node (str ''expects exactly one '' @ what @ str '' argument'')) (sr_value st)) (\<lambda>v.
     Inr (v, sr_mode st, sr_optional st))))"

fun single_name :: "Component list \<Rightarrow> bytes option" where
  "single_name [Normal n] = Some n"
| "single_name _ = None"

definition etc_share_entry :: "KdlNode \<Rightarrow> bytes option \<Rightarrow> KdlEntry \<Rightarrow> ConfigError + bytes option" where
  "etc_share_entry node name e =
     (case en_name e of
        Some p \<Rightarrow> Inl (unknown_property node p)
      | None \<Rightarrow>
          if name \<noteq> None then Inl (bad node (str ''expects exactly one name argument''))
          else
            res_bind (ok_or (bad node (str ''name must be a string'')) (as_string (en_value e))) (\<lambda>s.
            res_bind (ok_or (bad node (str ''name must be a single entry directly under /etc'')) (single_name (components s))) (\<lambda>n.
              case List.find (\<lambda>r. n = r) RESERVED_ETC of
                Some r \<Rightarrow> Inl (bad node (str ''the sandbox owns /etc/'' @ r))
              | None \<Rightarrow> Inr (Some n))))"

definition parse_etc_share :: "KdlNode \<Rightarrow> ConfigError + Service" where
  "parse_etc_share node =
     res_bind (fold_res (etc_share_entry node) None (kn_entries node)) (\<lambda>name.
     res_bind (reject_children node) (\<lambda>_.
     res_bind (ok_or (bad node (str ''expects exactly one name argument'')) name) (\<lambda>n. Inr (EtcShare n))))"

section \<open>Bus names and rules\<close>

definition is_ascii_alphabetic :: "byte \<Rightarrow> bool" where
  "is_ascii_alphabetic b \<longleftrightarrow> is_ascii_upper b \<or> is_ascii_lower b"

definition is_name_element :: "bytes \<Rightarrow> bool" where
  "is_name_element s \<longleftrightarrow>
     s \<noteq> [] \<and> (is_ascii_alphabetic (hd s) \<or> hd s = underscore \<or> hd s = hyphen) \<and>
     list_all (\<lambda>b. is_ascii_alphanumeric b \<or> b = underscore \<or> b = hyphen) (tl s)"

fun glob_loop :: "nat \<Rightarrow> nat \<Rightarrow> bytes list \<Rightarrow> bool" where
  "glob_loop min_elements n [] = (min_elements \<le> n)"
| "glob_loop min_elements n (e # es) =
     (if \<not> is_name_element e \<and> \<not> (es = [] \<and> e = str ''*'') then False else glob_loop min_elements (n + 1) es)"

definition is_name_glob :: "bytes \<Rightarrow> nat \<Rightarrow> bool" where
  "is_name_glob s min_elements = glob_loop min_elements 0 (split_on dot s)"

definition is_bus_name :: "bytes \<Rightarrow> bool" where
  "is_bus_name s = is_name_glob s 2"

definition bus_name :: "KdlNode \<Rightarrow> bytes \<Rightarrow> ConfigError + bytes" where
  "bus_name node s =
     (if \<not> is_bus_name s
      then Inl (bad node (str (''expects a D-Bus well-known name such as \"org.example.App\", '' @ ''optionally ending in `.*`'')))
      else Inr s)"

definition one_rule :: "KdlNode \<Rightarrow> bool \<Rightarrow> KdlNode \<Rightarrow> bytes \<Rightarrow> ConfigError + BusRule" where
  "one_rule node own_allowed child arg =
     (let kind = kn_name child in
      if kind = str ''see'' \<or> kind = str ''talk'' \<or> kind = str ''own'' then
        if kind = str ''own'' \<and> \<not> own_allowed then Inl (bad node (str ''own is not allowed on the system bus''))
        else
          res_bind (bus_name child arg) (\<lambda>name.
            Inr (if kind = str ''see'' then See name else if kind = str ''talk'' then Talk name else Own name))
      else if kind = str ''call'' \<or> kind = str ''broadcast'' then
        res_bind (ok_or (bad child (str ''expects \"<name>=<rule>\"'')) (split_once 0x3d arg)) (\<lambda>(name, rule).
        res_bind (bus_name child name) (\<lambda>name.
          if rule = [] \<or> has_whitespace rule \<or> 0 \<in> set rule
          then Inl (bad child (str ''rule after `=` must be non-empty and hold no whitespace''))
          else Inr (if kind = str ''call'' then Call name rule else Broadcast name rule)))
      else Inl (UnknownNode kind))"

text \<open>The policy an earlier rule gave the name of this one, where the two differ.\<close>

definition other_policy :: "BusRule list \<Rightarrow> BusRule \<Rightarrow> (bytes \<times> bytes \<times> bytes) option" where
  "other_policy rules rule =
     Option.bind (bus_policy rule) (\<lambda>(name, level).
     Option.bind (List.find (\<lambda>(n, _). n = name) (List.map_filter bus_policy rules)) (\<lambda>(_, was).
       if was \<noteq> level then Some (name, was, level) else None))"

definition bus_child :: "KdlNode \<Rightarrow> bool \<Rightarrow> BusRule list \<Rightarrow> KdlNode \<Rightarrow> ConfigError + BusRule list" where
  "bus_child node own_allowed rules child =
     res_bind (reject_types child) (\<lambda>_.
     res_bind (reject_children child) (\<lambda>_.
     res_bind (one_string_arg child) (\<lambda>arg.
     res_bind (one_rule node own_allowed child arg) (\<lambda>rule.
       case other_policy rules rule of
         Some (name, was, level) \<Rightarrow>
           Inl (bad node (str ''grants '' @ quoted name @ str '' as '' @ quoted was @ str '' and as '' @ quoted level @
             str ''; one name takes one policy''))
       | None \<Rightarrow> Inr (rules @ [rule])))))"

definition children_of :: "KdlNode \<Rightarrow> KdlNode list" where
  "children_of node = (case kn_children node of Some ns \<Rightarrow> ns | None \<Rightarrow> [])"

definition parse_bus_rules :: "KdlNode \<Rightarrow> bool \<Rightarrow> ConfigError + BusRule list" where
  "parse_bus_rules node own_allowed =
     res_bind (reject_arguments node) (\<lambda>_. fold_res (bus_child node own_allowed) [] (children_of node))"

definition parse_dbus :: "KdlNode \<Rightarrow> ConfigError + Service" where
  "parse_dbus node = res_bind (parse_bus_rules node True) (\<lambda>rules. Inr (Dbus rules))"

definition parse_system_bus :: "KdlNode \<Rightarrow> ConfigError + Service" where
  "parse_system_bus node =
     res_bind (parse_bus_rules node False) (\<lambda>rules.
       if rules = [] then Inl (bad node (str ''expects at least one `see`, `talk`, `call` or `broadcast` rule''))
       else Inr (SystemBus rules))"

definition mpris_entry :: "KdlNode \<Rightarrow> bytes option \<Rightarrow> KdlEntry \<Rightarrow> ConfigError + bytes option" where
  "mpris_entry node name e =
     (case en_name e of
        Some p \<Rightarrow>
          if p = str ''name'' then
            res_bind (ok_or (bad node (str ''name must be a string'')) (as_string (en_value e))) (\<lambda>s.
              if \<not> is_name_glob s 1 then Inl (bad node (str ''name must be dot-separated name elements, `*` allowed last''))
              else Inr (Some s))
          else Inl (unknown_property node p)
      | None \<Rightarrow> Inl (bad node (str ''expects a name=\"...\" property, not arguments'')))"

definition parse_mpris :: "KdlNode \<Rightarrow> ConfigError + Service" where
  "parse_mpris node =
     res_bind (fold_res (mpris_entry node) None (kn_entries node)) (\<lambda>name.
     res_bind (reject_children node) (\<lambda>_.
     res_bind (ok_or (bad node (str ''expects a name=\"...\" property'')) name) (\<lambda>n. Inr (Mpris n))))"

section \<open>Accepted findings and variables\<close>

datatype Severity = SevError | SevWarning | SevNote

definition CHECKS :: "(bytes \<times> Severity) list" where
  "CHECKS =
     [(str ''allow-host-wildcard'', SevNote), (str ''app-runtime-rw'', SevNote), (str ''audio-policy-differs'', SevWarning),
      (str ''audio-policy-missing'', SevWarning), (str ''bundle-without-dbus'', SevError),
      (str ''camera-nodes-none-present'', SevNote), (str ''camera-nodes-no-hotplug'', SevNote),
      (str ''camera-without-portals'', SevError), (str ''command-not-found'', SevNote),
      (str ''dbus-name-is-host-exec'', SevError), (str ''dbus-name-is-risky'', SevWarning),
      (str ''dbus-without-rules'', SevWarning), (str ''desktop-entry-missing'', SevNote), (str ''dri-kms'', SevNote),
      (str ''dri-nvidia-primary'', SevNote), (str ''dup-name-policy'', SevError), (str ''env-looks-secret'', SevWarning),
      (str ''etc-host'', SevWarning), (str ''home-share-reserved'', SevError), (str ''home-share-sensitive'', SevWarning),
      (str ''lint-allow-unused'', SevNote), (str ''mpris-wildcard'', SevWarning), (str ''network-host'', SevWarning),
      (str ''outbound-deny'', SevNote), (str ''own-on-system-bus'', SevError), (str ''own-too-wide'', SevWarning),
      (str ''ozone-hint-unnecessary'', SevNote), (str ''path-share-mountpoint'', SevWarning),
      (str ''path-share-reserved'', SevError), (str ''path-share-socket'', SevWarning), (str ''pipewire-microphone'', SevNote),
      (str ''portal-talk-without-portals'', SevWarning), (str ''repeat-outside-block'', SevNote),
      (str ''seccomp-disabled'', SevWarning), (str ''secrets-access'', SevNote), (str ''share-source-missing'', SevWarning),
      (str ''system-bus-polkit-name'', SevWarning), (str ''tty-passthrough'', SevWarning),
      (str ''tty-passthrough-without-seccomp'', SevWarning), (str ''userns-disabled-with-nested-sandbox'', SevWarning),
      (str ''wayland-clipboard-open'', SevWarning), (str ''wayland-host'', SevWarning), (str ''x11-nested-no-wm'', SevNote),
      (str ''x11-without-reason'', SevWarning)]"

definition check :: "bytes \<Rightarrow> (bytes \<times> Severity) option" where
  "check i = List.find (\<lambda>c. fst c = i) CHECKS"

definition lint_allow_entry ::
  "KdlNode \<Rightarrow> bytes option \<times> bytes option \<Rightarrow> KdlEntry \<Rightarrow> ConfigError + bytes option \<times> bytes option" where
  "lint_allow_entry node = (\<lambda>(i, reason) e.
     case en_name e of
       None \<Rightarrow>
         if i \<noteq> None then Inl (bad node (str ''expects exactly one check id argument''))
         else res_bind (ok_or (bad node (str ''check id must be a string'')) (as_string (en_value e))) (\<lambda>s.
           Inr (Some s, reason))
     | Some p \<Rightarrow>
         if p = str ''reason'' then
           res_bind (ok_or (bad node (str ''reason must be a string'')) (as_string (en_value e))) (\<lambda>s. Inr (i, Some s))
         else Inl (unknown_property node p))"

definition parse_lint_allow :: "KdlNode \<Rightarrow> ConfigError + LintAllow" where
  "parse_lint_allow node =
     res_bind (fold_res (lint_allow_entry node) (None, None) (kn_entries node)) (\<lambda>(i, reason).
     res_bind (reject_children node) (\<lambda>_.
     res_bind (ok_or (bad node (str ''expects exactly one check id argument'')) i) (\<lambda>i.
       case check i of
         None \<Rightarrow>
           Inl (if list_all (\<lambda>b. is_ascii_lower b \<or> is_ascii_digit b \<or> b = hyphen) i
                then bad node (quoted i @ str '' is not a lint check'')
                else bad node (str ''expects a lint check id such as \"x11-without-reason\"''))
       | Some (_, severity) \<Rightarrow>
           if severity = SevError
           then Inl (bad node (quoted i @ str '' reports an error, and an error cannot be accepted away''))
           else
             res_bind (ok_or (bad node (str ''expects a reason=\"...\" property'')) reason) (\<lambda>reason.
               if all_white reason 0 then Inl (bad node (str ''reason must say why the finding is accepted''))
               else
                 case forbidden_byte reason of
                   Some what \<Rightarrow> Inl (bad node (str ''reason contains '' @ what))
                 | None \<Rightarrow> Inr \<lparr>la_id = i, la_reason = reason\<rparr>))))"

definition is_env_key :: "bytes \<Rightarrow> bool" where
  "is_env_key key \<longleftrightarrow>
     key \<noteq> [] \<and> (is_ascii_alphabetic (hd key) \<or> hd key = underscore) \<and>
     list_all (\<lambda>b. is_ascii_alphanumeric b \<or> b = underscore) (tl key)"

definition env_entry :: "KdlNode \<Rightarrow> (bytes \<times> bytes) list \<Rightarrow> KdlEntry \<Rightarrow> ConfigError + (bytes \<times> bytes) list" where
  "env_entry node out e =
     res_bind (ok_or (bad node (str ''expects KEY=\"value\" properties, not arguments'')) (en_name e)) (\<lambda>key.
     res_bind (ok_or (bad node (str ''values must be strings'')) (as_string (en_value e))) (\<lambda>val.
       if \<not> is_env_key key then Inl (bad node (quoted key @ str '' is not a usable variable name''))
       else
         case forbidden_byte val of
           Some what \<Rightarrow> Inl (bad node (str ''value of '' @ key @ str '' contains '' @ what))
         | None \<Rightarrow>
             if key \<in> set RESERVED_ENV then Inl (bad node (key @ str '' is set by bubbler and cannot be overridden''))
             else if key \<in> set (map fst out) then Inl (Duplicate key)
             else Inr (out @ [(key, val)])))"

definition parse_env :: "KdlNode \<Rightarrow> ConfigError + (bytes \<times> bytes) list" where
  "parse_env node =
     (if kn_entries node = [] then Inl (bad node (str ''expects KEY=\"value\" properties''))
      else
        res_bind (fold_res (env_entry node) [] (kn_entries node)) (\<lambda>out.
        res_bind (reject_children node) (\<lambda>_. Inr out)))"

section \<open>The network node\<close>

definition port_of :: "KdlNode \<Rightarrow> KdlValue \<Rightarrow> ConfigError + u16" where
  "port_of node v =
     ok_or (bad node (str ''expects a port number from 1 to 65535''))
       (Option.bind (as_integer v) (\<lambda>n. if 0 \<le> n \<and> n < 2 ^ 16 \<and> n \<noteq> 0 then Some (of_int n) else None))"

definition allow_out_entry ::
  "KdlNode \<Rightarrow> Cidr option \<times> u16 option \<times> Proto option \<Rightarrow> KdlEntry \<Rightarrow> ConfigError + Cidr option \<times> u16 option \<times> Proto option" where
  "allow_out_entry node = (\<lambda>(dest, port, proto) e.
     case en_name e of
       None \<Rightarrow>
         if dest \<noteq> None then Inl (bad node (str ''expects exactly one destination argument''))
         else
           res_bind (ok_or (bad node (str ''destination must be a quoted address'')) (as_string (en_value e))) (\<lambda>s.
           res_bind (cidr_of_str s) (\<lambda>c. Inr (Some c, port, proto)))
     | Some p \<Rightarrow>
         if p = str ''port'' then
           if port \<noteq> None then Inl (Duplicate (str ''allow-out port''))
           else res_bind (port_of node (en_value e)) (\<lambda>n. Inr (dest, Some n, proto))
         else if p = str ''proto'' then
           if proto \<noteq> None then Inl (Duplicate (str ''allow-out proto''))
           else
             res_bind (ok_or (bad node (str ''proto must be \"tcp\" or \"udp\"'')) (as_string (en_value e))) (\<lambda>s.
             res_bind (proto_of_str s) (\<lambda>q. Inr (dest, port, Some q)))
         else Inl (unknown_property node p))"

definition parse_allow_out :: "KdlNode \<Rightarrow> ConfigError + AllowOut" where
  "parse_allow_out node =
     res_bind (fold_res (allow_out_entry node) (None, None, None) (kn_entries node)) (\<lambda>(dest, port, proto).
     res_bind (ok_or (bad node (str ''expects exactly one destination argument'')) dest) (\<lambda>d.
     Inr \<lparr>ao_dest = d, ao_port = port, ao_proto = proto\<rparr>))"

fun allow_reason :: "AllowError \<Rightarrow> bytes" where
  "allow_reason NameTooLong = str ''a name is at most 253 characters, trailing dot included''"
| "allow_reason EmptyLabel = str ''a name holds no empty label: no two dots in a row, and none at the start''"
| "allow_reason LabelTooLong = str ''a label is at most 63 characters''"
| "allow_reason LabelChars = str (''a label holds ASCII letters, digits and `-` only; write an internationalised '' @
     ''name as the `xn--` form it resolves as, and a `*` as the whole first label'')"
| "allow_reason LabelHyphen = str ''a label neither starts nor ends with `-`''"
| "allow_reason BareWildcard = str ''a wildcard stands for one label under a name, as in `*.example.com`''"
| "allow_reason AddressName = str (''a name whose last label is all digits is an address, and an address is '' @
     ''what `allow-out` names; the proxy matches names only'')"
| "allow_reason NoPort = str ''an allowed target is written `name:port`''"
| "allow_reason PortDigits = str ''a port is one to five digits''"
| "allow_reason PortRange = str ''a port is between 1 and 65535''"

definition allow_host_entry ::
  "KdlNode \<Rightarrow> HostPattern option \<times> u16 option \<Rightarrow> KdlEntry \<Rightarrow> ConfigError + HostPattern option \<times> u16 option" where
  "allow_host_entry node = (\<lambda>(pattern, port) e.
     case en_name e of
       None \<Rightarrow>
         if pattern \<noteq> None then Inl (bad node (str ''expects exactly one name argument''))
         else
           res_bind (ok_or (bad node (str ''the name must be a quoted host name'')) (as_string (en_value e))) (\<lambda>s.
           res_bind (map_err (\<lambda>reason. bad node (allow_reason reason)) (pattern_parse s)) (\<lambda>q. Inr (Some q, port)))
     | Some p \<Rightarrow>
         if p = str ''port'' then
           if port \<noteq> None then Inl (Duplicate (str ''allow-host port''))
           else res_bind (port_of node (en_value e)) (\<lambda>n. Inr (pattern, Some n))
         else Inl (unknown_property node p))"

definition parse_allow_host :: "KdlNode \<Rightarrow> ConfigError + AllowHost" where
  "parse_allow_host node =
     res_bind (fold_res (allow_host_entry node) (None, None) (kn_entries node)) (\<lambda>(pattern, port).
     res_bind (ok_or (bad node (str ''expects exactly one name argument'')) pattern) (\<lambda>q.
     Inr \<lparr>ah_pattern = q, ah_port = (case port of Some n \<Rightarrow> n | None \<Rightarrow> DEFAULT_PORT)\<rparr>))"

definition parse_dns :: "KdlNode \<Rightarrow> ConfigError + IpAddr" where
  "parse_dns node =
     res_bind (one_string_arg node) (\<lambda>s.
     ok_or (bad node (str ''expects an IP address such as \"1.1.1.1\"'')) (parse_ip s))"

definition allow_port_entry ::
  "KdlNode \<Rightarrow> u16 option \<times> bool option \<Rightarrow> KdlEntry \<Rightarrow> ConfigError + u16 option \<times> bool option" where
  "allow_port_entry node = (\<lambda>(port, udp) e.
     case en_name e of
       None \<Rightarrow>
         if port \<noteq> None then Inl (bad node (str ''expects exactly one port argument''))
         else res_bind (port_of node (en_value e)) (\<lambda>n. Inr (Some n, udp))
     | Some p \<Rightarrow>
         if p = str ''udp'' then
           if udp \<noteq> None then Inl (Duplicate (str ''allow-port udp''))
           else
             res_bind (ok_or (bad node (str ''udp must be #true or #false'')) (as_bool (en_value e))) (\<lambda>u. Inr (port, Some u))
         else Inl (unknown_property node p))"

definition parse_allow_port :: "KdlNode \<Rightarrow> ConfigError + Forward" where
  "parse_allow_port node =
     res_bind (fold_res (allow_port_entry node) (None, None) (kn_entries node)) (\<lambda>(port, udp).
     res_bind (ok_or (bad node (str ''expects exactly one port argument'')) port) (\<lambda>n.
     Inr \<lparr>fw_port = n, fw_udp = (udp = Some True)\<rparr>))"

fun is_loopback :: "IpAddr \<Rightarrow> bool" where
  "is_loopback (V4 a _ _ _) = (a = 127)"
| "is_loopback (V6 x) = (x = replicate 15 0 @ [1])"

definition mode_entry :: "KdlNode \<Rightarrow> NetMode option \<Rightarrow> KdlEntry \<Rightarrow> ConfigError + NetMode option" where
  "mode_entry node mode e =
     (case en_name e of
        Some p \<Rightarrow> Inl (unknown_property node p)
      | None \<Rightarrow>
          if mode \<noteq> None then Inl (bad node (str ''expects at most one mode argument''))
          else
            res_bind (ok_or (bad node (str ''mode must be \"host\" or \"none\"'')) (as_string (en_value e))) (\<lambda>s.
            res_bind (mode_of_str s) (\<lambda>m. Inr (Some m))))"

definition network_child :: "NetworkConfig \<times> bool \<Rightarrow> KdlNode \<Rightarrow> ConfigError + NetworkConfig \<times> bool" where
  "network_child = (\<lambda>(cfg, seen_outbound) child.
     res_bind (reject_types child) (\<lambda>_.
     res_bind (reject_children child) (\<lambda>_.
       let kind = kn_name child in
       if kind = str ''dns'' then
         res_bind (parse_dns child) (\<lambda>ip.
           if is_loopback ip \<and> nc_mode cfg = NetIsolated
           then Inl (bad child (str (''a loopback address is the sandbox's own loopback in an isolated '' @
             ''network namespace, not the host's; name a routable resolver, or write `network \"host\"`'')))
           else if ip \<in> set (nc_dns cfg) then Inl (Duplicate (str ''dns '' @ [quote_mark] @ ip_fmt ip @ [quote_mark]))
           else Inr (cfg\<lparr>nc_dns := nc_dns cfg @ [ip]\<rparr>, seen_outbound))
       else if kind = str ''allow-port'' then
         res_bind (parse_allow_port child) (\<lambda>f.
           if f \<in> set (nc_forwards cfg)
           then Inl (Duplicate (str ''allow-port '' @ dec_digits (unat (fw_port f)) @ (if fw_udp f then str '' udp=#true'' else [])))
           else Inr (cfg\<lparr>nc_forwards := nc_forwards cfg @ [f]\<rparr>, seen_outbound))
       else if kind = str ''no-ipv6'' then
         res_bind (reject_entries child) (\<lambda>_.
           if nc_no_ipv6 cfg then Inl (Duplicate (str ''no-ipv6''))
           else Inr (cfg\<lparr>nc_no_ipv6 := True\<rparr>, seen_outbound))
       else if kind = str ''outbound'' then
         if seen_outbound then Inl (Duplicate (str ''outbound''))
         else
           res_bind (one_string_arg child) (\<lambda>s.
           res_bind (outbound_of_str s) (\<lambda>out. Inr (cfg\<lparr>nc_outbound := out\<rparr>, True)))
       else if kind = str ''allow-out'' then
         res_bind (parse_allow_out child) (\<lambda>a.
           if a \<in> set (nc_allow_out cfg) then Inl (Duplicate (str ''allow-out '' @ allow_out_fmt a))
           else Inr (cfg\<lparr>nc_allow_out := nc_allow_out cfg @ [a]\<rparr>, seen_outbound))
       else if kind = str ''allow-host'' then
         res_bind (parse_allow_host child) (\<lambda>a.
           if a \<in> set (nc_allow_hosts cfg) then Inl (Duplicate (str ''allow-host '' @ allow_host_fmt a))
           else Inr (cfg\<lparr>nc_allow_hosts := nc_allow_hosts cfg @ [a]\<rparr>, seen_outbound))
       else Inl (UnknownNode kind))))"

text \<open>The checks after the children, first to last.\<close>

definition network_refusal :: "NetworkConfig \<Rightarrow> bool \<Rightarrow> bytes option" where
  "network_refusal cfg seen_outbound =
     (if nc_mode cfg = NetNone \<and> nc_dns cfg \<noteq> [] then
        Some (str (''`dns` names a resolver the sandbox would have to reach over a network, '' @ ''and `none` grants none''))
      else if nc_mode cfg \<noteq> NetIsolated \<and> nc_forwards cfg \<noteq> [] then
        Some (str (''`allow-port` forwards into the sandbox's own network namespace, '' @ ''which `host` and `none` do not have''))
      else if nc_mode cfg \<noteq> NetIsolated \<and> nc_no_ipv6 cfg then
        Some (str (''`no-ipv6` configures the pasta sidecar, which only the isolated '' @ ''network namespace runs''))
      else if nc_mode cfg \<noteq> NetIsolated \<and> (seen_outbound \<or> nc_allow_out cfg \<noteq> []) then
        Some (str (''`outbound` filters the sandbox's own network namespace, which `host` '' @
          ''and `none` do not have; rules under `host` would land on the host's own ruleset''))
      else if nc_mode cfg \<noteq> NetIsolated \<and> nc_allow_hosts cfg \<noteq> [] then
        Some (str (''`allow-host` is reached through a proxy of bubbler's inside the '' @
          ''sandbox's own network namespace, which `host` and `none` do not have''))
      else if nc_no_ipv6 cfg \<and> (list_ex is_ipv6 (nc_dns cfg) \<or> list_ex (\<lambda>a. is_ipv6 (cd_addr (ao_dest a))) (nc_allow_out cfg)) then
        Some (str (''`no-ipv6` leaves the sandbox no IPv6 address, so an IPv6 `dns` or '' @
          ''`allow-out` under it names something nothing in the sandbox could reach''))
      else if nc_outbound cfg \<noteq> OutDeny \<and> nc_allow_out cfg \<noteq> [] then
        Some (str (''`allow-out` names destinations that are only a rule under '' @
          ''`outbound \"deny\"`; without it nothing is filtered and nothing is installed''))
      else if nc_outbound cfg \<noteq> OutDeny \<and> nc_allow_hosts cfg \<noteq> [] then
        Some (str (''`allow-host` names what the sandbox may reach where everything else is '' @
          ''refused, so it needs `outbound \"deny\"`: without it the name is reachable already and no proxy runs''))
      else if nc_allow_hosts cfg \<noteq> [] \<and> list_ex (\<lambda>f. fw_port f = PROXY_PORT) (nc_forwards cfg) then
        Some (str ''`allow-port '' @ dec_digits (unat PROXY_PORT) @ str (''` is the egress proxy's port under '' @
          ''`allow-host`: choose another port for the forward''))
      else
        map_option (\<lambda>a. str ''`allow-host '' @ allow_host_fmt a @ str ''` names '' @ dec_digits (unat PROXY_PORT) @
            str ('', which is the egress proxy's own port inside the sandbox: '' @ ''name the port the service is served on''))
          (List.find (\<lambda>a. ah_port a = PROXY_PORT) (nc_allow_hosts cfg)))"

definition parse_network :: "KdlNode \<Rightarrow> ConfigError + Service" where
  "parse_network node =
     res_bind (fold_res (mode_entry node) None (kn_entries node)) (\<lambda>mode.
     res_bind (fold_res network_child
       (network_default\<lparr>nc_mode := (case mode of Some m \<Rightarrow> m | None \<Rightarrow> NetIsolated)\<rparr>, False) (children_of node)) (\<lambda>(cfg, seen_outbound).
       case network_refusal cfg seen_outbound of
         Some reason \<Rightarrow> Inl (bad node reason)
       | None \<Rightarrow> Inr (Network cfg)))"

section \<open>Devices and displays\<close>

definition bool_prop :: "KdlNode \<Rightarrow> bytes \<Rightarrow> KdlValue \<Rightarrow> ConfigError + bool" where
  "bool_prop node prop v = ok_or (bad node (prop @ str '' must be #true or #false'')) (as_bool v)"

definition dup_prop :: "KdlNode \<Rightarrow> bytes \<Rightarrow> ConfigError" where
  "dup_prop node prop = Duplicate (kn_name node @ str '' '' @ prop)"

definition gamepad_entry :: "KdlNode \<Rightarrow> bool option \<times> bool option \<Rightarrow> KdlEntry \<Rightarrow> ConfigError + bool option \<times> bool option" where
  "gamepad_entry node = (\<lambda>(hidraw, uinput) e.
     case en_name e of
       None \<Rightarrow> Inl (bad node (str ''takes no arguments''))
     | Some prop \<Rightarrow>
         if prop = str ''hidraw'' then
           if hidraw \<noteq> None then Inl (dup_prop node prop)
           else res_bind (bool_prop node prop (en_value e)) (\<lambda>b. Inr (Some b, uinput))
         else if prop = str ''uinput'' then
           if uinput \<noteq> None then Inl (dup_prop node prop)
           else res_bind (bool_prop node prop (en_value e)) (\<lambda>b. Inr (hidraw, Some b))
         else Inl (unknown_property node prop))"

definition parse_gamepad :: "KdlNode \<Rightarrow> ConfigError + Service" where
  "parse_gamepad node =
     res_bind (fold_res (gamepad_entry node) (None, None) (kn_entries node)) (\<lambda>(hidraw, uinput).
     res_bind (reject_children node) (\<lambda>_.
     Inr (Gamepad (hidraw = Some True) (uinput = Some True))))"

text \<open>The one property of \<^verbatim>\<open>camera\<close> and of \<^verbatim>\<open>dri\<close>.\<close>

definition flag_entry :: "KdlNode \<Rightarrow> bytes \<Rightarrow> bool option \<Rightarrow> KdlEntry \<Rightarrow> ConfigError + bool option" where
  "flag_entry node name slot e =
     (case en_name e of
        None \<Rightarrow> Inl (bad node (str ''takes no arguments''))
      | Some prop \<Rightarrow>
          if prop \<noteq> name then Inl (unknown_property node prop)
          else if slot \<noteq> None then Inl (dup_prop node prop)
          else res_bind (bool_prop node prop (en_value e)) (\<lambda>b. Inr (Some b)))"

definition parse_camera :: "KdlNode \<Rightarrow> ConfigError + Service" where
  "parse_camera node =
     res_bind (fold_res (flag_entry node (str ''nodes'')) None (kn_entries node)) (\<lambda>nodes.
     res_bind (reject_children node) (\<lambda>_. Inr (Camera (nodes = Some True))))"

definition parse_dri :: "KdlNode \<Rightarrow> ConfigError + Service" where
  "parse_dri node =
     res_bind (fold_res (flag_entry node (str ''kms'')) None (kn_entries node)) (\<lambda>kms.
     res_bind (reject_children node) (\<lambda>_. Inr (Dri (kms = Some True))))"

text \<open>The mode argument of \<^verbatim>\<open>etc\<close>, \<^verbatim>\<open>wayland\<close> and \<^verbatim>\<open>x11\<close>: at most one, and \<^verbatim>\<open>"host"\<close>.\<close>

definition host_arg :: "KdlNode \<Rightarrow> bool \<Rightarrow> KdlEntry \<Rightarrow> ConfigError + bool" where
  "host_arg node host e =
     (if host then Inl (bad node (str ''expects at most one mode argument''))
      else
        res_bind (ok_or (bad node (str ''mode must be \"host\"'')) (as_string (en_value e))) (\<lambda>s.
          if s \<noteq> str ''host'' then Inl (bad node (str ''expected `host`, got '' @ quoted s)) else Inr True))"

definition etc_entry :: "KdlNode \<Rightarrow> bool \<Rightarrow> KdlEntry \<Rightarrow> ConfigError + bool" where
  "etc_entry node host e =
     (case en_name e of None \<Rightarrow> host_arg node host e | Some prop \<Rightarrow> Inl (unknown_property node prop))"

definition parse_etc :: "KdlNode \<Rightarrow> ConfigError + EtcMode" where
  "parse_etc node =
     res_bind (reject_children node) (\<lambda>_.
     res_bind (fold_res (etc_entry node) False (kn_entries node)) (\<lambda>host.
     Inr (if host then EtcHost else EtcAllowlist)))"

definition wayland_entry :: "KdlNode \<Rightarrow> bool \<times> Clipboard option \<Rightarrow> KdlEntry \<Rightarrow> ConfigError + bool \<times> Clipboard option" where
  "wayland_entry node = (\<lambda>(host, clipboard) e.
     case en_name e of
       None \<Rightarrow> res_bind (host_arg node host e) (\<lambda>h. Inr (h, clipboard))
     | Some prop \<Rightarrow>
         if prop \<noteq> str ''clipboard'' then Inl (unknown_property node prop)
         else if clipboard \<noteq> None then Inl (dup_prop node prop)
         else
           res_bind (ok_or (bad node (str ''clipboard must be \"open\"'')) (as_string (en_value e))) (\<lambda>s.
             if s \<noteq> str ''open'' then Inl (bad node (str ''expected `open`, got '' @ quoted s))
             else Inr (host, Some ClipOpen)))"

definition parse_wayland :: "KdlNode \<Rightarrow> ConfigError + WaylandMode" where
  "parse_wayland node =
     res_bind (reject_children node) (\<lambda>_.
     res_bind (fold_res (wayland_entry node) (False, None) (kn_entries node)) (\<lambda>(host, clipboard).
       if host then
         if clipboard \<noteq> None then Inl (bad node (str ''\"host\" takes no properties'')) else Inr WlHost
       else Inr (WlSandboxed (case clipboard of Some c \<Rightarrow> c | None \<Rightarrow> ClipPaste))))"

record X11Read =
  xr_host :: bool
  xr_geometry :: "bytes option"
  xr_fullscreen :: "bool option"
  xr_grab :: "bool option"
  xr_wm :: "bytes option"

definition wm_ok :: "bytes \<Rightarrow> bool" where
  "wm_ok s \<longleftrightarrow> \<not> (s = [] \<or> hd s = hyphen \<or> slash \<in> set s \<or> has_whitespace s \<or> 0 \<in> set s)"

definition x11_entry :: "KdlNode \<Rightarrow> X11Read \<Rightarrow> KdlEntry \<Rightarrow> ConfigError + X11Read" where
  "x11_entry node st e =
     (case en_name e of
        None \<Rightarrow> res_bind (host_arg node (xr_host st) e) (\<lambda>h. Inr (st\<lparr>xr_host := h\<rparr>))
      | Some prop \<Rightarrow>
          if prop = str ''geometry'' then
            if xr_geometry st \<noteq> None then Inl (dup_prop node prop)
            else
              res_bind (ok_or (bad node (str ''geometry must be a string like \"1280x720\"'')) (as_string (en_value e))) (\<lambda>s.
              res_bind (ok_or (bad node (str ''geometry must be `<width>x<height>`, got '' @ quoted s)) (parse_geometry s)) (\<lambda>g.
              Inr (st\<lparr>xr_geometry := Some g\<rparr>)))
          else if prop = str ''wm'' then
            if xr_wm st \<noteq> None then Inl (dup_prop node prop)
            else
              res_bind (ok_or (bad node (str ''wm must be a string like \"twm\"'')) (as_string (en_value e))) (\<lambda>s.
                if \<not> wm_ok s
                then Inl (bad node (str (''wm must be one program name: no leading `-`, no `/`, '' @ ''whitespace or NUL, got '') @ quoted s))
                else Inr (st\<lparr>xr_wm := Some s\<rparr>))
          else if prop = str ''fullscreen'' then
            if xr_fullscreen st \<noteq> None then Inl (dup_prop node prop)
            else res_bind (bool_prop node prop (en_value e)) (\<lambda>b. Inr (st\<lparr>xr_fullscreen := Some b\<rparr>))
          else if prop = str ''grab'' then
            if xr_grab st \<noteq> None then Inl (dup_prop node prop)
            else res_bind (bool_prop node prop (en_value e)) (\<lambda>b. Inr (st\<lparr>xr_grab := Some b\<rparr>))
          else Inl (unknown_property node prop))"

definition parse_x11 :: "KdlNode \<Rightarrow> ConfigError + X11Mode" where
  "parse_x11 node =
     res_bind (reject_children node) (\<lambda>_.
     res_bind (fold_res (x11_entry node)
       \<lparr>xr_host = False, xr_geometry = None, xr_fullscreen = None, xr_grab = None, xr_wm = None\<rparr> (kn_entries node)) (\<lambda>st.
       if xr_host st then
         if xr_geometry st \<noteq> None \<or> xr_fullscreen st \<noteq> None \<or> xr_grab st \<noteq> None \<or> xr_wm st \<noteq> None
         then Inl (bad node (str ''\"host\" takes no properties'')) else Inr X11Host
       else
         Inr (X11Nested
           \<lparr>nx_geometry = (case xr_geometry st of Some g \<Rightarrow> g | None \<Rightarrow> nx_geometry nested_default),
            nx_fullscreen = (case xr_fullscreen st of Some b \<Rightarrow> b | None \<Rightarrow> nx_fullscreen nested_default),
            nx_grab = (case xr_grab st of Some b \<Rightarrow> b | None \<Rightarrow> nx_grab nested_default),
            nx_wm = xr_wm st\<rparr>)))"

section \<open>The settings of the sandbox\<close>

definition parse_userns :: "KdlNode \<Rightarrow> ConfigError + Userns" where
  "parse_userns node =
     res_bind (one_string_arg node) (\<lambda>arg. res_bind (reject_children node) (\<lambda>_. userns_of_str arg))"

definition parse_tty :: "KdlNode \<Rightarrow> ConfigError + TtyMode" where
  "parse_tty node =
     res_bind (one_string_arg node) (\<lambda>arg. res_bind (reject_children node) (\<lambda>_. tty_of_str arg))"

definition tmp_entry :: "KdlNode \<Rightarrow> bytes option \<Rightarrow> KdlEntry \<Rightarrow> ConfigError + bytes option" where
  "tmp_entry node written e =
     (case en_name e of
        Some p \<Rightarrow>
          if p = str ''size'' then
            res_bind (ok_or (bad node (str ''size must be a string'')) (as_string (en_value e))) (\<lambda>s. Inr (Some s))
          else Inl (UnknownProperty (str ''tmp'') p)
      | None \<Rightarrow> Inl (bad node (str ''takes no argument; write `size=\"2G\"`'')))"

definition size_scale :: "bytes \<Rightarrow> nat option" where
  "size_scale written =
     (if written = [] then None
      else if last written = of_char CHR ''K'' then Some 1024
      else if last written = of_char CHR ''M'' then Some (1024 * 1024)
      else if last written = of_char CHR ''G'' then Some (1024 * 1024 * 1024)
      else None)"

definition parse_tmp :: "KdlNode \<Rightarrow> ConfigError + nat" where
  "parse_tmp node =
     res_bind (reject_children node) (\<lambda>_.
     res_bind (fold_res (tmp_entry node) None (kn_entries node)) (\<lambda>written.
     res_bind (ok_or (bad node (str ''expects `size=\"<n>K|M|G\"`'')) written) (\<lambda>written.
     res_bind (ok_or (bad node (str ''expects a decimal number with a `K`, `M` or `G` suffix, e.g. \"2G\"'')) (size_scale written)) (\<lambda>scale.
       let digits = butlast written in
       if digits \<noteq> [] \<and> hd digits = 0x2b then Inl (bad node (str ''expects a decimal number before the suffix''))
       else
         res_bind (ok_or (bad node (str ''expects a decimal number before the suffix''))
           (Option.bind (parse_unsigned (2 ^ 64 - 1) digits) (\<lambda>n. if n * scale \<le> 2 ^ 64 - 1 then Some (n * scale) else None))) (\<lambda>bytes.
           if bytes = 0 then Inl (bad node (str ''a /tmp of zero bytes is a sandbox with no /tmp''))
           else if bytes > TMP_SIZE_MAX then Inl (bad node (str ''is larger than the 64G bubbler accepts''))
           else Inr bytes)))))"

text \<open>libseccomp's table is the argument \<open>syscall_number\<close>.\<close>

definition syscall_name :: "(bytes \<Rightarrow> int option) \<Rightarrow> KdlNode \<Rightarrow> bytes \<Rightarrow> ConfigError + bytes" where
  "syscall_name syscall_number node s =
     (if s = [] \<or> \<not> list_all (\<lambda>b. is_ascii_lower b \<or> is_ascii_digit b \<or> b = underscore) s
      then Inl (bad node (str ''expects a syscall name such as \"keyctl\"''))
      else if syscall_number s = None \<and> s \<notin> set (map fst DEFAULT_ENOSYS_NUMBERED)
      then Inl (bad node (quoted s @ str '' is not a syscall name libseccomp knows''))
      else Inr s)"

definition syscall_entry :: "(bytes \<Rightarrow> int option) \<Rightarrow> KdlNode \<Rightarrow> bytes list \<Rightarrow> KdlEntry \<Rightarrow> ConfigError + bytes list" where
  "syscall_entry syscall_number node names e =
     (case en_name e of
        Some p \<Rightarrow> if p = str ''errno'' then Inr names else Inl (unknown_property node p)
      | None \<Rightarrow>
          res_bind (ok_or (bad node (str ''expects syscall names as strings'')) (as_string (en_value e))) (\<lambda>s.
          res_bind (syscall_name syscall_number node s) (\<lambda>n. Inr (names @ [n]))))"

definition syscall_names :: "(bytes \<Rightarrow> int option) \<Rightarrow> KdlNode \<Rightarrow> ConfigError + bytes list" where
  "syscall_names syscall_number node =
     res_bind (fold_res (syscall_entry syscall_number node) [] (kn_entries node)) (\<lambda>names.
       if names = [] then Inl (bad node (str ''expects at least one syscall name'')) else Inr names)"

definition deny_errno :: "KdlNode \<Rightarrow> ConfigError + DenyErrno" where
  "deny_errno node =
     fold_res (\<lambda>errno e.
       if as_string (en_value e) = Some (str ''EPERM'') then Inr Eperm
       else if as_string (en_value e) = Some (str ''ENOSYS'') then Inr Enosys
       else Inl (bad node (str ''errno must be \"EPERM\" or \"ENOSYS\"'')))
     Eperm (filter (\<lambda>e. en_name e = Some (str ''errno'')) (kn_entries node))"

definition deny_name :: "KdlNode \<Rightarrow> DenyErrno \<Rightarrow> (bytes \<times> DenyErrno) list \<Rightarrow> bytes \<Rightarrow> ConfigError + (bytes \<times> DenyErrno) list" where
  "deny_name child errno deny name =
     (if name = str ''prctl'' then Inl (bad child (str ''glibc and Chromium need prctl'')) else Inr (deny @ [(name, errno)]))"

definition seccomp_child :: "(bytes \<Rightarrow> int option) \<Rightarrow> SeccompConfig \<Rightarrow> KdlNode \<Rightarrow> ConfigError + SeccompConfig" where
  "seccomp_child syscall_number cfg child =
     res_bind (reject_types child) (\<lambda>_.
     res_bind (reject_children child) (\<lambda>_.
       let kind = kn_name child in
       if kind = str ''allow'' then
         (case find_map en_name (kn_entries child) of
            Some p \<Rightarrow> Inl (UnknownProperty (str ''allow'') p)
          | None \<Rightarrow> res_bind (syscall_names syscall_number child) (\<lambda>names. Inr (cfg\<lparr>sc_allow := sc_allow cfg @ names\<rparr>)))
       else if kind = str ''deny'' then
         res_bind (deny_errno child) (\<lambda>errno.
         res_bind (syscall_names syscall_number child) (\<lambda>names.
         res_bind (fold_res (deny_name child errno) (sc_deny cfg) names) (\<lambda>deny. Inr (cfg\<lparr>sc_deny := deny\<rparr>))))
       else if kind = str ''disable'' then
         res_bind (reject_entries child) (\<lambda>_. Inr (cfg\<lparr>sc_disable := True\<rparr>))
       else Inl (UnknownNode kind)))"

definition seccomp_default :: SeccompConfig where
  "seccomp_default = \<lparr>sc_allow = [], sc_deny = [], sc_disable = False\<rparr>"

definition parse_seccomp :: "(bytes \<Rightarrow> int option) \<Rightarrow> KdlNode \<Rightarrow> ConfigError + SeccompConfig" where
  "parse_seccomp syscall_number node =
     res_bind (reject_arguments node) (\<lambda>_.
       fold_res (seccomp_child syscall_number) seccomp_default (children_of node))"

definition desktop_ok :: "bytes \<Rightarrow> bool" where
  "desktop_ok name \<longleftrightarrow>
     (let suffix = str ''.desktop''; stem = take (length name - length suffix) name in
      length suffix \<le> length name \<and> name = stem @ suffix \<and>
      stem \<noteq> [] \<and> slash \<notin> set stem \<and> stem \<noteq> str ''.'' \<and> stem \<noteq> str ''..'') \<and> forbidden_byte name = None"

definition parse_desktop :: "KdlNode \<Rightarrow> ConfigError + bytes" where
  "parse_desktop node =
     res_bind (one_string_arg node) (\<lambda>name.
     res_bind (reject_children node) (\<lambda>_.
       if \<not> desktop_ok name
       then Inl (bad node (str ''expects the file name of a desktop entry, such as \"org.example.App.desktop\"''))
       else Inr name))"

definition command_entry :: "KdlNode \<Rightarrow> bytes list \<Rightarrow> KdlEntry \<Rightarrow> ConfigError + bytes list" where
  "command_entry node words e =
     (case en_name e of
        Some p \<Rightarrow> Inl (unknown_property node p)
      | None \<Rightarrow>
          res_bind (ok_or (bad node (str ''arguments must be strings'')) (as_string (en_value e))) (\<lambda>s.
            case forbidden_byte s of
              Some what \<Rightarrow> Inl (bad node (str ''argument '' @ dec_digits (length words + 1) @ str '' contains '' @ what))
            | None \<Rightarrow> Inr (words @ [s])))"

definition parse_command :: "KdlNode \<Rightarrow> ConfigError + bytes list" where
  "parse_command node =
     res_bind (fold_res (command_entry node) [] (kn_entries node)) (\<lambda>words.
     res_bind (reject_children node) (\<lambda>_.
       if words = [] then Inl (bad node (str ''needs at least one argument'')) else Inr words))"

section \<open>Portals, sound, and every node\<close>

definition line_form :: "bytes \<Rightarrow> KdlNode \<Rightarrow> KdlNode" where
  "line_form name child =
     KdlNode name (kn_offset child) (kn_typed child) (kn_entries child) (kn_children child) (kn_leading child)"

definition portal_child ::
  "KdlNode \<Rightarrow> Portal list \<times> (Service \<times> nat) option \<Rightarrow> KdlNode \<Rightarrow> ConfigError + Portal list \<times> (Service \<times> nat) option" where
  "portal_child node = (\<lambda>(children, camera) child.
     res_bind (reject_types child) (\<lambda>_.
       let name = kn_name child in
       if name = str ''camera'' then
         if camera \<noteq> None then Inl (Duplicate name)
         else res_bind (parse_camera (line_form (str ''camera'') child)) (\<lambda>c. Inr (children, Some (c, kn_offset child)))
       else
         case portal_from_name name of
           None \<Rightarrow>
             Inl (bad node (quoted name @ str '' is not a portal; the children are '' @
               join (str '', '') (map portal_node_name portal_all) @ str '' and camera''))
         | Some portal \<Rightarrow>
             if kn_entries child \<noteq> [] \<or> kn_children child \<noteq> None
             then Inl (bad node (quoted name @ str '' takes no arguments, properties or children''))
             else if portal \<in> set children then Inl (Duplicate name)
             else Inr (children @ [portal], camera)))"

definition parse_portals :: "KdlNode \<Rightarrow> ConfigError + Service \<times> (Service \<times> nat) option" where
  "parse_portals node =
     res_bind (reject_types node) (\<lambda>_.
     res_bind (reject_arguments node) (\<lambda>_.
     res_bind (fold_res (portal_child node) ([], None) (children_of node)) (\<lambda>(children, camera).
     Inr (Portals children, camera))))"

definition audio_child :: "KdlNode \<Rightarrow> bool \<Rightarrow> KdlNode \<Rightarrow> ConfigError + bool" where
  "audio_child node microphone child =
     res_bind (reject_types child) (\<lambda>_.
       let name = kn_name child in
       if name \<noteq> str ''microphone'' then
         Inl (bad node (quoted name @ str '' is not a child of '' @ quoted (kn_name node) @ str ''; the only child is `microphone`''))
       else if kn_entries child \<noteq> [] \<or> kn_children child \<noteq> None then
         Inl (bad node (str ''`microphone` takes no arguments, properties or children''))
       else if microphone then Inl (Duplicate (str ''microphone''))
       else Inr True)"

definition parse_audio :: "KdlNode \<Rightarrow> ConfigError + bool" where
  "parse_audio node =
     res_bind (reject_types node) (\<lambda>_.
     res_bind (reject_arguments node) (\<lambda>_. fold_res (audio_child node) False (children_of node)))"

definition res_map :: "('a \<Rightarrow> 'b) \<Rightarrow> 'e + 'a \<Rightarrow> 'e + 'b" where
  "res_map f r = res_bind r (\<lambda>a. Inr (f a))"

lemma res_map_Inr [simp]: "res_map f r = Inr b \<longleftrightarrow> (\<exists>a. r = Inr a \<and> b = f a)"
  by (auto simp: res_map_def res_bind_eq_Inr)

definition parse_flag :: "Service \<Rightarrow> KdlNode \<Rightarrow> ConfigError + Node" where
  "parse_flag s node = res_bind (reject_entries node) (\<lambda>_. Inr (NService s))"

definition parse_one :: "(bytes \<Rightarrow> int option) \<Rightarrow> KdlNode \<Rightarrow> bool \<Rightarrow> ConfigError + Node" where
  "parse_one syscall_number node profile =
     (let name = kn_name node in
      res_bind (reject_types node) (\<lambda>_.
        if name \<notin> set NODES \<and> name \<noteq> str ''include'' then Inl (UnknownNode name)
        else if name = str ''pipewire'' then res_map (\<lambda>m. NService (Pipewire m)) (parse_audio node)
        else if name = str ''pulseaudio'' then res_map (\<lambda>m. NService (Pulseaudio m)) (parse_audio node)
        else if name = str ''notify'' then parse_flag Notify node
        else if name = str ''tray'' then parse_flag Tray node
        else if name = str ''hidraw'' then parse_flag Hidraw node
        else if name = str ''a11y'' then parse_flag A11y node
        else if name = str ''input-method'' then parse_flag InputMethod node
        else if name = str ''home-share'' then
          res_map (\<lambda>(p, mode, opt). NService (HomeShare p mode opt)) (parse_share node (str ''path'') validate_relative True)
        else if name = str ''path-share'' then
          res_map (\<lambda>(p, mode, opt). NService (PathShare p mode opt)) (parse_share node (str ''path'') validate_absolute True)
        else if name = str ''app-runtime'' then
          res_map (\<lambda>(i, mode, opt). NService (AppRuntime i mode)) (parse_share node (str ''id'') validate_app_id False)
        else if name = str ''portals'' then res_map (\<lambda>(portals, camera). NService portals) (parse_portals node)
        else if name = str ''dri'' then res_map NService (parse_dri node)
        else if name = str ''etc-share'' then res_map NService (parse_etc_share node)
        else if name = str ''dbus'' then res_map NService (parse_dbus node)
        else if name = str ''wayland'' then res_map (\<lambda>m. NService (Wayland m)) (parse_wayland node)
        else if name = str ''x11'' then res_map (\<lambda>m. NService (X11 m)) (parse_x11 node)
        else if name = str ''network'' then res_map NService (parse_network node)
        else if name = str ''gamepad'' then res_map NService (parse_gamepad node)
        else if name = str ''camera'' then res_map NService (parse_camera node)
        else if name = str ''system-bus'' then res_map NService (parse_system_bus node)
        else if name = str ''mpris'' then res_map NService (parse_mpris node)
        else if name = str ''etc'' then res_map NEtc (parse_etc node)
        else if name = str ''tmp'' then res_map NTmp (parse_tmp node)
        else if name = str ''tty'' then res_map NTty (parse_tty node)
        else if name = str ''userns'' then res_map NUserns (parse_userns node)
        else if name = str ''seccomp'' then res_map NSeccomp (parse_seccomp syscall_number node)
        else if name = str ''env'' then res_map NEnv (parse_env node)
        else if name = str ''lint-allow'' then res_map (\<lambda>a. NLintAllow [a]) (parse_lint_allow node)
        else if name = str ''include'' then
          Inl (bad node (if profile then str ''cannot be turned off: it names a layer rather than granting anything''
            else str ''include is only valid in profiles''))
        else if name = str ''desktop'' then res_map NDesktop (parse_desktop node)
        else if name = str ''command'' then res_map NCommand (parse_command node)
        else Inl (UnknownNode name)))"

end
