(* ===== verification/Core_Valid.thy ===== *)
theory Core_Valid
  imports Core_Nodes
begin

text \<open>
  What a node the readers of \<open>Core_Nodes\<close> accept is: the conditions the code downstream of the
  parser relies on, for every grant and setting, and that each reader keeps them whatever KDL document
  it is given.
\<close>

declare str_Cons [simp del]

lemmas reader_simps = res_bind_eq_Inr ok_or_eq res_map_Inr refuse_if_Inr

section \<open>Paths\<close>

definition plain_name :: "bytes \<Rightarrow> bool" where
  "plain_name n \<longleftrightarrow> slash \<notin> set n \<and> \<not> empty_piece n \<and> n \<noteq> str ''..''"

lemma body_plain: "Normal n \<in> set (body_components ss) \<Longrightarrow> (\<And>s. s \<in> set ss \<Longrightarrow> slash \<notin> set s) \<Longrightarrow> plain_name n"
  by (auto simp: body_components_def piece_def plain_name_def split: if_splits)

lemma components_plain: "Normal n \<in> set (components s) \<Longrightarrow> plain_name n"
proof -
  assume n: "Normal n \<in> set (components s)"
  have "Normal n \<in> set (body_components (split_on slash s)) \<or> Normal n \<in> set (body_components (tl (split_on slash s)))"
    using n by (auto simp: components_def split: if_splits)
  moreover have "p \<in> set (tl (split_on slash s)) \<Longrightarrow> p \<in> set (split_on slash s)" for p
    by (cases "split_on slash s") auto
  ultimately show ?thesis using split_on_pieces body_plain by metis
qed

lemma plain_not_absolute: "plain_name n \<Longrightarrow> \<not> is_absolute n \<and> n \<noteq> []"
  by (cases n) (auto simp: plain_name_def is_absolute_def empty_piece_def)

lemma added_plain: "plain_name n \<Longrightarrow> added n = [Normal n]"
  using added_name [of n] by (simp add: plain_name_def piece_def)

lemma components_plain_name:
  assumes "plain_name n"
  shows "components n = [Normal n]"
proof -
  have "split_on slash n = [n]" using assms by (simp add: plain_name_def split_on_no_sep)
  with assms plain_not_absolute [OF assms] show ?thesis
    by (simp add: components_def body_components_def piece_def plain_name_def empty_piece_def)
qed

lemma collect_not_Nil: "cs \<noteq> [] \<Longrightarrow> (\<And>n. Normal n \<in> set cs \<Longrightarrow> plain_name n) \<Longrightarrow> collect_path cs \<noteq> []"
proof (induction cs rule: rev_induct)
  case (snoc c cs)
  have "component_text c \<noteq> []" using snoc.prems(2) [of "component_text c"] plain_not_absolute
    by (cases c) (auto simp: str_Cons)
  then show ?case by (simp add: collect_snoc path_join_def)
qed simp

lemma components_plain_path:
  assumes "list_all is_normal ds" and "\<And>n. Normal n \<in> set ds \<Longrightarrow> plain_name n"
  shows "components (collect_path (RootDir # ds)) = RootDir # ds" and "ds \<noteq> [] \<Longrightarrow> components (collect_path ds) = ds"
proof -
  have step: "components (collect_path (cs @ [c])) = components (collect_path cs) @ [c]"
    if "collect_path cs \<noteq> []" "is_normal c" "c \<in> set ds" for cs c
  proof -
    from that obtain n where n: "c = Normal n" "plain_name n" using assms(2) by (cases c) auto
    with that(1) show ?thesis
      using plain_not_absolute [OF n(2)] by (simp add: collect_snoc components_join added_plain)
  qed
  have "set es \<subseteq> set ds \<Longrightarrow> components (collect_path (RootDir # es)) = RootDir # es" for es
  proof (induction es rule: rev_induct)
    case Nil
    then show ?case by (simp add: collect_path_def path_join_def is_absolute_def components_root added_def)
  next
    case (snoc c es)
    have "collect_path (RootDir # es) \<noteq> []" using snoc.prems assms(2) by (intro collect_not_Nil) auto
    with step [of "RootDir # es" c] snoc assms(1) show ?case by (auto simp: list_all_iff)
  qed
  then show "components (collect_path (RootDir # ds)) = RootDir # ds" by simp
  have "set es \<subseteq> set ds \<Longrightarrow> es \<noteq> [] \<Longrightarrow> components (collect_path es) = es" for es
  proof (induction es rule: rev_induct)
    case (snoc c es)
    from snoc.prems assms obtain n where n: "c = Normal n" "plain_name n" by (cases c) (auto simp: list_all_iff)
    show ?case
    proof (cases "es = []")
      case True
      with n plain_not_absolute [OF n(2)] show ?thesis
        by (simp add: collect_path_def path_join_def components_plain_name)
    next
      case False
      have "collect_path es \<noteq> []" using False snoc.prems assms(2) by (intro collect_not_Nil) auto
      with step [of es c] snoc False assms(1) show ?thesis by (auto simp: list_all_iff)
    qed
  qed simp
  then show "ds \<noteq> [] \<Longrightarrow> components (collect_path ds) = ds" by simp
qed

definition absolute_ok :: "path \<Rightarrow> bool" where
  "absolute_ok p \<longleftrightarrow> components p \<noteq> [] \<and> hd (components p) = RootDir \<and> list_all is_normal (tl (components p))"

definition relative_ok :: "path \<Rightarrow> bool" where
  "relative_ok p \<longleftrightarrow> components p \<noteq> [] \<and> list_all is_normal (components p)"

lemma validate_absolute_ok:
  assumes "validate_absolute node s = Inr p"
  shows "absolute_ok p \<and> components p = components s"
proof -
  from assms have c: "components s \<noteq> []" "hd (components s) = RootDir" "list_all is_normal (tl (components s))"
      "p = collect_path (components s)"
    by (auto simp: validate_absolute_def Let_def split: if_splits)
  then obtain ds where ds: "components s = RootDir # ds" by (cases "components s") auto
  have "components p = components s"
    using c(3,4) components_plain_path(1) [of ds] components_plain [of _ s] ds by auto
  with c show ?thesis by (simp add: absolute_ok_def)
qed

lemma relative_components: "s \<noteq> [] \<Longrightarrow> components s \<noteq> []"
proof -
  assume "s \<noteq> []"
  then obtain c s' where s: "s = c # s'" by (cases s) auto
  show ?thesis
  proof (cases "c = slash")
    case True
    with s show ?thesis by (simp add: components_def is_absolute_def)
  next
    case False
    then have "hd (split_on slash s) \<noteq> []" using s by (auto split: list.splits)
    then show ?thesis using split_on_not_Nil [of slash s]
      by (cases "split_on slash s") (auto simp: components_def body_components_def empty_piece_def)
  qed
qed

lemma validate_relative_ok:
  assumes "validate_relative node s = Inr p"
  shows "relative_ok p \<and> components p = components s"
proof -
  from assms have c: "s \<noteq> []" "list_all is_normal (components s)" "p = collect_path (components s)"
    by (auto simp: validate_relative_def split: if_splits)
  with components_plain_path(2) [of "components s"] components_plain [of _ s] relative_components [of s]
  show ?thesis by (auto simp: relative_ok_def)
qed

section \<open>What a grant promises\<close>

definition rule_after :: "bytes \<Rightarrow> bool" where
  "rule_after rule \<longleftrightarrow> rule \<noteq> [] \<and> \<not> has_whitespace rule \<and> 0 \<notin> set rule"

fun rule_ok :: "BusRule \<Rightarrow> bool" where
  "rule_ok (See n) = is_bus_name n"
| "rule_ok (Talk n) = is_bus_name n"
| "rule_ok (Own n) = is_bus_name n"
| "rule_ok (Call n rule) = (is_bus_name n \<and> rule_after rule)"
| "rule_ok (Broadcast n rule) = (is_bus_name n \<and> rule_after rule)"

fun owns :: "BusRule \<Rightarrow> bool" where
  "owns (Own _) = True"
| "owns _ = False"

text \<open>One name takes one policy.\<close>

definition one_policy :: "BusRule list \<Rightarrow> bool" where
  "one_policy rules \<longleftrightarrow>
     (\<forall>r \<in> set rules. \<forall>r' \<in> set rules. \<forall>n l l'. bus_policy r = Some (n, l) \<longrightarrow> bus_policy r' = Some (n, l') \<longrightarrow> l = l')"

definition rules_ok :: "BusRule list \<Rightarrow> bool" where
  "rules_ok rules \<longleftrightarrow> list_all rule_ok rules \<and> one_policy rules"

definition nested_ok :: "NestedX11 \<Rightarrow> bool" where
  "nested_ok n \<longleftrightarrow> parse_geometry (nx_geometry n) = Some (nx_geometry n) \<and> (\<forall>w. nx_wm n = Some w \<longrightarrow> wm_ok w)"

definition out_ok :: "AllowOut \<Rightarrow> bool" where
  "out_ok a \<longleftrightarrow> (\<exists>s. cidr_of_str s = Inr (ao_dest a)) \<and> ao_port a \<noteq> Some 0"

definition values_ok :: "NetworkConfig \<Rightarrow> bool" where
  "values_ok cfg \<longleftrightarrow>
     list_all address_ok (nc_dns cfg) \<and> (nc_mode cfg = NetIsolated \<longrightarrow> \<not> list_ex is_loopback (nc_dns cfg)) \<and>
     list_all (\<lambda>f. fw_port f \<noteq> 0) (nc_forwards cfg) \<and> list_all out_ok (nc_allow_out cfg) \<and>
     list_all host_ok_entry (nc_allow_hosts cfg) \<and>
     distinct (nc_dns cfg) \<and> distinct (nc_forwards cfg) \<and> distinct (nc_allow_out cfg) \<and> distinct (nc_allow_hosts cfg)"

definition modes_ok :: "NetworkConfig \<Rightarrow> bool" where
  "modes_ok cfg \<longleftrightarrow>
     (nc_mode cfg = NetNone \<longrightarrow> nc_dns cfg = []) \<and>
     (nc_mode cfg \<noteq> NetIsolated \<longrightarrow>
        nc_forwards cfg = [] \<and> \<not> nc_no_ipv6 cfg \<and> nc_outbound cfg = OutAllow \<and> nc_allow_out cfg = [] \<and> nc_allow_hosts cfg = []) \<and>
     (nc_no_ipv6 cfg \<longrightarrow> \<not> list_ex is_ipv6 (nc_dns cfg) \<and> \<not> list_ex (\<lambda>a. is_ipv6 (cd_addr (ao_dest a))) (nc_allow_out cfg)) \<and>
     (nc_outbound cfg \<noteq> OutDeny \<longrightarrow> nc_allow_out cfg = [] \<and> nc_allow_hosts cfg = []) \<and>
     (nc_allow_hosts cfg \<noteq> [] \<longrightarrow> \<not> list_ex (\<lambda>f. fw_port f = PROXY_PORT) (nc_forwards cfg)) \<and>
     \<not> list_ex (\<lambda>a. ah_port a = PROXY_PORT) (nc_allow_hosts cfg)"

fun service_ok :: "Service \<Rightarrow> bool" where
  "service_ok (X11 (X11Nested n)) = nested_ok n"
| "service_ok (Network cfg) = (values_ok cfg \<and> modes_ok cfg)"
| "service_ok (HomeShare p _ _) = relative_ok p"
| "service_ok (PathShare p _ _) = absolute_ok p"
| "service_ok (EtcShare n) = (plain_name n \<and> n \<notin> set RESERVED_ETC)"
| "service_ok (AppRuntime i _) = is_valid_app_id i"
| "service_ok (Dbus rules) = rules_ok rules"
| "service_ok (SystemBus rules) = (rules_ok rules \<and> rules \<noteq> [] \<and> \<not> list_ex owns rules)"
| "service_ok (Portals children) = distinct children"
| "service_ok (Mpris n) = is_name_glob n 1"
| "service_ok _ = True"

definition pair_ok :: "bytes \<times> bytes \<Rightarrow> bool" where
  "pair_ok kv \<longleftrightarrow> is_env_key (fst kv) \<and> fst kv \<notin> set RESERVED_ENV \<and> forbidden_byte (snd kv) = None"

definition env_ok :: "(bytes \<times> bytes) list \<Rightarrow> bool" where
  "env_ok kvs \<longleftrightarrow> list_all pair_ok kvs \<and> distinct (map fst kvs)"

definition allow_ok :: "LintAllow \<Rightarrow> bool" where
  "allow_ok a \<longleftrightarrow> (\<exists>sev. check (la_id a) = Some (la_id a, sev) \<and> sev \<noteq> SevError) \<and>
     \<not> all_white (la_reason a) 0 \<and> forbidden_byte (la_reason a) = None"

definition known_syscall :: "(bytes \<Rightarrow> int option) \<Rightarrow> bytes \<Rightarrow> bool" where
  "known_syscall syscall_number n \<longleftrightarrow> syscall_number n \<noteq> None \<or> n \<in> set (map fst DEFAULT_ENOSYS_NUMBERED)"

definition seccomp_ok :: "(bytes \<Rightarrow> int option) \<Rightarrow> SeccompConfig \<Rightarrow> bool" where
  "seccomp_ok syscall_number cfg \<longleftrightarrow>
     list_all (known_syscall syscall_number) (sc_allow cfg) \<and> list_all (known_syscall syscall_number) (map fst (sc_deny cfg)) \<and>
     str ''prctl'' \<notin> set (map fst (sc_deny cfg))"

definition command_ok :: "bytes list \<Rightarrow> bool" where
  "command_ok words \<longleftrightarrow> words \<noteq> [] \<and> list_all (\<lambda>w. forbidden_byte w = None) words"

fun node_ok :: "(bytes \<Rightarrow> int option) \<Rightarrow> Node \<Rightarrow> bool" where
  "node_ok nr (NService s) = service_ok s"
| "node_ok nr (NEnv kvs) = env_ok kvs"
| "node_ok nr (NLintAllow as) = list_all allow_ok as"
| "node_ok nr (NTmp n) = (0 < n \<and> n \<le> TMP_SIZE_MAX)"
| "node_ok nr (NSeccomp cfg) = seccomp_ok nr cfg"
| "node_ok nr (NDesktop n) = desktop_ok n"
| "node_ok nr (NCommand words) = command_ok words"
| "node_ok nr _ = True"

section \<open>What each reader accepts\<close>

lemma parse_share_ok:
  assumes "parse_share node what validate allow_optional = Inr (v, mode, opt)" and "\<And>s v. validate node s = Inr v \<Longrightarrow> P v"
  shows "P v"
proof -
  from assms(1) obtain st where
    st: "fold_res (share_entry node what validate allow_optional) \<lparr>sr_value = None, sr_mode = ReadOnly, sr_optional = False\<rparr>
      (kn_entries node) = Inr st" "sr_value st = Some v"
    by (auto simp: parse_share_def reader_simps)
  have "\<forall>w. sr_value st = Some w \<longrightarrow> P w"
  proof (rule fold_res_invariant [OF st(1)])
    fix s e s'
    assume s: "\<forall>w. sr_value s = Some w \<longrightarrow> P w" "share_entry node what validate allow_optional s e = Inr s'"
    then show "\<forall>w. sr_value s' = Some w \<longrightarrow> P w"
      using assms(2) by (auto simp: share_entry_def reader_simps split: option.splits if_splits)
  qed simp
  with st(2) show ?thesis by simp
qed

lemma single_name_Some: "single_name cs = Some n \<longleftrightarrow> cs = [Normal n]"
  by (cases cs rule: single_name.cases) auto

lemma components_single: "components s = [Normal n] \<Longrightarrow> plain_name n"
  using components_plain [of n s] by simp

lemma parse_etc_share_ok: "parse_etc_share node = Inr s \<Longrightarrow> service_ok s"
proof -
  assume "parse_etc_share node = Inr s"
  then obtain n where n: "fold_res (etc_share_entry node) None (kn_entries node) = Inr (Some n)" "s = EtcShare n"
    by (auto simp: parse_etc_share_def reader_simps)
  have "\<forall>m. Some n = Some m \<longrightarrow> plain_name m \<and> m \<notin> set RESERVED_ETC"
  proof (rule fold_res_invariant [OF n(1)])
    fix x e x'
    assume "etc_share_entry node x e = Inr x'"
    then show "\<forall>m. x' = Some m \<longrightarrow> plain_name m \<and> m \<notin> set RESERVED_ETC"
      by (auto simp: etc_share_entry_def reader_simps single_name_Some find_None_iff dest!: components_single
          split: option.splits if_splits)
  qed simp
  with n show ?thesis by simp
qed

lemma one_policyD:
  "one_policy rules \<Longrightarrow> r \<in> set rules \<Longrightarrow> r' \<in> set rules \<Longrightarrow> bus_policy r = Some (n, l) \<Longrightarrow> bus_policy r' = Some (n, l') \<Longrightarrow> l = l'"
  unfolding one_policy_def by blast

lemma set_map_filter_iff: "y \<in> set (List.map_filter f xs) \<longleftrightarrow> (\<exists>x \<in> set xs. f x = Some y)"
  by (induction xs) (auto simp: List.map_filter_simps split: option.splits)

lemma other_policy_None:
  assumes "other_policy rules rule = None" and "bus_policy rule = Some (n, l')" and "one_policy rules"
    and "r \<in> set rules" and "bus_policy r = Some (n, l)"
  shows "l = l'"
proof -
  let ?ps = "List.map_filter bus_policy rules"
  have "(n, l) \<in> set ?ps" using assms(4,5) by (auto simp: set_map_filter_iff)
  then have "List.find (\<lambda>p. fst p = n) ?ps \<noteq> None" by (auto simp: find_None_iff)
  then obtain p where f: "List.find (\<lambda>p. fst p = n) ?ps = Some p" by blast
  then have p: "p \<in> set ?ps" "fst p = n" by (auto simp: find_Some_iff in_set_conv_nth)
  from p(1) obtain r' where r': "r' \<in> set rules" "bus_policy r' = Some p" unfolding set_map_filter_iff by blast
  from r'(2) p(2) have pol: "bus_policy r' = Some (n, snd p)" by auto
  have "l = snd p" using one_policyD [OF assms(3,4) r'(1) assms(5) pol] .
  moreover have "List.find (\<lambda>(m, _). m = n) ?ps = Some p" using f by (simp add: case_prod_unfold)
  with assms(1,2) have "snd p = l'" by (cases p) (simp add: other_policy_def split: if_splits)
  ultimately show ?thesis by simp
qed

lemma one_policy_snoc:
  assumes "one_policy rules" and "other_policy rules rule = None"
  shows "one_policy (rules @ [rule])"
  unfolding one_policy_def
proof (intro ballI allI impI)
  fix r r' n l l'
  assume r: "r \<in> set (rules @ [rule])" "r' \<in> set (rules @ [rule])" "bus_policy r = Some (n, l)" "bus_policy r' = Some (n, l')"
  consider "r \<in> set rules" "r' \<in> set rules" | "r \<in> set rules" "r' = rule" | "r = rule" "r' \<in> set rules" | "r = rule" "r' = rule"
    using r(1,2) by auto
  then show "l = l'"
  proof cases
    case 1
    with r(3,4) one_policyD [OF assms(1)] show ?thesis by blast
  next
    case 2
    with r(3,4) other_policy_None [OF assms(2) _ assms(1)] show ?thesis by blast
  next
    case 3
    with r(3,4) other_policy_None [OF assms(2) _ assms(1)] show ?thesis by metis
  qed (use r(3,4) in simp)
qed

lemma one_rule_ok:
  "one_rule node own_allowed child arg = Inr rule \<Longrightarrow> rule_ok rule \<and> (own_allowed \<or> \<not> owns rule)"
  by (auto simp: one_rule_def Let_def bus_name_def rule_after_def reader_simps split: if_splits)

lemma parse_bus_rules_ok:
  assumes "parse_bus_rules node own_allowed = Inr rules"
  shows "rules_ok rules \<and> (own_allowed \<or> \<not> list_ex owns rules)"
proof -
  from assms have "fold_res (bus_child node own_allowed) [] (children_of node) = Inr rules"
    by (auto simp: parse_bus_rules_def reader_simps)
  then show ?thesis
  proof (rule fold_res_invariant)
    show "rules_ok [] \<and> (own_allowed \<or> \<not> list_ex owns [])" by (simp add: rules_ok_def one_policy_def)
  next
    fix rs child rs'
    assume rs: "rules_ok rs \<and> (own_allowed \<or> \<not> list_ex owns rs)" "bus_child node own_allowed rs child = Inr rs'"
    from rs(2) obtain arg r where r: "one_rule node own_allowed child arg = Inr r" "other_policy rs r = None" "rs' = rs @ [r]"
    proof (simp only: bus_child_def reader_simps, elim exE conjE)
      fix arg r
      assume "one_rule node own_allowed child arg = Inr r" "(case other_policy rs r of
         Some (name, was, level) \<Rightarrow>
           Inl (bad node (str ''grants '' @ quoted name @ str '' as '' @ quoted was @ str '' and as '' @ quoted level @
             str ''; one name takes one policy''))
       | None \<Rightarrow> Inr (rs @ [r])) = Inr rs'"
      then show thesis by (cases "other_policy rs r") (auto intro: that)
    qed
    with rs(1) one_rule_ok [OF r(1)] one_policy_snoc [of rs r] show "rules_ok rs' \<and> (own_allowed \<or> \<not> list_ex owns rs')"
      by (auto simp: rules_ok_def)
  qed
qed

lemma parse_mpris_ok: "parse_mpris node = Inr s \<Longrightarrow> service_ok s"
proof -
  assume "parse_mpris node = Inr s"
  then obtain n where n: "fold_res (mpris_entry node) None (kn_entries node) = Inr (Some n)" "s = Mpris n"
    by (auto simp: parse_mpris_def reader_simps)
  have "\<forall>m. Some n = Some m \<longrightarrow> is_name_glob m 1"
    by (rule fold_res_invariant [OF n(1)])
      (auto simp: mpris_entry_def reader_simps split: option.splits if_splits)
  with n show ?thesis by simp
qed

lemma check_Some: "check i = Some c \<Longrightarrow> fst c = i"
  unfolding check_def by (auto simp: find_Some_iff)

lemma parse_lint_allow_ok:
  assumes "parse_lint_allow node = Inr a"
  shows "allow_ok a"
proof -
  from assms obtain i reason where f: "fold_res (lint_allow_entry node) (None, None) (kn_entries node) = Inr (Some i, reason)"
    by (auto simp: parse_lint_allow_def reader_simps)
  have "reject_children node = Inr ()" using assms by (auto simp: parse_lint_allow_def reader_simps)
  note p = assms [unfolded parse_lint_allow_def f this res_bind_simps prod.case ok_or_simps]
  from p obtain c where c: "check i = Some c" by (cases "check i") auto
  with check_Some [OF c] obtain sev where c: "check i = Some (i, sev)" by (cases c) auto
  from p c have sev: "sev \<noteq> SevError" by (auto split: if_split_asm)
  with p c obtain r where r: "reason = Some r" by (cases reason) auto
  with p c sev have w: "\<not> all_white r 0" by (auto split: if_split_asm)
  with p c sev r have "forbidden_byte r = None" by (simp split: option.split_asm)
  with p c sev r w show ?thesis by (auto simp: allow_ok_def)
qed

lemma env_entry_Inr:
  assumes "env_entry node out e = Inr out'"
  shows "\<exists>kv. out' = out @ [kv] \<and> pair_ok kv \<and> fst kv \<notin> set (map fst out)"
proof -
  from assms obtain key val where kv: "en_name e = Some key" "as_string (en_value e) = Some val"
    by (cases "en_name e"; cases "as_string (en_value e)") (simp_all add: env_entry_def)
  note e = assms [unfolded env_entry_def kv ok_or_simps res_bind_simps]
  from e have k: "is_env_key key" by (auto split: if_split_asm)
  with e have f: "forbidden_byte val = None" by (simp split: option.split_asm)
  with e k have r: "key \<notin> set RESERVED_ENV" by (simp split: if_split_asm)
  with e k f have d: "key \<notin> set (map fst out)" by (simp del: list.set_map split: if_split_asm)
  with e k f r have "out' = out @ [(key, val)]" by (simp del: list.set_map)
  with k f r d show ?thesis by (auto simp: pair_ok_def)
qed

lemma parse_env_ok: "parse_env node = Inr kvs \<Longrightarrow> env_ok kvs \<and> kvs \<noteq> []"
proof -
  assume "parse_env node = Inr kvs"
  then have f: "fold_res (env_entry node) [] (kn_entries node) = Inr kvs" "kn_entries node \<noteq> []"
    by (auto simp: parse_env_def reader_simps split: if_splits)
  have "env_ok kvs"
  proof (rule fold_res_invariant [OF f(1)])
    fix out e out'
    assume "env_ok out" "env_entry node out e = Inr out'"
    with env_entry_Inr [of node out e out'] show "env_ok out'" by (auto simp: env_ok_def)
  qed (simp add: env_ok_def)
  moreover obtain e es where e: "kn_entries node = e # es" using f(2) by (cases "kn_entries node") auto
  with f(1) obtain k where k: "env_entry node [] e = Inr k" "fold_res (env_entry node) k es = Inr kvs"
    by (auto simp: reader_simps)
  have "kvs \<noteq> []"
    by (rule fold_res_invariant [OF k(2)]) (use env_entry_Inr [of node _ _] k(1) in fastforce)+
  ultimately show ?thesis by simp
qed

lemma port_of_ok: "port_of node v = Inr p \<Longrightarrow> p \<noteq> 0"
proof -
  assume "port_of node v = Inr p"
  then obtain n where n: "0 \<le> n" "n < 2 ^ 16" "n \<noteq> 0" "p = of_int n"
    by (auto simp: port_of_def reader_simps Option.bind_eq_Some_conv split: if_splits)
  then have "uint p = n" by (simp add: take_bit_int_eq_self unsigned_of_int)
  with n show ?thesis by auto
qed

lemma port_of_0 [simp]: "port_of node v \<noteq> Inr 0"
  using port_of_ok by blast

lemma parse_allow_out_ok: "parse_allow_out node = Inr a \<Longrightarrow> out_ok a"
proof -
  assume "parse_allow_out node = Inr a"
  then obtain d port proto where d: "fold_res (allow_out_entry node) (None, None, None) (kn_entries node) = Inr (Some d, port, proto)"
      "a = \<lparr>ao_dest = d, ao_port = port, ao_proto = proto\<rparr>"
    by (auto simp: parse_allow_out_def reader_simps)
  have "case (Some d, port, proto) of (d, p, q) \<Rightarrow> (\<forall>c. d = Some c \<longrightarrow> (\<exists>s. cidr_of_str s = Inr c)) \<and> p \<noteq> Some 0"
    by (rule fold_res_invariant [OF d(1)])
      (auto simp: allow_out_entry_def reader_simps split: option.splits if_splits)
  with d show ?thesis by (auto simp: out_ok_def)
qed

lemma parse_allow_host_ok: "parse_allow_host node = Inr a \<Longrightarrow> host_ok_entry a"
proof -
  assume "parse_allow_host node = Inr a"
  then obtain q port where d: "fold_res (allow_host_entry node) (None, None) (kn_entries node) = Inr (Some q, port)"
      "a = \<lparr>ah_pattern = q, ah_port = (case port of Some n \<Rightarrow> n | None \<Rightarrow> DEFAULT_PORT)\<rparr>"
    by (auto simp: parse_allow_host_def reader_simps)
  have "case (Some q, port) of (d, p) \<Rightarrow> (\<forall>c. d = Some c \<longrightarrow> (\<exists>s. pattern_parse s = Inr c)) \<and> p \<noteq> Some 0"
    by (rule fold_res_invariant [OF d(1)])
      (auto simp: allow_host_entry_def reader_simps split: option.splits if_splits)
  with d show ?thesis by (auto simp: host_ok_entry_def DEFAULT_PORT_def split: option.splits)
qed

lemma parse_allow_port_ok: "parse_allow_port node = Inr f \<Longrightarrow> fw_port f \<noteq> 0"
proof -
  assume "parse_allow_port node = Inr f"
  then obtain p udp where d: "fold_res (allow_port_entry node) (None, None) (kn_entries node) = Inr (Some p, udp)" "fw_port f = p"
    by (auto simp: parse_allow_port_def reader_simps)
  have "fst (Some p, udp) \<noteq> Some 0"
    by (rule fold_res_invariant [OF d(1)])
      (auto simp: allow_port_entry_def reader_simps split: option.splits if_splits)
  with d show ?thesis by simp
qed

lemma read_groups_length:
  assumes "read_groups fuel limit i acc s = (acc', n, v4, s')" and "length acc = 2 * i" and "fuel + i = limit"
  shows "length acc' = 2 * n \<and> n \<le> limit"
  using assms
proof (induction fuel limit i acc s rule: read_groups.induct)
  case (2 fuel limit i acc s)
  have v4: "length w = 4" if "Option.bind (read_sep 0x3a i s) read_ipv4 = Some (w, r)" for w r
    using that by (auto simp: read_ipv4_def Option.bind_eq_Some_conv)
  have g: "length w = 2" if "Option.bind (read_sep 0x3a i s) read_group = Some (w, r)" for w r
    using that by (auto simp: read_group_def Let_def Option.bind_eq_Some_conv split: if_splits)
  show ?case
  proof (cases "if i + 1 < limit then Option.bind (read_sep 0x3a i s) read_ipv4 else None")
    case None
    show ?thesis
    proof (cases "Option.bind (read_sep 0x3a i s) read_group")
      case None': None
      with None "2.prems" show ?thesis by auto
    next
      case (Some gr)
      then obtain w r where gr: "gr = (w, r)" by (cases gr)
      with None Some "2.prems" g [of w r] "2.IH" [OF None Some [unfolded gr] refl] show ?thesis by auto
    qed
  next
    case (Some gr)
    then obtain w r where gr: "gr = (w, r)" by (cases gr)
    with Some have "i + 1 < limit" "Option.bind (read_sep 0x3a i s) read_ipv4 = Some (w, r)" by (auto split: if_splits)
    with Some gr "2.prems" v4 [of w r] show ?thesis by auto
  qed
qed auto

lemma read_ipv6_length:
  assumes "read_ipv6 s = Some (x, r)"
  shows "length x = 16"
proof -
  obtain h n v4 s1 where h: "read_groups 8 8 0 [] s = (h, n, v4, s1)" by (metis prod_cases4)
  have lh: "length h = 2 * n" "n \<le> 8" using read_groups_length [OF h] by auto
  show ?thesis
  proof (cases "n = 8")
    case True
    with assms h lh show ?thesis by (simp add: read_ipv6_def)
  next
    case False
    with assms h obtain s2 where s2: "s1 = 0x3a # 0x3a # s2"
      by (auto simp: read_ipv6_def split: if_splits list.splits)
    obtain t m w s3 where t: "read_groups (8 - (n + 1)) (8 - (n + 1)) 0 [] s2 = (t, m, w, s3)" by (metis prod_cases4)
    have "length t = 2 * m" "m \<le> 8 - (n + 1)" using read_groups_length [OF t] by auto
    with assms h s2 t lh False show ?thesis by (auto simp: read_ipv6_def Let_def split: if_splits)
  qed
qed

lemma parse_ip_ok: "parse_ip s = Some a \<Longrightarrow> address_ok a"
  by (auto simp: parse_ip_def address_ok_def dest!: read_ipv6_length split: option.splits list.splits IpAddr.splits)

definition network_inv :: "NetworkConfig \<times> bool \<Rightarrow> bool" where
  "network_inv st \<longleftrightarrow> values_ok (fst st) \<and> (\<not> snd st \<longrightarrow> nc_outbound (fst st) = OutAllow)"

lemma network_child_inv:
  assumes "network_inv (cfg, seen)" and "network_child (cfg, seen) child = Inr st"
  shows "network_inv st"
proof -
  let ?kind = "kn_name child"
  note child = assms(2) [unfolded network_child_def prod.case Let_def res_bind_eq_Inr]
  consider "?kind = str ''dns''" | "?kind = str ''allow-port''" | "?kind = str ''no-ipv6''" | "?kind = str ''outbound''"
    | "?kind = str ''allow-out''" | "?kind = str ''allow-host''"
    using child by (auto split: if_split_asm)
  then show ?thesis
  proof cases
    case 1
    with child obtain ip where "parse_dns child = Inr ip" "\<not> (is_loopback ip \<and> nc_mode cfg = NetIsolated)" "ip \<notin> set (nc_dns cfg)"
        "st = (cfg\<lparr>nc_dns := nc_dns cfg @ [ip]\<rparr>, seen)"
      by (auto simp: reader_simps split: if_split_asm)
    moreover from this(1) have "address_ok ip" by (auto simp: parse_dns_def reader_simps dest: parse_ip_ok)
    ultimately show ?thesis using assms(1) by (auto simp: network_inv_def values_ok_def)
  next
    case 2
    with child obtain f where "parse_allow_port child = Inr f" "f \<notin> set (nc_forwards cfg)"
        "st = (cfg\<lparr>nc_forwards := nc_forwards cfg @ [f]\<rparr>, seen)"
      by (auto simp: reader_simps str_Cons split: if_split_asm)
    with assms(1) parse_allow_port_ok [of child f] show ?thesis by (auto simp: network_inv_def values_ok_def)
  next
    case 3
    with child have "st = (cfg\<lparr>nc_no_ipv6 := True\<rparr>, seen)" by (auto simp: reader_simps str_Cons split: if_split_asm)
    with assms(1) show ?thesis by (simp add: network_inv_def values_ok_def)
  next
    case 4
    with child obtain out where "st = (cfg\<lparr>nc_outbound := out\<rparr>, True)" by (auto simp: reader_simps str_Cons split: if_split_asm)
    with assms(1) show ?thesis by (simp add: network_inv_def values_ok_def)
  next
    case 5
    with child obtain a where "parse_allow_out child = Inr a" "a \<notin> set (nc_allow_out cfg)"
        "st = (cfg\<lparr>nc_allow_out := nc_allow_out cfg @ [a]\<rparr>, seen)"
      by (auto simp: reader_simps str_Cons split: if_split_asm)
    with assms(1) parse_allow_out_ok [of child a] show ?thesis by (auto simp: network_inv_def values_ok_def)
  next
    case 6
    with child obtain a where "parse_allow_host child = Inr a" "a \<notin> set (nc_allow_hosts cfg)"
        "st = (cfg\<lparr>nc_allow_hosts := nc_allow_hosts cfg @ [a]\<rparr>, seen)"
      by (auto simp: reader_simps str_Cons split: if_split_asm)
    with assms(1) parse_allow_host_ok [of child a] show ?thesis by (auto simp: network_inv_def values_ok_def)
  qed
qed

lemma network_refusal_None:
  assumes "network_refusal cfg seen = None" and "\<not> seen \<longrightarrow> nc_outbound cfg = OutAllow"
  shows "modes_ok cfg"
  using assms by (auto simp: network_refusal_def modes_ok_def find_None_iff list_ex_iff split: if_split_asm)

lemma parse_network_ok:
  assumes "parse_network node = Inr s"
  shows "service_ok s"
proof -
  from assms obtain m st where st: "fold_res network_child (network_default\<lparr>nc_mode := m\<rparr>, False) (children_of node) = Inr st"
      "(case st of (cfg, seen) \<Rightarrow> case network_refusal cfg seen of Some r \<Rightarrow> Inl (bad node r) | None \<Rightarrow> Inr (Network cfg)) = Inr s"
    unfolding parse_network_def res_bind_eq_Inr by blast
  obtain cfg seen where c: "st = (cfg, seen)" by (cases st)
  with st(2) have p: "network_refusal cfg seen = None" "s = Network cfg" by (simp_all split: option.split_asm)
  have "network_inv st"
  proof (rule fold_res_invariant [OF st(1)])
    show "network_inv (network_default\<lparr>nc_mode := m\<rparr>, False)"
      by (simp add: network_inv_def values_ok_def network_default_def)
  next
    fix st child st'
    assume "network_inv st" "network_child st child = Inr st'"
    then show "network_inv st'" by (cases st) (auto intro: network_child_inv)
  qed
  with p c network_refusal_None [of cfg seen] show ?thesis by (simp add: network_inv_def)
qed

lemma geometry_idem: "parse_geometry s = Some g \<Longrightarrow> parse_geometry g = Some g"
  using parse_geometry_canonical(1) by blast

lemma parse_x11_ok: "parse_x11 node = Inr (X11Nested n) \<Longrightarrow> nested_ok n"
proof -
  assume "parse_x11 node = Inr (X11Nested n)"
  then obtain st where st: "fold_res (x11_entry node)
       \<lparr>xr_host = False, xr_geometry = None, xr_fullscreen = None, xr_grab = None, xr_wm = None\<rparr> (kn_entries node) = Inr st"
      "nx_geometry n = (case xr_geometry st of Some g \<Rightarrow> g | None \<Rightarrow> nx_geometry nested_default)" "nx_wm n = xr_wm st"
    by (auto simp: parse_x11_def reader_simps split: if_split_asm)
  have "(\<forall>g. xr_geometry st = Some g \<longrightarrow> parse_geometry g = Some g) \<and> (\<forall>w. xr_wm st = Some w \<longrightarrow> wm_ok w)"
  proof (rule fold_res_invariant [OF st(1)])
    fix st e st'
    assume "(\<forall>g. xr_geometry st = Some g \<longrightarrow> parse_geometry g = Some g) \<and> (\<forall>w. xr_wm st = Some w \<longrightarrow> wm_ok w)"
      "x11_entry node st e = Inr st'"
    then show "(\<forall>g. xr_geometry st' = Some g \<longrightarrow> parse_geometry g = Some g) \<and> (\<forall>w. xr_wm st' = Some w \<longrightarrow> wm_ok w)"
      by (auto simp: x11_entry_def reader_simps dest: geometry_idem split: option.split_asm if_split_asm)
  qed simp
  moreover have "parse_geometry (nx_geometry nested_default) = Some (nx_geometry nested_default)"
    by (simp add: str_Cons nested_default_def parse_geometry_def positive_def parse_unsigned_def dec_val_def digit_val_def is_ascii_digit_def
        dec_digits.simps)
  ultimately show ?thesis using st(2,3) by (auto simp: nested_ok_def split: option.split)
qed

lemma parse_tmp_ok: "parse_tmp node = Inr n \<Longrightarrow> 0 < n \<and> n \<le> TMP_SIZE_MAX"
  by (auto simp: parse_tmp_def reader_simps Let_def split: if_split_asm)

lemma syscall_names_ok: "syscall_names nr node = Inr names \<Longrightarrow> list_all (known_syscall nr) names"
proof -
  assume "syscall_names nr node = Inr names"
  then have f: "fold_res (syscall_entry nr node) [] (kn_entries node) = Inr names"
    by (auto simp: syscall_names_def reader_simps split: if_split_asm)
  have known: "syscall_name nr node s = Inr n \<Longrightarrow> known_syscall nr n" for s n
    by (simp add: syscall_name_def known_syscall_def del: list.set_map split: if_split_asm)
  show ?thesis
    by (rule fold_res_invariant [OF f])
      (auto simp: syscall_entry_def reader_simps intro: known split: option.split_asm if_split_asm)
qed

lemma deny_names_ok:
  "fold_res (deny_name child errno) deny names = Inr deny' \<Longrightarrow> deny' = deny @ map (\<lambda>n. (n, errno)) names \<and> str ''prctl'' \<notin> set names"
  by (induction names arbitrary: deny) (fastforce simp: deny_name_def reader_simps split: if_split_asm)+

lemma parse_seccomp_ok: "parse_seccomp nr node = Inr cfg \<Longrightarrow> seccomp_ok nr cfg"
proof -
  assume "parse_seccomp nr node = Inr cfg"
  then have f: "fold_res (seccomp_child nr) seccomp_default (children_of node) = Inr cfg"
    by (auto simp: parse_seccomp_def reader_simps)
  show ?thesis
  proof (rule fold_res_invariant [OF f])
    fix c child c'
    assume "seccomp_ok nr c" "seccomp_child nr c child = Inr c'"
    then show "seccomp_ok nr c'"
      by (auto simp: seccomp_child_def Let_def seccomp_ok_def reader_simps image_image comp_def
          dest!: syscall_names_ok deny_names_ok split: if_split_asm option.split_asm)
  qed (simp add: seccomp_ok_def seccomp_default_def)
qed

lemma parse_command_ok: "parse_command node = Inr words \<Longrightarrow> command_ok words"
proof -
  assume "parse_command node = Inr words"
  then have f: "fold_res (command_entry node) [] (kn_entries node) = Inr words" "words \<noteq> []"
    by (auto simp: parse_command_def reader_simps split: if_split_asm)
  have "list_all (\<lambda>w. forbidden_byte w = None) words"
    by (rule fold_res_invariant [OF f(1)])
      (auto simp: command_entry_def reader_simps split: option.split_asm)
  with f(2) show ?thesis by (simp add: command_ok_def)
qed

lemma parse_camera_Inr: "parse_camera node = Inr s \<Longrightarrow> \<exists>nodes. s = Camera nodes"
  by (auto simp: parse_camera_def reader_simps)

lemma parse_portals_ok:
  assumes "parse_portals node = Inr (portals, camera)"
  shows "service_ok portals \<and> (\<forall>c off. camera = Some (c, off) \<longrightarrow> (\<exists>nodes. c = Camera nodes))"
proof -
  from assms obtain children where f: "fold_res (portal_child node) ([], None) (children_of node) = Inr (children, camera)"
      "portals = Portals children"
    by (auto simp: parse_portals_def reader_simps)
  have "distinct (fst (children, camera)) \<and> (\<forall>c off. snd (children, camera) = Some (c, off) \<longrightarrow> (\<exists>nodes. c = Camera nodes))"
  proof (rule fold_res_invariant [OF f(1)])
    fix st child st'
    assume "distinct (fst st) \<and> (\<forall>c off. snd st = Some (c, off) \<longrightarrow> (\<exists>nodes. c = Camera nodes))" "portal_child node st child = Inr st'"
    then show "distinct (fst st') \<and> (\<forall>c off. snd st' = Some (c, off) \<longrightarrow> (\<exists>nodes. c = Camera nodes))"
      by (cases st) (auto simp: portal_child_def Let_def reader_simps dest: parse_camera_Inr split: option.split_asm if_split_asm)
  qed simp
  with f(2) show ?thesis by simp
qed

lemma parse_desktop_ok: "parse_desktop node = Inr n \<Longrightarrow> desktop_ok n"
  by (auto simp: parse_desktop_def reader_simps split: if_split_asm)

lemma parse_system_bus_ok: "parse_system_bus node = Inr s \<Longrightarrow> service_ok s"
  by (auto simp: parse_system_bus_def reader_simps dest: parse_bus_rules_ok split: if_split_asm)

lemma parse_dbus_ok: "parse_dbus node = Inr s \<Longrightarrow> service_ok s"
  by (auto simp: parse_dbus_def reader_simps dest: parse_bus_rules_ok)

lemma parse_share_relative: "parse_share node what validate_relative b = Inr (p, mode, opt) \<Longrightarrow> relative_ok p"
  by (erule parse_share_ok) (simp add: validate_relative_ok)

lemma parse_share_absolute: "parse_share node what validate_absolute b = Inr (p, mode, opt) \<Longrightarrow> absolute_ok p"
  by (erule parse_share_ok) (simp add: validate_absolute_ok)

lemma parse_share_app_id: "parse_share node what validate_app_id b = Inr (p, mode, opt) \<Longrightarrow> is_valid_app_id p"
  by (erule parse_share_ok) (simp add: validate_app_id_def split: if_split_asm)

lemma parse_x11_service: "parse_x11 node = Inr m \<Longrightarrow> service_ok (X11 m)"
  using parse_x11_ok by (cases m) auto

lemma parse_flags_ok: "parse_dri node = Inr s \<Longrightarrow> service_ok s" "parse_gamepad node = Inr s \<Longrightarrow> service_ok s"
    "parse_camera node = Inr s \<Longrightarrow> service_ok s"
  by (auto simp: parse_dri_def parse_gamepad_def parse_camera_def reader_simps)

lemmas readers_ok = parse_system_bus_ok parse_dbus_ok parse_share_relative parse_share_absolute parse_share_app_id
  parse_x11_service parse_flags_ok parse_desktop_ok parse_command_ok parse_seccomp_ok parse_tmp_ok parse_network_ok
  parse_mpris_ok parse_lint_allow_ok parse_etc_share_ok

lemma parse_flag_Inr: "parse_flag s node = Inr m \<Longrightarrow> m = NService s"
  by (auto simp: parse_flag_def reader_simps)

lemma parse_one_ok:
  assumes "parse_one nr node profile = Inr n"
  shows "node_ok nr n"
  using assms unfolding parse_one_def Let_def res_bind_eq_Inr
  by (auto dest: readers_ok parse_env_ok parse_portals_ok dest!: parse_flag_Inr split: if_split_asm prod.split_asm)

end
