(* ===== verification/Core_Parse.thy ===== *)
theory Core_Parse
  imports Core_Valid
begin

text \<open>
  The document reader of \<^verbatim>\<open>config.rs\<close>: blocks of repeatable nodes, what counts as granting the same
  thing twice, the \<^verbatim>\<open>/-\<close> lines kept beside the grants, the line of every grant, and the checks over the
  whole file.  The KDL parser is the argument \<open>kdl\<close> and libseccomp's table the argument \<open>nr\<close>.
  Shown: a configuration the reader returns is well-formed (\<open>config_ok\<close>), whatever document the KDL
  parser made of the text, with one line number for each grant and each variable.
\<close>

section \<open>Blocks\<close>

fun map_res :: "('a \<Rightarrow> 'e + 'b) \<Rightarrow> 'a list \<Rightarrow> 'e + 'b list" where
  "map_res f [] = Inr []"
| "map_res f (x # xs) = res_bind (f x) (\<lambda>y. res_bind (map_res f xs) (\<lambda>ys. Inr (y # ys)))"

definition ENV_CHILD :: bytes where
  "ENV_CHILD = str ''an env child is one KEY \"value\" pair: exactly one string argument''"

definition with_entries :: "KdlNode \<Rightarrow> KdlEntry list \<Rightarrow> KdlNode" where
  "with_entries node es =
     KdlNode (kn_name node) (kn_offset node) (kn_typed node) es (kn_children node) (kn_leading node)"

definition block_line :: "KdlNode \<Rightarrow> KdlNode \<Rightarrow> ConfigError + KdlNode" where
  "block_line node child =
     (let name = kn_name node; line = line_form name child in
      res_bind (reject_types child) (\<lambda>_.
        if name = str ''env'' then
          (case kn_entries child of
             [entry] \<Rightarrow>
               if en_name entry \<noteq> None then Inl (bad node ENV_CHILD)
               else
                 res_bind (ok_or (bad node ENV_CHILD) (as_string (en_value entry))) (\<lambda>value.
                   Inr (with_entries line [prop_entry (kn_name child) (KString value)]))
           | _ \<Rightarrow> Inl (bad node ENV_CHILD))
        else Inr (with_entries line (arg_entry (KString (kn_name child)) # kn_entries child))))"

definition parse_repeatable_block :: "KdlNode \<Rightarrow> ConfigError + KdlNode list option" where
  "parse_repeatable_block node =
     (if kn_name node \<notin> set REPEATABLE then Inr None
      else
        case kn_children node of
          None \<Rightarrow> Inr None
        | Some kids \<Rightarrow>
            res_bind (reject_types node) (\<lambda>_.
              if kn_entries node \<noteq> [] then Inl (bad node (str ''takes an argument or children, not both''))
              else res_map Some (map_res (block_line node) kids)))"

definition parse_node :: "(bytes \<Rightarrow> int option) \<Rightarrow> KdlNode \<Rightarrow> bool \<Rightarrow> ConfigError + (Node \<times> nat) list" where
  "parse_node nr node profile =
     res_bind (parse_repeatable_block node) (\<lambda>block.
       case block of
         Some lines \<Rightarrow> map_res (\<lambda>line. res_map (\<lambda>n. (n, kn_offset line)) (parse_one nr line profile)) lines
       | None \<Rightarrow>
           if kn_name node = str ''portals'' \<and> kn_children node \<noteq> None then
             res_map (\<lambda>(portals, camera).
               (NService portals, kn_offset node) #
               (case camera of Some (c, offset) \<Rightarrow> [(NService c, offset)] | None \<Rightarrow> [])) (parse_portals node)
           else res_map (\<lambda>n. [(n, kn_offset node)]) (parse_one nr node profile))"

section \<open>Grants and sections\<close>

definition same_grant :: "Service \<Rightarrow> Service \<Rightarrow> bool" where
  "same_grant svc s =
     (case svc of
        HomeShare p _ _ \<Rightarrow> (case s of HomeShare q _ _ \<Rightarrow> path_eq q p | _ \<Rightarrow> False)
      | PathShare p _ _ \<Rightarrow> (case s of PathShare q _ _ \<Rightarrow> path_eq q p | _ \<Rightarrow> False)
      | EtcShare n \<Rightarrow> (case s of EtcShare m \<Rightarrow> m = n | _ \<Rightarrow> False)
      | AppRuntime i _ \<Rightarrow> (case s of AppRuntime j _ \<Rightarrow> j = i | _ \<Rightarrow> False)
      | Wayland _ \<Rightarrow> (case s of Wayland _ \<Rightarrow> True | _ \<Rightarrow> False)
      | X11 _ \<Rightarrow> (case s of X11 _ \<Rightarrow> True | _ \<Rightarrow> False)
      | Network _ \<Rightarrow> (case s of Network _ \<Rightarrow> True | _ \<Rightarrow> False)
      | Gamepad _ _ \<Rightarrow> (case s of Gamepad _ _ \<Rightarrow> True | _ \<Rightarrow> False)
      | Camera _ \<Rightarrow> (case s of Camera _ \<Rightarrow> True | _ \<Rightarrow> False)
      | Dri _ \<Rightarrow> (case s of Dri _ \<Rightarrow> True | _ \<Rightarrow> False)
      | Dbus _ \<Rightarrow> (case s of Dbus _ \<Rightarrow> True | _ \<Rightarrow> False)
      | SystemBus _ \<Rightarrow> (case s of SystemBus _ \<Rightarrow> True | _ \<Rightarrow> False)
      | Mpris _ \<Rightarrow> (case s of Mpris _ \<Rightarrow> True | _ \<Rightarrow> False)
      | Portals _ \<Rightarrow> (case s of Portals _ \<Rightarrow> True | _ \<Rightarrow> False)
      | _ \<Rightarrow> s = svc)"

definition grant :: "Service list \<Rightarrow> Service \<Rightarrow> ConfigError + Service list" where
  "grant held svc =
     (if list_ex (same_grant svc) held then Inl (Duplicate (service_node_name svc)) else Inr (held @ [svc]))"

definition config_default :: InstanceConfig where
  "config_default =
     \<lparr>ic_services = [], ic_shares = [], ic_command = None, ic_env = [], ic_etc = EtcAllowlist, ic_tmp = None, ic_tty = TtyPty,
      ic_seccomp = seccomp_default, ic_userns = UsernsAllow, ic_lint_allows = [], ic_desktop = None, ic_disabled = []\<rparr>"

record Counts =
  ct_lint_allows :: nat
  ct_services :: nat
  ct_env :: nat
  ct_etc :: nat
  ct_tmp :: nat
  ct_tty :: nat
  ct_userns :: nat
  ct_seccomp :: nat
  ct_desktop :: nat
  ct_command :: nat

definition counts_of :: "InstanceConfig \<Rightarrow> Counts" where
  "counts_of cfg =
     \<lparr>ct_lint_allows = length (ic_lint_allows cfg), ct_services = length (ic_services cfg), ct_env = length (ic_env cfg),
      ct_etc = of_bool (ic_etc cfg \<noteq> EtcAllowlist), ct_tmp = of_bool (ic_tmp cfg \<noteq> None),
      ct_tty = of_bool (ic_tty cfg \<noteq> TtyPty), ct_userns = of_bool (ic_userns cfg \<noteq> UsernsAllow),
      ct_seccomp = of_bool (ic_seccomp cfg \<noteq> seccomp_default), ct_desktop = of_bool (ic_desktop cfg \<noteq> None),
      ct_command = of_bool (ic_command cfg \<noteq> None)\<rparr>"

fun before :: "Counts \<Rightarrow> Node \<Rightarrow> nat" where
  "before c (NService _) = ct_services c"
| "before c (NEnv _) = ct_env c"
| "before c (NLintAllow _) = ct_lint_allows c"
| "before c (NEtc _) = ct_etc c"
| "before c (NTmp _) = ct_tmp c"
| "before c (NTty _) = ct_tty c"
| "before c (NUserns _) = ct_userns c"
| "before c (NSeccomp _) = ct_seccomp c"
| "before c (NDesktop _) = ct_desktop c"
| "before c (NCommand _) = ct_command c"

fun section_rank :: "Node \<Rightarrow> nat" where
  "section_rank (NLintAllow _) = 0"
| "section_rank (NService _) = 1"
| "section_rank (NEnv _) = 2"
| "section_rank (NEtc _) = 3"
| "section_rank (NTmp _) = 4"
| "section_rank (NTty _) = 5"
| "section_rank (NUserns _) = 6"
| "section_rank (NSeccomp _) = 7"
| "section_rank (NDesktop _) = 8"
| "section_rank (NCommand _) = 9"

section \<open>The document\<close>

text \<open>\<open>kd_format\<close> is the text before the first node and after the last one.\<close>

record KdlDocument =
  kd_nodes :: "KdlNode list"
  kd_format :: "(bytes \<times> bytes) option"

type_synonym kdl_parser = "bytes \<Rightarrow> ConfigError + KdlDocument"

definition parse_document :: "kdl_parser \<Rightarrow> bytes \<Rightarrow> ConfigError + KdlDocument" where
  "parse_document kdl t = res_bind (check_bounds t) (\<lambda>_. kdl t)"

text \<open>The scan returns on every text (\<open>slashdash_marks_found\<close>).\<close>

definition marks_of :: "bytes \<Rightarrow> nat list" where
  "marks_of t = (case slashdash_marks t of Some ms \<Rightarrow> ms | None \<Rightarrow> [])"

fun cut_marks :: "bytes \<Rightarrow> nat \<Rightarrow> nat list \<Rightarrow> bytes" where
  "cut_marks t from [] = drop from t"
| "cut_marks t from (m # ms) = take (m - from) (drop from t) @ cut_marks t (m + 2) ms"

definition disabled_in ::
  "kdl_parser \<Rightarrow> (bytes \<Rightarrow> int option) \<Rightarrow> bytes \<Rightarrow> bool \<Rightarrow> Counts \<Rightarrow> ConfigError + Disabled list" where
  "disabled_in kdl nr t profile at =
     (let marks = marks_of t in
      if marks = [] then Inr []
      else
        res_bind (parse_document kdl (cut_marks t 0 marks)) (\<lambda>doc.
        res_bind (map_res (\<lambda>node. parse_node nr node profile) (kd_nodes doc)) (\<lambda>nss.
        Inr (map (\<lambda>(n, _). \<lparr>di_node = n, di_before = before at n\<rparr>) (concat nss)))))"

definition parse_include :: "KdlNode \<Rightarrow> ConfigError + bytes" where
  "parse_include node = res_bind (one_string_arg node) (\<lambda>name. res_bind (reject_children node) (\<lambda>_. Inr name))"

fun is_dbus :: "Service \<Rightarrow> bool" where
  "is_dbus (Dbus _) = True"
| "is_dbus _ = False"

fun bundle_name :: "Service \<Rightarrow> bytes option" where
  "bundle_name (Portals _) = Some (str ''portals'')"
| "bundle_name Notify = Some (str ''notify'')"
| "bundle_name Tray = Some (str ''tray'')"
| "bundle_name (Mpris _) = Some (str ''mpris'')"
| "bundle_name A11y = Some (str ''a11y'')"
| "bundle_name InputMethod = Some (str ''input-method'')"
| "bundle_name _ = None"

definition has_dbus :: "Service list \<Rightarrow> bool" where
  "has_dbus services = list_ex is_dbus services"

definition bundle_without_dbus :: "Service list \<Rightarrow> bytes option" where
  "bundle_without_dbus services = (if has_dbus services then None else find_map bundle_name services)"

definition camera_without_portals :: "Service list \<Rightarrow> bool" where
  "camera_without_portals services \<longleftrightarrow>
     list_ex (\<lambda>s. case s of Camera _ \<Rightarrow> True | _ \<Rightarrow> False) services \<and> \<not> list_ex is_portals services"

definition nested_x11_without_display_stack :: "Service list \<Rightarrow> bool" where
  "nested_x11_without_display_stack services \<longleftrightarrow>
     list_ex (\<lambda>s. case s of X11 (X11Nested _) \<Rightarrow> True | _ \<Rightarrow> False) services \<and>
     \<not> (list_ex (\<lambda>s. case s of Wayland _ \<Rightarrow> True | _ \<Rightarrow> False) services \<and>
        list_ex (\<lambda>s. case s of Dri _ \<Rightarrow> True | _ \<Rightarrow> False) services)"

record RawProfile =
  rp_config :: InstanceConfig
  rp_includes :: "bytes list"
  rp_tty_set :: bool
  rp_userns_set :: bool
  rp_etc_set :: bool

record Lines =
  ln_services :: "u32 option list"
  ln_env :: "u32 option list"
  ln_userns :: "u32 option"
  ln_seccomp :: "u32 option"

definition lines_default :: Lines where
  "lines_default = \<lparr>ln_services = [], ln_env = [], ln_userns = None, ln_seccomp = None\<rparr>"

definition resize :: "nat \<Rightarrow> 'a \<Rightarrow> 'a list \<Rightarrow> 'a list" where
  "resize n v xs = take n xs @ replicate (n - length xs) v"

record DocState =
  ds_cfg :: InstanceConfig
  ds_lines :: Lines
  ds_includes :: "bytes list"
  ds_tty :: bool
  ds_userns :: bool
  ds_etc :: bool
  ds_seccomp :: bool

definition doc_start :: DocState where
  "doc_start = \<lparr>ds_cfg = config_default, ds_lines = lines_default, ds_includes = [], ds_tty = False, ds_userns = False,
     ds_etc = False, ds_seccomp = False\<rparr>"

definition add_env :: "(bytes \<times> bytes) list \<Rightarrow> bytes \<times> bytes \<Rightarrow> ConfigError + (bytes \<times> bytes) list" where
  "add_env env kv = (if fst kv \<in> set (map fst env) then Inl (Duplicate (fst kv)) else Inr (env @ [kv]))"

definition add_allow :: "bytes \<Rightarrow> LintAllow list \<Rightarrow> LintAllow \<Rightarrow> ConfigError + LintAllow list" where
  "add_allow name held a =
     (if la_id a \<in> set (map la_id held)
      then Inl (Duplicate (name @ str '' '' @ [quote_mark] @ la_id a @ [quote_mark])) else Inr (held @ [a]))"

text \<open>What one node does to the configuration read so far.\<close>

fun place_node :: "DocState \<Rightarrow> Node \<Rightarrow> ConfigError + DocState" where
  "place_node st (NService svc) =
     res_map (\<lambda>ss. st\<lparr>ds_cfg := (ds_cfg st)\<lparr>ic_services := ss\<rparr>\<rparr>) (grant (ic_services (ds_cfg st)) svc)"
| "place_node st (NEnv kvs) =
     res_map (\<lambda>env. st\<lparr>ds_cfg := (ds_cfg st)\<lparr>ic_env := env\<rparr>\<rparr>) (fold_res add_env (ic_env (ds_cfg st)) kvs)"
| "place_node st (NLintAllow as) =
     res_map (\<lambda>held. st\<lparr>ds_cfg := (ds_cfg st)\<lparr>ic_lint_allows := held\<rparr>\<rparr>)
       (fold_res (add_allow (str ''lint-allow'')) (ic_lint_allows (ds_cfg st)) as)"
| "place_node st (NEtc mode) =
     (if ds_etc st then Inl (Duplicate (str ''etc''))
      else Inr (st\<lparr>ds_etc := True, ds_cfg := (ds_cfg st)\<lparr>ic_etc := mode\<rparr>\<rparr>))"
| "place_node st (NTmp n) =
     (if ic_tmp (ds_cfg st) \<noteq> None then Inl (Duplicate (str ''tmp''))
      else Inr (st\<lparr>ds_cfg := (ds_cfg st)\<lparr>ic_tmp := Some n\<rparr>\<rparr>))"
| "place_node st (NTty mode) =
     (if ds_tty st then Inl (Duplicate (str ''tty''))
      else Inr (st\<lparr>ds_tty := True, ds_cfg := (ds_cfg st)\<lparr>ic_tty := mode\<rparr>\<rparr>))"
| "place_node st (NUserns mode) =
     (if ds_userns st then Inl (Duplicate (str ''userns''))
      else Inr (st\<lparr>ds_userns := True, ds_cfg := (ds_cfg st)\<lparr>ic_userns := mode\<rparr>\<rparr>))"
| "place_node st (NSeccomp seccomp) =
     (if ds_seccomp st then Inl (Duplicate (str ''seccomp''))
      else Inr (st\<lparr>ds_seccomp := True, ds_cfg := (ds_cfg st)\<lparr>ic_seccomp := seccomp\<rparr>\<rparr>))"
| "place_node st (NDesktop entry) =
     (if ic_desktop (ds_cfg st) \<noteq> None then Inl (Duplicate (str ''desktop''))
      else Inr (st\<lparr>ds_cfg := (ds_cfg st)\<lparr>ic_desktop := Some entry\<rparr>\<rparr>))"
| "place_node st (NCommand words) =
     (if ic_command (ds_cfg st) \<noteq> None then Inl (Duplicate (str ''command''))
      else Inr (st\<lparr>ds_cfg := (ds_cfg st)\<lparr>ic_command := Some words\<rparr>\<rparr>))"

definition note_line :: "bytes \<Rightarrow> bytes \<Rightarrow> nat \<Rightarrow> DocState \<Rightarrow> DocState" where
  "note_line t name offset st =
     (let lines = ds_lines st; cfg = ds_cfg st;
          grew = length (ln_services lines) < length (ic_services cfg) \<or> length (ln_env lines) < length (ic_env cfg) in
      if grew \<or> name = str ''userns'' \<or> name = str ''seccomp'' then
        let line = line_at t offset;
            lines = lines\<lparr>ln_services := resize (length (ic_services cfg)) line (ln_services lines),
                          ln_env := resize (length (ic_env cfg)) line (ln_env lines)\<rparr> in
        st\<lparr>ds_lines := (if name = str ''userns'' then lines\<lparr>ln_userns := line\<rparr>
                        else if name = str ''seccomp'' then lines\<lparr>ln_seccomp := line\<rparr> else lines)\<rparr>
      else st)"

definition place :: "bytes \<Rightarrow> DocState \<Rightarrow> Node \<times> nat \<Rightarrow> ConfigError + DocState" where
  "place t st p = res_map (note_line t (node_name (fst p)) (snd p)) (place_node st (fst p))"

definition keep_disabled ::
  "kdl_parser \<Rightarrow> (bytes \<Rightarrow> int option) \<Rightarrow> bool \<Rightarrow> bytes \<Rightarrow> DocState \<Rightarrow> ConfigError + DocState" where
  "keep_disabled kdl nr profile t st =
     res_map (\<lambda>found. st\<lparr>ds_cfg := (ds_cfg st)\<lparr>ic_disabled := ic_disabled (ds_cfg st) @ found\<rparr>\<rparr>)
       (disabled_in kdl nr t profile (counts_of (ds_cfg st)))"

definition doc_node ::
  "kdl_parser \<Rightarrow> (bytes \<Rightarrow> int option) \<Rightarrow> bytes \<Rightarrow> bool \<Rightarrow> DocState \<Rightarrow> KdlNode \<Rightarrow> ConfigError + DocState" where
  "doc_node kdl nr t profile st node =
     res_bind (case kn_leading node of Some leading \<Rightarrow> keep_disabled kdl nr profile leading st | None \<Rightarrow> Inr st) (\<lambda>st.
       if kn_name node = str ''include'' then
         res_bind (reject_types node) (\<lambda>_.
           if \<not> profile then Inl (bad node (str ''include is only valid in profiles''))
           else res_map (\<lambda>name. st\<lparr>ds_includes := ds_includes st @ [name]\<rparr>) (parse_include node))
       else res_bind (parse_node nr node profile) (fold_res (place t) st))"

definition tail_disabled ::
  "kdl_parser \<Rightarrow> (bytes \<Rightarrow> int option) \<Rightarrow> bool \<Rightarrow> KdlDocument \<Rightarrow> DocState \<Rightarrow> ConfigError + DocState" where
  "tail_disabled kdl nr profile doc st =
     (case kd_format doc of
        Some (leading, trailing) \<Rightarrow> keep_disabled kdl nr profile (if kd_nodes doc = [] then leading else trailing) st
      | None \<Rightarrow> Inr st)"

definition unmet :: "bytes \<Rightarrow> string \<Rightarrow> ConfigError" where
  "unmet node what = BadArgument node (str what)"

definition parse_doc ::
  "kdl_parser \<Rightarrow> (bytes \<Rightarrow> int option) \<Rightarrow> bytes \<Rightarrow> bool \<Rightarrow> ConfigError + RawProfile \<times> Lines" where
  "parse_doc kdl nr t profile =
     res_bind (parse_document kdl t) (\<lambda>doc.
     res_bind (fold_res (doc_node kdl nr t profile) doc_start (kd_nodes doc)) (\<lambda>st.
     res_bind (tail_disabled kdl nr profile doc st) (\<lambda>st.
       let cfg = (ds_cfg st)\<lparr>ic_disabled := sort_key (\<lambda>d. section_rank (di_node d)) (ic_disabled (ds_cfg st))\<rparr> in
       res_bind (refuse_if (\<not> profile \<and> bundle_without_dbus (ic_services cfg) \<noteq> None)
         (unmet (the (bundle_without_dbus (ic_services cfg))) ''requires dbus'')) (\<lambda>_.
       res_bind (refuse_if (\<not> profile \<and> camera_without_portals (ic_services cfg))
         (unmet (str ''camera'') ''requires portals'')) (\<lambda>_.
       res_bind (refuse_if (\<not> profile \<and> nested_x11_without_display_stack (ic_services cfg))
         (unmet (str ''x11'') ''requires wayland and dri'')) (\<lambda>_.
       Inr (\<lparr>rp_config = cfg, rp_includes = ds_includes st, rp_tty_set = ds_tty st, rp_userns_set = ds_userns st,
             rp_etc_set = ds_etc st\<rparr>, ds_lines st)))))))"

definition config_parse :: "kdl_parser \<Rightarrow> (bytes \<Rightarrow> int option) \<Rightarrow> bytes \<Rightarrow> ConfigError + InstanceConfig" where
  "config_parse kdl nr t = res_map (\<lambda>(raw, _). rp_config raw) (parse_doc kdl nr t False)"

definition node_lines :: "kdl_parser \<Rightarrow> (bytes \<Rightarrow> int option) \<Rightarrow> bytes \<Rightarrow> ConfigError + Lines" where
  "node_lines kdl nr t = res_map snd (parse_doc kdl nr t False)"

definition parse_profile :: "kdl_parser \<Rightarrow> (bytes \<Rightarrow> int option) \<Rightarrow> bytes \<Rightarrow> ConfigError + RawProfile" where
  "parse_profile kdl nr t = res_map fst (parse_doc kdl nr t True)"

section \<open>What a configuration read from a file is\<close>

lemma map_res_all:
  assumes "map_res f xs = Inr ys" and "\<And>x y. x \<in> set xs \<Longrightarrow> f x = Inr y \<Longrightarrow> P y"
  shows "list_all P ys"
  using assms
proof (induction xs arbitrary: ys)
  case (Cons x xs)
  then obtain z zs where z: "f x = Inr z" "map_res f xs = Inr zs" "ys = z # zs" by (auto simp: res_bind_eq_Inr)
  have "list_all P zs" using Cons.IH [OF z(2)] Cons.prems(2) by (meson list.set_intros(2))
  moreover have "P z" using Cons.prems(2) [OF _ z(1)] by simp
  ultimately show ?case using z(3) by simp
qed simp

lemma parse_node_ok:
  assumes "parse_node nr node profile = Inr ns"
  shows "list_all (\<lambda>p. node_ok nr (fst p)) ns"
proof -
  from assms obtain block where b: "parse_repeatable_block node = Inr block"
    by (auto simp: parse_node_def res_bind_eq_Inr)
  show ?thesis
  proof (cases block)
    case (Some lines)
    with assms b have "map_res (\<lambda>line. res_map (\<lambda>n. (n, kn_offset line)) (parse_one nr line profile)) lines = Inr ns"
      by (simp add: parse_node_def)
    then show ?thesis by (rule map_res_all) (auto dest: parse_one_ok)
  next
    case None
    note p = assms [unfolded parse_node_def b None res_bind_simps option.case]
    show ?thesis
    proof (cases "kn_name node = str ''portals'' \<and> kn_children node \<noteq> None")
      case True
      with p obtain portals camera where c: "parse_portals node = Inr (portals, camera)"
          "ns = (NService portals, kn_offset node) # (case camera of Some (c, offset) \<Rightarrow> [(NService c, offset)] | None \<Rightarrow> [])"
        by auto
      with parse_portals_ok [OF c(1)] show ?thesis by (auto split: option.split)
    next
      case False
      with p obtain a where a: "parse_one nr node profile = Inr a" "ns = [(a, kn_offset node)]" by auto
      from parse_one_ok [OF a(1)] a(2) show ?thesis by simp
    qed
  qed
qed

definition apart_grants :: "Service list \<Rightarrow> bool" where
  "apart_grants services \<longleftrightarrow> sorted_wrt (\<lambda>s t. \<not> same_grant t s) services"

definition held_ok :: "(bytes \<Rightarrow> int option) \<Rightarrow> InstanceConfig \<Rightarrow> bool" where
  "held_ok nr cfg \<longleftrightarrow>
     list_all service_ok (ic_services cfg) \<and> apart_grants (ic_services cfg) \<and> ic_shares cfg = [] \<and>
     env_ok (ic_env cfg) \<and> list_all allow_ok (ic_lint_allows cfg) \<and> distinct (map la_id (ic_lint_allows cfg)) \<and>
     (\<forall>n. ic_tmp cfg = Some n \<longrightarrow> 0 < n \<and> n \<le> TMP_SIZE_MAX) \<and> seccomp_ok nr (ic_seccomp cfg) \<and>
     (\<forall>n. ic_desktop cfg = Some n \<longrightarrow> desktop_ok n) \<and> (\<forall>words. ic_command cfg = Some words \<longrightarrow> command_ok words) \<and>
     list_all (\<lambda>d. node_ok nr (di_node d)) (ic_disabled cfg)"

definition lines_ok :: "InstanceConfig \<Rightarrow> Lines \<Rightarrow> bool" where
  "lines_ok cfg lines \<longleftrightarrow> length (ln_services lines) = length (ic_services cfg) \<and> length (ln_env lines) = length (ic_env cfg)"

definition doc_inv :: "(bytes \<Rightarrow> int option) \<Rightarrow> DocState \<Rightarrow> bool" where
  "doc_inv nr st \<longleftrightarrow> held_ok nr (ds_cfg st) \<and> lines_ok (ds_cfg st) (ds_lines st)"

lemma grant_ok:
  "grant held svc = Inr held' \<Longrightarrow> apart_grants held \<Longrightarrow> apart_grants held'"
  by (auto simp: grant_def apart_grants_def sorted_wrt_append list_ex_iff split: if_split_asm)

lemma add_env_ok:
  assumes "fold_res add_env env kvs = Inr env'" and "env_ok env" and "list_all pair_ok kvs"
  shows "env_ok env'"
proof (rule fold_res_invariant [OF assms(1)])
  fix e kv e'
  assume "env_ok e" "kv \<in> set kvs" "add_env e kv = Inr e'"
  with assms(3) show "env_ok e'" by (auto simp: add_env_def env_ok_def list_all_iff split: if_split_asm)
qed (rule assms(2))

lemma add_allow_ok:
  assumes "fold_res (add_allow name) held as = Inr held'" and "list_all allow_ok held \<and> distinct (map la_id held)"
    and "list_all allow_ok as"
  shows "list_all allow_ok held' \<and> distinct (map la_id held')"
proof (rule fold_res_invariant [OF assms(1)])
  fix h a h'
  assume "list_all allow_ok h \<and> distinct (map la_id h)" "a \<in> set as" "add_allow name h a = Inr h'"
  with assms(3) show "list_all allow_ok h' \<and> distinct (map la_id h')"
    by (auto simp: add_allow_def list_all_iff split: if_split_asm)
qed (rule assms(2))

lemma place_node_ok:
  assumes "place_node st n = Inr st'" and "held_ok nr (ds_cfg st)" and "node_ok nr n"
  shows "held_ok nr (ds_cfg st') \<and> ds_lines st' = ds_lines st"
proof (cases n)
  case (NService svc)
  with assms(1) obtain ss where g: "grant (ic_services (ds_cfg st)) svc = Inr ss"
      "st' = st\<lparr>ds_cfg := (ds_cfg st)\<lparr>ic_services := ss\<rparr>\<rparr>" by auto
  with assms(2) have "apart_grants ss" using grant_ok [OF g(1)] by (simp add: held_ok_def)
  moreover have "ss = ic_services (ds_cfg st) @ [svc]" using g(1) by (simp add: grant_def split: if_split_asm)
  ultimately show ?thesis using assms(2,3) g(2) NService by (simp add: held_ok_def)
next
  case (NEnv kvs)
  with assms(1) obtain env where e: "fold_res add_env (ic_env (ds_cfg st)) kvs = Inr env"
      "st' = st\<lparr>ds_cfg := (ds_cfg st)\<lparr>ic_env := env\<rparr>\<rparr>" by auto
  with assms(2,3) NEnv add_env_ok [OF e(1)] show ?thesis by (simp add: held_ok_def env_ok_def)
next
  case (NLintAllow as)
  with assms(1) obtain held where h: "fold_res (add_allow (str ''lint-allow'')) (ic_lint_allows (ds_cfg st)) as = Inr held"
      "st' = st\<lparr>ds_cfg := (ds_cfg st)\<lparr>ic_lint_allows := held\<rparr>\<rparr>" by auto
  with assms(2,3) NLintAllow add_allow_ok [OF h(1)] show ?thesis by (simp add: held_ok_def)
qed (use assms in \<open>auto simp: held_ok_def split: if_split_asm\<close>)

lemma length_resize [simp]: "length (resize n v xs) = n"
  by (simp add: resize_def)

lemma note_line_ok:
  assumes "length (ln_services (ds_lines st)) \<le> length (ic_services (ds_cfg st))" "length (ln_env (ds_lines st)) \<le> length (ic_env (ds_cfg st))"
  shows "ds_cfg (note_line t name offset st) = ds_cfg st \<and> lines_ok (ds_cfg st) (ds_lines (note_line t name offset st))"
  using assms by (auto simp: note_line_def Let_def lines_ok_def)

lemma place_node_grows:
  assumes "place_node st n = Inr st'"
  shows "length (ic_services (ds_cfg st)) \<le> length (ic_services (ds_cfg st')) \<and> length (ic_env (ds_cfg st)) \<le> length (ic_env (ds_cfg st'))"
proof (cases n)
  case (NEnv kvs)
  with assms obtain env where e: "fold_res add_env (ic_env (ds_cfg st)) kvs = Inr env"
      "st' = st\<lparr>ds_cfg := (ds_cfg st)\<lparr>ic_env := env\<rparr>\<rparr>" by auto
  have "length (ic_env (ds_cfg st)) \<le> length env"
    by (rule fold_res_invariant [OF e(1)]) (auto simp: add_env_def split: if_split_asm)
  with e(2) show ?thesis by simp
qed (use assms in \<open>auto simp: grant_def split: if_split_asm\<close>)

lemma place_ok:
  assumes "place t st p = Inr st'" and "doc_inv nr st" and "node_ok nr (fst p)"
  shows "doc_inv nr st'"
proof -
  from assms(1) obtain st1 where s: "place_node st (fst p) = Inr st1" "st' = note_line t (node_name (fst p)) (snd p) st1"
    by (auto simp: place_def)
  with assms(2,3) place_node_ok [OF s(1)] place_node_grows [OF s(1)] note_line_ok [of st1 t "node_name (fst p)" "snd p"]
  show ?thesis by (auto simp: doc_inv_def lines_ok_def)
qed

lemma list_all_concat_iff: "list_all P (concat xss) \<longleftrightarrow> list_all (list_all P) xss"
  by (induction xss) auto

lemma disabled_in_ok:
  assumes "disabled_in kdl nr t profile at = Inr found"
  shows "list_all (\<lambda>d. node_ok nr (di_node d)) found"
proof (cases "marks_of t = []")
  case False
  note found = assms [unfolded disabled_in_def Let_def if_not_P [OF False]]
  from found obtain doc where d: "parse_document kdl (cut_marks t 0 (marks_of t)) = Inr doc" by (auto simp: res_bind_eq_Inr)
  from found d obtain nss where n: "map_res (\<lambda>node. parse_node nr node profile) (kd_nodes doc) = Inr nss"
    by (cases "map_res (\<lambda>node. parse_node nr node profile) (kd_nodes doc)") auto
  from found d n have f: "found = map (\<lambda>(n, _). \<lparr>di_node = n, di_before = before at n\<rparr>) (concat nss)" by simp
  have "list_all (list_all (\<lambda>p. node_ok nr (fst p))) nss" by (rule map_res_all [OF n]) (rule parse_node_ok)
  with f show ?thesis by (fastforce simp: list_all_iff)
qed (use assms in \<open>simp add: disabled_in_def\<close>)

lemma keep_disabled_ok:
  assumes "keep_disabled kdl nr profile t st = Inr st'" and "doc_inv nr st"
  shows "doc_inv nr st'"
  using assms disabled_in_ok by (auto simp: keep_disabled_def doc_inv_def held_ok_def lines_ok_def)

lemma doc_node_ok:
  assumes "doc_node kdl nr t profile st node = Inr st'" and "doc_inv nr st"
  shows "doc_inv nr st'"
proof -
  from assms(1) obtain st1 where
      st0: "(case kn_leading node of Some leading \<Rightarrow> keep_disabled kdl nr profile leading st | None \<Rightarrow> Inr st) = Inr st1" and st1:
      "(if kn_name node = str ''include'' then
         res_bind (reject_types node) (\<lambda>_.
           if \<not> profile then Inl (bad node (str ''include is only valid in profiles''))
           else res_map (\<lambda>name. st1\<lparr>ds_includes := ds_includes st1 @ [name]\<rparr>) (parse_include node))
       else res_bind (parse_node nr node profile) (fold_res (place t) st1)) = Inr st'"
    unfolding doc_node_def res_bind_eq_Inr by blast
  have inv: "doc_inv nr st1"
    using st0 assms(2) keep_disabled_ok [of kdl nr profile _ st st1] by (auto split: option.split_asm)
  show ?thesis
  proof (cases "kn_name node = str ''include''")
    case True
    with st1 inv show ?thesis by (auto simp: res_bind_eq_Inr doc_inv_def split: if_split_asm)
  next
    case False
    with st1 obtain ns where n: "parse_node nr node profile = Inr ns" "fold_res (place t) st1 ns = Inr st'"
      by (auto simp: res_bind_eq_Inr)
    show ?thesis
    proof (rule fold_res_invariant [where P = "doc_inv nr", OF n(2) inv])
      fix s p s' assume "doc_inv nr s" "p \<in> set ns" "place t s p = Inr s'"
      with parse_node_ok [OF n(1)] show "doc_inv nr s'" by (auto simp: list_all_iff intro: place_ok)
    qed
  qed
qed

definition needs_met :: "Service list \<Rightarrow> bool" where
  "needs_met services \<longleftrightarrow>
     bundle_without_dbus services = None \<and> \<not> camera_without_portals services \<and> \<not> nested_x11_without_display_stack services"

definition config_ok :: "(bytes \<Rightarrow> int option) \<Rightarrow> bool \<Rightarrow> InstanceConfig \<Rightarrow> bool" where
  "config_ok nr profile cfg \<longleftrightarrow>
     held_ok nr cfg \<and> sorted (map (\<lambda>d. section_rank (di_node d)) (ic_disabled cfg)) \<and> (profile \<or> needs_met (ic_services cfg))"

lemma held_ok_sorted:
  "held_ok nr cfg \<Longrightarrow> held_ok nr (cfg\<lparr>ic_disabled := sort_key f (ic_disabled cfg)\<rparr>)"
  by (simp add: held_ok_def list_all_iff)

lemma doc_start_inv: "doc_inv nr doc_start"
  by (simp add: doc_inv_def doc_start_def config_default_def lines_default_def held_ok_def lines_ok_def apart_grants_def env_ok_def
      seccomp_ok_def seccomp_default_def)

lemma parse_doc_ok:
  assumes "parse_doc kdl nr t profile = Inr (raw, lines)"
  shows "config_ok nr profile (rp_config raw) \<and> lines_ok (rp_config raw) lines"
proof -
  note p = assms [unfolded parse_doc_def]
  from p obtain doc where d: "parse_document kdl t = Inr doc" by (cases "parse_document kdl t") auto
  from p d obtain st0 where s0: "fold_res (doc_node kdl nr t profile) doc_start (kd_nodes doc) = Inr st0"
    by (cases "fold_res (doc_node kdl nr t profile) doc_start (kd_nodes doc)") auto
  from p d s0 obtain st where s: "tail_disabled kdl nr profile doc st0 = Inr st"
    by (cases "tail_disabled kdl nr profile doc st0") auto
  from p d s0 s have c: "rp_config raw = (ds_cfg st)\<lparr>ic_disabled := sort_key (\<lambda>d. section_rank (di_node d)) (ic_disabled (ds_cfg st))\<rparr>"
      "lines = ds_lines st" "profile \<or> needs_met (ic_services (ds_cfg st))"
    by (auto simp: Let_def res_bind_eq_Inr needs_met_def)
  have "doc_inv nr st0"
    by (rule fold_res_invariant [where P = "doc_inv nr", OF s0 doc_start_inv]) (rule doc_node_ok)
  with s keep_disabled_ok [of kdl nr profile _ st0 st] have "doc_inv nr st"
    by (auto simp: tail_disabled_def split: option.split_asm prod.split_asm)
  with c held_ok_sorted show ?thesis by (auto simp: config_ok_def doc_inv_def lines_ok_def)
qed

section \<open>The properties\<close>

text \<open>
  Whatever document the KDL parser makes of a text, a configuration the reader returns is
  well-formed: share paths are plain and absolute or relative as their node asks, names, rules, addresses,
  ports, sizes, variables and accepted findings are ones the sandbox can be built from, no two grants are of the
  same thing, the network grant is consistent with its mode and keeps off the egress proxy's own port, every
  node turned off would be accepted turned on, and outside a profile what a grant requires is granted too.
  Each grant and each variable has one line number.
\<close>

theorem parse_doc_well_formed:
  assumes "parse_doc kdl nr t profile = Inr (raw, lines)"
  shows "config_ok nr profile (rp_config raw) \<and> lines_ok (rp_config raw) lines"
  using assms by (rule parse_doc_ok)

definition demo_node :: "string \<Rightarrow> nat \<Rightarrow> KdlEntry list \<Rightarrow> KdlNode list option \<Rightarrow> KdlNode" where
  "demo_node name offset es kids = KdlNode (str name) offset False es kids None"

definition demo_share :: KdlNode where
  "demo_share = demo_node ''home-share'' 0 []
     (Some [demo_node ''Work/now'' 13 [prop_entry (str ''mode'') (KString (str ''rw''))] None])"

definition demo_network :: KdlNode where
  "demo_network = demo_node ''network'' 32 [] (Some
     [demo_node ''outbound'' 42 [arg_entry (KString (str ''deny''))] None,
      demo_node ''allow-host'' 58 [arg_entry (KString (str ''*.cdn.example'')), prop_entry (str ''port'') (KInteger 8443)] None])"

definition demo_command :: KdlNode where
  "demo_command = demo_node ''command'' 98 [arg_entry (KString (str ''app''))] None"

definition demo_kdl :: kdl_parser where
  "demo_kdl t = Inr \<lparr>kd_nodes = [demo_share, demo_network, demo_command], kd_format = None\<rparr>"

definition demo_net :: NetworkConfig where
  "demo_net = network_default\<lparr>nc_outbound := OutDeny,
     nc_allow_hosts := [\<lparr>ah_pattern = \<lparr>labels = [str ''cdn'', str ''example''], wildcard = True\<rparr>, ah_port = 8443\<rparr>]\<rparr>"

definition demo_services :: "Service list" where
  "demo_services = [HomeShare (str ''Work/now'') ReadWrite False, Network demo_net]"

definition demo_text :: bytes where
  "demo_text = str ''home-share { Work/now mode=rw }'' @ [10] @
     str ''network { outbound deny; allow-host *.cdn.example port=8443 }'' @ [10] @ str ''command app''"

lemma demo_bounds: "check_bounds demo_text = Inr ()"
  by (simp add: check_bounds_def demo_text_def MAX_BYTES_def bounds_loop.simps str_Cons slash_def MAX_NESTING_def get_at_def)

lemma demo_share_reads:
  "parse_node nr demo_share False = Inr [(NService (HomeShare (str ''Work/now'') ReadWrite False), 13)]"
  by code_simp

lemma demo_network_reads: "parse_node nr demo_network False = Inr [(NService (Network demo_net), 32)]"
  by code_simp

lemma demo_command_reads: "parse_node nr demo_command False = Inr [(NCommand [str ''app''], 98)]"
  by code_simp

lemma demo_plain:
  "kn_leading demo_share = None" "kn_leading demo_network = None" "kn_leading demo_command = None"
  "kn_name demo_share \<noteq> str ''include''" "kn_name demo_network \<noteq> str ''include''" "kn_name demo_command \<noteq> str ''include''"
  by (simp_all add: demo_share_def demo_network_def demo_command_def demo_node_def str_Cons)

lemma demo_needs:
  "bundle_without_dbus demo_services = None" "\<not> camera_without_portals demo_services" "\<not> nested_x11_without_display_stack demo_services"
  by (simp_all add: demo_services_def bundle_without_dbus_def has_dbus_def camera_without_portals_def nested_x11_without_display_stack_def)

lemma note_line_cfg [simp]:
  "ds_cfg (note_line t name offset st) = ds_cfg st" "ds_etc (note_line t name offset st) = ds_etc st"
  "ds_tty (note_line t name offset st) = ds_tty st" "ds_userns (note_line t name offset st) = ds_userns st"
  "ds_seccomp (note_line t name offset st) = ds_seccomp st"
  by (simp_all add: note_line_def Let_def)

lemma demo_folds:
  "\<exists>st. fold_res (doc_node demo_kdl nr demo_text False) doc_start [demo_share, demo_network, demo_command] = Inr st \<and>
     ic_services (ds_cfg st) = demo_services \<and> ic_command (ds_cfg st) = Some [str ''app'']"
  by (simp add: doc_node_def demo_plain demo_share_reads demo_network_reads demo_command_reads place_def res_map_def
      grant_def same_grant_def doc_start_def config_default_def demo_services_def)

lemma demo_parses:
  "\<exists>raw lines. parse_doc demo_kdl nr demo_text False = Inr (raw, lines) \<and> ic_services (rp_config raw) = demo_services \<and>
     ic_command (rp_config raw) = Some [str ''app'']"
proof -
  obtain st where st: "fold_res (doc_node demo_kdl nr demo_text False) doc_start [demo_share, demo_network, demo_command] = Inr st"
      "ic_services (ds_cfg st) = demo_services" "ic_command (ds_cfg st) = Some [str ''app'']"
    using demo_folds by blast
  moreover have "demo_kdl demo_text = Inr \<lparr>kd_nodes = [demo_share, demo_network, demo_command], kd_format = None\<rparr>"
    by (simp add: demo_kdl_def)
  ultimately show ?thesis
    by (simp add: parse_doc_def parse_document_def demo_bounds tail_disabled_def refuse_if_def demo_needs del: fold_res.simps)
qed

theorem parse_doc_well_formed_witness:
  "relative_ok (str ''Work/now'') \<and> values_ok demo_net \<and> modes_ok demo_net"
proof -
  obtain raw lines where "parse_doc demo_kdl (\<lambda>_. None) demo_text False = Inr (raw, lines)" "ic_services (rp_config raw) = demo_services"
    using demo_parses by blast
  with parse_doc_well_formed [of demo_kdl "\<lambda>_. None" demo_text False raw lines] show ?thesis
    by (simp add: config_ok_def held_ok_def demo_services_def)
qed

text \<open>
  The \<^verbatim>\<open>allow-host\<close> lines of a configuration reach the egress proxy unchanged: for a network grant read from a
  file, the argv the launcher builds is one the proxy's own command line parser reads, and the allowlist it
  makes of it holds exactly the patterns and ports of the file, with the resolvers the sandbox is given.
\<close>

theorem allow_hosts_reach_proxy:
  assumes "config_parse kdl nr t = Inr cfg" and "Network net \<in> set (ic_services cfg)" and "nc_allow_hosts net \<noteq> []"
    and "ready < 2 ^ 31" and "log < 2 ^ 31" and "ready \<noteq> log"
  shows "\<exists>args. parse_from (net_proxy_argv net (dec_digits ready) (dec_digits log) tunnels) = Some args \<and>
    allowlist_parse (a_allow args) = Inr (map (\<lambda>a. (ah_pattern a, ah_port a)) (nc_allow_hosts net)) \<and>
    a_dns args = (if nc_dns net = [] then [DNS_FORWARD] else nc_dns net) \<and> a_port args = PROXY_PORT \<and>
    PROXY_PORT \<notin> set (map ah_port (nc_allow_hosts net)) \<and> PROXY_PORT \<notin> set (map fw_port (nc_forwards net)) \<and>
    a_ready_fd args = int ready \<and> a_log_fd args = Some (int log) \<and> a_log_tunnels args = tunnels"
proof -
  from assms(1) obtain raw lines where "parse_doc kdl nr t False = Inr (raw, lines)" "cfg = rp_config raw"
    by (auto simp: config_parse_def)
  with parse_doc_ok [of kdl nr t False raw lines] assms(2) have net: "values_ok net" "modes_ok net"
    by (auto simp: config_ok_def held_ok_def list_all_iff)
  with assms(3) have r: "resolvers net = Some (if nc_dns net = [] then [DNS_FORWARD] else nc_dns net)"
    by (auto simp: resolvers_def modes_ok_def split: NetMode.splits)
  have "list_all address_ok (if nc_dns net = [] then [DNS_FORWARD] else nc_dns net)"
    using net(1) by (auto simp: values_ok_def DNS_FORWARD_def address_ok_def)
  moreover have "list_all host_ok_entry (nc_allow_hosts net)" using net(1) by (simp add: values_ok_def)
  moreover have "PROXY_PORT \<notin> set (map ah_port (nc_allow_hosts net)) \<and> PROXY_PORT \<notin> set (map fw_port (nc_forwards net))"
    using net(2) assms(3) by (force simp: modes_ok_def list_ex_iff)
  ultimately show ?thesis using net_proxy_reads_grant [OF assms(3) _ r _ assms(4-6), of tunnels] by blast
qed

theorem allow_hosts_reach_proxy_witness:
  "\<exists>args. parse_from (net_proxy_argv demo_net (dec_digits 11) (dec_digits 12) True) = Some args \<and>
    allowlist_parse (a_allow args) = Inr [(\<lparr>labels = [str ''cdn'', str ''example''], wildcard = True\<rparr>, 8443)] \<and> a_dns args = [DNS_FORWARD]"
proof -
  obtain raw lines where "parse_doc demo_kdl (\<lambda>_. None) demo_text False = Inr (raw, lines)" "ic_services (rp_config raw) = demo_services"
    using demo_parses by blast
  then have "config_parse demo_kdl (\<lambda>_. None) demo_text = Inr (rp_config raw)" "Network demo_net \<in> set (ic_services (rp_config raw))"
    by (simp_all add: config_parse_def res_map_def demo_services_def)
  from allow_hosts_reach_proxy [OF this, of 11 12 True] show ?thesis
    by (auto simp: demo_net_def network_default_def)
qed

end
