(* ===== verification/Core_Run.thy ===== *)
theory Core_Run
  imports Core_Launch Core_Parse
begin

text \<open>
  From a configuration's text to the sandbox: what the profile reader guarantees is what the launcher's hand-over
  to the supervisor needs.  Shown: an argv built for a configuration read from a file starts the supervisor with
  words it parses as the grants of that file.
\<close>

declare str_Cons [simp del]

text \<open>
  C18.  The launcher and the supervisor agree on their command line.  For a configuration read from a file,
  whatever shares the run adds to it, what an argv puts behind bubblewrap's options starts the supervisor inside
  the sandbox with words it parses as exactly the control socket the allocator numbered in its last answer, the terminal
  when there is one to claim, the argv and the window manager of the file's nested display, and the command the caller or else
  the file names, whatever words these hold.
\<close>

theorem supervisor_reads_config:
  assumes "parse_doc kdl nr t profile = Inr (raw, lines)" and "in_config inst = (rp_config raw)\<lparr>ic_shares := shares\<rparr>"
    and "build_argv_on lib env inst command alloc tty h s = Some (Inr v, s')"
    and "\<And>s1 w. alloc AllocInitSocket s1 = (Inr w, s') \<Longrightarrow> \<exists>fd < 2 ^ 31. w = dec_digits fd"
  shows "\<exists>s1 fd cmd words. alloc AllocInitSocket s1 = (Inr (dec_digits fd), s') \<and> resolve_command inst command = Inr cmd \<and>
    argv_command v = [str ''--'', INIT_INSIDE] @ words \<and>
    init_parse words =
      (let server = find_map nested_server (ic_services (rp_config raw)) in
       Some \<lparr>ia_socket_fd = int fd, ia_ctty = tty, ia_x11 = map_option fst server, ia_x11_socket = X11_SOCKET,
             ia_wm = Option.bind server snd, ia_command = cmd\<rparr>)"
proof -
  have ok: "held_ok nr (rp_config raw)" using parse_doc_ok [OF assms(1)] by (simp add: config_ok_def)
  have services: "ic_services (in_config inst) = ic_services (rp_config raw)" by (simp add: assms(2))
  have "parse_geometry (nx_geometry n) = Some (nx_geometry n)" if "X11 (X11Nested n) \<in> set (ic_services (in_config inst))" for n
    using ok that services by (force simp: held_ok_def list_all_iff nested_ok_def)
  moreover have "ic_command (in_config inst) \<noteq> Some []" using ok assms(2) by (auto simp: held_ok_def command_ok_def)
  ultimately show ?thesis using supervisor_reads_argv [OF assms(3,4)] by (simp add: services)
qed

definition run_node :: "string \<Rightarrow> bytes \<Rightarrow> KdlNode" where
  "run_node name arg = KdlNode (str name) 0 False [arg_entry (KString arg)] None None"

definition run_x11 :: KdlNode where
  "run_x11 = KdlNode (str ''x11'') 0 False [] None None"

definition run_seccomp :: KdlNode where
  "run_seccomp = KdlNode (str ''seccomp'') 0 False [] (Some [KdlNode (str ''disable'') 0 False [] None None]) None"

definition run_nodes :: "KdlNode list" where
  "run_nodes = [run_node ''network'' (str ''host''), run_x11, run_node ''etc'' (str ''host''),
     run_node ''userns'' (str ''disable''), run_seccomp, run_node ''command'' (str ''app'')]"

definition run_kdl :: kdl_parser where
  "run_kdl t = Inr \<lparr>kd_nodes = run_nodes, kd_format = None\<rparr>"

lemma run_reads_1: "parse_node nr (run_node ''network'' (str ''host'')) True = Inr [(NService (Network (network_default\<lparr>nc_mode := NetHost\<rparr>)), 0)]"
  by code_simp

lemma run_reads_2: "parse_node nr run_x11 True = Inr [(NService (X11 x11_default), 0)]"
  by code_simp

lemma run_reads_3: "parse_node nr (run_node ''etc'' (str ''host'')) True = Inr [(NEtc EtcHost, 0)]"
  by code_simp

lemma run_reads_4: "parse_node nr (run_node ''userns'' (str ''disable'')) True = Inr [(NUserns UsernsDisable, 0)]"
  by code_simp

lemma run_reads_5: "parse_node nr run_seccomp True = Inr [(NSeccomp \<lparr>sc_allow = [], sc_deny = [], sc_disable = True\<rparr>, 0)]"
  by code_simp

lemma run_reads_6: "parse_node nr (run_node ''command'' (str ''app'')) True = Inr [(NCommand [str ''app''], 0)]"
  by code_simp

lemmas run_reads = run_reads_1 run_reads_2 run_reads_3 run_reads_4 run_reads_5 run_reads_6

lemma run_plain: "kn_leading (run_node name arg) = None" "kn_leading run_x11 = None" "kn_leading run_seccomp = None"
    "kn_name run_x11 \<noteq> str ''include''" "kn_name run_seccomp \<noteq> str ''include''" "kn_name (run_node name arg) = str name"
    "str ''network'' \<noteq> str ''include''" "str ''etc'' \<noteq> str ''include''" "str ''userns'' \<noteq> str ''include''"
    "str ''command'' \<noteq> str ''include''"
  by (simp_all add: run_node_def run_x11_def run_seccomp_def str_Cons)

lemma run_folds:
  "\<exists>st. fold_res (doc_node run_kdl nr [] True) doc_start run_nodes = Inr st \<and> ds_cfg st = in_config launch_instance"
  by (simp add: run_nodes_def doc_node_def run_plain run_reads place_def res_map_def
      grant_def same_grant_def doc_start_def config_default_def launch_instance_def)

lemma run_parses:
  "\<exists>raw lines. parse_doc run_kdl nr [] True = Inr (raw, lines) \<and> rp_config raw = in_config launch_instance"
proof -
  obtain st where st: "fold_res (doc_node run_kdl nr [] True) doc_start run_nodes = Inr st" "ds_cfg st = in_config launch_instance"
    using run_folds by blast
  moreover have "check_bounds [] = Inr ()" by (simp add: check_bounds_def bounds_loop.simps)
  moreover have "run_kdl [] = Inr \<lparr>kd_nodes = run_nodes, kd_format = None\<rparr>" by (simp add: run_kdl_def)
  moreover have "(in_config launch_instance)\<lparr>ic_disabled := sort_key f []\<rparr> = in_config launch_instance" for f
    by (simp add: launch_instance_def)
  moreover have "ic_disabled (in_config launch_instance) = []" by (simp add: launch_instance_def)
  ultimately show ?thesis
    by (simp add: parse_doc_def parse_document_def tail_disabled_def refuse_if_def Let_def del: fold_res.simps)
qed

theorem supervisor_reads_config_witness:
  "\<exists>v s1 s' fd words.
     build_argv_on launch_lib launch_env launch_instance None dry_run True launch_host (dry_new (str ''/run/d'')) = Some (Inr v, s') \<and>
     dry_run AllocInitSocket s1 = (Inr (dec_digits fd), s') \<and> argv_command v = [str ''--'', INIT_INSIDE] @ words \<and>
     init_parse words = Some \<lparr>ia_socket_fd = int fd, ia_ctty = True, ia_x11 = Some (xwayland_argv nested_default),
       ia_x11_socket = X11_SOCKET, ia_wm = None, ia_command = [str ''app'']\<rparr>"
proof -
  obtain v s' where b: "build_argv_on launch_lib launch_env launch_instance None dry_run True launch_host (dry_new (str ''/run/d'')) =
      Some (Inr v, s')" "da_next s' < 9" using launch_builds by blast
  obtain raw lines where p: "parse_doc run_kdl (\<lambda>_. None) [] True = Inr (raw, lines)" "rp_config raw = in_config launch_instance"
    using run_parses by blast
  have "in_config launch_instance = (rp_config raw)\<lparr>ic_shares := []\<rparr>" by (simp add: p(2) launch_instance_def)
  moreover have "\<exists>fd < 2 ^ 31. w = dec_digits fd" if "dry_run AllocInitSocket s1 = (Inr w, s')" for s1 w
    using dry_run_number [OF that b(2)] .
  ultimately have "\<exists>s1 fd cmd words. dry_run AllocInitSocket s1 = (Inr (dec_digits fd), s') \<and>
    resolve_command launch_instance None = Inr cmd \<and> argv_command v = [str ''--'', INIT_INSIDE] @ words \<and>
    init_parse words =
      (let server = find_map nested_server (ic_services (rp_config raw)) in
       Some \<lparr>ia_socket_fd = int fd, ia_ctty = True, ia_x11 = map_option fst server, ia_x11_socket = X11_SOCKET,
             ia_wm = Option.bind server snd, ia_command = cmd\<rparr>)"
    by (rule supervisor_reads_config [OF p(1) _ b(1)])
  then obtain s1 fd c words where
    a: "dry_run AllocInitSocket s1 = (Inr (dec_digits fd), s')" and w: "resolve_command launch_instance None = Inr c" "argv_command v = [str ''--'', INIT_INSIDE] @ words"
      "init_parse words =
        (let server = find_map nested_server (ic_services (rp_config raw)) in
         Some \<lparr>ia_socket_fd = int fd, ia_ctty = True, ia_x11 = map_option fst server, ia_x11_socket = X11_SOCKET,
               ia_wm = Option.bind server snd, ia_command = c\<rparr>)"
    by (elim exE conjE)
  have server: "find_map nested_server (ic_services (rp_config raw)) = Some (xwayland_argv nested_default, None)"
    by (simp add: p(2) launch_instance_def x11_default_def nested_default_def)
  have cmd: "resolve_command launch_instance None = Inr [str ''app'']"
    by (simp add: launch_instance_def resolve_command_def ok_or_def)
  from w(1) cmd have c: "c = [str ''app'']" by (simp only: sum.inject)
  have "init_parse words = Some \<lparr>ia_socket_fd = int fd, ia_ctty = True, ia_x11 = Some (xwayland_argv nested_default),
      ia_x11_socket = X11_SOCKET, ia_wm = None, ia_command = [str ''app'']\<rparr>"
    unfolding w(3) Let_def server c by simp
  with a b(1) w(2) show ?thesis by (intro exI conjI)
qed

end
