(* ===== verification/Spec2Isabelle.thy ===== *)
theory Spec2Isabelle
  imports Init_Supervisor Net_Serve Wl_Main Dbus_Session Core_Run
begin

text \<open>
  \<^bold>\<open>bubbler\<close> starts applications inside a bubblewrap sandbox and opens the host to them one grant at a
  time.  This library models its core: the launcher's side (\<^verbatim>\<open>crates/bubbler-core\<close>), which turns a profile
  into the argument vectors of the sandbox and of its sidecars, and the three programs that stand between a
  running sandbox and the host: the supervisor inside it (\<^verbatim>\<open>bubbler-init\<close>), the proxy that is its only way to
  named hosts (\<^verbatim>\<open>bubbler-net-proxy\<close>) and the proxy in front of the compositor (\<^verbatim>\<open>bubbler-wl-proxy\<close>).

  \<^bold>\<open>How the parts interact.\<close>  The launcher reads a profile (\<open>parse_doc\<close>) into an \<open>InstanceConfig\<close>, probes the host, applies each
  grant to an argument builder, lets the sweep refuse planted links and hands the options to bubblewrap.
  Behind the options stands the supervisor's command line; it starts the application, serves further commands
  over the exec channel, starts a nested X server on demand and ends the run.  Where the profile grants named
  hosts, the launcher installs an nftables ruleset that only the egress proxy may pass and starts that proxy
  with the grant on its command line.  Where it grants Wayland, the Wayland proxy accepts the application and
  forwards whole messages under a policy.  Where it grants D-Bus, the launcher plans the rules of the filtering
  bus proxy and asks the bus, with a client of its own, where the accessibility bus is.

  \<^bold>\<open>Shared theories.\<close>
  \<^item> \<open>Bub_Prelude\<close>: words, byte strings, the fragments of Rust's standard library the sources call, results as
    sums (\<open>Inl\<close> the error), and the collections \<open>rust_simps\<close> and \<open>ascii_defs\<close>.  \<open>Bub_Utf8\<close>: UTF-8 validation and
    the lossy decoding.  \<open>Core_Path\<close>: Unix paths as \<^verbatim>\<open>std::path\<close> reads them.
  \<^item> \<open>Bub_Codec\<close>: the locale \<open>exact_codec\<close>, a decoder that accepts exactly the encodings; interpreted for the exec
    channel's request and status, the Wayland header and D-Bus signatures.  \<open>Bub_Log\<close>: the locale \<open>counted_log\<close>,
    a log that counts what it suppresses; interpreted for the egress log and the Wayland audit log.  Further
    locales: \<open>name_filter\<close> (\<open>Net_Allow\<close>), \<open>turn_phases\<close> (\<open>Init_Supervisor\<close>, interpreted for four invariants of the
    loop) and \<open>answering_allocator\<close> (\<open>Core_Launch\<close>, interpreted for the dry run).

  \<^bold>\<open>bubbler-init.\<close>
  \<^item> \<open>Init_Proto\<close> (\<^verbatim>\<open>proto.rs\<close>): the exec channel's codec; accepted buffers are exactly the encodings.
  \<^item> \<open>Init_Wire\<close> (\<^verbatim>\<open>wire.rs\<close>): reading and sending a request, \<open>Incoming::read_step\<close>; any chunking gives the same
    request, and a deadline is kept.
  \<^item> \<open>Init_Fds\<close> (\<^verbatim>\<open>fds.rs\<close>): the descriptor sweeps.  \<open>Init_Spawn\<close> (\<^verbatim>\<open>spawn.rs\<close>): the option grammar of the
    \<^verbatim>\<open>flatpak-spawn\<close> shim.
  \<^item> \<open>Init_Supervisor\<close> (\<^verbatim>\<open>main.rs\<close>): arguments, start-up and one turn of the loop, iterated by \<open>sup_run\<close>; a stop is
    final, the grace period stands, the exec channel stays bounded.

  \<^bold>\<open>bubbler-net-proxy.\<close>
  \<^item> \<open>Net_Allow\<close> (\<^verbatim>\<open>allow.rs\<close>), \<open>Net_Connect\<close> (\<^verbatim>\<open>connect.rs\<close>), \<open>Net_Dns\<close> (\<^verbatim>\<open>dns.rs\<close>), \<open>Net_Relay\<close> (\<^verbatim>\<open>relay.rs\<close>): the
    allowlist and what it means, the one request understood, the DNS client and what an accepted answer
    vouches for, the relay that loses nothing.
  \<^item> \<open>Net_Args\<close>, \<open>Net_Log\<close>, \<open>Net_Main\<close>, \<open>Net_Serve\<close> (\<^verbatim>\<open>main.rs\<close>): the command line, the log, one connection and
    the accept loop with its threads as a step relation; only allowed, resolved, outward addresses are dialled.

  \<^bold>\<open>bubbler-wl-proxy.\<close>
  \<^item> \<open>Wl_Wire\<close> (\<^verbatim>\<open>wire.rs\<close>), \<open>Wl_Tables\<close> (\<^verbatim>\<open>tables.rs\<close>, \<^verbatim>\<open>privileged.rs\<close>), \<open>Wl_Objects\<close> (\<^verbatim>\<open>objects.rs\<close>), \<open>Wl_Audit\<close>
    (\<^verbatim>\<open>audit.rs\<close>), \<open>Wl_Policy\<close> (\<^verbatim>\<open>policy.rs\<close>), \<open>Wl_Relay\<close> (\<^verbatim>\<open>relay.rs\<close>), \<open>Wl_Main\<close> (\<^verbatim>\<open>main.rs\<close>): the codec, the
    interface tables (the generated one is a parameter), the object map and its bounds, the audit log, the
    verdict on each message, the relay with its queues and caps, and the process around it.

  \<^bold>\<open>bubbler-core.\<close>
  \<^item> \<open>Core_Seccomp\<close> (\<^verbatim>\<open>seccomp.rs\<close>): the rule set, the filter built from it and the hand-written block in front of
    it, run on a model of the kernel's machine.  libseccomp is a parameter.
  \<^item> \<open>Dbus_Sig\<close>, \<open>Dbus_Wire\<close>, \<open>Dbus_Codec\<close>, \<open>Dbus_Message\<close>, \<open>Dbus_Session\<close> (\<^verbatim>\<open>dbus_wire.rs\<close>): signatures, values,
    the round trip, messages and the client; a reply is taken only from whom the bus vouches for.
  \<^item> \<open>Core_Host\<close> (\<^verbatim>\<open>env.rs\<close>, \<^verbatim>\<open>host.rs\<close>, \<^verbatim>\<open>init_bin.rs\<close>): the environment and the host as records of answers.
  \<^item> \<open>Core_Bwrap\<close> (\<^verbatim>\<open>bwrap.rs\<close>): the argument builder.  \<open>args_ok\<close> is the invariant of its phases and \<open>keeps\<close> the
    contract of a call that only adds binds, masks and variables.
  \<^item> \<open>Core_Addr\<close>, \<open>Core_Network\<close> (\<^verbatim>\<open>network.rs\<close>): the network grant, the nftables ruleset with its meaning on
    packets, and the egress proxy's argv, which that proxy's own parser reads back.
  \<^item> \<open>Core_Config\<close> (\<^verbatim>\<open>config.rs\<close>, \<^verbatim>\<open>tty.rs\<close>): the types of a parsed profile.  The readers of \<^verbatim>\<open>config.rs\<close> follow in
    four theories.  \<open>Core_Kdl\<close>: the text itself, that is the bounds checked before it is parsed, lines, strings,
    comments, and the scan for the lines turned off with \<^verbatim>\<open>/-\<close>; the check accepts exactly the texts within its
    bounds and the scan ends on every text.  \<open>Core_Nodes\<close>: one reader per node (\<open>parse_one\<close>), and the table of
    checks of \<^verbatim>\<open>lint.rs\<close> a \<^verbatim>\<open>lint-allow\<close> is looked up in.  \<open>Core_Valid\<close>: what each reader guarantees of a node it
    accepts.  \<open>Core_Parse\<close>: blocks, duplicate grants, lines turned off, line numbers and the whole document
    (\<open>parse_doc\<close>); a configuration it returns satisfies \<open>config_ok\<close>.  The KDL parser and libseccomp's table of
    syscall names are parameters (\<open>kdl\<close>, \<open>nr\<close>), and no theorem assumes anything of either.
  \<^item> \<open>Core_Shares\<close> (\<^verbatim>\<open>service.rs\<close>): the shares, what keeps them out of reserved places and apart from each other,
    and the sweep before a start.
  \<^item> \<open>Core_Bus\<close> (\<^verbatim>\<open>dbus.rs\<close>, names in \<^verbatim>\<open>instance.rs\<close>): the bus rules, identities and host bus addresses.
    \<open>Core_Display\<close> (\<^verbatim>\<open>wayland.rs\<close>, \<^verbatim>\<open>pipewire.rs\<close>, \<^verbatim>\<open>json.rs\<close>): plans and argvs of the display and sound sidecars.
  \<^item> \<open>Core_Grants\<close> (\<^verbatim>\<open>service.rs\<close>, \<^verbatim>\<open>service/dri.rs\<close>): every grant; \<open>grants_step\<close> says what a list of grants changes
    besides adding binds: the network namespace and the nested server, nothing else.
  \<^item> \<open>Core_Launch\<close> (\<^verbatim>\<open>launcher.rs\<close>): the argument vectors.  Building never panics and the sandbox is closed but for its
    grants.  \<open>Core_Run\<close>: from the text of a configuration to the supervisor's command line, which its own parser
    reads as the launcher meant it.

  \<^bold>\<open>Modelling decisions.\<close>  State is passed explicitly in records; a kernel, a clock or a peer is an argument: a
  list of the answers it gives, consumed in order, or a function of the question.  A loop that only ends when
  the kernel says so recurses over that list, so no fuel is chosen anywhere; a list that runs out is \<open>None\<close>
  or the state so far, and the theorems that promise a result say so of the definitions as they are.  The one
  loop whose end has to be argued over a text, the scan for lines turned off, is a \<open>partial_function\<close> that
  \<open>slashdash_marks_found\<close> shows to return.  Integers
  are words where the code can wrap or truncate, naturals where it cannot.  A panic is \<open>None\<close>.  Byte strings
  stand for \<^verbatim>\<open>OsStr\<close>, paths and text alike.  The native byte order is little-endian.

  \<^bold>\<open>Not modelled.\<close>  The KDL parser is another package; the file \<open>parse_doc\<close> is given (\<^verbatim>\<open>read_bounded\<close>) and the
  thread the parser runs on are I/O.  Profile resolution (\<^verbatim>\<open>profile.rs\<close>), which merges the layers an \<^verbatim>\<open>include\<close>
  names, and the reports over a profile (\<^verbatim>\<open>lint.rs\<close>, \<^verbatim>\<open>explain.rs\<close>, \<^verbatim>\<open>kdl_out.rs\<close>, \<^verbatim>\<open>catalogue.rs\<close>) are left out.  Of \<^verbatim>\<open>launcher.rs\<close> the
  part that starts, watches and reaps processes is left out, and with it \<^verbatim>\<open>run_log.rs\<close>, \<^verbatim>\<open>cgroup.rs\<close>, \<^verbatim>\<open>forward.rs\<close>
  and \<^verbatim>\<open>exec.rs\<close>: process and file-system I/O with little decision of its own.  The Wayland client of
  \<^verbatim>\<open>wayland.rs\<close>, the PipeWire holder, the instance store on disk, desktop entries, the command line and the
  graphical interface are left out for the same reason.
\<close>

end
